(* ===== verification/Prelude.thy ===== *)
theory Prelude
  imports Main "HOL-Library.AList" "HOL-Library.List_Lexorder" "HOL-Library.Char_ord"
begin

text \<open>
  Shared vocabulary of the development: Go's \<open>int64\<close>, Go maps as association lists, byte
  strings with the parts of package \<open>strings\<close> the sources call, and the generic lemmas the
  component theories use.

  \<^item> \<open>i64\<close> is the wrap-around of a mathematical integer into the 64-bit signed range.
    Values of Go type \<open>int64\<close> are \<open>int\<close>s; \<open>i64\<close> is written at the operations that can
    overflow.
  \<^item> A Go map is an association list with distinct keys (\<open>wf_map\<close>). The order of the list is
    the iteration order of a \<open>range\<close> loop, which Go leaves unspecified: a theorem about a list
    of any order is a theorem about any iteration order. \<open>map_of\<close> reads, \<open>AList.update\<close>
    writes, \<open>AList.delete\<close> deletes; \<open>gcount\<close> is Go's read of an absent integer entry, 0.
  \<^item> A Go string is its list of bytes. \<open>trim_space\<close> is \<open>strings.TrimSpace\<close> on UTF-8 text
    (every white-space rune of Unicode, in its byte encoding); \<open>to_lower\<close> is
    \<open>strings.ToLower\<close> on ASCII text, and leaves other bytes alone.
\<close>

named_theorems go_simps \<open>rewrite rules for the Go values of the model\<close>

section \<open>Definitions\<close>

subsection \<open>Integers of 64 bits\<close>

type_synonym int64 = int

definition i64 :: "int \<Rightarrow> int64" where
  "i64 x = (x + 2 ^ 63) mod 2 ^ 64 - 2 ^ 63"

definition in_i64 :: "int \<Rightarrow> bool" where
  "in_i64 x \<longleftrightarrow> - (2 ^ 63) \<le> x \<and> x < 2 ^ 63"

text \<open>Go's integer division truncates towards zero.\<close>

definition go_div :: "int \<Rightarrow> int \<Rightarrow> int" where
  "go_div a b = sgn a * sgn b * (\<bar>a\<bar> div \<bar>b\<bar>)"

subsection \<open>Maps\<close>

type_synonym ('k, 'v) gomap = "('k \<times> 'v) list"
type_synonym 'k goset = "('k \<times> unit) list"

definition wf_map :: "('k, 'v) gomap \<Rightarrow> bool" where
  "wf_map m \<longleftrightarrow> distinct (map fst m)"

abbreviation keys :: "('k, 'v) gomap \<Rightarrow> 'k list" where
  "keys m \<equiv> map fst m"

definition has_key :: "('k, 'v) gomap \<Rightarrow> 'k \<Rightarrow> bool" where
  "has_key m k \<longleftrightarrow> k \<in> fst ` set m"

definition gcount :: "('k, int) gomap \<Rightarrow> 'k \<Rightarrow> int" where
  "gcount m k = (case map_of m k of None \<Rightarrow> 0 | Some n \<Rightarrow> n)"

definition gincr :: "'k \<Rightarrow> ('k, int) gomap \<Rightarrow> ('k, int) gomap" where
  "gincr k m = AList.update k (gcount m k + 1) m"

definition gdecr :: "'k \<Rightarrow> ('k, int) gomap \<Rightarrow> ('k, int) gomap" where
  "gdecr k m = AList.update k (gcount m k - 1) m"

text \<open>Go's read of an absent string entry, the empty string.\<close>

definition gstring :: "('k, string) gomap \<Rightarrow> 'k \<Rightarrow> string" where
  "gstring m k = (case map_of m k of None \<Rightarrow> [] | Some s \<Rightarrow> s)"

subsection \<open>Byte strings\<close>

definition has_prefix :: "string \<Rightarrow> string \<Rightarrow> bool" where
  "has_prefix p s \<longleftrightarrow> take (length p) s = p"

definition byte :: "char \<Rightarrow> nat" where
  "byte c = of_char c"

definition is_digit :: "char \<Rightarrow> bool" where
  "is_digit c \<longleftrightarrow> 48 \<le> byte c \<and> byte c \<le> 57"

definition is_lower :: "char \<Rightarrow> bool" where
  "is_lower c \<longleftrightarrow> 97 \<le> byte c \<and> byte c \<le> 122"

definition is_upper :: "char \<Rightarrow> bool" where
  "is_upper c \<longleftrightarrow> 65 \<le> byte c \<and> byte c \<le> 90"

definition is_lower_hex :: "char \<Rightarrow> bool" where
  "is_lower_hex c \<longleftrightarrow> is_digit c \<or> (97 \<le> byte c \<and> byte c \<le> 102)"

text \<open>The character class \<open>[a-z0-9-]\<close> of account names.\<close>

definition account_char :: "char \<Rightarrow> bool" where
  "account_char c \<longleftrightarrow> is_lower c \<or> is_digit c \<or> c = CHR ''-''"

definition lower_char :: "char \<Rightarrow> char" where
  "lower_char c = (if is_upper c then char_of (byte c + 32) else c)"

definition to_lower :: "string \<Rightarrow> string" where
  "to_lower s = map lower_char s"

text \<open>The white-space runes of \<open>unicode.IsSpace\<close>, each as its UTF-8 bytes.\<close>

definition space_runes :: "string list" where
  "space_runes =
     [[CHR 0x09], [CHR 0x0A], [CHR 0x0B], [CHR 0x0C], [CHR 0x0D], [CHR 0x20],
      [CHR 0xC2, CHR 0x85], [CHR 0xC2, CHR 0xA0], [CHR 0xE1, CHR 0x9A, CHR 0x80],
      [CHR 0xE2, CHR 0x80, CHR 0x80], [CHR 0xE2, CHR 0x80, CHR 0x81],
      [CHR 0xE2, CHR 0x80, CHR 0x82], [CHR 0xE2, CHR 0x80, CHR 0x83],
      [CHR 0xE2, CHR 0x80, CHR 0x84], [CHR 0xE2, CHR 0x80, CHR 0x85],
      [CHR 0xE2, CHR 0x80, CHR 0x86], [CHR 0xE2, CHR 0x80, CHR 0x87],
      [CHR 0xE2, CHR 0x80, CHR 0x88], [CHR 0xE2, CHR 0x80, CHR 0x89],
      [CHR 0xE2, CHR 0x80, CHR 0x8A], [CHR 0xE2, CHR 0x80, CHR 0xA8],
      [CHR 0xE2, CHR 0x80, CHR 0xA9], [CHR 0xE2, CHR 0x80, CHR 0xAF],
      [CHR 0xE2, CHR 0x81, CHR 0x9F], [CHR 0xE3, CHR 0x80, CHR 0x80]]"

definition leading_rune :: "string list \<Rightarrow> string \<Rightarrow> string option" where
  "leading_rune rs s = List.find (\<lambda>r. r \<noteq> [] \<and> has_prefix r s) rs"

lemma leading_rune_Some:
  "leading_rune rs s = Some r \<Longrightarrow> r \<in> set rs \<and> r \<noteq> [] \<and> has_prefix r s"
  by (auto simp: leading_rune_def find_Some_iff)

lemma has_prefix_drop_less: "r \<noteq> [] \<Longrightarrow> has_prefix r s \<Longrightarrow> length (drop (length r) s) < length s"
  by (cases s) (auto simp: has_prefix_def)

function strip_runes :: "string list \<Rightarrow> string \<Rightarrow> string" where
  "strip_runes rs s =
     (case leading_rune rs s of None \<Rightarrow> s | Some r \<Rightarrow> strip_runes rs (drop (length r) s))"
  by pat_completeness auto
termination
  by (relation "measure (\<lambda>(rs, s). length s)")
     (auto dest!: leading_rune_Some dest: has_prefix_drop_less)

declare strip_runes.simps [simp del]

definition trim_left :: "string \<Rightarrow> string" where
  "trim_left s = strip_runes space_runes s"

definition trim_right :: "string \<Rightarrow> string" where
  "trim_right s = rev (strip_runes (map rev space_runes) (rev s))"

definition trim_space :: "string \<Rightarrow> string" where
  "trim_space s = trim_right (trim_left s)"

text \<open>\<open>strings.ToLower(strings.TrimSpace(s))\<close>, the sources' normal form of user names.\<close>

definition norm_user :: "string \<Rightarrow> string" where
  "norm_user s = to_lower (trim_space s)"

text \<open>\<open>strings.Join\<close>.\<close>

fun join_strings :: "string \<Rightarrow> string list \<Rightarrow> string" where
  "join_strings sep [] = []"
| "join_strings sep [x] = x"
| "join_strings sep (x # y # ys) = x @ sep @ join_strings sep (y # ys)"

text \<open>The first elements of a list without the later copies, as the \<open>seen\<close> maps compute it.\<close>

fun dedup :: "'a list \<Rightarrow> 'a list \<Rightarrow> 'a list" where
  "dedup seen [] = []"
| "dedup seen (x # xs) = (if x \<in> set seen then dedup seen xs else x # dedup (x # seen) xs)"

section \<open>Lemmas\<close>

subsection \<open>Integers of 64 bits\<close>

lemma i64_id: "in_i64 x \<Longrightarrow> i64 x = x"
  by (simp add: i64_def in_i64_def)

lemma in_i64_i64 [simp]: "in_i64 (i64 x)"
proof -
  have "0 \<le> (x + 2 ^ 63) mod 2 ^ 64" "(x + 2 ^ 63) mod 2 ^ 64 < (2 ^ 64 :: int)"
    by simp_all
  then show ?thesis by (simp add: i64_def in_i64_def)
qed

lemma i64_diff_nonneg:
  "in_i64 a \<Longrightarrow> in_i64 b \<Longrightarrow> 0 \<le> a \<Longrightarrow> 0 \<le> b \<Longrightarrow> i64 (a - b) = a - b"
  by (rule i64_id) (simp add: in_i64_def)

lemma in_i64_mono: "in_i64 a \<Longrightarrow> in_i64 b \<Longrightarrow> a \<le> x \<Longrightarrow> x \<le> b \<Longrightarrow> in_i64 x"
  by (simp add: in_i64_def)

subsection \<open>Maps\<close>

lemma has_key_map_of: "has_key m k \<longleftrightarrow> map_of m k \<noteq> None"
  by (simp add: has_key_def map_of_eq_None_iff)

lemma has_key_set: "has_key m k \<longleftrightarrow> k \<in> set (keys m)"
  by (simp add: has_key_def)

lemma wf_map_Nil [simp]: "wf_map []"
  by (simp add: wf_map_def)

lemma wf_map_update [simp]: "wf_map m \<Longrightarrow> wf_map (AList.update k v m)"
  by (simp add: wf_map_def distinct_update)

lemma wf_map_delete [simp]: "wf_map m \<Longrightarrow> wf_map (AList.delete k m)"
  by (simp add: wf_map_def distinct_delete)

lemma wf_map_gincr [simp]: "wf_map m \<Longrightarrow> wf_map (gincr k m)"
  by (simp add: gincr_def)

lemma has_key_update [simp]: "has_key (AList.update k v m) k' \<longleftrightarrow> k' = k \<or> has_key m k'"
  by (auto simp: has_key_map_of update_conv')

lemma map_of_update [simp]: "map_of (AList.update k v m) = (map_of m)(k \<mapsto> v)"
  by (rule update_conv')

lemma map_of_delete_eq [simp]: "map_of (AList.delete k m) = (map_of m)(k := None)"
  by (rule delete_conv')

lemma gcount_Nil [simp]: "gcount [] k = 0"
  by (simp add: gcount_def)

lemma gcount_update [simp]: "gcount (AList.update k v m) k' = (if k' = k then v else gcount m k')"
  by (simp add: gcount_def)

lemma gcount_gincr [simp]: "gcount (gincr k m) k' = gcount m k' + (if k' = k then 1 else 0)"
  by (simp add: gincr_def)

lemma gcount_gdecr [simp]: "gcount (gdecr k m) k' = gcount m k' - (if k' = k then 1 else 0)"
  by (simp add: gdecr_def)

lemma has_key_gincr [simp]: "has_key (gincr k m) k' \<longleftrightarrow> k' = k \<or> has_key m k'"
  by (simp add: gincr_def)

lemma has_key_gdecr [simp]: "has_key (gdecr k m) k' \<longleftrightarrow> k' = k \<or> has_key m k'"
  by (simp add: gdecr_def)

lemma wf_map_map_of: "wf_map m \<Longrightarrow> (k, v) \<in> set m \<longleftrightarrow> map_of m k = Some v"
  by (auto simp: wf_map_def intro: map_of_SomeD)

lemma length_update_new: "\<not> has_key m k \<Longrightarrow> length (AList.update k v m) = Suc (length m)"
  by (induction m) (auto simp: has_key_def)

lemma length_update_old: "has_key m k \<Longrightarrow> length (AList.update k v m) = length m"
  by (induction m) (auto simp: has_key_def)

subsection \<open>Searching a list\<close>

lemma find_SomeD: "List.find P xs = Some x \<Longrightarrow> x \<in> set xs \<and> P x"
  by (induction xs) (auto split: if_splits)

lemma find_exists: "x \<in> set xs \<Longrightarrow> P x \<Longrightarrow> \<exists>y. List.find P xs = Some y"
  by (induction xs) auto

lemma int_sum_list: "(\<Sum>x\<leftarrow>xs. int (f x)) = int (\<Sum>x\<leftarrow>xs. f x)"
  by (induction xs) auto

lemma set_dedup: "set (dedup seen xs) = set xs - set seen"
  by (induction seen xs rule: dedup.induct) auto

lemma distinct_dedup [simp]: "distinct (dedup seen xs)"
  by (induction seen xs rule: dedup.induct) (auto simp: set_dedup)

lemma byte_bound: "byte c < 256"
  by (simp add: byte_def)

subsection \<open>Byte strings\<close>

lemma has_prefix_append [simp]: "has_prefix p (p @ s)"
  by (simp add: has_prefix_def)

lemma has_prefix_Nil [simp]: "has_prefix [] s"
  by (simp add: has_prefix_def)

lemma has_prefix_iff: "has_prefix p s \<longleftrightarrow> (\<exists>t. s = p @ t)"
  unfolding has_prefix_def by (metis append_eq_conv_conj append_take_drop_id)

lemma has_prefix_Cons [simp]: "has_prefix (c # p) (d # s) \<longleftrightarrow> c = d \<and> has_prefix p s"
  by (auto simp: has_prefix_def)

lemma has_prefix_Cons_Nil [simp]: "\<not> has_prefix (c # p) []"
  by (simp add: has_prefix_def)

lemma leading_rune_strip: "leading_rune rs (strip_runes rs s) = None"
proof (induction rs s rule: strip_runes.induct)
  case (1 rs s)
  then show ?case
    by (cases "leading_rune rs s") (simp_all add: strip_runes.simps [of rs s])
qed

lemma strip_runes_fix: "leading_rune rs s = None \<Longrightarrow> strip_runes rs s = s"
  by (simp add: strip_runes.simps)

lemma strip_runes_idem: "strip_runes rs (strip_runes rs s) = strip_runes rs s"
  by (simp add: strip_runes_fix leading_rune_strip)

lemma strip_runes_suffix: "\<exists>p. s = p @ strip_runes rs s"
proof (induction rs s rule: strip_runes.induct)
  case (1 rs s)
  show ?case
  proof (cases "leading_rune rs s")
    case None
    then show ?thesis by (simp add: strip_runes_fix)
  next
    case (Some r)
    from "1" [OF Some] obtain p where p: "drop (length r) s = p @ strip_runes rs (drop (length r) s)"
      by blast
    have "s = take (length r) s @ drop (length r) s" by simp
    with p have "s = (take (length r) s @ p) @ strip_runes rs (drop (length r) s)" by simp
    with Some show ?thesis by (metis strip_runes.simps option.simps(5))
  qed
qed

lemma trim_right_prefix: "\<exists>q. s = trim_right s @ q"
proof -
  obtain p where "rev s = p @ strip_runes (map rev space_runes) (rev s)"
    using strip_runes_suffix by blast
  then have "s = trim_right s @ rev p"
    unfolding trim_right_def by (metis rev_append rev_rev_ident)
  then show ?thesis ..
qed

lemma trim_left_suffix: "\<exists>p. s = p @ trim_left s"
  unfolding trim_left_def by (rule strip_runes_suffix)

lemma leading_rune_None_append:
  "leading_rune rs (s @ q) = None \<Longrightarrow> leading_rune rs s = None"
  by (auto simp: leading_rune_def find_None_iff has_prefix_iff)

lemma trim_left_trim_space [simp]: "trim_left (trim_space s) = trim_space s"
proof -
  obtain q where q: "trim_left s = trim_space s @ q"
    unfolding trim_space_def using trim_right_prefix by blast
  have "leading_rune space_runes (trim_left s) = None"
    unfolding trim_left_def by (rule leading_rune_strip)
  then have "leading_rune space_runes (trim_space s) = None"
    unfolding q by (rule leading_rune_None_append)
  then show ?thesis by (simp add: trim_left_def strip_runes_fix)
qed

lemma trim_right_trim_space [simp]: "trim_right (trim_space s) = trim_space s"
  by (simp add: trim_space_def trim_right_def strip_runes_idem)

lemma trim_space_idem [simp]: "trim_space (trim_space s) = trim_space s"
  by (subst trim_space_def) simp

lemma trim_space_Nil [simp]: "trim_space [] = []"
  by (simp add: trim_space_def trim_left_def trim_right_def leading_rune_def find_None_iff
      strip_runes_fix has_prefix_def)

lemma set_trim_space: "set (trim_space s) \<subseteq> set s"
proof -
  obtain p where "s = p @ trim_left s" using trim_left_suffix by blast
  then have 1: "set (trim_left s) \<subseteq> set s" by (metis set_append sup_ge2)
  obtain q where "trim_left s = trim_space s @ q"
    unfolding trim_space_def using trim_right_prefix by blast
  then have "set (trim_space s) \<subseteq> set (trim_left s)" by auto
  with 1 show ?thesis by blast
qed

end
