(* ===== verification/Gateway_Path.thy ===== *)
theory Gateway_Path
  imports Prelude
begin

text \<open>
  \<open>internal/gateway/path.go\<close>: the allow-list of public paths and the parser of the
  \<open>Authorization\<close> header. \<open>path.Clean\<close> is modelled on rooted paths, the only ones
  \<open>NormalizePublicPath\<close> hands to it: the segments between slashes, with empty and \<open>.\<close>
  segments dropped and \<open>..\<close> removing the segment before it (none at the root). The regular
  expression of \<open>ExtractBearer\<close> is read as the decomposition it matches.
\<close>

section \<open>Definitions\<close>

fun split_on :: "char \<Rightarrow> string \<Rightarrow> string list" where
  "split_on c [] = [[]]"
| "split_on c (x # xs) =
     (if x = c then [] # split_on c xs
      else case split_on c xs of [] \<Rightarrow> [[x]] | y # ys \<Rightarrow> (x # y) # ys)"

fun clean_segments :: "string list \<Rightarrow> string list \<Rightarrow> string list" where
  "clean_segments st [] = rev st"
| "clean_segments st (s # ss) =
     (if s = [] \<or> s = ''.'' then clean_segments st ss
      else if s = ''..'' then clean_segments (tl st) ss
      else clean_segments (s # st) ss)"

definition path_segments :: "string \<Rightarrow> string list" where
  "path_segments p = clean_segments [] (split_on (CHR ''/'') p)"

definition path_clean :: "string \<Rightarrow> string" where
  "path_clean p = ''/'' @ join_strings ''/'' (path_segments p)"

definition publicPathPrefixes :: "string list" where
  "publicPathPrefixes = [''/v1'', ''/v1beta'', ''/backend-api/codex'', ''/api/provider'']"

definition NormalizePublicPath :: "string \<Rightarrow> string option" where
  "NormalizePublicPath path =
     (if path = [] \<or> hd path \<noteq> CHR ''/'' then None
      else let normalized = path_clean path
           in if normalized = ''/v1internal:method'' then Some normalized
              else if list_ex (\<lambda>pre. normalized = pre \<or> has_prefix (pre @ ''/'') normalized)
                        publicPathPrefixes
              then Some normalized
              else None)"

definition AllowedPublicPath :: "string \<Rightarrow> bool" where
  "AllowedPublicPath path \<longleftrightarrow> NormalizePublicPath path \<noteq> None"

text \<open>The class \<open>[[:space:]]\<close> of the regular expression.\<close>

definition re_space :: "char \<Rightarrow> bool" where
  "re_space c \<longleftrightarrow> (9 \<le> byte c \<and> byte c \<le> 13) \<or> byte c = 32"

definition ExtractBearer :: "string \<Rightarrow> string option" where
  "ExtractBearer header =
     (if to_lower (take 6 header) \<noteq> ''bearer'' then None
      else let r = drop 6 header;
               k = dropWhile re_space r;
               key = takeWhile (\<lambda>c. \<not> re_space c) k;
               rest = dropWhile (\<lambda>c. \<not> re_space c) k
           in if takeWhile re_space r = [] \<or> key = [] \<or> \<not> list_all re_space rest then None
              else Some key)"

text \<open>A segment that \<open>path.Clean\<close> may leave in a path.\<close>

definition clean_segment :: "string \<Rightarrow> bool" where
  "clean_segment s \<longleftrightarrow> s \<noteq> [] \<and> s \<noteq> ''.'' \<and> s \<noteq> ''..'' \<and> CHR ''/'' \<notin> set s"

text \<open>What the allow-list promises of a normalized path.\<close>

definition public_path :: "string \<Rightarrow> bool" where
  "public_path q \<longleftrightarrow> q = ''/v1internal:method'' \<or>
     (\<exists>pre \<in> set publicPathPrefixes. q = pre \<or> has_prefix (pre @ ''/'') q)"

section \<open>Lemmas\<close>

lemma split_on_not_Nil [simp]: "split_on c s \<noteq> []"
  by (induction s) (auto split: list.splits)

lemma split_on_parts: "x \<in> set (split_on c s) \<Longrightarrow> c \<notin> set x"
proof (induction s arbitrary: x)
  case Nil
  then show ?case by simp
next
  case (Cons a s)
  then show ?case
    by (cases "split_on c s") (auto split: if_splits)
qed

lemma split_on_fresh: "c \<notin> set x \<Longrightarrow> split_on c x = [x]"
  by (induction x) auto

lemma split_on_append: "c \<notin> set x \<Longrightarrow> split_on c (x @ c # y) = x # split_on c y"
  by (induction x) auto

lemma split_on_join:
  "\<forall>x \<in> set xs. c \<notin> set x \<Longrightarrow> xs \<noteq> [] \<Longrightarrow> split_on c (join_strings [c] xs) = xs"
  by (induction "[c]" xs rule: join_strings.induct) (auto simp: split_on_fresh split_on_append)

lemma clean_segments_clean:
  "\<forall>x \<in> set st \<union> set ss. CHR ''/'' \<notin> set x \<Longrightarrow> \<forall>x \<in> set st. clean_segment x \<Longrightarrow>
   \<forall>x \<in> set (clean_segments st ss). clean_segment x"
proof (induction st ss rule: clean_segments.induct)
  case (1 st)
  then show ?case by simp
next
  case (2 st s ss)
  have tl: "set (tl st) \<subseteq> set st" by (cases st) auto
  consider "s = [] \<or> s = ''.''" | "s = ''..''" | "clean_segment s"
    using "2.prems"(1) by (auto simp: clean_segment_def)
  then show ?case
  proof cases
    case 1
    then show ?thesis using "2.IH"(1) "2.prems" by auto
  next
    case 2
    then show ?thesis using "2.IH"(2) "2.prems" tl by auto
  next
    case 3
    then have ne: "\<not> (s = [] \<or> s = ''.'')" "s \<noteq> ''..''" by (auto simp: clean_segment_def)
    have "\<forall>x \<in> set (clean_segments (s # st) ss). clean_segment x"
      by (rule "2.IH"(3) [OF ne]) (use "2.prems" 3 in auto)
    with ne show ?thesis by (simp only: clean_segments.simps if_False)
  qed
qed

lemma clean_segments_id: "\<forall>x \<in> set ss. clean_segment x \<Longrightarrow> clean_segments st ss = rev st @ ss"
  by (induction st ss rule: clean_segments.induct) (auto simp: clean_segment_def)

lemma path_segments_clean: "\<forall>x \<in> set (path_segments p). clean_segment x"
  unfolding path_segments_def
  by (rule clean_segments_clean) (auto dest: split_on_parts)

lemma path_segments_path_clean [simp]: "path_segments (path_clean p) = path_segments p"
proof -
  let ?ss = "path_segments p"
  have c: "\<forall>x \<in> set ?ss. clean_segment x" by (rule path_segments_clean)
  have "clean_segments [] (split_on (CHR ''/'') (join_strings ''/'' ?ss)) = ?ss"
  proof (cases "?ss = []")
    case True
    then show ?thesis by simp
  next
    case False
    then have "split_on (CHR ''/'') (join_strings ''/'' ?ss) = ?ss"
      using c by (intro split_on_join) (auto simp: clean_segment_def)
    with c show ?thesis by (simp add: clean_segments_id)
  qed
  then show ?thesis by (simp add: path_clean_def path_segments_def [of "CHR ''/'' # _"])
qed

lemma path_clean_idem [simp]: "path_clean (path_clean p) = path_clean p"
  by (metis path_clean_def path_segments_path_clean)

lemma hd_path_clean: "path_clean p \<noteq> [] \<and> hd (path_clean p) = CHR ''/''"
  by (simp add: path_clean_def)

lemma NormalizePublicPath_Some:
  "NormalizePublicPath p = Some q \<longleftrightarrow>
     p \<noteq> [] \<and> hd p = CHR ''/'' \<and> q = path_clean p \<and> public_path q"
  by (auto simp: NormalizePublicPath_def public_path_def Let_def list_ex_iff)

lemma dropWhile_takeWhile_exact:
  "\<forall>c \<in> set xs. P c \<Longrightarrow> ys = [] \<or> \<not> P (hd ys) \<Longrightarrow>
   takeWhile P (xs @ ys) = xs \<and> dropWhile P (xs @ ys) = ys"
  by (cases ys) (auto simp: takeWhile_append2 dropWhile_append2)

lemma ExtractBearer_Some:
  "ExtractBearer h = Some key \<longleftrightarrow>
     to_lower (take 6 h) = ''bearer'' \<and> takeWhile re_space (drop 6 h) \<noteq> [] \<and>
     key = takeWhile (\<lambda>c. \<not> re_space c) (dropWhile re_space (drop 6 h)) \<and> key \<noteq> [] \<and>
     list_all re_space (dropWhile (\<lambda>c. \<not> re_space c) (dropWhile re_space (drop 6 h)))"
  unfolding ExtractBearer_def Let_def by (auto simp only: if_True if_False option.inject option.distinct split: if_split)

section \<open>Properties\<close>

text \<open>
  C23: the path the gateway forwards is exactly the cleaned request path; it lies under the public
  allow-list, every segment of it is non-empty, free of slashes and neither \<open>.\<close> nor \<open>..\<close>,
  and normalizing it again changes nothing, so checking and forwarding see the same path.
\<close>

theorem NormalizePublicPath_safe:
  assumes "NormalizePublicPath path = Some q"
  shows "q = path_clean path \<and> public_path q \<and>
         q = ''/'' @ join_strings ''/'' (path_segments q) \<and>
         (\<forall>s \<in> set (path_segments q). clean_segment s) \<and>
         NormalizePublicPath q = Some q"
proof -
  from assms have q: "q = path_clean path" "public_path q"
    unfolding NormalizePublicPath_Some by blast+
  then have "NormalizePublicPath q = Some q"
    using NormalizePublicPath_Some [of q q] hd_path_clean [of path] by (metis path_clean_idem)
  moreover have "q = ''/'' @ join_strings ''/'' (path_segments q)"
    using q(1) by (metis path_clean_def path_segments_path_clean)
  ultimately show ?thesis using q path_segments_clean by blast
qed

theorem NormalizePublicPath_safe_witness:
  "NormalizePublicPath ''/v1//x/../models'' = Some ''/v1/models'' \<and>
   NormalizePublicPath ''/v1/models'' = Some ''/v1/models'' \<and>
   NormalizePublicPath ''/v1/../admin'' = None"
proof -
  have h: "NormalizePublicPath ''/v1//x/../models'' = Some ''/v1/models''" by code_simp
  have "NormalizePublicPath ''/v1/../admin'' = None" by code_simp
  with h NormalizePublicPath_safe [OF h] show ?thesis by blast
qed

text \<open>
  \<open>ExtractBearer\<close> accepts exactly the headers made of the scheme \<open>bearer\<close> in any case,
  at least one white-space byte, a non-empty key free of white space, and optional trailing
  white space; the result is that key.
\<close>

theorem ExtractBearer_iff:
  "ExtractBearer header = Some key \<longleftrightarrow>
     (\<exists>scheme gap trail. header = scheme @ gap @ key @ trail \<and> to_lower scheme = ''bearer'' \<and>
        gap \<noteq> [] \<and> (\<forall>c \<in> set gap. re_space c) \<and>
        key \<noteq> [] \<and> (\<forall>c \<in> set key. \<not> re_space c) \<and> (\<forall>c \<in> set trail. re_space c))"
  (is "_ \<longleftrightarrow> ?R")
proof
  assume *: "ExtractBearer header = Some key"
  let ?r = "drop 6 header" and ?n = "\<lambda>c. \<not> re_space c"
  let ?k = "dropWhile re_space ?r"
  have k: "key = takeWhile ?n ?k"
    using * unfolding ExtractBearer_Some by blast
  have "header = take 6 header @ takeWhile re_space ?r @ key @ dropWhile ?n ?k"
    unfolding k by simp
  moreover have "to_lower (take 6 header) = ''bearer''" "takeWhile re_space ?r \<noteq> []" "key \<noteq> []"
    and "\<forall>c \<in> set (dropWhile ?n ?k). re_space c"
    using * unfolding ExtractBearer_Some list_all_iff by blast+
  moreover have "\<forall>c \<in> set key. \<not> re_space c" "\<forall>c \<in> set (takeWhile re_space ?r). re_space c"
    using k by (auto dest: set_takeWhileD)
  ultimately show ?R by blast
next
  assume ?R
  then obtain scheme gap trail where h: "header = scheme @ gap @ key @ trail"
    and s: "to_lower scheme = ''bearer''"
    and g: "gap \<noteq> []" "\<forall>c \<in> set gap. re_space c"
    and k: "key \<noteq> []" "\<forall>c \<in> set key. \<not> re_space c" and t: "\<forall>c \<in> set trail. re_space c"
    by blast
  have "length scheme = 6"
    using arg_cong [OF s, of length] by (simp add: to_lower_def)
  then have th: "take 6 header = scheme" "drop 6 header = gap @ key @ trail" by (simp_all add: h)
  have 1: "takeWhile re_space (gap @ key @ trail) = gap \<and> dropWhile re_space (gap @ key @ trail) = key @ trail"
    by (rule dropWhile_takeWhile_exact) (use g k in \<open>auto simp: hd_append\<close>)
  have 2: "takeWhile (\<lambda>c. \<not> re_space c) (key @ trail) = key \<and> dropWhile (\<lambda>c. \<not> re_space c) (key @ trail) = trail"
    by (rule dropWhile_takeWhile_exact) (use k t in \<open>auto dest: hd_in_set\<close>)
  show "ExtractBearer header = Some key"
    using 1 2 s g k t by (simp add: ExtractBearer_def th list_all_iff)
qed

theorem ExtractBearer_iff_witness:
  "ExtractBearer ''bEARER  k1 '' = Some ''k1'' \<and> ExtractBearer ''Basic k1'' \<noteq> Some ''k1''"
proof -
  have "''bEARER  k1 '' = ''bEARER'' @ ''  '' @ ''k1'' @ '' ''" "to_lower ''bEARER'' = ''bearer''"
    by (simp, code_simp)
  moreover have "(''  '' :: string) \<noteq> []" "\<forall>c \<in> set ''  ''. re_space c" "(''k1'' :: string) \<noteq> []"
    "\<forall>c \<in> set ''k1''. \<not> re_space c" "\<forall>c \<in> set '' ''. re_space c"
    by code_simp+
  ultimately have "ExtractBearer ''bEARER  k1 '' = Some ''k1''"
    unfolding ExtractBearer_iff by blast
  moreover have "ExtractBearer ''Basic k1'' = None" by code_simp
  ultimately show ?thesis by simp
qed

end
