(* ===== verification/Float64.thy ===== *)
theory Float64
  imports Prelude Complex_Main "HOL-Library.Log_Nat"
begin

text \<open>
  Go's \<open>float64\<close>: a NaN, the two infinities, or a finite value, held as the rational it stands
  for (the sign of zero is not kept: no source modelled here divides by a zero or prints one).
  The result of an operation is the exact rational rounded to the nearest representable value,
  ties to even, with overflow to an infinity (\<open>f64_round\<close>), as IEEE 754 prescribes. The only
  facts the components need of the rounding are that it keeps a value between two integers of
  magnitude below \<open>2 ^ 53\<close> (\<open>f64_round_between\<close>) and that it is exact there
  (\<open>f64_round_of_int\<close>).
\<close>

section \<open>Definitions\<close>

datatype float64 = NaN | Infinity bool | Finite rat

text \<open>The exponent \<open>k\<close> with \<open>2 ^ k \<le> a < 2 ^ (k + 1)\<close>, for a positive rational.\<close>

definition log2_floor :: "rat \<Rightarrow> int" where
  "log2_floor a =
     (let (n, d) = quotient_of a; k = bitlen n - bitlen d
      in if (2::rat) powi k \<le> a then k else k - 1)"

definition round_half_even :: "rat \<Rightarrow> int" where
  "round_half_even x =
     (let f = \<lfloor>x\<rfloor>; r = x - of_int f
      in if r < 1 / 2 then f else if r > 1 / 2 then f + 1 else if even f then f else f + 1)"

definition f64_round :: "rat \<Rightarrow> float64" where
  "f64_round q =
     (if q = 0 then Finite 0
      else let e = max (- 1074) (log2_floor \<bar>q\<bar> - 52); g = (2::rat) powi e;
               r = of_int (round_half_even (\<bar>q\<bar> / g)) * g
           in if (2::rat) ^ 1024 \<le> r then Infinity (q < 0) else Finite (sgn q * r))"

definition f64_of_int :: "int \<Rightarrow> float64" where
  "f64_of_int n = f64_round (of_int n)"

definition is_nan :: "float64 \<Rightarrow> bool" where
  "is_nan x \<longleftrightarrow> x = NaN"

fun is_inf :: "float64 \<Rightarrow> bool" where
  "is_inf (Infinity _) = True"
| "is_inf _ = False"

fun f64_lt :: "float64 \<Rightarrow> float64 \<Rightarrow> bool" where
  "f64_lt (Finite a) (Finite b) = (a < b)"
| "f64_lt (Finite a) (Infinity s) = (\<not> s)"
| "f64_lt (Infinity s) (Finite b) = s"
| "f64_lt (Infinity s) (Infinity t) = (s \<and> \<not> t)"
| "f64_lt _ _ = False"

fun f64_le :: "float64 \<Rightarrow> float64 \<Rightarrow> bool" where
  "f64_le NaN _ = False"
| "f64_le _ NaN = False"
| "f64_le x y = (f64_lt x y \<or> x = y)"

text \<open>Go's \<open>==\<close> and \<open>!=\<close>: a NaN is different from everything.\<close>

definition f64_eq :: "float64 \<Rightarrow> float64 \<Rightarrow> bool" where
  "f64_eq x y \<longleftrightarrow> x \<noteq> NaN \<and> x = y"

fun f64_add :: "float64 \<Rightarrow> float64 \<Rightarrow> float64" where
  "f64_add (Finite a) (Finite b) = f64_round (a + b)"
| "f64_add (Infinity s) (Finite b) = Infinity s"
| "f64_add (Finite a) (Infinity s) = Infinity s"
| "f64_add (Infinity s) (Infinity t) = (if s = t then Infinity s else NaN)"
| "f64_add _ _ = NaN"

fun f64_neg :: "float64 \<Rightarrow> float64" where
  "f64_neg NaN = NaN"
| "f64_neg (Infinity s) = Infinity (\<not> s)"
| "f64_neg (Finite a) = Finite (- a)"

definition f64_sub :: "float64 \<Rightarrow> float64 \<Rightarrow> float64" where
  "f64_sub x y = f64_add x (f64_neg y)"

fun f64_mul :: "float64 \<Rightarrow> float64 \<Rightarrow> float64" where
  "f64_mul (Finite a) (Finite b) = f64_round (a * b)"
| "f64_mul (Infinity s) (Finite b) = (if b = 0 then NaN else Infinity (s \<noteq> (b < 0)))"
| "f64_mul (Finite a) (Infinity s) = (if a = 0 then NaN else Infinity (s \<noteq> (a < 0)))"
| "f64_mul (Infinity s) (Infinity t) = Infinity (s \<noteq> t)"
| "f64_mul _ _ = NaN"

fun f64_div :: "float64 \<Rightarrow> float64 \<Rightarrow> float64" where
  "f64_div (Finite a) (Finite b) =
     (if b = 0 then if a = 0 then NaN else Infinity (a < 0) else f64_round (a / b))"
| "f64_div (Infinity s) (Finite b) = Infinity (s \<noteq> (b < 0))"
| "f64_div (Finite a) (Infinity s) = Finite 0"
| "f64_div _ _ = NaN"

text \<open>\<open>math.Max\<close> and \<open>math.Min\<close>.\<close>

definition f64_max :: "float64 \<Rightarrow> float64 \<Rightarrow> float64" where
  "f64_max x y = (if x = Infinity False \<or> y = Infinity False then Infinity False
                  else if x = NaN \<or> y = NaN then NaN else if f64_lt y x then x else y)"

definition f64_min :: "float64 \<Rightarrow> float64 \<Rightarrow> float64" where
  "f64_min x y = (if x = Infinity True \<or> y = Infinity True then Infinity True
                  else if x = NaN \<or> y = NaN then NaN else if f64_lt x y then x else y)"

text \<open>\<open>math.Floor\<close> and \<open>math.Round\<close> (half away from zero); exact on finite values.\<close>

fun f64_floor :: "float64 \<Rightarrow> float64" where
  "f64_floor (Finite a) = Finite (of_int \<lfloor>a\<rfloor>)"
| "f64_floor x = x"

fun f64_rint :: "float64 \<Rightarrow> float64" where
  "f64_rint (Finite a) = Finite (sgn a * of_int \<lfloor>\<bar>a\<bar> + 1 / 2\<rfloor>)"
| "f64_rint x = x"

text \<open>
  The conversion \<open>int64(x)\<close> truncates towards zero. Out of range, and on a NaN, Go leaves the
  value to the implementation; this is the amd64 one.
\<close>

fun f64_to_int64 :: "float64 \<Rightarrow> int64" where
  "f64_to_int64 (Finite a) =
     (let n = (if 0 \<le> a then \<lfloor>a\<rfloor> else \<lceil>a\<rceil>) in if in_i64 n then n else - (2 ^ 63))"
| "f64_to_int64 _ = - (2 ^ 63)"

section \<open>Lemmas\<close>

lemma f64_lt_irrefl [simp]: "\<not> f64_lt x x"
  by (cases x) auto

lemma f64_lt_trans: "f64_lt x y \<Longrightarrow> f64_lt y z \<Longrightarrow> f64_lt x z"
  by (cases x; cases y; cases z) auto

lemma f64_lt_asym: "f64_lt x y \<Longrightarrow> \<not> f64_lt y x"
  by (cases x; cases y) auto

lemma f64_lt_not_nan: "f64_lt x y \<Longrightarrow> x \<noteq> NaN \<and> y \<noteq> NaN"
  by (cases x; cases y) auto

lemma f64_lt_total: "x \<noteq> NaN \<Longrightarrow> y \<noteq> NaN \<Longrightarrow> f64_lt x y \<or> x = y \<or> f64_lt y x"
  by (cases x; cases y) auto

lemma f64_le_iff: "f64_le x y \<longleftrightarrow> x \<noteq> NaN \<and> y \<noteq> NaN \<and> (f64_lt x y \<or> x = y)"
  by (cases x; cases y) auto

lemma f64_eq_Finite [simp]: "f64_eq (Finite a) (Finite b) \<longleftrightarrow> a = b"
  by (simp add: f64_eq_def)

lemma round_half_even_le: "x \<le> of_int n \<Longrightarrow> round_half_even x \<le> n"
proof -
  assume le: "x \<le> of_int n"
  show ?thesis
  proof (cases "\<lfloor>x\<rfloor> = n")
    case True
    with le have "x - of_int \<lfloor>x\<rfloor> \<le> 0" by simp
    with True show ?thesis by (simp add: round_half_even_def)
  next
    case False
    moreover have "\<lfloor>x\<rfloor> \<le> n" using le by linarith
    ultimately have "\<lfloor>x\<rfloor> + 1 \<le> n" by simp
    then show ?thesis by (simp add: round_half_even_def Let_def)
  qed
qed

lemma round_half_even_ge: "of_int n \<le> x \<Longrightarrow> n \<le> round_half_even x"
proof -
  assume "of_int n \<le> x"
  then have "n \<le> \<lfloor>x\<rfloor>" by (simp add: le_floor_iff)
  then show ?thesis by (simp add: round_half_even_def Let_def)
qed

lemma log2_floor_le:
  assumes "0 < a" shows "(2::rat) powi log2_floor a \<le> a"
proof -
  obtain n d where q: "quotient_of a = (n, d)" by force
  have d: "0 < d" using quotient_of_denom_pos [OF q] .
  have a: "a = of_int n / of_int d" using quotient_of_div [OF q] .
  have n: "0 < n"
    using assms d by (simp add: a zero_less_divide_iff)
  define k where "k = bitlen n - bitlen d"
  have bn: "(2::rat) ^ nat (bitlen n - 1) \<le> of_int n"
    using bitlen_bounds [OF n] by (metis of_int_le_iff of_int_numeral of_int_power)
  have bd: "of_int d < (2::rat) ^ nat (bitlen d)"
    using bitlen_bounds [OF d] by (metis of_int_less_iff of_int_numeral of_int_power)
  have pos: "0 < bitlen n" "0 < bitlen d"
    using n d by (simp_all add: bitlen_eq_zero_iff less_le bitlen_nonneg)
  have "(2::rat) powi (k - 1) = 2 powi ((bitlen n - 1) - bitlen d)"
    by (simp add: k_def algebra_simps)
  also have "\<dots> = 2 powi (bitlen n - 1) / 2 powi bitlen d"
    by (rule power_int_diff) simp
  also have "\<dots> = 2 ^ nat (bitlen n - 1) / 2 ^ nat (bitlen d)"
    using pos by (simp add: power_int_def)
  also have "\<dots> \<le> of_int n / of_int d"
    by (rule frac_le) (use n d bn bd in auto)
  finally have "(2::rat) powi (k - 1) \<le> a" by (simp add: a)
  then show ?thesis by (simp add: log2_floor_def q k_def Let_def)
qed

lemma powi_neg_of_int: "e \<le> 0 \<Longrightarrow> of_int n / (2::rat) powi e = of_int (n * 2 ^ nat (- e))"
  by (simp add: power_int_def field_simps)

text \<open>Rounding keeps a value between two integers of magnitude below \<open>2 ^ 53\<close>.\<close>

lemma f64_round_pos_between:
  assumes q: "0 < q" "q < 2 ^ 53" and lo: "of_int l \<le> q" and hi: "q \<le> of_int h"
  shows "\<exists>r. f64_round q = Finite r \<and> of_int l \<le> r \<and> r \<le> of_int h"
proof -
  define e where "e = max (- 1074) (log2_floor q - 52)"
  define g where "g = (2::rat) powi e"
  have g: "0 < g" by (simp add: g_def)
  have "(2::rat) powi log2_floor q < 2 powi 53"
    using log2_floor_le [OF q(1)] q(2) by (simp add: power_int_def)
  then have "log2_floor q < 53"
    by (metis linorder_not_less one_le_numeral power_int_increasing)
  then have e0: "e \<le> 0" by (simp add: e_def)
  define m where "m = round_half_even (q / g)"
  have scale: "of_int (x * 2 ^ nat (- e)) = of_int x / g" for x
    unfolding g_def by (rule powi_neg_of_int [OF e0, symmetric])
  have "of_int (l * 2 ^ nat (- e)) \<le> q / g"
    unfolding scale by (rule divide_right_mono) (use lo g in auto)
  then have ml: "l * 2 ^ nat (- e) \<le> m" unfolding m_def by (rule round_half_even_ge)
  have "q / g \<le> of_int (h * 2 ^ nat (- e))"
    unfolding scale by (rule divide_right_mono) (use hi g in auto)
  then have mh: "m \<le> h * 2 ^ nat (- e)" unfolding m_def by (rule round_half_even_le)
  have unscale: "of_int (x * 2 ^ nat (- e)) * g = of_int x" for x
    unfolding scale using g by simp
  have upper: "of_int m * g \<le> of_int x" if "m \<le> x * 2 ^ nat (- e)" for x
  proof -
    have "of_int m * g \<le> of_int (x * 2 ^ nat (- e)) * g"
      by (rule mult_right_mono) (use that g in \<open>auto simp only: of_int_le_iff less_imp_le\<close>)
    then show ?thesis unfolding unscale .
  qed
  have "of_int (l * 2 ^ nat (- e)) * g \<le> of_int m * g"
    by (rule mult_right_mono) (use ml g in \<open>auto simp only: of_int_le_iff less_imp_le\<close>)
  then have rl: "of_int l \<le> of_int m * g" unfolding unscale .
  have rh: "of_int m * g \<le> of_int h" by (rule upper [OF mh])
  have "q / g \<le> of_int (2 ^ 53 * 2 ^ nat (- e))"
    unfolding scale by (rule divide_right_mono) (use q g in auto)
  then have "m \<le> 2 ^ 53 * 2 ^ nat (- e)" unfolding m_def by (rule round_half_even_le)
  then have "of_int m * g \<le> of_int (2 ^ 53)" by (rule upper)
  then have "of_int m * g \<le> 2 ^ 53" by simp
  also have "\<dots> < 2 ^ 1024" by (rule power_strict_increasing) simp_all
  finally have small: "\<not> (2::rat) ^ 1024 \<le> of_int m * g" by simp
  have "f64_round q = Finite (of_int m * g)"
    using q(1) small by (simp add: f64_round_def Let_def e_def [symmetric] g_def [symmetric] m_def)
  with rl rh show ?thesis by blast
qed

lemma f64_round_uminus: "f64_round (- q) = f64_neg (f64_round q)"
  by (auto simp: f64_round_def Let_def sgn_if)

lemma f64_round_between:
  assumes q: "\<bar>q\<bar> < 2 ^ 53" and lo: "of_int l \<le> q" and hi: "q \<le> of_int h"
  shows "\<exists>r. f64_round q = Finite r \<and> of_int l \<le> r \<and> r \<le> of_int h"
proof (cases q "0::rat" rule: linorder_cases)
  case less
  have "\<exists>r. f64_round (- q) = Finite r \<and> of_int (- h) \<le> r \<and> r \<le> of_int (- l)"
    by (rule f64_round_pos_between) (use less q lo hi in auto)
  then obtain r where r: "f64_round (- q) = Finite r" "of_int (- h) \<le> r" "r \<le> of_int (- l)"
    by blast
  have "f64_round q = Finite (- r)"
    using f64_round_uminus [of "- q"] r(1) by simp
  with r(2,3) show ?thesis by auto
next
  case equal
  with lo hi show ?thesis by (simp add: f64_round_def)
next
  case greater
  with q lo hi show ?thesis by (intro f64_round_pos_between) auto
qed

lemma f64_round_of_int: "\<bar>n\<bar> < 2 ^ 53 \<Longrightarrow> f64_round (of_int n) = Finite (of_int n)"
proof -
  assume "\<bar>n\<bar> < 2 ^ 53"
  then have "\<bar>of_int n :: rat\<bar> < 2 ^ 53"
    by (metis of_int_abs of_int_less_iff of_int_numeral of_int_power)
  from f64_round_between [OF this order.refl order.refl] show ?thesis by fastforce
qed

lemma f64_of_int_exact: "\<bar>n\<bar> < 2 ^ 53 \<Longrightarrow> f64_of_int n = Finite (of_int n)"
  by (simp add: f64_of_int_def f64_round_of_int)

end
