(* ===== verification/Go_Any.thy ===== *)
theory Go_Any
  imports Float64
begin

text \<open>
  Go's \<open>any\<close>, restricted to the dynamic types the sources switch on: what \<open>encoding/json\<close>
  stores in an \<open>any\<close> (with or without \<open>UseNumber\<close>), and the integer types of settings maps.
  An object is the association list of its members. The accessors are the type assertions
  \<open>value.(T)\<close> the sources write.

  Text to number conversion, \<open>strconv.ParseFloat\<close>, is an argument \<open>pf\<close> of the functions that
  call it (\<open>None\<close> is its error); no theorem assumes anything of it.
\<close>

datatype goany =
    ANil
  | ABool bool
  | AFloat float64
  | AInt int
  | AInt64 int64
  | ANumber string
  | AString string
  | AList "goany list"
  | AObject "(string \<times> goany) list"

type_synonym parse_float = "string \<Rightarrow> float64 option"

definition finite64 :: "float64 \<Rightarrow> bool" where
  "finite64 x \<longleftrightarrow> \<not> is_nan x \<and> \<not> is_inf x"

lemma finite64_iff: "finite64 x \<longleftrightarrow> (\<exists>a. x = Finite a)"
  by (cases x) (auto simp: finite64_def is_nan_def)

lemma finite64_Finite [simp]: "finite64 (Finite a)"
  by (simp add: finite64_iff)

text \<open>A member of an object; Go's read of an absent one, or of a nil map, is nil.\<close>

fun obj_get :: "(string \<times> goany) list option \<Rightarrow> string \<Rightarrow> goany" where
  "obj_get None k = ANil"
| "obj_get (Some m) k = (case map_of m k of None \<Rightarrow> ANil | Some v \<Rightarrow> v)"

fun as_object :: "goany \<Rightarrow> (string \<times> goany) list option" where
  "as_object (AObject m) = Some m"
| "as_object _ = None"

fun as_list :: "goany \<Rightarrow> goany list" where
  "as_list (AList xs) = xs"
| "as_list _ = []"

fun as_string :: "goany \<Rightarrow> string" where
  "as_string (AString s) = s"
| "as_string _ = []"

fun as_bool :: "goany \<Rightarrow> bool option" where
  "as_bool (ABool b) = Some b"
| "as_bool _ = None"

end
