(* ===== verification/Gateway_Snapshot.thy ===== *)
theory Gateway_Snapshot
  imports Go_Any
begin

text \<open>
  \<open>internal/gateway/snapshot.go\<close>: the three snapshot files of the gateway, from the bytes of a
  reader to the validated value. The decoder of \<open>encoding/json\<close> is an argument \<open>dec\<close> of each
  parser (\<open>None\<close> is a decoding error), and gives the raw structure of the source with its
  pointer fields as options; everything the source does with that structure is modelled.
\<close>

section \<open>Definitions\<close>

definition MaxSnapshotBytes :: nat where
  "MaxSnapshotBytes = 16 * 1024 * 1024"

record AuthRecord =
  ExternalKeySHA256 :: string
  UserEmail :: string
  Account :: string
  Backend :: string
  InternalKey :: string
  Label :: string

record AuthSnapshot =
  as_Version :: int
  as_Generation :: string
  as_GeneratedAt :: float64
  as_Records :: "AuthRecord list"

record QuotaRecord =
  qr_UserEmail :: string
  qr_WeekStartAt :: int64
  qr_WeekEndAt :: int64
  qr_LimitTokens :: int64
  qr_UsedTokens :: int64
  qr_RawUsedTokens :: int64
  qr_WeightedRawUsedTokens :: int64
  qr_QuotaUnit :: string

record QuotaSnapshot =
  qs_Version :: int
  qs_Generation :: string
  qs_GeneratedAt :: float64
  qs_ContentSHA256 :: string
  qs_Records :: "QuotaRecord list"

record QuotaHeartbeat =
  hb_Version :: int
  hb_UpdatedAt :: int64
  hb_OK :: bool
  hb_Error :: string
  hb_StaleAfterSeconds :: int64
  hb_LastSuccessAt :: int64
  hb_FailOpenAfterSeconds :: int64

record rawQuotaRecord =
  rq_UserEmail :: string
  rq_WeekStartAt :: "float64 option"
  rq_WeekEndAt :: "float64 option"
  rq_LimitTokens :: "float64 option"
  rq_UsedTokens :: "float64 option"
  rq_RawUsedTokens :: goany
  rq_WeightedRawUsedTokens :: goany

record rawAuthSnapshot =
  ra_Version :: int
  ra_Generation :: string
  ra_GeneratedAt :: goany
  ra_Records :: "AuthRecord list option"

record rawQuotaSnapshot =
  rs_Version :: int
  rs_Generation :: string
  rs_GeneratedAt :: goany
  rs_ContentSHA256 :: string
  rs_Records :: "rawQuotaRecord list option"

record rawQuotaHeartbeat =
  rh_Version :: int
  rh_UpdatedAt :: "float64 option"
  rh_OK :: "bool option"
  rh_Error :: string
  rh_StaleAfterSeconds :: goany
  rh_LastSuccessAt :: "float64 option"
  rh_FailOpenAfterSeconds :: "float64 option"

datatype snapshot_error =
    NilReader
  | ReadFailed
  | EmptySnapshot
  | SnapshotTooLarge
  | DecodeFailed
  | InvalidEnvelope
  | InvalidRecord nat
  | OutsideInt64 nat string
  | InvalidHeartbeat
  | HeartbeatOutsideInt64 string

text \<open>A reader is nil, fails before its end, or yields its bytes.\<close>

datatype reader = RNil | RFail | RBytes string

definition readSnapshot :: "reader \<Rightarrow> snapshot_error + string" where
  "readSnapshot r =
     (case r of
        RNil \<Rightarrow> Inl NilReader
      | RFail \<Rightarrow> Inl ReadFailed
      | RBytes b \<Rightarrow>
          (let raw = take (MaxSnapshotBytes + 1) b
           in if raw = [] \<or> trim_space raw = [] then Inl EmptySnapshot
              else if length raw > MaxSnapshotBytes then Inl SnapshotTooLarge
              else Inr raw))"

definition validLowerHex :: "string \<Rightarrow> nat \<Rightarrow> bool" where
  "validLowerHex value len \<longleftrightarrow> length value = len \<and> list_all is_lower_hex value"

text \<open>The pattern \<open>^[a-z][a-z0-9-]+$\<close>.\<close>

definition accountNamePattern :: "string \<Rightarrow> bool" where
  "accountNamePattern s \<longleftrightarrow>
     2 \<le> length s \<and> is_lower (hd s) \<and> list_all account_char (tl s)"

text \<open>The pattern \<open>^cliproxy-[a-z][a-z0-9-]+:8317$\<close>.\<close>

definition backendPattern :: "string \<Rightarrow> bool" where
  "backendPattern s \<longleftrightarrow>
     14 \<le> length s \<and> has_prefix ''cliproxy-'' s \<and>
     drop (length s - 5) s = '':8317'' \<and>
     accountNamePattern (take (length s - 14) (drop 9 s))"

fun snapshotNumber :: "parse_float \<Rightarrow> goany \<Rightarrow> float64 option" where
  "snapshotNumber pf (AFloat x) = (if finite64 x then Some x else None)"
| "snapshotNumber pf (AString s) =
     (case pf (trim_space s) of
        None \<Rightarrow> None
      | Some x \<Rightarrow> if finite64 x then Some x else None)"
| "snapshotNumber pf _ = None"

definition snapshotNumberOrFallback :: "parse_float \<Rightarrow> goany \<Rightarrow> float64 \<Rightarrow> float64" where
  "snapshotNumberOrFallback pf v fallback =
     (case snapshotNumber pf v of None \<Rightarrow> fallback | Some x \<Rightarrow> x)"

definition floorInt64 :: "float64 \<Rightarrow> int64 option" where
  "floorInt64 v =
     (if \<not> finite64 v \<or> f64_lt v (Finite (- (2 ^ 63))) \<or> f64_le (Finite (2 ^ 63)) v then None
      else Some (f64_to_int64 (f64_floor v)))"

definition optionalSnapshotFloor :: "parse_float \<Rightarrow> goany \<Rightarrow> int64 \<Rightarrow> int64 option" where
  "optionalSnapshotFloor pf v fallback =
     (case snapshotNumber pf v of None \<Rightarrow> Some fallback | Some x \<Rightarrow> floorInt64 x)"

definition validAuthRecord :: "AuthRecord \<Rightarrow> bool" where
  "validAuthRecord r \<longleftrightarrow>
     validLowerHex (ExternalKeySHA256 r) 64 \<and> UserEmail r \<noteq> [] \<and>
     accountNamePattern (Account r) \<and> backendPattern (Backend r) \<and>
     InternalKey r \<noteq> [] \<and> Label r \<noteq> []"

text \<open>The validation loop of \<open>ParseAuthSnapshot\<close>: the index of the first bad record.\<close>

fun checkAuthRecords :: "nat \<Rightarrow> string list \<Rightarrow> AuthRecord list \<Rightarrow> nat option" where
  "checkAuthRecords i seen [] = None"
| "checkAuthRecords i seen (r # rs) =
     (if validAuthRecord r \<and> ExternalKeySHA256 r \<notin> set seen
      then checkAuthRecords (Suc i) (ExternalKeySHA256 r # seen) rs
      else Some i)"

definition ParseAuthSnapshot ::
  "parse_float \<Rightarrow> (string \<Rightarrow> rawAuthSnapshot option) \<Rightarrow> reader \<Rightarrow> snapshot_error + AuthSnapshot" where
  "ParseAuthSnapshot pf dec r =
     (case readSnapshot r of
        Inl e \<Rightarrow> Inl e
      | Inr raw \<Rightarrow>
          (case dec raw of
             None \<Rightarrow> Inl DecodeFailed
           | Some input \<Rightarrow>
               (case ra_Records input of
                  None \<Rightarrow> Inl InvalidEnvelope
                | Some records \<Rightarrow>
                    if ra_Version input \<noteq> 1 \<or> \<not> validLowerHex (ra_Generation input) 32
                    then Inl InvalidEnvelope
                    else (case checkAuthRecords 0 [] records of
                            Some i \<Rightarrow> Inl (InvalidRecord i)
                          | None \<Rightarrow>
                              Inr \<lparr>as_Version = ra_Version input,
                                   as_Generation = ra_Generation input,
                                   as_GeneratedAt =
                                     snapshotNumberOrFallback pf (ra_GeneratedAt input) (Finite 0),
                                   as_Records = records\<rparr>))))"

text \<open>One record of \<open>ParseQuotaSnapshot\<close>: the nil checks, the range checks, the floors.\<close>

definition parseQuotaRecord ::
  "parse_float \<Rightarrow> nat \<Rightarrow> string list \<Rightarrow> rawQuotaRecord \<Rightarrow> snapshot_error + QuotaRecord" where
  "parseQuotaRecord pf i seen r =
     (case (rq_WeekStartAt r, rq_WeekEndAt r, rq_LimitTokens r, rq_UsedTokens r) of
        (Some start, Some end', Some limit, Some used) \<Rightarrow>
          if rq_UserEmail r = [] then Inl (InvalidRecord i)
          else if rq_UserEmail r \<in> set seen \<or> \<not> finite64 start \<or> \<not> finite64 end' \<or>
                  \<not> finite64 limit \<or> \<not> finite64 used \<or> f64_le end' start \<or>
                  f64_lt limit (Finite (- 1)) \<or> f64_lt used (Finite 0)
          then Inl (InvalidRecord i)
          else (case floorInt64 start of None \<Rightarrow> Inl (OutsideInt64 i ''week_start_at'') | Some ws \<Rightarrow>
                case floorInt64 end' of None \<Rightarrow> Inl (OutsideInt64 i ''week_end_at'') | Some we \<Rightarrow>
                case floorInt64 limit of None \<Rightarrow> Inl (OutsideInt64 i ''limit_tokens'') | Some l \<Rightarrow>
                case floorInt64 used of None \<Rightarrow> Inl (OutsideInt64 i ''used_tokens'') | Some u \<Rightarrow>
                case optionalSnapshotFloor pf (rq_RawUsedTokens r) u of
                  None \<Rightarrow> Inl (OutsideInt64 i ''raw_used_tokens'') | Some ru \<Rightarrow>
                case optionalSnapshotFloor pf (rq_WeightedRawUsedTokens r) u of
                  None \<Rightarrow> Inl (OutsideInt64 i ''weighted_raw_used_tokens'') | Some wru \<Rightarrow>
                  Inr \<lparr>qr_UserEmail = rq_UserEmail r, qr_WeekStartAt = ws, qr_WeekEndAt = we,
                       qr_LimitTokens = l, qr_UsedTokens = u, qr_RawUsedTokens = ru,
                       qr_WeightedRawUsedTokens = wru, qr_QuotaUnit = ''weighted_tokens''\<rparr>)
      | _ \<Rightarrow> Inl (InvalidRecord i))"

fun parseQuotaRecords ::
  "parse_float \<Rightarrow> nat \<Rightarrow> string list \<Rightarrow> rawQuotaRecord list \<Rightarrow> snapshot_error + QuotaRecord list" where
  "parseQuotaRecords pf i seen [] = Inr []"
| "parseQuotaRecords pf i seen (r # rs) =
     (case parseQuotaRecord pf i seen r of
        Inl e \<Rightarrow> Inl e
      | Inr q \<Rightarrow>
          (case parseQuotaRecords pf (Suc i) (rq_UserEmail r # seen) rs of
             Inl e \<Rightarrow> Inl e
           | Inr qs \<Rightarrow> Inr (q # qs)))"

definition ParseQuotaSnapshot ::
  "parse_float \<Rightarrow> (string \<Rightarrow> rawQuotaSnapshot option) \<Rightarrow> reader \<Rightarrow> snapshot_error + QuotaSnapshot" where
  "ParseQuotaSnapshot pf dec r =
     (case readSnapshot r of
        Inl e \<Rightarrow> Inl e
      | Inr raw \<Rightarrow>
          (case dec raw of
             None \<Rightarrow> Inl DecodeFailed
           | Some input \<Rightarrow>
               (case rs_Records input of
                  None \<Rightarrow> Inl InvalidEnvelope
                | Some records \<Rightarrow>
                    if rs_Version input \<noteq> 1 \<or> \<not> validLowerHex (rs_Generation input) 32
                    then Inl InvalidEnvelope
                    else (case parseQuotaRecords pf 0 [] records of
                            Inl e \<Rightarrow> Inl e
                          | Inr qs \<Rightarrow>
                              Inr \<lparr>qs_Version = rs_Version input,
                                   qs_Generation = rs_Generation input,
                                   qs_GeneratedAt =
                                     snapshotNumberOrFallback pf (rs_GeneratedAt input) (Finite 0),
                                   qs_ContentSHA256 = rs_ContentSHA256 input,
                                   qs_Records = qs\<rparr>))))"

definition ParseQuotaHeartbeat ::
  "parse_float \<Rightarrow> (string \<Rightarrow> rawQuotaHeartbeat option) \<Rightarrow> reader \<Rightarrow> snapshot_error + QuotaHeartbeat" where
  "ParseQuotaHeartbeat pf dec r =
     (case readSnapshot r of
        Inl e \<Rightarrow> Inl e
      | Inr raw \<Rightarrow>
          (case dec raw of
             None \<Rightarrow> Inl DecodeFailed
           | Some input \<Rightarrow>
               (case (rh_UpdatedAt input, rh_OK input, rh_LastSuccessAt input,
                      rh_FailOpenAfterSeconds input) of
                  (Some updated, Some ok, Some lastSuccess, Some failOpen) \<Rightarrow>
                    if rh_Version input \<noteq> 1 then Inl InvalidHeartbeat
                    else (case floorInt64 updated of
                            None \<Rightarrow> Inl (HeartbeatOutsideInt64 ''updated_at'') | Some updatedAt \<Rightarrow>
                          case floorInt64 lastSuccess of
                            None \<Rightarrow> Inl (HeartbeatOutsideInt64 ''last_success_at'') | Some lastSuccessAt \<Rightarrow>
                          case floorInt64 failOpen of
                            None \<Rightarrow> Inl (HeartbeatOutsideInt64 ''fail_open_after_seconds'')
                          | Some failOpenAfter \<Rightarrow>
                          case optionalSnapshotFloor pf (rh_StaleAfterSeconds input) 15 of
                            None \<Rightarrow> Inl (HeartbeatOutsideInt64 ''stale_after_seconds'') | Some staleAfter \<Rightarrow>
                            Inr \<lparr>hb_Version = rh_Version input, hb_UpdatedAt = updatedAt, hb_OK = ok,
                                 hb_Error = rh_Error input, hb_StaleAfterSeconds = max 5 staleAfter,
                                 hb_LastSuccessAt = max 0 lastSuccessAt,
                                 hb_FailOpenAfterSeconds = max 30 failOpenAfter\<rparr>)
                | _ \<Rightarrow> Inl InvalidHeartbeat)))"

text \<open>What the gateway may rely on after a successful parse.\<close>

definition wf_auth :: "AuthSnapshot \<Rightarrow> bool" where
  "wf_auth s \<longleftrightarrow>
     as_Version s = 1 \<and> validLowerHex (as_Generation s) 32 \<and>
     (\<forall>r \<in> set (as_Records s). validAuthRecord r) \<and>
     distinct (map ExternalKeySHA256 (as_Records s))"

definition wf_quota_record :: "QuotaRecord \<Rightarrow> bool" where
  "wf_quota_record q \<longleftrightarrow>
     qr_UserEmail q \<noteq> [] \<and> in_i64 (qr_WeekStartAt q) \<and> in_i64 (qr_WeekEndAt q) \<and>
     qr_WeekStartAt q \<le> qr_WeekEndAt q \<and>
     in_i64 (qr_LimitTokens q) \<and> - 1 \<le> qr_LimitTokens q \<and>
     in_i64 (qr_UsedTokens q) \<and> 0 \<le> qr_UsedTokens q \<and>
     in_i64 (qr_RawUsedTokens q) \<and> in_i64 (qr_WeightedRawUsedTokens q)"

definition wf_quota :: "QuotaSnapshot \<Rightarrow> bool" where
  "wf_quota s \<longleftrightarrow>
     qs_Version s = 1 \<and> validLowerHex (qs_Generation s) 32 \<and>
     (\<forall>q \<in> set (qs_Records s). wf_quota_record q) \<and>
     distinct (map qr_UserEmail (qs_Records s))"

definition wf_heartbeat :: "QuotaHeartbeat \<Rightarrow> bool" where
  "wf_heartbeat h \<longleftrightarrow>
     hb_Version h = 1 \<and> in_i64 (hb_UpdatedAt h) \<and>
     5 \<le> hb_StaleAfterSeconds h \<and> in_i64 (hb_StaleAfterSeconds h) \<and>
     0 \<le> hb_LastSuccessAt h \<and> in_i64 (hb_LastSuccessAt h) \<and>
     30 \<le> hb_FailOpenAfterSeconds h \<and> in_i64 (hb_FailOpenAfterSeconds h)"

section \<open>Lemmas\<close>

lemma floorInt64_Some:
  "floorInt64 v = Some n \<longleftrightarrow> (\<exists>a. v = Finite a \<and> n = \<lfloor>a\<rfloor> \<and> - (2 ^ 63) \<le> a \<and> a < 2 ^ 63)"
proof (cases v)
  case (Finite a)
  show ?thesis
  proof (cases "- (2 ^ 63) \<le> a \<and> a < 2 ^ 63")
    case True
    then have lo: "- (2 ^ 63) \<le> \<lfloor>a\<rfloor>" by (simp add: le_floor_iff)
    have hi: "\<lfloor>a\<rfloor> < 2 ^ 63" using True by (simp add: floor_less_iff)
    from lo hi True Finite show ?thesis
      by (auto simp: floorInt64_def f64_le_iff in_i64_def)
  next
    case False
    with Finite show ?thesis by (auto simp: floorInt64_def f64_le_iff)
  qed
qed (auto simp: floorInt64_def finite64_def is_nan_def)

lemma floorInt64_in_i64: "floorInt64 v = Some n \<Longrightarrow> in_i64 n"
  by (auto simp: floorInt64_Some in_i64_def le_floor_iff floor_less_iff)

lemma optionalSnapshotFloor_in_i64:
  "optionalSnapshotFloor pf v d = Some n \<Longrightarrow> in_i64 d \<Longrightarrow> in_i64 n"
  by (auto simp: optionalSnapshotFloor_def floorInt64_in_i64 split: option.splits)

lemma checkAuthRecords_None:
  "checkAuthRecords i seen rs = None \<longleftrightarrow>
     (\<forall>r \<in> set rs. validAuthRecord r) \<and> distinct (map ExternalKeySHA256 rs) \<and>
     set (map ExternalKeySHA256 rs) \<inter> set seen = {}"
  by (induction i seen rs rule: checkAuthRecords.induct) auto

lemma checkAuthRecords_Some:
  "checkAuthRecords i seen rs = Some k \<Longrightarrow>
     i \<le> k \<and> k < i + length rs \<and> checkAuthRecords i seen (take (k - i) rs) = None"
proof (induction i seen rs rule: checkAuthRecords.induct)
  case (2 i seen r rs)
  show ?case
  proof (cases "validAuthRecord r \<and> ExternalKeySHA256 r \<notin> set seen")
    case True
    with 2 have IH: "Suc i \<le> k \<and> k < Suc i + length rs \<and>
      checkAuthRecords (Suc i) (ExternalKeySHA256 r # seen) (take (k - Suc i) rs) = None" by auto
    then have "k - i = Suc (k - Suc i)" by (simp add: Suc_diff_Suc)
    with IH True show ?thesis by simp
  next
    case False
    with 2 show ?thesis by auto
  qed
qed simp

lemma parseQuotaRecord_wf:
  assumes "parseQuotaRecord pf i seen r = Inr q"
  shows "wf_quota_record q \<and> qr_UserEmail q = rq_UserEmail r \<and> rq_UserEmail r \<notin> set seen \<and>
         qr_QuotaUnit q = ''weighted_tokens''"
proof -
  from assms obtain start en limit used ws we l u ru wru where
    f: "floorInt64 start = Some ws" "floorInt64 en = Some we"
       "floorInt64 limit = Some l" "floorInt64 used = Some u"
       "optionalSnapshotFloor pf (rq_RawUsedTokens r) u = Some ru"
       "optionalSnapshotFloor pf (rq_WeightedRawUsedTokens r) u = Some wru"
    and g: "rq_UserEmail r \<noteq> []" "rq_UserEmail r \<notin> set seen" "\<not> f64_le en start"
       "\<not> f64_lt limit (Finite (- 1))" "\<not> f64_lt used (Finite 0)"
    and q: "q = \<lparr>qr_UserEmail = rq_UserEmail r, qr_WeekStartAt = ws, qr_WeekEndAt = we,
                 qr_LimitTokens = l, qr_UsedTokens = u, qr_RawUsedTokens = ru,
                 qr_WeightedRawUsedTokens = wru, qr_QuotaUnit = ''weighted_tokens''\<rparr>"
    unfolding parseQuotaRecord_def by (simp split: option.splits if_splits)
  have b: "in_i64 ws" "in_i64 we" "in_i64 l" "in_i64 u"
    using f by (blast intro: floorInt64_in_i64)+
  then have b': "in_i64 ru" "in_i64 wru" using f by (blast intro: optionalSnapshotFloor_in_i64)+
  from f(1,2) g(3) have "ws \<le> we" by (auto simp: floorInt64_Some f64_le_iff intro: floor_mono)
  moreover from f(3) g(4) have "- 1 \<le> l" by (auto simp: floorInt64_Some le_floor_iff)
  moreover from f(4) g(5) have "0 \<le> u" by (auto simp: floorInt64_Some)
  ultimately show ?thesis using b b' g by (simp add: q wf_quota_record_def)
qed

lemma parseQuotaRecords_wf:
  "parseQuotaRecords pf i seen rs = Inr qs \<Longrightarrow>
     (\<forall>q \<in> set qs. wf_quota_record q) \<and> map qr_UserEmail qs = map rq_UserEmail rs \<and>
     distinct (map rq_UserEmail rs) \<and> set (map rq_UserEmail rs) \<inter> set seen = {}"
proof (induction pf i seen rs arbitrary: qs rule: parseQuotaRecords.induct)
  case (2 pf i seen r rs)
  from "2.prems" obtain q qs' where q: "parseQuotaRecord pf i seen r = Inr q"
    and qs': "parseQuotaRecords pf (Suc i) (rq_UserEmail r # seen) rs = Inr qs'" "qs = q # qs'"
    by (auto split: sum.splits)
  from "2.IH" [OF q qs'(1)] parseQuotaRecord_wf [OF q] qs'(2) show ?case by auto
qed simp

lemma readSnapshot_Inr:
  "readSnapshot r = Inr raw \<longleftrightarrow>
     r = RBytes raw \<and> trim_space raw \<noteq> [] \<and> length raw \<le> MaxSnapshotBytes"
proof (cases r)
  case (RBytes b)
  have 1: "raw = b" if "take (MaxSnapshotBytes + 1) b = raw" "length raw \<le> MaxSnapshotBytes"
    using that by (metis Suc_eq_plus1 le_simps(2) length_take min.absorb_iff1 min_less_iff_conj
        not_less_eq_eq take_all_iff linorder_not_less less_or_eq_imp_le)
  show ?thesis
    using RBytes by (auto simp: readSnapshot_def Let_def split: if_splits dest!: 1)
qed (auto simp: readSnapshot_def)

lemma wf_quota_record_fields:
  assumes "wf_quota_record q"
  shows "in_i64 (qr_WeekEndAt q)" "in_i64 (qr_UsedTokens q)" "in_i64 (qr_LimitTokens q)"
    "- 1 \<le> qr_LimitTokens q" "0 \<le> qr_UsedTokens q"
  using assms by (simp_all add: wf_quota_record_def)

lemma ParseAuthSnapshot_wf: "ParseAuthSnapshot pf dec r = Inr s \<Longrightarrow> wf_auth s"
  by (auto simp: ParseAuthSnapshot_def wf_auth_def checkAuthRecords_None
      split: sum.splits option.splits if_splits)

lemma ParseQuotaSnapshot_wf: "ParseQuotaSnapshot pf dec r = Inr s \<Longrightarrow> wf_quota s"
  by (auto simp: ParseQuotaSnapshot_def wf_quota_def
      split: sum.splits option.splits if_splits dest!: parseQuotaRecords_wf)

lemma in_i64_max: "in_i64 a \<Longrightarrow> in_i64 b \<Longrightarrow> in_i64 (max a b)"
  by (simp add: max_def)

lemma small_in_i64: "in_i64 0" "in_i64 5" "in_i64 15" "in_i64 30"
  by (simp_all add: in_i64_def)

lemma ParseQuotaHeartbeat_wf: "ParseQuotaHeartbeat pf dec r = Inr h \<Longrightarrow> wf_heartbeat h"
  by (auto simp: ParseQuotaHeartbeat_def wf_heartbeat_def
      split: sum.splits option.splits if_splits
      intro!: in_i64_max small_in_i64 intro: floorInt64_in_i64
        optionalSnapshotFloor_in_i64 [OF _ small_in_i64(3)])

lemma readSnapshot_braces: "readSnapshot (RBytes ''{}'') = Inr ''{}''"
proof -
  have "trim_space ''{}'' \<noteq> []" by code_simp
  then show ?thesis by (simp add: readSnapshot_Inr MaxSnapshotBytes_def)
qed

lemma validLowerHex_replicate: "validLowerHex (replicate n (CHR ''a'')) n"
  by (auto simp: validLowerHex_def list_all_iff is_lower_hex_def byte_def)

section \<open>Properties\<close>

text \<open>
  C21: \<open>ParseAuthSnapshot\<close> accepts exactly the non-blank files of at most 16 MiB that decode to a
  version 1 envelope with a 32-digit lower-case hexadecimal generation and a non-nil list of
  valid records with pairwise different key digests, and returns their content unchanged.
\<close>

theorem ParseAuthSnapshot_iff:
  "ParseAuthSnapshot pf dec r = Inr snap \<longleftrightarrow>
     (\<exists>raw input. r = RBytes raw \<and> trim_space raw \<noteq> [] \<and> length raw \<le> MaxSnapshotBytes \<and>
        dec raw = Some input \<and> ra_Records input = Some (as_Records snap) \<and>
        as_Version snap = ra_Version input \<and> as_Generation snap = ra_Generation input \<and>
        as_GeneratedAt snap = snapshotNumberOrFallback pf (ra_GeneratedAt input) (Finite 0) \<and>
        wf_auth snap)"
proof (cases "readSnapshot r")
  case (Inl e)
  then have "\<not> (\<exists>raw. r = RBytes raw \<and> trim_space raw \<noteq> [] \<and> length raw \<le> MaxSnapshotBytes)"
    by (metis readSnapshot_Inr sum.distinct(1))
  with Inl show ?thesis by (auto simp: ParseAuthSnapshot_def)
next
  case (Inr raw)
  then have "r = RBytes raw" "trim_space raw \<noteq> []" "length raw \<le> MaxSnapshotBytes"
    by (simp_all add: readSnapshot_Inr)
  with Inr show ?thesis
    by (cases snap)
       (auto simp: ParseAuthSnapshot_def wf_auth_def checkAuthRecords_None [of 0 "[]", simplified, symmetric]
         split: option.splits if_splits)
qed

text \<open>
  C22: a quota snapshot that parses has one record per user, in the order of the file; every
  number fits in 64 bits, no limit is below \<open>-1\<close> (unlimited), no usage is negative and no week
  ends before it starts.
\<close>

theorem ParseQuotaSnapshot_sound:
  assumes "ParseQuotaSnapshot pf dec (RBytes raw) = Inr snap"
  shows "wf_quota snap \<and>
         (\<exists>input records. dec raw = Some input \<and> rs_Records input = Some records \<and>
            map qr_UserEmail (qs_Records snap) = map rq_UserEmail records)"
proof -
  from assms have "readSnapshot (RBytes raw) = Inr raw"
    by (auto simp: ParseQuotaSnapshot_def readSnapshot_Inr split: sum.splits)
  with assms have "\<exists>input records. dec raw = Some input \<and> rs_Records input = Some records \<and>
      map qr_UserEmail (qs_Records snap) = map rq_UserEmail records"
    by (auto simp: ParseQuotaSnapshot_def split: option.splits if_splits sum.splits
        dest!: parseQuotaRecords_wf)
  with ParseQuotaSnapshot_wf [OF assms] show ?thesis by blast
qed

definition sample_raw_quota :: rawQuotaSnapshot where
  "sample_raw_quota =
     \<lparr>rs_Version = 1, rs_Generation = replicate 32 (CHR ''a''), rs_GeneratedAt = ANil,
      rs_ContentSHA256 = [],
      rs_Records = Some
        [\<lparr>rq_UserEmail = ''u@x'', rq_WeekStartAt = Some (Finite 10), rq_WeekEndAt = Some (Finite 20),
          rq_LimitTokens = Some (Finite 100), rq_UsedTokens = Some (Finite (199 / 2)),
          rq_RawUsedTokens = ANil, rq_WeightedRawUsedTokens = AFloat (Finite 7)\<rparr>]\<rparr>"

theorem ParseQuotaSnapshot_sound_witness:
  "\<exists>snap. ParseQuotaSnapshot (\<lambda>_. None) (\<lambda>_. Some sample_raw_quota) (RBytes ''{}'') = Inr snap \<and>
     wf_quota snap \<and> map qr_UsedTokens (qs_Records snap) = [99]"
proof -
  have h: "ParseQuotaSnapshot (\<lambda>_. None) (\<lambda>_. Some sample_raw_quota) (RBytes ''{}'') =
    Inr \<lparr>qs_Version = 1, qs_Generation = replicate 32 (CHR ''a''), qs_GeneratedAt = Finite 0,
      qs_ContentSHA256 = [],
      qs_Records = [\<lparr>qr_UserEmail = ''u@x'', qr_WeekStartAt = 10, qr_WeekEndAt = 20,
        qr_LimitTokens = 100, qr_UsedTokens = 99, qr_RawUsedTokens = 99,
        qr_WeightedRawUsedTokens = 7, qr_QuotaUnit = ''weighted_tokens''\<rparr>]\<rparr>"
    by (simp add: ParseQuotaSnapshot_def readSnapshot_braces sample_raw_quota_def floor_eq_iff
        validLowerHex_replicate parseQuotaRecord_def floorInt64_def optionalSnapshotFloor_def
        snapshotNumberOrFallback_def f64_le_iff in_i64_def)
  from ParseQuotaSnapshot_sound [OF h] h show ?thesis by simp
qed

text \<open>
  A heartbeat that parses gives the gateway a fail-open delay of at least 30 seconds, a
  staleness bound of at least 5 seconds and a last success time that is not negative, all within
  64 bits, whatever numbers the file holds.
\<close>

theorem ParseQuotaHeartbeat_bounds:
  assumes "ParseQuotaHeartbeat pf dec r = Inr h"
  shows "30 \<le> hb_FailOpenAfterSeconds h \<and> 5 \<le> hb_StaleAfterSeconds h \<and> 0 \<le> hb_LastSuccessAt h \<and>
         in_i64 (hb_FailOpenAfterSeconds h) \<and> in_i64 (hb_StaleAfterSeconds h) \<and>
         in_i64 (hb_LastSuccessAt h) \<and> in_i64 (hb_UpdatedAt h)"
  using ParseQuotaHeartbeat_wf [OF assms] by (simp add: wf_heartbeat_def)

definition sample_raw_heartbeat :: rawQuotaHeartbeat where
  "sample_raw_heartbeat =
     \<lparr>rh_Version = 1, rh_UpdatedAt = Some (Finite 1000), rh_OK = Some True, rh_Error = [],
      rh_StaleAfterSeconds = ABool True, rh_LastSuccessAt = Some (Finite (- 3)),
      rh_FailOpenAfterSeconds = Some (Finite (1 / 2))\<rparr>"

theorem ParseQuotaHeartbeat_bounds_witness:
  "\<exists>h. ParseQuotaHeartbeat (\<lambda>_. None) (\<lambda>_. Some sample_raw_heartbeat) (RBytes ''{}'') = Inr h \<and>
     30 \<le> hb_FailOpenAfterSeconds h \<and> hb_StaleAfterSeconds h = 15"
proof -
  have h: "ParseQuotaHeartbeat (\<lambda>_. None) (\<lambda>_. Some sample_raw_heartbeat) (RBytes ''{}'') =
    Inr \<lparr>hb_Version = 1, hb_UpdatedAt = 1000, hb_OK = True, hb_Error = [],
      hb_StaleAfterSeconds = 15, hb_LastSuccessAt = 0, hb_FailOpenAfterSeconds = 30\<rparr>"
    by (simp add: ParseQuotaHeartbeat_def readSnapshot_braces sample_raw_heartbeat_def
        floorInt64_def optionalSnapshotFloor_def f64_le_iff in_i64_def)
  from ParseQuotaHeartbeat_bounds [OF h] h show ?thesis by simp
qed

end
