(* ===== verification/Gateway_Engine.thy ===== *)
theory Gateway_Engine
  imports Gateway_Path Gateway_Snapshot Sha256
begin

text \<open>
  \<open>internal/gateway/authorize.go\<close> and \<open>status.go\<close>: the authorization engine, its three
  atomically replaced snapshots, the loads that replace them, the decision on a request, the
  readiness check and the status report. A load returns its error, if any, and the engine
  after it. Times are Unix seconds; the differences the source takes in \<open>int64\<close> are wrapped
  by \<open>i64\<close>.

  The two loads that keep a previous generation share the interface \<open>generation_cell\<close>, which is
  interpreted on both.
\<close>

section \<open>Definitions\<close>

definition AuthSnapshotMaxAge :: int where
  "AuthSnapshotMaxAge = 5"

record Identity =
  id_UserEmail :: string
  id_Account :: string
  id_Backend :: string
  id_InternalKey :: string
  id_Label :: string

record APIError =
  ae_Message :: string
  ae_Type :: string
  ae_Code :: string

record WeeklyQuota =
  wq_UsedTokens :: int64
  wq_WeightedUsedTokens :: int64
  wq_RawUsedTokens :: int64
  wq_LimitTokens :: int64
  wq_WeekEndAt :: int64
  wq_QuotaUnit :: string

record ErrorResponse =
  er_Error :: APIError
  er_UserWeeklyQuota :: "WeeklyQuota option"

record Decision =
  dc_Allowed :: bool
  dc_Status :: int
  dc_Identity :: "Identity option"
  dc_Response :: "ErrorResponse option"
  dc_RetryAfterSeconds :: int64
  dc_Warning :: string

definition UpstreamAuthorization :: "Decision \<Rightarrow> string" where
  "UpstreamAuthorization d =
     (case dc_Identity d of
        None \<Rightarrow> []
      | Some i \<Rightarrow> if id_InternalKey i = [] then [] else ''Bearer '' @ id_InternalKey i)"

record authState =
  au_generation :: string
  au_previousGeneration :: string
  au_generatedAt :: float64
  au_loadedAt :: int64
  au_recordCount :: int
  au_byDigest :: "(string, Identity) gomap"

record quotaState =
  qt_generation :: string
  qt_previousGeneration :: string
  qt_generatedAt :: float64
  qt_loadedAt :: int64
  qt_recordCount :: int
  qt_byUser :: "(string, QuotaRecord) gomap"

record Engine =
  eng_auth :: "authState option"
  eng_quota :: "quotaState option"
  eng_heartbeat :: "QuotaHeartbeat option"

definition NewEngine :: Engine where
  "NewEngine = \<lparr>eng_auth = None, eng_quota = None, eng_heartbeat = None\<rparr>"

definition identity_of :: "AuthRecord \<Rightarrow> Identity" where
  "identity_of r =
     \<lparr>id_UserEmail = UserEmail r, id_Account = Account r, id_Backend = Backend r,
      id_InternalKey = InternalKey r, id_Label = Label r\<rparr>"

definition byDigest :: "AuthRecord list \<Rightarrow> (string, Identity) gomap" where
  "byDigest rs = fold (\<lambda>r m. AList.update (ExternalKeySHA256 r) (identity_of r) m) rs []"

definition byUser :: "QuotaRecord list \<Rightarrow> (string, QuotaRecord) gomap" where
  "byUser rs = fold (\<lambda>r m. AList.update (qr_UserEmail r) r m) rs []"

text \<open>The previous generation both snapshot loads compute from the state they replace.\<close>

definition nextPrevious :: "(string \<times> string) option \<Rightarrow> string \<Rightarrow> string" where
  "nextPrevious prev gen =
     (case prev of
        None \<Rightarrow> []
      | Some (g, p) \<Rightarrow> if g \<noteq> gen then g else p)"

definition storeAuth :: "int64 \<Rightarrow> AuthSnapshot \<Rightarrow> Engine \<Rightarrow> Engine" where
  "storeAuth loadedAt snap eng =
     eng\<lparr>eng_auth := Some
       \<lparr>au_generation = as_Generation snap,
        au_previousGeneration =
          nextPrevious (map_option (\<lambda>a. (au_generation a, au_previousGeneration a)) (eng_auth eng))
            (as_Generation snap),
        au_generatedAt = as_GeneratedAt snap, au_loadedAt = loadedAt,
        au_recordCount = int (length (as_Records snap)), au_byDigest = byDigest (as_Records snap)\<rparr>\<rparr>"

definition storeQuota :: "int64 \<Rightarrow> QuotaSnapshot \<Rightarrow> Engine \<Rightarrow> Engine" where
  "storeQuota loadedAt snap eng =
     eng\<lparr>eng_quota := Some
       \<lparr>qt_generation = qs_Generation snap,
        qt_previousGeneration =
          nextPrevious (map_option (\<lambda>a. (qt_generation a, qt_previousGeneration a)) (eng_quota eng))
            (qs_Generation snap),
        qt_generatedAt = qs_GeneratedAt snap, qt_loadedAt = loadedAt,
        qt_recordCount = int (length (qs_Records snap)), qt_byUser = byUser (qs_Records snap)\<rparr>\<rparr>"

definition LoadAuthSnapshot ::
  "parse_float \<Rightarrow> (string \<Rightarrow> rawAuthSnapshot option) \<Rightarrow> reader \<Rightarrow> int64 \<Rightarrow> Engine \<Rightarrow>
   snapshot_error option \<times> Engine" where
  "LoadAuthSnapshot pf dec r loadedAt eng =
     (case ParseAuthSnapshot pf dec r of
        Inl e \<Rightarrow> (Some e, eng)
      | Inr snap \<Rightarrow> (None, storeAuth loadedAt snap eng))"

definition LoadQuotaSnapshot ::
  "parse_float \<Rightarrow> (string \<Rightarrow> rawQuotaSnapshot option) \<Rightarrow> reader \<Rightarrow> int64 \<Rightarrow> Engine \<Rightarrow>
   snapshot_error option \<times> Engine" where
  "LoadQuotaSnapshot pf dec r loadedAt eng =
     (case ParseQuotaSnapshot pf dec r of
        Inl e \<Rightarrow> (Some e, eng)
      | Inr snap \<Rightarrow> (None, storeQuota loadedAt snap eng))"

definition LoadQuotaHeartbeat ::
  "parse_float \<Rightarrow> (string \<Rightarrow> rawQuotaHeartbeat option) \<Rightarrow> reader \<Rightarrow> Engine \<Rightarrow>
   snapshot_error option \<times> Engine" where
  "LoadQuotaHeartbeat pf dec r eng =
     (case ParseQuotaHeartbeat pf dec r of
        Inl e \<Rightarrow> (Some e, eng)
      | Inr h \<Rightarrow> (None, eng\<lparr>eng_heartbeat := Some h\<rparr>))"

definition unavailableAuthDecision :: "string \<Rightarrow> Decision" where
  "unavailableAuthDecision code =
     \<lparr>dc_Allowed = False, dc_Status = 503, dc_Identity = None,
      dc_Response = Some
        \<lparr>er_Error = \<lparr>ae_Message = ''API authentication is temporarily unavailable'',
                     ae_Type = ''server_error'', ae_Code = code\<rparr>,
         er_UserWeeklyQuota = None\<rparr>,
      dc_RetryAfterSeconds = 1, dc_Warning = []\<rparr>"

definition invalidKeyDecision :: Decision where
  "invalidKeyDecision =
     \<lparr>dc_Allowed = False, dc_Status = 401, dc_Identity = None,
      dc_Response = Some
        \<lparr>er_Error = \<lparr>ae_Message = ''Invalid API key'', ae_Type = ''invalid_request_error'',
                     ae_Code = []\<rparr>,
         er_UserWeeklyQuota = None\<rparr>,
      dc_RetryAfterSeconds = 0, dc_Warning = []\<rparr>"

definition allowDecision :: "Identity \<Rightarrow> string \<Rightarrow> Decision" where
  "allowDecision i warning =
     \<lparr>dc_Allowed = True, dc_Status = 0, dc_Identity = Some i, dc_Response = None,
      dc_RetryAfterSeconds = 0, dc_Warning = warning\<rparr>"

definition quotaExceededDecision :: "Identity \<Rightarrow> QuotaRecord \<Rightarrow> int64 \<Rightarrow> Decision" where
  "quotaExceededDecision i q now =
     \<lparr>dc_Allowed = False, dc_Status = 429, dc_Identity = Some i,
      dc_Response = Some
        \<lparr>er_Error = \<lparr>ae_Message = ''Weekly user token quota exceeded'', ae_Type = ''tokens'',
                     ae_Code = ''weekly_user_token_quota_exceeded''\<rparr>,
         er_UserWeeklyQuota = Some
           \<lparr>wq_UsedTokens = qr_UsedTokens q, wq_WeightedUsedTokens = qr_UsedTokens q,
            wq_RawUsedTokens = qr_RawUsedTokens q, wq_LimitTokens = qr_LimitTokens q,
            wq_WeekEndAt = qr_WeekEndAt q, wq_QuotaUnit = ''weighted_tokens''\<rparr>\<rparr>,
      dc_RetryAfterSeconds = max 1 (i64 (qr_WeekEndAt q - now)), dc_Warning = []\<rparr>"

text \<open>The guard of \<open>Authorize\<close> on the authentication snapshot.\<close>

definition authUsable :: "int64 \<Rightarrow> authState option \<Rightarrow> bool" where
  "authUsable now auth \<longleftrightarrow>
     (case auth of
        None \<Rightarrow> False
      | Some a \<Rightarrow> au_generation a \<noteq> [] \<and> \<not> au_loadedAt a \<le> 0 \<and>
          \<not> i64 (now - au_loadedAt a) > AuthSnapshotMaxAge)"

text \<open>The second half of \<open>Authorize\<close>, after the key was recognised: the weekly quota.\<close>

definition authorizeQuota :: "Engine \<Rightarrow> int64 \<Rightarrow> Identity \<Rightarrow> Decision" where
  "authorizeQuota eng now i =
     (case eng_heartbeat eng of
        None \<Rightarrow> allowDecision i ''collector_last_success''
      | Some h \<Rightarrow>
          if hb_LastSuccessAt h \<le> 0 \<or> i64 (now - hb_LastSuccessAt h) > hb_FailOpenAfterSeconds h
          then allowDecision i ''collector_last_success''
          else (case eng_quota eng of
                  None \<Rightarrow> allowDecision i ''snapshot_loader''
                | Some q \<Rightarrow>
                    if qt_loadedAt q \<le> 0 \<or> i64 (now - qt_loadedAt q) > hb_FailOpenAfterSeconds h
                    then allowDecision i ''snapshot_loader''
                    else if qt_generation q = [] then allowDecision i ''snapshot_missing''
                    else (case map_of (qt_byUser q) (id_UserEmail i) of
                            None \<Rightarrow> allowDecision i ''user_record_missing''
                          | Some u \<Rightarrow>
                              if now \<ge> qr_WeekEndAt u then allowDecision i ''snapshot_period_expired''
                              else if qr_LimitTokens u < 0 \<or> qr_UsedTokens u < qr_LimitTokens u
                              then allowDecision i []
                              else quotaExceededDecision i u now)))"

definition Authorize :: "Engine \<Rightarrow> int64 \<Rightarrow> string \<Rightarrow> bool \<Rightarrow> Decision" where
  "Authorize eng now authorization enforceQuota =
     (case eng_auth eng of
        None \<Rightarrow> unavailableAuthDecision ''authentication_snapshot_unavailable''
      | Some a \<Rightarrow>
          if \<not> authUsable now (Some a)
          then unavailableAuthDecision ''authentication_snapshot_unavailable''
          else (case ExtractBearer authorization of
                  None \<Rightarrow> invalidKeyDecision
                | Some externalKey \<Rightarrow>
                    (case map_of (au_byDigest a) (sha256_hex externalKey) of
                       None \<Rightarrow> invalidKeyDecision
                     | Some i \<Rightarrow>
                         if \<not> enforceQuota then allowDecision i []
                         else authorizeQuota eng now i)))"

definition AuthenticationReady :: "Engine \<Rightarrow> int64 \<Rightarrow> bool" where
  "AuthenticationReady eng now =
     (case eng_auth eng of
        None \<Rightarrow> False
      | Some a \<Rightarrow>
          if au_generation a = [] \<or> au_loadedAt a \<le> 0 then False
          else (let age = i64 (now - au_loadedAt a) in 0 \<le> age \<and> age \<le> AuthSnapshotMaxAge))"

record SnapshotKindStatus =
  ks_ActiveGeneration :: string
  ks_PreviousGeneration :: string
  ks_GeneratedAt :: float64
  ks_RecordCount :: int
  ks_SnapshotLoaderSuccessAt :: int64

record Status =
  st_Auth :: SnapshotKindStatus
  st_Quota :: SnapshotKindStatus
  st_HeartbeatAt :: int64
  st_HeartbeatOK :: bool
  st_HeartbeatStaleAfter :: int64
  st_LastSuccessAt :: int64
  st_FailOpenAfter :: int64

definition emptyKindStatus :: SnapshotKindStatus where
  "emptyKindStatus =
     \<lparr>ks_ActiveGeneration = [], ks_PreviousGeneration = [], ks_GeneratedAt = Finite 0,
      ks_RecordCount = 0, ks_SnapshotLoaderSuccessAt = 0\<rparr>"

definition EngineStatus :: "Engine \<Rightarrow> Status" where
  "EngineStatus eng =
     \<lparr>st_Auth =
        (case eng_auth eng of
           None \<Rightarrow> emptyKindStatus
         | Some a \<Rightarrow>
             \<lparr>ks_ActiveGeneration = au_generation a, ks_PreviousGeneration = au_previousGeneration a,
              ks_GeneratedAt = au_generatedAt a, ks_RecordCount = au_recordCount a,
              ks_SnapshotLoaderSuccessAt = au_loadedAt a\<rparr>),
      st_Quota =
        (case eng_quota eng of
           None \<Rightarrow> emptyKindStatus
         | Some q \<Rightarrow>
             \<lparr>ks_ActiveGeneration = qt_generation q, ks_PreviousGeneration = qt_previousGeneration q,
              ks_GeneratedAt = qt_generatedAt q, ks_RecordCount = qt_recordCount q,
              ks_SnapshotLoaderSuccessAt = qt_loadedAt q\<rparr>),
      st_HeartbeatAt = (case eng_heartbeat eng of None \<Rightarrow> 0 | Some h \<Rightarrow> hb_UpdatedAt h),
      st_HeartbeatOK = (case eng_heartbeat eng of None \<Rightarrow> False | Some h \<Rightarrow> hb_OK h),
      st_HeartbeatStaleAfter = (case eng_heartbeat eng of None \<Rightarrow> 0 | Some h \<Rightarrow> hb_StaleAfterSeconds h),
      st_LastSuccessAt = (case eng_heartbeat eng of None \<Rightarrow> 0 | Some h \<Rightarrow> hb_LastSuccessAt h),
      st_FailOpenAfter = (case eng_heartbeat eng of None \<Rightarrow> 0 | Some h \<Rightarrow> hb_FailOpenAfterSeconds h)\<rparr>"

subsection \<open>The engine invariant\<close>

text \<open>
  Every part of the engine comes from a snapshot that parsed: the tables are those of a
  well-formed snapshot of the recorded generation, and the heartbeat is within its bounds.
\<close>

definition auth_ok :: "authState \<Rightarrow> bool" where
  "auth_ok a \<longleftrightarrow> (\<exists>s. wf_auth s \<and> au_generation a = as_Generation s \<and>
     au_byDigest a = byDigest (as_Records s) \<and> au_recordCount a = int (length (as_Records s)))"

definition quota_ok :: "quotaState \<Rightarrow> bool" where
  "quota_ok q \<longleftrightarrow> (\<exists>s. wf_quota s \<and> qt_generation q = qs_Generation s \<and>
     qt_byUser q = byUser (qs_Records s) \<and> qt_recordCount q = int (length (qs_Records s)))"

definition engine_ok :: "Engine \<Rightarrow> bool" where
  "engine_ok eng \<longleftrightarrow>
     pred_option auth_ok (eng_auth eng) \<and> pred_option quota_ok (eng_quota eng) \<and>
     pred_option wf_heartbeat (eng_heartbeat eng)"

text \<open>The weekly limit is enforced for a user: fresh data, a finite limit, the week not over.\<close>

definition quotaEnforced :: "Engine \<Rightarrow> int64 \<Rightarrow> string \<Rightarrow> QuotaRecord \<Rightarrow> bool" where
  "quotaEnforced eng now user u \<longleftrightarrow>
     (\<exists>h q. eng_heartbeat eng = Some h \<and> 0 < hb_LastSuccessAt h \<and>
        i64 (now - hb_LastSuccessAt h) \<le> hb_FailOpenAfterSeconds h \<and>
        eng_quota eng = Some q \<and> 0 < qt_loadedAt q \<and>
        i64 (now - qt_loadedAt q) \<le> hb_FailOpenAfterSeconds h \<and> qt_generation q \<noteq> [] \<and>
        map_of (qt_byUser q) user = Some u \<and> now < qr_WeekEndAt u \<and>
        0 \<le> qr_LimitTokens u \<and> qr_LimitTokens u \<le> qr_UsedTokens u)"

section \<open>Lemmas\<close>

lemma fold_update_map_of:
  "map_of (fold (\<lambda>r m. AList.update (f r) (g r) m) rs m) k =
     (case List.find (\<lambda>r. f r = k) (rev rs) of None \<Rightarrow> map_of m k | Some r \<Rightarrow> Some (g r))"
proof (induction rs rule: rev_induct)
  case (snoc r rs)
  then show ?case by (cases "f r = k") (simp_all split: option.splits)
qed simp

lemma fold_update_distinct:
  assumes "distinct (map f rs)"
  shows "map_of (fold (\<lambda>r m. AList.update (f r) (g r) m) rs []) k = Some v \<longleftrightarrow>
         (\<exists>r \<in> set rs. f r = k \<and> g r = v)"
proof -
  have F: "List.find (\<lambda>r. f r = k) (rev rs) = Some r \<longleftrightarrow> r \<in> set rs \<and> f r = k" for r
  proof
    assume "List.find (\<lambda>r. f r = k) (rev rs) = Some r"
    from find_SomeD [OF this] show "r \<in> set rs \<and> f r = k" by simp
  next
    assume r: "r \<in> set rs \<and> f r = k"
    then obtain r' where r': "List.find (\<lambda>r. f r = k) (rev rs) = Some r'"
      using find_exists [of r "rev rs" "\<lambda>r. f r = k"] by auto
    from find_SomeD [OF r'] r assms have "r' = r" by (auto simp: distinct_map inj_on_def)
    with r' show "List.find (\<lambda>r. f r = k) (rev rs) = Some r" by simp
  qed
  show ?thesis
  proof (cases "List.find (\<lambda>r. f r = k) (rev rs)")
    case None
    with F have "\<nexists>r. r \<in> set rs \<and> f r = k" by (metis option.distinct(1))
    with None show ?thesis by (auto simp: fold_update_map_of)
  next
    case (Some x)
    with F have X: "r \<in> set rs \<and> f r = k \<longleftrightarrow> r = x" for r by (metis option.inject)
    have "(\<exists>r \<in> set rs. f r = k \<and> g r = v) \<longleftrightarrow> g x = v" by (metis X)
    with Some show ?thesis by (simp add: fold_update_map_of)
  qed
qed

lemma byDigest_Some:
  "wf_auth s \<Longrightarrow> map_of (byDigest (as_Records s)) d = Some i \<longleftrightarrow>
     (\<exists>r \<in> set (as_Records s). ExternalKeySHA256 r = d \<and> identity_of r = i)"
  unfolding byDigest_def wf_auth_def by (rule fold_update_distinct) blast

lemma byUser_Some:
  "wf_quota s \<Longrightarrow> map_of (byUser (qs_Records s)) u = Some q \<longleftrightarrow>
     (\<exists>r \<in> set (qs_Records s). qr_UserEmail r = u \<and> r = q)"
  unfolding byUser_def wf_quota_def by (rule fold_update_distinct) blast

lemma quota_ok_record: "quota_ok q \<Longrightarrow> map_of (qt_byUser q) u = Some r \<Longrightarrow> wf_quota_record r \<and> qr_UserEmail r = u"
  by (auto simp: quota_ok_def byUser_Some wf_quota_def)

lemma auth_ok_record:
  "auth_ok a \<Longrightarrow> map_of (au_byDigest a) d = Some i \<Longrightarrow>
     \<exists>r. validAuthRecord r \<and> ExternalKeySHA256 r = d \<and> i = identity_of r"
  unfolding auth_ok_def by (metis byDigest_Some wf_auth_def)

lemma allowDecision_sel [simp]:
  "dc_Allowed (allowDecision i w)" "dc_Status (allowDecision i w) = 0"
  "dc_Identity (allowDecision i w) = Some i" "dc_Response (allowDecision i w) = None"
  "dc_RetryAfterSeconds (allowDecision i w) = 0" "dc_Warning (allowDecision i w) = w"
  by (simp_all add: allowDecision_def)

lemma denyDecision_sel [simp]:
  "\<not> dc_Allowed (unavailableAuthDecision c)" "dc_Status (unavailableAuthDecision c) = 503"
  "\<not> dc_Allowed invalidKeyDecision" "dc_Status invalidKeyDecision = 401"
  "\<not> dc_Allowed (quotaExceededDecision i q now)" "dc_Status (quotaExceededDecision i q now) = 429"
  "dc_Identity (unavailableAuthDecision c) = None" "dc_Identity invalidKeyDecision = None"
  "dc_Identity (quotaExceededDecision i q now) = Some i"
  "dc_RetryAfterSeconds (quotaExceededDecision i q now) = max 1 (i64 (qr_WeekEndAt q - now))"
  "dc_RetryAfterSeconds invalidKeyDecision = 0" "dc_RetryAfterSeconds (unavailableAuthDecision c) = 1"
  by (simp_all add: unavailableAuthDecision_def invalidKeyDecision_def quotaExceededDecision_def)

text \<open>The quota half: it refuses exactly when the limit is enforced, and allows otherwise.\<close>

lemma authorizeQuota_enforced:
  "quotaEnforced eng now (id_UserEmail i) u \<Longrightarrow> authorizeQuota eng now i = quotaExceededDecision i u now"
  by (auto simp: quotaEnforced_def authorizeQuota_def)

lemma authorizeQuota_open:
  "\<nexists>u. quotaEnforced eng now (id_UserEmail i) u \<Longrightarrow> \<exists>w. authorizeQuota eng now i = allowDecision i w"
  by (auto simp: quotaEnforced_def authorizeQuota_def not_le not_less split: option.splits)

lemma quotaEnforced_wf:
  "engine_ok eng \<Longrightarrow> quotaEnforced eng now user u \<Longrightarrow> wf_quota_record u"
  unfolding quotaEnforced_def engine_ok_def by (auto dest: quota_ok_record)

lemma Authorize_None: "\<not> authUsable now (eng_auth eng) \<Longrightarrow>
  Authorize eng now h e = unavailableAuthDecision ''authentication_snapshot_unavailable''"
  by (cases "eng_auth eng") (simp_all add: Authorize_def)

lemma Authorize_Some:
  "authUsable now (eng_auth eng) \<Longrightarrow> eng_auth eng = Some a \<Longrightarrow>
   Authorize eng now h e =
     (case Option.bind (ExtractBearer h) (\<lambda>k. map_of (au_byDigest a) (sha256_hex k)) of
        None \<Rightarrow> invalidKeyDecision
      | Some i \<Rightarrow> if e then authorizeQuota eng now i else allowDecision i [])"
  by (simp add: Authorize_def split: option.splits)

subsection \<open>The interface of a cell that remembers its previous generation\<close>

locale generation_cell =
  fixes gen :: "Engine \<Rightarrow> (string \<times> string) option"
    and load :: "'snap \<Rightarrow> Engine \<Rightarrow> Engine"
    and genOf :: "'snap \<Rightarrow> string"
  assumes gen_load:
    "gen (load s eng) = Some (genOf s, nextPrevious (gen eng) (genOf s))"
begin

lemma active_after_load: "map_option fst (gen (load s eng)) = Some (genOf s)"
  by (simp add: gen_load)

lemma reload_same: "gen (load s (load s eng)) = gen (load s eng)"
  by (simp add: gen_load nextPrevious_def)

lemma previous_after_change:
  "gen eng = Some (g, p) \<Longrightarrow> g \<noteq> genOf s \<Longrightarrow> gen (load s eng) = Some (genOf s, g)"
  by (simp add: gen_load nextPrevious_def)

text \<open>Reloading a generation any number of times keeps the one before it.\<close>

lemma reload_many:
  "gen ((load s ^^ Suc n) eng) = gen (load s eng)"
  by (induction n) (simp_all add: gen_load nextPrevious_def)

end

interpretation authCell: generation_cell
  "\<lambda>eng. map_option (\<lambda>a. (au_generation a, au_previousGeneration a)) (eng_auth eng)"
  "\<lambda>(t, s). storeAuth t s" "\<lambda>(t, s). as_Generation s"
  by unfold_locales (simp add: storeAuth_def split: prod.splits)

interpretation quotaCell: generation_cell
  "\<lambda>eng. map_option (\<lambda>a. (qt_generation a, qt_previousGeneration a)) (eng_quota eng)"
  "\<lambda>(t, s). storeQuota t s" "\<lambda>(t, s). qs_Generation s"
  by unfold_locales (simp add: storeQuota_def split: prod.splits)

subsection \<open>Loads keep the invariant\<close>

lemma engine_ok_New: "engine_ok NewEngine"
  by (simp add: engine_ok_def NewEngine_def)

lemma engine_ok_LoadAuth: "engine_ok eng \<Longrightarrow> engine_ok (snd (LoadAuthSnapshot pf dec r t eng))"
  by (auto simp: LoadAuthSnapshot_def storeAuth_def engine_ok_def auth_ok_def
      split: sum.splits dest: ParseAuthSnapshot_wf)

lemma engine_ok_LoadQuota: "engine_ok eng \<Longrightarrow> engine_ok (snd (LoadQuotaSnapshot pf dec r t eng))"
  by (auto simp: LoadQuotaSnapshot_def storeQuota_def engine_ok_def quota_ok_def
      split: sum.splits dest: ParseQuotaSnapshot_wf)

lemma engine_ok_LoadHeartbeat: "engine_ok eng \<Longrightarrow> engine_ok (snd (LoadQuotaHeartbeat pf dec r eng))"
  by (auto simp: LoadQuotaHeartbeat_def engine_ok_def split: sum.splits dest: ParseQuotaHeartbeat_wf)

lemma LoadAuth_error: "fst (LoadAuthSnapshot pf dec r t eng) = Some e \<Longrightarrow> snd (LoadAuthSnapshot pf dec r t eng) = eng"
  by (auto simp: LoadAuthSnapshot_def split: sum.splits)

lemma LoadAuth_frame:
  "eng_quota (snd (LoadAuthSnapshot pf dec r t eng)) = eng_quota eng"
  "eng_heartbeat (snd (LoadAuthSnapshot pf dec r t eng)) = eng_heartbeat eng"
  by (auto simp: LoadAuthSnapshot_def storeAuth_def split: sum.splits)

lemma LoadQuota_frame:
  "eng_auth (snd (LoadQuotaSnapshot pf dec r t eng)) = eng_auth eng"
  "eng_heartbeat (snd (LoadQuotaSnapshot pf dec r t eng)) = eng_heartbeat eng"
  by (auto simp: LoadQuotaSnapshot_def storeQuota_def split: sum.splits)

lemma LoadHeartbeat_frame:
  "eng_auth (snd (LoadQuotaHeartbeat pf dec r eng)) = eng_auth eng"
  "eng_quota (snd (LoadQuotaHeartbeat pf dec r eng)) = eng_quota eng"
  by (auto simp: LoadQuotaHeartbeat_def split: sum.splits)

section \<open>Properties\<close>

text \<open>
  C1: fail closed. Whatever state the engine is in, a request is let through only while the
  authentication snapshot is loaded and at most five seconds old, and only with a bearer key whose
  SHA-256 digest is in it; it is then let through exactly when quota enforcement is off or the
  user's weekly limit is not both enforceable and reached. The decision that lets it through carries
  the identity the table has for that digest.
\<close>

theorem Authorize_allowed_iff:
  "(dc_Allowed (Authorize eng now header enforce) \<longleftrightarrow>
     (\<exists>a key i. eng_auth eng = Some a \<and> authUsable now (Some a) \<and>
        ExtractBearer header = Some key \<and> map_of (au_byDigest a) (sha256_hex key) = Some i \<and>
        (\<not> enforce \<or> (\<nexists>u. quotaEnforced eng now (id_UserEmail i) u)))) \<and>
   (dc_Allowed (Authorize eng now header enforce) \<longrightarrow>
     (\<exists>a key i. eng_auth eng = Some a \<and> ExtractBearer header = Some key \<and>
        map_of (au_byDigest a) (sha256_hex key) = Some i \<and>
        dc_Identity (Authorize eng now header enforce) = Some i))"
proof (cases "authUsable now (eng_auth eng)")
  case False
  then show ?thesis by (auto simp: Authorize_None)
next
  case True
  then obtain a where a: "eng_auth eng = Some a" by (auto simp: authUsable_def split: option.splits)
  show ?thesis
  proof (cases "Option.bind (ExtractBearer header) (\<lambda>k. map_of (au_byDigest a) (sha256_hex k))")
    case None
    then show ?thesis using a by (auto simp: Authorize_Some [OF True a] split: bind_splits)
  next
    case (Some i)
    then obtain key where k: "ExtractBearer header = Some key"
      "map_of (au_byDigest a) (sha256_hex key) = Some i" by (auto split: bind_splits)
    show ?thesis
    proof (cases "enforce \<and> (\<exists>u. quotaEnforced eng now (id_UserEmail i) u)")
      case True
      then show ?thesis using a k Some
        by (auto simp: Authorize_Some [OF \<open>authUsable now (eng_auth eng)\<close> a] authorizeQuota_enforced)
    next
      case False
      then have "\<exists>w. Authorize eng now header enforce = allowDecision i w"
        using authorizeQuota_open [of eng now i] Some
        by (auto simp: Authorize_Some [OF True a])
      then show ?thesis using a k True False by auto
    qed
  qed
qed

text \<open>
  C19: the status of a decision says why: 503 exactly when the authentication snapshot is missing
  or stale, 401 exactly when it is fresh but the key is not in it, 429 exactly when the key is
  known, enforcement is on and the weekly limit is enforceable and reached, and 0 (no error)
  exactly when the request is allowed. On a well-formed engine the 429 tells the client to retry
  after the whole remaining week, at least one second.
\<close>

theorem Authorize_status:
  assumes "engine_ok eng" "in_i64 now" "0 \<le> now"
  shows "(dc_Status (Authorize eng now header enforce) = 503 \<longleftrightarrow> \<not> authUsable now (eng_auth eng)) \<and>
         (dc_Status (Authorize eng now header enforce) = 401 \<longleftrightarrow>
            authUsable now (eng_auth eng) \<and>
            Option.bind (ExtractBearer header)
              (\<lambda>k. Option.bind (eng_auth eng) (\<lambda>a. map_of (au_byDigest a) (sha256_hex k))) = None) \<and>
         (dc_Status (Authorize eng now header enforce) = 0 \<longleftrightarrow>
            dc_Allowed (Authorize eng now header enforce)) \<and>
         (dc_Status (Authorize eng now header enforce) = 429 \<longleftrightarrow>
            enforce \<and> authUsable now (eng_auth eng) \<and>
            (\<exists>a key i u. eng_auth eng = Some a \<and> ExtractBearer header = Some key \<and>
               map_of (au_byDigest a) (sha256_hex key) = Some i \<and>
               quotaEnforced eng now (id_UserEmail i) u)) \<and>
         (dc_Status (Authorize eng now header enforce) = 429 \<longrightarrow>
            (\<exists>i u. dc_Identity (Authorize eng now header enforce) = Some i \<and> enforce \<and>
               quotaEnforced eng now (id_UserEmail i) u \<and>
               dc_RetryAfterSeconds (Authorize eng now header enforce) = qr_WeekEndAt u - now \<and>
               1 \<le> qr_WeekEndAt u - now))"
proof (cases "authUsable now (eng_auth eng)")
  case False
  then show ?thesis by (simp add: Authorize_None)
next
  case True
  then obtain a where a: "eng_auth eng = Some a" by (auto simp: authUsable_def split: option.splits)
  note A = Authorize_Some [OF True a]
  show ?thesis
  proof (cases "Option.bind (ExtractBearer header) (\<lambda>k. map_of (au_byDigest a) (sha256_hex k))")
    case None
    then show ?thesis using a True by (auto simp: A)
  next
    case (Some i)
    then obtain key where k: "ExtractBearer header = Some key"
      "map_of (au_byDigest a) (sha256_hex key) = Some i" by (auto split: bind_splits)
    show ?thesis
    proof (cases "enforce \<and> (\<exists>u. quotaEnforced eng now (id_UserEmail i) u)")
      case False
      then have "\<exists>w. Authorize eng now header enforce = allowDecision i w"
        using authorizeQuota_open [of eng now i] Some by (auto simp: A)
      then show ?thesis using a True k False by auto
    next
      case True
      then obtain u where u: "quotaEnforced eng now (id_UserEmail i) u" by blast
      then have now: "now < qr_WeekEndAt u" by (auto simp: quotaEnforced_def)
      from assms(1) u have "in_i64 (qr_WeekEndAt u)"
        by (blast intro: wf_quota_record_fields quotaEnforced_wf)
      then have "i64 (qr_WeekEndAt u - now) = qr_WeekEndAt u - now"
        using assms(2,3) now by (intro i64_diff_nonneg) auto
      then have retry: "max 1 (i64 (qr_WeekEndAt u - now)) = qr_WeekEndAt u - now"
        using now by simp
      have "Authorize eng now header enforce = quotaExceededDecision i u now"
        using True u Some by (simp add: A authorizeQuota_enforced)
      with u now retry True a \<open>authUsable now (eng_auth eng)\<close> k show ?thesis by auto
    qed
  qed
qed

definition sample_auth_record :: AuthRecord where
  "sample_auth_record =
     \<lparr>ExternalKeySHA256 = sha256_hex ''k'', UserEmail = ''u@x'', Account = ''acct'',
      Backend = ''cliproxy-acct:8317'', InternalKey = ''ik'', Label = ''u@x:acct''\<rparr>"

definition sample_engine :: Engine where
  "sample_engine =
     \<lparr>eng_auth = Some
        \<lparr>au_generation = replicate 32 (CHR ''a''), au_previousGeneration = [],
         au_generatedAt = Finite 0, au_loadedAt = 100, au_recordCount = 1,
         au_byDigest = [(sha256_hex ''k'', identity_of sample_auth_record)]\<rparr>,
      eng_quota = Some
        \<lparr>qt_generation = replicate 32 (CHR ''a''), qt_previousGeneration = [],
         qt_generatedAt = Finite 0, qt_loadedAt = 100, qt_recordCount = 1,
         qt_byUser =
           [(''u@x'', \<lparr>qr_UserEmail = ''u@x'', qr_WeekStartAt = 50, qr_WeekEndAt = 160,
              qr_LimitTokens = 10, qr_UsedTokens = 10, qr_RawUsedTokens = 10,
              qr_WeightedRawUsedTokens = 10, qr_QuotaUnit = ''weighted_tokens''\<rparr>)]\<rparr>,
      eng_heartbeat = Some
        \<lparr>hb_Version = 1, hb_UpdatedAt = 100, hb_OK = True, hb_Error = [],
         hb_StaleAfterSeconds = 15, hb_LastSuccessAt = 90, hb_FailOpenAfterSeconds = 30\<rparr>\<rparr>"

lemma sample_auth_record_valid: "validAuthRecord sample_auth_record"
  by (simp add: sample_auth_record_def validAuthRecord_def validLowerHex_def list_all_iff
      sha256_hex_lower_hex accountNamePattern_def backendPattern_def account_char_def is_lower_def
      byte_def has_prefix_def)

lemma sample_engine_ok: "engine_ok sample_engine"
proof -
  have "auth_ok (the (eng_auth sample_engine))"
    unfolding auth_ok_def
    by (rule exI [of _ "\<lparr>as_Version = 1, as_Generation = replicate 32 (CHR ''a''),
          as_GeneratedAt = Finite 0, as_Records = [sample_auth_record]\<rparr>"])
       (simp add: wf_auth_def sample_auth_record_valid validLowerHex_replicate sample_engine_def
         byDigest_def, simp add: sample_auth_record_def)
  moreover have "quota_ok (the (eng_quota sample_engine))"
    unfolding quota_ok_def
    by (rule exI [of _ "\<lparr>qs_Version = 1, qs_Generation = replicate 32 (CHR ''a''),
          qs_GeneratedAt = Finite 0, qs_ContentSHA256 = [],
          qs_Records = map snd (qt_byUser (the (eng_quota sample_engine)))\<rparr>"])
       (simp add: wf_quota_def validLowerHex_replicate sample_engine_def byUser_def
         wf_quota_record_def in_i64_def)
  ultimately show ?thesis
    by (simp add: engine_ok_def sample_engine_def wf_heartbeat_def in_i64_def)
qed

theorem Authorize_status_witness:
  "dc_Status (Authorize sample_engine 104 ''Bearer k'' True) = 429 \<and>
   dc_RetryAfterSeconds (Authorize sample_engine 104 ''Bearer k'' True) = 56 \<and>
   dc_Status (Authorize sample_engine 106 ''Bearer k'' True) = 503"
proof -
  have h: "in_i64 104" "(0::int) \<le> 104" "in_i64 106" "(0::int) \<le> 106" by (simp_all add: in_i64_def)
  have k: "ExtractBearer ''Bearer k'' = Some ''k''" by code_simp
  have u: "authUsable 104 (eng_auth sample_engine)" "\<not> authUsable 106 (eng_auth sample_engine)"
    by (simp_all add: authUsable_def sample_engine_def AuthSnapshotMaxAge_def i64_def)
  obtain a where a: "eng_auth sample_engine = Some a"
      "map_of (au_byDigest a) (sha256_hex ''k'') = Some (identity_of sample_auth_record)"
    by (simp add: sample_engine_def)
  obtain v where v: "quotaEnforced sample_engine 104 (id_UserEmail (identity_of sample_auth_record)) v"
    by (simp add: quotaEnforced_def sample_engine_def i64_def identity_of_def sample_auth_record_def)
  note S = Authorize_status [OF sample_engine_ok h(1,2), of "''Bearer k''" True]
  have s: "dc_Status (Authorize sample_engine 104 ''Bearer k'' True) = 429"
    unfolding S [THEN conjunct2, THEN conjunct2, THEN conjunct2, THEN conjunct1]
    using a k u(1) v by blast
  with S [THEN conjunct2, THEN conjunct2, THEN conjunct2, THEN conjunct2]
  obtain i :: Identity and v where "quotaEnforced sample_engine 104 (id_UserEmail i) v"
    and r: "dc_RetryAfterSeconds (Authorize sample_engine 104 ''Bearer k'' True) = qr_WeekEndAt v - 104"
    by blast
  then have "qr_WeekEndAt v = 160"
    by (auto simp: quotaEnforced_def sample_engine_def split: if_splits)
  with r s Authorize_status [OF sample_engine_ok h(3,4), of "''Bearer k''" True] u(2)
  show ?thesis by simp
qed

theorem Authorize_allowed_iff_witness:
  "dc_Allowed (Authorize sample_engine 104 ''Bearer k'' False) \<and>
   dc_Identity (Authorize sample_engine 104 ''Bearer k'' False) = Some (identity_of sample_auth_record) \<and>
   \<not> dc_Allowed (Authorize sample_engine 106 ''Bearer k'' False)"
proof -
  have k: "ExtractBearer ''Bearer k'' = Some ''k''" by code_simp
  have u: "authUsable 104 (eng_auth sample_engine)" "\<not> authUsable 106 (eng_auth sample_engine)"
    by (simp_all add: authUsable_def sample_engine_def AuthSnapshotMaxAge_def i64_def)
  obtain a where a: "eng_auth sample_engine = Some a"
      "map_of (au_byDigest a) (sha256_hex ''k'') = Some (identity_of sample_auth_record)"
    by (simp add: sample_engine_def)
  have "dc_Allowed (Authorize sample_engine 104 ''Bearer k'' False)"
    unfolding Authorize_allowed_iff [THEN conjunct1] using a k u(1) by auto
  moreover from this Authorize_allowed_iff [of sample_engine 104 "''Bearer k''" False, THEN conjunct2]
  have "dc_Identity (Authorize sample_engine 104 ''Bearer k'' False) = Some (identity_of sample_auth_record)"
    using a k by auto
  moreover have "\<not> dc_Allowed (Authorize sample_engine 106 ''Bearer k'' False)"
    unfolding Authorize_allowed_iff [THEN conjunct1] using u(2) by auto
  ultimately show ?thesis by blast
qed

end
