(* ===== verification/Gateway_Loader.thy ===== *)
theory Gateway_Loader
  imports Gateway_Engine
begin

text \<open>
  \<open>internal/gateway/loader.go\<close>: the loader that keeps the engine's snapshots fresh. The files of
  a refresh are data of the event that triggers it, so a run of the loader is a list of events,
  each with the clock and the files it finds. Log lines are recorded in the order they are
  written; the text of an error is the error value. The file watcher of \<open>fsnotify\<close> appears
  only as a source of events.
\<close>

section \<open>Definitions\<close>

definition DefaultSnapshotRefreshInterval :: int where
  "DefaultSnapshotRefreshInterval = 500 * 1000000"

text \<open>\<open>filepath.Clean\<close>, on rooted and relative paths.\<close>

fun clean_relative :: "string list \<Rightarrow> string list \<Rightarrow> string list" where
  "clean_relative st [] = rev st"
| "clean_relative st (s # ss) =
     (if s = [] \<or> s = ''.'' then clean_relative st ss
      else if s = ''..'' \<and> st \<noteq> [] \<and> hd st \<noteq> ''..'' then clean_relative (tl st) ss
      else clean_relative (s # st) ss)"

definition file_clean :: "string \<Rightarrow> string" where
  "file_clean p =
     (if p = [] then ''.''
      else if hd p = CHR ''/'' then path_clean p
      else let ss = clean_relative [] (split_on (CHR ''/'') p)
           in if ss = [] then ''.'' else join_strings ''/'' ss)"

record SnapshotPaths =
  sp_Directory :: string
  sp_Auth :: string
  sp_Quota :: string
  sp_Heartbeat :: string

definition SnapshotPathsForDirectory :: "string \<Rightarrow> SnapshotPaths" where
  "SnapshotPathsForDirectory directory =
     (let d = file_clean directory; joined = (\<lambda>n. file_clean (d @ ''/'' @ n))
      in \<lparr>sp_Directory = d, sp_Auth = joined ''auth-snapshot.json'',
          sp_Quota = joined ''quota-snapshot.json'', sp_Heartbeat = joined ''quota-heartbeat.json''\<rparr>)"

text \<open>The decoders of the three files, from \<open>encoding/json\<close> and \<open>strconv\<close>.\<close>

record codecs =
  cd_pf :: parse_float
  cd_auth :: "string \<Rightarrow> rawAuthSnapshot option"
  cd_quota :: "string \<Rightarrow> rawQuotaSnapshot option"
  cd_heartbeat :: "string \<Rightarrow> rawQuotaHeartbeat option"

text \<open>Opening a file fails, or gives its reader and tells whether closing it will succeed.\<close>

datatype snapfile = CannotOpen | Opened reader bool

record snapfiles =
  sf_auth :: snapfile
  sf_quota :: snapfile
  sf_heartbeat :: snapfile

datatype load_error = OpenError | LoadError snapshot_error | CloseError

datatype log_line = LogError string load_error | LogWarn string load_error | LogInfo string

record SnapshotLoader =
  ld_engine :: Engine
  ld_paths :: SnapshotPaths
  ld_interval :: int
  ld_lastError :: "(string, load_error) gomap"
  ld_log :: "log_line list"

definition NewSnapshotLoader :: "Engine \<Rightarrow> SnapshotPaths \<Rightarrow> int \<Rightarrow> SnapshotLoader" where
  "NewSnapshotLoader eng paths interval =
     \<lparr>ld_engine = eng, ld_paths = paths,
      ld_interval = (if interval \<le> 0 then DefaultSnapshotRefreshInterval else interval),
      ld_lastError = [], ld_log = []\<rparr>"

definition recordError :: "string \<Rightarrow> load_error \<Rightarrow> SnapshotLoader \<Rightarrow> SnapshotLoader" where
  "recordError kind err l =
     (if map_of (ld_lastError l) kind = Some err then l
      else l\<lparr>ld_lastError := AList.update kind err (ld_lastError l),
             ld_log := ld_log l @
               [if kind = ''auth'' then LogError kind err else LogWarn kind err]\<rparr>)"

definition recordRecovery :: "string \<Rightarrow> SnapshotLoader \<Rightarrow> SnapshotLoader" where
  "recordRecovery kind l =
     l\<lparr>ld_lastError := AList.delete kind (ld_lastError l),
       ld_log := ld_log l @ (if has_key (ld_lastError l) kind then [LogInfo kind] else [])\<rparr>"

text \<open>
  \<open>load\<close>: the error of a failed open, of the parse, or of the close after a good parse. In the
  last case the engine has already been replaced.
\<close>

definition loaderLoad ::
  "string \<Rightarrow> snapfile \<Rightarrow> (reader \<Rightarrow> Engine \<Rightarrow> snapshot_error option \<times> Engine) \<Rightarrow>
   SnapshotLoader \<Rightarrow> SnapshotLoader" where
  "loaderLoad kind file load l =
     (case file of
        CannotOpen \<Rightarrow> recordError kind OpenError l
      | Opened r closeOK \<Rightarrow>
          (let (err, eng) = load r (ld_engine l); l' = l\<lparr>ld_engine := eng\<rparr>
           in case err of
                Some e \<Rightarrow> recordError kind (LoadError e) l'
              | None \<Rightarrow> if \<not> closeOK then recordError kind CloseError l'
                        else recordRecovery kind l'))"

definition Refresh :: "codecs \<Rightarrow> int64 \<Rightarrow> snapfiles \<Rightarrow> SnapshotLoader \<Rightarrow> SnapshotLoader" where
  "Refresh cd now files l =
     loaderLoad ''heartbeat'' (sf_heartbeat files)
       (\<lambda>r. LoadQuotaHeartbeat (cd_pf cd) (cd_heartbeat cd) r)
       (loaderLoad ''quota'' (sf_quota files)
          (\<lambda>r. LoadQuotaSnapshot (cd_pf cd) (cd_quota cd) r now)
          (loaderLoad ''auth'' (sf_auth files)
             (\<lambda>r. LoadAuthSnapshot (cd_pf cd) (cd_auth cd) r now) l))"

datatype fsop = FsCreate | FsWrite | FsRemove | FsRename | FsChmod

definition relevantEvent :: "SnapshotPaths \<Rightarrow> fsop list \<Rightarrow> string \<Rightarrow> bool" where
  "relevantEvent paths ops name =
     (if \<not> list_ex (\<lambda>op. op \<noteq> FsChmod) ops then False
      else let p = file_clean name
           in p = sp_Auth paths \<or> p = sp_Quota paths \<or> p = sp_Heartbeat paths)"

datatype loader_event =
    Tick int64 snapfiles
  | FsEvent "fsop list" string int64 snapfiles
  | EventsClosed
  | WatcherError
  | WatcherErrorsClosed
  | CtxDone

text \<open>The \<open>select\<close> loop of \<open>Run\<close>; \<open>events\<close> tells whether the event channel is not nil.\<close>

fun loaderLoop :: "codecs \<Rightarrow> bool \<Rightarrow> SnapshotLoader \<Rightarrow> loader_event list \<Rightarrow> SnapshotLoader" where
  "loaderLoop cd events l [] = l"
| "loaderLoop cd events l (CtxDone # es) = l"
| "loaderLoop cd events l (Tick now files # es) = loaderLoop cd events (Refresh cd now files l) es"
| "loaderLoop cd events l (FsEvent ops name now files # es) =
     loaderLoop cd events
       (if events \<and> relevantEvent (ld_paths l) ops name then Refresh cd now files l else l) es"
| "loaderLoop cd events l (EventsClosed # es) = loaderLoop cd False l es"
| "loaderLoop cd events l (WatcherError # es) = loaderLoop cd events l es"
| "loaderLoop cd events l (WatcherErrorsClosed # es) = loaderLoop cd events l es"

definition loaderRun ::
  "codecs \<Rightarrow> bool \<Rightarrow> int64 \<Rightarrow> snapfiles \<Rightarrow> SnapshotLoader \<Rightarrow> loader_event list \<Rightarrow> SnapshotLoader" where
  "loaderRun cd watching now files l es = loaderLoop cd watching (Refresh cd now files l) es"

text \<open>The authentication file of a refresh parses.\<close>

definition authFileOK :: "codecs \<Rightarrow> snapfiles \<Rightarrow> bool" where
  "authFileOK cd files \<longleftrightarrow>
     (\<exists>r b s. sf_auth files = Opened r b \<and> ParseAuthSnapshot (cd_pf cd) (cd_auth cd) r = Inr s)"

fun event_files :: "loader_event \<Rightarrow> snapfiles option" where
  "event_files (Tick _ files) = Some files"
| "event_files (FsEvent _ _ _ files) = Some files"
| "event_files _ = None"

text \<open>A load fails when its file cannot be opened, its content does not parse, or closing fails.\<close>

definition loadFailed :: "snapfile \<Rightarrow> (reader \<Rightarrow> snapshot_error + 'a) \<Rightarrow> bool" where
  "loadFailed file parse \<longleftrightarrow>
     (case file of CannotOpen \<Rightarrow> True | Opened r ok \<Rightarrow> isl (parse r) \<or> \<not> ok)"

section \<open>Lemmas\<close>

lemma record_engine [simp]:
  "ld_engine (recordError k e l) = ld_engine l" "ld_engine (recordRecovery k l) = ld_engine l"
  "ld_paths (recordError k e l) = ld_paths l" "ld_paths (recordRecovery k l) = ld_paths l"
  by (simp_all add: recordError_def recordRecovery_def)

lemma recordError_lastError:
  "map_of (ld_lastError (recordError k e l)) = (map_of (ld_lastError l))(k \<mapsto> e)"
  by (auto simp: recordError_def)

lemma recordRecovery_lastError:
  "map_of (ld_lastError (recordRecovery k l)) = (map_of (ld_lastError l))(k := None)"
  by (simp add: recordRecovery_def)

lemma loaderLoad_engine:
  "ld_engine (loaderLoad k file load l) =
     (case file of CannotOpen \<Rightarrow> ld_engine l | Opened r b \<Rightarrow> snd (load r (ld_engine l)))"
  by (auto simp: loaderLoad_def Let_def split: snapfile.splits prod.splits option.splits)

lemma loaderLoad_paths [simp]: "ld_paths (loaderLoad k file load l) = ld_paths l"
  by (auto simp: loaderLoad_def Let_def split: snapfile.splits prod.splits option.splits)

lemma loaderLoad_lastError:
  assumes "\<And>r eng. fst (load r eng) = None \<longleftrightarrow> \<not> isl (parse r)"
  shows "has_key (ld_lastError (loaderLoad k fl load l)) k' \<longleftrightarrow>
     (if k' = k then loadFailed fl parse else has_key (ld_lastError l) k')"
proof (cases fl)
  case CannotOpen
  then show ?thesis
    by (simp add: loaderLoad_def loadFailed_def has_key_map_of recordError_lastError)
next
  case (Opened r ok)
  obtain err eng where le: "load r (ld_engine l) = (err, eng)" by force
  with assms [of r "ld_engine l"] have "err = None \<longleftrightarrow> \<not> isl (parse r)" by simp
  with Opened le show ?thesis
    by (auto simp: loaderLoad_def loadFailed_def has_key_map_of recordError_lastError Let_def
        recordRecovery_lastError split: option.splits)
qed

lemma load_errors:
  "fst (LoadAuthSnapshot pf deca r t eng) = None \<longleftrightarrow> \<not> isl (ParseAuthSnapshot pf deca r)"
  "fst (LoadQuotaSnapshot pf decq r t eng) = None \<longleftrightarrow> \<not> isl (ParseQuotaSnapshot pf decq r)"
  "fst (LoadQuotaHeartbeat pf dech r eng) = None \<longleftrightarrow> \<not> isl (ParseQuotaHeartbeat pf dech r)"
  by (auto simp: LoadAuthSnapshot_def LoadQuotaSnapshot_def LoadQuotaHeartbeat_def split: sum.splits)

lemmas loaderLoad_errors =
  loaderLoad_lastError [OF load_errors(1)] loaderLoad_lastError [OF load_errors(2)]
  loaderLoad_lastError [OF load_errors(3)]

lemma engine_ok_Refresh: "engine_ok (ld_engine l) \<Longrightarrow> engine_ok (ld_engine (Refresh cd now files l))"
  unfolding Refresh_def loaderLoad_engine
  by (auto split: snapfile.splits intro!: engine_ok_LoadHeartbeat engine_ok_LoadQuota engine_ok_LoadAuth)

lemma engine_ok_loaderLoop:
  "engine_ok (ld_engine l) \<Longrightarrow> engine_ok (ld_engine (loaderLoop cd ev l es))"
  by (induction cd ev l es rule: loaderLoop.induct) (auto simp: engine_ok_Refresh)

lemma Refresh_auth:
  "eng_auth (ld_engine (Refresh cd now files l)) =
     (case sf_auth files of
        CannotOpen \<Rightarrow> eng_auth (ld_engine l)
      | Opened r b \<Rightarrow>
          eng_auth (snd (LoadAuthSnapshot (cd_pf cd) (cd_auth cd) r now (ld_engine l))))"
  unfolding Refresh_def loaderLoad_engine
  by (auto split: snapfile.splits simp: LoadQuota_frame LoadHeartbeat_frame)

lemma Refresh_auth_bad:
  "\<not> authFileOK cd files \<Longrightarrow> eng_auth (ld_engine (Refresh cd now files l)) = eng_auth (ld_engine l)"
  unfolding Refresh_auth authFileOK_def
  by (auto simp: LoadAuthSnapshot_def split: snapfile.splits sum.splits)

lemma loaderLoop_auth_bad:
  "\<forall>e \<in> set es. pred_option (\<lambda>f. \<not> authFileOK cd f) (event_files e) \<Longrightarrow>
   eng_auth (ld_engine (loaderLoop cd ev l es)) = eng_auth (ld_engine l)"
  by (induction cd ev l es rule: loaderLoop.induct) (auto simp: Refresh_auth_bad)

section \<open>Properties\<close>

text \<open>
  C18: prolonged failure to load switches authorization off. While every event of a run finds a
  missing or malformed authentication file, the last valid authentication state stays in memory
  unchanged, and as soon as it is more than five seconds old every request, with any header, is
  refused with 503.
\<close>

theorem loader_fail_closed:
  assumes "eng_auth (ld_engine l) = Some a" "in_i64 (au_loadedAt a)"
    and "\<forall>e \<in> set es. pred_option (\<lambda>f. \<not> authFileOK cd f) (event_files e)"
    and "in_i64 now" "now > au_loadedAt a + 5" "0 \<le> au_loadedAt a"
  shows "eng_auth (ld_engine (loaderLoop cd ev l es)) = Some a \<and>
         dc_Status (Authorize (ld_engine (loaderLoop cd ev l es)) now header enforce) = 503 \<and>
         \<not> dc_Allowed (Authorize (ld_engine (loaderLoop cd ev l es)) now header enforce)"
proof -
  have e: "eng_auth (ld_engine (loaderLoop cd ev l es)) = Some a"
    using loaderLoop_auth_bad [OF assms(3)] assms(1) by simp
  have "i64 (now - au_loadedAt a) = now - au_loadedAt a"
    using assms by (intro i64_diff_nonneg) auto
  then have "\<not> authUsable now (Some a)"
    using assms(5) by (simp add: authUsable_def AuthSnapshotMaxAge_def)
  with e show ?thesis by (simp add: Authorize_None)
qed

definition sample_codecs :: codecs where
  "sample_codecs = \<lparr>cd_pf = (\<lambda>_. None), cd_auth = (\<lambda>_. None), cd_quota = (\<lambda>_. None),
                    cd_heartbeat = (\<lambda>_. None)\<rparr>"

definition sample_bad_files :: snapfiles where
  "sample_bad_files = \<lparr>sf_auth = Opened (RBytes ''x'') True, sf_quota = CannotOpen, sf_heartbeat = CannotOpen\<rparr>"

definition sample_loader :: SnapshotLoader where
  "sample_loader = (NewSnapshotLoader sample_engine (SnapshotPathsForDirectory ''/s'') 0)"

lemma sample_bad: "\<not> authFileOK sample_codecs sample_bad_files"
  by (auto simp: authFileOK_def sample_bad_files_def sample_codecs_def ParseAuthSnapshot_def
      split: sum.splits)

theorem loader_fail_closed_witness:
  "dc_Status (Authorize (ld_engine (loaderLoop sample_codecs True sample_loader
     [Tick 101 sample_bad_files, EventsClosed, Tick 103 sample_bad_files])) 106 ''Bearer k'' True) = 503"
proof -
  let ?a = "the (eng_auth sample_engine)"
  have "eng_auth (ld_engine sample_loader) = Some ?a" "au_loadedAt ?a = 100"
    by (simp_all add: sample_loader_def NewSnapshotLoader_def sample_engine_def)
  moreover have "\<forall>e \<in> set [Tick 101 sample_bad_files, EventsClosed, Tick 103 sample_bad_files].
      pred_option (\<lambda>f. \<not> authFileOK sample_codecs f) (event_files e)"
    by (simp add: sample_bad)
  ultimately show ?thesis
    using loader_fail_closed [of sample_loader ?a
        "[Tick 101 sample_bad_files, EventsClosed, Tick 103 sample_bad_files]"
        sample_codecs 106 True "''Bearer k''" True]
    by (simp add: in_i64_def)
qed

text \<open>
  C20: every state the loader's engine can reach from an empty engine, whatever the files hold and
  in whatever order the events come, is well formed; and after a refresh the loader remembers an
  error for exactly the kinds of snapshot whose file could not be opened, parsed or closed.
\<close>

theorem loader_reachable_ok:
  "engine_ok (ld_engine (loaderRun cd watching now files
      (NewSnapshotLoader NewEngine paths interval) es)) \<and>
   (has_key (ld_lastError (Refresh cd now files l)) ''auth'' \<longleftrightarrow>
      loadFailed (sf_auth files) (ParseAuthSnapshot (cd_pf cd) (cd_auth cd))) \<and>
   (has_key (ld_lastError (Refresh cd now files l)) ''quota'' \<longleftrightarrow>
      loadFailed (sf_quota files) (ParseQuotaSnapshot (cd_pf cd) (cd_quota cd))) \<and>
   (has_key (ld_lastError (Refresh cd now files l)) ''heartbeat'' \<longleftrightarrow>
      loadFailed (sf_heartbeat files) (ParseQuotaHeartbeat (cd_pf cd) (cd_heartbeat cd)))"
proof -
  have "engine_ok (ld_engine (NewSnapshotLoader NewEngine paths interval))"
    by (simp add: NewSnapshotLoader_def engine_ok_New)
  then have "engine_ok (ld_engine (loaderRun cd watching now files
      (NewSnapshotLoader NewEngine paths interval) es))"
    unfolding loaderRun_def by (intro engine_ok_loaderLoop engine_ok_Refresh)
  then show ?thesis by (simp add: Refresh_def loaderLoad_errors)
qed

end
