(* ===== verification/Gateway_Server.thy ===== *)
theory Gateway_Server
  imports Gateway_Loader "HOL-Library.Multiset"
begin

text \<open>
  \<open>internal/gateway/server.go\<close>: the HTTP side of the gateway. A handler takes the gateway state,
  the clock and the request, and returns the new state with either a reply of its own or the
  request it forwards to an account. A reply is what the handler writes: gin's own text for a
  404 without a body, \<open>httputil.ReverseProxy\<close> (the transport of a forwarded
  request) and gin's routing tables stay outside; the state of a
  forwarded request ends with \<open>finishRequest\<close>, the deferred \<open>done\<close>. Header maps are
  association lists from canonical names to values.

  The in-flight registry is a state machine over interleaved requests (\<open>gw_step\<close>).
\<close>

section \<open>Definitions\<close>

subsection \<open>The in-flight registry\<close>

record InflightStat =
  if_Label :: string
  if_Account :: string
  if_Inflight :: int64

type_synonym inflightRegistry = "(string, InflightStat) gomap"

definition inflightEntry :: "inflightRegistry \<Rightarrow> string \<Rightarrow> InflightStat" where
  "inflightEntry reg label =
     (case map_of reg label of
        None \<Rightarrow> \<lparr>if_Label = [], if_Account = [], if_Inflight = 0\<rparr>
      | Some e \<Rightarrow> e)"

definition inflightStart :: "string \<Rightarrow> string \<Rightarrow> inflightRegistry \<Rightarrow> inflightRegistry" where
  "inflightStart label account reg =
     AList.update label
       \<lparr>if_Label = label, if_Account = account,
        if_Inflight = i64 (if_Inflight (inflightEntry reg label) + 1)\<rparr> reg"

text \<open>The function \<open>Start\<close> returns; \<open>sync.Once\<close> makes its second call a no-op.\<close>

definition inflightDone :: "string \<Rightarrow> inflightRegistry \<Rightarrow> inflightRegistry" where
  "inflightDone label reg =
     (let e = inflightEntry reg label
      in AList.update label
           (if if_Inflight e > 0 then e\<lparr>if_Inflight := if_Inflight e - 1\<rparr> else e) reg)"

definition inflightSnapshot :: "inflightRegistry \<Rightarrow> InflightStat list" where
  "inflightSnapshot reg = sort_key if_Label (map snd reg)"

subsection \<open>Requests, replies and the gateway state\<close>

type_synonym headers = "(string, string) gomap"

record request =
  rq_Method :: string
  rq_Path :: string
  rq_RawPath :: string
  rq_Host :: string
  rq_URLScheme :: string
  rq_URLHost :: string
  rq_Header :: headers

datatype body =
    NoBody
  | Text string
  | ErrorBody "ErrorResponse option"
  | StatusBody Status
  | StatsBody "InflightStat list"

record reply =
  rp_Status :: int
  rp_Header :: headers
  rp_Body :: body

datatype outcome = Reply reply | Forward request Identity

record HTTPGateway =
  gw_engine :: Engine
  gw_inflight :: inflightRegistry
  gw_warnings :: "(string, int64) gomap"
  gw_warnLog :: "(string \<times> int64) list"

definition line :: "string \<Rightarrow> string" where
  "line s = s @ [CHR 0x0A]"

definition applyHSTS :: "headers \<Rightarrow> string \<Rightarrow> headers" where
  "applyHSTS h forwardedProtocol =
     (if forwardedProtocol = ''https''
      then AList.update ''Strict-Transport-Security'' ''max-age=0'' h
      else AList.delete ''Strict-Transport-Security'' h)"

definition writeDecision :: "headers \<Rightarrow> Decision \<Rightarrow> (int64 \<Rightarrow> string) \<Rightarrow> outcome" where
  "writeDecision h d fmt =
     Reply \<lparr>rp_Status = (if dc_Status d = 0 then 500 else dc_Status d),
            rp_Header = (if dc_RetryAfterSeconds d > 0
                         then AList.update ''Retry-After'' (fmt (dc_RetryAfterSeconds d)) h else h),
            rp_Body = ErrorBody (dc_Response d)\<rparr>"

text \<open>What the recovery middleware answers after a panic, and the proxy after a failed transfer.\<close>

definition serverError :: "string \<Rightarrow> string \<Rightarrow> ErrorResponse" where
  "serverError message code =
     \<lparr>er_Error = \<lparr>ae_Message = message, ae_Type = ''server_error'', ae_Code = code\<rparr>,
      er_UserWeeklyQuota = None\<rparr>"

definition recovered :: "headers \<Rightarrow> request \<Rightarrow> outcome" where
  "recovered h r =
     Reply \<lparr>rp_Status = 500, rp_Header = applyHSTS h (gstring (rq_Header r) ''X-Forwarded-Proto''),
            rp_Body = ErrorBody (Some (serverError ''Internal server error'' ''internal_error''))\<rparr>"

definition handleProxyError :: "headers \<Rightarrow> request \<Rightarrow> outcome" where
  "handleProxyError h r =
     Reply \<lparr>rp_Status = 502,
            rp_Header = AList.update ''Content-Type'' ''application/json; charset=utf-8''
              (applyHSTS h (gstring (rq_Header r) ''X-Forwarded-Proto'')),
            rp_Body = ErrorBody (Some (serverError ''Upstream service is temporarily unavailable''
                                         ''upstream_unavailable''))\<rparr>"

definition warnFailOpen :: "string \<Rightarrow> int64 \<Rightarrow> HTTPGateway \<Rightarrow> HTTPGateway" where
  "warnFailOpen reason now gw =
     (if reason = [] then gw
      else if (case map_of (gw_warnings gw) reason of None \<Rightarrow> 0 | Some t \<Rightarrow> t) = now then gw
      else gw\<lparr>gw_warnings := AList.update reason now (gw_warnings gw),
              gw_warnLog := gw_warnLog gw @ [(reason, now)]\<rparr>)"

text \<open>
  \<open>proxyRequest\<close> with the director \<open>directProxyRequest\<close>: the request as the director leaves it. What
  \<open>httputil.ReverseProxy\<close> does to it on the way (it strips the hop-by-hop headers and adds
  \<open>X-Forwarded-For\<close>) is the transport's and not modelled.
\<close>

definition proxyRequest :: "request \<Rightarrow> Identity \<Rightarrow> string \<Rightarrow> request" where
  "proxyRequest r i targetPath =
     r\<lparr>rq_Path := targetPath, rq_RawPath := [], rq_URLScheme := ''http'',
       rq_URLHost := id_Backend i, rq_Host := rq_Host r,
       rq_Header := AList.delete ''Proxy-Authorization''
         (AList.update ''Authorization'' (''Bearer '' @ id_InternalKey i) (rq_Header r))\<rparr>"

text \<open>Reading the identity of a decision that has none is a nil dereference, which panics.\<close>

definition handlePublicRequest ::
  "(int64 \<Rightarrow> string) \<Rightarrow> headers \<Rightarrow> int64 \<Rightarrow> request \<Rightarrow> HTTPGateway \<Rightarrow> HTTPGateway \<times> outcome" where
  "handlePublicRequest fmt h now r gw =
     (case NormalizePublicPath (rq_Path r) of
        None \<Rightarrow> (gw, Reply \<lparr>rp_Status = 404, rp_Header = h, rp_Body = NoBody\<rparr>)
      | Some normalizedPath \<Rightarrow>
          (let d = Authorize (gw_engine gw) now (gstring (rq_Header r) ''Authorization'') True
           in if \<not> dc_Allowed d then (gw, writeDecision h d fmt)
              else (let gw' = warnFailOpen (dc_Warning d) now gw
                    in (case dc_Identity d of
                          None \<Rightarrow> (gw', recovered h r)
                        | Some i \<Rightarrow>
                            (gw'\<lparr>gw_inflight := inflightStart (id_Label i) (id_Account i) (gw_inflight gw')\<rparr>,
                             Forward (proxyRequest r i normalizedPath) i)))))"

definition finishRequest :: "string \<Rightarrow> HTTPGateway \<Rightarrow> HTTPGateway" where
  "finishRequest label gw = gw\<lparr>gw_inflight := inflightDone label (gw_inflight gw)\<rparr>"

definition handleInternalModelProbe ::
  "(int64 \<Rightarrow> string) \<Rightarrow> headers \<Rightarrow> int64 \<Rightarrow> request \<Rightarrow> HTTPGateway \<Rightarrow> outcome" where
  "handleInternalModelProbe fmt h now r gw =
     (let d = Authorize (gw_engine gw) now (gstring (rq_Header r) ''Authorization'') False
      in if \<not> dc_Allowed d then writeDecision h d fmt
         else (case dc_Identity d of
                 None \<Rightarrow> recovered h r
               | Some i \<Rightarrow> Forward (proxyRequest r i ''/v1/models'') i))"

text \<open>The two routers: the public one with its HSTS middleware, and the internal one.\<close>

definition PublicHandler ::
  "(int64 \<Rightarrow> string) \<Rightarrow> int64 \<Rightarrow> request \<Rightarrow> HTTPGateway \<Rightarrow> HTTPGateway \<times> outcome" where
  "PublicHandler fmt now r gw =
     (let h = applyHSTS [] (gstring (rq_Header r) ''X-Forwarded-Proto'')
      in if rq_Path r = ''/__health''
         then (gw, Reply \<lparr>rp_Status = 200, rp_Header = h, rp_Body = Text (line ''ok'')\<rparr>)
         else handlePublicRequest fmt h now r gw)"

definition InternalHandler ::
  "(int64 \<Rightarrow> string) \<Rightarrow> int64 \<Rightarrow> request \<Rightarrow> HTTPGateway \<Rightarrow> HTTPGateway \<times> outcome" where
  "InternalHandler fmt now r gw =
     (let h = applyHSTS [] (gstring (rq_Header r) ''X-Forwarded-Proto'')
      in if rq_Method r \<noteq> ''GET'' then (gw, Reply \<lparr>rp_Status = 404, rp_Header = h, rp_Body = NoBody\<rparr>)
         else if rq_Path r = ''/__internal/ready''
         then (gw, Reply (if \<not> AuthenticationReady (gw_engine gw) now
                          then \<lparr>rp_Status = 503, rp_Header = AList.update ''Retry-After'' ''1'' h,
                                rp_Body = Text (line ''authentication snapshot unavailable'')\<rparr>
                          else \<lparr>rp_Status = 200, rp_Header = h, rp_Body = Text (line ''ready'')\<rparr>))
         else if rq_Path r = ''/__internal/probe/models''
         then (gw, handleInternalModelProbe fmt h now r gw)
         else if rq_Path r = ''/__internal/snapshots''
         then (gw, Reply \<lparr>rp_Status = 200, rp_Header = h, rp_Body = StatusBody (EngineStatus (gw_engine gw))\<rparr>)
         else if rq_Path r = ''/__stats''
         then (gw, Reply \<lparr>rp_Status = 200, rp_Header = h,
                          rp_Body = StatsBody (inflightSnapshot (gw_inflight gw))\<rparr>)
         else (gw, Reply \<lparr>rp_Status = 404, rp_Header = h, rp_Body = NoBody\<rparr>))"

definition skipPublicAccessLog :: "string \<Rightarrow> bool" where
  "skipPublicAccessLog path \<longleftrightarrow>
     path = ''/__health'' \<or> path = ''/__stats'' \<or> has_prefix ''/__internal/'' path"

text \<open>\<open>strings.Map\<close> over valid UTF-8: the three control bytes are single-byte runes.\<close>

definition sanitizeTSV :: "string \<Rightarrow> string" where
  "sanitizeTSV value =
     map (\<lambda>c. if byte c = 9 \<or> byte c = 13 \<or> byte c = 10 then CHR ''_'' else c) value"

subsection \<open>Interleaved requests\<close>

text \<open>
  The gateway and the requests it has in flight, each with the label and the account it was
  started with. A step is a public request being refused or admitted, an admitted one ending, or
  the loader replacing the engine. \<open>accOf\<close> is the account a label stands for (the labels of the
  published snapshots are \<open>user:account\<close>); the process cannot hold \<open>2 ^ 63\<close> requests. Admission is one
  step: that a goroutine stops between \<open>Authorize\<close> and \<open>inflight.Start\<close> is not seen, so a request is in
  flight from its admission on. The models probe of the internal listener (\<open>handleInternalModelProbe\<close>)
  is forwarded without being counted and changes nothing of this state; it is not a step.
\<close>

record gwsys =
  gs_gw :: HTTPGateway
  gs_active :: "(string \<times> string) list"

definition engine_labels :: "(string \<Rightarrow> string) \<Rightarrow> Engine \<Rightarrow> bool" where
  "engine_labels accOf eng \<longleftrightarrow>
     (\<forall>a d i. eng_auth eng = Some a \<longrightarrow> map_of (au_byDigest a) d = Some i \<longrightarrow>
        id_Account i = accOf (id_Label i))"

inductive gw_step :: "(string \<Rightarrow> string) \<Rightarrow> gwsys \<Rightarrow> gwsys \<Rightarrow> bool" for accOf where
  refused: "handlePublicRequest fmt h now r (gs_gw s) = (gw', Reply p) \<Longrightarrow>
     gw_step accOf s (s\<lparr>gs_gw := gw'\<rparr>)"
| admitted: "handlePublicRequest fmt h now r (gs_gw s) = (gw', Forward up i) \<Longrightarrow>
     int (length (gs_active s)) + 1 < 2 ^ 63 \<Longrightarrow>
     gw_step accOf s (s\<lparr>gs_gw := gw', gs_active := (id_Label i, id_Account i) # gs_active s\<rparr>)"
| finished: "(label, account) \<in> set (gs_active s) \<Longrightarrow>
     gw_step accOf s (s\<lparr>gs_gw := finishRequest label (gs_gw s),
                        gs_active := remove1 (label, account) (gs_active s)\<rparr>)"
| reloaded: "engine_labels accOf eng \<Longrightarrow>
     gw_step accOf s (s\<lparr>gs_gw := (gs_gw s)\<lparr>gw_engine := eng\<rparr>\<rparr>)"

definition gw_init :: gwsys where
  "gw_init = \<lparr>gs_gw = \<lparr>gw_engine = NewEngine, gw_inflight = [], gw_warnings = [], gw_warnLog = []\<rparr>,
              gs_active = []\<rparr>"

inductive gw_reachable :: "(string \<Rightarrow> string) \<Rightarrow> gwsys \<Rightarrow> bool" for accOf where
  start: "gw_reachable accOf gw_init"
| step: "gw_reachable accOf s \<Longrightarrow> gw_step accOf s t \<Longrightarrow> gw_reachable accOf t"

text \<open>The registry counts exactly the requests in flight, label by label.\<close>

definition registry_ok :: "(string \<Rightarrow> string) \<Rightarrow> gwsys \<Rightarrow> bool" where
  "registry_ok accOf s \<longleftrightarrow>
     wf_map (gw_inflight (gs_gw s)) \<and> engine_labels accOf (gw_engine (gs_gw s)) \<and>
     (\<forall>(l, a) \<in> set (gs_active s). a = accOf l) \<and>
     (\<forall>(l, e) \<in> set (gw_inflight (gs_gw s)). if_Label e = l \<and> if_Account e = accOf l) \<and>
     (\<forall>l. if_Inflight (inflightEntry (gw_inflight (gs_gw s)) l) = int (count_list (map fst (gs_active s)) l))"

section \<open>Lemmas\<close>

lemma inflightEntry_update [simp]:
  "inflightEntry (AList.update l e reg) l' = (if l' = l then e else inflightEntry reg l')"
  by (simp add: inflightEntry_def)

lemma inflightStart_count:
  "if_Inflight (inflightEntry (inflightStart l a reg) l') =
     (if l' = l then i64 (if_Inflight (inflightEntry reg l) + 1) else if_Inflight (inflightEntry reg l'))"
  by (simp add: inflightStart_def)

lemma inflightDone_count:
  "if_Inflight (inflightEntry (inflightDone l reg) l') =
     (if l' = l then (if 0 < if_Inflight (inflightEntry reg l) then if_Inflight (inflightEntry reg l) - 1
                      else if_Inflight (inflightEntry reg l))
      else if_Inflight (inflightEntry reg l'))"
  by (simp add: inflightDone_def Let_def)

lemma wf_inflight [simp]:
  "wf_map reg \<Longrightarrow> wf_map (inflightStart l a reg)" "wf_map reg \<Longrightarrow> wf_map (inflightDone l reg)"
  by (simp_all add: inflightStart_def inflightDone_def Let_def)

lemma warnFailOpen_frame [simp]:
  "gw_engine (warnFailOpen reason now gw) = gw_engine gw"
  "gw_inflight (warnFailOpen reason now gw) = gw_inflight gw"
  by (simp_all add: warnFailOpen_def)

lemma count_list_remove1:
  "x \<in> set xs \<Longrightarrow> count_list (map f xs) y = count_list (map f (remove1 x xs)) y + (if f x = y then 1 else 0)"
  by (induction xs) auto

lemma count_list_pos: "x \<in> set xs \<Longrightarrow> 0 < count_list xs x"
  by (induction xs) auto

lemma set_update_subset: "set (AList.update k v m) \<subseteq> insert (k, v) (set m)"
  by (induction m) auto

lemma inflightEntry_in: "(l, e) \<in> set reg \<Longrightarrow> wf_map reg \<Longrightarrow> inflightEntry reg l = e"
  by (simp add: inflightEntry_def wf_map_map_of)

lemma inflightEntry_mem: "if_Inflight (inflightEntry reg l) \<noteq> 0 \<Longrightarrow> (l, inflightEntry reg l) \<in> set reg"
  by (auto simp: inflightEntry_def split: option.splits dest: map_of_SomeD)

lemma Authorize_identity:
  assumes "dc_Identity (Authorize eng now header e) = Some i"
  shows "\<exists>a key. eng_auth eng = Some a \<and> ExtractBearer header = Some key \<and>
     map_of (au_byDigest a) (sha256_hex key) = Some i"
proof (cases "authUsable now (eng_auth eng)")
  case False
  with assms show ?thesis by (simp add: Authorize_None)
next
  case True
  then obtain a where a: "eng_auth eng = Some a" by (auto simp: authUsable_def split: option.splits)
  show ?thesis
  proof (cases "Option.bind (ExtractBearer header) (\<lambda>k. map_of (au_byDigest a) (sha256_hex k))")
    case None
    with assms show ?thesis by (simp add: Authorize_Some [OF True a])
  next
    case (Some j)
    have "dc_Identity (authorizeQuota eng now j) = Some j"
    proof (cases "\<exists>u. quotaEnforced eng now (id_UserEmail j) u")
      case True
      then show ?thesis by (auto simp: authorizeQuota_enforced)
    next
      case False
      then show ?thesis using authorizeQuota_open [of eng now j] by auto
    qed
    with assms Some have "j = i" by (simp add: Authorize_Some [OF True a] split: if_splits)
    with Some a show ?thesis by (auto split: bind_splits)
  qed
qed

lemma Authorize_identity_allowed:
  "dc_Allowed (Authorize eng now header e) \<Longrightarrow> dc_Identity (Authorize eng now header e) \<noteq> None"
  by (auto simp: Authorize_def authorizeQuota_def split: option.splits if_splits)

lemma handlePublicRequest_Forward:
  "handlePublicRequest fmt h now r gw = (gw', Forward up i) \<longleftrightarrow>
     (\<exists>p. NormalizePublicPath (rq_Path r) = Some p \<and> up = proxyRequest r i p \<and>
        dc_Allowed (Authorize (gw_engine gw) now (gstring (rq_Header r) ''Authorization'') True) \<and>
        dc_Identity (Authorize (gw_engine gw) now (gstring (rq_Header r) ''Authorization'') True) = Some i \<and>
        gw' = (let g = warnFailOpen (dc_Warning (Authorize (gw_engine gw) now
                         (gstring (rq_Header r) ''Authorization'') True)) now gw
               in g\<lparr>gw_inflight := inflightStart (id_Label i) (id_Account i) (gw_inflight g)\<rparr>))"
  by (auto simp: handlePublicRequest_def Let_def writeDecision_def recovered_def
      split: option.splits if_splits)

lemma handlePublicRequest_Reply:
  assumes "handlePublicRequest fmt h now r gw = (gw', Reply p)" shows "gw' = gw"
  using assms Authorize_identity_allowed
    [of "gw_engine gw" now "gstring (rq_Header r) ''Authorization''" True]
  by (auto simp: handlePublicRequest_def Let_def split: option.splits if_splits)

lemma registry_ok_init: "registry_ok accOf gw_init"
  by (simp add: registry_ok_def gw_init_def engine_labels_def NewEngine_def inflightEntry_def)

lemma count_list_le_length: "count_list xs x \<le> length xs"
  by (induction xs) auto

lemma registry_ok_step:
  assumes "gw_step accOf s t" "registry_ok accOf s" shows "registry_ok accOf t"
  using assms
proof (induction rule: gw_step.induct)
  case (refused fmt h now r s gw' p)
  from handlePublicRequest_Reply [OF refused(1)] refused(2) show ?case
    by (simp add: registry_ok_def)
next
  case (admitted fmt h now r s gw' up i)
  let ?d = "Authorize (gw_engine (gs_gw s)) now (gstring (rq_Header r) ''Authorization'') True"
  from admitted(1) have d: "dc_Allowed ?d" "dc_Identity ?d = Some i"
    and gw': "gw_engine gw' = gw_engine (gs_gw s)"
      "gw_inflight gw' = inflightStart (id_Label i) (id_Account i) (gw_inflight (gs_gw s))"
    by (auto simp: handlePublicRequest_Forward Let_def)
  from Authorize_identity [OF d(2)] admitted(3) have acc: "id_Account i = accOf (id_Label i)"
    by (auto simp: registry_ok_def engine_labels_def)
  have n: "i64 (int (count_list (map fst (gs_active s)) l) + 1) = int (count_list (map fst (gs_active s)) l) + 1" for l
    using admitted(2) count_list_le_length [of "map fst (gs_active s)" l]
    by (intro i64_id) (simp add: in_i64_def)
  have "\<forall>(l, e) \<in> set (gw_inflight gw'). if_Label e = l \<and> if_Account e = accOf l"
    using admitted(3) acc set_update_subset unfolding gw' inflightStart_def registry_ok_def by fastforce
  with admitted(3) acc show ?case
    by (simp add: registry_ok_def gw' inflightStart_count n)
next
  case (finished label account s)
  let ?reg = "gw_inflight (gs_gw s)"
  have "0 < count_list (map fst (gs_active s)) label"
    using finished(1) by (intro count_list_pos) force
  then have pos: "0 < if_Inflight (inflightEntry ?reg label)"
    using finished(2) by (simp add: registry_ok_def)
  then have "(label, inflightEntry ?reg label) \<in> set ?reg" by (intro inflightEntry_mem) simp
  then have e: "if_Label (inflightEntry ?reg label) = label \<and> if_Account (inflightEntry ?reg label) = accOf label"
    using finished(2) by (auto simp: registry_ok_def)
  have entries: "\<forall>(l, e) \<in> set (inflightDone label ?reg). if_Label e = l \<and> if_Account e = accOf l"
    using finished(2) e set_update_subset unfolding inflightDone_def Let_def registry_ok_def by fastforce
  have "if_Inflight (inflightEntry (inflightDone label ?reg) l) =
      int (count_list (map fst (remove1 (label, account) (gs_active s))) l)" for l
    using finished(2) pos count_list_remove1 [OF finished(1), of fst l]
    by (auto simp: registry_ok_def inflightDone_count)
  with finished(2) entries show ?case
    by (auto simp: registry_ok_def finishRequest_def dest: notin_set_remove1 set_mp [OF set_remove1_subset])
next
  case (reloaded eng s)
  then show ?case by (simp add: registry_ok_def)
qed

lemma registry_ok_reachable: "gw_reachable accOf s \<Longrightarrow> registry_ok accOf s"
  by (induction rule: gw_reachable.induct) (auto intro: registry_ok_init registry_ok_step)

lemma proxyRequest_headers:
  "map_of (rq_Header (proxyRequest r i p)) name =
     (if name = ''Proxy-Authorization'' then None
      else if name = ''Authorization'' then Some (''Bearer '' @ id_InternalKey i)
      else map_of (rq_Header r) name)"
  by (simp add: proxyRequest_def)

text \<open>Every active request is counted in the entry of its label, so in the sum of its account.\<close>

lemma registry_ok_entry:
  assumes "registry_ok accOf s" "(l, a) \<in> set (gs_active s)"
  shows "\<exists>e. (l, e) \<in> set (gw_inflight (gs_gw s)) \<and> if_Account e = a \<and> 0 < if_Inflight e"
proof -
  let ?e = "inflightEntry (gw_inflight (gs_gw s)) l"
  have "0 < count_list (map fst (gs_active s)) l"
    using assms(2) by (intro count_list_pos) force
  then have pos: "0 < if_Inflight ?e" using assms(1) by (simp add: registry_ok_def)
  then have "(l, ?e) \<in> set (gw_inflight (gs_gw s))" by (intro inflightEntry_mem) simp
  moreover have "if_Account ?e = a"
    using assms calculation by (auto simp: registry_ok_def)
  ultimately show ?thesis using pos by blast
qed

lemma registry_ok_nonneg:
  "registry_ok accOf s \<Longrightarrow> e \<in> set (inflightSnapshot (gw_inflight (gs_gw s))) \<Longrightarrow> 0 \<le> if_Inflight e"
  unfolding registry_ok_def inflightSnapshot_def
  by (auto simp: inflightEntry_in) (metis inflightEntry_in of_nat_0_le_iff)

section \<open>Properties\<close>

text \<open>
  C2: what leaves the public gateway. A request is forwarded only with a decision of
  \<open>Authorize\<close> (quota enforced) that allows it, under the identity of that decision, which is
  the one the engine's table has for the digest of the client's key. On an engine fed by parsed
  snapshots it goes over plain HTTP to the backend of that identity, a \<open>cliproxy-\<close>
  container, on the cleaned public path with the client's method; it carries the internal key
  instead of the client's key, no \<open>Proxy-Authorization\<close>, and otherwise the client's headers; and it is counted in the registry under the identity's label.
\<close>

theorem PublicHandler_forward:
  assumes "PublicHandler fmt now r gw = (gw', Forward up i)" "engine_ok (gw_engine gw)"
  shows "dc_Allowed (Authorize (gw_engine gw) now (gstring (rq_Header r) ''Authorization'') True) \<and>
     dc_Identity (Authorize (gw_engine gw) now (gstring (rq_Header r) ''Authorization'') True) = Some i \<and>
     (\<exists>a rec key. eng_auth (gw_engine gw) = Some a \<and>
        ExtractBearer (gstring (rq_Header r) ''Authorization'') = Some key \<and>
        map_of (au_byDigest a) (sha256_hex key) = Some i \<and>
        validAuthRecord rec \<and> i = identity_of rec \<and> ExternalKeySHA256 rec = sha256_hex key) \<and>
     rq_URLScheme up = ''http'' \<and> rq_URLHost up = id_Backend i \<and> backendPattern (rq_URLHost up) \<and>
     NormalizePublicPath (rq_Path r) = Some (rq_Path up) \<and> public_path (rq_Path up) \<and>
     rq_RawPath up = [] \<and> rq_Method up = rq_Method r \<and> rq_Host up = rq_Host r \<and>
     map_of (rq_Header up) ''Authorization'' = Some (''Bearer '' @ id_InternalKey i) \<and>
     map_of (rq_Header up) ''Proxy-Authorization'' = None \<and>
     (\<forall>name. name \<notin> {''Authorization'', ''Proxy-Authorization''} \<longrightarrow>
        map_of (rq_Header up) name = map_of (rq_Header r) name) \<and>
     gw_engine gw' = gw_engine gw \<and>
     gw_inflight gw' = inflightStart (id_Label i) (id_Account i) (gw_inflight gw)"
proof -
  let ?d = "Authorize (gw_engine gw) now (gstring (rq_Header r) ''Authorization'') True"
  from assms(1) obtain h where "handlePublicRequest fmt h now r gw = (gw', Forward up i)"
    by (auto simp: PublicHandler_def Let_def split: if_splits)
  then obtain p where p: "NormalizePublicPath (rq_Path r) = Some p" "up = proxyRequest r i p"
    and d: "dc_Allowed ?d" "dc_Identity ?d = Some i"
    and gw': "gw_engine gw' = gw_engine gw"
      "gw_inflight gw' = inflightStart (id_Label i) (id_Account i) (gw_inflight gw)"
    by (auto simp: handlePublicRequest_Forward Let_def)
  from p(1) have "public_path p" unfolding NormalizePublicPath_Some by blast
  obtain a key where a: "eng_auth (gw_engine gw) = Some a"
      "ExtractBearer (gstring (rq_Header r) ''Authorization'') = Some key"
      "map_of (au_byDigest a) (sha256_hex key) = Some i"
    using Authorize_identity [OF d(2)] by blast
  from assms(2) a(1) have "auth_ok a" by (simp add: engine_ok_def)
  from auth_ok_record [OF this a(3)] obtain rec where rec: "validAuthRecord rec"
      "ExternalKeySHA256 rec = sha256_hex key" "i = identity_of rec" by blast
  then have "backendPattern (id_Backend i)" by (simp add: identity_of_def validAuthRecord_def)
  with p d gw' a rec \<open>public_path p\<close> show ?thesis
    unfolding p(2) proxyRequest_headers by (auto simp: proxyRequest_def)
qed

definition sample_gateway :: HTTPGateway where
  "sample_gateway =
     \<lparr>gw_engine = sample_engine\<lparr>eng_heartbeat := None\<rparr>, gw_inflight = [], gw_warnings = [], gw_warnLog = []\<rparr>"

definition sample_request :: request where
  "sample_request =
     \<lparr>rq_Method = ''POST'', rq_Path = ''/v1//responses'', rq_RawPath = [], rq_Host = ''pool'',
      rq_URLScheme = [], rq_URLHost = [],
      rq_Header = [(''Authorization'', ''Bearer k''), (''Proxy-Authorization'', ''x'')]\<rparr>"

lemma sample_forward:
  "\<exists>gw' up i. PublicHandler (\<lambda>_. []) 104 sample_request sample_gateway = (gw', Forward up i) \<and>
     i = identity_of sample_auth_record"
proof -
  have k: "ExtractBearer ''Bearer k'' = Some ''k''" by code_simp
  have n: "NormalizePublicPath ''/v1//responses'' = Some ''/v1/responses''" by code_simp
  have u: "authUsable 104 (eng_auth sample_engine)"
    by (simp add: authUsable_def sample_engine_def AuthSnapshotMaxAge_def i64_def)
  have "Authorize (gw_engine sample_gateway) 104 ''Bearer k'' True =
      allowDecision (identity_of sample_auth_record) ''collector_last_success''"
    using u k by (simp add: Authorize_def sample_gateway_def sample_engine_def authorizeQuota_def)
  then show ?thesis
    by (simp add: PublicHandler_def sample_request_def gstring_def Let_def handlePublicRequest_def n)
qed

theorem PublicHandler_forward_witness:
  "\<exists>gw' up i. PublicHandler (\<lambda>_. []) 104 sample_request sample_gateway = (gw', Forward up i) \<and>
     rq_Path up = ''/v1/responses'' \<and> rq_URLHost up = ''cliproxy-acct:8317'' \<and>
     map_of (rq_Header up) ''Authorization'' = Some ''Bearer ik''"
proof -
  obtain gw' up where f: "PublicHandler (\<lambda>_. []) 104 sample_request sample_gateway =
      (gw', Forward up (identity_of sample_auth_record))"
    using sample_forward by blast
  have "engine_ok (gw_engine sample_gateway)"
    using sample_engine_ok by (simp add: engine_ok_def sample_gateway_def)
  note P = PublicHandler_forward [OF f this]
  have n: "NormalizePublicPath ''/v1//responses'' = Some ''/v1/responses''" by code_simp
  from P have "NormalizePublicPath (rq_Path sample_request) = Some (rq_Path up)" by blast
  then have "rq_Path up = ''/v1/responses''" by (simp add: sample_request_def n)
  moreover from P have "rq_URLHost up = ''cliproxy-acct:8317''"
    by (simp add: identity_of_def sample_auth_record_def)
  moreover from P have "map_of (rq_Header up) ''Authorization'' = Some ''Bearer ik''"
    by (simp add: identity_of_def sample_auth_record_def)
  ultimately show ?thesis using f by blast
qed

end
