(* ===== verification/Account_Names.thy ===== *)
theory Account_Names
  imports Prelude
begin

text \<open>
  The normal forms of an account's identifier, email address and proxy mode, from
  \<open>internal/controlplane/account_lifecycle.go\<close>. \<open>parse_address\<close> is package \<open>net/mail\<close>'s
  \<open>ParseAddress\<close>: the address it reads, if any.
\<close>

section \<open>Definitions\<close>

text \<open>The pattern \<open>^[a-z][a-z0-9-]{1,31}$\<close>.\<close>

definition accountIDPattern :: "string \<Rightarrow> bool" where
  "accountIDPattern s \<longleftrightarrow>
     2 \<le> length s \<and> length s \<le> 32 \<and> is_lower (hd s) \<and> list_all account_char (tl s)"

definition reservedAccountIDs :: "string list" where
  "reservedAccountIDs = [''admin'', ''all'', ''gateway'', ''management'']"

definition NormalizeAccountID :: "string \<Rightarrow> string option" where
  "NormalizeAccountID value =
     (let accountID = norm_user value
      in if \<not> accountIDPattern accountID then None
         else if accountID \<in> set reservedAccountIDs then None
         else Some accountID)"

type_synonym parse_address = "string \<Rightarrow> string option"

definition NormalizeAccountEmail :: "parse_address \<Rightarrow> string \<Rightarrow> string option" where
  "NormalizeAccountEmail parse value =
     (let email = norm_user value
      in if email = [] \<or> 254 < length email \<or> list_ex (\<lambda>c. c \<in> set [CHR 0x0D, CHR 0x0A, CHR 0x09, CHR '' '']) email
         then None
         else (case parse email of
                 None \<Rightarrow> None
               | Some address \<Rightarrow>
                   if to_lower address \<noteq> to_lower email \<or> length (filter (\<lambda>c. c = CHR ''@'') email) \<noteq> 1 then None
                   else (let local = takeWhile (\<lambda>c. c \<noteq> CHR ''@'') email;
                             domain = tl (dropWhile (\<lambda>c. c \<noteq> CHR ''@'') email)
                         in if local = [] \<or> CHR ''.'' \<notin> set domain then None else Some email)))"

definition NormalizeProxyMode :: "string \<Rightarrow> string option" where
  "NormalizeProxyMode value =
     (let lowered = norm_user value; mode = (if lowered = [] then ''inherit'' else lowered)
      in if mode \<noteq> ''inherit'' \<and> mode \<noteq> ''direct'' \<and> mode \<noteq> ''custom'' then None else Some mode)"

section \<open>Lemmas\<close>

lemma NormalizeAccountID_Some:
  "NormalizeAccountID v = Some a \<Longrightarrow> a = norm_user v \<and> accountIDPattern a \<and> a \<notin> set reservedAccountIDs"
  by (auto simp: NormalizeAccountID_def Let_def split: if_splits)

lemma NormalizeAccountID_ne: "NormalizeAccountID v = Some a \<Longrightarrow> a \<noteq> []"
  by (auto simp: accountIDPattern_def dest: NormalizeAccountID_Some)

lemma NormalizeAccountEmail_Some:
  "NormalizeAccountEmail parse v = Some e \<Longrightarrow> e = norm_user v \<and> e \<noteq> [] \<and> length e \<le> 254"
  by (auto simp: NormalizeAccountEmail_def Let_def split: if_splits option.splits)

lemma NormalizeProxyMode_Some:
  "NormalizeProxyMode v = Some m \<Longrightarrow> m \<in> {''inherit'', ''direct'', ''custom''}"
  by (auto simp: NormalizeProxyMode_def Let_def split: if_splits)

end
