(* ===== verification/Drain.thy ===== *)
theory Drain
  imports Gateway_Server Account_Names
begin

text \<open>
  \<open>internal/runtimeops/account_drain.go\<close>: waiting until no gateway has a request of an account in
  flight, before the account's container is stopped. The HTTP client and the JSON decoder are
  parameters: a poll is the list of answers the probe URLs gave, in their order, with whether
  the wait context was done after it. The in-flight entries read here are the
  \<open>InflightStat\<close>s the gateway serves at \<open>/__stats\<close>, field by field.
\<close>

section \<open>Definitions\<close>

datatype drain_error =
    InvalidDrainTimeout
  | NoProbeURL
  | InvalidDrainAccount string
  | ReadFailed string
  | BadStatus string int
  | InvalidResponseSize string
  | DecodeFailed string
  | NegativeInflight string
  | DrainTimeout int64 "drain_error option"

record GatewayDrainer =
  dr_probeURLs :: "string list"
  dr_waitTimeout :: int64
  dr_pollInterval :: int64

definition defaultDrainPollInterval :: int64 where
  "defaultDrainPollInterval = 250000000"

text \<open>\<open>strings.TrimRight(s, "/")\<close>.\<close>

definition trim_right_slash :: "string \<Rightarrow> string" where
  "trim_right_slash s = rev (dropWhile (\<lambda>c. c = CHR ''/'') (rev s))"

definition drainProbeURLs :: "string list \<Rightarrow> string list" where
  "drainProbeURLs raws =
     dedup [] (map (\<lambda>base. base @ ''/__stats'')
       (filter (\<lambda>base. base \<noteq> []) (map (\<lambda>raw. trim_right_slash (trim_space raw)) raws)))"

definition NewGatewayDrainer :: "string list \<Rightarrow> int64 \<Rightarrow> int64 \<Rightarrow> drain_error + GatewayDrainer" where
  "NewGatewayDrainer raws waitTimeout pollInterval =
     (if waitTimeout \<le> 0 then Inl InvalidDrainTimeout
      else if drainProbeURLs raws = [] then Inl NoProbeURL
      else Inr \<lparr>dr_probeURLs = drainProbeURLs raws, dr_waitTimeout = waitTimeout,
                dr_pollInterval = (if pollInterval \<le> 0 then defaultDrainPollInterval else pollInterval)\<rparr>)"

datatype answer = TransportError | Answer int string

type_synonym stats_decoder = "string \<Rightarrow> InflightStat list option"

definition readInflight :: "stats_decoder \<Rightarrow> string \<Rightarrow> answer \<Rightarrow> drain_error + InflightStat list" where
  "readInflight dec url ans =
     (case ans of
        TransportError \<Rightarrow> Inl (ReadFailed url)
      | Answer status body \<Rightarrow>
          if status \<noteq> 200 then Inl (BadStatus url status)
          else if body = [] \<or> length body > 1024 * 1024 then Inl (InvalidResponseSize url)
          else (case dec body of
                  None \<Rightarrow> Inl (DecodeFailed url)
                | Some stats \<Rightarrow>
                    if \<exists>s \<in> set stats. if_Inflight s < 0 then Inl (NegativeInflight url) else Inr stats))"

fun addAccount :: "string \<Rightarrow> InflightStat list \<Rightarrow> int64 \<Rightarrow> int64" where
  "addAccount accountID [] tot = tot"
| "addAccount accountID (s # ss) tot =
     addAccount accountID ss (if if_Account s = accountID then i64 (tot + if_Inflight s) else tot)"

fun accountInflightFrom ::
  "stats_decoder \<Rightarrow> string \<Rightarrow> (string \<times> answer) list \<Rightarrow> int64 \<Rightarrow> int64 \<times> drain_error option" where
  "accountInflightFrom dec accountID [] tot = (tot, None)"
| "accountInflightFrom dec accountID ((url, ans) # rest) tot =
     (case readInflight dec url ans of
        Inl e \<Rightarrow> (-1, Some e)
      | Inr stats \<Rightarrow> accountInflightFrom dec accountID rest (addAccount accountID stats tot))"

definition accountInflight ::
  "stats_decoder \<Rightarrow> string \<Rightarrow> (string \<times> answer) list \<Rightarrow> int64 \<times> drain_error option" where
  "accountInflight dec accountID polled = accountInflightFrom dec accountID polled 0"

text \<open>
  The loop, over the answers of its polls. \<open>(as, done)\<close> is one poll: the answers, in the order of
  \<open>probeURLs\<close>, and whether the \<open>select\<close> after it took \<open>waitContext.Done\<close>. The context has
  a deadline, so a run is a finite list; the last poll of a run that did not drain is \<open>done\<close>.
\<close>

fun drainLoop ::
  "stats_decoder \<Rightarrow> string \<Rightarrow> string list \<Rightarrow> (answer list \<times> bool) list \<Rightarrow> (drain_error + nat) option" where
  "drainLoop dec accountID urls [] = None"
| "drainLoop dec accountID urls ((as, ctxDone) # polls) =
     (let (inflight, readError) = accountInflight dec accountID (zip urls as)
      in if readError = None \<and> inflight = 0 then Some (Inr 0)
         else if ctxDone then Some (Inl (DrainTimeout inflight readError))
         else map_option (map_sum id Suc) (drainLoop dec accountID urls polls))"

text \<open>The result carries the number of the poll that found the account drained.\<close>

definition WaitAccountDrained ::
  "stats_decoder \<Rightarrow> GatewayDrainer \<Rightarrow> string \<Rightarrow> (answer list \<times> bool) list \<Rightarrow> (drain_error + nat) option" where
  "WaitAccountDrained dec d rawAccountID polls =
     (if NormalizeAccountID rawAccountID \<noteq> Some rawAccountID
      then Some (Inl (InvalidDrainAccount rawAccountID))
      else drainLoop dec rawAccountID (dr_probeURLs d) polls)"

text \<open>\<open>InflightKeyCounts\<close>: the labels with a request in flight, account by account.\<close>

definition addIdentities ::
  "InflightStat list \<Rightarrow> (string, string goset) gomap \<Rightarrow> (string, string goset) gomap" where
  "addIdentities stats ids =
     fold (\<lambda>s m. if if_Inflight s = 0 then m
                 else AList.update (if_Account s)
                        (AList.update (if_Label s) ()
                           (case map_of m (if_Account s) of None \<Rightarrow> [] | Some ls \<Rightarrow> ls)) m) stats ids"

fun readIdentities ::
  "stats_decoder \<Rightarrow> (string \<times> answer) list \<Rightarrow> (string, string goset) gomap \<Rightarrow>
   drain_error + (string, string goset) gomap" where
  "readIdentities dec [] ids = Inr ids"
| "readIdentities dec ((url, ans) # rest) ids =
     (case readInflight dec url ans of
        Inl e \<Rightarrow> Inl e
      | Inr stats \<Rightarrow> readIdentities dec rest (addIdentities stats ids))"

definition InflightKeyCounts ::
  "stats_decoder \<Rightarrow> (string \<times> answer) list \<Rightarrow> drain_error + (string, int64) gomap" where
  "InflightKeyCounts dec polled =
     map_sum id (\<lambda>ids. map (\<lambda>(account, labels). (account, int (length labels))) ids)
       (readIdentities dec polled [])"

text \<open>What a gateway answers at \<open>/__stats\<close>, through an encoder of the statistics.\<close>

definition statsRequest :: request where
  "statsRequest =
     \<lparr>rq_Method = ''GET'', rq_Path = ''/__stats'', rq_RawPath = [], rq_Host = [], rq_URLScheme = [],
      rq_URLHost = [], rq_Header = []\<rparr>"

definition answerOf :: "(InflightStat list \<Rightarrow> string) \<Rightarrow> outcome \<Rightarrow> answer" where
  "answerOf enc out =
     (case out of
        Reply p \<Rightarrow> (case rp_Body p of StatsBody stats \<Rightarrow> Answer (rp_Status p) (enc stats)
                                    | _ \<Rightarrow> Answer (rp_Status p) [])
      | Forward up i \<Rightarrow> TransportError)"

definition statsAnswer ::
  "(InflightStat list \<Rightarrow> string) \<Rightarrow> (int64 \<Rightarrow> string) \<Rightarrow> int64 \<Rightarrow> gwsys \<Rightarrow> answer" where
  "statsAnswer enc fmt now s = answerOf enc (snd (InternalHandler fmt now statsRequest (gs_gw s)))"

text \<open>The size of the fleet: fewer than \<open>2 ^ 63\<close> requests over all gateways.\<close>

definition fleet_small :: "gwsys list \<Rightarrow> bool" where
  "fleet_small ss \<longleftrightarrow> (\<Sum>s\<leftarrow>ss. int (length (gs_active s))) < 2 ^ 63"

text \<open>The codec is right on a value: what the gateway encoded is what the client decodes.\<close>

definition decodes :: "stats_decoder \<Rightarrow> (InflightStat list \<Rightarrow> string) \<Rightarrow> InflightStat list \<Rightarrow> bool" where
  "decodes dec enc stats \<longleftrightarrow> dec (enc stats) = Some stats"

section \<open>Lemmas\<close>

lemma statsAnswer_eq: "statsAnswer enc fmt now s = Answer 200 (enc (inflightSnapshot (gw_inflight (gs_gw s))))"
  by (simp add: statsAnswer_def InternalHandler_def statsRequest_def answerOf_def Let_def)

lemma readInflight_Inr:
  "readInflight dec url ans = Inr stats \<Longrightarrow>
     (\<forall>s \<in> set stats. 0 \<le> if_Inflight s) \<and> (\<exists>body. ans = Answer 200 body \<and> dec body = Some stats)"
  by (auto simp: readInflight_def not_less split: answer.splits if_splits option.splits)

abbreviation accountSum :: "string \<Rightarrow> InflightStat list \<Rightarrow> int" where
  "accountSum accountID stats \<equiv> (\<Sum>s\<leftarrow>stats. if if_Account s = accountID then if_Inflight s else 0)"

lemma accountSum_nonneg: "\<forall>s \<in> set stats. 0 \<le> if_Inflight s \<Longrightarrow> 0 \<le> accountSum a stats"
  by (intro sum_list_nonneg) auto

lemma accountSum_le: "\<forall>s \<in> set stats. 0 \<le> if_Inflight s \<Longrightarrow> accountSum a stats \<le> (\<Sum>s\<leftarrow>stats. if_Inflight s)"
  by (intro sum_list_mono) auto

lemma accountSum_member:
  assumes "\<forall>s \<in> set stats. 0 \<le> if_Inflight s" "e \<in> set stats" "if_Account e = a"
  shows "if_Inflight e \<le> accountSum a stats"
proof -
  have "if_Inflight e \<in> set (map (\<lambda>s. if if_Account s = a then if_Inflight s else 0) stats)"
    using assms(2,3) by force
  moreover have "x \<in> set (map (\<lambda>s. if if_Account s = a then if_Inflight s else 0) stats) \<Longrightarrow> 0 \<le> x" for x
    using assms(1) by auto
  ultimately show ?thesis by (rule member_le_sum_list) 
qed

lemma addAccount_sum:
  "\<forall>s \<in> set stats. 0 \<le> if_Inflight s \<Longrightarrow> 0 \<le> tot \<Longrightarrow> tot + accountSum a stats < 2 ^ 63 \<Longrightarrow>
   addAccount a stats tot = tot + accountSum a stats"
proof (induction stats arbitrary: tot)
  case (Cons s ss)
  have "0 \<le> accountSum a ss" using Cons.prems(1) by (intro accountSum_nonneg) auto
  with Cons show ?case by (auto simp: i64_id in_i64_def)
qed simp

lemma sum_count_le: "distinct ls \<Longrightarrow> (\<Sum>l\<leftarrow>ls. count_list xs l) \<le> length xs"
proof (induction xs)
  case (Cons x xs)
  have "(\<Sum>l\<leftarrow>ls. (if x = l then 1 else 0 :: nat)) \<le> 1"
    using Cons.prems by (induction ls) (auto simp: sum_list_eq_0_iff)
  moreover have "(\<Sum>l\<leftarrow>ls. count_list (x # xs) l) =
      (\<Sum>l\<leftarrow>ls. count_list xs l) + (\<Sum>l\<leftarrow>ls. (if x = l then 1 else 0))"
    by (simp add: sum_list_addf [symmetric] if_distrib [of "\<lambda>n. _ + n"] if_distrib [of Suc] cong: if_cong)
  ultimately show ?case using Cons by simp
qed simp

lemma registry_sum_le:
  assumes "registry_ok accOf s"
  shows "(\<Sum>e\<leftarrow>inflightSnapshot (gw_inflight (gs_gw s)). if_Inflight e) \<le> int (length (gs_active s))"
proof -
  let ?reg = "gw_inflight (gs_gw s)" and ?c = "count_list (map fst (gs_active s))"
  have "(\<Sum>e\<leftarrow>inflightSnapshot ?reg. if_Inflight e) = (\<Sum>e\<leftarrow>map snd ?reg. if_Inflight e)"
    unfolding inflightSnapshot_def
    by (metis mset_map mset_sort sum_mset_sum_list)
  also have "\<dots> = (\<Sum>l\<leftarrow>keys ?reg. int (?c l))"
    using assms by (auto simp: registry_ok_def comp_def inflightEntry_in intro!: arg_cong [where f = sum_list])
      (metis inflightEntry_in snd_conv)
  also have "\<dots> = int (\<Sum>l\<leftarrow>keys ?reg. ?c l)" by (rule int_sum_list)
  also have "\<dots> \<le> int (length (map fst (gs_active s)))"
    using assms by (intro of_nat_mono sum_count_le) (simp add: registry_ok_def wf_map_def)
  finally show ?thesis by simp
qed

text \<open>One poll that returns 0 without an error, when every answer was served by a gateway.\<close>

lemma accountInflight_zero:
  assumes "accountInflightFrom dec a (zip urls (map (statsAnswer enc fmt now) ss)) t = (n, None)"
    and "length ss \<le> length urls" "\<forall>s \<in> set ss. registry_ok accOf s"
    and "\<forall>s \<in> set ss. decodes dec enc (inflightSnapshot (gw_inflight (gs_gw s)))"
    and "0 \<le> t" "t + (\<Sum>s\<leftarrow>ss. int (length (gs_active s))) < 2 ^ 63"
  shows "t \<le> n \<and> (n = 0 \<longrightarrow> (\<forall>s \<in> set ss. \<forall>l. (l, a) \<notin> set (gs_active s)))"
  using assms
proof (induction ss arbitrary: urls t)
  case (Cons s ss)
  then obtain u us where urls: "urls = u # us" by (cases urls) auto
  let ?st = "inflightSnapshot (gw_inflight (gs_gw s))"
  have reg: "registry_ok accOf s" using Cons.prems(3) by simp
  have nn: "\<forall>e \<in> set ?st. 0 \<le> if_Inflight e" using registry_ok_nonneg [OF reg] by blast
  from Cons.prems(1) obtain stats where r: "readInflight dec u (statsAnswer enc fmt now s) = Inr stats"
    and f: "accountInflightFrom dec a (zip us (map (statsAnswer enc fmt now) ss)) (addAccount a stats t) = (n, None)"
    unfolding urls by (auto split: sum.splits)
  have "stats = ?st" using readInflight_Inr [OF r] Cons.prems(4) by (simp add: statsAnswer_eq decodes_def)
  note f = f [unfolded this]
  have len: "accountSum a ?st \<le> int (length (gs_active s))"
    using accountSum_le [OF nn, of a] registry_sum_le [OF reg] by linarith
  have rest: "0 \<le> (\<Sum>s\<leftarrow>ss. int (length (gs_active s)))" by (intro sum_list_nonneg) auto
  have add: "addAccount a ?st t = t + accountSum a ?st"
    using Cons.prems(5,6) len rest by (intro addAccount_sum [OF nn]) auto
  have ge: "0 \<le> accountSum a ?st" by (rule accountSum_nonneg [OF nn])
  have IH: "t + accountSum a ?st \<le> n \<and> (n = 0 \<longrightarrow> (\<forall>s \<in> set ss. \<forall>l. (l, a) \<notin> set (gs_active s)))"
    using Cons.IH [OF f] Cons.prems urls len ge by (simp add: add)
  have "(l, a) \<notin> set (gs_active s)" if "n = 0" for l
  proof
    assume "(l, a) \<in> set (gs_active s)"
    from registry_ok_entry [OF reg this] obtain e where e: "(l, e) \<in> set (gw_inflight (gs_gw s))"
      "if_Account e = a" "0 < if_Inflight e" by blast
    then have "e \<in> set ?st" by (force simp: inflightSnapshot_def)
    from accountSum_member [OF nn this e(2)] e(3) IH that Cons.prems(5) show False by simp
  qed
  with IH ge show ?case by auto
qed simp

lemma map_option_sum_Suc:
  "map_option (map_sum id Suc) x = Some (Inr k) \<longleftrightarrow> (\<exists>j. x = Some (Inr j) \<and> k = Suc j)"
  by (cases x; cases "the x") auto

lemma drainLoop_Inr:
  "drainLoop dec a urls polls = Some (Inr k) \<Longrightarrow>
     k < length polls \<and> accountInflight dec a (zip urls (fst (polls ! k))) = (0, None)"
proof (induction polls arbitrary: k)
  case (Cons p polls)
  obtain answers ctxDone where p: "p = (answers, ctxDone)" by (cases p)
  obtain n e where n: "accountInflight dec a (zip urls answers) = (n, e)" by fastforce
  show ?case
  proof (cases "e = None \<and> n = 0")
    case True
    with Cons.prems p n show ?thesis by simp
  next
    case False
    with Cons.prems p n have "map_option (map_sum id Suc) (drainLoop dec a urls polls) = Some (Inr k)"
      by (simp del: map_option_eq_Some split: if_splits)
    then obtain j where "drainLoop dec a urls polls = Some (Inr j)" "k = Suc j"
      unfolding map_option_sum_Suc by blast
    with Cons.IH [of j] show ?thesis by simp
  qed
qed simp

section \<open>Properties\<close>

text \<open>
  C3: drained means drained. When \<open>WaitAccountDrained\<close> reports success, it took the answers of
  one poll of all probe URLs; if each of those answers was served at \<open>/__stats\<close> by a gateway in
  some reachable state of its interleaved requests, then none of those gateways had a request of
  the account in flight in that state. (The JSON codec is a parameter with its round trip as
  the hypothesis; the fleet holds fewer than \<open>2 ^ 63\<close> requests.)
\<close>

theorem WaitAccountDrained_safe:
  assumes "WaitAccountDrained dec d account polls = Some (Inr k)"
    and "fst (polls ! k) = map (statsAnswer enc fmt now) ss" "length ss = length (dr_probeURLs d)"
    and "\<forall>s \<in> set ss. gw_reachable accOf s" "fleet_small ss"
    and "\<forall>s \<in> set ss. decodes dec enc (inflightSnapshot (gw_inflight (gs_gw s)))"
  shows "k < length polls \<and> NormalizeAccountID account = Some account \<and>
         (\<forall>s \<in> set ss. \<forall>label. (label, account) \<notin> set (gs_active s))"
proof -
  from assms(1) have n: "NormalizeAccountID account = Some account"
    and l: "drainLoop dec account (dr_probeURLs d) polls = Some (Inr k)"
    by (auto simp: WaitAccountDrained_def split: if_splits)
  from drainLoop_Inr [OF l] assms(2) have k: "k < length polls" and
    z: "accountInflightFrom dec account (zip (dr_probeURLs d) (map (statsAnswer enc fmt now) ss)) 0 = (0, None)"
    by (simp_all add: accountInflight_def)
  have "\<forall>s \<in> set ss. registry_ok accOf s" using assms(4) registry_ok_reachable by blast
  from accountInflight_zero [OF z _ this assms(6)] assms(3,5) have
    "\<forall>s \<in> set ss. \<forall>label. (label, account) \<notin> set (gs_active s)"
    by (simp add: fleet_small_def)
  with n k show ?thesis by blast
qed

definition sample_entry :: InflightStat where
  "sample_entry = \<lparr>if_Label = ''u@x:acct'', if_Account = ''acct'', if_Inflight = 1\<rparr>"

definition sample_system :: gwsys where
  "sample_system =
     \<lparr>gs_gw = (warnFailOpen ''collector_last_success'' 104 sample_gateway)\<lparr>gw_inflight := [(''u@x:acct'', sample_entry)]\<rparr>,
      gs_active = [(''u@x:acct'', ''acct'')]\<rparr>"

lemma sample_system_reachable: "gw_reachable (\<lambda>_. ''acct'') sample_system"
proof -
  let ?s = "gw_init\<lparr>gs_gw := (gs_gw gw_init)\<lparr>gw_engine := gw_engine sample_gateway\<rparr>\<rparr>"
  have "engine_labels (\<lambda>_. ''acct'') (gw_engine sample_gateway)"
    by (simp add: engine_labels_def sample_gateway_def sample_engine_def identity_of_def sample_auth_record_def)
  then have s: "gw_reachable (\<lambda>_. ''acct'') ?s"
    by (intro gw_reachable.step [OF gw_reachable.start] gw_step.reloaded)
  have gw: "gs_gw ?s = sample_gateway" by (simp add: gw_init_def sample_gateway_def)
  have k: "ExtractBearer ''Bearer k'' = Some ''k''" by code_simp
  have n: "NormalizePublicPath ''/v1//responses'' = Some ''/v1/responses''" by code_simp
  have u: "authUsable 104 (eng_auth sample_engine)"
    by (simp add: authUsable_def sample_engine_def AuthSnapshotMaxAge_def i64_def)
  have "Authorize (gw_engine sample_gateway) 104 ''Bearer k'' True =
      allowDecision (identity_of sample_auth_record) ''collector_last_success''"
    using u k by (simp add: Authorize_def sample_gateway_def sample_engine_def authorizeQuota_def)
  then have "handlePublicRequest (\<lambda>_. []) [] 104 sample_request (gs_gw ?s) =
      (gs_gw sample_system, Forward (proxyRequest sample_request (identity_of sample_auth_record) ''/v1/responses'')
         (identity_of sample_auth_record))"
    by (simp add: gw handlePublicRequest_def sample_request_def gstring_def n Let_def sample_system_def
        inflightStart_def inflightEntry_def sample_entry_def identity_of_def sample_auth_record_def
        i64_def) (simp add: sample_gateway_def)
  from gw_step.admitted [OF this, of "\<lambda>_. ''acct''"] have "gw_step (\<lambda>_. ''acct'') ?s sample_system"
    by (simp add: gw_init_def sample_system_def identity_of_def sample_auth_record_def)
  with s show ?thesis by (rule gw_reachable.step)
qed

theorem WaitAccountDrained_safe_witness:
  "WaitAccountDrained (\<lambda>_. Some [sample_entry])
     \<lparr>dr_probeURLs = [''http://gw/__stats''], dr_waitTimeout = 1, dr_pollInterval = 1\<rparr> ''other''
     [([TransportError], False), ([Answer 200 ''[]''], False)] = Some (Inr 1) \<and>
   (\<forall>label. (label, ''other'') \<notin> set (gs_active sample_system))"
proof -
  let ?d = "\<lparr>dr_probeURLs = [''http://gw/__stats''], dr_waitTimeout = 1, dr_pollInterval = 1\<rparr>"
  let ?polls = "[([TransportError], False), ([Answer 200 ''[]''], False)]"
  have n: "NormalizeAccountID ''other'' = Some ''other''" by code_simp
  have w: "WaitAccountDrained (\<lambda>_. Some [sample_entry]) ?d ''other'' ?polls = Some (Inr 1)"
    by (simp add: WaitAccountDrained_def n accountInflight_def readInflight_def sample_entry_def)
  have snap: "inflightSnapshot (gw_inflight (gs_gw sample_system)) = [sample_entry]"
    by (simp add: sample_system_def inflightSnapshot_def)
  have "\<forall>s \<in> set [sample_system]. \<forall>label. (label, ''other'') \<notin> set (gs_active s)"
    using WaitAccountDrained_safe [OF w, of "\<lambda>_. ''[]''" "\<lambda>_. []" 0 "[sample_system]" "\<lambda>_. ''acct''"]
      sample_system_reachable snap
    by (simp add: statsAnswer_eq fleet_small_def decodes_def) (simp add: sample_system_def)
  with w show ?thesis by simp
qed

end
