(* ===== verification/Lease.thy ===== *)
theory Lease
  imports Prelude
begin

text \<open>
  \<open>internal/controlplane/lease.go\<close> and \<open>Store.writeTransaction\<close> of \<open>store.go\<close>: ownership
  leases and the write fence. The rows of \<open>runtime_state\<close> that hold leases are a map from the row
  name to what \<open>json.Unmarshal\<close> makes of the payload (\<open>None\<close>: it does not decode); encoding a
  lease and decoding it again is the identity. A transaction runs under the cross-process file
  lock, so it is one atomic step on the shared database; \<open>tx\<close> says whether the database failed
  it, which rolls it back (a statement failing inside behaves as \<open>CommitFault\<close>). The clock
  (one reading per transaction) and the random token are arguments.

  \<open>lease_step\<close> interleaves any number of processes on one database; its invariant gives the
  fencing guarantee.
\<close>

section \<open>Definitions\<close>

subsection \<open>Data\<close>

record Lease =
  ls_Version :: int
  ls_Scope :: string
  ls_Owner :: string
  ls_Generation :: int64
  ls_Token :: string
  ls_AcquiredAt :: int64
  ls_RenewedAt :: int64
  ls_ExpiresAt :: int64
  ls_ReleasedAt :: "int64 option"

datatype lease_error =
    ScopeInvalid
  | OwnerInvalid
  | OwnerControlCharacter
  | TTLInvalid
  | TokenUnavailable
  | ErrLeaseHeld string string int64 int64
  | ErrLeaseMissing string
  | ErrLeaseLost string int64
  | ErrLeaseLostNoToken
  | ErrLeaseStateInvalid string
  | FenceLost string int64
  | FenceStateInvalid string
  | FenceRequiresTokens
  | FenceRequiresDistinctScopes
  | FenceAlreadyInstalled
  | FenceNotInstalled
  | DatabaseError

datatype tx = TxOK | BeginFault | CommitFault

type_synonym lease_rows = "(string, Lease option) gomap"

definition leaseStateVersion :: int where "leaseStateVersion = 1"

definition leaseStatePrefix :: string where "leaseStatePrefix = ''ownership_lease:''"

definition second :: int where "second = 1000000000"

definition minLeaseTTL :: int64 where "minLeaseTTL = 5 * second"

definition maxLeaseTTL :: int64 where "maxLeaseTTL = 300 * second"

subsection \<open>Input validation\<close>

definition scope_char :: "char \<Rightarrow> bool" where
  "scope_char c \<longleftrightarrow> is_lower c \<or> is_digit c \<or> c = CHR ''.'' \<or> c = CHR ''_'' \<or> c = CHR ''-''"

text \<open>The pattern \<open>^[a-z0-9][a-z0-9._-]{0,63}$\<close>.\<close>

definition leaseScopePattern :: "string \<Rightarrow> bool" where
  "leaseScopePattern s \<longleftrightarrow>
     1 \<le> length s \<and> length s \<le> 64 \<and> (is_lower (hd s) \<or> is_digit (hd s)) \<and> list_all scope_char (tl s)"

text \<open>Some rune of the string is a control character: U+0000-001F or U+007F-009F, in UTF-8.\<close>

fun has_control :: "string \<Rightarrow> bool" where
  "has_control [] = False"
| "has_control (c # s) =
     (byte c < 32 \<or> byte c = 127 \<or>
      (byte c = 0xC2 \<and> s \<noteq> [] \<and> 0x80 \<le> byte (hd s) \<and> byte (hd s) \<le> 0x9F) \<or> has_control s)"

definition validateLeaseInput ::
  "string \<Rightarrow> string \<Rightarrow> int64 \<Rightarrow> lease_error + string \<times> string \<times> int64" where
  "validateLeaseInput rawScope rawOwner ttl =
     (let scope = trim_space rawScope; owner = trim_space rawOwner
      in if \<not> leaseScopePattern scope then Inl ScopeInvalid
         else if owner = [] \<or> length owner > 128 then Inl OwnerInvalid
         else if has_control owner then Inl OwnerControlCharacter
         else if ttl < minLeaseTTL \<or> ttl > maxLeaseTTL then Inl TTLInvalid
         else Inr (scope, owner, go_div (i64 (ttl + second - 1)) second))"

subsection \<open>Rows\<close>

definition wellFormedLease :: "string \<Rightarrow> Lease \<Rightarrow> bool" where
  "wellFormedLease scope l \<longleftrightarrow>
     \<not> (ls_Version l \<noteq> leaseStateVersion \<or> ls_Scope l \<noteq> scope \<or> ls_Owner l = [] \<or>
        ls_Generation l < 1 \<or> ls_AcquiredAt l < 1 \<or> ls_RenewedAt l < ls_AcquiredAt l \<or>
        ls_ExpiresAt l < ls_RenewedAt l)"

definition readLease :: "lease_rows \<Rightarrow> string \<Rightarrow> lease_error + Lease option" where
  "readLease db scope =
     (case map_of db (leaseStatePrefix @ scope) of
        None \<Rightarrow> Inr None
      | Some None \<Rightarrow> Inl (ErrLeaseStateInvalid scope)
      | Some (Some l) \<Rightarrow>
          if wellFormedLease scope l then Inr (Some l) else Inl (ErrLeaseStateInvalid scope))"

definition writeLease :: "Lease \<Rightarrow> lease_rows \<Rightarrow> lease_rows" where
  "writeLease l db = AList.update (leaseStatePrefix @ ls_Scope l) (Some l) db"

definition heldLeaseError :: "Lease \<Rightarrow> lease_error" where
  "heldLeaseError l = ErrLeaseHeld (ls_Scope l) (ls_Owner l) (ls_Generation l) (ls_ExpiresAt l)"

definition ReadLease :: "lease_rows \<Rightarrow> string \<Rightarrow> lease_error + Lease option" where
  "ReadLease db scope =
     (if \<not> leaseScopePattern (trim_space scope) then Inl ScopeInvalid
      else readLease db (trim_space scope))"

subsection \<open>The write fence\<close>

definition InstallWriteFence :: "Lease \<Rightarrow> Lease \<Rightarrow> Lease list \<Rightarrow> lease_error option \<times> Lease list" where
  "InstallWriteFence runtimeLease workerLease fence =
     (if \<exists>l \<in> set [runtimeLease, workerLease].
           ls_Scope l = [] \<or> ls_Owner l = [] \<or> ls_Generation l < 1 \<or> ls_Token l = []
      then (Some FenceRequiresTokens, fence)
      else if ls_Scope runtimeLease = ls_Scope workerLease then (Some FenceRequiresDistinctScopes, fence)
      else if fence \<noteq> [] then (Some FenceAlreadyInstalled, fence)
      else (None, [runtimeLease, workerLease]))"

fun validateFenceLeases :: "int64 \<Rightarrow> lease_rows \<Rightarrow> Lease list \<Rightarrow> lease_error option" where
  "validateFenceLeases now db [] = None"
| "validateFenceLeases now db (expected # rest) =
     (case readLease db (ls_Scope expected) of
        Inl e \<Rightarrow> Some (FenceStateInvalid (ls_Scope expected))
      | Inr found \<Rightarrow>
          (case found of
             None \<Rightarrow> Some (FenceLost (ls_Scope expected) (ls_Generation expected))
           | Some current \<Rightarrow>
               if ls_ExpiresAt current \<le> now \<or> ls_Token current = [] \<or>
                  ls_Owner current \<noteq> ls_Owner expected \<or>
                  ls_Generation current \<noteq> ls_Generation expected \<or>
                  ls_Token current \<noteq> ls_Token expected
               then Some (FenceLost (ls_Scope expected) (ls_Generation expected))
               else validateFenceLeases now db rest))"

definition validateWriteFence :: "int64 \<Rightarrow> Lease list \<Rightarrow> lease_rows \<Rightarrow> lease_error option" where
  "validateWriteFence now fence db =
     (if fence = [] then None else validateFenceLeases now db fence)"

definition writeTransaction ::
  "tx \<Rightarrow> int64 \<Rightarrow> Lease list \<Rightarrow> (lease_rows \<Rightarrow> lease_error + 'a \<times> lease_rows) \<Rightarrow> lease_rows \<Rightarrow>
   (lease_error + 'a) \<times> lease_rows" where
  "writeTransaction tx now fence operation db =
     (if tx = BeginFault then (Inl DatabaseError, db)
      else (case validateWriteFence now fence db of
              Some e \<Rightarrow> (Inl e, db)
            | None \<Rightarrow>
                (case operation db of
                   Inl e \<Rightarrow> (Inl e, db)
                 | Inr (a, db') \<Rightarrow>
                     if tx = CommitFault then (Inl DatabaseError, db) else (Inr a, db'))))"

text \<open>
  The mutation of another store runs after the validation, under the same lock; \<open>operation\<close> is
  its result.
\<close>

definition WithWriteFence ::
  "tx \<Rightarrow> int64 \<Rightarrow> Lease list \<Rightarrow> lease_rows \<Rightarrow> (unit \<Rightarrow> lease_error + 'a) \<Rightarrow> lease_error + 'a" where
  "WithWriteFence tx now fence db operation =
     (if fence = [] then Inl FenceNotInstalled
      else if tx = BeginFault then Inl DatabaseError
      else (case validateWriteFence now fence db of
              Some e \<Rightarrow> Inl e
            | None \<Rightarrow> if tx = CommitFault then Inl DatabaseError else operation ()))"

subsection \<open>Lease operations\<close>

definition takeLeaseTx ::
  "string \<Rightarrow> string \<Rightarrow> int64 \<Rightarrow> string \<Rightarrow> int64 \<Rightarrow> lease_rows \<Rightarrow> lease_error + Lease \<times> lease_rows" where
  "takeLeaseTx scope owner ttlSeconds token now db =
     (case readLease db scope of
        Inl e \<Rightarrow> Inl e
      | Inr found \<Rightarrow>
          (case found of
             Some current \<Rightarrow>
               if ls_ExpiresAt current > now then Inl (heldLeaseError current)
               else (let result =
                           \<lparr>ls_Version = leaseStateVersion, ls_Scope = scope, ls_Owner = owner,
                            ls_Generation = i64 (ls_Generation current + 1), ls_Token = token,
                            ls_AcquiredAt = now, ls_RenewedAt = now,
                            ls_ExpiresAt = i64 (now + ttlSeconds), ls_ReleasedAt = None\<rparr>
                     in Inr (result, writeLease result db))
           | None \<Rightarrow>
               (let result =
                      \<lparr>ls_Version = leaseStateVersion, ls_Scope = scope, ls_Owner = owner,
                       ls_Generation = 1, ls_Token = token,
                       ls_AcquiredAt = now, ls_RenewedAt = now,
                       ls_ExpiresAt = i64 (now + ttlSeconds), ls_ReleasedAt = None\<rparr>
                in Inr (result, writeLease result db))))"

definition TakeLease ::
  "tx \<Rightarrow> int64 \<Rightarrow> Lease list \<Rightarrow> string option \<Rightarrow> string \<Rightarrow> string \<Rightarrow> int64 \<Rightarrow> lease_rows \<Rightarrow>
   (lease_error + Lease) \<times> lease_rows" where
  "TakeLease tx now fence newToken rawScope rawOwner ttl db =
     (case validateLeaseInput rawScope rawOwner ttl of
        Inl e \<Rightarrow> (Inl e, db)
      | Inr (scope, owner, ttlSeconds) \<Rightarrow>
          (case newToken of
             None \<Rightarrow> (Inl TokenUnavailable, db)
           | Some token \<Rightarrow>
               writeTransaction tx now fence (takeLeaseTx scope owner ttlSeconds token now) db))"

definition renewed :: "int64 \<Rightarrow> int64 \<Rightarrow> Lease \<Rightarrow> Lease" where
  "renewed now ttlSeconds current =
     current\<lparr>ls_RenewedAt := now, ls_ExpiresAt := i64 (now + ttlSeconds), ls_ReleasedAt := None\<rparr>"

definition joinLeaseTx ::
  "string \<Rightarrow> string \<Rightarrow> int64 \<Rightarrow> int64 \<Rightarrow> lease_rows \<Rightarrow> lease_error + Lease \<times> lease_rows" where
  "joinLeaseTx scope owner ttlSeconds now db =
     (case readLease db scope of
        Inl e \<Rightarrow> Inl e
      | Inr found \<Rightarrow>
          (case found of
             None \<Rightarrow> Inl (ErrLeaseMissing scope)
           | Some current \<Rightarrow>
               if ls_ExpiresAt current \<le> now \<or> ls_Token current = [] then Inl (ErrLeaseMissing scope)
               else if ls_Owner current \<noteq> owner then Inl (heldLeaseError current)
               else Inr (renewed now ttlSeconds current, writeLease (renewed now ttlSeconds current) db)))"

definition JoinLease ::
  "tx \<Rightarrow> int64 \<Rightarrow> Lease list \<Rightarrow> string \<Rightarrow> string \<Rightarrow> int64 \<Rightarrow> lease_rows \<Rightarrow>
   (lease_error + Lease) \<times> lease_rows" where
  "JoinLease tx now fence rawScope rawOwner ttl db =
     (case validateLeaseInput rawScope rawOwner ttl of
        Inl e \<Rightarrow> (Inl e, db)
      | Inr (scope, owner, ttlSeconds) \<Rightarrow>
          writeTransaction tx now fence (joinLeaseTx scope owner ttlSeconds now) db)"

definition renewLeaseTx ::
  "string \<Rightarrow> string \<Rightarrow> Lease \<Rightarrow> int64 \<Rightarrow> int64 \<Rightarrow> lease_rows \<Rightarrow> lease_error + Lease \<times> lease_rows" where
  "renewLeaseTx scope owner l ttlSeconds now db =
     (case readLease db scope of
        Inl e \<Rightarrow> Inl e
      | Inr found \<Rightarrow>
          (case found of
             None \<Rightarrow> Inl (ErrLeaseLost scope (ls_Generation l))
           | Some current \<Rightarrow>
               if ls_ExpiresAt current \<le> now \<or> ls_Token current \<noteq> ls_Token l \<or>
                  ls_Generation current \<noteq> ls_Generation l \<or> ls_Owner current \<noteq> owner
               then Inl (ErrLeaseLost scope (ls_Generation l))
               else Inr (renewed now ttlSeconds current, writeLease (renewed now ttlSeconds current) db)))"

definition RenewLease ::
  "tx \<Rightarrow> int64 \<Rightarrow> Lease list \<Rightarrow> Lease \<Rightarrow> int64 \<Rightarrow> lease_rows \<Rightarrow> (lease_error + Lease) \<times> lease_rows" where
  "RenewLease tx now fence l ttl db =
     (case validateLeaseInput (ls_Scope l) (ls_Owner l) ttl of
        Inl e \<Rightarrow> (Inl e, db)
      | Inr (scope, owner, ttlSeconds) \<Rightarrow>
          if ls_Token l = [] \<or> ls_Generation l < 1 then (Inl ErrLeaseLostNoToken, db)
          else writeTransaction tx now fence (renewLeaseTx scope owner l ttlSeconds now) db)"

definition released :: "int64 \<Rightarrow> Lease \<Rightarrow> Lease" where
  "released now current =
     current\<lparr>ls_Token := [], ls_RenewedAt := now, ls_ExpiresAt := now, ls_ReleasedAt := Some now\<rparr>"

definition releaseLeaseTx ::
  "string \<Rightarrow> string \<Rightarrow> Lease \<Rightarrow> int64 \<Rightarrow> lease_rows \<Rightarrow> lease_error + unit \<times> lease_rows" where
  "releaseLeaseTx scope owner l now db =
     (case readLease db scope of
        Inl e \<Rightarrow> Inl e
      | Inr found \<Rightarrow>
          (case found of
             None \<Rightarrow> Inl (ErrLeaseLost scope (ls_Generation l))
           | Some current \<Rightarrow>
               if ls_Token current \<noteq> ls_Token l \<or> ls_Generation current \<noteq> ls_Generation l \<or>
                  ls_Owner current \<noteq> owner
               then Inl (ErrLeaseLost scope (ls_Generation l))
               else Inr ((), writeLease (released now current) db)))"

definition ReleaseLease ::
  "tx \<Rightarrow> int64 \<Rightarrow> Lease list \<Rightarrow> Lease \<Rightarrow> lease_rows \<Rightarrow> (lease_error + unit) \<times> lease_rows" where
  "ReleaseLease tx now fence l db =
     (case validateLeaseInput (ls_Scope l) (ls_Owner l) minLeaseTTL of
        Inl e \<Rightarrow> (Inl e, db)
      | Inr (scope, owner, _) \<Rightarrow>
          if ls_Token l = [] \<or> ls_Generation l < 1 then (Inl ErrLeaseLostNoToken, db)
          else writeTransaction tx now fence (releaseLeaseTx scope owner l now) db)"

subsection \<open>Processes sharing the database\<close>

text \<open>
  Any number of processes, each with its own \<open>Store\<close> (its write fence) on one database. A
  process uses only leases it was given: by \<open>TakeLease\<close>, \<open>JoinLease\<close> or \<open>RenewLease\<close>; it
  installs the fence on a lease it holds and a worker lease it took, as \<open>ownership.Run\<close> does.
  \<open>newLeaseToken\<close> never repeats a token. Every step reads a clock of its own, which may go
  backwards. \<open>sy_log\<close> is the history of fenced writes, newest first.
\<close>

record fenced_write =
  fw_process :: nat
  fw_runtime :: Lease
  fw_worker :: Lease

record lease_system =
  sy_db :: lease_rows
  sy_tokens :: "string list"
  sy_held :: "(nat \<times> Lease) list"
  sy_taken :: "(nat \<times> Lease) list"
  sy_fence :: "nat \<Rightarrow> Lease list"
  sy_log :: "fenced_write list"

definition gain :: "nat \<Rightarrow> lease_error + Lease \<Rightarrow> (nat \<times> Lease) list \<Rightarrow> (nat \<times> Lease) list" where
  "gain p r held = (case r of Inl _ \<Rightarrow> held | Inr l \<Rightarrow> (p, l) # held)"

inductive lease_step :: "lease_system \<Rightarrow> lease_system \<Rightarrow> bool" where
  take: "TakeLease tx now (sy_fence s p) (Some token) scope owner ttl (sy_db s) = (r, db') \<Longrightarrow>
     token \<noteq> [] \<Longrightarrow> token \<notin> set (sy_tokens s) \<Longrightarrow> int (length (sy_tokens s)) + 1 < 2 ^ 63 \<Longrightarrow>
     lease_step s (s\<lparr>sy_db := db', sy_tokens := token # sy_tokens s,
                     sy_held := gain p r (sy_held s), sy_taken := gain p r (sy_taken s)\<rparr>)"
| join: "JoinLease tx now (sy_fence s p) scope owner ttl (sy_db s) = (r, db') \<Longrightarrow>
     lease_step s (s\<lparr>sy_db := db', sy_held := gain p r (sy_held s)\<rparr>)"
| renew: "(p, l) \<in> set (sy_held s) \<Longrightarrow> RenewLease tx now (sy_fence s p) l ttl (sy_db s) = (r, db') \<Longrightarrow>
     lease_step s (s\<lparr>sy_db := db', sy_held := gain p r (sy_held s)\<rparr>)"
| release: "(p, l) \<in> set (sy_held s) \<Longrightarrow> ReleaseLease tx now (sy_fence s p) l (sy_db s) = (r', db') \<Longrightarrow>
     lease_step s (s\<lparr>sy_db := db'\<rparr>)"
| install: "(p, l) \<in> set (sy_held s) \<Longrightarrow> (p, w) \<in> set (sy_taken s) \<Longrightarrow>
     InstallWriteFence l w (sy_fence s p) = (e, fence') \<Longrightarrow>
     lease_step s (s\<lparr>sy_fence := (sy_fence s)(p := fence')\<rparr>)"
| fenced: "sy_fence s p = [l, w] \<Longrightarrow> validateWriteFence now (sy_fence s p) (sy_db s) = None \<Longrightarrow>
     lease_step s (s\<lparr>sy_log := \<lparr>fw_process = p, fw_runtime = l, fw_worker = w\<rparr> # sy_log s\<rparr>)"

definition lease_init :: lease_system where
  "lease_init = \<lparr>sy_db = [], sy_tokens = [], sy_held = [], sy_taken = [], sy_fence = (\<lambda>_. []), sy_log = []\<rparr>"

inductive lease_reachable :: "lease_system \<Rightarrow> bool" where
  init: "lease_reachable lease_init"
| step: "lease_reachable s \<Longrightarrow> lease_step s t \<Longrightarrow> lease_reachable t"

text \<open>A row only moves forward: a new generation, or the same one with its token or none.\<close>

definition rows_advance :: "lease_rows \<Rightarrow> lease_rows \<Rightarrow> bool" where
  "rows_advance db db' \<longleftrightarrow>
     (\<forall>k c. map_of db k = Some (Some c) \<longrightarrow>
        (\<exists>c'. map_of db' k = Some (Some c') \<and> ls_Generation c \<le> ls_Generation c' \<and>
           (ls_Generation c = ls_Generation c' \<longrightarrow> ls_Token c' = ls_Token c \<or> ls_Token c' = [])))"

definition rows_ok :: "nat \<Rightarrow> lease_rows \<Rightarrow> bool" where
  "rows_ok n db \<longleftrightarrow>
     (\<forall>k r. map_of db k = Some r \<longrightarrow>
        (\<exists>c. r = Some c \<and> k = leaseStatePrefix @ ls_Scope c \<and> 1 \<le> ls_Generation c \<and>
           ls_Generation c \<le> int n))"

text \<open>A lease someone obtained: its row is at its generation with its token, or further on.\<close>

definition lease_known :: "lease_rows \<Rightarrow> Lease \<Rightarrow> bool" where
  "lease_known db l \<longleftrightarrow>
     (\<exists>c. map_of db (leaseStatePrefix @ ls_Scope l) = Some (Some c) \<and> ls_Generation l \<le> ls_Generation c \<and>
        (ls_Generation l = ls_Generation c \<longrightarrow> ls_Token c = ls_Token l \<or> ls_Token c = []))"

definition write_order :: "fenced_write \<Rightarrow> fenced_write \<Rightarrow> bool" where
  "write_order later earlier \<longleftrightarrow>
     (ls_Scope (fw_worker later) = ls_Scope (fw_worker earlier) \<longrightarrow>
        ls_Generation (fw_worker earlier) \<le> ls_Generation (fw_worker later)) \<and>
     (ls_Scope (fw_runtime later) = ls_Scope (fw_runtime earlier) \<longrightarrow>
        ls_Generation (fw_runtime earlier) \<le> ls_Generation (fw_runtime later))"

definition taken_unique :: "(nat \<times> Lease) list \<Rightarrow> bool" where
  "taken_unique taken \<longleftrightarrow>
     (\<forall>p l q m. (p, l) \<in> set taken \<longrightarrow> (q, m) \<in> set taken \<longrightarrow>
        ls_Scope l = ls_Scope m \<longrightarrow> ls_Generation l = ls_Generation m \<longrightarrow> p = q \<and> l = m)"

definition fences_ok :: "(nat \<times> Lease) list \<Rightarrow> (nat \<times> Lease) list \<Rightarrow> (nat \<Rightarrow> Lease list) \<Rightarrow> bool" where
  "fences_ok held taken fence \<longleftrightarrow>
     (\<forall>p. fence p = [] \<or> (\<exists>l w. fence p = [l, w] \<and> (p, l) \<in> set held \<and> (p, w) \<in> set taken))"

definition log_ok :: "(nat \<times> Lease) list \<Rightarrow> (nat \<times> Lease) list \<Rightarrow> fenced_write list \<Rightarrow> bool" where
  "log_ok held taken log \<longleftrightarrow>
     (\<forall>e. e \<in> set log \<longrightarrow>
        (fw_process e, fw_runtime e) \<in> set held \<and> (fw_process e, fw_worker e) \<in> set taken)"

definition lease_inv :: "lease_system \<Rightarrow> bool" where
  "lease_inv s \<longleftrightarrow>
     int (length (sy_tokens s)) < 2 ^ 63 \<and> rows_ok (length (sy_tokens s)) (sy_db s) \<and>
     (\<forall>p l. (p, l) \<in> set (sy_held s) \<longrightarrow> lease_known (sy_db s) l) \<and>
     set (sy_taken s) \<subseteq> set (sy_held s) \<and> taken_unique (sy_taken s) \<and>
     fences_ok (sy_held s) (sy_taken s) (sy_fence s) \<and>
     log_ok (sy_held s) (sy_taken s) (sy_log s) \<and> sorted_wrt write_order (sy_log s)"

section \<open>Lemmas\<close>

subsection \<open>Rows\<close>

lemma prefix_inj [simp]: "leaseStatePrefix @ a = leaseStatePrefix @ b \<longleftrightarrow> a = b"
  by simp

lemma readLease_Some:
  "readLease db scope = Inr (Some l) \<longleftrightarrow>
     map_of db (leaseStatePrefix @ scope) = Some (Some l) \<and> wellFormedLease scope l"
  by (auto simp: readLease_def split: option.splits if_splits)

lemma readLease_None: "readLease db scope = Inr None \<longleftrightarrow> map_of db (leaseStatePrefix @ scope) = None"
  by (auto simp: readLease_def split: option.splits if_splits)

lemma wellFormed_scope: "wellFormedLease scope l \<Longrightarrow> ls_Scope l = scope \<and> 1 \<le> ls_Generation l"
  by (auto simp: wellFormedLease_def)

lemma rows_advance_refl [simp]: "rows_advance db db"
  by (auto simp: rows_advance_def)

lemma rows_advance_write_new:
  "map_of db (leaseStatePrefix @ ls_Scope l) = None \<Longrightarrow> rows_advance db (writeLease l db)"
  by (auto simp: rows_advance_def writeLease_def)

lemma rows_advance_write:
  "map_of db (leaseStatePrefix @ ls_Scope l) = Some (Some c) \<Longrightarrow> ls_Generation c \<le> ls_Generation l \<Longrightarrow>
   (ls_Generation c = ls_Generation l \<Longrightarrow> ls_Token l = ls_Token c \<or> ls_Token l = []) \<Longrightarrow>
   rows_advance db (writeLease l db)"
  by (auto simp: rows_advance_def writeLease_def)

lemma lease_known_advance:
  assumes "lease_known db l" "rows_advance db db'" shows "lease_known db' l"
proof -
  obtain c where c: "map_of db (leaseStatePrefix @ ls_Scope l) = Some (Some c)"
    "ls_Generation l \<le> ls_Generation c"
    "ls_Generation l = ls_Generation c \<longrightarrow> ls_Token c = ls_Token l \<or> ls_Token c = []"
    using assms(1) by (auto simp: lease_known_def)
  then obtain c' where "map_of db' (leaseStatePrefix @ ls_Scope l) = Some (Some c')"
    "ls_Generation c \<le> ls_Generation c'"
    "ls_Generation c = ls_Generation c' \<longrightarrow> ls_Token c' = ls_Token c \<or> ls_Token c' = []"
    using assms(2) unfolding rows_advance_def by blast
  with c show ?thesis unfolding lease_known_def by auto
qed

lemma lease_known_write: "lease_known (writeLease l db) l"
  by (simp add: lease_known_def writeLease_def)

lemma rows_ok_write:
  "rows_ok n db \<Longrightarrow> n \<le> m \<Longrightarrow> 1 \<le> ls_Generation l \<Longrightarrow> ls_Generation l \<le> int m \<Longrightarrow>
   rows_ok m (writeLease l db)"
  by (fastforce simp: rows_ok_def writeLease_def)

lemma rows_ok_mono: "rows_ok n db \<Longrightarrow> n \<le> m \<Longrightarrow> rows_ok m db"
  by (fastforce simp: rows_ok_def)

lemma rows_ok_gen: "rows_ok n db \<Longrightarrow> map_of db k = Some (Some c) \<Longrightarrow> 1 \<le> ls_Generation c \<and> ls_Generation c \<le> int n"
  unfolding rows_ok_def by blast

subsection \<open>Operations\<close>

lemma writeTransaction_cases:
  assumes "writeTransaction tx now fence operation db = (r, db')"
  obtains e where "r = Inl e" "db' = db"
  | a where "r = Inr a" "operation db = Inr (a, db')" "validateWriteFence now fence db = None" "tx = TxOK"
  using assms
  by (cases tx) (auto simp: writeTransaction_def split: option.splits sum.splits prod.splits if_splits)

lemma renewed_sel [simp]:
  "ls_Scope (renewed now t c) = ls_Scope c" "ls_Generation (renewed now t c) = ls_Generation c"
  "ls_Token (renewed now t c) = ls_Token c" "ls_Owner (renewed now t c) = ls_Owner c"
  by (simp_all add: renewed_def)

lemma released_sel [simp]:
  "ls_Scope (released now c) = ls_Scope c" "ls_Generation (released now c) = ls_Generation c"
  "ls_Token (released now c) = []"
  by (simp_all add: released_def)

lemma joinLeaseTx_Inr:
  "joinLeaseTx scope owner t now db = Inr (l, db') \<longleftrightarrow>
     (\<exists>c. readLease db scope = Inr (Some c) \<and> now < ls_ExpiresAt c \<and> ls_Token c \<noteq> [] \<and> ls_Owner c = owner \<and>
        l = renewed now t c \<and> db' = writeLease l db)"
  by (auto simp: joinLeaseTx_def split: sum.splits option.splits)

lemma renewLeaseTx_Inr:
  "renewLeaseTx scope owner l0 t now db = Inr (l, db') \<longleftrightarrow>
     (\<exists>c. readLease db scope = Inr (Some c) \<and> now < ls_ExpiresAt c \<and> ls_Token c = ls_Token l0 \<and>
        ls_Generation c = ls_Generation l0 \<and> ls_Owner c = owner \<and>
        l = renewed now t c \<and> db' = writeLease l db)"
  by (auto simp: renewLeaseTx_def split: sum.splits option.splits)

lemma releaseLeaseTx_Inr:
  "releaseLeaseTx scope owner l0 now db = Inr (u, db') \<longleftrightarrow>
     (\<exists>c. readLease db scope = Inr (Some c) \<and> ls_Token c = ls_Token l0 \<and>
        ls_Generation c = ls_Generation l0 \<and> ls_Owner c = owner \<and> db' = writeLease (released now c) db)"
  by (auto simp: releaseLeaseTx_def split: sum.splits option.splits)

lemma readLease_row:
  "readLease db scope = Inr (Some c) \<Longrightarrow>
     map_of db (leaseStatePrefix @ ls_Scope c) = Some (Some c) \<and> ls_Scope c = scope"
  using wellFormed_scope [of scope c] by (simp add: readLease_Some)

text \<open>The three shapes of a committed operation.\<close>

lemma TakeLease_cases:
  assumes "TakeLease tx now fence (Some token) rawScope rawOwner ttl db = (r, db')"
  obtains e where "r = Inl e" "db' = db"
  | l where "r = Inr l" "db' = writeLease l db" "ls_Token l = token" "ls_Generation l = 1"
      "map_of db (leaseStatePrefix @ ls_Scope l) = None"
  | l c where "r = Inr l" "db' = writeLease l db" "ls_Token l = token"
      "map_of db (leaseStatePrefix @ ls_Scope l) = Some (Some c)" "ls_ExpiresAt c \<le> now"
      "ls_Generation l = i64 (ls_Generation c + 1)"
proof -
  consider e where "r = Inl e" "db' = db" | scope owner t where
    "writeTransaction tx now fence (takeLeaseTx scope owner t token now) db = (r, db')"
    using assms by (auto simp: TakeLease_def split: sum.splits prod.splits)
  then show thesis
  proof cases
    case 2
    then show thesis
    proof (cases rule: writeTransaction_cases)
      case (2 a)
      from 2(2) show thesis
        by (cases "readLease db scope")
           (auto simp: takeLeaseTx_def readLease_Some readLease_None Let_def not_less 2(1)
             intro: that split: option.splits if_splits)
    qed (rule that(1))
  qed (rule that(1))
qed

lemma renewal_cases:
  assumes "JoinLease tx now fence rawScope rawOwner ttl db = (r, db') \<or> RenewLease tx now fence l0 ttl db = (r, db')"
  obtains e where "r = Inl e" "db' = db"
  | c l where "r = Inr l" "db' = writeLease l db" "map_of db (leaseStatePrefix @ ls_Scope l) = Some (Some c)"
      "ls_Generation l = ls_Generation c" "ls_Token l = ls_Token c"
proof -
  consider e where "r = Inl e" "db' = db"
    | scope owner t where "writeTransaction tx now fence (joinLeaseTx scope owner t now) db = (r, db')"
    | scope owner t where "writeTransaction tx now fence (renewLeaseTx scope owner l0 t now) db = (r, db')"
    using assms by (auto simp: JoinLease_def RenewLease_def split: sum.splits prod.splits if_splits)
  then show thesis
  proof cases
    case 2
    then show thesis
    proof (cases rule: writeTransaction_cases)
      case (2 a)
      then obtain c where "readLease db scope = Inr (Some c)" "a = renewed now t c" "db' = writeLease a db"
        unfolding joinLeaseTx_Inr by blast
      with 2(1) readLease_row show thesis by (intro that(2) [of a c]) auto
    qed (rule that(1))
  next
    case 3
    then show thesis
    proof (cases rule: writeTransaction_cases)
      case (2 a)
      then obtain c where "readLease db scope = Inr (Some c)" "a = renewed now t c" "db' = writeLease a db"
        unfolding renewLeaseTx_Inr by blast
      with 2(1) readLease_row show thesis by (intro that(2) [of a c]) auto
    qed (rule that(1))
  qed (rule that(1))
qed

lemma ReleaseLease_cases:
  assumes "ReleaseLease tx now fence l0 db = (r, db')"
  obtains "db' = db"
  | c where "db' = writeLease (released now c) db" "map_of db (leaseStatePrefix @ ls_Scope c) = Some (Some c)"
proof -
  consider "db' = db"
    | scope owner where "writeTransaction tx now fence (releaseLeaseTx scope owner l0 now) db = (r, db')"
    using assms by (auto simp: ReleaseLease_def split: sum.splits prod.splits if_splits)
  then show thesis
  proof cases
    case 2
    then show thesis
    proof (cases rule: writeTransaction_cases)
      case (2 a)
      then obtain c where "readLease db scope = Inr (Some c)" "db' = writeLease (released now c) db"
        unfolding releaseLeaseTx_Inr by blast
      with readLease_row show thesis by (intro that(2) [of c]) auto
    qed (simp add: that(1))
  qed (rule that(1))
qed

subsection \<open>The interface of an operation on lease rows\<close>

text \<open>
  What every lease operation promises its callers: rows only move forward, and it makes at most
  \<open>grow\<close> new generations. A lease somebody knows stays known.
\<close>

locale row_operation =
  fixes run :: "lease_rows \<Rightarrow> 'r \<times> lease_rows" and grow :: nat
  assumes advance: "rows_ok n db \<Longrightarrow> int n + int grow < 2 ^ 63 \<Longrightarrow> rows_advance db (snd (run db))"
    and bounded: "rows_ok n db \<Longrightarrow> int n + int grow < 2 ^ 63 \<Longrightarrow> rows_ok (n + grow) (snd (run db))"
begin

lemma known_kept:
  "rows_ok n db \<Longrightarrow> int n + int grow < 2 ^ 63 \<Longrightarrow> lease_known db l \<Longrightarrow> lease_known (snd (run db)) l"
  using advance lease_known_advance by blast

text \<open>A lease whose generation was overtaken is never current again.\<close>

lemma overtaken_kept:
  assumes "rows_ok n db" "int n + int grow < 2 ^ 63"
    and "map_of db (leaseStatePrefix @ ls_Scope l) = Some (Some c)" "ls_Generation l < ls_Generation c"
  shows "\<exists>c'. map_of (snd (run db)) (leaseStatePrefix @ ls_Scope l) = Some (Some c') \<and>
           ls_Generation l < ls_Generation c'"
  using advance [OF assms(1,2)] assms(3,4) unfolding rows_advance_def by force

end

lemma TakeLease_new_generation:
  assumes "TakeLease tx now fence (Some token) rawScope rawOwner ttl db = (Inr l, db')"
    and "rows_ok n db" "int n + 1 < 2 ^ 63"
  shows "db' = writeLease l db \<and> ls_Token l = token \<and> 1 \<le> ls_Generation l \<and> ls_Generation l \<le> int n + 1 \<and>
     (\<forall>c. map_of db (leaseStatePrefix @ ls_Scope l) = Some (Some c) \<longrightarrow> ls_Generation l = ls_Generation c + 1) \<and>
     rows_advance db db'"
  using assms(1)
proof (cases rule: TakeLease_cases)
  case (2 l)
  then show ?thesis by (auto intro: rows_advance_write_new)
next
  case (3 l c)
  have g: "1 \<le> ls_Generation c" "ls_Generation c \<le> int n" using rows_ok_gen [OF assms(2) 3(4)] by auto
  then have gl: "ls_Generation l = ls_Generation c + 1" using 3(6) assms(3) by (simp add: i64_id in_i64_def)
  then have "rows_advance db (writeLease l db)" by (intro rows_advance_write [OF 3(4)]) simp_all
  with 3 g gl show ?thesis by simp
qed simp

interpretation takeOp: row_operation "TakeLease tx now fence (Some token) scope owner ttl" 1
  for tx now fence token scope owner ttl
proof
  fix n db
  assume a: "rows_ok n db" "int n + int 1 < 2 ^ 63"
  obtain r db' where t: "TakeLease tx now fence (Some token) scope owner ttl db = (r, db')" by fastforce
  show "rows_advance db (snd (TakeLease tx now fence (Some token) scope owner ttl db))"
    using t TakeLease_new_generation [of tx now fence token scope owner ttl db _ db' n] a
    by (cases r) (auto elim: TakeLease_cases)
  show "rows_ok (n + 1) (snd (TakeLease tx now fence (Some token) scope owner ttl db))"
    using t TakeLease_new_generation [of tx now fence token scope owner ttl db _ db' n] a
    by (cases r) (auto elim: TakeLease_cases intro: rows_ok_mono rows_ok_write)
qed

lemma renewal_advance:
  assumes "JoinLease tx now fence rawScope rawOwner ttl db = (r, db') \<or> RenewLease tx now fence l0 ttl db = (r, db')"
    and "rows_ok n db"
  shows "rows_advance db db' \<and> rows_ok n db'"
  using assms(1)
proof (cases rule: renewal_cases)
  case (2 c l)
  have "rows_advance db (writeLease l db)" by (rule rows_advance_write [OF 2(3)]) (simp_all add: 2)
  moreover have "rows_ok n (writeLease l db)"
    using rows_ok_gen [OF assms(2) 2(3)] by (intro rows_ok_write [OF assms(2)]) (simp_all add: 2)
  ultimately show ?thesis using 2(2) by simp
qed (use assms(2) in simp)

interpretation joinOp: row_operation "JoinLease tx now fence scope owner ttl" 0
  for tx now fence scope owner ttl
  by unfold_locales (use renewal_advance surjective_pairing in \<open>metis add_0_right\<close>)+

interpretation renewOp: row_operation "RenewLease tx now fence l ttl" 0 for tx now fence l ttl
  by unfold_locales (use renewal_advance surjective_pairing in \<open>metis add_0_right\<close>)+

lemma release_advance:
  assumes "ReleaseLease tx now fence l0 db = (r, db')" "rows_ok n db"
  shows "rows_advance db db' \<and> rows_ok n db'"
  using assms(1)
proof (cases rule: ReleaseLease_cases)
  case (2 c)
  have "rows_advance db (writeLease (released now c) db)"
    by (rule rows_advance_write [of _ _ c]) (simp_all add: 2)
  moreover have "rows_ok n (writeLease (released now c) db)"
    using rows_ok_gen [OF assms(2) 2(2)] by (intro rows_ok_write [OF assms(2)]) simp_all
  ultimately show ?thesis using 2(1) by simp
qed (use assms(2) in simp)

interpretation releaseOp: row_operation "ReleaseLease tx now fence l" 0 for tx now fence l
  by unfold_locales (use release_advance surjective_pairing in \<open>metis add_0_right\<close>)+

subsection \<open>The invariant\<close>

lemma ok_mono:
  assumes "set held \<subseteq> set held'" "set taken \<subseteq> set taken'"
  shows "fences_ok held taken fence \<Longrightarrow> fences_ok held' taken' fence"
    and "log_ok held taken log \<Longrightarrow> log_ok held' taken' log"
  using assms unfolding fences_ok_def log_ok_def by blast+

lemma lease_inv_rows:
  assumes "lease_inv s" "rows_advance (sy_db s) db'" "rows_ok (length toks) db'" "int (length toks) < 2 ^ 63"
    and "\<forall>p l. (p, l) \<in> set new \<longrightarrow> lease_known db' l"
  shows "lease_inv (s\<lparr>sy_db := db', sy_tokens := toks, sy_held := new @ sy_held s\<rparr>)"
proof -
  have "set (sy_held s) \<subseteq> set (new @ sy_held s)" by simp
  note mono = ok_mono [OF this order_refl]
  have "\<forall>p l. (p, l) \<in> set (new @ sy_held s) \<longrightarrow> lease_known db' l"
    using assms(1,5) lease_known_advance [OF _ assms(2)] by (auto simp: lease_inv_def)
  with assms mono show ?thesis by (auto simp: lease_inv_def)
qed

lemma lease_inv_taken:
  assumes "lease_inv s" "(p, l) \<in> set (sy_held s)"
    and "\<forall>q m. (q, m) \<in> set (sy_taken s) \<longrightarrow> ls_Scope m = ls_Scope l \<longrightarrow> ls_Generation m \<noteq> ls_Generation l"
  shows "lease_inv (s\<lparr>sy_taken := (p, l) # sy_taken s\<rparr>)"
proof -
  have "set (sy_taken s) \<subseteq> set ((p, l) # sy_taken s)" by auto
  note mono = ok_mono [OF order_refl this]
  have "taken_unique ((p, l) # sy_taken s)"
    using assms(1,3) unfolding lease_inv_def taken_unique_def by (auto, metis+)
  with assms mono show ?thesis by (auto simp: lease_inv_def)
qed

lemma validateFence_current:
  "validateFenceLeases now db ls = None \<Longrightarrow> l \<in> set ls \<Longrightarrow>
     \<exists>c. map_of db (leaseStatePrefix @ ls_Scope l) = Some (Some c) \<and> now < ls_ExpiresAt c \<and>
       ls_Token l \<noteq> [] \<and> ls_Token c = ls_Token l \<and> ls_Owner c = ls_Owner l \<and> ls_Generation c = ls_Generation l"
proof (induction ls)
  case (Cons x xs)
  then obtain c where c: "readLease db (ls_Scope x) = Inr (Some c)"
    "now < ls_ExpiresAt c" "ls_Token x \<noteq> []" "ls_Token c = ls_Token x" "ls_Owner c = ls_Owner x"
    "ls_Generation c = ls_Generation x" "validateFenceLeases now db xs = None"
    by (auto split: sum.splits option.splits if_splits)
  show ?case
  proof (cases "l = x")
    case True
    then show ?thesis using c readLease_row [OF c(1)] by auto
  next
    case False
    then show ?thesis using Cons c(7) by simp
  qed
qed simp

lemma lease_inv_init: "lease_inv lease_init"
  by (simp add: lease_inv_def lease_init_def rows_ok_def taken_unique_def fences_ok_def log_ok_def)

lemma lease_inv_take:
  assumes "lease_inv s" "TakeLease tx now fence (Some token) scope owner ttl (sy_db s) = (r, db')"
    and "int (length (sy_tokens s)) + 1 < 2 ^ 63"
  shows "lease_inv (s\<lparr>sy_db := db', sy_tokens := token # sy_tokens s,
                     sy_held := gain p r (sy_held s), sy_taken := gain p r (sy_taken s)\<rparr>)"
proof -
  let ?n = "length (sy_tokens s)"
  have ok: "rows_ok ?n (sy_db s)" using assms(1) by (simp add: lease_inv_def)
  have adv: "rows_advance (sy_db s) db'" "rows_ok (Suc ?n) db'"
    using takeOp.advance [OF ok, of tx now fence token scope owner ttl]
      takeOp.bounded [OF ok, of tx now fence token scope owner ttl] assms(2,3) by simp_all
  show ?thesis
  proof (cases r)
    case (Inl e)
    have "lease_inv (s\<lparr>sy_db := db', sy_tokens := token # sy_tokens s, sy_held := [] @ sy_held s\<rparr>)"
      by (rule lease_inv_rows [OF assms(1)]) (use adv assms(3) in simp_all)
    then show ?thesis by (simp add: Inl gain_def)
  next
    case (Inr l)
    have n: "int ?n + 1 < 2 ^ 63" using assms(3) .
    note new = TakeLease_new_generation [OF assms(2) [unfolded Inr] ok n]
    let ?s = "s\<lparr>sy_db := db', sy_tokens := token # sy_tokens s, sy_held := [(p, l)] @ sy_held s\<rparr>"
    have "lease_inv ?s"
      by (rule lease_inv_rows [OF assms(1)]) (use adv assms(3) new lease_known_write in auto)
    moreover have "ls_Generation m \<noteq> ls_Generation l"
      if m: "(q, m) \<in> set (sy_taken s)" "ls_Scope m = ls_Scope l" for q m
    proof -
      have "lease_known (sy_db s) m" using assms(1) m(1) by (auto simp: lease_inv_def)
      then obtain c where "map_of (sy_db s) (leaseStatePrefix @ ls_Scope l) = Some (Some c)"
        "ls_Generation m \<le> ls_Generation c" using m(2) by (auto simp: lease_known_def)
      with new show ?thesis by force
    qed
    ultimately have "lease_inv (?s\<lparr>sy_taken := (p, l) # sy_taken ?s\<rparr>)"
      by (intro lease_inv_taken) auto
    then show ?thesis by (simp add: Inr gain_def)
  qed
qed

lemma lease_inv_renewal:
  assumes "lease_inv s"
    and op: "JoinLease tx now fence scope owner ttl (sy_db s) = (r, db') \<or>
      RenewLease tx now fence l0 ttl (sy_db s) = (r, db')"
  shows "lease_inv (s\<lparr>sy_db := db', sy_held := gain p r (sy_held s)\<rparr>)"
proof -
  have ok: "rows_ok (length (sy_tokens s)) (sy_db s)" "int (length (sy_tokens s)) < 2 ^ 63"
    using assms(1) by (simp_all add: lease_inv_def)
  note adv = renewal_advance [OF op ok(1)]
  let ?new = "case r of Inl _ \<Rightarrow> [] | Inr l \<Rightarrow> [(p, l)]"
  from op have "\<forall>q l. (q, l) \<in> set ?new \<longrightarrow> lease_known db' l"
    by (cases rule: renewal_cases) (auto simp: lease_known_write)
  from lease_inv_rows [OF assms(1) _ _ ok(2) this] adv
  have "lease_inv (s\<lparr>sy_db := db', sy_tokens := sy_tokens s, sy_held := ?new @ sy_held s\<rparr>)" by blast
  then show ?thesis by (cases r) (simp_all add: gain_def)
qed

lemma lease_inv_write:
  assumes "lease_inv s" "sy_fence s p = [l, w]" "validateWriteFence now (sy_fence s p) (sy_db s) = None"
  shows "lease_inv (s\<lparr>sy_log := \<lparr>fw_process = p, fw_runtime = l, fw_worker = w\<rparr> # sy_log s\<rparr>)"
proof -
  let ?e = "\<lparr>fw_process = p, fw_runtime = l, fw_worker = w\<rparr>"
  have pl: "(p, l) \<in> set (sy_held s)" "(p, w) \<in> set (sy_taken s)"
    using assms(1,2) unfolding lease_inv_def fences_ok_def by (metis list.distinct(1) list.inject)+
  have cur: "\<exists>c. map_of (sy_db s) (leaseStatePrefix @ ls_Scope x) = Some (Some c) \<and> ls_Generation c = ls_Generation x"
    if "x \<in> {l, w}" for x
    using validateFence_current [of now "sy_db s" "[l, w]" x] assms(2,3) that
    by (auto simp: validateWriteFence_def)
  have ge: "ls_Generation m \<le> ls_Generation x"
    if "x \<in> {l, w}" "(q, m) \<in> set (sy_held s)" "ls_Scope x = ls_Scope m" for x q m
  proof -
    have "lease_known (sy_db s) m" using assms(1) that(2) by (auto simp: lease_inv_def)
    with cur [OF that(1)] that(3) show ?thesis by (auto simp: lease_known_def)
  qed
  have "write_order ?e e" if "e \<in> set (sy_log s)" for e
  proof -
    have e: "(fw_process e, fw_runtime e) \<in> set (sy_held s)" "(fw_process e, fw_worker e) \<in> set (sy_held s)"
      using assms(1) that by (auto simp: lease_inv_def log_ok_def)
    show ?thesis using ge [of l, OF _ e(1)] ge [of w, OF _ e(2)] by (auto simp: write_order_def)
  qed
  then show ?thesis using assms(1) pl by (auto simp: lease_inv_def log_ok_def)
qed

lemma lease_inv_step: "lease_step s t \<Longrightarrow> lease_inv s \<Longrightarrow> lease_inv t"
proof (induction rule: lease_step.induct)
  case take
  show ?case by (rule lease_inv_take [OF take(5) take(1) take(4)])
next
  case join
  show ?case by (rule lease_inv_renewal [OF join(2) disjI1 [OF join(1)]])
next
  case renew
  show ?case by (rule lease_inv_renewal [OF renew(3) disjI2 [OF renew(2)]])
next
  case fenced
  show ?case by (rule lease_inv_write [OF fenced(3) fenced(1,2)])
next
  case (release p l s tx now r' db')
  then have "lease_inv (s\<lparr>sy_db := db', sy_tokens := sy_tokens s, sy_held := [] @ sy_held s\<rparr>)"
    by (intro lease_inv_rows) (use release_advance in \<open>auto simp: lease_inv_def\<close>)
  then show ?case by simp
next
  case (install p l s w e fence')
  then have "fence' = sy_fence s p \<or> fence' = [l, w]" by (auto simp: InstallWriteFence_def split: if_splits)
  with install show ?case by (auto simp: lease_inv_def fences_ok_def)
qed

lemma lease_reachable_inv: "lease_reachable s \<Longrightarrow> lease_inv s"
  by (induction rule: lease_reachable.induct) (auto intro: lease_inv_init lease_inv_step)

lemma ttlSeconds_bounds:
  "validateLeaseInput scope owner ttl = Inr (sc, ow, t) \<Longrightarrow>
     sc = trim_space scope \<and> ow = trim_space owner \<and> 5 \<le> t \<and> t \<le> 300 \<and> ow \<noteq> []"
proof -
  assume "validateLeaseInput scope owner ttl = Inr (sc, ow, t)"
  then have v: "sc = trim_space scope" "ow = trim_space owner" "ow \<noteq> []" "minLeaseTTL \<le> ttl" "ttl \<le> maxLeaseTTL"
    "t = go_div (i64 (ttl + second - 1)) second"
    by (auto simp: validateLeaseInput_def Let_def split: if_splits)
  then have r: "5000000000 \<le> ttl" "ttl \<le> 300000000000"
    by (simp_all add: minLeaseTTL_def maxLeaseTTL_def second_def)
  then have "i64 (ttl + second - 1) = ttl + 999999999" by (simp add: i64_id in_i64_def second_def)
  then have "t = (ttl + 999999999) div 1000000000"
    using r v(6) by (simp add: go_div_def second_def)
  with r have "5 \<le> t" "t \<le> 300" by linarith+
  with v show ?thesis by simp
qed

lemma validateLeaseInput_trim:
  "validateLeaseInput (trim_space scope) (trim_space owner) ttl = validateLeaseInput scope owner ttl"
  by (simp add: validateLeaseInput_def)

lemma TakeLease_Inr:
  assumes "TakeLease tx now fence (Some token) scope owner ttl db = (Inr l, db')"
  obtains t g where "validateLeaseInput scope owner ttl = Inr (trim_space scope, trim_space owner, t)"
    "l = \<lparr>ls_Version = leaseStateVersion, ls_Scope = trim_space scope, ls_Owner = trim_space owner,
          ls_Generation = g, ls_Token = token, ls_AcquiredAt = now, ls_RenewedAt = now,
          ls_ExpiresAt = i64 (now + t), ls_ReleasedAt = None\<rparr>"
    "tx = TxOK" "validateWriteFence now fence db = None"
proof -
  obtain sc ow t where v: "validateLeaseInput scope owner ttl = Inr (sc, ow, t)"
    and w: "writeTransaction tx now fence (takeLeaseTx sc ow t token now) db = (Inr l, db')"
    using assms by (auto simp: TakeLease_def split: sum.splits)
  from w show thesis
  proof (cases rule: writeTransaction_cases)
    case (2 a)
    then show thesis
      using ttlSeconds_bounds [OF v] v
      by (auto simp: takeLeaseTx_def Let_def split: sum.splits option.splits if_splits intro: that)
  qed simp
qed

section \<open>Properties\<close>

text \<open>
  C16: fencing. Whatever the interleaving of processes and however their clocks behave, of two
  fenced writes under the same worker scope the later one never has the smaller generation, and
  two with the same generation come from the same process under the same worker lease; the
  generations of a shared runtime scope never decrease either. So once a new owner has
  written, the old one never writes again.
\<close>

theorem fenced_writes_ordered:
  assumes "lease_reachable s" "sy_log s = newer @ later # between @ earlier # older"
  shows "(ls_Scope (fw_worker later) = ls_Scope (fw_worker earlier) \<longrightarrow>
            ls_Generation (fw_worker earlier) \<le> ls_Generation (fw_worker later) \<and>
            (ls_Generation (fw_worker earlier) = ls_Generation (fw_worker later) \<longrightarrow>
               fw_process earlier = fw_process later \<and> fw_worker earlier = fw_worker later)) \<and>
         (ls_Scope (fw_runtime later) = ls_Scope (fw_runtime earlier) \<longrightarrow>
            ls_Generation (fw_runtime earlier) \<le> ls_Generation (fw_runtime later))"
proof -
  have inv: "lease_inv s" by (rule lease_reachable_inv [OF assms(1)])
  then have "write_order later earlier"
    using assms(2) by (simp add: lease_inv_def sorted_wrt_append)
  moreover have "(fw_process later, fw_worker later) \<in> set (sy_taken s)"
    "(fw_process earlier, fw_worker earlier) \<in> set (sy_taken s)"
    using inv assms(2) by (auto simp: lease_inv_def log_ok_def)
  ultimately show ?thesis
    using inv unfolding lease_inv_def taken_unique_def write_order_def by metis
qed

definition sample_lease :: "string \<Rightarrow> int64 \<Rightarrow> string \<Rightarrow> int64 \<Rightarrow> int64 \<Rightarrow> int64 \<Rightarrow> Lease" where
  "sample_lease scope generation token acquired renewedAt expires =
     \<lparr>ls_Version = 1, ls_Scope = scope, ls_Owner = ''o'', ls_Generation = generation, ls_Token = token,
      ls_AcquiredAt = acquired, ls_RenewedAt = renewedAt, ls_ExpiresAt = expires, ls_ReleasedAt = None\<rparr>"

definition sample_rows :: "Lease \<Rightarrow> Lease \<Rightarrow> lease_rows" where
  "sample_rows r w = [(''ownership_lease:rt'', Some r), (''ownership_lease:w'', Some w)]"

text \<open>Steps to a state given by an equation.\<close>

lemma reach_take:
  "lease_reachable s \<Longrightarrow> TakeLease tx now (sy_fence s p) (Some token) scope owner ttl (sy_db s) = (r, db') \<Longrightarrow>
   token \<noteq> [] \<Longrightarrow> token \<notin> set (sy_tokens s) \<Longrightarrow> int (length (sy_tokens s)) + 1 < 2 ^ 63 \<Longrightarrow>
   t = s\<lparr>sy_db := db', sy_tokens := token # sy_tokens s, sy_held := gain p r (sy_held s),
         sy_taken := gain p r (sy_taken s)\<rparr> \<Longrightarrow> lease_reachable t"
  using lease_reachable.step lease_step.take by blast

lemma reach_join:
  "lease_reachable s \<Longrightarrow> JoinLease tx now (sy_fence s p) scope owner ttl (sy_db s) = (r, db') \<Longrightarrow>
   t = s\<lparr>sy_db := db', sy_held := gain p r (sy_held s)\<rparr> \<Longrightarrow> lease_reachable t"
  using lease_reachable.step lease_step.join by blast

lemma reach_install:
  "lease_reachable s \<Longrightarrow> (p, l) \<in> set (sy_held s) \<Longrightarrow> (p, w) \<in> set (sy_taken s) \<Longrightarrow>
   InstallWriteFence l w (sy_fence s p) = (e, fence') \<Longrightarrow>
   t = s\<lparr>sy_fence := (sy_fence s)(p := fence')\<rparr> \<Longrightarrow> lease_reachable t"
  using lease_reachable.step lease_step.install by blast

lemma reach_fenced:
  "lease_reachable s \<Longrightarrow> sy_fence s p = [l, w] \<Longrightarrow> validateWriteFence now (sy_fence s p) (sy_db s) = None \<Longrightarrow>
   t = s\<lparr>sy_log := \<lparr>fw_process = p, fw_runtime = l, fw_worker = w\<rparr> # sy_log s\<rparr> \<Longrightarrow> lease_reachable t"
  using lease_reachable.step lease_step.fenced by blast

text \<open>
  Process 0 takes the runtime scope and the worker scope, writes, and stops renewing; process 1
  joins the runtime, takes the worker scope after it expired, and writes.
\<close>

lemma sample_run:
  "\<exists>s. lease_reachable s \<and>
     sy_log s =
       [\<lparr>fw_process = 1, fw_runtime = sample_lease ''rt'' 1 ''a'' 10 17 47, fw_worker = sample_lease ''w'' 2 ''c'' 17 17 22\<rparr>,
        \<lparr>fw_process = 0, fw_runtime = sample_lease ''rt'' 1 ''a'' 10 10 40, fw_worker = sample_lease ''w'' 1 ''b'' 11 11 16\<rparr>]"
proof -
  let ?rt = "sample_lease ''rt'' 1 ''a'' 10 10 40" and ?rt' = "sample_lease ''rt'' 1 ''a'' 10 17 47"
  let ?w = "sample_lease ''w'' 1 ''b'' 11 11 16" and ?w' = "sample_lease ''w'' 2 ''c'' 17 17 22"
  have 1: "TakeLease TxOK 10 [] (Some ''a'') ''rt'' ''o'' (30 * second) [] =
      (Inr ?rt, [(''ownership_lease:rt'', Some ?rt)])" by code_simp
  have 2: "TakeLease TxOK 11 [] (Some ''b'') ''w'' ''o'' (5 * second) [(''ownership_lease:rt'', Some ?rt)] =
      (Inr ?w, sample_rows ?rt ?w)" by code_simp
  have 3: "InstallWriteFence ?rt ?w [] = (None, [?rt, ?w])" by code_simp
  have 4: "validateWriteFence 12 [?rt, ?w] (sample_rows ?rt ?w) = None" by code_simp
  have 5: "JoinLease TxOK 17 [] ''rt'' ''o'' (30 * second) (sample_rows ?rt ?w) =
      (Inr ?rt', sample_rows ?rt' ?w)" by code_simp
  have 6: "TakeLease TxOK 17 [] (Some ''c'') ''w'' ''o'' (5 * second) (sample_rows ?rt' ?w) =
      (Inr ?w', sample_rows ?rt' ?w')" by code_simp
  have 7: "InstallWriteFence ?rt' ?w' [] = (None, [?rt', ?w'])" by code_simp
  have 8: "validateWriteFence 18 [?rt', ?w'] (sample_rows ?rt' ?w') = None" by code_simp
  let ?f = "(\<lambda>_. [])(0 := [?rt, ?w])" and ?e = "\<lparr>fw_process = 0, fw_runtime = ?rt, fw_worker = ?w\<rparr>"
  let ?e' = "\<lparr>fw_process = 1, fw_runtime = ?rt', fw_worker = ?w'\<rparr>"
  have s1: "lease_reachable \<lparr>sy_db = [(''ownership_lease:rt'', Some ?rt)], sy_tokens = [''a''],
      sy_held = [(0, ?rt)], sy_taken = [(0, ?rt)], sy_fence = (\<lambda>_. []), sy_log = []\<rparr>"
    by (rule reach_take [OF lease_reachable.init, where p = 0 and tx = TxOK and now = 10 and token = "''a''"
          and scope = "''rt''" and owner = "''o''" and ttl = "30 * second" and r = "Inr ?rt"])
       (simp_all add: lease_init_def gain_def 1)
  have s2: "lease_reachable \<lparr>sy_db = sample_rows ?rt ?w, sy_tokens = [''b'', ''a''],
      sy_held = [(0, ?w), (0, ?rt)], sy_taken = [(0, ?w), (0, ?rt)], sy_fence = (\<lambda>_. []), sy_log = []\<rparr>"
    by (rule reach_take [OF s1, where p = 0 and tx = TxOK and now = 11 and token = "''b''"
          and scope = "''w''" and owner = "''o''" and ttl = "5 * second" and r = "Inr ?w"])
       (simp_all add: gain_def 2)
  have s3: "lease_reachable \<lparr>sy_db = sample_rows ?rt ?w, sy_tokens = [''b'', ''a''],
      sy_held = [(0, ?w), (0, ?rt)], sy_taken = [(0, ?w), (0, ?rt)], sy_fence = ?f, sy_log = []\<rparr>"
    by (rule reach_install [OF s2, where p = 0 and l = ?rt and w = ?w]) (simp_all add: 3)
  have s4: "lease_reachable \<lparr>sy_db = sample_rows ?rt ?w, sy_tokens = [''b'', ''a''],
      sy_held = [(0, ?w), (0, ?rt)], sy_taken = [(0, ?w), (0, ?rt)], sy_fence = ?f, sy_log = [?e]\<rparr>"
    by (rule reach_fenced [OF s3, where p = 0 and now = 12]) (simp_all add: 4)
  have s5: "lease_reachable \<lparr>sy_db = sample_rows ?rt' ?w, sy_tokens = [''b'', ''a''],
      sy_held = [(1, ?rt'), (0, ?w), (0, ?rt)], sy_taken = [(0, ?w), (0, ?rt)], sy_fence = ?f, sy_log = [?e]\<rparr>"
    by (rule reach_join [OF s4, where p = 1 and tx = TxOK and now = 17
          and scope = "''rt''" and owner = "''o''" and ttl = "30 * second" and r = "Inr ?rt'"])
       (simp_all add: gain_def 5)
  have s6: "lease_reachable \<lparr>sy_db = sample_rows ?rt' ?w', sy_tokens = [''c'', ''b'', ''a''],
      sy_held = [(1, ?w'), (1, ?rt'), (0, ?w), (0, ?rt)],
      sy_taken = [(1, ?w'), (0, ?w), (0, ?rt)], sy_fence = ?f, sy_log = [?e]\<rparr>"
    by (rule reach_take [OF s5, where p = 1 and tx = TxOK and now = 17 and token = "''c''"
          and scope = "''w''" and owner = "''o''" and ttl = "5 * second" and r = "Inr ?w'"])
       (simp_all add: gain_def 6)
  have s7: "lease_reachable \<lparr>sy_db = sample_rows ?rt' ?w', sy_tokens = [''c'', ''b'', ''a''],
      sy_held = [(1, ?w'), (1, ?rt'), (0, ?w), (0, ?rt)],
      sy_taken = [(1, ?w'), (0, ?w), (0, ?rt)], sy_fence = ?f(1 := [?rt', ?w']), sy_log = [?e]\<rparr>"
    by (rule reach_install [OF s6, where p = 1 and l = ?rt' and w = ?w']) (simp_all add: 7)
  have "lease_reachable \<lparr>sy_db = sample_rows ?rt' ?w', sy_tokens = [''c'', ''b'', ''a''],
      sy_held = [(1, ?w'), (1, ?rt'), (0, ?w), (0, ?rt)],
      sy_taken = [(1, ?w'), (0, ?w), (0, ?rt)], sy_fence = ?f(1 := [?rt', ?w']), sy_log = [?e', ?e]\<rparr>"
    by (rule reach_fenced [OF s7, where p = 1 and now = 18]) (simp_all add: 8)
  then show ?thesis by (intro exI, rule conjI) simp
qed

theorem fenced_writes_ordered_witness:
  "\<exists>s later earlier. lease_reachable s \<and> sy_log s = [later, earlier] \<and>
     fw_process later \<noteq> fw_process earlier \<and> ls_Scope (fw_worker later) = ls_Scope (fw_worker earlier) \<and>
     ls_Generation (fw_worker earlier) < ls_Generation (fw_worker later)"
proof -
  obtain s later earlier where s: "lease_reachable s" "sy_log s = [later, earlier]"
    "fw_process later = 1" "fw_process earlier = 0" "ls_Scope (fw_worker later) = ls_Scope (fw_worker earlier)"
    using sample_run by (auto simp: sample_lease_def)
  then have "sy_log s = [] @ later # [] @ earlier # []" by simp
  from fenced_writes_ordered [OF s(1) this] s have
    "ls_Generation (fw_worker earlier) < ls_Generation (fw_worker later)" by force
  with s show ?thesis by force
qed

text \<open>
  C17: a lease excludes. After \<open>TakeLease\<close> succeeded, the lease is stored and lasts between
  five and 300 seconds; until it expires no \<open>TakeLease\<close> on that scope succeeds, from whatever
  process and for whatever owner, and it changes nothing; and while it lasts the holder can
  renew it with what it was given, which keeps the generation and gives it five seconds or more.
\<close>

theorem TakeLease_excludes:
  assumes "TakeLease tx now fence (Some token) scope owner ttl db = (Inr l, db')"
    and "rows_ok n db" "int n + 1 < 2 ^ 63" "1 \<le> now" "now + 600 < 2 ^ 63" "token \<noteq> []"
  shows "readLease db' (trim_space scope) = Inr (Some l) \<and>
         now + 5 \<le> ls_ExpiresAt l \<and> ls_ExpiresAt l \<le> now + 300 \<and>
         (\<forall>now' tx' fence' token' owner' ttl'. now' < ls_ExpiresAt l \<longrightarrow>
            (\<exists>e. TakeLease tx' now' fence' token' scope owner' ttl' db' = (Inl e, db'))) \<and>
         (\<forall>now'. now \<le> now' \<longrightarrow> now' < ls_ExpiresAt l \<longrightarrow>
            (\<exists>l'. RenewLease TxOK now' [] l ttl db' = (Inr l', writeLease l' db') \<and>
               ls_Generation l' = ls_Generation l \<and> ls_Token l' = token \<and> now' + 5 \<le> ls_ExpiresAt l'))"
proof -
  note new = TakeLease_new_generation [OF assms(1-3)]
  obtain t g where v: "validateLeaseInput scope owner ttl = Inr (trim_space scope, trim_space owner, t)"
    and l: "l = \<lparr>ls_Version = leaseStateVersion, ls_Scope = trim_space scope, ls_Owner = trim_space owner,
          ls_Generation = g, ls_Token = token, ls_AcquiredAt = now, ls_RenewedAt = now,
          ls_ExpiresAt = i64 (now + t), ls_ReleasedAt = None\<rparr>"
    using assms(1) by (rule TakeLease_Inr)
  note t = ttlSeconds_bounds [OF v]
  have e: "ls_ExpiresAt l = now + t" using t assms(4,5) by (simp add: l i64_id in_i64_def)
  have w: "wellFormedLease (trim_space scope) l"
    using t e new assms(4) by (simp add: wellFormedLease_def l)
  have r: "readLease db' (trim_space scope) = Inr (Some l)"
    using w new by (simp add: readLease_Some writeLease_def l)
  have held: "\<exists>e. TakeLease tx' now' fence' token' scope owner' ttl' db' = (Inl e, db')"
    if "now' < ls_ExpiresAt l" for now' tx' fence' token' owner' ttl'
  proof (cases "validateLeaseInput scope owner' ttl'")
    case (Inr q)
    then obtain ow' t' where q: "q = (trim_space scope, ow', t')" using ttlSeconds_bounds by (cases q) blast
    have "takeLeaseTx (trim_space scope) ow' t' tk now' db' = Inl (heldLeaseError l)" for tk
      using r that by (simp add: takeLeaseTx_def)
    then show ?thesis using Inr q
      by (cases token'; cases tx')
         (auto simp: TakeLease_def writeTransaction_def split: option.splits)
  qed (simp add: TakeLease_def)
  have renew: "RenewLease TxOK now' [] l ttl db' = (Inr (renewed now' t l), writeLease (renewed now' t l) db')"
    if "now' < ls_ExpiresAt l" for now'
  proof -
    have "validateLeaseInput (ls_Scope l) (ls_Owner l) ttl = Inr (trim_space scope, trim_space owner, t)"
      using v by (simp add: l validateLeaseInput_trim)
    moreover have "renewLeaseTx (trim_space scope) (trim_space owner) l t now' db' =
        Inr (renewed now' t l, writeLease (renewed now' t l) db')"
      unfolding renewLeaseTx_Inr using r that by (simp add: l)
    ultimately show ?thesis
      using assms(6) new by (simp add: RenewLease_def writeTransaction_def validateWriteFence_def)
  qed
  have "now' + 5 \<le> ls_ExpiresAt (renewed now' t l)" if "now \<le> now'" "now' < ls_ExpiresAt l" for now'
    using that e t assms(4,5) by (simp add: renewed_def i64_id in_i64_def)
  with renew have "\<exists>l'. RenewLease TxOK now' [] l ttl db' = (Inr l', writeLease l' db') \<and>
      ls_Generation l' = ls_Generation l \<and> ls_Token l' = token \<and> now' + 5 \<le> ls_ExpiresAt l'"
    if "now \<le> now'" "now' < ls_ExpiresAt l" for now'
    using that by (intro exI [of _ "renewed now' t l"]) (simp add: l)
  with r e t held show ?thesis by simp
qed

theorem TakeLease_excludes_witness:
  "\<exists>l db'. TakeLease TxOK 10 [] (Some ''a'') ''w'' ''o'' (30 * second) [] = (Inr l, db') \<and>
     ls_ExpiresAt l = 40 \<and> (\<exists>e. TakeLease TxOK 39 [] (Some ''b'') ''w'' ''other'' (30 * second) db' = (Inl e, db'))"
proof -
  let ?l = "sample_lease ''w'' 1 ''a'' 10 10 40"
  have t: "TakeLease TxOK 10 [] (Some ''a'') ''w'' ''o'' (30 * second) [] =
      (Inr ?l, [(''ownership_lease:w'', Some ?l)])" by code_simp
  have "rows_ok 0 []" by (simp add: rows_ok_def)
  from TakeLease_excludes [OF t this]
  have "\<forall>now' tx' fence' token' owner' ttl'. now' < ls_ExpiresAt ?l \<longrightarrow>
      (\<exists>e. TakeLease tx' now' fence' token' ''w'' owner' ttl' [(''ownership_lease:w'', Some ?l)] =
         (Inl e, [(''ownership_lease:w'', Some ?l)]))" by simp
  moreover have "ls_ExpiresAt ?l = 40" by (simp add: sample_lease_def)
  ultimately show ?thesis using t by (intro exI [of _ ?l] exI) auto
qed

text \<open>
  C32: a clock set back can wedge a scope. \<open>RenewLease\<close> stores the current time as the renewal
  time without comparing it with the acquisition time; when the clock has been set back below
  that, the renewal succeeds, but the row it stored fails the checks of \<open>readLease\<close>: from
  then on no lease operation on the scope succeeds at any time, for any owner, and none repairs
  the row.
\<close>

theorem RenewLease_clock_back_wedges:
  assumes "readLease db (trim_space (ls_Scope l)) = Inr (Some c)"
    and "RenewLease tx now fence l ttl db = (Inr l', db')" "now < ls_AcquiredAt c"
  shows "(\<forall>tx now fence token owner ttl.
            \<exists>e. TakeLease tx now fence token (ls_Scope l) owner ttl db' = (Inl e, db')) \<and>
         (\<forall>tx now fence owner ttl. \<exists>e. JoinLease tx now fence (ls_Scope l) owner ttl db' = (Inl e, db')) \<and>
         (\<forall>tx now fence ttl. \<exists>e. RenewLease tx now fence l' ttl db' = (Inl e, db')) \<and>
         (\<forall>tx now fence. \<exists>e. ReleaseLease tx now fence l' db' = (Inl e, db'))"
proof -
  let ?sc = "trim_space (ls_Scope l)"
  obtain sc ow t where v: "validateLeaseInput (ls_Scope l) (ls_Owner l) ttl = Inr (sc, ow, t)"
    and w: "writeTransaction tx now fence (renewLeaseTx sc ow l t now) db = (Inr l', db')"
    using assms(2) by (auto simp: RenewLease_def split: sum.splits prod.splits if_splits)
  have sc: "sc = ?sc" using ttlSeconds_bounds [OF v] by blast
  from w have "renewLeaseTx sc ow l t now db = Inr (l', db')" by (cases rule: writeTransaction_cases) auto
  then have l': "l' = renewed now t c" "db' = writeLease l' db"
    using assms(1) unfolding renewLeaseTx_Inr sc by auto
  have scl: "ls_Scope l' = ?sc" using readLease_row [OF assms(1)] l' by simp
  have bad: "readLease db' ?sc = Inl (ErrLeaseStateInvalid ?sc)"
    using assms(3) scl l' by (simp add: readLease_def writeLease_def wellFormedLease_def renewed_def)
  have V: "validateLeaseInput s ow ttl = Inr (a, b, d) \<Longrightarrow> a = trim_space s" for s ow ttl a b d
    using ttlSeconds_bounds by blast
  have wt: "\<exists>e. writeTransaction tx now fence f db' = (Inl e, db')" if "f db' = Inl e" for tx now fence e
    and f :: "lease_rows \<Rightarrow> lease_error + 'a \<times> lease_rows"
    using that by (auto simp: writeTransaction_def split: option.splits)
  have tr: "trim_space (ls_Scope l') = ?sc" by (simp add: scl)
  have "\<exists>e. TakeLease tx now fence token (ls_Scope l) owner ttl db' = (Inl e, db')" for tx now fence token owner ttl
    by (auto simp: TakeLease_def takeLeaseTx_def bad split: sum.splits option.splits dest!: V intro!: wt)
  moreover have "\<exists>e. JoinLease tx now fence (ls_Scope l) owner ttl db' = (Inl e, db')" for tx now fence owner ttl
    by (auto simp: JoinLease_def joinLeaseTx_def bad split: sum.splits dest!: V intro!: wt)
  moreover have "\<exists>e. RenewLease tx now fence l' ttl db' = (Inl e, db')" for tx now fence ttl
    by (auto simp: RenewLease_def renewLeaseTx_def bad tr split: sum.splits dest!: V intro!: wt)
  moreover have "\<exists>e. ReleaseLease tx now fence l' db' = (Inl e, db')" for tx now fence
    by (auto simp: ReleaseLease_def releaseLeaseTx_def bad tr split: sum.splits dest!: V intro!: wt)
  ultimately show ?thesis by blast
qed

theorem RenewLease_clock_back_wedges_witness:
  "\<exists>l' db'. RenewLease TxOK 9 [] (sample_lease ''w'' 1 ''a'' 10 10 40) (30 * second)
      [(''ownership_lease:w'', Some (sample_lease ''w'' 1 ''a'' 10 10 40))] = (Inr l', db') \<and>
     (\<exists>e. TakeLease TxOK 1000000 [] (Some ''b'') ''w'' ''other'' (30 * second) db' = (Inl e, db'))"
proof -
  let ?l = "sample_lease ''w'' 1 ''a'' 10 10 40" and ?l' = "sample_lease ''w'' 1 ''a'' 10 9 39"
  let ?db = "[(''ownership_lease:w'', Some ?l)]" and ?db' = "[(''ownership_lease:w'', Some ?l')]"
  have w: "trim_space (ls_Scope ?l) = ''w''" "ls_Scope ?l = ''w''" by code_simp+
  have r: "RenewLease TxOK 9 [] ?l (30 * second) ?db = (Inr ?l', ?db')" by code_simp
  have c: "readLease ?db (trim_space (ls_Scope ?l)) = Inr (Some ?l)" unfolding w by code_simp
  have "9 < ls_AcquiredAt ?l" by (simp add: sample_lease_def)
  from RenewLease_clock_back_wedges [OF c r this, THEN conjunct1]
  have "\<exists>e. TakeLease TxOK 1000000 [] (Some ''b'') ''w'' ''other'' (30 * second) ?db' = (Inl e, ?db')"
    unfolding w by blast
  with r show ?thesis by blast
qed

end
