(* ===== verification/Ownership.thy ===== *)
theory Ownership
  imports Lease
begin

text \<open>
  \<open>internal/ownership/guard.go\<close>: running an operation under the runtime lease and one worker
  lease, with the heartbeat that renews both. The Go interface \<open>LeaseStore\<close> is a record of
  functions; \<open>controlplaneStore\<close> is the one of \<open>Lease\<close>. Other processes act on the shared
  database between the calls: each call comes with what they did before it (\<open>cl_env\<close>), the
  clock it reads and the fate of its transaction. The heartbeat goroutine is its list of
  ticks; the end of the list is the closed \<open>stop\<close> channel.

  The locale \<open>renewing_store\<close> is what the heartbeat relies on of a store; it is interpreted on
  \<open>RenewLease\<close> under the installed write fence.
\<close>

section \<open>Definitions\<close>

definition RuntimeScope :: string where "RuntimeScope = ''runtime-writer''"

record Config =
  cf_RuntimeOwner :: string
  cf_WorkerScope :: string
  cf_WorkerOwner :: string
  cf_TTL :: int64
  cf_RenewInterval :: int64
  cf_ReleaseWait :: int64

datatype ownership_error =
    RuntimeOwnerRequired
  | WorkerScopeRequired
  | WorkerOwnerRequired
  | OwnershipTTLInvalid
  | RenewIntervalInvalid
  | ReleaseWaitInvalid
  | OwnerPrefixInvalid
  | JoinRuntime lease_error
  | TakeWorker lease_error
  | InstallFence lease_error
  | ReleaseWorker lease_error
  | HeartbeatFailed lease_error
  | OperationError string

definition normalizeAndValidate :: "Config \<Rightarrow> ownership_error + Config" where
  "normalizeAndValidate raw =
     (let ttl = (if cf_TTL raw = 0 then 30 * second else cf_TTL raw);
          config = \<lparr>cf_RuntimeOwner = trim_space (cf_RuntimeOwner raw),
                    cf_WorkerScope = trim_space (cf_WorkerScope raw),
                    cf_WorkerOwner = trim_space (cf_WorkerOwner raw),
                    cf_TTL = ttl,
                    cf_RenewInterval = (if cf_RenewInterval raw = 0 then go_div ttl 3 else cf_RenewInterval raw),
                    cf_ReleaseWait = (if cf_ReleaseWait raw = 0 then 5 * second else cf_ReleaseWait raw)\<rparr>
      in if cf_RuntimeOwner config = [] then Inl RuntimeOwnerRequired
         else if cf_WorkerScope config = [] then Inl WorkerScopeRequired
         else if cf_WorkerOwner config = [] then Inl WorkerOwnerRequired
         else if cf_TTL config < 5 * second \<or> cf_TTL config > 300 * second then Inl OwnershipTTLInvalid
         else if cf_RenewInterval config < second \<or> cf_RenewInterval config \<ge> go_div (cf_TTL config) 2
         then Inl RenewIntervalInvalid
         else if cf_ReleaseWait config < second \<or> cf_ReleaseWait config > 30 * second
         then Inl ReleaseWaitInvalid
         else Inr config)"

definition NewProcessOwner :: "string \<Rightarrow> string \<Rightarrow> ownership_error + string" where
  "NewProcessOwner uuid rawRuntime =
     (let runtime = trim_space rawRuntime
      in if runtime = [] \<or> length runtime > 64 then Inl OwnerPrefixInvalid
         else Inr (runtime @ '':'' @ uuid))"

definition WorkerConfig :: "string \<Rightarrow> string \<Rightarrow> string \<Rightarrow> int64 \<Rightarrow> ownership_error + Config" where
  "WorkerConfig uuid rawOwner workerScope ttl =
     (let runtimeOwner = (if trim_space rawOwner = [] then ''codex-cpa'' else trim_space rawOwner)
      in (case NewProcessOwner uuid (runtimeOwner @ ''-'' @ trim_space workerScope) of
            Inl e \<Rightarrow> Inl e
          | Inr workerOwner \<Rightarrow>
              normalizeAndValidate
                \<lparr>cf_RuntimeOwner = runtimeOwner, cf_WorkerScope = workerScope,
                 cf_WorkerOwner = workerOwner, cf_TTL = (if ttl = 0 then 30 * second else ttl),
                 cf_RenewInterval = 0, cf_ReleaseWait = 0\<rparr>))"

text \<open>The interface: each operation takes the transaction's fate and the clock.\<close>

record LeaseStore =
  so_JoinLease :: "tx \<Rightarrow> int64 \<Rightarrow> Lease list \<Rightarrow> string \<Rightarrow> string \<Rightarrow> int64 \<Rightarrow> lease_rows \<Rightarrow> (lease_error + Lease) \<times> lease_rows"
  so_TakeLease :: "tx \<Rightarrow> int64 \<Rightarrow> Lease list \<Rightarrow> string option \<Rightarrow> string \<Rightarrow> string \<Rightarrow> int64 \<Rightarrow> lease_rows \<Rightarrow> (lease_error + Lease) \<times> lease_rows"
  so_RenewLease :: "tx \<Rightarrow> int64 \<Rightarrow> Lease list \<Rightarrow> Lease \<Rightarrow> int64 \<Rightarrow> lease_rows \<Rightarrow> (lease_error + Lease) \<times> lease_rows"
  so_ReleaseLease :: "tx \<Rightarrow> int64 \<Rightarrow> Lease list \<Rightarrow> Lease \<Rightarrow> lease_rows \<Rightarrow> (lease_error + unit) \<times> lease_rows"
  so_InstallWriteFence :: "Lease \<Rightarrow> Lease \<Rightarrow> Lease list \<Rightarrow> lease_error option \<times> Lease list"

definition controlplaneStore :: LeaseStore where
  "controlplaneStore =
     \<lparr>so_JoinLease = JoinLease, so_TakeLease = TakeLease, so_RenewLease = RenewLease,
      so_ReleaseLease = ReleaseLease, so_InstallWriteFence = InstallWriteFence\<rparr>"

record store_call =
  cl_env :: "lease_rows \<Rightarrow> lease_rows"
  cl_tx :: tx
  cl_now :: int64

record heartbeatResult =
  hr_workerLease :: Lease
  hr_err :: "ownership_error option"

text \<open>One tick renews the runtime lease, then the worker lease; an error ends the heartbeat.\<close>

fun heartbeat ::
  "LeaseStore \<Rightarrow> int64 \<Rightarrow> Lease list \<Rightarrow> Lease \<Rightarrow> Lease \<Rightarrow> (store_call \<times> store_call) list \<Rightarrow> lease_rows \<Rightarrow>
   heartbeatResult \<times> lease_rows" where
  "heartbeat S ttl fence runtimeLease workerLease [] db =
     (\<lparr>hr_workerLease = workerLease, hr_err = None\<rparr>, db)"
| "heartbeat S ttl fence runtimeLease workerLease ((c1, c2) # ticks) db =
     (case so_RenewLease S (cl_tx c1) (cl_now c1) fence runtimeLease ttl (cl_env c1 db) of
        (Inl e, db1) \<Rightarrow> (\<lparr>hr_workerLease = workerLease, hr_err = Some (HeartbeatFailed e)\<rparr>, db1)
      | (Inr runtimeLease', db1) \<Rightarrow>
          (case so_RenewLease S (cl_tx c2) (cl_now c2) fence workerLease ttl (cl_env c2 db1) of
             (Inl e, db2) \<Rightarrow>
               (\<lparr>hr_workerLease = \<lparr>ls_Version = 0, ls_Scope = [], ls_Owner = [], ls_Generation = 0, ls_Token = [],
                    ls_AcquiredAt = 0, ls_RenewedAt = 0, ls_ExpiresAt = 0, ls_ReleasedAt = None\<rparr>,
                 hr_err = Some (HeartbeatFailed e)\<rparr>, db2)
           | (Inr workerLease', db2) \<Rightarrow>
               heartbeat S ttl fence runtimeLease' workerLease' ticks db2))"

text \<open>
  \<open>Run\<close>. The operation's own effects are the environment's; \<open>operationError\<close> is what it
  returns. The outcome keeps the joined errors, whether the operation was started, whether the
  heartbeat cancelled it, the fence it left installed, and the database.
\<close>

record run_outcome =
  ro_errors :: "ownership_error list"
  ro_started :: bool
  ro_cancelled :: bool
  ro_fence :: "Lease list"
  ro_db :: lease_rows

definition runFailed :: "ownership_error list \<Rightarrow> Lease list \<Rightarrow> lease_rows \<Rightarrow> run_outcome" where
  "runFailed errors fence db =
     \<lparr>ro_errors = errors, ro_started = False, ro_cancelled = False, ro_fence = fence, ro_db = db\<rparr>"

definition releaseErrors :: "(ownership_error list) \<Rightarrow> lease_error + unit \<Rightarrow> ownership_error list" where
  "releaseErrors errors r = errors @ (case r of Inl e \<Rightarrow> [ReleaseWorker e] | Inr _ \<Rightarrow> [])"

definition runOperation ::
  "LeaseStore \<Rightarrow> Config \<Rightarrow> Lease list \<Rightarrow> Lease \<Rightarrow> Lease \<Rightarrow> (store_call \<times> store_call) list \<Rightarrow> string option \<Rightarrow>
   store_call \<Rightarrow> lease_rows \<Rightarrow> run_outcome" where
  "runOperation S config fence runtimeLease workerLease ticks operationError releaseCall db =
     (let (state, db1) = heartbeat S (cf_TTL config) fence runtimeLease workerLease ticks db;
          operationErrors = (case operationError of None \<Rightarrow> [] | Some e \<Rightarrow> [OperationError e])
      in (case hr_err state of
            Some e \<Rightarrow> \<lparr>ro_errors = operationErrors @ [e], ro_started = True, ro_cancelled = True,
                       ro_fence = fence, ro_db = db1\<rparr>
          | None \<Rightarrow>
              (let (r, db2) = so_ReleaseLease S (cl_tx releaseCall) (cl_now releaseCall) fence
                                (hr_workerLease state) (cl_env releaseCall db1)
               in \<lparr>ro_errors = releaseErrors operationErrors r, ro_started = True, ro_cancelled = False,
                   ro_fence = fence, ro_db = db2\<rparr>)))"

definition Run ::
  "LeaseStore \<Rightarrow> Config \<Rightarrow> store_call \<Rightarrow> store_call \<Rightarrow> string option \<Rightarrow> (store_call \<times> store_call) list \<Rightarrow>
   string option \<Rightarrow> store_call \<Rightarrow> Lease list \<Rightarrow> lease_rows \<Rightarrow> run_outcome" where
  "Run S rawConfig joinCall takeCall newToken ticks operationError releaseCall fence db =
     (case normalizeAndValidate rawConfig of
        Inl e \<Rightarrow> runFailed [e] fence db
      | Inr config \<Rightarrow>
          (case so_JoinLease S (cl_tx joinCall) (cl_now joinCall) fence RuntimeScope
                  (cf_RuntimeOwner config) (cf_TTL config) (cl_env joinCall db) of
             (Inl e, db1) \<Rightarrow> runFailed [JoinRuntime e] fence db1
           | (Inr runtimeLease, db1) \<Rightarrow>
               (case so_TakeLease S (cl_tx takeCall) (cl_now takeCall) fence newToken
                       (cf_WorkerScope config) (cf_WorkerOwner config) (cf_TTL config) (cl_env takeCall db1) of
                  (Inl e, db2) \<Rightarrow> runFailed [TakeWorker e] fence db2
                | (Inr workerLease, db2) \<Rightarrow>
                    (case so_InstallWriteFence S runtimeLease workerLease fence of
                       (Some e, fence1) \<Rightarrow>
                         (let (r, db3) = so_ReleaseLease S (cl_tx releaseCall) (cl_now releaseCall) fence1
                                           workerLease (cl_env releaseCall db2)
                          in runFailed (releaseErrors [InstallFence e] r) fence1 db3)
                     | (None, fence1) \<Rightarrow>
                         runOperation S config fence1 runtimeLease workerLease ticks operationError
                           releaseCall db2))))"

text \<open>
  The row of a lease is still the lease's: same generation, token and owner, taken not after
  \<open>a\<close>, and it expires at \<open>e\<close> or later.
\<close>

definition holds :: "lease_rows \<Rightarrow> Lease \<Rightarrow> int64 \<Rightarrow> int64 \<Rightarrow> bool" where
  "holds db l a e \<longleftrightarrow>
     (\<exists>c. readLease db (ls_Scope l) = Inr (Some c) \<and> ls_Generation c = ls_Generation l \<and>
        ls_Token c = ls_Token l \<and> ls_Token l \<noteq> [] \<and> ls_Owner c = ls_Owner l \<and>
        ls_AcquiredAt c \<le> a \<and> e \<le> ls_ExpiresAt c)"

definition same_lease :: "Lease \<Rightarrow> Lease \<Rightarrow> bool" where
  "same_lease l m \<longleftrightarrow> ls_Scope l = ls_Scope m \<and> ls_Generation l = ls_Generation m \<and>
     ls_Token l = ls_Token m \<and> ls_Owner l = ls_Owner m"

text \<open>What the other processes do between two calls takes nothing away from a lease.\<close>

definition env_keeps :: "(lease_rows \<Rightarrow> lease_rows) \<Rightarrow> Lease \<Rightarrow> bool" where
  "env_keeps env l \<longleftrightarrow> (\<forall>db a e. holds db l a e \<longrightarrow> holds (env db) l a e)"

text \<open>
  The clocks of a punctual heartbeat, in nanoseconds: a tick starts at most \<open>late\<close> after
  the previous one started, and its two calls read the clock within \<open>spread\<close> of each other.
\<close>

fun punctual :: "int64 \<Rightarrow> int64 \<Rightarrow> int64 \<Rightarrow> (int64 \<times> int64) list \<Rightarrow> bool" where
  "punctual gap prev prevEnd [] = True"
| "punctual gap prev prevEnd ((t1, t2) # ts) =
     (prevEnd \<le> t1 \<and> t1 \<le> t2 \<and> t2 \<le> prev + gap \<and> punctual gap t1 t2 ts)"

section \<open>Lemmas\<close>

lemma normalizeAndValidate_Inr:
  assumes "normalizeAndValidate raw = Inr config"
  shows "5 * second \<le> cf_TTL config \<and> cf_TTL config \<le> 300 * second \<and> second \<le> cf_RenewInterval config \<and>
     2 * cf_RenewInterval config < cf_TTL config \<and>
     trim_space (cf_WorkerScope config) = cf_WorkerScope config"
proof -
  have t: "5 * second \<le> cf_TTL config" "cf_TTL config \<le> 300 * second" "second \<le> cf_RenewInterval config"
    "cf_RenewInterval config < go_div (cf_TTL config) 2" "trim_space (cf_WorkerScope config) = cf_WorkerScope config"
    using assms unfolding normalizeAndValidate_def Let_def by (auto split: if_splits)
  then have "go_div (cf_TTL config) 2 = cf_TTL config div 2" by (simp add: go_div_def second_def)
  with t show ?thesis by simp
qed

lemma holds_same: "same_lease l m \<Longrightarrow> holds db l a e = holds db m a e"
  by (simp add: holds_def same_lease_def)

lemma env_keeps_same: "same_lease l m \<Longrightarrow> env_keeps env l = env_keeps env m"
  by (simp add: env_keeps_def holds_same)

lemma env_keepsD: "env_keeps env l \<Longrightarrow> holds db l a e \<Longrightarrow> holds (env db) l a e"
  by (auto simp: env_keeps_def)

lemma same_lease_refl [simp]: "same_lease l l"
  by (simp add: same_lease_def)

lemma same_lease_trans: "same_lease l m \<Longrightarrow> same_lease m k \<Longrightarrow> same_lease l k"
  by (simp add: same_lease_def)

lemma validateFence_holds:
  "\<forall>f \<in> set fence. \<exists>a e. holds db f a e \<and> now < e \<Longrightarrow> validateFenceLeases now db fence = None"
proof (induction fence)
  case (Cons f fs)
  then obtain a e where "holds db f a e" "now < e" by auto
  with Cons show ?case by (auto simp: holds_def)
qed simp

lemma writeLease_other: "ls_Scope l \<noteq> scope \<Longrightarrow> readLease (writeLease l db) scope = readLease db scope"
  by (simp add: readLease_def writeLease_def)

lemma holds_write_other: "ls_Scope c \<noteq> ls_Scope m \<Longrightarrow> holds (writeLease c db) m a e = holds db m a e"
  by (simp add: holds_def writeLease_other)

text \<open>What the heartbeat needs of a store: renewing one of two held leases keeps both.\<close>

locale renewing_store =
  fixes renew :: "tx \<Rightarrow> int64 \<Rightarrow> Lease list \<Rightarrow> Lease \<Rightarrow> int64 \<Rightarrow> lease_rows \<Rightarrow> (lease_error + Lease) \<times> lease_rows"
  assumes renew_held:
    "\<forall>f \<in> set fence. same_lease f l \<or> same_lease f m \<Longrightarrow> holds db l a e \<Longrightarrow> holds db m a e' \<Longrightarrow>
     ls_Scope l \<noteq> ls_Scope m \<Longrightarrow> now < e \<Longrightarrow> now < e' \<Longrightarrow> a \<le> now \<Longrightarrow> 1 \<le> now \<Longrightarrow> now + 300 < 2 ^ 63 \<Longrightarrow>
     validateLeaseInput (ls_Scope l) (ls_Owner l) ttl = Inr (ls_Scope l, ls_Owner l, t) \<Longrightarrow>
     \<exists>l' db'. renew TxOK now fence l ttl db = (Inr l', db') \<and> same_lease l' l \<and>
       holds db' l a (now + t) \<and> holds db' m a e'"
begin

text \<open>
  A punctual heartbeat never fails, and at its end both leases are held for \<open>t\<close> seconds from their
  renewal in the last tick.
\<close>

lemma heartbeat_alive:
  assumes "so_RenewLease S = renew"
    and "\<forall>f \<in> set fence. same_lease f r \<or> same_lease f w" "ls_Scope r \<noteq> ls_Scope w"
    and "validateLeaseInput (ls_Scope r) (ls_Owner r) ttl = Inr (ls_Scope r, ls_Owner r, t)"
    and "validateLeaseInput (ls_Scope w) (ls_Owner w) ttl = Inr (ls_Scope w, ls_Owner w, t)"
    and "ttl \<le> t * second" "gap + second \<le> ttl"
    and "map (\<lambda>(c1, c2). (cl_now c1, cl_now c2)) ticks = map (\<lambda>(t1, t2). (t1 div second, t2 div second)) ts"
    and "\<forall>(c1, c2) \<in> set ticks. \<forall>c \<in> {c1, c2}. cl_tx c = TxOK \<and> env_keeps (cl_env c) r \<and> env_keeps (cl_env c) w"
    and "punctual gap prev prevEnd ts" "prev \<le> prevEnd" "a \<le> prevEnd div second" "second \<le> prevEnd"
    and "\<forall>(t1, t2) \<in> set ts. t2 div second + 300 < 2 ^ 63"
    and "holds db r a (prev div second + t)" "holds db w a (prevEnd div second + t)"
  shows "\<exists>w' db'. heartbeat S ttl fence r w ticks db = (\<lparr>hr_workerLease = w', hr_err = None\<rparr>, db') \<and>
           same_lease w' w \<and> holds db' r a (fst (last ((prev, prevEnd) # ts)) div second + t) \<and>
           holds db' w a (snd (last ((prev, prevEnd) # ts)) div second + t)"
  using assms
proof (induction S ttl fence r w ticks db arbitrary: ts prev prevEnd rule: heartbeat.induct)
  case (1 S ttl fence r w db)
  then show ?case by auto
next
  case (2 S ttl fence r w c1 c2 ticks db)
  note P = "2.prems"
  obtain t1 t2 ts' where ts: "ts = (t1, t2) # ts'" using P(8) by (cases ts) auto
  have times: "prevEnd \<le> t1" "t1 \<le> t2" "t2 \<le> prev + gap" "punctual gap t1 t2 ts'"
    and nows: "cl_now c1 = t1 div second" "cl_now c2 = t2 div second"
    and rest: "map (\<lambda>(c1, c2). (cl_now c1, cl_now c2)) ticks = map (\<lambda>(t1, t2). (t1 div second, t2 div second)) ts'"
    using P(8,10) by (simp_all add: ts)
  have small: "t2 div second + 300 < 2 ^ 63" using P(14) by (simp add: ts)
  have env: "cl_tx c1 = TxOK" "cl_tx c2 = TxOK" "env_keeps (cl_env c1) r" "env_keeps (cl_env c1) w"
    "env_keeps (cl_env c2) r" "env_keeps (cl_env c2) w" using P(9) by auto
  have mono: "t1 div second \<le> t2 div second" "prevEnd div second \<le> t1 div second" "prev div second \<le> prevEnd div second"
    using times P(11) by (auto intro: zdiv_mono1 simp: second_def)
  have before: "t2 div second < prev div second + t"
  proof -
    have d: "prev = prev div second * second + prev mod second" "prev mod second < second"
      by (simp_all add: second_def)
    have "(prev div second + t) * second = prev div second * second + t * second"
      by (rule distrib_right)
    then have "t2 < (prev div second + t) * second"
      using times(3) P(6,7) d by linarith
    then show ?thesis by (simp add: second_def)
  qed
  have one: "1 \<le> t1 div second"
    using P(13) times(1) zdiv_mono1 [of second t1 second] by (simp add: second_def)
  have sym: "\<forall>f \<in> set fence. same_lease f w \<or> same_lease f r" using P(2) by blast
  have "holds (cl_env c1 db) r a (prev div second + t)" "holds (cl_env c1 db) w a (prevEnd div second + t)"
    using P(15,16) env(3,4) by (auto intro: env_keepsD)
  from renew_held [OF P(2) this P(3) _ _ _ one _ P(4)] before mono P(12) small
  obtain r' db1 where r': "renew TxOK (t1 div second) fence r ttl (cl_env c1 db) = (Inr r', db1)" "same_lease r' r"
    "holds db1 r a (t1 div second + t)" "holds db1 w a (prevEnd div second + t)"
    by force
  have "holds (cl_env c2 db1) w a (prevEnd div second + t)" "holds (cl_env c2 db1) r a (t1 div second + t)"
    using r'(3,4) env(5,6) by (auto intro: env_keepsD)
  from renew_held [OF sym this P(3) [symmetric] _ _ _ _ small P(5)] before mono P(12) one
  obtain w' db2 where w': "renew TxOK (t2 div second) fence w ttl (cl_env c2 db1) = (Inr w', db2)" "same_lease w' w"
    "holds db2 w a (t2 div second + t)" "holds db2 r a (t1 div second + t)"
    by force
  have step: "heartbeat S ttl fence r w ((c1, c2) # ticks) db = heartbeat S ttl fence r' w' ticks db2"
    using r'(1) w'(1) by (simp add: P(1) nows env(1,2))
  have calls: "(Inr r', db1) = so_RenewLease S (cl_tx c1) (cl_now c1) fence r ttl (cl_env c1 db)"
      "(Inr w', db2) = so_RenewLease S (cl_tx c2) (cl_now c2) fence w ttl (cl_env c2 db1)"
    using r'(1) w'(1) by (simp_all add: P(1) nows env(1,2))
  have "\<exists>w'' db'. heartbeat S ttl fence r' w' ticks db2 = (\<lparr>hr_workerLease = w'', hr_err = None\<rparr>, db') \<and>
      same_lease w'' w' \<and> holds db' r' a (fst (last ((t1, t2) # ts')) div second + t) \<and>
      holds db' w' a (snd (last ((t1, t2) # ts')) div second + t)"
  proof (rule "2.IH" [OF calls(1) refl calls(2) refl P(1) _ _ _ _ P(6,7) rest _ times(4,2)])
    show "\<forall>f \<in> set fence. same_lease f r' \<or> same_lease f w'" "ls_Scope r' \<noteq> ls_Scope w'"
      using P(2,3) r'(2) w'(2) by (simp_all add: same_lease_def)
    show "validateLeaseInput (ls_Scope r') (ls_Owner r') ttl = Inr (ls_Scope r', ls_Owner r', t)"
      "validateLeaseInput (ls_Scope w') (ls_Owner w') ttl = Inr (ls_Scope w', ls_Owner w', t)"
      using P(4,5) r'(2) w'(2) by (simp_all add: same_lease_def)
    show "\<forall>(c1, c2) \<in> set ticks. \<forall>c \<in> {c1, c2}. cl_tx c = TxOK \<and> env_keeps (cl_env c) r' \<and> env_keeps (cl_env c) w'"
      using P(9) env_keeps_same [OF r'(2)] env_keeps_same [OF w'(2)] by auto
    show "a \<le> t2 div second" "second \<le> t2" using P(12,13) mono times by linarith+
    show "\<forall>(t1, t2) \<in> set ts'. t2 div second + 300 < 2 ^ 63" using P(14) by (auto simp: ts)
    show "holds db2 r' a (t1 div second + t)" "holds db2 w' a (t2 div second + t)"
      using w'(3,4) holds_same [OF r'(2)] holds_same [OF w'(2)] by simp_all
  qed
  then have "\<exists>w'' db'. heartbeat S ttl fence r' w' ticks db2 = (\<lparr>hr_workerLease = w'', hr_err = None\<rparr>, db') \<and>
      same_lease w'' w \<and> holds db' r a (fst (last ((t1, t2) # ts')) div second + t) \<and>
      holds db' w a (snd (last ((t1, t2) # ts')) div second + t)"
    unfolding holds_same [OF w'(2)] holds_same [OF r'(2)] using w'(2) same_lease_trans by blast
  moreover have "last ((prev, prevEnd) # ts) = last ((t1, t2) # ts')" by (simp add: ts)
  ultimately show ?case unfolding step by (simp only:)
qed

end

interpretation cpRenew: renewing_store RenewLease
proof
  fix fence l m db a e e' now ttl t
  assume f: "\<forall>f \<in> set fence. same_lease f l \<or> same_lease f m"
    and h: "holds db l a e" "holds db m a e'" and d: "ls_Scope l \<noteq> ls_Scope m"
    and n: "now < e" "now < e'" "a \<le> now" "1 \<le> now" "now + 300 < 2 ^ 63"
    and v: "validateLeaseInput (ls_Scope l) (ls_Owner l) ttl = Inr (ls_Scope l, ls_Owner l, t)"
  obtain c where c: "readLease db (ls_Scope l) = Inr (Some c)" "ls_Generation c = ls_Generation l"
    "ls_Token c = ls_Token l" "ls_Token l \<noteq> []" "ls_Owner c = ls_Owner l" "ls_AcquiredAt c \<le> a" "e \<le> ls_ExpiresAt c"
    using h(1) by (auto simp: holds_def)
  let ?c = "renewed now t c"
  have fence: "validateWriteFence now fence db = None"
    using f h n(1,2) holds_same validateFence_holds [of fence db now] unfolding validateWriteFence_def by metis
  have t: "5 \<le> t" "t \<le> 300" using ttlSeconds_bounds [OF v] by auto
  have "renewLeaseTx (ls_Scope l) (ls_Owner l) l t now db = Inr (?c, writeLease ?c db)"
    unfolding renewLeaseTx_Inr using c n(1) by auto
  moreover have "1 \<le> ls_Generation l" using c(1,2) by (force simp: readLease_Some dest: wellFormed_scope)
  ultimately have r: "RenewLease TxOK now fence l ttl db = (Inr ?c, writeLease ?c db)"
    using v c(4) fence by (simp add: RenewLease_def writeTransaction_def)
  have sc: "ls_Scope c = ls_Scope l" using readLease_row [OF c(1)] by simp
  have x: "ls_ExpiresAt ?c = now + t" using t n(4,5) by (simp add: renewed_def i64_id in_i64_def)
  have "wellFormedLease (ls_Scope l) ?c"
    using c n t x by (auto simp: readLease_Some wellFormedLease_def) (auto simp: renewed_def)
  then have "readLease (writeLease ?c db) (ls_Scope l) = Inr (Some ?c)"
    by (simp add: readLease_Some writeLease_def sc)
  then have "holds (writeLease ?c db) l a (now + t)"
    using c x by (simp add: holds_def) (simp add: renewed_def)
  moreover have "holds (writeLease ?c db) m a e'" using h(2) d sc by (simp add: holds_write_other)
  moreover have "same_lease ?c l" using c sc by (simp add: same_lease_def)
  ultimately show "\<exists>l' db'. RenewLease TxOK now fence l ttl db = (Inr l', db') \<and> same_lease l' l \<and>
       holds db' l a (now + t) \<and> holds db' m a e'" using r by blast
qed

lemma ttlSeconds_ge:
  assumes "validateLeaseInput scope owner ttl = Inr (sc, ow, t)" shows "ttl \<le> t * second"
proof -
  from assms have v: "minLeaseTTL \<le> ttl" "ttl \<le> maxLeaseTTL" "t = go_div (i64 (ttl + second - 1)) second"
    by (auto simp: validateLeaseInput_def Let_def split: if_splits)
  then have r: "5000000000 \<le> ttl" "ttl \<le> 300000000000"
    by (simp_all add: minLeaseTTL_def maxLeaseTTL_def second_def)
  then have "i64 (ttl + second - 1) = ttl + 999999999" by (simp add: i64_id in_i64_def second_def)
  then have "t = (ttl + 999999999) div 1000000000"
    using r v(3) by (simp add: go_div_def second_def)
  then show ?thesis by (simp add: second_def)
qed

lemma TakeLease_untouched:
  "TakeLease tx now fence tok scope owner ttl db = (Inr l, db') \<Longrightarrow> db' = writeLease l db \<and> ls_Scope l = trim_space scope"
proof (cases tok)
  case (Some token)
  assume a: "TakeLease tx now fence tok scope owner ttl db = (Inr l, db')"
  then have "db' = writeLease l db" unfolding Some by (cases rule: TakeLease_cases) auto
  moreover have "ls_Scope l = trim_space scope" using a unfolding Some by (rule TakeLease_Inr) simp
  ultimately show ?thesis by simp
qed (auto simp: TakeLease_def split: sum.splits)

lemma JoinLease_scope:
  assumes "JoinLease tx now fence scope owner ttl db = (Inr l, db')"
  shows "ls_Scope l = trim_space scope"
proof -
  obtain sc ow t where v: "validateLeaseInput scope owner ttl = Inr (sc, ow, t)"
    and w: "writeTransaction tx now fence (joinLeaseTx sc ow t now) db = (Inr l, db')"
    using assms by (auto simp: JoinLease_def split: sum.splits)
  from w have "joinLeaseTx sc ow t now db = Inr (l, db')" by (cases rule: writeTransaction_cases) auto
  then have "ls_Scope l = sc" unfolding joinLeaseTx_Inr using readLease_row by auto
  with ttlSeconds_bounds [OF v] show ?thesis by simp
qed

lemma RenewLease_same:
  assumes "RenewLease tx now fence l ttl db = (Inr l', db')"
  shows "ls_Scope l' = trim_space (ls_Scope l) \<and> ls_Generation l' = ls_Generation l \<and> ls_Token l' = ls_Token l"
proof -
  obtain sc ow t where v: "validateLeaseInput (ls_Scope l) (ls_Owner l) ttl = Inr (sc, ow, t)"
    and w: "writeTransaction tx now fence (renewLeaseTx sc ow l t now) db = (Inr l', db')"
    using assms by (auto simp: RenewLease_def split: sum.splits prod.splits if_splits)
  from w have "renewLeaseTx sc ow l t now db = Inr (l', db')" by (cases rule: writeTransaction_cases) auto
  then have "ls_Scope l' = sc \<and> ls_Generation l' = ls_Generation l \<and> ls_Token l' = ls_Token l"
    unfolding renewLeaseTx_Inr using readLease_row by auto
  with ttlSeconds_bounds [OF v] show ?thesis by simp
qed

text \<open>Whatever the heartbeat does, the worker lease it ends with is the one it began with.\<close>

lemma heartbeat_worker:
  "heartbeat controlplaneStore ttl fence r w ticks db = (res, db') \<Longrightarrow> hr_err res = None \<Longrightarrow>
   trim_space (ls_Scope w) = ls_Scope w \<Longrightarrow>
   ls_Scope (hr_workerLease res) = ls_Scope w \<and> ls_Generation (hr_workerLease res) = ls_Generation w \<and>
   ls_Token (hr_workerLease res) = ls_Token w"
proof (induction controlplaneStore ttl fence r w ticks db rule: heartbeat.induct)
  case (2 ttl fence r w c1 c2 ticks db)
  then show ?case
    by (auto simp: controlplaneStore_def split: prod.splits sum.splits dest!: RenewLease_same)
qed auto

lemma ReleaseLease_Inr:
  assumes "ReleaseLease tx now fence l db = (Inr u, db')"
  shows "\<exists>c. readLease db (trim_space (ls_Scope l)) = Inr (Some c) \<and> ls_Generation c = ls_Generation l \<and>
           db' = writeLease (released now c) db \<and> validateWriteFence now fence db = None"
proof -
  obtain sc ow t where v: "validateLeaseInput (ls_Scope l) (ls_Owner l) minLeaseTTL = Inr (sc, ow, t)"
    and w: "writeTransaction tx now fence (releaseLeaseTx sc ow l now) db = (Inr u, db')"
    using assms by (auto simp: ReleaseLease_def split: sum.splits prod.splits if_splits)
  have "sc = trim_space (ls_Scope l)" using ttlSeconds_bounds [OF v] by simp
  moreover from w have "releaseLeaseTx sc ow l now db = Inr (u, db')" "validateWriteFence now fence db = None"
    by (cases rule: writeTransaction_cases; simp)+
  ultimately show ?thesis unfolding releaseLeaseTx_Inr by blast
qed

section \<open>Properties\<close>

text \<open>
  C24: a punctual heartbeat never loses ownership. With any accepted configuration, as long as
  other processes leave the two rows alone, the database works, and every tick finishes within
  the renewal interval plus one and a half seconds of the start of the previous one, the
  heartbeat reports no error, however long it runs. At the end both rows, of the runtime lease and
  of the worker lease, still carry the generation, token and owner they were taken with, and expire
  no earlier than \<open>t\<close> seconds (the configured time to live) after they were renewed in the last
  tick.
\<close>

theorem heartbeat_never_loses:
  assumes "normalizeAndValidate raw = Inr config"
    and "\<forall>f \<in> set fence. same_lease f r \<or> same_lease f w" "ls_Scope r \<noteq> ls_Scope w"
    and "validateLeaseInput (ls_Scope r) (ls_Owner r) (cf_TTL config) = Inr (ls_Scope r, ls_Owner r, t)"
    and "validateLeaseInput (ls_Scope w) (ls_Owner w) (cf_TTL config) = Inr (ls_Scope w, ls_Owner w, t)"
    and "map (\<lambda>(c1, c2). (cl_now c1, cl_now c2)) ticks = map (\<lambda>(t1, t2). (t1 div second, t2 div second)) ts"
    and "\<forall>(c1, c2) \<in> set ticks. \<forall>c \<in> {c1, c2}. cl_tx c = TxOK \<and> env_keeps (cl_env c) r \<and> env_keeps (cl_env c) w"
    and "punctual (cf_RenewInterval config + 1500000000) start start ts" "second \<le> start"
    and "\<forall>(t1, t2) \<in> set ts. t2 div second + 300 < 2 ^ 63"
    and "holds db r (start div second) (start div second + t)" "holds db w (start div second) (start div second + t)"
  shows "\<exists>w' db'. heartbeat controlplaneStore (cf_TTL config) fence r w ticks db =
             (\<lparr>hr_workerLease = w', hr_err = None\<rparr>, db') \<and> same_lease w' w \<and>
           holds db' r (start div second) (fst (last ((start, start) # ts)) div second + t) \<and>
           holds db' w (start div second) (snd (last ((start, start) # ts)) div second + t)"
proof (rule cpRenew.heartbeat_alive [OF _ assms(2-5) _ _ assms(6-8)])
  show "so_RenewLease controlplaneStore = RenewLease" by (simp add: controlplaneStore_def)
  show "cf_TTL config \<le> t * second" by (rule ttlSeconds_ge [OF assms(4)])
  show "cf_RenewInterval config + 1500000000 + second \<le> cf_TTL config"
    using normalizeAndValidate_Inr [OF assms(1)] by (simp add: second_def)
qed (use assms in auto)

text \<open>
  C25: what a run leaves behind. If \<open>Run\<close> reports no error, the operation was started, under
  a fence of the joined runtime lease and a worker lease of the configured scope, and was not
  cancelled; the worker lease is released, so its row has no token and is expired at the time of
  the release; and the runtime lease, which other workers may share, is still in force with its
  token. If the operation was not started, \<open>Run\<close> reports an error.
\<close>

theorem Run_clean:
  assumes "Run controlplaneStore raw joinCall takeCall newToken ticks operationError releaseCall [] db = out"
  shows "(\<not> ro_started out \<longrightarrow> ro_errors out \<noteq> []) \<and>
     (ro_errors out = [] \<longrightarrow> ro_started out \<and> \<not> ro_cancelled out \<and> operationError = None \<and>
        (\<exists>r w c rt. ro_fence out = [r, w] \<and> ls_Scope r = trim_space RuntimeScope \<and>
           ls_Scope w = trim_space (cf_WorkerScope raw) \<and>
           map_of (ro_db out) (leaseStatePrefix @ ls_Scope w) = Some (Some c) \<and>
           ls_Generation c = ls_Generation w \<and> ls_Token c = [] \<and> ls_ExpiresAt c = cl_now releaseCall \<and>
           map_of (ro_db out) (leaseStatePrefix @ ls_Scope r) = Some (Some rt) \<and>
           ls_Token rt = ls_Token r \<and> ls_Token r \<noteq> [] \<and> cl_now releaseCall < ls_ExpiresAt rt))"
proof (cases "ro_errors out = []")
  case False
  then show ?thesis by simp
next
  case True
  obtain config where cf: "normalizeAndValidate raw = Inr config"
    using assms True by (auto simp: Run_def runFailed_def split: sum.splits)
  have wsc: "cf_WorkerScope config = trim_space (cf_WorkerScope raw)"
    using cf by (auto simp: normalizeAndValidate_def Let_def split: if_splits)
  obtain r db1 w db2 fence where j: "JoinLease (cl_tx joinCall) (cl_now joinCall) [] RuntimeScope
      (cf_RuntimeOwner config) (cf_TTL config) (cl_env joinCall db) = (Inr r, db1)"
    and t: "TakeLease (cl_tx takeCall) (cl_now takeCall) [] newToken (cf_WorkerScope config)
      (cf_WorkerOwner config) (cf_TTL config) (cl_env takeCall db1) = (Inr w, db2)"
    and i: "InstallWriteFence r w [] = (None, fence)"
    and o: "out = runOperation controlplaneStore config fence r w ticks operationError releaseCall db2"
    using assms True
    by (auto simp: Run_def cf runFailed_def releaseErrors_def controlplaneStore_def
        split: prod.splits sum.splits option.splits)
  have fence: "fence = [r, w]" "ls_Scope r \<noteq> ls_Scope w" "ls_Token r \<noteq> []"
    using i by (auto simp: InstallWriteFence_def split: if_splits)
  have rs: "ls_Scope r = trim_space RuntimeScope" by (rule JoinLease_scope [OF j])
  have ws: "ls_Scope w = trim_space (cf_WorkerScope raw)" using TakeLease_untouched [OF t] wsc by simp
  obtain res db3 where h: "heartbeat controlplaneStore (cf_TTL config) fence r w ticks db2 = (res, db3)" by fastforce
  have ok: "hr_err res = None" "operationError = None"
    using o True h by (auto simp: runOperation_def releaseErrors_def Let_def split: option.splits prod.splits)
  then obtain db4 where rel: "ReleaseLease (cl_tx releaseCall) (cl_now releaseCall) fence (hr_workerLease res)
      (cl_env releaseCall db3) = (Inr (), db4)" and out: "ro_db out = db4" "ro_fence out = fence" "ro_started out" "\<not> ro_cancelled out"
    using o True h by (auto simp: runOperation_def releaseErrors_def controlplaneStore_def split: prod.splits sum.splits)
  let ?db = "cl_env releaseCall db3"
  have hw: "ls_Scope (hr_workerLease res) = ls_Scope w" "ls_Generation (hr_workerLease res) = ls_Generation w"
    using heartbeat_worker [OF h ok(1)] ws by simp_all
  obtain c where c: "readLease ?db (ls_Scope w) = Inr (Some c)" "ls_Generation c = ls_Generation w"
    "db4 = writeLease (released (cl_now releaseCall) c) ?db" "validateWriteFence (cl_now releaseCall) fence ?db = None"
    using ReleaseLease_Inr [OF rel] hw ws by auto
  obtain rt where rt: "map_of ?db (leaseStatePrefix @ ls_Scope r) = Some (Some rt)" "ls_Token rt = ls_Token r"
    "cl_now releaseCall < ls_ExpiresAt rt"
    using validateFence_current [of "cl_now releaseCall" ?db fence r] c(4) fence(1)
    by (auto simp: validateWriteFence_def)
  have sc: "ls_Scope c = ls_Scope w" using readLease_row [OF c(1)] by simp
  have "map_of db4 (leaseStatePrefix @ ls_Scope w) = Some (Some (released (cl_now releaseCall) c))"
    "map_of db4 (leaseStatePrefix @ ls_Scope r) = Some (Some rt)"
    using c(3) sc rt(1) fence(2) by (simp_all add: writeLease_def)
  with True out fence rs ws rt c ok show ?thesis by (auto simp: released_def)
qed

definition sample_config :: Config where
  "sample_config =
     \<lparr>cf_RuntimeOwner = ''o'', cf_WorkerScope = ''w'', cf_WorkerOwner = ''o'', cf_TTL = 30 * second,
      cf_RenewInterval = 10 * second, cf_ReleaseWait = 5 * second\<rparr>"

definition sample_call :: "int64 \<Rightarrow> store_call" where
  "sample_call now = \<lparr>cl_env = id, cl_tx = TxOK, cl_now = now\<rparr>"

theorem heartbeat_never_loses_witness:
  "\<exists>w' db'. heartbeat controlplaneStore (30 * second)
       [sample_lease ''rt'' 1 ''a'' 10 10 40, sample_lease ''w'' 1 ''b'' 10 10 40]
       (sample_lease ''rt'' 1 ''a'' 10 10 40) (sample_lease ''w'' 1 ''b'' 10 10 40)
       [(sample_call 20, sample_call 20), (sample_call 31, sample_call 31)]
       (sample_rows (sample_lease ''rt'' 1 ''a'' 10 10 40) (sample_lease ''w'' 1 ''b'' 10 10 40)) =
     (\<lparr>hr_workerLease = w', hr_err = None\<rparr>, db') \<and>
   holds db' (sample_lease ''rt'' 1 ''a'' 10 10 40) 10 61 \<and> holds db' (sample_lease ''w'' 1 ''b'' 10 10 40) 10 61"
proof -
  let ?r = "sample_lease ''rt'' 1 ''a'' 10 10 40" and ?w = "sample_lease ''w'' 1 ''b'' 10 10 40"
  have c: "normalizeAndValidate sample_config = Inr sample_config" by code_simp
  have v: "validateLeaseInput (ls_Scope ?r) (ls_Owner ?r) (cf_TTL sample_config) = Inr (ls_Scope ?r, ls_Owner ?r, 30)"
    "validateLeaseInput (ls_Scope ?w) (ls_Owner ?w) (cf_TTL sample_config) = Inr (ls_Scope ?w, ls_Owner ?w, 30)"
    by code_simp+
  have rd: "readLease (sample_rows ?r ?w) (ls_Scope ?r) = Inr (Some ?r)"
    "readLease (sample_rows ?r ?w) (ls_Scope ?w) = Inr (Some ?w)" by code_simp+
  have h: "holds (sample_rows ?r ?w) ?r 10 40" "holds (sample_rows ?r ?w) ?w 10 40"
    unfolding holds_def rd by (simp_all add: sample_lease_def)
  have p: "punctual (cf_RenewInterval sample_config + 1500000000) (10 * second) (10 * second)
      [(20 * second, 20 * second), (31 * second, 31 * second)]" by code_simp
  have ttl: "cf_TTL sample_config = 30 * second" by (simp add: sample_config_def)
  have s10: "10 * second div second = 10" "second \<le> 10 * second" by (simp_all add: second_def)
  show ?thesis
    using heartbeat_never_loses [OF c, of "[?r, ?w]" ?r ?w 30
        "[(sample_call 20, sample_call 20), (sample_call 31, sample_call 31)]"
        "[(20 * second, 20 * second), (31 * second, 31 * second)]" "10 * second" "sample_rows ?r ?w"] v h p
    unfolding ttl s10
    by (auto simp: sample_call_def env_keeps_def second_def) (auto simp: sample_lease_def)
qed

definition sample_run_db :: lease_rows where
  "sample_run_db = [(''ownership_lease:runtime-writer'', Some (sample_lease ''runtime-writer'' 1 ''a'' 10 10 40))]"

definition sample_out :: run_outcome where
  "sample_out =
     Run controlplaneStore sample_config (sample_call 11) (sample_call 11) (Some ''b'')
       [(sample_call 20, sample_call 20)] None (sample_call 25) [] sample_run_db"

theorem Run_clean_witness:
  "ro_errors sample_out = [] \<and> ro_started sample_out \<and>
   (\<exists>c. map_of (ro_db sample_out) ''ownership_lease:w'' = Some (Some c) \<and> ls_Token c = [])"
proof -
  have e: "ro_errors sample_out = []" by code_simp
  have w: "trim_space (cf_WorkerScope sample_config) = ''w''" by code_simp
  from Run_clean [OF sample_out_def [symmetric]] e
  have "ro_started sample_out \<and>
    (\<exists>c. map_of (ro_db sample_out) (leaseStatePrefix @ ''w'') = Some (Some c) \<and> ls_Token c = [])"
    unfolding w by force
  with e show ?thesis by (simp add: leaseStatePrefix_def)
qed

end
