(* ===== verification/Edge.thy ===== *)
theory Edge
  imports Gateway_Server
begin

text \<open>
  \<open>internal/edge/selection.go\<close> and \<open>server.go\<close>: the blue/green edge in front of the two gateway
  slots and the web server. The file system is an argument (\<open>selfile\<close>, what opening the
  selection file gave), the watch loop runs over explicit events, and a handler's outcome is a
  reply or the upstream it hands the request to. \<open>url.Parse\<close> and \<open>net.SplitHostPort\<close> are
  parameters. The edge's requests extend the gateway's.
\<close>

section \<open>Definitions\<close>

subsection \<open>The selection file\<close>

definition Blue :: string where "Blue = ''blue''"

definition Green :: string where "Green = ''green''"

datatype selection_error =
    SelectionReadError
  | SelectionTooLong
  | NotOneDirective
  | UnsafeDirective
  | SelectionOpenError
  | SelectionStatError
  | NotRegularFile
  | SelectionPathRequired
  | RefreshIntervalInvalid

text \<open>The class \<open>\\s\<close> of the pattern: tab, line feed, form feed, carriage return, space.\<close>

definition s_space :: "char \<Rightarrow> bool" where
  "s_space c \<longleftrightarrow> byte c \<in> {9, 10, 12, 13, 32}"

definition after_literal :: "string \<Rightarrow> string \<Rightarrow> string option" where
  "after_literal lit s = (if has_prefix lit s then Some (drop (length lit) s) else None)"

definition after_spaces :: "string \<Rightarrow> string option" where
  "after_spaces s = (if takeWhile s_space s = [] then None else Some (dropWhile s_space s))"

definition directiveSlot :: "string \<Rightarrow> string option" where
  "directiveSlot t =
     (if t = ''gateway-blue:8317;'' then Some Blue
      else if t = ''gateway-green:8317;'' then Some Green else None)"

definition activeGatewayDirective :: "string \<Rightarrow> string option" where
  "activeGatewayDirective s =
     Option.bind (after_literal ''set'' s) (\<lambda>s1. Option.bind (after_spaces s1) (\<lambda>s2.
     Option.bind (after_literal ''$active_gateway_backend'' s2) (\<lambda>s3. Option.bind (after_spaces s3) directiveSlot)))"

definition directiveLines :: "string \<Rightarrow> string list" where
  "directiveLines raw =
     filter (\<lambda>line. \<not> (line = [] \<or> has_prefix ''#'' line)) (map trim_space (split_on (CHR 0x0A) raw))"

datatype content = ReadFails | Content string

definition ParseSelection :: "content \<Rightarrow> selection_error + string" where
  "ParseSelection r =
     (case r of
        ReadFails \<Rightarrow> Inl SelectionReadError
      | Content text \<Rightarrow>
          if length text > 4 * 1024 then Inl SelectionTooLong
          else (case directiveLines text of
                  [directive] \<Rightarrow>
                    (case activeGatewayDirective directive of
                       None \<Rightarrow> Inl UnsafeDirective
                     | Some slot \<Rightarrow> Inr slot)
                | _ \<Rightarrow> Inl NotOneDirective))"

datatype selfile = CannotOpen | CannotStat | NotRegular | Regular content

definition ReadSelection :: "selfile \<Rightarrow> selection_error + string" where
  "ReadSelection f =
     (case f of
        CannotOpen \<Rightarrow> Inl SelectionOpenError
      | CannotStat \<Rightarrow> Inl SelectionStatError
      | NotRegular \<Rightarrow> Inl NotRegularFile
      | Regular r \<Rightarrow> ParseSelection r)"

subsection \<open>The selector\<close>

record Selector =
  sl_path :: string
  sl_refreshInterval :: int64
  sl_slot :: string

definition NewSelector :: "(string \<Rightarrow> string) \<Rightarrow> string \<Rightarrow> int64 \<Rightarrow> selfile \<Rightarrow> selection_error + Selector" where
  "NewSelector absPath rawPath refreshInterval f =
     (if trim_space rawPath = [] then Inl SelectionPathRequired
      else if refreshInterval \<le> 0 then Inl RefreshIntervalInvalid
      else (case ReadSelection f of
              Inl e \<Rightarrow> Inl e
            | Inr slot \<Rightarrow> Inr \<lparr>sl_path = absPath (trim_space rawPath), sl_refreshInterval = refreshInterval,
                               sl_slot = slot\<rparr>))"

definition selectorRefresh :: "selfile \<Rightarrow> Selector \<Rightarrow> (selection_error + bool) \<times> Selector" where
  "selectorRefresh f sel =
     (case ReadSelection f of
        Inl e \<Rightarrow> (Inl e, sel)
      | Inr slot \<Rightarrow>
          if sl_slot sel = slot then (Inr False, sel)
          else (Inr True, sel\<lparr>sl_slot := slot\<rparr>))"

datatype selector_event =
    SelDone
  | SelFileEvent string selfile
  | SelEventsClosed
  | SelWatchError
  | SelErrorsClosed
  | SelTick selfile

text \<open>The loop of \<open>Run\<close>; the flag tells a clean end. A refresh error keeps the slot.\<close>

fun selectorLoop :: "(string \<Rightarrow> string) \<Rightarrow> Selector \<Rightarrow> selector_event list \<Rightarrow> Selector \<times> bool" where
  "selectorLoop clean sel [] = (sel, True)"
| "selectorLoop clean sel (SelDone # es) = (sel, True)"
| "selectorLoop clean sel (SelFileEvent name f # es) =
     selectorLoop clean (if clean name = clean (sl_path sel) then snd (selectorRefresh f sel) else sel) es"
| "selectorLoop clean sel (SelEventsClosed # es) = (sel, False)"
| "selectorLoop clean sel (SelWatchError # es) = selectorLoop clean sel es"
| "selectorLoop clean sel (SelErrorsClosed # es) = (sel, False)"
| "selectorLoop clean sel (SelTick f # es) = selectorLoop clean (snd (selectorRefresh f sel)) es"

definition selectorRun ::
  "(string \<Rightarrow> string) \<Rightarrow> bool \<Rightarrow> selfile \<Rightarrow> Selector \<Rightarrow> selector_event list \<Rightarrow> Selector \<times> bool" where
  "selectorRun clean watching f sel es =
     (if \<not> watching then (sel, False) else selectorLoop clean (snd (selectorRefresh f sel)) es)"

subsection \<open>The server\<close>

definition DefaultMaxBodyBytes :: int64 where
  "DefaultMaxBodyBytes = 100 * 1024 * 1024"

record target =
  tg_Scheme :: string
  tg_Host :: string
  tg_HasUser :: bool
  tg_RawQuery :: string
  tg_Fragment :: string
  tg_Path :: string

definition parseTarget :: "(string \<Rightarrow> target option) \<Rightarrow> string \<Rightarrow> target option" where
  "parseTarget urlParse raw =
     (case urlParse (trim_space raw) of
        None \<Rightarrow> None
      | Some t \<Rightarrow>
          if tg_Scheme t \<noteq> ''http'' \<or> tg_Host t = [] \<or> tg_HasUser t \<or> tg_RawQuery t \<noteq> [] \<or>
             tg_Fragment t \<noteq> [] \<or> (tg_Path t \<noteq> [] \<and> tg_Path t \<noteq> ''/'')
          then None else Some (t\<lparr>tg_Path := []\<rparr>))"

record ServerConfig =
  sv_WebTarget :: string
  sv_BluePublicTarget :: string
  sv_BlueInternalTarget :: string
  sv_GreenPublicTarget :: string
  sv_GreenInternalTarget :: string
  sv_MaxBodyBytes :: int64

record slotProxies =
  sp_public :: target
  sp_internal :: target

record Server =
  es_selector :: Selector
  es_maxBodyBytes :: int64
  es_web :: target
  es_gateways :: "(string, slotProxies) gomap"

definition NewServer ::
  "(string \<Rightarrow> target option) \<Rightarrow> ServerConfig \<Rightarrow> Selector \<Rightarrow> string + Server" where
  "NewServer urlParse config sel =
     (case parseTarget urlParse (sv_WebTarget config) of
        None \<Rightarrow> Inl ''Web''
      | Some webTarget \<Rightarrow>
     (case parseTarget urlParse (sv_BluePublicTarget config) of
        None \<Rightarrow> Inl ''blue public Gateway''
      | Some bluePublic \<Rightarrow>
     (case parseTarget urlParse (sv_BlueInternalTarget config) of
        None \<Rightarrow> Inl ''blue internal Gateway''
      | Some blueInternal \<Rightarrow>
     (case parseTarget urlParse (sv_GreenPublicTarget config) of
        None \<Rightarrow> Inl ''green public Gateway''
      | Some greenPublic \<Rightarrow>
     (case parseTarget urlParse (sv_GreenInternalTarget config) of
        None \<Rightarrow> Inl ''green internal Gateway''
      | Some greenInternal \<Rightarrow>
          Inr \<lparr>es_selector = sel,
               es_maxBodyBytes = (if sv_MaxBodyBytes config \<le> 0 then DefaultMaxBodyBytes
                                  else sv_MaxBodyBytes config),
               es_web = webTarget,
               es_gateways = [(Blue, \<lparr>sp_public = bluePublic, sp_internal = blueInternal\<rparr>),
                              (Green, \<lparr>sp_public = greenPublic, sp_internal = greenInternal\<rparr>)]\<rparr>)))))"

record edge_request = request +
  eq_ContentLength :: int64
  eq_RemoteAddr :: string
  eq_TLS :: bool

datatype edge_outcome =
    EdgeReply reply
  | ToWeb target edge_request
  | ToPublicGateway target edge_request
  | ToInternalGateway target edge_request

definition requestIP :: "(string \<Rightarrow> string option) \<Rightarrow> string \<Rightarrow> string" where
  "requestIP splitHost remoteAddress =
     (case splitHost (trim_space remoteAddress) of
        Some host \<Rightarrow> host
      | None \<Rightarrow> trim_space remoteAddress)"

text \<open>
  The director of \<open>newProxy\<close>: scheme and host of the target, the client's \<open>Host\<close>, the address
  and the protocol headers. \<open>NewSingleHostReverseProxy\<close> leaves the path alone when the target has
  none.
\<close>

definition edgeDirector :: "(string \<Rightarrow> string option) \<Rightarrow> target \<Rightarrow> edge_request \<Rightarrow> edge_request" where
  "edgeDirector splitHost t r =
     (let h = AList.update ''X-Real-IP'' (requestIP splitHost (eq_RemoteAddr r)) (rq_Header r)
      in r\<lparr>rq_URLScheme := tg_Scheme t, rq_URLHost := tg_Host t,
           rq_Header :=
             (if trim_space (gstring h ''X-Forwarded-Proto'') = []
              then AList.update ''X-Forwarded-Proto'' (if eq_TLS r then ''https'' else ''http'') h else h)\<rparr>)"

definition isWebPath :: "string \<Rightarrow> bool" where
  "isWebPath path \<longleftrightarrow>
     path \<in> {''/'', ''/official-management'', ''/native'', ''/my-keys'', ''/admin'', ''/usage'',
             ''/healthz'', ''/usage/api'', ''/site-config.json'', ''/branding/logo''} \<or>
     list_ex (\<lambda>prefix. has_prefix prefix path)
       [''/native/'', ''/my-keys/'', ''/admin/'', ''/usage/'', ''/portal/'']"

definition edgeStatus :: "int \<Rightarrow> body \<Rightarrow> edge_outcome" where
  "edgeStatus status b = EdgeReply \<lparr>rp_Status = status, rp_Header = [], rp_Body = b\<rparr>"

definition proxyPublicGateway :: "(string \<Rightarrow> string option) \<Rightarrow> Server \<Rightarrow> edge_request \<Rightarrow> edge_outcome" where
  "proxyPublicGateway sh srv r =
     (case map_of (es_gateways srv) (sl_slot (es_selector srv)) of
        None \<Rightarrow> edgeStatus 503 (Text (line ''Service Unavailable''))
      | Some p \<Rightarrow> ToPublicGateway (sp_public p) (edgeDirector sh (sp_public p) r))"


definition proxyPublicRoute :: "(string \<Rightarrow> string option) \<Rightarrow> Server \<Rightarrow> edge_request \<Rightarrow> edge_outcome" where
  "proxyPublicRoute sh srv r =
     (if isWebPath (rq_Path r) then ToWeb (es_web srv) (edgeDirector sh (es_web srv) r)
      else proxyPublicGateway sh srv r)"



text \<open>The methods gin registers for \<open>Any\<close>; other methods reach the \<open>NoRoute\<close> handler.\<close>

definition anyMethods :: "string list" where
  "anyMethods = [''GET'', ''POST'', ''PUT'', ''PATCH'', ''HEAD'', ''OPTIONS'', ''DELETE'', ''CONNECT'', ''TRACE'']"

definition tooLarge :: "Server \<Rightarrow> edge_request \<Rightarrow> bool" where
  "tooLarge srv r \<longleftrightarrow> eq_ContentLength r > es_maxBodyBytes srv"

definition edgePublic :: "(string \<Rightarrow> string option) \<Rightarrow> Server \<Rightarrow> edge_request \<Rightarrow> edge_outcome" where
  "edgePublic sh srv r =
     (if tooLarge srv r then edgeStatus 413 NoBody
      else if rq_Method r \<in> set anyMethods \<and> rq_Path r = ''/__health'' then proxyPublicGateway sh srv r
      else if rq_Method r \<in> set anyMethods \<and>
              (rq_Path r = ''/__stats'' \<or> has_prefix ''/__internal/'' (rq_Path r))
      then edgeStatus 404 NoBody
      else proxyPublicRoute sh srv r)"


text \<open>The error handler of a proxy: 413 for a body cut at the limit, 502 otherwise.\<close>

definition edgeProxyError :: "bool \<Rightarrow> edge_outcome" where
  "edgeProxyError bodyTooLarge =
     (if bodyTooLarge then edgeStatus 413 NoBody
      else EdgeReply \<lparr>rp_Status = 502, rp_Header = [(''Content-Type'', ''text/plain; charset=utf-8'')],
                      rp_Body = Text (line ''Bad Gateway'')\<rparr>)"

text \<open>
  The public side of the edge with the selected gateway behind it, each of its targets served by
  its own handler: what a client gets out of the two together. What is handed to the web service is
  not answered by the gateway.
\<close>

definition edgeThenGateway ::
  "(string \<Rightarrow> string option) \<Rightarrow> (int64 \<Rightarrow> string) \<Rightarrow> int64 \<Rightarrow> Server \<Rightarrow> edge_request \<Rightarrow> HTTPGateway \<Rightarrow>
   HTTPGateway \<times> outcome option" where
  "edgeThenGateway sh fmt now srv r gw =
     (case edgePublic sh srv r of
        ToPublicGateway t r' \<Rightarrow> map_prod id Some (PublicHandler fmt now (request.truncate r') gw)
      | ToInternalGateway t r' \<Rightarrow> map_prod id Some (InternalHandler fmt now (request.truncate r') gw)
      | EdgeReply p \<Rightarrow> (gw, Some (Reply p))
      | ToWeb t r' \<Rightarrow> (gw, None))"

text \<open>The files the loop read, in order, and the slot of the last one that was valid.\<close>

fun selectorReads :: "(string \<Rightarrow> string) \<Rightarrow> string \<Rightarrow> selector_event list \<Rightarrow> selfile list" where
  "selectorReads clean path [] = []"
| "selectorReads clean path (e # es) =
     (case e of
        SelDone \<Rightarrow> []
      | SelEventsClosed \<Rightarrow> []
      | SelErrorsClosed \<Rightarrow> []
      | SelWatchError \<Rightarrow> selectorReads clean path es
      | SelFileEvent name f \<Rightarrow>
          (if clean name = clean path then f # selectorReads clean path es else selectorReads clean path es)
      | SelTick f \<Rightarrow> f # selectorReads clean path es)"

definition lastSlot :: "string \<Rightarrow> selfile list \<Rightarrow> string" where
  "lastSlot slot files =
     fold (\<lambda>f current. case ReadSelection f of Inl _ \<Rightarrow> current | Inr slot \<Rightarrow> slot) files slot"

section \<open>Lemmas\<close>

lemma after_literal_Some: "after_literal lit s = Some t \<longleftrightarrow> s = lit @ t"
  by (auto simp: after_literal_def has_prefix_iff split: if_splits)

lemma after_spaces_Some:
  "after_spaces s = Some t \<longleftrightarrow> (\<exists>g. g \<noteq> [] \<and> list_all s_space g \<and> s = g @ t \<and> (t = [] \<or> \<not> s_space (hd t)))"
proof
  assume "after_spaces s = Some t"
  then have "takeWhile s_space s \<noteq> []" "t = dropWhile s_space s"
    by (auto simp: after_spaces_def split: if_splits)
  then show "\<exists>g. g \<noteq> [] \<and> list_all s_space g \<and> s = g @ t \<and> (t = [] \<or> \<not> s_space (hd t))"
    using hd_dropWhile [of s_space s]
    by (intro exI [of _ "takeWhile s_space s"] conjI) (auto simp: list_all_iff dest: set_takeWhileD)
next
  assume "\<exists>g. g \<noteq> [] \<and> list_all s_space g \<and> s = g @ t \<and> (t = [] \<or> \<not> s_space (hd t))"
  then obtain g where g: "g \<noteq> []" "\<forall>c \<in> set g. s_space c" "s = g @ t" "t = [] \<or> \<not> s_space (hd t)"
    by (auto simp: list_all_iff)
  with dropWhile_takeWhile_exact [OF g(2,4)] show "after_spaces s = Some t"
    by (simp add: after_spaces_def)
qed

lemma two_gaps:
  assumes "b \<noteq> []" "\<not> s_space (hd b)" "\<And>t. f t = Some r \<Longrightarrow> t \<noteq> [] \<and> \<not> s_space (hd t)"
  shows "Option.bind (after_literal a s) (\<lambda>s1. Option.bind (after_spaces s1) (\<lambda>s2.
      Option.bind (after_literal b s2) (\<lambda>s3. Option.bind (after_spaces s3) f))) = Some r \<longleftrightarrow>
    (\<exists>g1 g2 t. g1 \<noteq> [] \<and> list_all s_space g1 \<and> g2 \<noteq> [] \<and> list_all s_space g2 \<and>
       s = a @ g1 @ b @ g2 @ t \<and> f t = Some r)"
proof -
  have "hd (b @ x) = hd b" "b @ x \<noteq> []" for x using assms(1) by simp_all
  then show ?thesis
    unfolding bind_eq_Some_conv after_literal_Some after_spaces_Some using assms(2,3) by fastforce
qed

lemma directiveSlot_Some:
  "directiveSlot t = Some slot \<longleftrightarrow> slot \<in> {Blue, Green} \<and> t = ''gateway-'' @ slot @ '':8317;''"
  by (auto simp: directiveSlot_def Blue_def Green_def)

lemma activeGatewayDirective_iff:
  "activeGatewayDirective s = Some slot \<longleftrightarrow> slot \<in> {Blue, Green} \<and>
     (\<exists>g1 g2. g1 \<noteq> [] \<and> list_all s_space g1 \<and> g2 \<noteq> [] \<and> list_all s_space g2 \<and>
        s = ''set'' @ g1 @ ''$active_gateway_backend'' @ g2 @ ''gateway-'' @ slot @ '':8317;'')"
proof -
  have d: "\<not> s_space (hd ''$active_gateway_backend'')" "''$active_gateway_backend'' \<noteq> []"
    by (simp_all add: s_space_def byte_def)
  have t: "t \<noteq> [] \<and> \<not> s_space (hd t)" if "directiveSlot t = Some slot" for t
    using that by (auto simp: directiveSlot_Some s_space_def byte_def)
  have "activeGatewayDirective s = Some slot \<longleftrightarrow>
      (\<exists>g1 g2 t. g1 \<noteq> [] \<and> list_all s_space g1 \<and> g2 \<noteq> [] \<and> list_all s_space g2 \<and>
         s = ''set'' @ g1 @ ''$active_gateway_backend'' @ g2 @ t \<and> directiveSlot t = Some slot)"
    unfolding activeGatewayDirective_def by (rule two_gaps [OF d(2,1) t])
  then show ?thesis unfolding directiveSlot_Some by blast
qed

lemma ParseSelection_slot: "ParseSelection r = Inr slot \<Longrightarrow> slot \<in> {Blue, Green}"
  unfolding ParseSelection_def
  by (auto split: content.splits if_splits list.splits option.splits simp: activeGatewayDirective_iff)

lemma ReadSelection_slot: "ReadSelection f = Inr slot \<Longrightarrow> slot \<in> {Blue, Green}"
  by (auto simp: ReadSelection_def split: selfile.splits dest: ParseSelection_slot)

lemma selectorRefresh_sel:
  "snd (selectorRefresh f sel) = sel\<lparr>sl_slot := lastSlot (sl_slot sel) [f]\<rparr>"
  by (auto simp: selectorRefresh_def lastSlot_def split: sum.splits)

lemma lastSlot_Cons: "lastSlot slot (f # fs) = lastSlot (lastSlot slot [f]) fs"
  by (simp add: lastSlot_def)

lemma lastSlot_valid: "slot \<in> {Blue, Green} \<Longrightarrow> lastSlot slot fs \<in> {Blue, Green}"
proof (induction fs arbitrary: slot)
  case (Cons f fs)
  have "lastSlot slot [f] \<in> {Blue, Green}"
    using Cons.prems ReadSelection_slot [of f] by (auto simp: lastSlot_def split: sum.splits)
  with Cons.IH show ?case by (subst lastSlot_Cons) blast
qed (simp add: lastSlot_def)

lemma selectorLoop_refines:
  "fst (selectorLoop clean sel es) = sel\<lparr>sl_slot := lastSlot (sl_slot sel) (selectorReads clean (sl_path sel) es)\<rparr>"
proof (induction clean sel es rule: selectorLoop.induct)
  case (3 clean sel name f es)
  then show ?case by (auto simp: selectorRefresh_sel lastSlot_Cons [of _ f "selectorReads _ _ _"])
next
  case (7 clean sel f es)
  then show ?case by (simp add: selectorRefresh_sel lastSlot_Cons [of _ f "selectorReads _ _ _"])
qed (simp_all add: lastSlot_def)




lemma PublicHandler_no_internals:
  "PublicHandler fmt now r gw = (gw', Reply p) \<Longrightarrow>
     (case rp_Body p of StatusBody _ \<Rightarrow> False | StatsBody _ \<Rightarrow> False | _ \<Rightarrow> True)"
  unfolding PublicHandler_def handlePublicRequest_def Let_def writeDecision_def recovered_def
  by (auto split: if_splits option.splits)

section \<open>Properties\<close>

text \<open>
  C29: the edge keeps the last valid slot. A selector that could be constructed always routes to
  blue or green: after any sequence of file events, ticks and watch errors its slot is the one of
  the last selection file that was valid among those it read, and the slot before it when none
  was; its path and interval never change.
\<close>

theorem selector_keeps_last_valid:
  assumes "NewSelector absPath rawPath interval first = Inr sel"
  shows "fst (selectorRun clean True file0 sel es) =
           sel\<lparr>sl_slot := lastSlot (sl_slot sel) (file0 # selectorReads clean (sl_path sel) es)\<rparr> \<and>
         sl_slot (fst (selectorRun clean True file0 sel es)) \<in> {Blue, Green} \<and>
         ReadSelection first = Inr (sl_slot sel)"
proof -
  from assms have f: "ReadSelection first = Inr (sl_slot sel)"
    by (auto simp: NewSelector_def split: if_splits sum.splits)
  have e: "fst (selectorRun clean True file0 sel es) =
      sel\<lparr>sl_slot := lastSlot (sl_slot sel) (file0 # selectorReads clean (sl_path sel) es)\<rparr>"
    by (simp add: selectorRun_def selectorLoop_refines selectorRefresh_sel)
       (subst (2) lastSlot_Cons, simp)
  show ?thesis unfolding e using f lastSlot_valid [OF ReadSelection_slot [OF f]] by simp
qed

text \<open>The file the deployment writes for a slot.\<close>

definition sample_selection :: "string \<Rightarrow> selfile" where
  "sample_selection slot =
     Regular (Content (line ''# active'' @ ''set $active_gateway_backend gateway-'' @ slot @ '':8317;''))"

theorem selector_keeps_last_valid_witness:
  "\<exists>sel. NewSelector id ''/run/active'' 1 (sample_selection Blue) = Inr sel \<and>
     sl_slot (fst (selectorRun id True (sample_selection Green) sel
       [SelTick CannotOpen, SelWatchError, SelFileEvent ''/run/active'' NotRegular])) = Green"
proof -
  let ?sel = "\<lparr>sl_path = ''/run/active'', sl_refreshInterval = 1, sl_slot = Blue\<rparr>"
  have n: "NewSelector id ''/run/active'' 1 (sample_selection Blue) = Inr ?sel" by code_simp
  have g: "lastSlot Blue [sample_selection Green, CannotOpen, NotRegular] = Green" by code_simp
  from selector_keeps_last_valid [OF n, of id "sample_selection Green"
      "[SelTick CannotOpen, SelWatchError, SelFileEvent ''/run/active'' NotRegular]"] g
  have "sl_slot (fst (selectorRun id True (sample_selection Green) ?sel
       [SelTick CannotOpen, SelWatchError, SelFileEvent ''/run/active'' NotRegular])) = Green"
    by simp
  with n show ?thesis by blast
qed


definition sample_urlParse :: "string \<Rightarrow> target option" where
  "sample_urlParse raw =
     Some \<lparr>tg_Scheme = ''http'', tg_Host = raw, tg_HasUser = False, tg_RawQuery = [], tg_Fragment = [],
           tg_Path = ''/''\<rparr>"

definition sample_edge_config :: ServerConfig where
  "sample_edge_config =
     \<lparr>sv_WebTarget = ''web'', sv_BluePublicTarget = ''bp'', sv_BlueInternalTarget = ''bi'',
      sv_GreenPublicTarget = ''gp'', sv_GreenInternalTarget = ''gi'', sv_MaxBodyBytes = 0\<rparr>"

definition sample_selector :: Selector where
  "sample_selector = \<lparr>sl_path = ''/run/active'', sl_refreshInterval = 1, sl_slot = Green\<rparr>"

definition sample_edge_request :: "string \<Rightarrow> edge_request" where
  "sample_edge_request path =
     \<lparr>rq_Method = ''POST'', rq_Path = path, rq_RawPath = [], rq_Host = ''pool'', rq_URLScheme = [],
      rq_URLHost = [], rq_Header = [], eq_ContentLength = 10, eq_RemoteAddr = ''1.2.3.4:5'', eq_TLS = True\<rparr>"


text \<open>
  C31: the internal endpoints stay inside. The public edge never hands a request to a gateway's
  internal listener: \<open>/__stats\<close> and everything under \<open>/__internal/\<close> is refused with 404 (413
  for an oversized body) and leaves the gateway as it was, for every method gin registers. And
  whatever the method, the path and the headers, a client of the public edge with the selected
  gateway behind it gets neither the snapshot status nor the in-flight statistics; if its request is
  let through to an account, it is on a public path; and only a web path leaves the gateway out.
\<close>

theorem internals_not_public:
  "(\<forall>t r'. edgePublic sh srv r \<noteq> ToInternalGateway t r') \<and>
   (rq_Method r \<in> set anyMethods \<and> (rq_Path r = ''/__stats'' \<or> has_prefix ''/__internal/'' (rq_Path r)) \<longrightarrow>
      (\<exists>p. edgeThenGateway sh fmt now srv r gw = (gw, Some (Reply p)) \<and> rp_Body p = NoBody \<and>
         rp_Status p = (if tooLarge srv r then 413 else 404))) \<and>
   (case snd (edgeThenGateway sh fmt now srv r gw) of
      None \<Rightarrow> isWebPath (rq_Path r)
    | Some (Reply p) \<Rightarrow> (case rp_Body p of StatusBody _ \<Rightarrow> False | StatsBody _ \<Rightarrow> False | _ \<Rightarrow> True)
    | Some (Forward up i) \<Rightarrow> public_path (rq_Path up))"
proof (intro conjI allI impI)
  show inside: "edgePublic sh srv r \<noteq> ToInternalGateway t r'" for t r'
    unfolding edgePublic_def proxyPublicRoute_def proxyPublicGateway_def edgeStatus_def by (simp split: option.splits)
  show "\<exists>p. edgeThenGateway sh fmt now srv r gw = (gw, Some (Reply p)) \<and> rp_Body p = NoBody \<and>
      rp_Status p = (if tooLarge srv r then 413 else 404)"
    if "rq_Method r \<in> set anyMethods \<and> (rq_Path r = ''/__stats'' \<or> has_prefix ''/__internal/'' (rq_Path r))"
    using that unfolding edgeThenGateway_def edgePublic_def edgeStatus_def by (auto simp: has_prefix_def)
  show "case snd (edgeThenGateway sh fmt now srv r gw) of
      None \<Rightarrow> isWebPath (rq_Path r)
    | Some (Reply p) \<Rightarrow> (case rp_Body p of StatusBody _ \<Rightarrow> False | StatsBody _ \<Rightarrow> False | _ \<Rightarrow> True)
    | Some (Forward up i) \<Rightarrow> public_path (rq_Path up)"
  proof (cases "edgePublic sh srv r")
    case (EdgeReply p)
    then have "case rp_Body p of StatusBody _ \<Rightarrow> False | StatsBody _ \<Rightarrow> False | _ \<Rightarrow> True"
      unfolding edgePublic_def proxyPublicRoute_def proxyPublicGateway_def edgeStatus_def
      by (auto split: if_splits option.splits)
    with EdgeReply show ?thesis by (simp add: edgeThenGateway_def)
  next
    case (ToPublicGateway t r')
    obtain gw' out where h: "PublicHandler fmt now (request.truncate r') gw = (gw', out)" by fastforce
    then have run: "snd (edgeThenGateway sh fmt now srv r gw) = Some out" by (simp add: edgeThenGateway_def ToPublicGateway)
    show ?thesis
    proof (cases out)
      case (Reply p)
      then show ?thesis unfolding run using PublicHandler_no_internals [OF h [unfolded Reply]] by simp
    next
      case (Forward up i)
      with h obtain hd' where "handlePublicRequest fmt hd' now (request.truncate r') gw = (gw', Forward up i)"
        by (auto simp: PublicHandler_def Let_def split: if_splits)
      then have "\<exists>p. NormalizePublicPath (rq_Path (request.truncate r')) = Some p \<and> rq_Path up = p"
        by (auto simp: handlePublicRequest_Forward proxyRequest_def)
      then show ?thesis unfolding run Forward NormalizePublicPath_Some by auto
    qed
  next
    case (ToWeb t r')
    then have "isWebPath (rq_Path r)"
      unfolding edgePublic_def proxyPublicRoute_def proxyPublicGateway_def edgeStatus_def by (auto split: if_splits option.splits)
    then show ?thesis by (simp add: edgeThenGateway_def ToWeb)
  qed (use inside in simp)
qed

theorem internals_not_public_witness:
  "\<exists>p. edgeThenGateway (\<lambda>_. None) (\<lambda>_. []) 0 (projr (NewServer sample_urlParse sample_edge_config sample_selector))
       (sample_edge_request ''/__stats'') (gs_gw gw_init) = (gs_gw gw_init, Some (Reply p)) \<and>
     rp_Body p = NoBody \<and> rp_Status p = 404"
proof -
  let ?srv = "projr (NewServer sample_urlParse sample_edge_config sample_selector)" and ?r = "sample_edge_request ''/__stats''"
  have "rq_Method ?r \<in> set anyMethods \<and> (rq_Path ?r = ''/__stats'' \<or> has_prefix ''/__internal/'' (rq_Path ?r))"
    by (simp add: sample_edge_request_def anyMethods_def)
  moreover have "\<not> tooLarge ?srv ?r" by code_simp
  ultimately show ?thesis
    using internals_not_public [of "\<lambda>_. None" ?srv ?r "\<lambda>_. []" 0 "gs_gw gw_init", THEN conjunct2, THEN conjunct1] by simp
qed

end
