(* ===== verification/Control_Db.thy ===== *)
theory Control_Db
  imports Lease "HOL-Library.Product_Lexorder"
begin

text \<open>
  The control-plane database: \<open>internal/controlplane/models.go\<close>, the tables of \<open>schema.go\<close> the
  lifecycle operations use, and the fenced transaction of \<open>store.go\<close> on all of them. A table is
  the list of its rows in the order of its primary key (\<open>sequence\<close> for keys, \<open>position\<close> and
  identifier for accounts); a key-value table is an association list. An SQL \<open>INSERT\<close> fails on
  a primary key that exists. Errors are values; an operation that fails leaves the database as
  it was, because the transaction is rolled back.

  \<open>reversible_change\<close> and \<open>synced_change\<close> are the contracts between the lifecycle operations of
  the store and the services that undo them.
\<close>

section \<open>Definitions\<close>

subsection \<open>Rows\<close>

record Account =
  an_ID :: string
  an_Email :: string
  an_Port :: int
  an_ProxyMode :: string
  an_CreatedAt :: int64
  an_GroupEnabled :: bool
  an_DefaultGroup :: bool

record KeyRecord =
  kr_Label :: string
  kr_Account :: string
  kr_AccountEmail :: string
  kr_User :: string
  kr_Status :: string
  kr_Key :: string
  kr_CreatedAt :: int64
  kr_UpdatedAt :: int64

record InternalKey =
  ik_Key :: string
  ik_CreatedAt :: int64
  ik_Status :: string

record UserMembershipState =
  um_TeamID :: "string option"
  um_MembershipVersion :: int64
  um_UpdatedAt :: int64

record UserTagState =
  ut_TagID :: string
  ut_AssignedAt :: int64

type_synonym account_rows = "(int \<times> Account) list"

type_synonym key_rows = "(int \<times> KeyRecord) list"

record controldb =
  cb_leases :: lease_rows
  cb_accounts :: account_rows
  cb_keys :: key_rows
  cb_routes :: "(string, string) gomap"
  cb_internal :: "(string, InternalKey) gomap"
  cb_teams :: "string list"
  cb_memberships :: "(string, UserMembershipState) gomap"
  cb_tag_ids :: "string list"
  cb_tags :: "(string \<times> UserTagState) list"

datatype control_error =
    ErrInvalidCatalogInput
  | RouteInputRequired
  | ExpectedRouteRequired string
  | RollbackUserRequired
  | RollbackExpectedRequired string
  | ErrRouteTargetNotFound string
  | ErrRouteUserNotFound string
  | ErrRouteUserUnsafe string
  | RouteConflictError "string list"
  | ErrUserKeyRotationConflict
  | ErrUserKeyRotationUnsafe
  | ErrUserAlreadyActive
  | ErrUserLifecycleNotFound
  | ErrUserLifecycleConflict
  | ErrUserDeleteRequiresRevoke
  | ErrTeamNotFound
  | ErrAccountAlreadyExists
  | ErrAccountEmailAlreadyExists
  | ErrAccountPortAlreadyExists
  | ErrAccountLifecycleNotFound
  | ErrAccountLifecycleConflict
  | ErrAccountDeleteLast
  | ErrAccountDeleteNeedsFallback
  | ErrAccountDeleteRequiresRevoke
  | RandomUnavailable
  | SqlError
  | StoreError lease_error

subsection \<open>Transactions\<close>

text \<open>\<open>writeTransaction\<close> on the whole database.\<close>

definition controlTx ::
  "tx \<Rightarrow> int64 \<Rightarrow> Lease list \<Rightarrow> (controldb \<Rightarrow> control_error + 'a \<times> controldb) \<Rightarrow> controldb \<Rightarrow>
   (control_error + 'a) \<times> controldb" where
  "controlTx tx now fence operation db =
     (if tx = BeginFault then (Inl (StoreError DatabaseError), db)
      else (case validateWriteFence now fence (cb_leases db) of
              Some e \<Rightarrow> (Inl (StoreError e), db)
            | None \<Rightarrow>
                (case operation db of
                   Inl e \<Rightarrow> (Inl e, db)
                 | Inr (a, db') \<Rightarrow>
                     if tx = CommitFault then (Inl (StoreError DatabaseError), db) else (Inr a, db'))))"

subsection \<open>SQL\<close>

text \<open>\<open>lower(trim(x))\<close>: SQLite's \<open>trim\<close> removes spaces only.\<close>

definition sql_trim :: "string \<Rightarrow> string" where
  "sql_trim s = rev (dropWhile (\<lambda>c. c = CHR '' '') (rev (dropWhile (\<lambda>c. c = CHR '' '') s)))"

definition sql_norm :: "string \<Rightarrow> string" where
  "sql_norm s = to_lower (sql_trim s)"

text \<open>\<open>strings.EqualFold\<close> on the ASCII letters, as \<open>to_lower\<close>.\<close>

definition equal_fold :: "string \<Rightarrow> string \<Rightarrow> bool" where
  "equal_fold a b \<longleftrightarrow> to_lower a = to_lower b"

definition nextSequence :: "key_rows \<Rightarrow> int" where
  "nextSequence rows = (if rows = [] then 0 else Max (set (map fst rows)) + 1)"

definition insertKey :: "int \<times> KeyRecord \<Rightarrow> key_rows \<Rightarrow> control_error + key_rows" where
  "insertKey row rows = (if fst row \<in> set (map fst rows) then Inl SqlError else Inr (insort_key fst row rows))"

fun insertKeys :: "(int \<times> KeyRecord) list \<Rightarrow> key_rows \<Rightarrow> control_error + key_rows" where
  "insertKeys [] rows = Inr rows"
| "insertKeys (r # rs) rows = (case insertKey r rows of Inl e \<Rightarrow> Inl e | Inr rows' \<Rightarrow> insertKeys rs rows')"

definition updateKeys :: "(int \<Rightarrow> KeyRecord \<Rightarrow> bool) \<Rightarrow> (KeyRecord \<Rightarrow> KeyRecord) \<Rightarrow> key_rows \<Rightarrow> key_rows" where
  "updateKeys P f rows = map (\<lambda>(s, k). if P s k then (s, f k) else (s, k)) rows"

definition deleteKeys :: "(int \<Rightarrow> KeyRecord \<Rightarrow> bool) \<Rightarrow> key_rows \<Rightarrow> key_rows" where
  "deleteKeys P rows = filter (\<lambda>(s, k). \<not> P s k) rows"

text \<open>Consecutive sequence numbers for new rows.\<close>

definition numbered :: "int \<Rightarrow> KeyRecord list \<Rightarrow> key_rows" where
  "numbered n ks = zip (map (\<lambda>i. n + int i) [0..<length ks]) ks"

definition accountIDs :: "controldb \<Rightarrow> string list" where
  "accountIDs db = map (\<lambda>(p, a). an_ID a) (cb_accounts db)"

definition isActive :: "KeyRecord \<Rightarrow> bool" where
  "isActive k \<longleftrightarrow> kr_Status k = ''active''"

text \<open>\<open>WHERE lower(trim(user_email)) = u AND status = 'active' ORDER BY sequence\<close>.\<close>

definition activeKeyRows :: "string \<Rightarrow> key_rows \<Rightarrow> key_rows" where
  "activeKeyRows u rows = filter (\<lambda>(s, k). sql_norm (kr_User k) = u \<and> isActive k) rows"

text \<open>The rows of the key table, and of the account table, are in the order of their keys.\<close>

definition key_table :: "key_rows \<Rightarrow> bool" where
  "key_table rows \<longleftrightarrow> sorted (map fst rows) \<and> distinct (map fst rows)"

text \<open>
  Two databases with the same rows: the order of a table matters only where a query asks for it.
\<close>

definition same_db :: "controldb \<Rightarrow> controldb \<Rightarrow> bool" where
  "same_db a b \<longleftrightarrow>
     cb_leases a = cb_leases b \<and> cb_accounts a = cb_accounts b \<and> cb_keys a = cb_keys b \<and>
     map_of (cb_routes a) = map_of (cb_routes b) \<and> map_of (cb_internal a) = map_of (cb_internal b) \<and>
     cb_teams a = cb_teams b \<and> map_of (cb_memberships a) = map_of (cb_memberships b) \<and>
     cb_tag_ids a = cb_tag_ids b \<and> set (cb_tags a) = set (cb_tags b)"

text \<open>A small database for examples: user \<open>ann\<close> with one key on two accounts, routed to the first.\<close>

definition twoAccounts :: controldb where
  "twoAccounts = \<lparr>cb_leases = [],
     cb_accounts = [(0, \<lparr>an_ID = ''a'', an_Email = [], an_Port = 1, an_ProxyMode = ''direct'', an_CreatedAt = 0,
                          an_GroupEnabled = True, an_DefaultGroup = False\<rparr>),
                    (1, \<lparr>an_ID = ''b'', an_Email = [], an_Port = 2, an_ProxyMode = ''direct'', an_CreatedAt = 0,
                          an_GroupEnabled = True, an_DefaultGroup = False\<rparr>)],
     cb_keys = [(0, \<lparr>kr_Label = ''ann:a'', kr_Account = ''a'', kr_AccountEmail = [], kr_User = ''ann'',
                  kr_Status = ''active'', kr_Key = ''k'', kr_CreatedAt = 0, kr_UpdatedAt = 0\<rparr>),
                (1, \<lparr>kr_Label = ''ann:b'', kr_Account = ''b'', kr_AccountEmail = [], kr_User = ''ann'',
                  kr_Status = ''active'', kr_Key = ''k'', kr_CreatedAt = 0, kr_UpdatedAt = 0\<rparr>)],
     cb_routes = [(''ann'', ''a'')], cb_internal = [], cb_teams = [], cb_memberships = [], cb_tag_ids = [], cb_tags = []\<rparr>"

section \<open>Lemmas\<close>

lemma controlTx_cases:
  assumes "controlTx tx now fence operation db = (r, db')"
  obtains e where "r = Inl e" "db' = db"
  | a where "r = Inr a" "operation db = Inr (a, db')" "validateWriteFence now fence (cb_leases db) = None" "tx = TxOK"
  using assms
  by (cases tx) (auto simp: controlTx_def split: option.splits sum.splits prod.splits if_splits)

lemma controlTx_ok:
  "validateWriteFence now fence (cb_leases db) = None \<Longrightarrow> operation db = Inr (a, db') \<Longrightarrow>
   controlTx TxOK now fence operation db = (Inr a, db')"
  by (simp add: controlTx_def)

lemma controlTx_Inr:
  assumes "controlTx tx now fence operation db = (Inr a, db')"
  shows "operation db = Inr (a, db')" "validateWriteFence now fence (cb_leases db) = None" "tx = TxOK"
  using assms by (auto elim: controlTx_cases)

lemma controlTx_Inl: "controlTx tx now fence operation db = (Inl e, db') \<Longrightarrow> db' = db"
  by (auto elim: controlTx_cases)

lemma ran_ok:
  assumes "\<not> isl (fst x)"
  obtains r db where "x = (Inr r, db)"
  using assms by (cases x; cases "fst x") auto

subsection \<open>Normal forms of user names\<close>

lemma lower_char_idem [simp]: "lower_char (lower_char c) = lower_char c"
proof -
  have "\<not> is_upper (char_of (byte c + 32))" if "is_upper c"
    using that unfolding is_upper_def byte_def by (simp add: take_bit_eq_mod)
  then show ?thesis by (simp add: lower_char_def)
qed

lemma to_lower_idem [simp]: "to_lower (to_lower s) = to_lower s"
  by (simp add: to_lower_def)

lemma lower_char_space [simp]: "lower_char c = CHR '' '' \<longleftrightarrow> c = CHR '' ''"
proof -
  have "char_of (byte c + 32) \<noteq> CHR '' ''" if "is_upper c"
  proof
    assume "char_of (byte c + 32) = CHR '' ''"
    then have "of_char (char_of (byte c + 32) :: char) = (of_char (CHR '' '') :: nat)" by simp
    then show False using that by (simp add: is_upper_def take_bit_eq_mod byte_def)
  qed
  then show ?thesis by (auto simp: lower_char_def is_upper_def byte_def)
qed

lemma sql_trim_id:
  assumes "s = [] \<or> hd s \<noteq> CHR '' '' \<and> last s \<noteq> CHR '' ''"
  shows "sql_trim s = s"
proof (cases s)
  case Nil
  then show ?thesis by (simp add: sql_trim_def)
next
  case (Cons c cs)
  then have "dropWhile (\<lambda>c. c = CHR '' '') s = s" using assms by simp
  moreover have "dropWhile (\<lambda>c. c = CHR '' '') (rev s) = rev s"
    using assms Cons by (cases "rev s") (auto simp: hd_rev [symmetric])
  ultimately show ?thesis by (simp add: sql_trim_def)
qed

lemma trim_space_ends:
  assumes "trim_space s \<noteq> []"
  shows "hd (trim_space s) \<noteq> CHR '' ''" "last (trim_space s) \<noteq> CHR '' ''"
proof -
  have sp: "[CHR '' ''] \<in> set space_runes" "[CHR '' ''] \<in> set (map rev space_runes)"
    by (simp_all add: space_runes_def)
  have no: "hd t \<noteq> CHR '' ''" if "leading_rune rs t = None" "[CHR '' ''] \<in> set rs" "t \<noteq> []" for rs t
    using that by (cases t) (force simp: leading_rune_def find_None_iff has_prefix_def)+
  have "leading_rune space_runes (trim_space s) = None"
    using leading_rune_strip [of space_runes "trim_space s"] trim_left_trim_space [of s]
    unfolding trim_left_def by simp
  then show "hd (trim_space s) \<noteq> CHR '' ''" using no sp(1) assms by blast
  have "leading_rune (map rev space_runes) (rev (trim_space s)) = None"
    using leading_rune_strip unfolding trim_space_def trim_right_def by simp
  then have "hd (rev (trim_space s)) \<noteq> CHR '' ''" using no sp(2) assms by blast
  then show "last (trim_space s) \<noteq> CHR '' ''" by (simp add: hd_rev)
qed

lemma sql_norm_norm_user [simp]: "sql_norm (norm_user s) = norm_user s"
proof -
  have "sql_trim (norm_user s) = norm_user s"
  proof (cases "trim_space s = []")
    case True
    then show ?thesis by (simp add: norm_user_def sql_trim_def to_lower_def)
  next
    case False
    then show ?thesis
      using trim_space_ends [OF False]
      by (intro sql_trim_id) (simp add: norm_user_def to_lower_def hd_map last_map)
  qed
  then show ?thesis by (simp add: sql_norm_def norm_user_def)
qed

lemma equal_fold_refl [simp]: "equal_fold a a"
  by (simp add: equal_fold_def)

subsection \<open>Tables\<close>

lemma map_fst_updateKeys [simp]: "map fst (updateKeys P f rows) = map fst rows"
  by (induction rows) (auto simp: updateKeys_def)

lemma fst_set_updateKeys [simp]: "fst ` set (updateKeys P f rows) = fst ` set rows"
proof -
  have "set (map fst (updateKeys P f rows)) = set (map fst rows)" by (simp only: map_fst_updateKeys)
  then show ?thesis by (simp only: set_map)
qed

lemma updateKeys_Nil [simp]: "updateKeys P f [] = []"
  by (simp add: updateKeys_def)

lemma updateKeys_append [simp]: "updateKeys P f (xs @ ys) = updateKeys P f xs @ updateKeys P f ys"
  by (simp add: updateKeys_def)

lemma deleteKeys_append [simp]: "deleteKeys P (xs @ ys) = deleteKeys P xs @ deleteKeys P ys"
  by (simp add: deleteKeys_def)

lemma updateKeys_none: "\<forall>(s, k) \<in> set rows. \<not> P s k \<Longrightarrow> updateKeys P f rows = rows"
  by (induction rows) (auto simp: updateKeys_def)

lemma deleteKeys_none: "\<forall>(s, k) \<in> set rows. \<not> P s k \<Longrightarrow> deleteKeys P rows = rows"
  by (auto simp: deleteKeys_def filter_id_conv)

lemma deleteKeys_all: "\<forall>(s, k) \<in> set rows. P s k \<Longrightarrow> deleteKeys P rows = []"
  by (auto simp: deleteKeys_def filter_empty_conv)

lemma key_table_updateKeys [simp]: "key_table (updateKeys P f rows) = key_table rows"
  by (simp add: key_table_def)

lemma map_fst_deleteKeys: "set (map fst (deleteKeys P rows)) \<subseteq> set (map fst rows)"
  by (auto simp: deleteKeys_def)

lemma key_table_deleteKeys: "key_table rows \<Longrightarrow> key_table (deleteKeys P rows)"
  by (auto simp: key_table_def deleteKeys_def sorted_filter distinct_map_filter)

lemma nextSequence_greater: "s \<in> set (map fst rows) \<Longrightarrow> s < nextSequence rows"
  using Max_ge [of "set (map fst rows)" s] unfolding nextSequence_def by fastforce

lemma nextSequence_updateKeys [simp]: "nextSequence (updateKeys P f rows) = nextSequence rows"
  by (simp add: nextSequence_def updateKeys_def [of P f "[]"]) (simp add: updateKeys_def)

lemma insort_key_last: "\<forall>r \<in> set rows. fst r < fst x \<Longrightarrow> insort_key fst x rows = rows @ [x]"
  by (induction rows) (auto simp: not_le)

lemma insertKey_last: "\<forall>r \<in> set rows. fst r < fst x \<Longrightarrow> insertKey x rows = Inr (rows @ [x])"
  using insort_key_last [of rows x] by (auto simp: insertKey_def)

lemma map_fst_numbered [simp]: "map fst (numbered n ks) = map (\<lambda>i. n + int i) [0..<length ks]"
  by (simp add: numbered_def)

lemma map_snd_numbered [simp]: "map snd (numbered n ks) = ks"
  by (simp add: numbered_def)

lemma length_numbered [simp]: "length (numbered n ks) = length ks"
  by (simp add: numbered_def)

lemma numbered_snd: "(s, k) \<in> set (numbered n ks) \<Longrightarrow> k \<in> set ks"
  by (auto simp: numbered_def dest: set_zip_rightD)

lemma numbered_fst: "(s, k) \<in> set (numbered n ks) \<Longrightarrow> n \<le> s"
  unfolding numbered_def by (drule set_zip_leftD) auto

lemma numbered_Nil [simp]: "numbered n [] = []"
  by (simp add: numbered_def)

lemma numbered_Cons [simp]: "numbered n (k # ks) = (n, k) # numbered (n + 1) ks"
proof -
  have "map (\<lambda>i. n + int i) [1..<Suc m] = map (\<lambda>i. n + 1 + int i) [0..<m]" for m
    by (rule nth_equalityI) (auto simp del: upt_Suc)
  then show ?thesis by (simp add: numbered_def upt_conv_Cons del: upt_Suc)
qed

lemma insertKeys_numbered:
  assumes "\<forall>r \<in> set rows. fst r < n"
  shows "insertKeys (numbered n ks) rows = Inr (rows @ numbered n ks)"
  using assms
proof (induction ks arbitrary: n rows)
  case (Cons k ks)
  have "insertKey (n, k) rows = Inr (rows @ [(n, k)])"
    using Cons.prems by (intro insertKey_last) simp
  moreover have "insertKeys (numbered (n + 1) ks) (rows @ [(n, k)]) = Inr ((rows @ [(n, k)]) @ numbered (n + 1) ks)"
    using Cons.prems by (intro Cons.IH) auto
  ultimately show ?case by simp
qed simp

lemma insertKeys_next:
  "insertKeys (numbered (nextSequence rows) ks) rows = Inr (rows @ numbered (nextSequence rows) ks)"
  by (rule insertKeys_numbered) (force intro: nextSequence_greater)

lemma key_table_numbered:
  assumes "key_table rows"
  shows "key_table (rows @ numbered (nextSequence rows) ks)"
proof -
  have "sorted (map (\<lambda>i. nextSequence rows + int i) [0..<length ks])"
    by (simp add: sorted_iff_nth_mono)
  moreover have "distinct (map (\<lambda>i. nextSequence rows + int i) [0..<length ks])"
    by (simp add: distinct_map inj_on_def)
  moreover have "\<forall>x \<in> set (map fst rows). x < nextSequence rows" using nextSequence_greater by blast
  ultimately show ?thesis using assms by (fastforce simp: key_table_def sorted_append)
qed

text \<open>Taking rows out of a table and inserting them again, in order, gives the table back.\<close>

lemma insort_key_filter:
  assumes "sorted (map fst rows)" "distinct (map fst rows)" "x \<in> set rows"
  shows "insort_key fst x (filter (\<lambda>r. r \<noteq> x) rows) = rows"
  using assms
proof (induction rows)
  case (Cons r rs)
  show ?case
  proof (cases "r = x")
    case True
    then have "filter (\<lambda>r. r \<noteq> x) rs = rs" using Cons.prems by (force simp: filter_id_conv)
    moreover have "insort_key fst x rs = x # rs" using Cons.prems True by (cases rs) auto
    ultimately show ?thesis using True by simp
  next
    case False
    then have "x \<in> set rs" "fst r < fst x" using Cons.prems by (auto simp: order.strict_iff_order)
    then show ?thesis using False Cons by simp
  qed
qed simp

lemma insertKeys_restore:
  assumes "key_table rows"
  shows "insertKeys (filter P rows) (filter (\<lambda>r. \<not> P r) rows) = Inr rows"
proof -
  have "insertKeys xs (filter (\<lambda>r. r \<notin> set xs) rows) = Inr rows" if "set xs \<subseteq> set rows" "distinct xs" for xs
    using that
  proof (induction xs)
    case (Cons x xs)
    let ?rest = "filter (\<lambda>r. r \<notin> set xs) rows"
    have st: "sorted (map fst ?rest)" "distinct (map fst ?rest)" "x \<in> set ?rest"
      using assms Cons.prems by (auto simp: key_table_def sorted_filter distinct_map_filter)
    have split: "filter (\<lambda>r. r \<notin> set (x # xs)) rows = filter (\<lambda>r. r \<noteq> x) ?rest"
      by (auto intro: filter_cong)
    have "fst x \<notin> set (map fst (filter (\<lambda>r. r \<noteq> x) ?rest))"
      using st(2,3) assms by (auto simp: key_table_def distinct_map inj_on_def)
    then have "insertKey x (filter (\<lambda>r. r \<noteq> x) ?rest) = Inr ?rest"
      unfolding insertKey_def using insort_key_filter [OF st] by simp
    then show ?case using Cons split by simp
  qed simp
  from this [of "filter P rows"] assms show ?thesis
    by (simp add: key_table_def distinct_map cong: filter_cong)
qed

lemma same_db_refl [simp]: "same_db d d"
  by (simp add: same_db_def)

subsection \<open>Changes that can be undone\<close>

text \<open>
  The contract of a lifecycle operation: it is atomic, and its undo record takes the database back.
  A change of the second contract can also be undone after the internal keys were synchronised, as
  publishing a snapshot does.
\<close>

locale reversible_change =
  fixes change :: "'x \<Rightarrow> controldb \<Rightarrow> (control_error + 'r) \<times> controldb"
    and undo :: "'r \<Rightarrow> controldb \<Rightarrow> (control_error + unit) \<times> controldb"
    and pre :: "controldb \<Rightarrow> bool"
  assumes atomic: "change x db = (Inl e, db') \<Longrightarrow> db' = db"
    and reverts: "pre db \<Longrightarrow> change x db = (Inr r, db') \<Longrightarrow> \<exists>d. undo r db' = (Inr (), d) \<and> same_db d db"
begin

text \<open>A change, and its undo when the step that follows it fails.\<close>

lemma all_or_nothing:
  assumes "pre db" "change x db = (res, db')"
  shows "(\<exists>e. res = Inl e \<and> db' = db) \<or> (\<exists>r d. res = Inr r \<and> undo r db' = (Inr (), d) \<and> same_db d db)"
  using atomic reverts [OF assms(1)] assms(2) by (cases res) auto

end

locale synced_change =
  fixes change :: "'x \<Rightarrow> controldb \<Rightarrow> (control_error + 'r) \<times> controldb"
    and undo :: "'r \<Rightarrow> controldb \<Rightarrow> (control_error + unit) \<times> controldb"
    and pre :: "controldb \<Rightarrow> bool"
  assumes fails_clean: "change x db = (Inl e, db') \<Longrightarrow> db' = db"
    and keeps_internal: "change x db = (Inr r, db') \<Longrightarrow> cb_internal db' = cb_internal db"
    and reverts_synced: "pre db \<Longrightarrow> change x db = (Inr r, db') \<Longrightarrow>
      \<exists>d. undo r (db'\<lparr>cb_internal := internal\<rparr>) = (Inr (), d) \<and> same_db d (db\<lparr>cb_internal := internal\<rparr>)"

sublocale synced_change \<subseteq> reversible_change change undo pre
proof
  show "change x db = (Inl e, db') \<Longrightarrow> db' = db" for x db e db' by (rule fails_clean)
  fix db x r db' assume a: "pre db" "change x db = (Inr r, db')"
  have "db'\<lparr>cb_internal := cb_internal db\<rparr> = db'" using keeps_internal [OF a(2)] by simp
  then show "\<exists>d. undo r db' = (Inr (), d) \<and> same_db d db" using reverts_synced [OF a, of "cb_internal db"] by simp
qed

end
