(* ===== verification/Key_Records.thy ===== *)
theory Key_Records
  imports Control_Db Sha256
begin

text \<open>
  \<open>internal/controlplane/records.go\<close>: whole-table reads and writes, the rotation of a user's API
  key over all accounts with its undo, and the internal keys the gateway uses towards the
  accounts. Random bytes are an argument (\<open>None\<close>, or an exhausted list, when the generator
  fails).
\<close>

section \<open>Definitions\<close>

subsection \<open>Tables\<close>

definition readProxyMode :: "Account \<Rightarrow> Account" where
  "readProxyMode a = (if an_ProxyMode a = [] then a\<lparr>an_ProxyMode := ''inherit''\<rparr> else a)"

definition ReadAccounts :: "controldb \<Rightarrow> Account list" where
  "ReadAccounts db = map (\<lambda>(p, a). readProxyMode a) (cb_accounts db)"

definition writtenAccount :: "Account \<Rightarrow> Account" where
  "writtenAccount a =
     (let proxyMode = trim_space (an_ProxyMode a)
      in a\<lparr>an_ProxyMode := (if proxyMode = [] then ''inherit'' else proxyMode)\<rparr>)"

text \<open>The columns \<open>id\<close>, \<open>email\<close> and \<open>port\<close> of the account table are unique.\<close>

definition accountClash :: "Account \<Rightarrow> account_rows \<Rightarrow> bool" where
  "accountClash a rows \<longleftrightarrow>
     list_ex (\<lambda>(p, b). an_ID b = an_ID a \<or> an_Email b = an_Email a \<or> an_Port b = an_Port a) rows"

fun writeAccountRows :: "int \<Rightarrow> Account list \<Rightarrow> account_rows \<Rightarrow> control_error + account_rows" where
  "writeAccountRows position [] rows = Inr rows"
| "writeAccountRows position (a # as) rows =
     (if accountClash a rows then Inl SqlError
      else writeAccountRows (position + 1) as (rows @ [(position, writtenAccount a)]))"

definition WriteAccounts ::
  "tx \<Rightarrow> int64 \<Rightarrow> Lease list \<Rightarrow> Account list \<Rightarrow> controldb \<Rightarrow> (control_error + unit) \<times> controldb" where
  "WriteAccounts tx now fence accounts db =
     controlTx tx now fence
       (\<lambda>db. case writeAccountRows 0 accounts [] of
               Inl e \<Rightarrow> Inl e
             | Inr rows \<Rightarrow> Inr ((), db\<lparr>cb_accounts := rows\<rparr>)) db"

definition ReadRoutes :: "controldb \<Rightarrow> (string, string) gomap" where
  "ReadRoutes db = cb_routes db"

definition WriteRoutes ::
  "tx \<Rightarrow> int64 \<Rightarrow> Lease list \<Rightarrow> (string, string) gomap \<Rightarrow> controldb \<Rightarrow> (control_error + unit) \<times> controldb" where
  "WriteRoutes tx now fence routes db =
     controlTx tx now fence
       (\<lambda>db. Inr ((), db\<lparr>cb_routes := map (\<lambda>u. (u, gstring routes u)) (sort (keys routes))\<rparr>)) db"

definition ReadKeyRecords :: "controldb \<Rightarrow> KeyRecord list" where
  "ReadKeyRecords db = map snd (cb_keys db)"

definition WriteKeyRecords ::
  "tx \<Rightarrow> int64 \<Rightarrow> Lease list \<Rightarrow> KeyRecord list \<Rightarrow> controldb \<Rightarrow> (control_error + unit) \<times> controldb" where
  "WriteKeyRecords tx now fence records db =
     controlTx tx now fence (\<lambda>db. Inr ((), db\<lparr>cb_keys := numbered 0 records\<rparr>)) db"

definition normalizedUsers :: "string list \<Rightarrow> string list" where
  "normalizedUsers values = sort (dedup [] (filter (\<lambda>u. u \<noteq> []) (map norm_user values)))"

text \<open>The lookup runs in batches of 500 users, in their order.\<close>

fun batches :: "nat \<Rightarrow> 'a list \<Rightarrow> 'a list list" where
  "batches n [] = []"
| "batches n (x # xs) = (if n = 0 then [x # xs] else take n (x # xs) # batches n (drop n (x # xs)))"

definition ReadKeyRecordsForUsers :: "string list \<Rightarrow> controldb \<Rightarrow> KeyRecord list" where
  "ReadKeyRecordsForUsers userEmails db =
     concat (map (\<lambda>batch. filter (\<lambda>k. kr_User k \<in> set batch) (map snd (cb_keys db)))
               (batches 500 (normalizedUsers userEmails)))"

subsection \<open>Rotation\<close>

record UserKeyRotation =
  ur_User :: string
  ur_OldKey :: string
  ur_NewKey :: string
  ur_RotatedRows :: "(int \<times> int64) list"
  ur_CreatedRows :: "int list"

fun checkRotationRows :: "string \<Rightarrow> key_rows \<Rightarrow> string list \<Rightarrow> control_error + string list" where
  "checkRotationRows oldKey [] accounts = Inr accounts"
| "checkRotationRows oldKey ((s, k) # rows) accounts =
     (if kr_Key k \<noteq> oldKey then Inl ErrUserKeyRotationConflict
      else if kr_Account k \<in> set accounts then Inl ErrUserKeyRotationUnsafe
      else checkRotationRows oldKey rows (kr_Account k # accounts))"

definition markRotated :: "int64 \<Rightarrow> KeyRecord \<Rightarrow> KeyRecord" where
  "markRotated now k = k\<lparr>kr_Status := ''rotated'', kr_UpdatedAt := now\<rparr>"

definition replacementKey :: "int64 \<Rightarrow> string \<Rightarrow> string \<Rightarrow> KeyRecord \<Rightarrow> KeyRecord" where
  "replacementKey now user newKey k =
     \<lparr>kr_Label = kr_Label k, kr_Account = kr_Account k, kr_AccountEmail = kr_AccountEmail k, kr_User = user,
      kr_Status = ''active'', kr_Key = newKey, kr_CreatedAt = now, kr_UpdatedAt = now\<rparr>"

fun rotateRows ::
  "int64 \<Rightarrow> string \<Rightarrow> string \<Rightarrow> int \<Rightarrow> key_rows \<Rightarrow> key_rows \<Rightarrow> int list \<Rightarrow> control_error + int list \<times> key_rows" where
  "rotateRows now user newKey sequence [] table created = Inr (created, table)"
| "rotateRows now user newKey sequence ((s, k) # rows) table created =
     (case insertKey (sequence, replacementKey now user newKey k)
             (updateKeys (\<lambda>s' k'. s' = s \<and> isActive k') (markRotated now) table) of
        Inl e \<Rightarrow> Inl e
      | Inr table' \<Rightarrow> rotateRows now user newKey (sequence + 1) rows table' (created @ [sequence]))"

definition rotationTx ::
  "string \<Rightarrow> string \<Rightarrow> string \<Rightarrow> int64 \<Rightarrow> controldb \<Rightarrow> control_error + UserKeyRotation \<times> controldb" where
  "rotationTx user oldKey newKey now db =
     (if list_ex (\<lambda>(s, k). kr_Key k = newKey) (cb_keys db) then Inl ErrUserKeyRotationConflict
      else (let rows = activeKeyRows user (cb_keys db)
            in if rows = [] then Inl ErrUserKeyRotationUnsafe
               else (case checkRotationRows oldKey rows [] of
                       Inl e \<Rightarrow> Inl e
                     | Inr accounts \<Rightarrow>
                         if accountIDs db = [] \<or> length accounts \<noteq> length (accountIDs db) \<or>
                            list_ex (\<lambda>a. a \<notin> set accounts) (accountIDs db)
                         then Inl ErrUserKeyRotationUnsafe
                         else (case rotateRows now user newKey (nextSequence (cb_keys db)) rows (cb_keys db) [] of
                                 Inl e \<Rightarrow> Inl e
                               | Inr (created, table) \<Rightarrow>
                                   Inr (\<lparr>ur_User = user, ur_OldKey = oldKey, ur_NewKey = newKey,
                                         ur_RotatedRows = map (\<lambda>(s, k). (s, kr_UpdatedAt k)) rows,
                                         ur_CreatedRows = created\<rparr>, db\<lparr>cb_keys := table\<rparr>)))))"

definition ApplyUserKeyRotationExpected ::
  "tx \<Rightarrow> int64 \<Rightarrow> Lease list \<Rightarrow> string \<Rightarrow> string \<Rightarrow> string \<Rightarrow> controldb \<Rightarrow>
   (control_error + UserKeyRotation) \<times> controldb" where
  "ApplyUserKeyRotationExpected tx now fence user expectedKey newKey db =
     (let u = norm_user user; old = trim_space expectedKey; new = trim_space newKey
      in if u = [] \<or> old = [] \<or> new = [] \<or> old = new then (Inl ErrInvalidCatalogInput, db)
         else controlTx tx now fence (rotationTx u old new now) db)"

text \<open>The expectations of a rollback, row by row: the first one that fails.\<close>

fun checkRows :: "control_error \<Rightarrow> key_rows \<Rightarrow> (int \<times> (KeyRecord \<Rightarrow> bool)) list \<Rightarrow> control_error option" where
  "checkRows conflict table [] = None"
| "checkRows conflict table ((s, P) # rest) =
     (case map_of table s of
        None \<Rightarrow> Some SqlError
      | Some k \<Rightarrow> if P k then checkRows conflict table rest else Some conflict)"

definition keyIs :: "string \<Rightarrow> string \<Rightarrow> string \<Rightarrow> KeyRecord \<Rightarrow> bool" where
  "keyIs user status secret k \<longleftrightarrow>
     equal_fold (kr_User k) user \<and> kr_Status k = status \<and> kr_Key k = secret"

definition reactivate :: "int64 \<Rightarrow> KeyRecord \<Rightarrow> KeyRecord" where
  "reactivate at0 k = k\<lparr>kr_Status := ''active'', kr_UpdatedAt := at0\<rparr>"

definition restoreStatus :: "(int \<times> int64) list \<Rightarrow> key_rows \<Rightarrow> key_rows" where
  "restoreStatus rows table =
     fold (\<lambda>(s, at0) t. updateKeys (\<lambda>s' k. s' = s) (reactivate at0) t) rows table"

definition restoreRotationTx :: "UserKeyRotation \<Rightarrow> controldb \<Rightarrow> control_error + unit \<times> controldb" where
  "restoreRotationTx r db =
     (case checkRows ErrUserKeyRotationConflict (cb_keys db)
             (map (\<lambda>s. (s, keyIs (ur_User r) ''active'' (ur_NewKey r))) (ur_CreatedRows r) @
              map (\<lambda>(s, at0). (s, keyIs (ur_User r) ''rotated'' (ur_OldKey r))) (ur_RotatedRows r)) of
        Some e \<Rightarrow> Inl e
      | None \<Rightarrow> Inr ((), db\<lparr>cb_keys :=
          restoreStatus (ur_RotatedRows r) (deleteKeys (\<lambda>s k. s \<in> set (ur_CreatedRows r)) (cb_keys db))\<rparr>))"

definition RestoreUserKeyRotation ::
  "tx \<Rightarrow> int64 \<Rightarrow> Lease list \<Rightarrow> UserKeyRotation \<Rightarrow> controldb \<Rightarrow> (control_error + unit) \<times> controldb" where
  "RestoreUserKeyRotation tx now fence r db =
     (if ur_User r = [] \<or> ur_OldKey r = [] \<or> ur_NewKey r = [] \<or> ur_RotatedRows r = [] \<or>
         length (ur_RotatedRows r) \<noteq> length (ur_CreatedRows r)
      then (Inl ErrInvalidCatalogInput, db)
      else controlTx tx now fence (restoreRotationTx r) db)"

subsection \<open>Internal keys\<close>

definition hexEncode :: "string \<Rightarrow> string" where
  "hexEncode bs = concat (map (\<lambda>c. [hex_digit (byte c div 16), hex_digit (byte c mod 16)]) bs)"

text \<open>The 32 bytes of the generator, or its failure.\<close>

definition newInternalKey :: "string option \<Rightarrow> string option" where
  "newInternalKey raw = map_option (\<lambda>bs. ''cpa_internal_'' @ hexEncode bs) raw"

definition ReadInternalKeys :: "controldb \<Rightarrow> (string, InternalKey) gomap" where
  "ReadInternalKeys db = cb_internal db"

definition ReadInternalKey :: "string \<Rightarrow> controldb \<Rightarrow> control_error + InternalKey option" where
  "ReadInternalKey user db =
     (let u = norm_user user
      in if u = [] then Inl ErrInvalidCatalogInput
         else Inr (map_option snd (List.find (\<lambda>(e, k). sql_norm e = u) (cb_internal db))))"

definition secretTaken :: "string \<Rightarrow> string \<Rightarrow> (string, InternalKey) gomap \<Rightarrow> bool" where
  "secretTaken user secret table \<longleftrightarrow> list_ex (\<lambda>(e, k). e \<noteq> user \<and> ik_Key k = secret) table"

definition RestoreInternalKey ::
  "tx \<Rightarrow> int64 \<Rightarrow> Lease list \<Rightarrow> string \<Rightarrow> InternalKey option \<Rightarrow> controldb \<Rightarrow> (control_error + unit) \<times> controldb" where
  "RestoreInternalKey tx now fence rawUser previous db =
     (let user = norm_user rawUser
      in if user = [] then (Inl ErrInvalidCatalogInput, db)
         else (case previous of
                 None \<Rightarrow> controlTx tx now fence
                   (\<lambda>db. Inr ((), db\<lparr>cb_internal := filter (\<lambda>(e, k). sql_norm e \<noteq> user) (cb_internal db)\<rparr>)) db
               | Some k \<Rightarrow>
                   if trim_space (ik_Key k) = [] \<or> ik_CreatedAt k < 0 \<or>
                      (ik_Status k \<noteq> ''active'' \<and> ik_Status k \<noteq> ''inactive'')
                   then (Inl ErrInvalidCatalogInput, db)
                   else controlTx tx now fence
                     (\<lambda>db. if secretTaken user (ik_Key k) (cb_internal db) then Inl SqlError
                           else Inr ((), db\<lparr>cb_internal := AList.update user k (cb_internal db)\<rparr>)) db))"

fun writeInternalRows ::
  "(string \<times> InternalKey) list \<Rightarrow> (string, InternalKey) gomap \<Rightarrow> control_error + (string, InternalKey) gomap" where
  "writeInternalRows [] table = Inr table"
| "writeInternalRows ((u, k) # rest) table =
     (if secretTaken u (ik_Key k) table then Inl SqlError
      else writeInternalRows rest (table @ [(u, if ik_Status k = [] then k\<lparr>ik_Status := ''active''\<rparr> else k)]))"

definition WriteInternalKeys ::
  "tx \<Rightarrow> int64 \<Rightarrow> Lease list \<Rightarrow> (string, InternalKey) gomap \<Rightarrow> controldb \<Rightarrow> (control_error + unit) \<times> controldb" where
  "WriteInternalKeys tx now fence users db =
     controlTx tx now fence
       (\<lambda>db. case writeInternalRows (sort_key fst users) [] of
               Inl e \<Rightarrow> Inl e
             | Inr table \<Rightarrow> Inr ((), db\<lparr>cb_internal := table\<rparr>)) db"

fun ensureUsers ::
  "int64 \<Rightarrow> (string, InternalKey) gomap \<Rightarrow> string list \<Rightarrow> string option list \<Rightarrow> (string, InternalKey) gomap \<Rightarrow>
   (string, InternalKey) gomap \<Rightarrow> control_error + (string, InternalKey) gomap \<times> (string, InternalKey) gomap" where
  "ensureUsers now existing [] random table result = Inr (result, table)"
| "ensureUsers now existing (u # us) random table result =
     (case map_of existing u of
        Some k \<Rightarrow>
          (let k' = k\<lparr>ik_Status := ''active''\<rparr>
           in ensureUsers now existing us random
                (if ik_Status k \<noteq> ''active'' then AList.update u k' table else table) (AList.update u k' result))
      | None \<Rightarrow>
          (case random of
             [] \<Rightarrow> Inl RandomUnavailable
           | raw # random' \<Rightarrow>
               (case newInternalKey raw of
                  None \<Rightarrow> Inl RandomUnavailable
                | Some key \<Rightarrow>
                    (let k = \<lparr>ik_Key = key, ik_CreatedAt = now, ik_Status = ''active''\<rparr>
                     in if has_key table u \<or> secretTaken u key table then Inl SqlError
                        else ensureUsers now existing us random' (table @ [(u, k)]) (AList.update u k result)))))"

definition deactivateOthers ::
  "string list \<Rightarrow> (string, InternalKey) gomap \<Rightarrow> (string, InternalKey) gomap \<Rightarrow> (string, InternalKey) gomap" where
  "deactivateOthers active rows table =
     fold (\<lambda>(u, k) t. if u \<in> set active \<or> ik_Status k = ''inactive'' then t
                      else (case map_of t u of
                              None \<Rightarrow> t
                            | Some k' \<Rightarrow> AList.update u (k'\<lparr>ik_Status := ''inactive''\<rparr>) t)) rows table"

definition EnsureInternalKeys ::
  "tx \<Rightarrow> int64 \<Rightarrow> Lease list \<Rightarrow> string option list \<Rightarrow> string list \<Rightarrow> controldb \<Rightarrow>
   (control_error + (string, InternalKey) gomap) \<times> controldb" where
  "EnsureInternalKeys tx now fence random activeUsers db =
     (let users = normalizedUsers activeUsers
      in controlTx tx now fence
           (\<lambda>db. case ensureUsers now (cb_internal db) users random (cb_internal db) [] of
                   Inl e \<Rightarrow> Inl e
                 | Inr (result, table) \<Rightarrow>
                     Inr (result, db\<lparr>cb_internal := deactivateOthers users (cb_internal db) table\<rparr>)) db)"

section \<open>Lemmas\<close>

subsection \<open>Rotation\<close>

lemma isActive_markRotated [simp]: "\<not> isActive (markRotated now k)"
  by (simp add: isActive_def markRotated_def)

lemma isActive_replacementKey [simp]: "isActive (replacementKey now u key k)"
  by (simp add: isActive_def replacementKey_def)

lemma replacementKey_sel [simp]:
  "kr_User (replacementKey now u key k) = u" "kr_Key (replacementKey now u key k) = key"
  "kr_Account (replacementKey now u key k) = kr_Account k" "kr_Status (replacementKey now u key k) = ''active''"
  by (simp_all add: replacementKey_def)

lemma rotateRows_eq:
  assumes "\<forall>r \<in> set table. fst r < sequence" "\<forall>r \<in> set rows. fst r < sequence"
  shows "rotateRows now u key sequence rows table created =
     Inr (created @ map fst (numbered sequence (map (replacementKey now u key \<circ> snd) rows)),
          updateKeys (\<lambda>s k. s \<in> set (map fst rows) \<and> isActive k) (markRotated now) table @
          numbered sequence (map (replacementKey now u key \<circ> snd) rows))"
  using assms
proof (induction rows arbitrary: sequence table created)
  case Nil
  then show ?case by (simp add: updateKeys_none case_prod_beta)
next
  case (Cons r rows)
  obtain s k where r: "r = (s, k)" by (cases r)
  let ?new = "(sequence, replacementKey now u key k)"
  let ?t = "updateKeys (\<lambda>s' k'. s' = s \<and> isActive k') (markRotated now) table"
  have keys: "fst ` set ?t = fst ` set table"
    by simp
  have lt: "\<forall>r \<in> set ?t. fst r < sequence"
  proof
    fix r assume "r \<in> set ?t"
    then have "fst r \<in> fst ` set table" unfolding keys [symmetric] by (rule imageI)
    then show "fst r < sequence" using Cons.prems(1) by auto
  qed
  then have ins: "insertKey ?new ?t = Inr (?t @ [?new])"
    by (intro insertKey_last) simp
  have "\<forall>r \<in> set (?t @ [?new]). fst r < sequence + 1" using lt by auto
  moreover have "\<forall>r \<in> set rows. fst r < sequence + 1" using Cons.prems(2) by auto
  ultimately have IH: "rotateRows now u key (sequence + 1) rows (?t @ [?new]) (created @ [sequence]) =
     Inr ((created @ [sequence]) @ map fst (numbered (sequence + 1) (map (replacementKey now u key \<circ> snd) rows)),
          updateKeys (\<lambda>s k. s \<in> set (map fst rows) \<and> isActive k) (markRotated now) (?t @ [?new]) @
          numbered (sequence + 1) (map (replacementKey now u key \<circ> snd) rows))"
    by (rule Cons.IH)
  have "sequence \<notin> set (map fst rows)" using Cons.prems(2) by auto
  then have "updateKeys (\<lambda>s k. s \<in> set (map fst rows) \<and> isActive k) (markRotated now) [?new] = [?new]"
    by (simp add: updateKeys_def)
  moreover have "updateKeys (\<lambda>s k. s \<in> set (map fst rows) \<and> isActive k) (markRotated now) ?t =
      updateKeys (\<lambda>s k. s \<in> set (map fst (r # rows)) \<and> isActive k) (markRotated now) table"
    unfolding updateKeys_def r by (auto simp: comp_def)
  ultimately show ?case using IH ins r by (simp add: comp_def del: map_fst_numbered)
qed

lemma checkRotationRows_Inr:
  assumes "checkRotationRows old rows acc = Inr acc'"
  shows "(\<forall>(s, k) \<in> set rows. kr_Key k = old) \<and> acc' = rev (map (kr_Account \<circ> snd) rows) @ acc \<and>
     distinct (map (kr_Account \<circ> snd) rows) \<and> set (map (kr_Account \<circ> snd) rows) \<inter> set acc = {}"
  using assms
proof (induction old rows acc rule: checkRotationRows.induct)
  case (2 old s k rows acc)
  then have "kr_Key k = old" "kr_Account k \<notin> set acc"
    "checkRotationRows old rows (kr_Account k # acc) = Inr acc'" by (auto split: if_splits)
  with "2.IH" show ?case by auto
qed simp

lemma activeKeyRows_append [simp]: "activeKeyRows u (xs @ ys) = activeKeyRows u xs @ activeKeyRows u ys"
  by (simp add: activeKeyRows_def)

lemma in_activeKeyRows:
  assumes "key_table rows" "(s, k) \<in> set rows"
  shows "s \<in> set (map fst (activeKeyRows u rows)) \<longleftrightarrow> sql_norm (kr_User k) = u \<and> isActive k"
proof -
  have "k' = k" if "(s, k') \<in> set rows" for k'
    using assms(2) that assms(1) unfolding key_table_def by (blast dest: eq_key_imp_eq_value)
  moreover have "(s, k') \<in> set (activeKeyRows u rows) \<longleftrightarrow> (s, k') \<in> set rows \<and> sql_norm (kr_User k') = u \<and> isActive k'" for k'
    by (simp add: activeKeyRows_def)
  moreover have "s \<in> set (map fst (activeKeyRows u rows)) \<longleftrightarrow> (\<exists>k'. (s, k') \<in> set (activeKeyRows u rows))"
    by force
  ultimately show ?thesis using assms(2) by blast
qed

lemma activeKeyRows_marked:
  fixes rows u and f :: "KeyRecord \<Rightarrow> KeyRecord"
  assumes "key_table rows" "\<And>k. \<not> isActive (f k)"
  defines "t \<equiv> updateKeys (\<lambda>s k. s \<in> set (map fst (activeKeyRows u rows)) \<and> isActive k) f rows"
  shows "activeKeyRows v t = (if v = u then [] else activeKeyRows v rows)"
proof -
  have "t = map (\<lambda>(s, k). if sql_norm (kr_User k) = u \<and> isActive k then (s, f k) else (s, k)) rows"
    unfolding t_def updateKeys_def using in_activeKeyRows [OF assms(1), of _ _ u] by (intro map_cong) auto
  moreover have "activeKeyRows v (map (\<lambda>(s, k). if sql_norm (kr_User k) = u \<and> isActive k then (s, f k) else (s, k)) xs) =
      (if v = u then [] else activeKeyRows v xs)" for xs
  proof (induction xs)
    case (Cons x xs)
    obtain s k where x: "x = (s, k)" by (cases x)
    have "activeKeyRows v ((s, k) # ys) = (if sql_norm (kr_User k) = v \<and> isActive k then [(s, k)] else []) @ activeKeyRows v ys"
      for s k ys by (simp add: activeKeyRows_def)
    then show ?case unfolding x using Cons.IH assms(2) by (cases "sql_norm (kr_User k) = u \<and> isActive k") auto
  qed (simp add: activeKeyRows_def)
  ultimately show ?thesis by simp
qed

lemma activeKeyRows_numbered:
  assumes "\<forall>k \<in> set ks. sql_norm (kr_User k) = u \<and> isActive k"
  shows "activeKeyRows v (numbered n ks) = (if v = u then numbered n ks else [])"
  using assms by (induction ks arbitrary: n) (auto simp: activeKeyRows_def)

lemma rotationTx_Inr:
  fixes u old new now db rot db'
  assumes "rotationTx u old new now db = Inr (rot, db')" "sql_norm u = u"
  defines "rows \<equiv> activeKeyRows u (cb_keys db)"
    and "fresh \<equiv> numbered (nextSequence (cb_keys db)) (map (replacementKey now u new \<circ> snd) (activeKeyRows u (cb_keys db)))"
  shows "db' = db\<lparr>cb_keys := updateKeys (\<lambda>s k. s \<in> set (map fst rows) \<and> isActive k) (markRotated now) (cb_keys db) @ fresh\<rparr>"
    and "rot = \<lparr>ur_User = u, ur_OldKey = old, ur_NewKey = new,
                ur_RotatedRows = map (\<lambda>(s, k). (s, kr_UpdatedAt k)) rows, ur_CreatedRows = map fst fresh\<rparr>"
    and "rows \<noteq> []" "\<forall>(s, k) \<in> set rows. kr_Key k = old" "\<forall>(s, k) \<in> set (cb_keys db). kr_Key k \<noteq> new"
    and "distinct (map (kr_Account \<circ> snd) rows)" "set (map (kr_Account \<circ> snd) rows) \<supseteq> set (accountIDs db)"
    and "length rows = length (accountIDs db)"
proof -
  have noNew: "\<not> list_ex (\<lambda>(s, k). kr_Key k = new) (cb_keys db)" and ne: "rows \<noteq> []"
    using assms(1) by (auto simp: rotationTx_def rows_def Let_def split: if_splits)
  with assms(1) obtain accounts where c: "checkRotationRows old rows [] = Inr accounts"
    unfolding rotationTx_def rows_def Let_def by (auto split: sum.splits)
  note C = checkRotationRows_Inr [OF c]
  have acc: "\<not> (accountIDs db = [] \<or> length accounts \<noteq> length (accountIDs db) \<or> list_ex (\<lambda>a. a \<notin> set accounts) (accountIDs db))"
    using assms(1) noNew ne c unfolding rotationTx_def rows_def Let_def by (auto split: if_splits)
  have rot: "rotateRows now u new (nextSequence (cb_keys db)) rows (cb_keys db) [] =
     Inr (map fst fresh, updateKeys (\<lambda>s k. s \<in> set (map fst rows) \<and> isActive k) (markRotated now) (cb_keys db) @ fresh)"
    using rotateRows_eq [of "cb_keys db" "nextSequence (cb_keys db)" rows now u new "[]"] nextSequence_greater [of _ "cb_keys db"]
    unfolding rows_def fresh_def by (auto simp: activeKeyRows_def)
  from assms(1) noNew ne c acc rot
  show "db' = db\<lparr>cb_keys := updateKeys (\<lambda>s k. s \<in> set (map fst rows) \<and> isActive k) (markRotated now) (cb_keys db) @ fresh\<rparr>"
    "rot = \<lparr>ur_User = u, ur_OldKey = old, ur_NewKey = new,
                ur_RotatedRows = map (\<lambda>(s, k). (s, kr_UpdatedAt k)) rows, ur_CreatedRows = map fst fresh\<rparr>"
    unfolding rotationTx_def rows_def [symmetric] Let_def by auto
  show "rows \<noteq> []" by (rule ne)
  show "\<forall>(s, k) \<in> set rows. kr_Key k = old" "distinct (map (kr_Account \<circ> snd) rows)" using C by blast+
  show "\<forall>(s, k) \<in> set (cb_keys db). kr_Key k \<noteq> new" using noNew by (auto simp: list_ex_iff)
  show "set (map (kr_Account \<circ> snd) rows) \<supseteq> set (accountIDs db)" "length rows = length (accountIDs db)"
    using acc C by (auto simp: list_ex_iff)
qed

lemma checkRows_None:
  "checkRows c table cs = None \<longleftrightarrow> (\<forall>(s, P) \<in> set cs. \<exists>k. map_of table s = Some k \<and> P k)"
  by (induction c table cs rule: checkRows.induct) (auto split: option.splits)

lemma restoreStatus_eq:
  assumes "distinct (map fst rs)"
  shows "restoreStatus rs table =
     map (\<lambda>(s, k). (s, case map_of rs s of None \<Rightarrow> k | Some t \<Rightarrow> reactivate t k)) table"
  using assms
proof (induction rs arbitrary: table)
  case Nil
  then show ?case by (simp add: restoreStatus_def case_prod_beta)
next
  case (Cons r rs)
  obtain s t where r: "r = (s, t)" by (cases r)
  have "restoreStatus (r # rs) table = restoreStatus rs (updateKeys (\<lambda>s' k. s' = s) (reactivate t) table)"
    by (simp add: restoreStatus_def r)
  also have "\<dots> = map (\<lambda>(s, k). (s, case map_of rs s of None \<Rightarrow> k | Some t \<Rightarrow> reactivate t k))
      (updateKeys (\<lambda>s' k. s' = s) (reactivate t) table)" using Cons by simp
  also have "\<dots> = map (\<lambda>(s, k). (s, case map_of (r # rs) s of None \<Rightarrow> k | Some t \<Rightarrow> reactivate t k)) table"
  proof -
    have "map_of rs s = None" using Cons.prems r by (simp add: map_of_eq_None_iff)
    then show ?thesis unfolding updateKeys_def r by (auto simp: case_prod_beta split: option.split)
  qed
  finally show ?case .
qed

lemma reactivate_id: "isActive k \<Longrightarrow> reactivate (kr_UpdatedAt k) (k\<lparr>kr_Status := st, kr_UpdatedAt := t\<rparr>) = k"
  by (simp add: reactivate_def isActive_def)

lemma distinct_activeKeyRows: "key_table rows \<Longrightarrow> distinct (map fst (activeKeyRows u rows))"
  by (simp add: activeKeyRows_def key_table_def distinct_map_filter)

text \<open>Every row of the table is stored under its trimmed user name.\<close>

definition trimmed_users :: "key_rows \<Rightarrow> bool" where
  "trimmed_users rows \<longleftrightarrow> (\<forall>(s, k) \<in> set rows. sql_norm (kr_User k) = to_lower (kr_User k))"

lemma restore_marked:
  fixes rows u st now
  assumes "key_table rows"
  defines "t \<equiv> updateKeys (\<lambda>s k. s \<in> set (map fst (activeKeyRows u rows)) \<and> isActive k)
       (\<lambda>k. k\<lparr>kr_Status := st, kr_UpdatedAt := now\<rparr>) rows"
  shows "restoreStatus (map (\<lambda>(s, k). (s, kr_UpdatedAt k)) (activeKeyRows u rows)) t = rows"
proof -
  let ?rs = "map (\<lambda>(s, k). (s, kr_UpdatedAt k)) (activeKeyRows u rows)"
  have fsts: "map fst ?rs = map fst (activeKeyRows u rows)" by (simp add: comp_def case_prod_beta)
  then have d: "distinct (map fst ?rs)" using distinct_activeKeyRows [OF assms(1)] by (simp only:)
  have P: "(case map_of ?rs s of None \<Rightarrow> (if s \<in> set (map fst (activeKeyRows u rows)) \<and> isActive k
         then k\<lparr>kr_Status := st, kr_UpdatedAt := now\<rparr> else k)
       | Some t \<Rightarrow> reactivate t (if s \<in> set (map fst (activeKeyRows u rows)) \<and> isActive k
         then k\<lparr>kr_Status := st, kr_UpdatedAt := now\<rparr> else k)) = k" if m: "(s, k) \<in> set rows" for s k
  proof (cases "s \<in> set (map fst (activeKeyRows u rows))")
    case True
    then have a: "sql_norm (kr_User k) = u" "isActive k" using in_activeKeyRows [OF assms(1) m] by auto
    then have "(s, kr_UpdatedAt k) \<in> set ?rs" using m by (force simp: activeKeyRows_def)
    then have "map_of ?rs s = Some (kr_UpdatedAt k)" using d by (simp add: map_of_eq_Some_iff)
    then show ?thesis using True a(2) by (simp add: reactivate_id)
  next
    case False
    then have "map_of ?rs s = None" unfolding map_of_eq_None_iff set_map [symmetric] fsts .
    then show ?thesis using False by simp
  qed
  have "((\<lambda>(s, k). (s, case map_of ?rs s of None \<Rightarrow> k | Some t \<Rightarrow> reactivate t k)) \<circ>
      (\<lambda>(s, k). if s \<in> set (map fst (activeKeyRows u rows)) \<and> isActive k
         then (s, k\<lparr>kr_Status := st, kr_UpdatedAt := now\<rparr>) else (s, k))) x = x" if "x \<in> set rows" for x
  proof (cases x)
    case (Pair s k)
    then have "(s, k) \<in> set rows" using that by simp
    note P [OF this]
    then show ?thesis
      unfolding Pair comp_def case_prod_conv
      by (cases "s \<in> set (map fst (activeKeyRows u rows)) \<and> isActive k") (simp_all only: case_prod_conv if_True if_False simp_thms)
  qed
  then have "map (\<lambda>(s, k). (s, case map_of ?rs s of None \<Rightarrow> k | Some t \<Rightarrow> reactivate t k)) t = rows"
    unfolding t_def updateKeys_def map_map by (rule map_idI)
  then show ?thesis unfolding restoreStatus_eq [OF d] by simp
qed

lemma map_of_updateKeys:
  assumes "key_table rows" "(s, k) \<in> set rows"
  shows "map_of (updateKeys P f rows @ new) s = Some (if P s k then f k else k)"
proof -
  have "(s, if P s k then f k else k) \<in> set (updateKeys P f rows)"
    using assms(2) by (force simp: updateKeys_def)
  moreover have "distinct (map fst (updateKeys P f rows))" using assms(1) by (simp add: key_table_def)
  ultimately have "map_of (updateKeys P f rows) s = Some (if P s k then f k else k)"
    by (simp only: map_of_eq_Some_iff)
  then show ?thesis by (simp add: map_add_def)
qed

lemma map_of_numbered:
  assumes "\<forall>x \<in> set (map fst rows). x < n" "(s, k) \<in> set (numbered n ks)"
  shows "map_of (rows @ numbered n ks) s = Some k"
proof -
  have "n \<le> s" using numbered_fst [OF assms(2)] .
  then have "map_of rows s = None" using assms(1) by (force simp: map_of_eq_None_iff)
  moreover have "map_of (numbered n ks) s = Some k"
    using assms(2) by (intro map_of_is_SomeI) (simp_all add: distinct_map inj_on_def)
  ultimately show ?thesis by (simp add: map_add_def)
qed

text \<open>Deleting the rows that were appended to a table.\<close>

lemma deleteKeys_fresh:
  assumes "\<forall>x \<in> set (map fst rows). x < n"
  shows "deleteKeys (\<lambda>s k. s \<in> set (map fst (numbered n ks))) (rows @ numbered n ks) = rows"
proof -
  have "s \<notin> set (map fst (numbered n ks))" if "(s, k) \<in> set rows" for s k
  proof
    assume "s \<in> set (map fst (numbered n ks))"
    then have "n \<le> s" by (auto dest: numbered_fst)
    moreover have "s \<in> set (map fst rows)" using that by force
    ultimately show False using assms by auto
  qed
  then have "deleteKeys (\<lambda>s k. s \<in> set (map fst (numbered n ks))) rows = rows" by (intro deleteKeys_none) auto
  moreover have "deleteKeys (\<lambda>s k. s \<in> set (map fst (numbered n ks))) (numbered n ks) = []"
    by (intro deleteKeys_all) (force simp del: map_fst_numbered)
  ultimately show ?thesis by simp
qed

lemma RestoreUserKeyRotation_reverts:
  assumes t: "key_table (cb_keys db)" "trimmed_users (cb_keys db)"
    and a: "ApplyUserKeyRotationExpected tx now fence user expectedKey newKey db = (Inr rot, db')"
    and f: "validateWriteFence now' fence' (cb_leases db) = None"
  shows "RestoreUserKeyRotation TxOK now' fence' rot (db'\<lparr>cb_internal := internal\<rparr>) =
     (Inr (), db\<lparr>cb_internal := internal\<rparr>)"
proof -
  define u old new rows where "u = norm_user user" and "old = trim_space expectedKey" and "new = trim_space newKey"
    and "rows = activeKeyRows u (cb_keys db)"
  define fresh where "fresh = numbered (nextSequence (cb_keys db)) (map (replacementKey now u new \<circ> snd) rows)"
  define marked where "marked = updateKeys (\<lambda>s k. s \<in> set (map fst rows) \<and> isActive k) (markRotated now) (cb_keys db)"
  have in0: "u \<noteq> []" "old \<noteq> []" "new \<noteq> []" and tx: "rotationTx u old new now db = Inr (rot, db')"
    using a unfolding ApplyUserKeyRotationExpected_def Let_def u_def old_def new_def
    by (auto split: if_splits dest: controlTx_Inr(1))
  note R = rotationTx_Inr [OF tx, unfolded u_def, OF sql_norm_norm_user, folded u_def, folded rows_def, folded fresh_def marked_def]
  have keys: "cb_keys (db'\<lparr>cb_internal := internal\<rparr>) = marked @ fresh" and leases: "cb_leases db' = cb_leases db"
    using R(1) by simp_all
  have below: "\<forall>x \<in> set (map fst marked). x < nextSequence (cb_keys db)"
    unfolding marked_def map_fst_updateKeys using nextSequence_greater by blast
  have c1: "\<exists>k. map_of (marked @ fresh) s = Some k \<and> keyIs u ''active'' new k" if "s \<in> set (map fst fresh)" for s
  proof -
    from that obtain k where k: "(s, k) \<in> set fresh" by auto
    then have "map_of (marked @ fresh) s = Some k" using map_of_numbered [OF below] unfolding fresh_def by blast
    moreover have "keyIs u ''active'' new k"
      using numbered_snd [OF k [unfolded fresh_def]] by (auto simp: keyIs_def)
    ultimately show ?thesis by blast
  qed
  have c2: "\<exists>k. map_of (marked @ fresh) s = Some k \<and> keyIs u ''rotated'' old k" if m: "(s, k) \<in> set rows" for s k
  proof -
    have mem: "(s, k) \<in> set (cb_keys db)" "sql_norm (kr_User k) = u" "isActive k"
      using m by (auto simp: rows_def activeKeyRows_def)
    have "s \<in> set (map fst rows)" using m by force
    then have "map_of (marked @ fresh) s = Some (markRotated now k)"
      using map_of_updateKeys [OF t(1) mem(1)] mem(3) unfolding marked_def by (simp only: simp_thms if_True)
    moreover have "to_lower (kr_User k) = u" using t(2) mem by (auto simp: trimmed_users_def)
    then have "keyIs u ''rotated'' old (markRotated now k)"
      using R(4) m by (auto simp: keyIs_def markRotated_def equal_fold_def u_def norm_user_def)
    ultimately show ?thesis by blast
  qed
  have "checkRows ErrUserKeyRotationConflict (marked @ fresh)
     (map (\<lambda>s. (s, keyIs u ''active'' new)) (map fst fresh) @
      map (\<lambda>(s, at0). (s, keyIs u ''rotated'' old)) (map (\<lambda>(s, k). (s, kr_UpdatedAt k)) rows)) = None"
    unfolding checkRows_None using c1 c2 by auto
  moreover have "deleteKeys (\<lambda>s k. s \<in> set (map fst fresh)) (marked @ fresh) = marked"
    using deleteKeys_fresh [OF below] unfolding fresh_def .
  moreover have "restoreStatus (map (\<lambda>(s, k). (s, kr_UpdatedAt k)) rows) marked = cb_keys db"
    using restore_marked [OF t(1), where u = u and st = "''rotated''" and now = now] unfolding marked_def rows_def markRotated_def .
  ultimately have "restoreRotationTx rot (db'\<lparr>cb_internal := internal\<rparr>) = Inr ((), db\<lparr>cb_internal := internal\<rparr>)"
    unfolding restoreRotationTx_def keys R(2) by (simp add: R(1))
  then show ?thesis
    unfolding RestoreUserKeyRotation_def using in0 R(2,3) f leases
    by (simp add: controlTx_ok fresh_def)
qed

interpretation rotation: synced_change
  "\<lambda>(user, expectedKey, newKey). ApplyUserKeyRotationExpected tx now fence user expectedKey newKey"
  "RestoreUserKeyRotation TxOK now' fence'"
  "\<lambda>db. key_table (cb_keys db) \<and> trimmed_users (cb_keys db) \<and> validateWriteFence now' fence' (cb_leases db) = None"
  for tx now fence now' fence'
proof
  show "(case x of (user, expectedKey, newKey) \<Rightarrow> ApplyUserKeyRotationExpected tx now fence user expectedKey newKey) db =
     (Inl e, db') \<Longrightarrow> db' = db" for x db e db'
    by (cases x) (auto simp: ApplyUserKeyRotationExpected_def Let_def split: if_splits dest: controlTx_Inl)
  show "(case x of (user, expectedKey, newKey) \<Rightarrow> ApplyUserKeyRotationExpected tx now fence user expectedKey newKey) db =
     (Inr r, db') \<Longrightarrow> cb_internal db' = cb_internal db" for x db r db'
    by (cases x) (auto simp: ApplyUserKeyRotationExpected_def Let_def split: if_splits
        dest!: controlTx_Inr(1) rotationTx_Inr(1) [OF _ sql_norm_norm_user])
  show "key_table (cb_keys db) \<and> trimmed_users (cb_keys db) \<and> validateWriteFence now' fence' (cb_leases db) = None \<Longrightarrow>
     (case x of (user, expectedKey, newKey) \<Rightarrow> ApplyUserKeyRotationExpected tx now fence user expectedKey newKey) db =
     (Inr r, db') \<Longrightarrow>
     \<exists>d. RestoreUserKeyRotation TxOK now' fence' r (db'\<lparr>cb_internal := internal\<rparr>) = (Inr (), d) \<and>
       same_db d (db\<lparr>cb_internal := internal\<rparr>)"
    for db x r db' internal
    by (cases x) (auto simp: RestoreUserKeyRotation_reverts)
qed

subsection \<open>Internal keys\<close>

definition internal_secrets :: "(string, InternalKey) gomap \<Rightarrow> bool" where
  "internal_secrets t \<longleftrightarrow>
     (\<forall>u v k l. map_of t u = Some k \<longrightarrow> map_of t v = Some l \<longrightarrow> ik_Key k = ik_Key l \<longrightarrow> u = v)"

lemma map_of_snoc: "map_of t u = None \<Longrightarrow> map_of (t @ [(u, k)]) v = (if v = u then Some k else map_of t v)"
  by (auto simp: map_add_def split: option.splits)

lemma activate_id: "ik_Status k = ''active'' \<Longrightarrow> k\<lparr>ik_Status := ''active''\<rparr> = k"
  by simp

text \<open>Where the record of a user comes from.\<close>

definition ensured ::
  "int64 \<Rightarrow> (string, InternalKey) gomap \<Rightarrow> string option list \<Rightarrow> string \<Rightarrow> InternalKey \<Rightarrow> bool" where
  "ensured now existing random u k \<longleftrightarrow>
     (case map_of existing u of
        Some k0 \<Rightarrow> k = k0\<lparr>ik_Status := ''active''\<rparr>
      | None \<Rightarrow> ik_Status k = ''active'' \<and> ik_CreatedAt k = now \<and> (\<exists>raw \<in> set random. newInternalKey raw = Some (ik_Key k)))"

lemma ensured_active: "ensured now existing random u k \<Longrightarrow> ik_Status k = ''active''"
  by (auto simp: ensured_def split: option.splits)

lemma ensured_mono: "ensured now existing random u k \<Longrightarrow> set random \<subseteq> set random' \<Longrightarrow> ensured now existing random' u k"
  by (auto simp: ensured_def split: option.splits)

lemma internal_secrets_update:
  assumes "internal_secrets t" "map_of t u = Some k0" "ik_Key k = ik_Key k0"
  shows "internal_secrets (AList.update u k t)"
  using assms unfolding internal_secrets_def map_of_update by (auto split: if_splits)

lemma internal_secrets_snoc:
  assumes "internal_secrets t" "map_of t u = None" "\<not> secretTaken u (ik_Key k) t"
  shows "internal_secrets (t @ [(u, k)])"
proof -
  have "ik_Key l \<noteq> ik_Key k" if "map_of t v = Some l" for v l
    using assms(2,3) map_of_SomeD [OF that] that by (fastforce simp: secretTaken_def list_ex_iff)
  then show ?thesis
    using assms(1) unfolding internal_secrets_def map_of_snoc [OF assms(2)] by (auto split: if_splits) metis+
qed

lemma ensureUsers_Inr:
  assumes "ensureUsers now existing us random table result = Inr (result', table')" "distinct us"
    and "\<forall>u \<in> set us. map_of existing u = map_of table u" "internal_secrets table"
  shows "(\<forall>u \<in> set us. \<exists>k. map_of table' u = Some k \<and> ensured now existing random u k) \<and>
     (\<forall>u. u \<notin> set us \<longrightarrow> map_of table' u = map_of table u) \<and> internal_secrets table' \<and>
     result' = fold (\<lambda>u r. AList.update u (the (map_of table' u)) r) us result"
  using assms
proof (induction us arbitrary: random table result)
  case (Cons u us)
  show ?case
  proof (cases "map_of existing u")
    case (Some k)
    let ?k = "k\<lparr>ik_Status := ''active''\<rparr>"
    let ?t = "if ik_Status k \<noteq> ''active'' then AList.update u ?k table else table"
    have t: "map_of table u = Some k" using Cons.prems(3) Some by simp
    have "map_of ?t v = (if v = u then Some ?k else map_of table v)" for v using t by auto
    moreover have "internal_secrets ?t" using internal_secrets_update [OF Cons.prems(4) t] Cons.prems(4) by simp
    moreover have "ensureUsers now existing us random ?t (AList.update u ?k result) = Inr (result', table')"
      using Cons.prems(1) Some by (simp add: Let_def)
    ultimately have IH: "(\<forall>u \<in> set us. \<exists>k. map_of table' u = Some k \<and> ensured now existing random u k) \<and>
     (\<forall>v. v \<notin> set us \<longrightarrow> map_of table' v = (if v = u then Some ?k else map_of table v)) \<and> internal_secrets table' \<and>
     result' = fold (\<lambda>u r. AList.update u (the (map_of table' u)) r) us (AList.update u ?k result)"
      using Cons.IH [of random ?t "AList.update u ?k result"] Cons.prems(2,3) by auto
    moreover have "map_of table' u = Some ?k" using IH Cons.prems(2) by simp
    ultimately show ?thesis using Some by (auto simp: ensured_def)
  next
    case None
    then have t: "map_of table u = None" using Cons.prems(3) by simp
    obtain raw random' key where r: "random = raw # random'" "newInternalKey raw = Some key"
      "\<not> has_key table u" "\<not> secretTaken u key table"
      using Cons.prems(1) None by (auto simp: Let_def split: list.splits option.splits if_splits)
    let ?k = "\<lparr>ik_Key = key, ik_CreatedAt = now, ik_Status = ''active''\<rparr>"
    have run: "ensureUsers now existing us random' (table @ [(u, ?k)]) (AList.update u ?k result) = Inr (result', table')"
      using Cons.prems(1) None r by (simp add: Let_def)
    have "internal_secrets (table @ [(u, ?k)])" using internal_secrets_snoc [OF Cons.prems(4) t] r(4) by simp
    then have IH: "(\<forall>u \<in> set us. \<exists>k. map_of table' u = Some k \<and> ensured now existing random' u k) \<and>
     (\<forall>v. v \<notin> set us \<longrightarrow> map_of table' v = (if v = u then Some ?k else map_of table v)) \<and> internal_secrets table' \<and>
     result' = fold (\<lambda>u r. AList.update u (the (map_of table' u)) r) us (AList.update u ?k result)"
      using Cons.IH [OF run] Cons.prems(2,3) unfolding map_of_snoc [OF t] by auto
    moreover have "map_of table' u = Some ?k" using IH Cons.prems(2) by simp
    moreover have "ensured now existing random u ?k" using None r by (simp add: ensured_def)
    moreover have "ensured now existing random' v k \<Longrightarrow> ensured now existing random v k" for v k
      using ensured_mono r(1) by (metis set_subset_Cons)
    ultimately show ?thesis by (auto; metis)
  qed
qed simp

lemma ensureUsers_idle:
  assumes "\<forall>u \<in> set us. \<exists>k. map_of existing u = Some k \<and> ik_Status k = ''active''"
  shows "ensureUsers now existing us random table result =
     Inr (fold (\<lambda>u r. AList.update u (the (map_of existing u)) r) us result, table)"
  using assms by (induction us arbitrary: result) (auto simp: Let_def activate_id)

lemma deactivateOthers_map:
  assumes "distinct (map fst rows)" "\<forall>(u, k) \<in> set rows. u \<notin> set active \<longrightarrow> map_of table u = Some k"
  shows "map_of (deactivateOthers active rows table) u =
     (if u \<in> set (map fst rows) \<and> u \<notin> set active
      then map_option (\<lambda>k. k\<lparr>ik_Status := ''inactive''\<rparr>) (map_of table u) else map_of table u)"
  using assms
proof (induction rows arbitrary: table)
  case (Cons r rows)
  obtain v k where r: "r = (v, k)" by (cases r)
  let ?t = "if v \<in> set active \<or> ik_Status k = ''inactive'' then table
     else (case map_of table v of None \<Rightarrow> table | Some k' \<Rightarrow> AList.update v (k'\<lparr>ik_Status := ''inactive''\<rparr>) table)"
  have step: "deactivateOthers active (r # rows) table = deactivateOthers active rows ?t"
    by (simp add: deactivateOthers_def r)
  have t: "map_of ?t w = (if w = v \<and> v \<notin> set active then map_option (\<lambda>k. k\<lparr>ik_Status := ''inactive''\<rparr>) (map_of table v)
       else map_of table w)" for w
    using Cons.prems(2) r by auto
  have "map_of (deactivateOthers active rows ?t) u =
     (if u \<in> set (map fst rows) \<and> u \<notin> set active
      then map_option (\<lambda>k. k\<lparr>ik_Status := ''inactive''\<rparr>) (map_of ?t u) else map_of ?t u)"
  proof (rule Cons.IH)
    show "distinct (map fst rows)" using Cons.prems(1) by simp
    have "map_of ?t w = Some l" if "(w, l) \<in> set rows" "w \<notin> set active" for w l
    proof -
      have "w \<noteq> v" using that(1) Cons.prems(1) r by force
      then have "map_of ?t w = map_of table w" unfolding t by simp
      then show ?thesis using Cons.prems(2) that by auto
    qed
    then show "\<forall>(u, k) \<in> set rows. u \<notin> set active \<longrightarrow> map_of ?t u = Some k" by fast
  qed
  moreover have "v \<notin> set (map fst rows)" using Cons.prems(1) r by simp
  ultimately show ?case unfolding step t using r by auto
qed (simp add: deactivateOthers_def)

lemma deactivateOthers_idle:
  assumes "\<forall>(u, k) \<in> set rows. u \<in> set active \<or> ik_Status k = ''inactive''"
  shows "deactivateOthers active rows table = table"
  using assms by (induction rows) (auto simp: deactivateOthers_def)

lemma distinct_normalizedUsers: "distinct (normalizedUsers us)"
  by (simp add: normalizedUsers_def)

lemma wf_ensureUsers:
  "ensureUsers now existing us random table result = Inr (result', table') \<Longrightarrow> wf_map table \<Longrightarrow> wf_map table'"
proof (induction us arbitrary: random table result)
  case (Cons u us)
  have "wf_map (table @ [(u, k)])" if "\<not> has_key table u" for k
    using that Cons.prems(2) by (auto simp: wf_map_def has_key_set)
  with Cons show ?case
    by (auto simp: Let_def wf_map_update split: option.splits list.splits if_splits)
qed simp

lemma wf_deactivateOthers: "wf_map table \<Longrightarrow> wf_map (deactivateOthers active rows table)"
  unfolding deactivateOthers_def
proof (induction rows arbitrary: table)
  case (Cons r rows)
  obtain v k where r: "r = (v, k)" by (cases r)
  show ?case unfolding r by (simp, intro conjI impI Cons.IH) (auto split: option.split simp: Cons.prems wf_map_update)
qed simp

lemma EnsureInternalKeys_Inr:
  assumes e: "EnsureInternalKeys tx now fence random activeUsers db = (Inr result, db')"
    and wf: "wf_map (cb_internal db)" "internal_secrets (cb_internal db)"
  defines "users \<equiv> normalizedUsers activeUsers"
  shows "\<forall>u \<in> set users. \<exists>k. map_of (cb_internal db') u = Some k \<and> ensured now (cb_internal db) random u k"
    and "\<forall>u. u \<notin> set users \<longrightarrow>
       map_of (cb_internal db') u = map_option (\<lambda>k. k\<lparr>ik_Status := ''inactive''\<rparr>) (map_of (cb_internal db) u)"
    and "db' = db\<lparr>cb_internal := cb_internal db'\<rparr>" "wf_map (cb_internal db')" "internal_secrets (cb_internal db')"
    and "result = fold (\<lambda>u r. AList.update u (the (map_of (cb_internal db') u)) r) users []"
    and "validateWriteFence now fence (cb_leases db) = None"
proof -
  note T = controlTx_Inr [OF e [unfolded EnsureInternalKeys_def Let_def, folded users_def]]
  then obtain table where en: "ensureUsers now (cb_internal db) users random (cb_internal db) [] = Inr (result, table)"
    and db': "db' = db\<lparr>cb_internal := deactivateOthers users (cb_internal db) table\<rparr>"
    by (auto split: sum.splits)
  note E = ensureUsers_Inr [OF en _ _ wf(2)]
  have d: "distinct users" unfolding users_def by (rule distinct_normalizedUsers)
  have E': "\<forall>u \<in> set users. \<exists>k. map_of table u = Some k \<and> ensured now (cb_internal db) random u k"
    "\<forall>u. u \<notin> set users \<longrightarrow> map_of table u = map_of (cb_internal db) u" "internal_secrets table"
    "result = fold (\<lambda>u r. AList.update u (the (map_of table u)) r) users []"
    using E [OF d] by auto
  have m: "map_of (cb_internal db') u = (if u \<in> set users then map_of table u
      else map_option (\<lambda>k. k\<lparr>ik_Status := ''inactive''\<rparr>) (map_of (cb_internal db) u))" for u
  proof -
    have "\<forall>(u, k) \<in> set (cb_internal db). u \<notin> set users \<longrightarrow> map_of table u = Some k"
      using E'(2) wf(1) by (auto simp: wf_map_map_of)
    then have "map_of (cb_internal db') u = (if u \<in> set (map fst (cb_internal db)) \<and> u \<notin> set users
      then map_option (\<lambda>k. k\<lparr>ik_Status := ''inactive''\<rparr>) (map_of table u) else map_of table u)"
      unfolding db' using deactivateOthers_map [of "cb_internal db" users table u] wf(1) by (simp add: wf_map_def)
    moreover have "map_of (cb_internal db) u = None" if "u \<notin> set (map fst (cb_internal db))"
      using that by (simp add: map_of_eq_None_iff)
    ultimately show ?thesis using E'(2) by auto
  qed
  show "\<forall>u \<in> set users. \<exists>k. map_of (cb_internal db') u = Some k \<and> ensured now (cb_internal db) random u k"
    "\<forall>u. u \<notin> set users \<longrightarrow>
       map_of (cb_internal db') u = map_option (\<lambda>k. k\<lparr>ik_Status := ''inactive''\<rparr>) (map_of (cb_internal db) u)"
    using E'(1) m by simp_all
  show "db' = db\<lparr>cb_internal := cb_internal db'\<rparr>" "wf_map (cb_internal db')"
    "validateWriteFence now fence (cb_leases db) = None"
    using db' wf_deactivateOthers [OF wf_ensureUsers [OF en wf(1)]] T(2) by simp_all
  show "internal_secrets (cb_internal db')"
  proof -
    have "\<exists>k'. map_of table u = Some k' \<and> ik_Key k' = ik_Key k" if "map_of (cb_internal db') u = Some k" for u k
      using that m [of u] E'(2) by (auto split: if_splits)
    then show ?thesis using E'(3) unfolding internal_secrets_def by metis
  qed
  show "result = fold (\<lambda>u r. AList.update u (the (map_of (cb_internal db') u)) r) users []"
    unfolding E'(4) by (rule fold_cong) (simp_all add: m)
qed

lemma EnsureInternalKeys_again:
  assumes e: "EnsureInternalKeys tx now fence random activeUsers db = (Inr result, db')"
    and wf: "wf_map (cb_internal db)" "internal_secrets (cb_internal db)"
    and f: "validateWriteFence now' fence' (cb_leases db) = None"
  shows "EnsureInternalKeys TxOK now' fence' random' activeUsers db' = (Inr result, db')"
proof -
  note I = EnsureInternalKeys_Inr [OF e wf]
  let ?users = "normalizedUsers activeUsers"
  have "ensureUsers now' (cb_internal db') ?users random' (cb_internal db') [] = Inr (result, cb_internal db')"
    using I(1) ensured_active unfolding I(6) by (intro ensureUsers_idle) blast
  moreover have "deactivateOthers ?users (cb_internal db') (cb_internal db') = cb_internal db'"
  proof (rule deactivateOthers_idle, clarify)
    fix u k assume "(u, k) \<in> set (cb_internal db')" "ik_Status k \<noteq> ''inactive''"
    moreover from this(1) have "map_of (cb_internal db') u = Some k" using I(4) by (simp add: wf_map_map_of)
    ultimately show "u \<in> set ?users" using I(2) by (cases "map_of (cb_internal db) u") fastforce+
  qed
  moreover have "validateWriteFence now' fence' (cb_leases db') = None"
    using f I(3) by (metis controldb.update_convs(5) controldb.select_convs(1) controldb.surjective)
  ultimately show ?thesis
    unfolding EnsureInternalKeys_def Let_def by (intro controlTx_ok) simp_all
qed

text \<open>What a rotation does to the active rows.\<close>

lemma rotation_complete:
  assumes "ApplyUserKeyRotationExpected tx now fence user expectedKey newKey db = (r, db')"
    and "key_table (cb_keys db)" "distinct (accountIDs db)"
  shows "(\<forall>e. r = Inl e \<longrightarrow> db' = db) \<and>
     (\<forall>rot. r = Inr rot \<longrightarrow>
        (let u = norm_user user; before = activeKeyRows u (cb_keys db); after = activeKeyRows u (cb_keys db')
         in (\<forall>(s, k) \<in> set before. kr_Key k = trim_space expectedKey) \<and>
            (\<forall>(s, k) \<in> set after. kr_Key k = trim_space newKey) \<and>
            map (kr_Account \<circ> snd) after = map (kr_Account \<circ> snd) before \<and>
            set (map (kr_Account \<circ> snd) after) = set (accountIDs db) \<and> distinct (map (kr_Account \<circ> snd) after) \<and>
            (\<forall>v. v \<noteq> u \<longrightarrow> activeKeyRows v (cb_keys db') = activeKeyRows v (cb_keys db)) \<and>
            (\<forall>(s, k) \<in> set (cb_keys db). kr_Key k \<noteq> trim_space newKey) \<and>
            key_table (cb_keys db') \<and> db' = db\<lparr>cb_keys := cb_keys db'\<rparr>))"
proof (intro conjI allI impI)
  fix e assume "r = Inl e"
  then show "db' = db" using rotation.atomic [of tx now fence "(user, expectedKey, newKey)" db e db'] assms(1) by simp
next
  fix rot assume r: "r = Inr rot"
  define u where "u = norm_user user"
  have tx: "rotationTx u (trim_space expectedKey) (trim_space newKey) now db = Inr (rot, db')"
    using assms(1) r unfolding ApplyUserKeyRotationExpected_def Let_def u_def
    by (auto split: if_splits dest: controlTx_Inr(1))
  note R = rotationTx_Inr [OF tx, unfolded u_def, OF sql_norm_norm_user, folded u_def]
  let ?rows = "activeKeyRows u (cb_keys db)"
  let ?ks = "map (replacementKey now u (trim_space newKey) \<circ> snd) ?rows"
  let ?fresh = "numbered (nextSequence (cb_keys db)) ?ks"
  have uk: "\<forall>k \<in> set ?ks. sql_norm (kr_User k) = u \<and> isActive k" unfolding u_def by auto
  have keys: "cb_keys db' = updateKeys (\<lambda>s k. s \<in> set (map fst ?rows) \<and> isActive k) (markRotated now) (cb_keys db) @ ?fresh"
    using R(1) by simp
  have after: "activeKeyRows v (cb_keys db') = (if v = u then ?fresh else activeKeyRows v (cb_keys db))" for v
    unfolding keys activeKeyRows_append activeKeyRows_marked [OF assms(2) isActive_markRotated] activeKeyRows_numbered [OF uk] by simp
  have accs: "map (kr_Account \<circ> snd) ?fresh = map (kr_Account \<circ> snd) ?rows"
  proof -
    have "map (kr_Account \<circ> snd) ?fresh = map kr_Account (map snd ?fresh)" by (simp only: map_map)
    also have "\<dots> = map kr_Account ?ks" by (simp only: map_snd_numbered)
    finally show ?thesis by (simp add: comp_def)
  qed
  have same: "set (map (kr_Account \<circ> snd) ?rows) = set (accountIDs db)"
  proof (rule sym, rule card_seteq)
    show "card (set (map (kr_Account \<circ> snd) ?rows)) \<le> card (set (accountIDs db))"
      using distinct_card [OF R(6)] distinct_card [OF assms(3)] R(8) by simp
  qed (use R(7) in simp_all)
  have new: "\<forall>(s, k) \<in> set ?fresh. kr_Key k = trim_space newKey" by (auto dest!: numbered_snd)
  have "key_table (updateKeys (\<lambda>s k. s \<in> set (map fst ?rows) \<and> isActive k) (markRotated now) (cb_keys db) @ ?fresh)"
    using key_table_numbered [of "updateKeys (\<lambda>s k. s \<in> set (map fst ?rows) \<and> isActive k) (markRotated now) (cb_keys db)" ?ks]
      assms(2) nextSequence_updateKeys by (simp only: key_table_updateKeys)
  then have kt: "key_table (cb_keys db')" unfolding keys .
  show "let u = norm_user user; before = activeKeyRows u (cb_keys db); after = activeKeyRows u (cb_keys db')
         in (\<forall>(s, k) \<in> set before. kr_Key k = trim_space expectedKey) \<and>
            (\<forall>(s, k) \<in> set after. kr_Key k = trim_space newKey) \<and>
            map (kr_Account \<circ> snd) after = map (kr_Account \<circ> snd) before \<and>
            set (map (kr_Account \<circ> snd) after) = set (accountIDs db) \<and> distinct (map (kr_Account \<circ> snd) after) \<and>
            (\<forall>v. v \<noteq> u \<longrightarrow> activeKeyRows v (cb_keys db') = activeKeyRows v (cb_keys db)) \<and>
            (\<forall>(s, k) \<in> set (cb_keys db). kr_Key k \<noteq> trim_space newKey) \<and>
            key_table (cb_keys db') \<and> db' = db\<lparr>cb_keys := cb_keys db'\<rparr>"
    unfolding Let_def u_def [symmetric] after accs if_True
    using R(4,5,6) same new accs kt R(1) by simp
qed

section \<open>Properties\<close>

text \<open>
  A rotation replaces the key on every account at once. If it fails nothing changed. If it
  succeeds, all active rows of the user carried the expected key, one for each account of the
  catalogue and no other; afterwards the user's active rows are the same accounts in the same
  order with the new key, which no row had before; the active rows of every other user are the
  same, and nothing but the key table changed.
\<close>

theorem ApplyUserKeyRotation_complete:
  assumes "ApplyUserKeyRotationExpected tx now fence user expectedKey newKey db = (r, db')"
    and "key_table (cb_keys db)" "distinct (accountIDs db)"
  shows "(\<forall>e. r = Inl e \<longrightarrow> db' = db) \<and>
     (\<forall>rot. r = Inr rot \<longrightarrow>
        (let u = norm_user user; before = activeKeyRows u (cb_keys db); after = activeKeyRows u (cb_keys db')
         in (\<forall>(s, k) \<in> set before. kr_Key k = trim_space expectedKey) \<and>
            (\<forall>(s, k) \<in> set after. kr_Key k = trim_space newKey) \<and>
            map (kr_Account \<circ> snd) after = map (kr_Account \<circ> snd) before \<and>
            set (map (kr_Account \<circ> snd) after) = set (accountIDs db) \<and> distinct (map (kr_Account \<circ> snd) after) \<and>
            (\<forall>v. v \<noteq> u \<longrightarrow> activeKeyRows v (cb_keys db') = activeKeyRows v (cb_keys db)) \<and>
            (\<forall>(s, k) \<in> set (cb_keys db). kr_Key k \<noteq> trim_space newKey) \<and>
            key_table (cb_keys db') \<and> db' = db\<lparr>cb_keys := cb_keys db'\<rparr>))"
  by (rule rotation_complete [OF assms])

theorem ApplyUserKeyRotation_complete_witness:
  "\<exists>rot db'. ApplyUserKeyRotationExpected TxOK 7 [] ''ann'' ''k'' ''k2'' twoAccounts = (Inr rot, db') \<and>
     set (map (kr_Account \<circ> snd) (activeKeyRows ''ann'' (cb_keys db'))) = set (accountIDs twoAccounts)"
proof -
  obtain rot db' where run: "ApplyUserKeyRotationExpected TxOK 7 [] ''ann'' ''k'' ''k2'' twoAccounts = (Inr rot, db')"
  proof -
    have "\<not> isl (fst (ApplyUserKeyRotationExpected TxOK 7 [] ''ann'' ''k'' ''k2'' twoAccounts))" by code_simp
    then show ?thesis using that by (rule ran_ok)
  qed
  moreover have "key_table (cb_keys twoAccounts)" "distinct (accountIDs twoAccounts)" "norm_user ''ann'' = ''ann''"
    by code_simp+
  ultimately show ?thesis
    using ApplyUserKeyRotation_complete [OF run] by (auto simp: Let_def)
qed

text \<open>
  A rotation can be undone. With the record the rotation returned, \<open>RestoreUserKeyRotation\<close> gives
  back the database exactly, row for row and time stamp for time stamp, apart from the internal keys,
  which may have been synchronised in between and are kept.
\<close>

theorem RestoreUserKeyRotation_undoes:
  assumes "ApplyUserKeyRotationExpected tx now fence user expectedKey newKey db = (Inr rot, db')"
    and "key_table (cb_keys db)" "trimmed_users (cb_keys db)"
    and "validateWriteFence now' fence' (cb_leases db) = None"
  shows "RestoreUserKeyRotation TxOK now' fence' rot (db'\<lparr>cb_internal := internal\<rparr>) =
     (Inr (), db\<lparr>cb_internal := internal\<rparr>)"
  using RestoreUserKeyRotation_reverts [OF assms(2,3,1,4)] .

theorem RestoreUserKeyRotation_undoes_witness:
  "\<exists>rot db'. ApplyUserKeyRotationExpected TxOK 7 [] ''ann'' ''k'' ''k2'' twoAccounts = (Inr rot, db') \<and>
     RestoreUserKeyRotation TxOK 8 [] rot (db'\<lparr>cb_internal := []\<rparr>) = (Inr (), twoAccounts)"
proof -
  obtain rot db' where run: "ApplyUserKeyRotationExpected TxOK 7 [] ''ann'' ''k'' ''k2'' twoAccounts = (Inr rot, db')"
  proof -
    have "\<not> isl (fst (ApplyUserKeyRotationExpected TxOK 7 [] ''ann'' ''k'' ''k2'' twoAccounts))" by code_simp
    then show ?thesis using that by (rule ran_ok)
  qed
  moreover have "key_table (cb_keys twoAccounts)" "trimmed_users (cb_keys twoAccounts)" "twoAccounts\<lparr>cb_internal := []\<rparr> = twoAccounts"
    by code_simp+
  ultimately show ?thesis
    using RestoreUserKeyRotation_undoes [OF run, of 8 "[]" "[]"] by (auto simp: validateWriteFence_def)
qed

text \<open>
  The internal keys follow the active users. After a successful \<open>EnsureInternalKeys\<close> every active
  user has an active internal key, which is the one it had if it had one, and otherwise a newly
  generated one; the key of everybody else is kept but inactive; no two users share a key, no
  other table changed. Running it again for the same users needs no random bytes, returns the same
  keys and changes nothing.
\<close>

theorem EnsureInternalKeys_synced:
  assumes "EnsureInternalKeys tx now fence random activeUsers db = (Inr result, db')"
    and "wf_map (cb_internal db)" "internal_secrets (cb_internal db)"
    and "validateWriteFence now' fence' (cb_leases db) = None"
  shows "(\<forall>u \<in> set (normalizedUsers activeUsers). \<exists>k. map_of (cb_internal db') u = Some k \<and> ik_Status k = ''active'' \<and>
            (case map_of (cb_internal db) u of
               Some old \<Rightarrow> ik_Key k = ik_Key old \<and> ik_CreatedAt k = ik_CreatedAt old
             | None \<Rightarrow> \<exists>raw \<in> set random. newInternalKey raw = Some (ik_Key k))) \<and>
         (\<forall>u. u \<notin> set (normalizedUsers activeUsers) \<longrightarrow>
            map_of (cb_internal db') u = map_option (\<lambda>k. k\<lparr>ik_Status := ''inactive''\<rparr>) (map_of (cb_internal db) u)) \<and>
         internal_secrets (cb_internal db') \<and> db' = db\<lparr>cb_internal := cb_internal db'\<rparr> \<and>
         EnsureInternalKeys TxOK now' fence' [] activeUsers db' = (Inr result, db')"
proof -
  note I = EnsureInternalKeys_Inr [OF assms(1-3)]
  have "ik_Status k = ''active'' \<and> (case map_of (cb_internal db) u of
               Some old \<Rightarrow> ik_Key k = ik_Key old \<and> ik_CreatedAt k = ik_CreatedAt old
             | None \<Rightarrow> \<exists>raw \<in> set random. newInternalKey raw = Some (ik_Key k))"
    if "ensured now (cb_internal db) random u k" for u k
    using that by (auto simp: ensured_def split: option.splits)
  then show ?thesis
    using I(1,2,3,5) EnsureInternalKeys_again [OF assms, of "[]"] by blast
qed

theorem EnsureInternalKeys_synced_witness:
  "\<exists>result db'. EnsureInternalKeys TxOK 5 [] [Some ''r''] ['' Ann''] twoAccounts = (Inr result, db') \<and>
     EnsureInternalKeys TxOK 6 [] [] ['' Ann''] db' = (Inr result, db') \<and> internal_secrets (cb_internal db')"
proof -
  obtain result db' where run: "EnsureInternalKeys TxOK 5 [] [Some ''r''] ['' Ann''] twoAccounts = (Inr result, db')"
  proof -
    have "\<not> isl (fst (EnsureInternalKeys TxOK 5 [] [Some ''r''] ['' Ann''] twoAccounts))" by code_simp
    then show ?thesis using that by (rule ran_ok)
  qed
  have "cb_internal twoAccounts = []" by (simp add: twoAccounts_def)
  then have wf: "wf_map (cb_internal twoAccounts)" "internal_secrets (cb_internal twoAccounts)"
    by (simp_all add: internal_secrets_def)
  show ?thesis using EnsureInternalKeys_synced [OF run wf, of 6 "[]"] run by (auto simp: validateWriteFence_def)
qed

end
