(* ===== verification/Auth_Snapshot.thy ===== *)
theory Auth_Snapshot
  imports Drain Key_Records
begin

text \<open>
  \<open>internal/failover/auth_snapshot.go\<close>: the publisher of the authentication snapshot, the only way
  from the catalogue to the gateways. It synchronises the internal keys, builds the records from the
  tables under the write fence, replaces the snapshot file and waits until a gateway reports the
  new generation. \<open>encoding/json\<close> (an encoder and a decoder), \<open>net/url\<close> and the random UUID are
  arguments; so are the outcomes of reads, of the file system and of the probes.
\<close>

section \<open>Definitions\<close>

subsection \<open>The records of a snapshot\<close>

definition activeRecordUsers :: "KeyRecord list \<Rightarrow> string list" where
  "activeRecordUsers records =
     sort (dedup [] (filter (\<lambda>u. u \<noteq> []) (map (norm_user \<circ> kr_User) (filter isActive records))))"

text \<open>\<open>hex.DecodeString\<close> takes an even number of digits of either case.\<close>

definition hexDigit :: "char \<Rightarrow> bool" where
  "hexDigit c \<longleftrightarrow> is_lower_hex c \<or> (65 \<le> byte c \<and> byte c \<le> 70)"

definition validInternalKey :: "string \<Rightarrow> bool" where
  "validInternalKey key \<longleftrightarrow>
     has_prefix ''cpa_internal_'' key \<and> length key = length ''cpa_internal_'' + 64 \<and>
     list_all hexDigit (drop (length ''cpa_internal_'') key)"

definition accountCatalog :: "Account list \<Rightarrow> (string, Account) gomap" where
  "accountCatalog accounts = fold (\<lambda>a m. AList.update (an_ID a) a m) accounts []"

text \<open>The active records by normalised user; \<open>Failover_Service\<close> groups them in the same way.\<close>

definition addRecord :: "KeyRecord \<Rightarrow> (string, KeyRecord list) gomap \<Rightarrow> (string, KeyRecord list) gomap" where
  "addRecord k m =
     (let user = norm_user (kr_User k)
      in if \<not> isActive k \<or> user = [] then m
         else AList.update user ((case map_of m user of None \<Rightarrow> [] | Some items \<Rightarrow> items) @ [k]) m)"

definition recordsByUser :: "KeyRecord list \<Rightarrow> (string, KeyRecord list) gomap" where
  "recordsByUser records = fold addRecord records []"

definition secretsOf :: "KeyRecord list \<Rightarrow> string list" where
  "secretsOf items = dedup [] (map kr_Key items)"

text \<open>The pairs of key and account of a user: one by the route when the key is unified, else all.\<close>

definition userPairs ::
  "(string, Account) gomap \<Rightarrow> (string, string) gomap \<Rightarrow> string \<Rightarrow> KeyRecord list \<Rightarrow> (string \<times> string) list" where
  "userPairs catalog routes user items =
     (if length (secretsOf items) = 1
      then (let account = trim_space (gstring routes user)
            in case map_of catalog account of
                 None \<Rightarrow> []
               | Some metadata \<Rightarrow>
                   if \<not> an_GroupEnabled metadata then []
                   else (case List.find (\<lambda>k. kr_Account k = account) items of
                           None \<Rightarrow> []
                         | Some k \<Rightarrow> [(kr_Key k, account)]))
      else map (\<lambda>k. (kr_Key k, kr_Account k)) (filter (\<lambda>k. has_key catalog (kr_Account k)) items))"

definition authRecord :: "string \<Rightarrow> string \<Rightarrow> string \<times> string \<Rightarrow> AuthRecord" where
  "authRecord user internal pair =
     \<lparr>ExternalKeySHA256 = sha256_hex (fst pair), UserEmail = user, Account = snd pair,
      Backend = ''cliproxy-'' @ snd pair @ '':8317'', InternalKey = internal, Label = user @ '':'' @ snd pair\<rparr>"

text \<open>A digest is emitted once; \<open>emitted\<close> are the records so far.\<close>

definition emitPair :: "string \<Rightarrow> string \<Rightarrow> string \<times> string \<Rightarrow> AuthRecord list \<Rightarrow> AuthRecord list" where
  "emitPair user internal pair emitted =
     (if sha256_hex (fst pair) \<in> set (map ExternalKeySHA256 emitted) then emitted
      else emitted @ [authRecord user internal pair])"

datatype publish_error =
    PublisherIncomplete
  | SnapshotReadFailed
  | InternalKeysFailed control_error
  | FenceFailed lease_error
  | NoValidInternalKey string
  | EncodeFailed
  | GeneratedInvalid snapshot_error
  | SnapshotRootRequired
  | SnapshotWriteFailed
  | NoGatewayProbe
  | NotActivated string "probe_error option"
and probe_error = ProbeTransport | ProbeStatus int | ProbeDecode

fun buildRecords ::
  "(string, Account) gomap \<Rightarrow> (string, string) gomap \<Rightarrow> (string, KeyRecord list) gomap \<Rightarrow> (string, InternalKey) gomap \<Rightarrow>
   string list \<Rightarrow> AuthRecord list \<Rightarrow> publish_error + AuthRecord list" where
  "buildRecords catalog routes groups internalKeys [] emitted = Inr emitted"
| "buildRecords catalog routes groups internalKeys (user # users) emitted =
     (case map_of internalKeys user of
        None \<Rightarrow> Inl (NoValidInternalKey user)
      | Some internal \<Rightarrow>
          if ik_Status internal \<noteq> ''active'' \<or> \<not> validInternalKey (ik_Key internal) then Inl (NoValidInternalKey user)
          else buildRecords catalog routes groups internalKeys users
                 (fold (emitPair user (ik_Key internal))
                    (userPairs catalog routes user (case map_of groups user of None \<Rightarrow> [] | Some items \<Rightarrow> items)) emitted))"

record publish_codec =
  pc_float :: parse_float
  pc_enc :: "AuthSnapshot \<Rightarrow> string option"
  pc_dec :: "string \<Rightarrow> rawAuthSnapshot option"
  pc_status :: "string \<Rightarrow> Status option"
  pc_url :: "string \<Rightarrow> (string \<times> string) option"

definition newGeneration :: "string \<Rightarrow> string" where
  "newGeneration uuid = filter (\<lambda>c. c \<noteq> CHR ''-'') uuid"

definition buildSnapshot ::
  "string \<Rightarrow> int64 \<Rightarrow> Account list \<Rightarrow> (string, string) gomap \<Rightarrow> KeyRecord list \<Rightarrow> (string, InternalKey) gomap \<Rightarrow>
   publish_error + AuthSnapshot" where
  "buildSnapshot uuid now accounts routes records internalKeys =
     (let groups = recordsByUser records
      in map_sum id (\<lambda>authRecords. \<lparr>as_Version = 1, as_Generation = newGeneration uuid, as_GeneratedAt = f64_of_int now,
                                     as_Records = authRecords\<rparr>)
           (buildRecords (accountCatalog accounts) routes groups internalKeys (sort (keys groups)) []))"

definition buildPayload ::
  "publish_codec \<Rightarrow> string \<Rightarrow> int64 \<Rightarrow> Account list \<Rightarrow> (string, string) gomap \<Rightarrow> KeyRecord list \<Rightarrow> (string, InternalKey) gomap \<Rightarrow>
   publish_error + string \<times> string" where
  "buildPayload codec uuid now accounts routes records internalKeys =
     (case buildSnapshot uuid now accounts routes records internalKeys of
        Inl e \<Rightarrow> Inl e
      | Inr snapshot \<Rightarrow>
          (case pc_enc codec snapshot of
             None \<Rightarrow> Inl EncodeFailed
           | Some encoded \<Rightarrow>
               (let payload = encoded @ [CHR 10]
                in case ParseAuthSnapshot (pc_float codec) (pc_dec codec) (RBytes payload) of
                     Inl e \<Rightarrow> Inl (GeneratedInvalid e)
                   | Inr _ \<Rightarrow> Inr (payload, as_Generation snapshot))))"

subsection \<open>Waiting for a gateway\<close>

definition normalizedProbeURLs :: "(string \<Rightarrow> (string \<times> string) option) \<Rightarrow> string list \<Rightarrow> string list" where
  "normalizedProbeURLs parse values =
     dedup [] (filter (\<lambda>v. case parse v of
                             None \<Rightarrow> False
                           | Some (scheme, host) \<Rightarrow> (scheme = ''http'' \<or> scheme = ''https'') \<and> host \<noteq> [])
                 (map (\<lambda>v. trim_right_slash (trim_space v)) values))"

definition probeAuthGeneration :: "(string \<Rightarrow> Status option) \<Rightarrow> string \<Rightarrow> answer \<Rightarrow> probe_error + bool" where
  "probeAuthGeneration dec generation ans =
     (case ans of
        TransportError \<Rightarrow> Inl ProbeTransport
      | Answer status body \<Rightarrow>
          if status \<noteq> 200 then Inl (ProbeStatus status)
          else (case dec (take (2 ^ 20) body) of
                  None \<Rightarrow> Inl ProbeDecode
                | Some st \<Rightarrow> Inr (ks_ActiveGeneration (st_Auth st) = generation)))"

text \<open>One round over the URLs: whether a gateway is active on the generation, and the last error.\<close>

fun probeRound ::
  "(string \<Rightarrow> Status option) \<Rightarrow> string \<Rightarrow> (string \<Rightarrow> answer) \<Rightarrow> string list \<Rightarrow> probe_error option \<Rightarrow> bool \<times> probe_error option" where
  "probeRound dec generation ask [] lastError = (False, lastError)"
| "probeRound dec generation ask (url # urls) lastError =
     (case probeAuthGeneration dec generation (ask url) of
        Inl e \<Rightarrow> probeRound dec generation ask urls (Some e)
      | Inr active \<Rightarrow> if active then (True, lastError) else probeRound dec generation ask urls lastError)"

text \<open>
  The environment of a wait, in nanoseconds: when the caller's own context ends, what round \<open>i\<close>
  answers at a URL and what it takes besides the timer. When the timer and the end of the context
  are both ready the \<open>select\<close> may take either; a further round then has a cancelled context, in
  which every probe fails, so that the outcome is the one modelled.
\<close>

record wait_env =
  we_context :: "nat option"
  we_ask :: "nat \<Rightarrow> string \<Rightarrow> answer"
  we_spent :: "nat \<Rightarrow> nat"

function waitLoop ::
  "(string \<Rightarrow> Status option) \<Rightarrow> string \<Rightarrow> string list \<Rightarrow> nat \<Rightarrow> nat \<Rightarrow> wait_env \<Rightarrow> nat \<Rightarrow> nat \<Rightarrow> probe_error option \<Rightarrow>
   (publish_error + unit) \<times> nat" where
  "waitLoop dec generation urls deadline interval env i elapsed lastError =
     (let (active, err) = probeRound dec generation (we_ask env i) urls lastError;
          elapsed' = elapsed + interval + we_spent env i
      in if active then (Inr (), Suc i)
         else if deadline \<le> elapsed' \<or> interval = 0 then (Inl (NotActivated generation err), Suc i)
         else waitLoop dec generation urls deadline interval env (Suc i) elapsed' err)"
  by pat_completeness auto
termination
  by (relation "measure (\<lambda>(dec, generation, urls, deadline, interval, env, i, elapsed, lastError). deadline - elapsed)") auto

declare waitLoop.simps [simp del]

record publisher =
  pb_Wired :: bool
  pb_Root :: string
  pb_ProbeURLs :: "string list"
  pb_WaitTimeout :: int64
  pb_PollInterval :: int64

definition waitInterval :: "publisher \<Rightarrow> nat" where
  "waitInterval p = nat (if pb_PollInterval p \<le> 0 then 100 * 10 ^ 6 else pb_PollInterval p)"

definition waitDeadline :: "publisher \<Rightarrow> wait_env \<Rightarrow> nat" where
  "waitDeadline p env =
     (let timeout = nat (if pb_WaitTimeout p \<le> 0 then 8 * 10 ^ 9 else pb_WaitTimeout p)
      in case we_context env of None \<Rightarrow> timeout | Some t \<Rightarrow> min t timeout)"

definition waitForGeneration :: "publish_codec \<Rightarrow> publisher \<Rightarrow> wait_env \<Rightarrow> string \<Rightarrow> (publish_error + unit) \<times> nat" where
  "waitForGeneration codec p env generation =
     (let urls = normalizedProbeURLs (pc_url codec) (pb_ProbeURLs p)
      in if urls = [] then (Inl NoGatewayProbe, 0)
         else waitLoop (pc_status codec) generation urls (waitDeadline p env) (waitInterval p) env 0 0 None)"

subsection \<open>Publishing\<close>

datatype store_read = UsersRead | AccountsRead | RoutesRead | KeysRead | InternalRead

text \<open>The file is replaced atomically; the steps around the replacement can fail as well.\<close>

datatype file_write = Written | NotReplaced | ReplacedThenFailed

record publish_env =
  pe_reads :: "store_read \<Rightarrow> bool"
  pe_ensure :: tx
  pe_ensureAt :: int64
  pe_random :: "string option list"
  pe_fence :: tx
  pe_fenceAt :: int64
  pe_uuid :: string
  pe_now :: int64
  pe_write :: file_write
  pe_wait :: wait_env

record published =
  pw_db :: controldb
  pw_file :: "string option"

definition writeSnapshot :: "file_write \<Rightarrow> string \<Rightarrow> string option \<Rightarrow> (publish_error + unit) \<times> string option" where
  "writeSnapshot outcome payload file =
     (case outcome of
        Written \<Rightarrow> (Inr (), Some payload)
      | NotReplaced \<Rightarrow> (Inl SnapshotWriteFailed, file)
      | ReplacedThenFailed \<Rightarrow> (Inl SnapshotWriteFailed, Some payload))"

text \<open>The operation under the fence: read all tables, build, write.\<close>

definition publishFenced ::
  "publish_codec \<Rightarrow> publisher \<Rightarrow> publish_env \<Rightarrow> published \<Rightarrow> (publish_error + string) \<times> string option" where
  "publishFenced codec p env w =
     (if \<not> (pe_reads env AccountsRead \<and> pe_reads env RoutesRead \<and> pe_reads env KeysRead \<and> pe_reads env InternalRead)
      then (Inl SnapshotReadFailed, pw_file w)
      else (case buildPayload codec (pe_uuid env) (pe_now env) (ReadAccounts (pw_db w)) (ReadRoutes (pw_db w))
                   (ReadKeyRecords (pw_db w)) (ReadInternalKeys (pw_db w)) of
              Inl e \<Rightarrow> (Inl e, pw_file w)
            | Inr (payload, generation) \<Rightarrow>
                if trim_space (pb_Root p) = [] then (Inl SnapshotRootRequired, pw_file w)
                else map_prod (map_sum id (\<lambda>_. generation)) id (writeSnapshot (pe_write env) payload (pw_file w))))"

definition PublishAuthSnapshot ::
  "publish_codec \<Rightarrow> publisher \<Rightarrow> Lease list \<Rightarrow> publish_env \<Rightarrow> bool \<Rightarrow> published \<Rightarrow> (publish_error + string) \<times> published" where
  "PublishAuthSnapshot codec p fence env wait w =
     (if \<not> pb_Wired p then (Inl PublisherIncomplete, w)
      else if \<not> pe_reads env UsersRead then (Inl SnapshotReadFailed, w)
      else (case EnsureInternalKeys (pe_ensure env) (pe_ensureAt env) fence (pe_random env)
                   (activeRecordUsers (ReadKeyRecords (pw_db w))) (pw_db w) of
              (Inl e, db) \<Rightarrow> (Inl (InternalKeysFailed e), w\<lparr>pw_db := db\<rparr>)
            | (Inr _, db) \<Rightarrow>
                (let w1 = w\<lparr>pw_db := db\<rparr>
                 in case WithWriteFence (pe_fence env) (pe_fenceAt env) fence (cb_leases db)
                           (\<lambda>_. Inr (publishFenced codec p env w1)) of
                      Inl e \<Rightarrow> (Inl (FenceFailed e), w1)
                    | Inr (Inl e, file) \<Rightarrow> (Inl e, w1\<lparr>pw_file := file\<rparr>)
                    | Inr (Inr generation, file) \<Rightarrow>
                        (let w2 = w1\<lparr>pw_file := file\<rparr>
                         in if \<not> wait then (Inr generation, w2)
                            else (case fst (waitForGeneration codec p (pe_wait env) generation) of
                                    Inl e \<Rightarrow> (Inl e, w2)
                                  | Inr _ \<Rightarrow> (Inr generation, w2))))))"

section \<open>Lemmas\<close>

subsection \<open>Grouping\<close>

definition activeOf :: "string \<Rightarrow> KeyRecord list \<Rightarrow> KeyRecord list" where
  "activeOf u records = filter (\<lambda>k. isActive k \<and> norm_user (kr_User k) = u) records"

lemma fold_addRecord:
  "map_of (fold addRecord records m) u =
     (if u = [] \<or> activeOf u records = [] then map_of m u
      else Some ((case map_of m u of None \<Rightarrow> [] | Some items \<Rightarrow> items) @ activeOf u records))"
  by (induction records arbitrary: m) (auto simp: addRecord_def activeOf_def Let_def update_conv' split: option.splits)

text \<open>The incremental grouping is the filter, user by user.\<close>

lemma recordsByUser_lookup:
  "map_of (recordsByUser records) u = (if u = [] \<or> activeOf u records = [] then None else Some (activeOf u records))"
  by (simp add: recordsByUser_def fold_addRecord)

lemma wf_recordsByUser: "wf_map (recordsByUser records)"
proof -
  have "wf_map m \<Longrightarrow> wf_map (fold addRecord records m)" for m
    by (induction records arbitrary: m) (auto simp: addRecord_def Let_def)
  then show ?thesis by (simp add: recordsByUser_def)
qed

lemma set_activeRecordUsers: "u \<in> set (activeRecordUsers records) \<longleftrightarrow> u \<noteq> [] \<and> activeOf u records \<noteq> []"
  by (auto simp: activeRecordUsers_def set_dedup activeOf_def filter_empty_conv)

lemma sorted_users: "sort (keys (recordsByUser records)) = activeRecordUsers records"
proof (rule sorted_distinct_set_unique)
  show "distinct (sort (keys (recordsByUser records)))" using wf_recordsByUser by (simp add: wf_map_def)
  show "distinct (activeRecordUsers records)" by (simp add: activeRecordUsers_def)
  have "u \<in> set (keys (recordsByUser records)) \<longleftrightarrow> u \<in> set (activeRecordUsers records)" for u
    unfolding set_activeRecordUsers has_key_set [symmetric] has_key_map_of recordsByUser_lookup by simp
  then show "set (sort (keys (recordsByUser records))) = set (activeRecordUsers records)" by auto
qed (simp_all add: activeRecordUsers_def)

lemma map_of_accountCatalog:
  assumes "distinct (map an_ID accounts)"
  shows "map_of (accountCatalog accounts) ident = Some a \<longleftrightarrow> a \<in> set accounts \<and> an_ID a = ident"
  unfolding accountCatalog_def fold_update_distinct [OF assms, of "\<lambda>a. a"] by auto

subsection \<open>Emitted records\<close>

definition userTriples ::
  "(string, Account) gomap \<Rightarrow> (string, string) gomap \<Rightarrow> (string, KeyRecord list) gomap \<Rightarrow> (string, InternalKey) gomap \<Rightarrow>
   string list \<Rightarrow> (string \<times> string \<times> string \<times> string) list" where
  "userTriples catalog routes groups internalKeys users =
     concat (map (\<lambda>u. map (\<lambda>p. (u, ik_Key (the (map_of internalKeys u)), p))
                       (userPairs catalog routes u (case map_of groups u of None \<Rightarrow> [] | Some items \<Rightarrow> items))) users)"

definition emitTriple :: "string \<times> string \<times> string \<times> string \<Rightarrow> AuthRecord list \<Rightarrow> AuthRecord list" where
  "emitTriple t = (case t of (u, internal, p) \<Rightarrow> emitPair u internal p)"

lemma emitTriple_simp [simp]: "emitTriple (u, internal, p) = emitPair u internal p"
  by (simp add: emitTriple_def)

definition internal_ready :: "(string, InternalKey) gomap \<Rightarrow> string \<Rightarrow> bool" where
  "internal_ready internalKeys u \<longleftrightarrow>
     (\<exists>k. map_of internalKeys u = Some k \<and> ik_Status k = ''active'' \<and> validInternalKey (ik_Key k))"

lemma buildRecords_iff:
  "buildRecords catalog routes groups internalKeys users emitted = Inr rs \<longleftrightarrow>
     (\<forall>u \<in> set users. internal_ready internalKeys u) \<and>
     rs = fold emitTriple (userTriples catalog routes groups internalKeys users) emitted"
proof (induction users arbitrary: emitted)
  case (Cons u us)
  show ?case
  proof (cases "internal_ready internalKeys u")
    case True
    then obtain k where k: "map_of internalKeys u = Some k" "ik_Status k = ''active''" "validInternalKey (ik_Key k)"
      by (auto simp: internal_ready_def)
    have "fold emitTriple (map (\<lambda>p. (u, ik_Key k, p)) ps) e = fold (emitPair u (ik_Key k)) ps e" for ps e
      by (induction ps arbitrary: e) simp_all
    then show ?thesis using k True by (simp add: Cons.IH userTriples_def)
  next
    case False
    then show ?thesis by (auto simp: internal_ready_def split: option.splits)
  qed
qed (auto simp: userTriples_def)

lemma digests_emitPair: "distinct (map ExternalKeySHA256 rs) \<Longrightarrow> distinct (map ExternalKeySHA256 (emitPair u i p rs))"
  by (simp add: emitPair_def authRecord_def)

lemma distinct_emitted:
  "distinct (map ExternalKeySHA256 rs) \<Longrightarrow> distinct (map ExternalKeySHA256 (fold emitTriple ts rs))"
  by (induction ts arbitrary: rs) (auto simp: digests_emitPair)

lemma emitted_mono: "set rs \<subseteq> set (fold emitTriple ts rs)"
proof (induction ts arbitrary: rs)
  case (Cons t ts)
  obtain u i p where t: "t = (u, i, p)" by (cases t) auto
  have "set rs \<subseteq> set (emitPair u i p rs)" by (auto simp: emitPair_def)
  then show ?case using Cons.IH [of "emitPair u i p rs"] by (auto simp: t)
qed simp

lemma emitted_from:
  "r \<in> set (fold emitTriple ts rs) \<Longrightarrow> r \<in> set rs \<or> (\<exists>(u, i, p) \<in> set ts. r = authRecord u i p)"
proof (induction ts arbitrary: rs)
  case (Cons t ts)
  obtain u i p where t: "t = (u, i, p)" by (cases t) auto
  show ?case using Cons.IH [of "emitPair u i p rs"] Cons.prems by (auto simp: t emitPair_def split: if_splits)
qed simp

lemma emitted_all:
  "(u, i, p) \<in> set ts \<Longrightarrow> sha256_hex (fst p) \<in> ExternalKeySHA256 ` set (fold emitTriple ts rs)"
proof (induction ts arbitrary: rs)
  case (Cons t ts)
  show ?case
  proof (cases "t = (u, i, p)")
    case True
    have "sha256_hex (fst p) \<in> ExternalKeySHA256 ` set (emitPair u i p rs)" by (auto simp: emitPair_def authRecord_def)
    then show ?thesis using emitted_mono [of "emitPair u i p rs" ts] by (auto simp: True)
  next
    case False
    then show ?thesis using Cons by (cases t) auto
  qed
qed simp

subsection \<open>Internal keys\<close>

lemma hexEncode_digits: "length (hexEncode bs) = 2 * length bs" "c \<in> set (hexEncode bs) \<Longrightarrow> is_lower_hex c"
proof -
  show "length (hexEncode bs) = 2 * length bs" by (induction bs) (simp_all add: hexEncode_def)
  have "byte c div 16 < 16" for c using byte_bound [of c] by (intro less_mult_imp_div_less) simp
  then show "c \<in> set (hexEncode bs) \<Longrightarrow> is_lower_hex c" by (auto simp: hexEncode_def is_lower_hex_digit)
qed

lemma newInternalKey_valid:
  assumes "newInternalKey (Some bs) = Some key" "length bs = 32"
  shows "validInternalKey key"
proof -
  have key: "key = ''cpa_internal_'' @ hexEncode bs" using assms(1) by (simp add: newInternalKey_def)
  have "list_all hexDigit (hexEncode bs)" using hexEncode_digits(2) by (auto simp: list_all_iff hexDigit_def)
  then show ?thesis unfolding validInternalKey_def key using assms(2) by (simp add: hexEncode_digits(1) has_prefix_def)
qed

lemma accountNamePattern_backend: "accountNamePattern a \<Longrightarrow> backendPattern (''cliproxy-'' @ a @ '':8317'')"
  by (simp add: backendPattern_def accountNamePattern_def has_prefix_def)

lemma authRecord_valid:
  assumes "u \<noteq> []" "validInternalKey i" "accountNamePattern (snd p)"
  shows "validAuthRecord (authRecord u i p)"
proof -
  have "i \<noteq> []" using assms(2) by (auto simp: validInternalKey_def)
  moreover have "list_all is_lower_hex (sha256_hex (fst p))" using sha256_hex_lower_hex by (auto simp: list_all_iff)
  ultimately show ?thesis
    using assms(1,3) accountNamePattern_backend [OF assms(3)] by (simp add: validAuthRecord_def authRecord_def validLowerHex_def)
qed

subsection \<open>The payload\<close>

text \<open>\<open>encoding/json\<close> on a value: what was encoded is what is decoded, the time as a number.\<close>

definition rawAuth :: "AuthSnapshot \<Rightarrow> rawAuthSnapshot" where
  "rawAuth s =
     \<lparr>ra_Version = as_Version s, ra_Generation = as_Generation s, ra_GeneratedAt = AFloat (as_GeneratedAt s),
      ra_Records = Some (as_Records s)\<rparr>"

definition encodes :: "publish_codec \<Rightarrow> AuthSnapshot \<Rightarrow> bool" where
  "encodes codec s \<longleftrightarrow> (\<forall>b. pc_enc codec s = Some b \<longrightarrow> pc_dec codec (b @ [CHR 10]) = Some (rawAuth s))"

lemma readSnapshot_fits:
  assumes "length b < MaxSnapshotBytes" "trim_space (b @ [CHR 10]) \<noteq> []"
  shows "readSnapshot (RBytes (b @ [CHR 10])) = Inr (b @ [CHR 10])"
  using assms by (simp add: readSnapshot_def Let_def)

lemma ParseAuthSnapshot_encoded:
  assumes e: "encodes codec s" "pc_enc codec s = Some b" and wf: "wf_auth s"
    and fits: "length b < MaxSnapshotBytes" "trim_space (b @ [CHR 10]) \<noteq> []"
  shows "\<exists>s'. ParseAuthSnapshot (pc_float codec) (pc_dec codec) (RBytes (b @ [CHR 10])) = Inr s'"
proof -
  have "checkAuthRecords 0 [] (as_Records s) = None" using wf by (simp add: checkAuthRecords_None wf_auth_def)
  then show ?thesis
    using e wf by (simp add: ParseAuthSnapshot_def readSnapshot_fits [OF fits] encodes_def rawAuth_def wf_auth_def)
qed

lemma ParseAuthSnapshot_decoded:
  assumes e: "encodes codec s" "pc_enc codec s = Some b"
    and parsed: "ParseAuthSnapshot (pc_float codec) (pc_dec codec) (RBytes (b @ [CHR 10])) = Inr s'"
  shows "as_Records s' = as_Records s" "as_Generation s' = as_Generation s"
proof -
  have "take (MaxSnapshotBytes + 1) (b @ [CHR 10]) = b @ [CHR 10]"
    using parsed by (auto simp: ParseAuthSnapshot_def readSnapshot_def Let_def split: if_splits)
  then have "readSnapshot (RBytes (b @ [CHR 10])) = Inr (b @ [CHR 10])"
    using parsed by (auto simp: ParseAuthSnapshot_def readSnapshot_def Let_def split: if_splits)
  then show "as_Records s' = as_Records s" "as_Generation s' = as_Generation s"
    using e parsed by (auto simp: ParseAuthSnapshot_def encodes_def rawAuth_def split: if_splits option.splits)
qed

lemma buildPayload_iff:
  "buildPayload codec uuid now accounts routes records internalKeys = Inr (payload, generation) \<longleftrightarrow>
     (\<exists>s b s'. buildSnapshot uuid now accounts routes records internalKeys = Inr s \<and> pc_enc codec s = Some b \<and>
        payload = b @ [CHR 10] \<and> generation = as_Generation s \<and>
        ParseAuthSnapshot (pc_float codec) (pc_dec codec) (RBytes payload) = Inr s')"
  by (auto simp: buildPayload_def Let_def split: sum.splits option.splits)

abbreviation dbSnapshot :: "string \<Rightarrow> int64 \<Rightarrow> controldb \<Rightarrow> publish_error + AuthSnapshot" where
  "dbSnapshot uuid now db \<equiv>
     buildSnapshot uuid now (ReadAccounts db) (ReadRoutes db) (ReadKeyRecords db) (ReadInternalKeys db)"

subsection \<open>The wait\<close>

lemma probeRound_active:
  "fst (probeRound dec generation ask urls err) \<longleftrightarrow> (\<exists>url \<in> set urls. probeAuthGeneration dec generation (ask url) = Inr True)"
  by (induction dec generation ask urls err rule: probeRound.induct) (auto split: sum.splits)

lemma waitLoop_step:
  "waitLoop dec generation urls deadline interval env i elapsed err =
     (if fst (probeRound dec generation (we_ask env i) urls err) then (Inr (), Suc i)
      else if deadline \<le> elapsed + interval + we_spent env i \<or> interval = 0
      then (Inl (NotActivated generation (snd (probeRound dec generation (we_ask env i) urls err))), Suc i)
      else waitLoop dec generation urls deadline interval env (Suc i) (elapsed + interval + we_spent env i)
             (snd (probeRound dec generation (we_ask env i) urls err)))"
  by (subst waitLoop.simps) (simp add: case_prod_beta Let_def)

lemma waitLoop_rounds:
  assumes "0 < interval"
  shows "snd (waitLoop dec generation urls deadline interval env i elapsed err) \<le> Suc (i + (deadline - elapsed) div interval)"
  using assms
proof (induction dec generation urls deadline interval env i elapsed err rule: waitLoop.induct)
  case (1 dec generation urls deadline interval env i elapsed err)
  let ?e = "elapsed + interval + we_spent env i" and ?p = "probeRound dec generation (we_ask env i) urls err"
  show ?case
  proof (cases "fst ?p \<or> deadline \<le> ?e")
    case False
    have "snd (waitLoop dec generation urls deadline interval env (Suc i) ?e (snd ?p)) \<le> Suc (Suc i + (deadline - ?e) div interval)"
      using False 1 by (metis (no_types, lifting) less_numeral_extra(3) prod.collapse)
    also have "Suc i + (deadline - ?e) div interval \<le> i + (deadline - elapsed) div interval"
    proof -
      have "(deadline - ?e) div interval + 1 = (deadline - ?e + interval) div interval" using 1(2) by simp
      also have "\<dots> \<le> (deadline - elapsed) div interval" using False by (intro div_le_mono) simp
      finally show ?thesis by simp
    qed
    finally show ?thesis using False 1(2) by (subst waitLoop_step) simp
  qed (subst waitLoop_step, auto)
qed

text \<open>What the rounds up to \<open>j\<close> have taken.\<close>

definition elapsedAt :: "nat \<Rightarrow> wait_env \<Rightarrow> nat \<Rightarrow> nat" where
  "elapsedAt interval env j = (\<Sum>k<j. interval + we_spent env k)"

lemma waitLoop_Inr:
  assumes "0 < interval"
  shows "fst (waitLoop dec generation urls deadline interval env i (elapsedAt interval env i) err) = Inr () \<longleftrightarrow>
     (\<exists>j \<ge> i. (j = i \<or> elapsedAt interval env j < deadline) \<and>
        (\<exists>url \<in> set urls. probeAuthGeneration dec generation (we_ask env j url) = Inr True))"
proof (induction "deadline - elapsedAt interval env i" arbitrary: i err rule: less_induct)
  case less
  let ?act = "\<lambda>j. \<exists>url \<in> set urls. probeAuthGeneration dec generation (we_ask env j url) = Inr True"
  let ?E = "elapsedAt interval env"
  have suc: "?E (Suc i) = ?E i + interval + we_spent env i" by (simp add: elapsedAt_def)
  have mono: "?E j \<le> ?E k" if "j \<le> k" for j k unfolding elapsedAt_def using that by (intro sum_mono2) auto
  show ?case
  proof (cases "?act i")
    case True
    then show ?thesis by (subst waitLoop_step) (auto simp: probeRound_active)
  next
    case no: False
    show ?thesis
    proof (cases "deadline \<le> ?E (Suc i)")
      case True
      have "\<not> (\<exists>j\<ge>i. (j = i \<or> ?E j < deadline) \<and> ?act j)"
      proof clarify
        fix j url assume j: "i \<le> j" "j = i \<or> ?E j < deadline" "url \<in> set urls"
          "probeAuthGeneration dec generation (we_ask env j url) = Inr True"
        then have "j \<noteq> i" using no by blast
        then show False using j(1,2) mono [of "Suc i" j] True by simp
      qed
      then show ?thesis using True no unfolding suc by (subst waitLoop_step) (auto simp: probeRound_active)
    next
      case False
      have run: "waitLoop dec generation urls deadline interval env i (?E i) err =
          waitLoop dec generation urls deadline interval env (Suc i) (?E (Suc i)) (snd (probeRound dec generation (we_ask env i) urls err))"
        using False no assms unfolding suc by (subst waitLoop_step) (simp add: probeRound_active)
      have "fst (waitLoop dec generation urls deadline interval env i (?E i) err) = Inr () \<longleftrightarrow>
          (\<exists>j\<ge>Suc i. (j = Suc i \<or> ?E j < deadline) \<and> ?act j)"
        unfolding run by (rule less.hyps) (use False assms suc in simp)
      moreover have "(\<exists>j\<ge>Suc i. (j = Suc i \<or> ?E j < deadline) \<and> ?act j) \<longleftrightarrow> (\<exists>j\<ge>i. (j = i \<or> ?E j < deadline) \<and> ?act j)"
      proof
        assume "\<exists>j\<ge>Suc i. (j = Suc i \<or> ?E j < deadline) \<and> ?act j"
        then obtain j where j: "Suc i \<le> j" "j = Suc i \<or> ?E j < deadline" "?act j" by blast
        then have "?E j < deadline" using False by (metis linorder_not_le)
        then show "\<exists>j\<ge>i. (j = i \<or> ?E j < deadline) \<and> ?act j" using j(1,3) Suc_leD by blast
      next
        assume "\<exists>j\<ge>i. (j = i \<or> ?E j < deadline) \<and> ?act j"
        then obtain j where j: "i \<le> j" "j = i \<or> ?E j < deadline" "?act j" by blast
        have "j \<noteq> i" using no j(3) by blast
        then show "\<exists>j\<ge>Suc i. (j = Suc i \<or> ?E j < deadline) \<and> ?act j" using j by (intro exI [of _ j]) simp
      qed
      ultimately show ?thesis by (rule trans)
    qed
  qed
qed

lemma waitInterval_pos: "0 < waitInterval p"
  by (simp add: waitInterval_def)

text \<open>A gateway's answer to the probe, through an encoder of its status.\<close>

definition snapshotsRequest :: request where
  "snapshotsRequest = statsRequest\<lparr>rq_Path := ''/__internal/snapshots''\<rparr>"

definition statusAnswer :: "(Status \<Rightarrow> string) \<Rightarrow> (int64 \<Rightarrow> string) \<Rightarrow> int64 \<Rightarrow> HTTPGateway \<Rightarrow> answer" where
  "statusAnswer enc fmt now gw =
     (case snd (InternalHandler fmt now snapshotsRequest gw) of
        Reply p \<Rightarrow> (case rp_Body p of StatusBody st \<Rightarrow> Answer (rp_Status p) (enc st) | _ \<Rightarrow> Answer (rp_Status p) [])
      | Forward up i \<Rightarrow> TransportError)"

lemma probe_gateway:
  assumes "probeAuthGeneration dec generation (statusAnswer enc fmt now gw) = Inr True" "generation \<noteq> []"
    and "dec (take (2 ^ 20) (enc (EngineStatus (gw_engine gw)))) = Some (EngineStatus (gw_engine gw))"
  shows "\<exists>a. eng_auth (gw_engine gw) = Some a \<and> au_generation a = generation"
proof -
  have "statusAnswer enc fmt now gw = Answer 200 (enc (EngineStatus (gw_engine gw)))"
    by (simp add: statusAnswer_def snapshotsRequest_def statsRequest_def InternalHandler_def Let_def)
  then have "ks_ActiveGeneration (st_Auth (EngineStatus (gw_engine gw))) = generation"
    using assms(1,3) by (simp add: probeAuthGeneration_def)
  then show ?thesis using assms(2) by (auto simp: EngineStatus_def emptyKindStatus_def split: option.splits)
qed

subsection \<open>Publishing\<close>

text \<open>Of the database a publication changes the internal keys only, whatever becomes of it.\<close>

lemma PublishAuthSnapshot_db:
  assumes "PublishAuthSnapshot codec p fence env wait w = (r, w')"
  shows "\<exists>i. pw_db w' = (pw_db w)\<lparr>cb_internal := i\<rparr>"
proof -
  let ?run = "EnsureInternalKeys (pe_ensure env) (pe_ensureAt env) fence (pe_random env)
    (activeRecordUsers (ReadKeyRecords (pw_db w))) (pw_db w)"
  obtain e db where run: "?run = (e, db)" by fastforce
  have self: "\<exists>i. pw_db w = (pw_db w)\<lparr>cb_internal := i\<rparr>" by (rule exI [of _ "cb_internal (pw_db w)"]) simp
  have "db = pw_db w \<or> (\<exists>i. db = (pw_db w)\<lparr>cb_internal := i\<rparr>)"
    using run unfolding EnsureInternalKeys_def Let_def controlTx_def
    by (auto split: if_splits option.splits sum.splits prod.splits)
  moreover have "pw_db w' = pw_db w \<or> pw_db w' = db"
    using assms run by (auto simp: PublishAuthSnapshot_def Let_def split: if_splits sum.splits prod.splits)
  ultimately show ?thesis using self by metis
qed

lemma publishFenced_Inr:
  assumes "publishFenced codec p env w = (Inr generation, file)"
  shows "\<exists>payload. file = Some payload \<and>
     buildPayload codec (pe_uuid env) (pe_now env) (ReadAccounts (pw_db w)) (ReadRoutes (pw_db w))
       (ReadKeyRecords (pw_db w)) (ReadInternalKeys (pw_db w)) = Inr (payload, generation)"
  using assms by (auto simp: publishFenced_def writeSnapshot_def split: if_splits sum.splits file_write.splits prod.splits)

lemma PublishAuthSnapshot_Inr:
  assumes "PublishAuthSnapshot codec p fence env wait w = (Inr generation, w')"
  obtains result payload where
    "EnsureInternalKeys (pe_ensure env) (pe_ensureAt env) fence (pe_random env)
       (activeRecordUsers (ReadKeyRecords (pw_db w))) (pw_db w) = (Inr result, pw_db w')"
    "pw_file w' = Some payload"
    "buildPayload codec (pe_uuid env) (pe_now env) (ReadAccounts (pw_db w')) (ReadRoutes (pw_db w'))
       (ReadKeyRecords (pw_db w')) (ReadInternalKeys (pw_db w')) = Inr (payload, generation)"
    "fence \<noteq> []" "validateWriteFence (pe_fenceAt env) fence (cb_leases (pw_db w)) = None"
    "wait \<longrightarrow> fst (waitForGeneration codec p (pe_wait env) generation) = Inr ()"
proof -
  let ?ensure = "EnsureInternalKeys (pe_ensure env) (pe_ensureAt env) fence (pe_random env)
    (activeRecordUsers (ReadKeyRecords (pw_db w))) (pw_db w)"
  obtain result db where run: "?ensure = (Inr result, db)"
    using assms by (auto simp: PublishAuthSnapshot_def Let_def split: if_splits sum.splits prod.splits)
  let ?w = "w\<lparr>pw_db := db\<rparr>"
  obtain fl where f: "WithWriteFence (pe_fence env) (pe_fenceAt env) fence (cb_leases db)
      (\<lambda>_. Inr (publishFenced codec p env ?w)) = Inr (Inr generation, fl)" and w': "w' = ?w\<lparr>pw_file := fl\<rparr>"
    and wt: "wait \<longrightarrow> fst (waitForGeneration codec p (pe_wait env) generation) = Inr ()"
    using assms run by (auto simp: PublishAuthSnapshot_def Let_def split: if_splits sum.splits prod.splits)
  have fence: "fence \<noteq> []" "validateWriteFence (pe_fenceAt env) fence (cb_leases db) = None"
    "publishFenced codec p env ?w = (Inr generation, fl)"
    using f by (auto simp: WithWriteFence_def split: if_splits option.splits)
  obtain i where i: "pw_db w' = (pw_db w)\<lparr>cb_internal := i\<rparr>" using PublishAuthSnapshot_db [OF assms] by blast
  have db: "pw_db w' = db" using w' by simp
  obtain payload where "fl = Some payload" "buildPayload codec (pe_uuid env) (pe_now env) (ReadAccounts db) (ReadRoutes db)
       (ReadKeyRecords db) (ReadInternalKeys db) = Inr (payload, generation)"
    using publishFenced_Inr [OF fence(3)] by auto
  moreover have "cb_leases db = cb_leases (pw_db w)" using i db by simp
  ultimately show ?thesis using that run fence(1,2) wt w' db by simp
qed

section \<open>Properties\<close>

text \<open>
  C40: The wait for a gateway always ends, within one round more than its deadline (8 seconds unless
  configured, cut short by the caller's context) holds poll intervals. It succeeds exactly when a
  round that starts before the deadline finds a probed gateway active on the generation.
\<close>

theorem waitForGeneration_ends:
  "snd (waitForGeneration codec p env generation) \<le> Suc (waitDeadline p env div waitInterval p) \<and>
   (fst (waitForGeneration codec p env generation) = Inr () \<longleftrightarrow>
      (\<exists>j url. url \<in> set (normalizedProbeURLs (pc_url codec) (pb_ProbeURLs p)) \<and>
         (j = 0 \<or> elapsedAt (waitInterval p) env j < waitDeadline p env) \<and>
         probeAuthGeneration (pc_status codec) generation (we_ask env j url) = Inr True))"
proof -
  let ?urls = "normalizedProbeURLs (pc_url codec) (pb_ProbeURLs p)"
  note W = waitForGeneration_def [of codec p env generation, unfolded Let_def]
  have z: "elapsedAt (waitInterval p) env 0 = 0" by (simp add: elapsedAt_def)
  show ?thesis
  proof (cases "?urls = []")
    case False
    note L = waitLoop_Inr [OF waitInterval_pos, of "pc_status codec" generation ?urls "waitDeadline p env" p env 0 None, unfolded z]
    show ?thesis unfolding W if_not_P [OF False] L
      using waitLoop_rounds [OF waitInterval_pos, of "pc_status codec" generation ?urls "waitDeadline p env" p env 0 0 None]
      by auto
  qed (simp add: W)
qed

end
