(* ===== verification/Published_Change.thy ===== *)
theory Published_Change
  imports Auth_Snapshot
begin

text \<open>
  The pattern of every service that changes the catalogue and must have the gateways follow: apply
  the change in one transaction, publish a snapshot and wait for it; if that fails, undo the change
  and, if the undo succeeded, publish again. \<open>applyPlan\<close> of \<open>internal/failover/service.go\<close> and
  \<open>RotateUserKey\<close> of \<open>internal/identity/service.go\<close> are instances. The admin process runs them under
  one lock; what other processes (the failover worker) do to the catalogue between the change and
  its rollback is not part of the run (\<open>late_route_rollback\<close> of \<open>Catalog\<close> shows what can go wrong). The locale \<open>synced_change\<close> of
  the store is what the services rely on.
\<close>

section \<open>Definitions\<close>

datatype change_error =
    ChangeFailed control_error
  | PublishFailed publish_error "control_error option" "publish_error option"

type_synonym publish_op = "published \<Rightarrow> (publish_error + string) \<times> published"

definition publishChange ::
  "publish_op \<Rightarrow> publish_op \<Rightarrow> (controldb \<Rightarrow> (control_error + 'r) \<times> controldb) \<Rightarrow>
   ('r \<Rightarrow> controldb \<Rightarrow> (control_error + unit) \<times> controldb) \<Rightarrow> published \<Rightarrow> (change_error + 'r \<times> string) \<times> published" where
  "publishChange publish republish change undo w =
     (case change (pw_db w) of
        (Inl e, db) \<Rightarrow> (Inl (ChangeFailed e), w\<lparr>pw_db := db\<rparr>)
      | (Inr r, db) \<Rightarrow>
          (case publish (w\<lparr>pw_db := db\<rparr>) of
             (Inr generation, w1) \<Rightarrow> (Inr (r, generation), w1)
           | (Inl e, w1) \<Rightarrow>
               (case undo r (pw_db w1) of
                  (Inl rollbackError, db2) \<Rightarrow> (Inl (PublishFailed e (Some rollbackError) None), w1\<lparr>pw_db := db2\<rparr>)
                | (Inr _, db2) \<Rightarrow>
                    (case republish (w1\<lparr>pw_db := db2\<rparr>) of
                       (Inl snapshotError, w2) \<Rightarrow> (Inl (PublishFailed e None (Some snapshotError)), w2)
                     | (Inr _, w2) \<Rightarrow> (Inl (PublishFailed e None None), w2)))))"

section \<open>Lemmas\<close>

text \<open>What a service may rely on of a publication: of the database it changes the internal keys only.\<close>

definition publishes :: "publish_op \<Rightarrow> bool" where
  "publishes publish \<longleftrightarrow> (\<forall>w r w'. publish w = (r, w') \<longrightarrow> (\<exists>i. pw_db w' = (pw_db w)\<lparr>cb_internal := i\<rparr>))"

lemma publishes_snapshot: "publishes (PublishAuthSnapshot codec p fence env wait)"
  unfolding publishes_def using PublishAuthSnapshot_db by blast

lemma same_db_internal: "same_db d (db\<lparr>cb_internal := i\<rparr>) \<Longrightarrow> same_db (d\<lparr>cb_internal := j\<rparr>) (db\<lparr>cb_internal := j\<rparr>)"
  by (simp add: same_db_def)

text \<open>
  The atomic specification: the change and a published generation, or an error and the catalogue as
  it was. Only the internal keys, which the publisher synchronises, may differ.
\<close>

definition atomic_change ::
  "(controldb \<Rightarrow> (control_error + 'r) \<times> controldb) \<Rightarrow> controldb \<Rightarrow> change_error + 'r \<times> string \<Rightarrow> controldb \<Rightarrow> bool" where
  "atomic_change change db res db' \<longleftrightarrow>
     (case res of
        Inr (r, generation) \<Rightarrow> (\<exists>db1 i. change db = (Inr r, db1) \<and> db' = db1\<lparr>cb_internal := i\<rparr>)
      | Inl (ChangeFailed e) \<Rightarrow> change db = (Inl e, db) \<and> db' = db
      | Inl (PublishFailed e undone again) \<Rightarrow> undone = None \<and> (\<exists>i. same_db db' (db\<lparr>cb_internal := i\<rparr>)))"

text \<open>The catalogue as it was, up to the internal keys.\<close>

definition unchanged :: "controldb \<Rightarrow> controldb \<Rightarrow> bool" where
  "unchanged db db' \<longleftrightarrow> (\<exists>i. same_db db' (db\<lparr>cb_internal := i\<rparr>))"

lemma unchanged_refl: "unchanged db db"
  unfolding unchanged_def by (rule exI [of _ "cb_internal db"]) simp

lemma atomic_unchanged:
  "atomic_change change db (Inl e) db' \<Longrightarrow> unchanged db db'"
  using unchanged_refl by (auto simp: atomic_change_def unchanged_def split: change_error.splits)

context synced_change
begin

lemma published_atomic:
  assumes pre: "pre (pw_db w)" and pub: "publishes publish" "publishes republish"
    and run: "publishChange publish republish (change x) undo w = (res, w')"
  shows "atomic_change (change x) (pw_db w) res (pw_db w')"
proof (cases "fst (change x (pw_db w))")
  case (Inl e)
  then obtain db where db: "change x (pw_db w) = (Inl e, db)" by (metis prod.collapse)
  have "db = pw_db w" by (rule fails_clean [OF db])
  then show ?thesis using run db by (auto simp: publishChange_def atomic_change_def)
next
  case (Inr r)
  then obtain db where db: "change x (pw_db w) = (Inr r, db)" by (metis prod.collapse)
  obtain res1 w1 where p1: "publish (w\<lparr>pw_db := db\<rparr>) = (res1, w1)" by fastforce
  obtain i where i: "pw_db w1 = db\<lparr>cb_internal := i\<rparr>" using pub(1) p1 unfolding publishes_def by fastforce
  show ?thesis
  proof (cases res1)
    case (Inr g)
    then show ?thesis using run db p1 i by (auto simp: publishChange_def atomic_change_def)
  next
    case (Inl e)
    obtain d where d: "undo r (pw_db w1) = (Inr (), d)" "same_db d ((pw_db w)\<lparr>cb_internal := i\<rparr>)"
      using reverts_synced [OF pre db, of i] i by auto
    obtain res2 w2 where p2: "republish (w1\<lparr>pw_db := d\<rparr>) = (res2, w2)" by fastforce
    then obtain j where j: "pw_db w2 = d\<lparr>cb_internal := j\<rparr>" using pub(2) unfolding publishes_def by fastforce
    have "same_db (pw_db w2) ((pw_db w)\<lparr>cb_internal := j\<rparr>)" unfolding j by (rule same_db_internal [OF d(2)])
    moreover have "w' = w2" "\<exists>again. res = Inl (PublishFailed e None again)"
      using run db p1 p2 d(1) Inl by (auto simp: publishChange_def split: sum.splits)
    ultimately show ?thesis by (auto simp: atomic_change_def)
  qed
qed

end

end
