(* ===== verification/User_Lifecycle.thy ===== *)
theory User_Lifecycle
  imports Key_Records
begin

text \<open>
  \<open>internal/controlplane/user_lifecycle.go\<close>: creating a user (one row of the shared API key per
  account), revoking its key, deleting everything stored about it, and the rollback of each. An
  undo record carries what the rollback needs and compares the rows before it changes them.
\<close>

section \<open>Definitions\<close>

record UserCreation =
  uc_User :: string
  uc_APIKey :: string
  uc_CreatedRows :: "int list"
  uc_PreviousRoute :: "string option"
  uc_TeamChanged :: bool
  uc_PreviousMembership :: "UserMembershipState option"

record UserStatusRow =
  us_Sequence :: int
  us_Secret :: string
  us_UpdatedAt :: int64

record UserRevocation =
  uv_User :: string
  uv_Rows :: "UserStatusRow list"

record UserDeletion =
  ud_User :: string
  ud_Rows :: key_rows
  ud_Route :: "string option"
  ud_Membership :: "UserMembershipState option"
  ud_Tags :: "UserTagState list"
  ud_InternalKey :: "InternalKey option"
  ud_RevokedActiveKeys :: nat

definition normalizeOptionalCatalogID :: "string option \<Rightarrow> string option" where
  "normalizeOptionalCatalogID value =
     (case value of
        None \<Rightarrow> None
      | Some v \<Rightarrow> let normalized = trim_space v in if normalized = [] then None else Some normalized)"

text \<open>The first row \<open>WHERE lower(trim(user_email)) = u\<close> of a table keyed by user.\<close>

definition userRow :: "string \<Rightarrow> (string, 'a) gomap \<Rightarrow> 'a option" where
  "userRow u table = map_option snd (List.find (\<lambda>(e, v). sql_norm e = u) table)"

definition deleteUserRows :: "string \<Rightarrow> (string \<times> 'a) list \<Rightarrow> (string \<times> 'a) list" where
  "deleteUserRows u table = filter (\<lambda>(e, v). sql_norm e \<noteq> u) table"

definition ActiveUserKey :: "string \<Rightarrow> controldb \<Rightarrow> control_error + string" where
  "ActiveUserKey user db =
     (let u = norm_user user
      in if u = [] then Inl ErrInvalidCatalogInput
         else (case sort (remdups (map (kr_Key \<circ> snd) (activeKeyRows u (cb_keys db)))) of
                 [] \<Rightarrow> Inl ErrUserLifecycleNotFound
               | [k] \<Rightarrow> Inr k
               | _ \<Rightarrow> Inl ErrUserLifecycleConflict))"

definition readUserMembership :: "string \<Rightarrow> controldb \<Rightarrow> UserMembershipState option" where
  "readUserMembership u db = userRow u (cb_memberships db)"

text \<open>The upsert of a membership; its team must exist.\<close>

definition writeMembership :: "string \<Rightarrow> UserMembershipState \<Rightarrow> controldb \<Rightarrow> control_error + controldb" where
  "writeMembership u m db =
     (if (case um_TeamID m of None \<Rightarrow> False | Some t \<Rightarrow> t \<notin> set (cb_teams db)) then Inl SqlError
      else Inr (db\<lparr>cb_memberships := AList.update u m (cb_memberships db)\<rparr>))"

definition restoreUserMembership :: "string \<Rightarrow> UserMembershipState option \<Rightarrow> controldb \<Rightarrow> control_error + controldb" where
  "restoreUserMembership u membership db =
     (case membership of
        None \<Rightarrow> Inr (db\<lparr>cb_memberships := AList.delete u (cb_memberships db)\<rparr>)
      | Some m \<Rightarrow> writeMembership u m db)"

subsection \<open>Creation\<close>

definition assignTeam ::
  "int64 \<Rightarrow> string \<Rightarrow> string option \<Rightarrow> controldb \<Rightarrow> control_error + (bool \<times> UserMembershipState option) \<times> controldb" where
  "assignTeam now u team db =
     (case team of
        None \<Rightarrow> Inr ((False, None), db)
      | Some t \<Rightarrow>
          if t \<notin> set (cb_teams db) then Inl ErrTeamNotFound
          else (let previous = readUserMembership u db;
                    version = (case previous of None \<Rightarrow> 1 | Some m \<Rightarrow> i64 (um_MembershipVersion m + 1))
                in case writeMembership u \<lparr>um_TeamID = Some t, um_MembershipVersion = version, um_UpdatedAt = now\<rparr> db of
                     Inl e \<Rightarrow> Inl e
                   | Inr db' \<Rightarrow> Inr ((True, previous), db')))"

definition userKeyRow :: "int64 \<Rightarrow> string \<Rightarrow> string \<Rightarrow> Account \<Rightarrow> KeyRecord" where
  "userKeyRow now u key a =
     \<lparr>kr_Label = u @ '':'' @ an_ID a, kr_Account = an_ID a, kr_AccountEmail = an_Email a, kr_User = u,
      kr_Status = ''active'', kr_Key = key, kr_CreatedAt = now, kr_UpdatedAt = now\<rparr>"

definition userKeyRows :: "int64 \<Rightarrow> string \<Rightarrow> string \<Rightarrow> controldb \<Rightarrow> key_rows" where
  "userKeyRows now u key db =
     numbered (nextSequence (cb_keys db)) (map (\<lambda>(p, a). userKeyRow now u key a) (cb_accounts db))"

definition creationTx ::
  "int64 \<Rightarrow> string \<Rightarrow> string \<Rightarrow> string option \<Rightarrow> controldb \<Rightarrow> control_error + UserCreation \<times> controldb" where
  "creationTx now u key team db =
     (if activeKeyRows u (cb_keys db) \<noteq> [] then Inl ErrUserAlreadyActive
      else if list_ex (\<lambda>(s, k). kr_Key k = key) (cb_keys db) then Inl ErrUserLifecycleConflict
      else if cb_accounts db = [] then Inl ErrInvalidCatalogInput
      else (case assignTeam now u team db of
              Inl e \<Rightarrow> Inl e
            | Inr ((changed, previous), db1) \<Rightarrow>
                (let rows = userKeyRows now u key db1
                 in case insertKeys rows (cb_keys db1) of
                      Inl e \<Rightarrow> Inl e
                    | Inr table \<Rightarrow>
                        Inr (\<lparr>uc_User = u, uc_APIKey = key, uc_CreatedRows = map fst rows,
                              uc_PreviousRoute = userRow u (cb_routes db1), uc_TeamChanged = changed,
                              uc_PreviousMembership = previous\<rparr>,
                             db1\<lparr>cb_routes := deleteUserRows u (cb_routes db1), cb_keys := table\<rparr>))))"

definition ApplyUserCreation ::
  "tx \<Rightarrow> int64 \<Rightarrow> Lease list \<Rightarrow> string \<Rightarrow> string \<Rightarrow> string option \<Rightarrow> controldb \<Rightarrow>
   (control_error + UserCreation) \<times> controldb" where
  "ApplyUserCreation tx now fence user apiKey teamID db =
     (let u = norm_user user; key = trim_space apiKey
      in if u = [] \<or> key = [] then (Inl ErrInvalidCatalogInput, db)
         else controlTx tx now fence (creationTx now u key (normalizeOptionalCatalogID teamID)) db)"

definition restoreCreationTx :: "UserCreation \<Rightarrow> controldb \<Rightarrow> control_error + unit \<times> controldb" where
  "restoreCreationTx c db =
     (case checkRows ErrUserLifecycleConflict (cb_keys db)
             (map (\<lambda>s. (s, keyIs (uc_User c) ''active'' (uc_APIKey c))) (uc_CreatedRows c)) of
        Some e \<Rightarrow> Inl e
      | None \<Rightarrow>
          (let db1 = db\<lparr>cb_keys := deleteKeys (\<lambda>s k. s \<in> set (uc_CreatedRows c)) (cb_keys db),
                        cb_routes := (case uc_PreviousRoute c of
                                        None \<Rightarrow> AList.delete (uc_User c) (cb_routes db)
                                      | Some a \<Rightarrow> AList.update (uc_User c) a (cb_routes db))\<rparr>
           in if uc_TeamChanged c
              then map_sum id (Pair ()) (restoreUserMembership (uc_User c) (uc_PreviousMembership c) db1)
              else Inr ((), db1)))"

definition RestoreUserCreation ::
  "tx \<Rightarrow> int64 \<Rightarrow> Lease list \<Rightarrow> UserCreation \<Rightarrow> controldb \<Rightarrow> (control_error + unit) \<times> controldb" where
  "RestoreUserCreation tx now fence c db =
     (if uc_User c = [] \<or> uc_APIKey c = [] \<or> uc_CreatedRows c = [] then (Inl ErrInvalidCatalogInput, db)
      else controlTx tx now fence (restoreCreationTx c) db)"

subsection \<open>Revocation\<close>

definition markRevoked :: "int64 \<Rightarrow> KeyRecord \<Rightarrow> KeyRecord" where
  "markRevoked now k = k\<lparr>kr_Status := ''revoked'', kr_UpdatedAt := now\<rparr>"

fun revokeRows :: "int64 \<Rightarrow> UserStatusRow list \<Rightarrow> key_rows \<Rightarrow> control_error + key_rows" where
  "revokeRows now [] table = Inr table"
| "revokeRows now (r # rs) table =
     (if length (filter (\<lambda>(s, k). s = us_Sequence r \<and> isActive k) table) \<noteq> 1 then Inl ErrUserLifecycleConflict
      else revokeRows now rs (updateKeys (\<lambda>s k. s = us_Sequence r \<and> isActive k) (markRevoked now) table))"

definition statusRows :: "key_rows \<Rightarrow> UserStatusRow list" where
  "statusRows rows = map (\<lambda>(s, k). \<lparr>us_Sequence = s, us_Secret = kr_Key k, us_UpdatedAt = kr_UpdatedAt k\<rparr>) rows"

definition revocationTx :: "int64 \<Rightarrow> string \<Rightarrow> controldb \<Rightarrow> control_error + UserRevocation \<times> controldb" where
  "revocationTx now u db =
     (let rows = statusRows (activeKeyRows u (cb_keys db))
      in if rows = [] then Inl ErrUserLifecycleNotFound
         else (case revokeRows now rows (cb_keys db) of
                 Inl e \<Rightarrow> Inl e
               | Inr table \<Rightarrow> Inr (\<lparr>uv_User = u, uv_Rows = rows\<rparr>, db\<lparr>cb_keys := table\<rparr>)))"

definition ApplyUserRevocation ::
  "tx \<Rightarrow> int64 \<Rightarrow> Lease list \<Rightarrow> string \<Rightarrow> controldb \<Rightarrow> (control_error + UserRevocation) \<times> controldb" where
  "ApplyUserRevocation tx now fence user db =
     (let u = norm_user user
      in if u = [] then (Inl ErrInvalidCatalogInput, db) else controlTx tx now fence (revocationTx now u) db)"

definition restoreRevocationTx :: "UserRevocation \<Rightarrow> controldb \<Rightarrow> control_error + unit \<times> controldb" where
  "restoreRevocationTx r db =
     (case checkRows ErrUserLifecycleConflict (cb_keys db)
             (map (\<lambda>row. (us_Sequence row, keyIs (uv_User r) ''revoked'' (us_Secret row))) (uv_Rows r)) of
        Some e \<Rightarrow> Inl e
      | None \<Rightarrow> Inr ((), db\<lparr>cb_keys :=
          restoreStatus (map (\<lambda>row. (us_Sequence row, us_UpdatedAt row)) (uv_Rows r)) (cb_keys db)\<rparr>))"

definition RestoreUserRevocation ::
  "tx \<Rightarrow> int64 \<Rightarrow> Lease list \<Rightarrow> UserRevocation \<Rightarrow> controldb \<Rightarrow> (control_error + unit) \<times> controldb" where
  "RestoreUserRevocation tx now fence r db =
     (if uv_User r = [] \<or> uv_Rows r = [] then (Inl ErrInvalidCatalogInput, db)
      else controlTx tx now fence (restoreRevocationTx r) db)"

subsection \<open>Deletion\<close>

definition userKeys :: "string \<Rightarrow> key_rows \<Rightarrow> key_rows" where
  "userKeys u rows = filter (\<lambda>(s, k). sql_norm (kr_User k) = u) rows"

definition deletionTx :: "string \<Rightarrow> bool \<Rightarrow> controldb \<Rightarrow> control_error + UserDeletion \<times> controldb" where
  "deletionTx u revokeActive db =
     (let rows = userKeys u (cb_keys db);
          activeKeys = remdups (map (kr_Key \<circ> snd) (filter (isActive \<circ> snd) rows))
      in if rows = [] then Inl ErrUserLifecycleNotFound
         else if activeKeys \<noteq> [] \<and> \<not> revokeActive then Inl ErrUserDeleteRequiresRevoke
         else Inr (\<lparr>ud_User = u, ud_Rows = rows, ud_Route = userRow u (cb_routes db),
                    ud_Membership = readUserMembership u db,
                    ud_Tags = sort_key ut_TagID (map snd (filter (\<lambda>(e, t). sql_norm e = u) (cb_tags db))),
                    ud_InternalKey = userRow u (cb_internal db), ud_RevokedActiveKeys = length activeKeys\<rparr>,
                   db\<lparr>cb_keys := deleteKeys (\<lambda>s k. sql_norm (kr_User k) = u) (cb_keys db),
                      cb_routes := deleteUserRows u (cb_routes db), cb_tags := deleteUserRows u (cb_tags db),
                      cb_memberships := deleteUserRows u (cb_memberships db),
                      cb_internal := deleteUserRows u (cb_internal db)\<rparr>))"

definition ApplyUserDeletion ::
  "tx \<Rightarrow> int64 \<Rightarrow> Lease list \<Rightarrow> string \<Rightarrow> bool \<Rightarrow> controldb \<Rightarrow> (control_error + UserDeletion) \<times> controldb" where
  "ApplyUserDeletion tx now fence user revokeActive db =
     (let u = norm_user user
      in if u = [] then (Inl ErrInvalidCatalogInput, db) else controlTx tx now fence (deletionTx u revokeActive) db)"

definition insertRoute :: "string \<Rightarrow> string option \<Rightarrow> controldb \<Rightarrow> control_error + controldb" where
  "insertRoute u route db =
     (case route of
        None \<Rightarrow> Inr db
      | Some a \<Rightarrow> if has_key (cb_routes db) u then Inl SqlError else Inr (db\<lparr>cb_routes := cb_routes db @ [(u, a)]\<rparr>))"

text \<open>The primary key of \<open>user_tags\<close> is the pair of user and tag; the tag must exist.\<close>

fun insertTags :: "string \<Rightarrow> UserTagState list \<Rightarrow> controldb \<Rightarrow> control_error + controldb" where
  "insertTags u [] db = Inr db"
| "insertTags u (t # ts) db =
     (if ut_TagID t \<notin> set (cb_tag_ids db) \<or> list_ex (\<lambda>(e, t'). e = u \<and> ut_TagID t' = ut_TagID t) (cb_tags db)
      then Inl SqlError
      else insertTags u ts (db\<lparr>cb_tags := cb_tags db @ [(u, t)]\<rparr>))"

definition insertInternal :: "string \<Rightarrow> InternalKey option \<Rightarrow> controldb \<Rightarrow> control_error + controldb" where
  "insertInternal u internal db =
     (case internal of
        None \<Rightarrow> Inr db
      | Some k \<Rightarrow>
          if has_key (cb_internal db) u \<or> list_ex (\<lambda>(e, k'). ik_Key k' = ik_Key k) (cb_internal db) then Inl SqlError
          else Inr (db\<lparr>cb_internal := cb_internal db @ [(u, k)]\<rparr>))"

definition restoreDeletionTx :: "UserDeletion \<Rightarrow> controldb \<Rightarrow> control_error + unit \<times> controldb" where
  "restoreDeletionTx d db =
     (if userKeys (ud_User d) (cb_keys db) \<noteq> [] then Inl ErrUserLifecycleConflict
      else (case insertKeys (sort_key fst (ud_Rows d)) (cb_keys db) of
              Inl e \<Rightarrow> Inl e
            | Inr table \<Rightarrow>
      (case insertRoute (ud_User d) (ud_Route d) (db\<lparr>cb_keys := table\<rparr>) of
         Inl e \<Rightarrow> Inl e
       | Inr db1 \<Rightarrow>
      (case restoreUserMembership (ud_User d) (ud_Membership d) db1 of
         Inl e \<Rightarrow> Inl e
       | Inr db2 \<Rightarrow>
      (case insertTags (ud_User d) (ud_Tags d) db2 of
         Inl e \<Rightarrow> Inl e
       | Inr db3 \<Rightarrow> map_sum id (Pair ()) (insertInternal (ud_User d) (ud_InternalKey d) db3))))))"

definition RestoreUserDeletion ::
  "tx \<Rightarrow> int64 \<Rightarrow> Lease list \<Rightarrow> UserDeletion \<Rightarrow> controldb \<Rightarrow> (control_error + unit) \<times> controldb" where
  "RestoreUserDeletion tx now fence d db =
     (if ud_User d = [] \<or> ud_Rows d = [] then (Inl ErrInvalidCatalogInput, db)
      else controlTx tx now fence (restoreDeletionTx d) db)"

section \<open>Lemmas\<close>

text \<open>
  Tables as the code writes them: users are stored under their normal form, primary keys are
  unique, foreign keys refer to rows that exist.
\<close>

definition norm_names :: "(string \<times> 'a) list \<Rightarrow> bool" where
  "norm_names m \<longleftrightarrow> (\<forall>(e, v) \<in> set m. sql_norm e = e)"

definition user_tables :: "controldb \<Rightarrow> bool" where
  "user_tables db \<longleftrightarrow>
     key_table (cb_keys db) \<and> trimmed_users (cb_keys db) \<and>
     wf_map (cb_routes db) \<and> norm_names (cb_routes db) \<and>
     wf_map (cb_memberships db) \<and> norm_names (cb_memberships db) \<and>
     (\<forall>(e, m) \<in> set (cb_memberships db). case um_TeamID m of None \<Rightarrow> True | Some t \<Rightarrow> t \<in> set (cb_teams db)) \<and>
     wf_map (cb_internal db) \<and> norm_names (cb_internal db) \<and> internal_secrets (cb_internal db) \<and>
     norm_names (cb_tags db) \<and> distinct (map (\<lambda>(e, t). (e, ut_TagID t)) (cb_tags db)) \<and>
     (\<forall>(e, t) \<in> set (cb_tags db). ut_TagID t \<in> set (cb_tag_ids db))"

lemma userRow_eq:
  assumes "norm_names m"
  shows "userRow u m = map_of m u"
  using assms by (induction m) (auto simp: userRow_def norm_names_def)

lemma deleteUserRows_eq:
  assumes "norm_names m"
  shows "deleteUserRows u m = AList.delete u m"
  unfolding deleteUserRows_def AList.delete_eq using assms by (intro filter_cong) (auto simp: norm_names_def)

subsection \<open>Creation\<close>

lemma assignTeam_Inr:
  assumes "assignTeam now u team db = Inr ((changed, previous), db1)" "norm_names (cb_memberships db)"
  shows "(\<not> changed \<and> db1 = db) \<or>
     (changed \<and> previous = map_of (cb_memberships db) u \<and>
      (\<exists>m t. db1 = db\<lparr>cb_memberships := AList.update u m (cb_memberships db)\<rparr> \<and> um_TeamID m = Some t \<and> t \<in> set (cb_teams db)))"
  using assms
  by (auto simp: assignTeam_def writeMembership_def Let_def readUserMembership_def userRow_eq
      split: option.splits if_splits)

lemma creationTx_Inr:
  assumes "creationTx now u key team db = Inr (c, db')" "norm_names (cb_memberships db)"
  obtains m where
    "db' = db\<lparr>cb_memberships := m, cb_routes := deleteUserRows u (cb_routes db), cb_keys := cb_keys db @ userKeyRows now u key db\<rparr>"
    "uc_User c = u" "uc_APIKey c = key" "uc_CreatedRows c = map fst (userKeyRows now u key db)"
    "uc_PreviousRoute c = userRow u (cb_routes db)" "cb_accounts db \<noteq> []"
    "activeKeyRows u (cb_keys db) = []" "\<forall>(s, k) \<in> set (cb_keys db). kr_Key k \<noteq> key"
    "(\<not> uc_TeamChanged c \<and> m = cb_memberships db) \<or>
     (uc_TeamChanged c \<and> uc_PreviousMembership c = map_of (cb_memberships db) u \<and>
      (\<exists>s t. m = AList.update u s (cb_memberships db) \<and> um_TeamID s = Some t \<and> t \<in> set (cb_teams db)))"
proof -
  have g: "activeKeyRows u (cb_keys db) = []" "\<not> list_ex (\<lambda>(s, k). kr_Key k = key) (cb_keys db)" "cb_accounts db \<noteq> []"
    using assms(1) by (auto simp: creationTx_def split: if_splits)
  with assms(1) obtain changed previous db1 where t: "assignTeam now u team db = Inr ((changed, previous), db1)"
    unfolding creationTx_def by (auto split: sum.splits)
  note T = assignTeam_Inr [OF t assms(2)]
  have db1: "db1 = db\<lparr>cb_memberships := cb_memberships db1\<rparr>" using T by auto
  have rows: "userKeyRows now u key db1 = userKeyRows now u key db" "cb_keys db1 = cb_keys db" "cb_routes db1 = cb_routes db"
    by (subst db1, simp add: userKeyRows_def)+
  have ins: "insertKeys (userKeyRows now u key db) (cb_keys db) = Inr (cb_keys db @ userKeyRows now u key db)"
    unfolding userKeyRows_def by (rule insertKeys_next)
  have c: "c = \<lparr>uc_User = u, uc_APIKey = key, uc_CreatedRows = map fst (userKeyRows now u key db),
      uc_PreviousRoute = userRow u (cb_routes db), uc_TeamChanged = changed, uc_PreviousMembership = previous\<rparr>"
    and d: "db' = db1\<lparr>cb_routes := deleteUserRows u (cb_routes db), cb_keys := cb_keys db @ userKeyRows now u key db\<rparr>"
    using assms(1) g t ins rows by (auto simp: creationTx_def Let_def)
  show thesis
  proof (rule that [of "cb_memberships db1"])
    show "db' = db\<lparr>cb_memberships := cb_memberships db1, cb_routes := deleteUserRows u (cb_routes db),
        cb_keys := cb_keys db @ userKeyRows now u key db\<rparr>" unfolding d by (subst db1) simp
    show "(\<not> uc_TeamChanged c \<and> cb_memberships db1 = cb_memberships db) \<or>
     (uc_TeamChanged c \<and> uc_PreviousMembership c = map_of (cb_memberships db) u \<and>
      (\<exists>s t. cb_memberships db1 = AList.update u s (cb_memberships db) \<and> um_TeamID s = Some t \<and> t \<in> set (cb_teams db)))"
      using T by (auto simp: c)
  qed (use g c in \<open>auto simp: list_ex_iff\<close>)
qed

lemma ApplyUserCreation_Inr:
  assumes "ApplyUserCreation tx now fence user apiKey team db = (Inr c, db')"
  shows "norm_user user \<noteq> []" "trim_space apiKey \<noteq> []"
    "creationTx now (norm_user user) (trim_space apiKey) (normalizeOptionalCatalogID team) db = Inr (c, db')"
  using assms by (auto simp: ApplyUserCreation_def Let_def split: if_splits dest: controlTx_Inr(1))

lemma userKeyRows_check:
  "\<exists>k. map_of (cb_keys db @ userKeyRows now u key db) s = Some k \<and> keyIs u ''active'' key k"
  if "s \<in> set (map fst (userKeyRows now u key db))"
proof -
  from that obtain k where k: "(s, k) \<in> set (userKeyRows now u key db)" by auto
  have "map_of (cb_keys db @ userKeyRows now u key db) s = Some k"
    using map_of_numbered [of "cb_keys db"] nextSequence_greater k unfolding userKeyRows_def by blast
  moreover have "keyIs u ''active'' key k"
    using numbered_snd [OF k [unfolded userKeyRows_def]] by (auto simp: keyIs_def userKeyRow_def)
  ultimately show ?thesis by blast
qed

lemma delete_userKeyRows:
  "deleteKeys (\<lambda>s k. s \<in> set (map fst (userKeyRows now u key db))) (cb_keys db @ userKeyRows now u key db) = cb_keys db"
  unfolding userKeyRows_def using nextSequence_greater by (intro deleteKeys_fresh) blast

lemma restoreUserMembership_back:
  assumes "user_tables db" "cb_teams d = cb_teams db"
    and "cb_memberships d = AList.update u s (cb_memberships db) \<or> cb_memberships d = AList.delete u (cb_memberships db)"
  shows "\<exists>m. restoreUserMembership u (map_of (cb_memberships db) u) d = Inr (d\<lparr>cb_memberships := m\<rparr>) \<and>
     map_of m = map_of (cb_memberships db)"
proof (cases "map_of (cb_memberships db) u")
  case None
  then have "map_of (AList.delete u (cb_memberships d)) = map_of (cb_memberships db)"
    using assms(3) by (auto simp: fun_upd_idem_iff)
  then show ?thesis using None by (auto simp: restoreUserMembership_def)
next
  case (Some m)
  then have "(u, m) \<in> set (cb_memberships db)" by (rule map_of_SomeD)
  then have "\<not> (case um_TeamID m of None \<Rightarrow> False | Some t \<Rightarrow> t \<notin> set (cb_teams d))"
    using assms(1,2) by (fastforce simp: user_tables_def split: option.splits)
  moreover have "map_of (AList.update u m (cb_memberships d)) = map_of (cb_memberships db)"
    using assms(3) Some by (auto simp: fun_upd_idem_iff)
  ultimately show ?thesis using Some by (auto simp: restoreUserMembership_def writeMembership_def)
qed

lemma RestoreUserCreation_reverts:
  assumes t: "user_tables db"
    and a: "ApplyUserCreation tx now fence user apiKey team db = (Inr c, db')"
    and f: "validateWriteFence now' fence' (cb_leases db) = None"
  shows "\<exists>d. RestoreUserCreation TxOK now' fence' c (db'\<lparr>cb_internal := internal\<rparr>) = (Inr (), d) \<and>
     same_db d (db\<lparr>cb_internal := internal\<rparr>)"
proof -
  define u key where "u = norm_user user" and "key = trim_space apiKey"
  note A = ApplyUserCreation_Inr [OF a, folded u_def key_def]
  have nm: "norm_names (cb_memberships db)" "norm_names (cb_routes db)" using t by (auto simp: user_tables_def)
  obtain m where m: "db' = db\<lparr>cb_memberships := m, cb_routes := deleteUserRows u (cb_routes db),
        cb_keys := cb_keys db @ userKeyRows now u key db\<rparr>"
    and c0: "uc_User c = u" "uc_APIKey c = key" "uc_CreatedRows c = map fst (userKeyRows now u key db)"
      "uc_PreviousRoute c = userRow u (cb_routes db)" "cb_accounts db \<noteq> []"
    and mm: "(\<not> uc_TeamChanged c \<and> m = cb_memberships db) \<or>
     (uc_TeamChanged c \<and> uc_PreviousMembership c = map_of (cb_memberships db) u \<and>
      (\<exists>s t. m = AList.update u s (cb_memberships db) \<and> um_TeamID s = Some t \<and> t \<in> set (cb_teams db)))"
    by (rule creationTx_Inr [OF A(3) nm(1)], rule that; assumption)
  note c = c0 [unfolded userRow_eq [OF nm(2)]]
  let ?d0 = "db'\<lparr>cb_internal := internal\<rparr>"
  define routes where "routes = (case map_of (cb_routes db) u of
      None \<Rightarrow> AList.delete u (cb_routes ?d0) | Some a \<Rightarrow> AList.update u a (cb_routes ?d0))"
  define d1 where "d1 = ?d0\<lparr>cb_keys := cb_keys db, cb_routes := routes\<rparr>"
  have r: "map_of routes = map_of (cb_routes db)"
    unfolding routes_def using m deleteUserRows_eq [OF nm(2)] by (auto split: option.split simp: fun_upd_idem_iff)
  have chk: "checkRows ErrUserLifecycleConflict (cb_keys ?d0)
      (map (\<lambda>s. (s, keyIs (uc_User c) ''active'' (uc_APIKey c))) (uc_CreatedRows c)) = None"
    unfolding checkRows_None c m using userKeyRows_check by auto
  have keys: "deleteKeys (\<lambda>s k. s \<in> set (uc_CreatedRows c)) (cb_keys ?d0) = cb_keys db"
    using delete_userKeyRows [where db = db] by (simp add: c m)
  have eq: "restoreCreationTx c ?d0 = (if uc_TeamChanged c
      then map_sum id (Pair ()) (restoreUserMembership u (uc_PreviousMembership c) d1) else Inr ((), d1))"
    unfolding restoreCreationTx_def chk option.case unfolding Let_def keys unfolding c(1,4) d1_def routes_def by simp
  obtain m' where "restoreCreationTx c ?d0 = Inr ((), d1\<lparr>cb_memberships := m'\<rparr>)" "map_of m' = map_of (cb_memberships db)"
  proof (cases "uc_TeamChanged c")
    case False
    then have "d1\<lparr>cb_memberships := cb_memberships db\<rparr> = d1" using mm by (simp add: d1_def m)
    then show thesis using False eq by (intro that [of "cb_memberships db"]) simp_all
  next
    case True
    then obtain s where s: "m = AList.update u s (cb_memberships db)"
      "uc_PreviousMembership c = map_of (cb_memberships db) u" using mm by auto
    then obtain m' where "restoreUserMembership u (map_of (cb_memberships db) u) d1 = Inr (d1\<lparr>cb_memberships := m'\<rparr>)"
      "map_of m' = map_of (cb_memberships db)"
      using restoreUserMembership_back [OF t, of d1 u s] by (auto simp: d1_def m)
    then show thesis using True eq s(2) by (intro that [of m']) simp_all
  qed
  moreover have "uc_CreatedRows c \<noteq> []" using c(3,5) by (simp add: userKeyRows_def)
  moreover have "cb_leases ?d0 = cb_leases db" by (simp add: m)
  ultimately have "RestoreUserCreation TxOK now' fence' c ?d0 = (Inr (), d1\<lparr>cb_memberships := m'\<rparr>)"
    "same_db (d1\<lparr>cb_memberships := m'\<rparr>) (db\<lparr>cb_internal := internal\<rparr>)"
    using A(1,2) c f r by (auto simp: RestoreUserCreation_def controlTx_ok same_db_def d1_def m)
  then show ?thesis by blast
qed

subsection \<open>Revocation\<close>

lemma filter_row:
  assumes "distinct (map fst rows)" "(s, k) \<in> set rows" "P k"
  shows "filter (\<lambda>(s', k'). s' = s \<and> P k') rows = [(s, k)]"
  using assms
proof (induction rows)
  case (Cons r rows)
  show ?case
  proof (cases "r = (s, k)")
    case True
    then have "s \<notin> set (map fst rows)" using Cons.prems(1) by simp
    then have "filter (\<lambda>(s', k'). s' = s \<and> P k') rows = []" by (force simp: filter_empty_conv)
    then show ?thesis using True Cons.prems(3) by simp
  next
    case False
    then have "(s, k) \<in> set rows" using Cons.prems(2) by simp
    moreover from this have "fst r \<noteq> s" using Cons.prems(1) by (cases r) force
    ultimately show ?thesis using Cons by (cases r) auto
  qed
qed simp

lemma revokeRows_eq:
  assumes "key_table table" "distinct (map us_Sequence rs)" "\<forall>r \<in> set rs. \<exists>k. (us_Sequence r, k) \<in> set table \<and> isActive k"
  shows "revokeRows now rs table =
     Inr (updateKeys (\<lambda>s k. s \<in> us_Sequence ` set rs \<and> isActive k) (markRevoked now) table)"
  using assms
proof (induction rs arbitrary: table)
  case Nil
  then show ?case by (simp add: updateKeys_none case_prod_beta)
next
  case (Cons r rs)
  let ?t = "updateKeys (\<lambda>s k. s = us_Sequence r \<and> isActive k) (markRevoked now) table"
  obtain k where k: "(us_Sequence r, k) \<in> set table" "isActive k" using Cons.prems(3) by auto
  have one: "filter (\<lambda>(s, k). s = us_Sequence r \<and> isActive k) table = [(us_Sequence r, k)]"
    using Cons.prems(1) k by (intro filter_row) (simp_all add: key_table_def)
  have "\<exists>k. (us_Sequence q, k) \<in> set ?t \<and> isActive k" if q: "q \<in> set rs" for q
  proof -
    obtain k where "(us_Sequence q, k) \<in> set table" "isActive k" using Cons.prems(3) q by auto
    moreover have "us_Sequence r \<notin> us_Sequence ` set rs" using Cons.prems(2) by simp
    then have "us_Sequence q \<noteq> us_Sequence r" using q by (metis imageI)
    ultimately show ?thesis by (force simp: updateKeys_def)
  qed
  then have "revokeRows now rs ?t =
      Inr (updateKeys (\<lambda>s k. s \<in> us_Sequence ` set rs \<and> isActive k) (markRevoked now) ?t)"
    using Cons.prems by (intro Cons.IH) simp_all
  moreover have "updateKeys (\<lambda>s k. s \<in> us_Sequence ` set rs \<and> isActive k) (markRevoked now) ?t =
      updateKeys (\<lambda>s k. s \<in> us_Sequence ` set (r # rs) \<and> isActive k) (markRevoked now) table"
    unfolding updateKeys_def by (auto simp: isActive_def markRevoked_def)
  ultimately show ?case using one by simp
qed

lemma statusRows_sel [simp]:
  "map us_Sequence (statusRows rows) = map fst rows"
  "map (\<lambda>row. (us_Sequence row, us_UpdatedAt row)) (statusRows rows) = map (\<lambda>(s, k). (s, kr_UpdatedAt k)) rows"
  by (simp_all add: statusRows_def comp_def case_prod_beta)

lemma us_Sequence_statusRows: "us_Sequence ` set (statusRows rows) = set (map fst rows)"
  by (simp only: set_map [symmetric] statusRows_sel)

lemma revocationTx_Inr:
  assumes "revocationTx now u db = Inr (r, db')" "key_table (cb_keys db)"
  shows "r = \<lparr>uv_User = u, uv_Rows = statusRows (activeKeyRows u (cb_keys db))\<rparr>"
    and "db' = db\<lparr>cb_keys := updateKeys (\<lambda>s k. s \<in> set (map fst (activeKeyRows u (cb_keys db))) \<and> isActive k)
            (markRevoked now) (cb_keys db)\<rparr>"
    and "activeKeyRows u (cb_keys db) \<noteq> []"
proof -
  let ?rows = "activeKeyRows u (cb_keys db)"
  have "revokeRows now (statusRows ?rows) (cb_keys db) =
      Inr (updateKeys (\<lambda>s k. s \<in> us_Sequence ` set (statusRows ?rows) \<and> isActive k) (markRevoked now) (cb_keys db))"
  proof (rule revokeRows_eq [OF assms(2)])
    show "distinct (map us_Sequence (statusRows ?rows))"
      using distinct_activeKeyRows [OF assms(2)] by simp
    show "\<forall>r \<in> set (statusRows ?rows). \<exists>k. (us_Sequence r, k) \<in> set (cb_keys db) \<and> isActive k"
      by (auto simp: statusRows_def activeKeyRows_def)
  qed
  then show "r = \<lparr>uv_User = u, uv_Rows = statusRows ?rows\<rparr>"
    "db' = db\<lparr>cb_keys := updateKeys (\<lambda>s k. s \<in> set (map fst ?rows) \<and> isActive k) (markRevoked now) (cb_keys db)\<rparr>"
    "?rows \<noteq> []"
    using assms(1) unfolding revocationTx_def us_Sequence_statusRows
    by (auto simp: Let_def statusRows_def split: if_splits)
qed

lemma ApplyUserRevocation_Inr:
  "ApplyUserRevocation tx now fence user db = (Inr r, db') \<Longrightarrow>
   norm_user user \<noteq> [] \<and> revocationTx now (norm_user user) db = Inr (r, db')"
  by (auto simp: ApplyUserRevocation_def Let_def split: if_splits dest: controlTx_Inr(1))

lemma RestoreUserRevocation_reverts:
  assumes t: "key_table (cb_keys db)" "trimmed_users (cb_keys db)"
    and a: "ApplyUserRevocation tx now fence user db = (Inr r, db')"
    and f: "validateWriteFence now' fence' (cb_leases db) = None"
  shows "RestoreUserRevocation TxOK now' fence' r (db'\<lparr>cb_internal := internal\<rparr>) = (Inr (), db\<lparr>cb_internal := internal\<rparr>)"
proof -
  define u rows where "u = norm_user user" and "rows = activeKeyRows u (cb_keys db)"
  define marked where "marked = updateKeys (\<lambda>s k. s \<in> set (map fst rows) \<and> isActive k) (markRevoked now) (cb_keys db)"
  note A = ApplyUserRevocation_Inr [OF a, folded u_def]
  note R = revocationTx_Inr [OF conjunct2 [OF A] t(1), folded rows_def, folded marked_def]
  have "\<exists>k'. map_of marked s = Some k' \<and> keyIs u ''revoked'' (kr_Key k) k'" if m: "(s, k) \<in> set rows" for s k
  proof -
    have mem: "(s, k) \<in> set (cb_keys db)" "sql_norm (kr_User k) = u" "isActive k"
      using m by (auto simp: rows_def activeKeyRows_def)
    have "s \<in> set (map fst rows)" using m by force
    then have "map_of (marked @ []) s = Some (markRevoked now k)"
      using map_of_updateKeys [OF t(1) mem(1)] mem(3) unfolding marked_def by (simp only: simp_thms if_True)
    moreover have "to_lower (kr_User k) = u" using t(2) mem by (auto simp: trimmed_users_def)
    then have "keyIs u ''revoked'' (kr_Key k) (markRevoked now k)"
      by (simp add: keyIs_def markRevoked_def equal_fold_def u_def norm_user_def)
    ultimately show ?thesis by simp
  qed
  then have chk: "checkRows ErrUserLifecycleConflict marked
      (map (\<lambda>row. (us_Sequence row, keyIs u ''revoked'' (us_Secret row))) (statusRows rows)) = None"
    unfolding checkRows_None statusRows_def by auto
  have "restoreStatus (map (\<lambda>(s, k). (s, kr_UpdatedAt k)) rows) marked = cb_keys db"
    using restore_marked [OF t(1), where u = u and st = "''revoked''" and now = now] unfolding marked_def rows_def markRevoked_def .
  with chk have "restoreRevocationTx r (db'\<lparr>cb_internal := internal\<rparr>) = Inr ((), db\<lparr>cb_internal := internal\<rparr>)"
    unfolding restoreRevocationTx_def R(1,2) by simp
  moreover have "statusRows rows \<noteq> []" using R(3) by (simp add: statusRows_def)
  ultimately show ?thesis using A f R(1,2) by (simp add: RestoreUserRevocation_def controlTx_ok)
qed

subsection \<open>Deletion\<close>

lemma insertTags_Inr:
  assumes "\<forall>t \<in> set ts. ut_TagID t \<in> set (cb_tag_ids db)" "distinct (map ut_TagID ts)"
    "\<forall>(e, t') \<in> set (cb_tags db). e = u \<longrightarrow> ut_TagID t' \<notin> ut_TagID ` set ts"
  shows "insertTags u ts db = Inr (db\<lparr>cb_tags := cb_tags db @ map (Pair u) ts\<rparr>)"
  using assms
proof (induction ts arbitrary: db)
  case (Cons t ts)
  let ?db = "db\<lparr>cb_tags := cb_tags db @ [(u, t)]\<rparr>"
  have "\<not> list_ex (\<lambda>(e, t'). e = u \<and> ut_TagID t' = ut_TagID t) (cb_tags db)"
    using Cons.prems(3) by (fastforce simp: list_ex_iff)
  moreover have "insertTags u ts ?db = Inr (?db\<lparr>cb_tags := cb_tags ?db @ map (Pair u) ts\<rparr>)"
    using Cons.prems by (intro Cons.IH) auto
  ultimately show ?case using Cons.prems(1) by simp
qed simp

lemma map_of_delete_append: "map_of (AList.delete u m @ [(u, v)]) = (map_of m)(u \<mapsto> v)"
  by (rule ext) (simp add: map_add_def split: option.split)

lemma userTags:
  fixes db u
  assumes "user_tables db"
  defines "ts \<equiv> sort_key ut_TagID (map snd (filter (\<lambda>(e, t). sql_norm e = u) (cb_tags db)))"
  shows "\<forall>t \<in> set ts. ut_TagID t \<in> set (cb_tag_ids db)" "distinct (map ut_TagID ts)"
    "set (deleteUserRows u (cb_tags db) @ map (Pair u) ts) = set (cb_tags db)"
proof -
  let ?rows = "filter (\<lambda>(e, t). sql_norm e = u) (cb_tags db)"
  have n: "\<forall>(e, t) \<in> set (cb_tags db). sql_norm e = e" "distinct (map (\<lambda>(e, t). (e, ut_TagID t)) (cb_tags db))"
    "\<forall>(e, t) \<in> set (cb_tags db). ut_TagID t \<in> set (cb_tag_ids db)"
    using assms(1) by (auto simp: user_tables_def norm_names_def)
  have s: "set ts = snd ` set ?rows" by (simp add: ts_def)
  then show "\<forall>t \<in> set ts. ut_TagID t \<in> set (cb_tag_ids db)" using n(3) by auto
  have eq: "map (Pair u) (map snd ?rows) = ?rows" unfolding map_map by (rule map_idI) (use n(1) in auto)
  have "distinct (map (\<lambda>(e, t). (e, ut_TagID t)) ?rows)" using n(2) by (rule distinct_map_filter)
  then have "distinct (map (\<lambda>(e, t). (e, ut_TagID t)) (map (Pair u) (map snd ?rows)))" unfolding eq .
  then have "distinct (map (\<lambda>t. (u, ut_TagID t)) (map snd ?rows))" by (simp add: comp_def)
  then have d: "distinct (map ut_TagID (map snd ?rows))" by (auto simp: distinct_map inj_on_def)
  have "distinct (map ut_TagID (sort_key ut_TagID xs))" if "distinct (map ut_TagID xs)" for xs
    using that by (simp add: distinct_map)
  from this [OF d] show "distinct (map ut_TagID ts)" unfolding ts_def .
  have "set (map (Pair u) ts) = set ?rows" using s n(1) by (force simp: image_iff)
  then show "set (deleteUserRows u (cb_tags db) @ map (Pair u) ts) = set (cb_tags db)"
    by (auto simp: deleteUserRows_def)
qed

lemma sort_key_filter_table: "key_table rows \<Longrightarrow> sort_key fst (filter P rows) = filter P rows"
  by (rule sort_key_id_if_sorted) (simp add: key_table_def sorted_filter)

lemma deletionTx_Inr:
  assumes "deletionTx u revokeActive db = Inr (d, db')" "user_tables db"
  shows "ud_User d = u" "ud_Rows d = userKeys u (cb_keys db)" "ud_Rows d \<noteq> []"
    "ud_Route d = map_of (cb_routes db) u" "ud_Membership d = map_of (cb_memberships db) u"
    "ud_Tags d = sort_key ut_TagID (map snd (filter (\<lambda>(e, t). sql_norm e = u) (cb_tags db)))"
    "ud_InternalKey d = map_of (cb_internal db) u"
    "db' = db\<lparr>cb_keys := deleteKeys (\<lambda>s k. sql_norm (kr_User k) = u) (cb_keys db),
       cb_routes := AList.delete u (cb_routes db), cb_tags := deleteUserRows u (cb_tags db),
       cb_memberships := AList.delete u (cb_memberships db), cb_internal := AList.delete u (cb_internal db)\<rparr>"
    "filter (isActive \<circ> snd) (userKeys u (cb_keys db)) = [] \<or> revokeActive"
  using assms
  by (auto simp: deletionTx_def Let_def user_tables_def userRow_eq deleteUserRows_eq readUserMembership_def split: if_splits)

lemma ApplyUserDeletion_Inr:
  "ApplyUserDeletion tx now fence user revokeActive db = (Inr d, db') \<Longrightarrow>
   norm_user user \<noteq> [] \<and> deletionTx (norm_user user) revokeActive db = Inr (d, db')"
  by (auto simp: ApplyUserDeletion_def Let_def split: if_splits dest: controlTx_Inr(1))

lemma RestoreUserDeletion_reverts:
  assumes t: "user_tables db"
    and a: "ApplyUserDeletion tx now fence user revokeActive db = (Inr d, db')"
    and f: "validateWriteFence now' fence' (cb_leases db) = None"
  shows "\<exists>db''. RestoreUserDeletion TxOK now' fence' d db' = (Inr (), db'') \<and> same_db db'' db"
proof -
  define u where "u = norm_user user"
  note A = ApplyUserDeletion_Inr [OF a, folded u_def]
  note D = deletionTx_Inr [OF conjunct2 [OF A] t]
  note T = userTags [OF t, of u, folded D(6)]
  have kt: "key_table (cb_keys db)" and sec: "internal_secrets (cb_internal db)" "wf_map (cb_internal db)"
    using t by (auto simp: user_tables_def)
  have gone: "userKeys u (cb_keys db') = []"
    unfolding D(8) by (auto simp: userKeys_def deleteKeys_def filter_empty_conv)
  have keys: "insertKeys (sort_key fst (ud_Rows d)) (cb_keys db') = Inr (cb_keys db)"
    using insertKeys_restore [OF kt, of "\<lambda>(s, k). sql_norm (kr_User k) = u"]
    unfolding D(2,8) userKeys_def deleteKeys_def sort_key_filter_table [OF kt] by (simp add: case_prod_unfold)
  define db0 where "db0 = db'\<lparr>cb_keys := cb_keys db\<rparr>"
  obtain routes where routes: "insertRoute u (ud_Route d) db0 = Inr (db0\<lparr>cb_routes := routes\<rparr>)"
    "map_of routes = map_of (cb_routes db)"
  proof (cases "map_of (cb_routes db) u")
    case None
    then show thesis
      using that [of "cb_routes db0"] D(4,8) by (simp add: insertRoute_def db0_def fun_upd_idem_iff)
  next
    case (Some x)
    then show thesis
      using that [of "cb_routes db0 @ [(u, x)]"] D(4,8) map_of_delete_append [of u "cb_routes db" x]
      by (simp add: insertRoute_def db0_def has_key_map_of fun_upd_idem_iff)
  qed
  define db1 where "db1 = db0\<lparr>cb_routes := routes\<rparr>"
  obtain m where m: "restoreUserMembership u (ud_Membership d) db1 = Inr (db1\<lparr>cb_memberships := m\<rparr>)"
    "map_of m = map_of (cb_memberships db)"
    using restoreUserMembership_back [OF t, of db1 u] D(5,8) by (auto simp: db1_def db0_def)
  define db2 where "db2 = db1\<lparr>cb_memberships := m\<rparr>"
  have tags: "insertTags u (ud_Tags d) db2 = Inr (db2\<lparr>cb_tags := cb_tags db2 @ map (Pair u) (ud_Tags d)\<rparr>)"
  proof (rule insertTags_Inr [OF _ T(2)])
    show "\<forall>t \<in> set (ud_Tags d). ut_TagID t \<in> set (cb_tag_ids db2)" using T(1) D(8) by (simp add: db2_def db1_def db0_def)
    have "cb_tags db2 = deleteUserRows u (cb_tags db)" using D(8) by (simp add: db2_def db1_def db0_def)
    moreover have "e \<noteq> u" if "(e, t) \<in> set (deleteUserRows u (cb_tags db))" for e t
      using that sql_norm_norm_user [of user] by (auto simp: deleteUserRows_def u_def)
    ultimately show "\<forall>(e, t') \<in> set (cb_tags db2). e = u \<longrightarrow> ut_TagID t' \<notin> ut_TagID ` set (ud_Tags d)" by fastforce
  qed
  define db3 where "db3 = db2\<lparr>cb_tags := cb_tags db2 @ map (Pair u) (ud_Tags d)\<rparr>"
  have i3: "cb_internal db3 = AList.delete u (cb_internal db)" using D(8) by (simp add: db3_def db2_def db1_def db0_def)
  obtain i where i: "insertInternal u (ud_InternalKey d) db3 = Inr (db3\<lparr>cb_internal := i\<rparr>)"
    "map_of i = map_of (cb_internal db)"
  proof (cases "map_of (cb_internal db) u")
    case None
    then show thesis using that [of "cb_internal db3"] D(7) i3 by (simp add: insertInternal_def fun_upd_idem_iff)
  next
    case (Some k)
    then have "\<not> list_ex (\<lambda>(e, k'). ik_Key k' = ik_Key k) (AList.delete u (cb_internal db))"
      using sec(1) by (auto simp: list_ex_iff AList.delete_eq internal_secrets_def wf_map_map_of [OF sec(2)])
    then show thesis
      using that [of "cb_internal db3 @ [(u, k)]"] Some D(7) i3 map_of_delete_append [of u "cb_internal db" k]
      by (simp add: insertInternal_def has_key_map_of fun_upd_idem_iff)
  qed
  have "restoreDeletionTx d db' = Inr ((), db3\<lparr>cb_internal := i\<rparr>)"
    unfolding restoreDeletionTx_def D(1) using gone keys routes(1) m(1) tags i(1)
    by (simp add: db0_def db1_def db2_def db3_def)
  moreover have "same_db (db3\<lparr>cb_internal := i\<rparr>) db"
    using routes(2) m(2) i(2) T(3) D(8) by (simp add: same_db_def db3_def db2_def db1_def db0_def)
  moreover have "cb_leases db' = cb_leases db" by (simp add: D(8))
  ultimately show ?thesis using A D(1,3) f by (auto simp: RestoreUserDeletion_def controlTx_ok)
qed

subsection \<open>The contracts\<close>

lemma ApplyUserCreation_Inl: "ApplyUserCreation tx now fence user key team db = (Inl e, db') \<Longrightarrow> db' = db"
  by (auto simp: ApplyUserCreation_def Let_def split: if_splits dest: controlTx_Inl)

lemma ApplyUserRevocation_Inl: "ApplyUserRevocation tx now fence user db = (Inl e, db') \<Longrightarrow> db' = db"
  by (auto simp: ApplyUserRevocation_def Let_def split: if_splits dest: controlTx_Inl)

lemma ApplyUserDeletion_Inl: "ApplyUserDeletion tx now fence user revokeActive db = (Inl e, db') \<Longrightarrow> db' = db"
  by (auto simp: ApplyUserDeletion_def Let_def split: if_splits dest: controlTx_Inl)

lemma creationTx_internal: "creationTx now u key team db = Inr (c, db') \<Longrightarrow> cb_internal db' = cb_internal db"
  by (auto simp: creationTx_def assignTeam_def writeMembership_def Let_def split: if_splits sum.splits option.splits)

lemma revocationTx_internal: "revocationTx now u db = Inr (r, db') \<Longrightarrow> cb_internal db' = cb_internal db"
  by (auto simp: revocationTx_def Let_def split: if_splits sum.splits)

interpretation creation: synced_change
  "\<lambda>(user, apiKey, team). ApplyUserCreation tx now fence user apiKey team"
  "RestoreUserCreation TxOK now' fence'"
  "\<lambda>db. user_tables db \<and> validateWriteFence now' fence' (cb_leases db) = None"
  for tx now fence now' fence'
  by unfold_locales
    (auto dest: ApplyUserCreation_Inl ApplyUserCreation_Inr(3) creationTx_internal intro: RestoreUserCreation_reverts
      split: prod.splits)

interpretation revocation: synced_change
  "ApplyUserRevocation tx now fence" "RestoreUserRevocation TxOK now' fence'"
  "\<lambda>db. user_tables db \<and> validateWriteFence now' fence' (cb_leases db) = None"
  for tx now fence now' fence'
  by unfold_locales
    (auto simp: user_tables_def RestoreUserRevocation_reverts
      dest: ApplyUserRevocation_Inl ApplyUserRevocation_Inr revocationTx_internal)

interpretation deletion: reversible_change
  "\<lambda>(user, revokeActive). ApplyUserDeletion tx now fence user revokeActive"
  "RestoreUserDeletion TxOK now' fence'"
  "\<lambda>db. user_tables db \<and> validateWriteFence now' fence' (cb_leases db) = None"
  for tx now fence now' fence'
  by unfold_locales
    (auto dest: ApplyUserDeletion_Inl intro: RestoreUserDeletion_reverts split: prod.splits)

section \<open>Properties\<close>

lemma activeKeyRows_userKeys: "activeKeyRows u rows = filter (isActive \<circ> snd) (userKeys u rows)"
  by (induction rows) (auto simp: activeKeyRows_def userKeys_def)

lemma userKeys_deleteKeys:
  "v \<noteq> u \<Longrightarrow> userKeys v (deleteKeys (\<lambda>s k. sql_norm (kr_User k) = u) rows) = userKeys v rows"
  by (induction rows) (auto simp: userKeys_def deleteKeys_def)

lemma userRow_deleteUserRows [simp]: "userRow v (deleteUserRows u m) = (if v = u then None else userRow v m)"
  by (induction m) (auto simp: userRow_def deleteUserRows_def)

lemma filter_deleteUserRows:
  "v \<noteq> u \<Longrightarrow> filter (\<lambda>(e, t). sql_norm e = v) (deleteUserRows u m) = filter (\<lambda>(e, t). sql_norm e = v) m"
  by (induction m) (auto simp: deleteUserRows_def)

text \<open>
  C39: Each change of a user fails with no change or can be taken back. A creation, a revocation or a
  deletion that reports an error leaves every table as it was. On tables as the code writes them, the
  rollback of a successful creation, revocation or deletion succeeds and gives back the rows of
  every table; for the first two also when the internal keys were synchronised in between.
\<close>

theorem user_lifecycle_reversible:
  assumes "user_tables db" "validateWriteFence now' fence' (cb_leases db) = None"
  shows "(ApplyUserCreation tx now fence user apiKey team db = (Inr c, db1) \<longrightarrow>
       (\<exists>d. RestoreUserCreation TxOK now' fence' c (db1\<lparr>cb_internal := internal\<rparr>) = (Inr (), d) \<and>
            same_db d (db\<lparr>cb_internal := internal\<rparr>))) \<and>
     (ApplyUserRevocation tx now fence user db = (Inr r, db2) \<longrightarrow>
       (\<exists>d. RestoreUserRevocation TxOK now' fence' r (db2\<lparr>cb_internal := internal\<rparr>) = (Inr (), d) \<and>
            same_db d (db\<lparr>cb_internal := internal\<rparr>))) \<and>
     (ApplyUserDeletion tx now fence user revokeActive db = (Inr x, db3) \<longrightarrow>
       (\<exists>d. RestoreUserDeletion TxOK now' fence' x db3 = (Inr (), d) \<and> same_db d db)) \<and>
     (ApplyUserCreation tx now fence user apiKey team db = (Inl e1, db1) \<longrightarrow> db1 = db) \<and>
     (ApplyUserRevocation tx now fence user db = (Inl e2, db2) \<longrightarrow> db2 = db) \<and>
     (ApplyUserDeletion tx now fence user revokeActive db = (Inl e3, db3) \<longrightarrow> db3 = db)"
proof -
  have pre: "user_tables db \<and> validateWriteFence now' fence' (cb_leases db) = None" using assms by blast
  show ?thesis
    using creation.reverts_synced [OF pre, of tx now fence "(user, apiKey, team)" c db1 internal]
      revocation.reverts_synced [OF pre, of tx now fence user r db2 internal]
      deletion.reverts [OF pre, of tx now fence "(user, revokeActive)" x db3]
    unfolding prod.case by (blast dest: ApplyUserCreation_Inl ApplyUserRevocation_Inl ApplyUserDeletion_Inl)
qed

text \<open>\<open>ann\<close> with a key on two accounts, a route, a team, a tag and an internal key.\<close>

definition sampleUsers :: controldb where
  "sampleUsers = twoAccounts\<lparr>cb_teams := [''t''], cb_tag_ids := [''g''],
     cb_memberships := [(''ann'', \<lparr>um_TeamID = Some ''t'', um_MembershipVersion = 3, um_UpdatedAt = 1\<rparr>)],
     cb_tags := [(''ann'', \<lparr>ut_TagID = ''g'', ut_AssignedAt = 1\<rparr>)],
     cb_internal := [(''ann'', \<lparr>ik_Key = ''i'', ik_CreatedAt = 1, ik_Status = ''active''\<rparr>)]\<rparr>"

lemma sampleUsers_tables: "user_tables sampleUsers"
proof -
  have "sql_norm ''ann'' = ''ann''" by code_simp
  moreover have "to_lower ''ann'' = ''ann''" by code_simp
  ultimately show ?thesis
    by (simp add: user_tables_def sampleUsers_def twoAccounts_def key_table_def trimmed_users_def wf_map_def
        norm_names_def internal_secrets_def)
qed

theorem user_lifecycle_reversible_witness:
  "\<exists>c db1 r db2 x db3.
     ApplyUserCreation TxOK 7 [] ''Bob '' ''k2'' (Some ''t'') sampleUsers = (Inr c, db1) \<and>
     (\<exists>d. RestoreUserCreation TxOK 8 [] c (db1\<lparr>cb_internal := []\<rparr>) = (Inr (), d) \<and> same_db d (sampleUsers\<lparr>cb_internal := []\<rparr>)) \<and>
     ApplyUserRevocation TxOK 7 [] ''ann'' sampleUsers = (Inr r, db2) \<and>
     (\<exists>d. RestoreUserRevocation TxOK 8 [] r (db2\<lparr>cb_internal := []\<rparr>) = (Inr (), d) \<and> same_db d (sampleUsers\<lparr>cb_internal := []\<rparr>)) \<and>
     ApplyUserDeletion TxOK 7 [] ''ann'' True sampleUsers = (Inr x, db3) \<and>
     (\<exists>d. RestoreUserDeletion TxOK 8 [] x db3 = (Inr (), d) \<and> same_db d sampleUsers) \<and>
     (\<exists>e. ApplyUserDeletion TxOK 7 [] ''ann'' False sampleUsers = (Inl e, sampleUsers))"
proof -
  have "\<not> isl (fst (ApplyUserCreation TxOK 7 [] ''Bob '' ''k2'' (Some ''t'') sampleUsers))" by code_simp
  then obtain c db1 where c: "ApplyUserCreation TxOK 7 [] ''Bob '' ''k2'' (Some ''t'') sampleUsers = (Inr c, db1)"
    by (rule ran_ok)
  have "\<not> isl (fst (ApplyUserRevocation TxOK 7 [] ''ann'' sampleUsers))" by code_simp
  then obtain r db2 where r: "ApplyUserRevocation TxOK 7 [] ''ann'' sampleUsers = (Inr r, db2)" by (rule ran_ok)
  have "\<not> isl (fst (ApplyUserDeletion TxOK 7 [] ''ann'' True sampleUsers))" by code_simp
  then obtain x db3 where x: "ApplyUserDeletion TxOK 7 [] ''ann'' True sampleUsers = (Inr x, db3)" by (rule ran_ok)
  have "isl (fst (ApplyUserDeletion TxOK 7 [] ''ann'' False sampleUsers))" by code_simp
  then obtain e db4 where e: "ApplyUserDeletion TxOK 7 [] ''ann'' False sampleUsers = (Inl e, db4)"
    by (cases "ApplyUserDeletion TxOK 7 [] ''ann'' False sampleUsers") (auto simp: isl_def)
  have f: "validateWriteFence 8 [] (cb_leases sampleUsers) = None" by code_simp
  note W = user_lifecycle_reversible [OF sampleUsers_tables f]
  from W [THEN conjunct1, rule_format, OF c, of "[]"]
    W [THEN conjunct2, THEN conjunct1, rule_format, OF r, of "[]"]
    W [THEN conjunct2, THEN conjunct2, THEN conjunct1, rule_format, OF x] c r x
    W [THEN conjunct2, THEN conjunct2, THEN conjunct2, THEN conjunct2, THEN conjunct2, rule_format, OF e] e
  show ?thesis by blast
qed

text \<open>
  A successful deletion leaves nothing of the user in any table and everything of every other
  user as it was, and never removes an active key without the explicit request to revoke.
\<close>

theorem ApplyUserDeletion_erases:
  assumes "ApplyUserDeletion tx now fence user revokeActive db = (Inr d, db')"
  shows "userKeys (norm_user user) (cb_keys db') = [] \<and>
     userRow (norm_user user) (cb_routes db') = None \<and> userRow (norm_user user) (cb_memberships db') = None \<and>
     userRow (norm_user user) (cb_internal db') = None \<and> userRow (norm_user user) (cb_tags db') = None \<and>
     (\<forall>v. v \<noteq> norm_user user \<longrightarrow>
        userKeys v (cb_keys db') = userKeys v (cb_keys db) \<and> userRow v (cb_routes db') = userRow v (cb_routes db) \<and>
        userRow v (cb_memberships db') = userRow v (cb_memberships db) \<and>
        userRow v (cb_internal db') = userRow v (cb_internal db) \<and>
        filter (\<lambda>(e, t). sql_norm e = v) (cb_tags db') = filter (\<lambda>(e, t). sql_norm e = v) (cb_tags db)) \<and>
     (activeKeyRows (norm_user user) (cb_keys db) \<noteq> [] \<longrightarrow> revokeActive)"
proof -
  define u where "u = norm_user user"
  have tx: "deletionTx u revokeActive db = Inr (d, db')" using ApplyUserDeletion_Inr [OF assms] by (simp add: u_def)
  then have db': "db' = db\<lparr>cb_keys := deleteKeys (\<lambda>s k. sql_norm (kr_User k) = u) (cb_keys db),
      cb_routes := deleteUserRows u (cb_routes db), cb_tags := deleteUserRows u (cb_tags db),
      cb_memberships := deleteUserRows u (cb_memberships db), cb_internal := deleteUserRows u (cb_internal db)\<rparr>"
    and act: "activeKeyRows u (cb_keys db) \<noteq> [] \<longrightarrow> revokeActive"
    unfolding activeKeyRows_userKeys by (auto simp: deletionTx_def Let_def split: if_splits)
  have "userKeys u (cb_keys db') = []"
    unfolding db' by (auto simp: userKeys_def deleteKeys_def filter_empty_conv)
  then show ?thesis using act userKeys_deleteKeys unfolding u_def [symmetric] by (simp add: db' filter_deleteUserRows)
qed

theorem ApplyUserDeletion_erases_witness:
  "\<exists>d db'. ApplyUserDeletion TxOK 7 [] '' ANN'' True sampleUsers = (Inr d, db') \<and> userKeys ''ann'' (cb_keys db') = []"
proof -
  have "\<not> isl (fst (ApplyUserDeletion TxOK 7 [] '' ANN'' True sampleUsers))" by code_simp
  then obtain d db' where x: "ApplyUserDeletion TxOK 7 [] '' ANN'' True sampleUsers = (Inr d, db')" by (rule ran_ok)
  have u: "norm_user '' ANN'' = ''ann''" by code_simp
  from ApplyUserDeletion_erases [OF x, THEN conjunct1, unfolded u] x show ?thesis by blast
qed

end
