(* ===== verification/Account_Lifecycle.thy ===== *)
theory Account_Lifecycle
  imports User_Lifecycle Account_Names
begin

text \<open>
  \<open>internal/controlplane/account_lifecycle.go\<close>: creating an account (which gives every active
  user a row of its shared key there), changing or renaming it, deleting it with its users moved to
  a fallback, and the rollback of each.
\<close>

section \<open>Definitions\<close>

type_synonym StoredAccount = "int \<times> Account"

type_synonym StoredKeyRecord = "int \<times> KeyRecord"

record AccountCreation =
  acr_Account :: Account
  acr_CreatedRows :: "StoredKeyRecord list"

record AccountRouteChange =
  arc_UserEmail :: string
  arc_Before :: string
  arc_After :: string

record AccountDefaultState =
  ads_AccountID :: string
  ads_Default :: bool

record AccountUpdateRequest =
  aur_AccountID :: string
  aur_NewAccountID :: string
  aur_Email :: string
  aur_ProxyMode :: string
  aur_GroupEnabled :: "bool option"
  aur_DefaultGroup :: "bool option"
  aur_FallbackAccount :: string

record AccountUpdate =
  au_Before :: StoredAccount
  au_After :: StoredAccount
  au_RowsBefore :: "StoredKeyRecord list"
  au_RowsAfter :: "StoredKeyRecord list"
  au_Routes :: "AccountRouteChange list"
  au_DefaultsBefore :: "AccountDefaultState list"
  au_DefaultsAfter :: "AccountDefaultState list"

record AccountDeletion =
  ad_Account :: StoredAccount
  ad_Rows :: "StoredKeyRecord list"
  ad_Routes :: "AccountRouteChange list"
  ad_Defaults :: "AccountDefaultState list"
  ad_FallbackAccount :: string
  ad_RevokedExclusiveKeys :: nat

subsection \<open>Reading\<close>

text \<open>\<open>ORDER BY position, id\<close>: the order the account rows are kept in.\<close>

definition orderAccounts :: "account_rows \<Rightarrow> account_rows" where
  "orderAccounts rows = sort_key (\<lambda>(p, a). (p, an_ID a)) rows"

definition readStoredAccount :: "string \<Rightarrow> controldb \<Rightarrow> StoredAccount option" where
  "readStoredAccount ident db = List.find (\<lambda>(p, a). an_ID a = ident) (cb_accounts db)"

definition readAccountKeyRows :: "string \<Rightarrow> controldb \<Rightarrow> StoredKeyRecord list" where
  "readAccountKeyRows ident db = filter (\<lambda>(s, k). kr_Account k = ident) (cb_keys db)"

definition readStoredKeyRecord :: "int \<Rightarrow> controldb \<Rightarrow> StoredKeyRecord option" where
  "readStoredKeyRecord s db = map_option (Pair s) (map_of (cb_keys db) s)"

definition ReadAccountLifecycle :: "string \<Rightarrow> controldb \<Rightarrow> control_error + StoredAccount \<times> StoredKeyRecord list" where
  "ReadAccountLifecycle accountID db =
     (case NormalizeAccountID accountID of
        None \<Rightarrow> Inl ErrInvalidCatalogInput
      | Some ident \<Rightarrow>
          (case readStoredAccount ident db of
             None \<Rightarrow> Inl ErrAccountLifecycleNotFound
           | Some account \<Rightarrow> Inr (account, readAccountKeyRows ident db)))"

definition sameAccount :: "Account \<Rightarrow> Account \<Rightarrow> bool" where
  "sameAccount l r \<longleftrightarrow>
     an_ID l = an_ID r \<and> an_Email l = an_Email r \<and> an_Port l = an_Port r \<and> an_ProxyMode l = an_ProxyMode r \<and>
     an_CreatedAt l = an_CreatedAt r \<and> an_GroupEnabled l = an_GroupEnabled r \<and> an_DefaultGroup l = an_DefaultGroup r"

definition sameStoredAccount :: "StoredAccount \<Rightarrow> StoredAccount \<Rightarrow> bool" where
  "sameStoredAccount l r \<longleftrightarrow> fst l = fst r \<and> sameAccount (snd l) (snd r)"

definition sameStoredKeyRecord :: "StoredKeyRecord \<Rightarrow> StoredKeyRecord \<Rightarrow> bool" where
  "sameStoredKeyRecord l r \<longleftrightarrow>
     fst l = fst r \<and> kr_Label (snd l) = kr_Label (snd r) \<and> kr_Account (snd l) = kr_Account (snd r) \<and>
     kr_AccountEmail (snd l) = kr_AccountEmail (snd r) \<and> equal_fold (kr_User (snd l)) (kr_User (snd r)) \<and>
     kr_Status (snd l) = kr_Status (snd r) \<and> kr_Key (snd l) = kr_Key (snd r) \<and>
     kr_CreatedAt (snd l) = kr_CreatedAt (snd r) \<and> kr_UpdatedAt (snd l) = kr_UpdatedAt (snd r)"

definition sameStoredKeyRecords :: "StoredKeyRecord list \<Rightarrow> StoredKeyRecord list \<Rightarrow> bool" where
  "sameStoredKeyRecords l r \<longleftrightarrow> list_all2 sameStoredKeyRecord l r"

definition defaultStates :: "account_rows \<Rightarrow> AccountDefaultState list" where
  "defaultStates rows = map (\<lambda>(p, a). \<lparr>ads_AccountID = an_ID a, ads_Default = an_DefaultGroup a\<rparr>) rows"

subsection \<open>Creation\<close>

text \<open>One row of the query grouped by user: the distinct active secrets of the user, in order.\<close>

definition activeUsers :: "key_rows \<Rightarrow> string list" where
  "activeUsers rows = sort (remdups (map (sql_norm \<circ> kr_User \<circ> snd) (filter (isActive \<circ> snd) rows)))"

definition userSecrets :: "string \<Rightarrow> key_rows \<Rightarrow> string list" where
  "userSecrets u rows = sort (remdups (map (kr_Key \<circ> snd) (activeKeyRows u rows)))"

fun accountKeyRecords :: "int64 \<Rightarrow> Account \<Rightarrow> key_rows \<Rightarrow> string list \<Rightarrow> control_error + KeyRecord list" where
  "accountKeyRecords now a rows [] = Inr []"
| "accountKeyRecords now a rows (u # us) =
     (if u = [] \<or> length (userSecrets u rows) \<noteq> 1 \<or> hd (userSecrets u rows) = [] then Inl ErrAccountLifecycleConflict
      else (case accountKeyRecords now a rows us of
              Inl e \<Rightarrow> Inl e
            | Inr ks \<Rightarrow> Inr (userKeyRow now u (hd (userSecrets u rows)) a # ks)))"

definition nextPosition :: "account_rows \<Rightarrow> int" where
  "nextPosition rows = (if rows = [] then 0 else Max (set (map fst rows)) + 1)"

definition accountCreationTx :: "int64 \<Rightarrow> Account \<Rightarrow> controldb \<Rightarrow> control_error + AccountCreation \<times> controldb" where
  "accountCreationTx now candidate db =
     (if list_ex (\<lambda>(p, b). an_ID b = an_ID candidate) (cb_accounts db) then Inl ErrAccountAlreadyExists
      else if list_ex (\<lambda>(p, b). to_lower (an_Email b) = an_Email candidate) (cb_accounts db) then Inl ErrAccountEmailAlreadyExists
      else if list_ex (\<lambda>(p, b). an_Port b = an_Port candidate) (cb_accounts db) then Inl ErrAccountPortAlreadyExists
      else (let account = candidate\<lparr>an_DefaultGroup := (cb_accounts db = [])\<rparr>
            in if accountClash account (cb_accounts db) then Inl SqlError
               else (case accountKeyRecords now account (cb_keys db) (activeUsers (cb_keys db)) of
                       Inl e \<Rightarrow> Inl e
                     | Inr records \<Rightarrow>
                         (let rows = numbered (nextSequence (cb_keys db)) records
                          in case insertKeys rows (cb_keys db) of
                               Inl e \<Rightarrow> Inl e
                             | Inr table \<Rightarrow>
                                 Inr (\<lparr>acr_Account = account, acr_CreatedRows = rows\<rparr>,
                                      db\<lparr>cb_accounts := orderAccounts (cb_accounts db @ [(nextPosition (cb_accounts db), account)]),
                                         cb_keys := table\<rparr>)))))"

definition ApplyAccountCreation ::
  "parse_address \<Rightarrow> tx \<Rightarrow> int64 \<Rightarrow> Lease list \<Rightarrow> Account \<Rightarrow> controldb \<Rightarrow> (control_error + AccountCreation) \<times> controldb" where
  "ApplyAccountCreation parse tx now fence candidate db =
     (case (NormalizeAccountID (an_ID candidate), NormalizeAccountEmail parse (an_Email candidate),
            NormalizeProxyMode (an_ProxyMode candidate)) of
        (Some ident, Some email, Some mode) \<Rightarrow>
          if an_Port candidate < 1 \<or> an_Port candidate > 65535 then (Inl ErrInvalidCatalogInput, db)
          else controlTx tx now fence
                 (accountCreationTx now
                    (candidate\<lparr>an_ID := ident, an_Email := email, an_ProxyMode := mode,
                       an_CreatedAt := (if an_CreatedAt candidate \<le> 0 then now else an_CreatedAt candidate),
                       an_GroupEnabled := True\<rparr>)) db
      | _ \<Rightarrow> (Inl ErrInvalidCatalogInput, db))"

definition restoreAccountCreationTx :: "AccountCreation \<Rightarrow> controldb \<Rightarrow> control_error + unit \<times> controldb" where
  "restoreAccountCreationTx c db =
     (let ident = an_ID (acr_Account c)
      in case readStoredAccount ident db of
           None \<Rightarrow> Inl ErrAccountLifecycleConflict
         | Some current \<Rightarrow>
             if \<not> sameAccount (snd current) (acr_Account c) then Inl ErrAccountLifecycleConflict
             else if list_ex (\<lambda>(u, a). a = ident) (cb_routes db) then Inl ErrAccountLifecycleConflict
             else if list_ex (\<lambda>expected. case readStoredKeyRecord (fst expected) db of
                                None \<Rightarrow> True
                              | Some row \<Rightarrow> \<not> sameStoredKeyRecord row expected) (acr_CreatedRows c)
             then Inl ErrAccountLifecycleConflict
             else Inr ((), db\<lparr>cb_keys := deleteKeys (\<lambda>s k. s \<in> set (map fst (acr_CreatedRows c))) (cb_keys db),
                              cb_accounts := filter (\<lambda>(p, a). an_ID a \<noteq> ident) (cb_accounts db)\<rparr>))"

definition RestoreAccountCreation ::
  "tx \<Rightarrow> int64 \<Rightarrow> Lease list \<Rightarrow> AccountCreation \<Rightarrow> controldb \<Rightarrow> (control_error + unit) \<times> controldb" where
  "RestoreAccountCreation tx now fence c db =
     (if an_ID (acr_Account c) = [] then (Inl ErrInvalidCatalogInput, db)
      else controlTx tx now fence (restoreAccountCreationTx c) db)"

subsection \<open>The fallback of an account\<close>

definition enabledOthers :: "string \<Rightarrow> account_rows \<Rightarrow> string list" where
  "enabledOthers ident rows = map (an_ID \<circ> snd) (filter (\<lambda>(p, a). an_ID a \<noteq> ident \<and> an_GroupEnabled a) rows)"

definition defaultFallback :: "string \<Rightarrow> account_rows \<Rightarrow> string" where
  "defaultFallback ident rows =
     (let preferred = (case List.find (\<lambda>(p, a). an_ID a \<noteq> ident \<and> an_GroupEnabled a \<and> an_DefaultGroup a) rows of
                         None \<Rightarrow> [] | Some (p, a) \<Rightarrow> an_ID a)
      in if preferred = [] \<and> enabledOthers ident rows \<noteq> [] then hd (enabledOthers ident rows) else preferred)"

definition setDefault :: "string \<Rightarrow> account_rows \<Rightarrow> account_rows" where
  "setDefault ident rows = map (\<lambda>(p, a). (p, a\<lparr>an_DefaultGroup := (an_ID a = ident)\<rparr>)) rows"

text \<open>\<open>UPDATE user_routes SET account_id = new WHERE account_id = old\<close>, and the users it moves.\<close>

definition rerouteAll :: "string \<Rightarrow> string \<Rightarrow> (string, string) gomap \<Rightarrow> (string, string) gomap" where
  "rerouteAll old new routes = map (\<lambda>(u, a). (u, if a = old then new else a)) routes"

definition routedTo :: "string \<Rightarrow> (string, string) gomap \<Rightarrow> string list" where
  "routedTo ident routes = sort (map fst (filter (\<lambda>(u, a). a = ident) routes))"

definition routeChange :: "string \<Rightarrow> string \<Rightarrow> string \<Rightarrow> AccountRouteChange" where
  "routeChange before after u = \<lparr>arc_UserEmail = u, arc_Before = before, arc_After = after\<rparr>"

subsection \<open>Update\<close>

definition desired :: "bool option \<Rightarrow> bool \<Rightarrow> bool" where
  "desired request current = (case request of None \<Rightarrow> current | Some b \<Rightarrow> b)"

text \<open>The account row of a request, before the default account is settled.\<close>

definition updatedAccount :: "string \<Rightarrow> string \<Rightarrow> string \<Rightarrow> bool \<Rightarrow> bool \<Rightarrow> Account \<Rightarrow> Account" where
  "updatedAccount newID email mode enabled isDefault a =
     a\<lparr>an_ID := newID, an_Email := email, an_ProxyMode := mode, an_GroupEnabled := enabled, an_DefaultGroup := isDefault\<rparr>"

text \<open>An \<open>UPDATE\<close> of the row of one account; the unique columns are checked against the others.\<close>

definition updateAccountRow :: "string \<Rightarrow> (StoredAccount \<Rightarrow> StoredAccount) \<Rightarrow> account_rows \<Rightarrow> control_error + account_rows" where
  "updateAccountRow ident f rows =
     (if list_ex (\<lambda>row. an_ID (snd row) = ident \<and> accountClash (snd (f row)) (filter (\<lambda>(p, b). an_ID b \<noteq> ident) rows)) rows
      then Inl SqlError
      else Inr (orderAccounts (map (\<lambda>row. if an_ID (snd row) = ident then f row else row) rows)))"

definition renameKey :: "string \<Rightarrow> string \<Rightarrow> KeyRecord \<Rightarrow> KeyRecord" where
  "renameKey newID email k =
     k\<lparr>kr_Account := newID, kr_AccountEmail := email, kr_Label := sql_norm (kr_User k) @ '':'' @ newID\<rparr>"

text \<open>The record of a user's route change moves on to the fallback, or a new one is added.\<close>

fun redirectChange :: "string \<Rightarrow> string \<Rightarrow> string \<Rightarrow> AccountRouteChange list \<Rightarrow> AccountRouteChange list" where
  "redirectChange ident fallback u [] = [routeChange ident fallback u]"
| "redirectChange ident fallback u (c # cs) =
     (if arc_UserEmail c = u then c\<lparr>arc_After := fallback\<rparr> # cs else c # redirectChange ident fallback u cs)"

definition updateRoutes ::
  "string \<Rightarrow> string \<Rightarrow> string \<Rightarrow> bool \<Rightarrow> (string, string) gomap \<Rightarrow> AccountRouteChange list \<times> (string, string) gomap" where
  "updateRoutes ident newID fallback enabled routes =
     (let (changes, renamed) =
            (if newID \<noteq> ident then (map (routeChange ident newID) (routedTo ident routes), rerouteAll ident newID routes)
             else ([], routes))
      in if enabled then (changes, renamed)
         else (fold (redirectChange ident fallback) (routedTo newID renamed) changes, rerouteAll newID fallback renamed))"

definition settleFallback :: "string \<Rightarrow> string \<Rightarrow> bool \<Rightarrow> bool \<Rightarrow> Account \<Rightarrow> account_rows \<Rightarrow> string" where
  "settleFallback ident fallback enabled isDefault before rows =
     (if fallback = [] \<and> (\<not> enabled \<or> (an_DefaultGroup before \<and> \<not> isDefault)) then defaultFallback ident rows
      else fallback)"

definition settleDefault :: "string \<Rightarrow> string \<Rightarrow> bool \<Rightarrow> Account \<Rightarrow> account_rows \<Rightarrow> control_error + account_rows" where
  "settleDefault newID fallback isDefault before rows =
     (if isDefault then Inr (setDefault newID rows)
      else if an_DefaultGroup before
      then (if fallback = [] then Inl ErrAccountDeleteNeedsFallback else Inr (setDefault fallback rows))
      else Inr rows)"

definition accountUpdateTx ::
  "string \<Rightarrow> string \<Rightarrow> string \<Rightarrow> string \<Rightarrow> bool option \<Rightarrow> bool option \<Rightarrow> string \<Rightarrow> controldb \<Rightarrow>
   control_error + AccountUpdate \<times> controldb" where
  "accountUpdateTx ident newID email mode groupEnabled defaultGroup fallbackID db =
     (case readStoredAccount ident db of
        None \<Rightarrow> Inl ErrAccountLifecycleNotFound
      | Some before \<Rightarrow>
          if newID \<noteq> ident \<and> list_ex (\<lambda>(p, b). an_ID b = newID) (cb_accounts db) then Inl ErrAccountAlreadyExists
          else if list_ex (\<lambda>(p, b). to_lower (an_Email b) = email \<and> an_ID b \<noteq> ident) (cb_accounts db)
          then Inl ErrAccountEmailAlreadyExists
          else
      (let enabled = desired groupEnabled (an_GroupEnabled (snd before));
           isDefault = desired defaultGroup (an_DefaultGroup (snd before));
           others = enabledOthers ident (cb_accounts db);
           fallback = settleFallback ident fallbackID enabled isDefault (snd before) (cb_accounts db);
           (changes, routes) = updateRoutes ident newID fallback enabled (cb_routes db);
           keys = updateKeys (\<lambda>s k. kr_Account k = ident) (renameKey newID email) (cb_keys db)
       in if \<not> enabled \<and> others = [] then Inl ErrAccountDeleteNeedsFallback
          else if fallbackID \<noteq> [] \<and> (fallbackID = ident \<or> fallbackID \<notin> set others) then Inl ErrAccountDeleteNeedsFallback
          else if \<not> enabled \<and> isDefault then Inl ErrInvalidCatalogInput
          else (case updateAccountRow ident (\<lambda>(p, a). (p, updatedAccount newID email mode enabled isDefault a)) (cb_accounts db) of
                  Inl e \<Rightarrow> Inl e
                | Inr rows \<Rightarrow>
                    (case settleDefault newID fallback isDefault (snd before) rows of
                       Inl e \<Rightarrow> Inl e
                     | Inr accounts \<Rightarrow>
                         (let db' = db\<lparr>cb_accounts := accounts, cb_keys := keys, cb_routes := routes\<rparr>
                          in case readStoredAccount newID db' of
                               None \<Rightarrow> Inl ErrAccountLifecycleConflict
                             | Some after \<Rightarrow>
                                 Inr (\<lparr>au_Before = before, au_After = after, au_RowsBefore = readAccountKeyRows ident db,
                                       au_RowsAfter = readAccountKeyRows newID db', au_Routes = changes,
                                       au_DefaultsBefore = defaultStates (cb_accounts db),
                                       au_DefaultsAfter = defaultStates accounts\<rparr>, db'))))))"

definition ApplyAccountUpdate ::
  "parse_address \<Rightarrow> tx \<Rightarrow> int64 \<Rightarrow> Lease list \<Rightarrow> AccountUpdateRequest \<Rightarrow> controldb \<Rightarrow>
   (control_error + AccountUpdate) \<times> controldb" where
  "ApplyAccountUpdate parse tx now fence request db =
     (case NormalizeAccountID (aur_AccountID request) of
        None \<Rightarrow> (Inl ErrInvalidCatalogInput, db)
      | Some ident \<Rightarrow>
          (let requested = trim_space (aur_NewAccountID request); fallback = trim_space (aur_FallbackAccount request)
           in case (NormalizeAccountID (if requested = [] then ident else requested),
                    NormalizeAccountEmail parse (aur_Email request), NormalizeProxyMode (aur_ProxyMode request),
                    if fallback = [] then Some [] else NormalizeAccountID fallback) of
                (Some newID, Some email, Some mode, Some fallbackID) \<Rightarrow>
                  controlTx tx now fence
                    (accountUpdateTx ident newID email mode (aur_GroupEnabled request) (aur_DefaultGroup request) fallbackID) db
              | _ \<Rightarrow> (Inl ErrInvalidCatalogInput, db)))"

text \<open>The expectations of a rollback about routes and defaults, in order.\<close>

fun checkRouteChanges :: "AccountRouteChange list \<Rightarrow> (string, string) gomap \<Rightarrow> control_error option" where
  "checkRouteChanges [] routes = None"
| "checkRouteChanges (c # cs) routes =
     (case map_of routes (arc_UserEmail c) of
        None \<Rightarrow> Some SqlError
      | Some a \<Rightarrow> if a \<noteq> arc_After c then Some ErrAccountLifecycleConflict else checkRouteChanges cs routes)"

fun checkDefaults :: "AccountDefaultState list \<Rightarrow> controldb \<Rightarrow> control_error option" where
  "checkDefaults [] db = None"
| "checkDefaults (d # ds) db =
     (case readStoredAccount (ads_AccountID d) db of
        None \<Rightarrow> Some SqlError
      | Some (p, a) \<Rightarrow>
          if an_DefaultGroup a \<noteq> ads_Default d then Some ErrAccountLifecycleConflict else checkDefaults ds db)"

definition restoreRoute :: "AccountRouteChange \<Rightarrow> (string, string) gomap \<Rightarrow> (string, string) gomap" where
  "restoreRoute c routes =
     map (\<lambda>(u, a). (u, if u = arc_UserEmail c \<and> a = arc_After c then arc_Before c else a)) routes"

definition restoreDefault :: "AccountDefaultState \<Rightarrow> account_rows \<Rightarrow> account_rows" where
  "restoreDefault d rows =
     map (\<lambda>(p, a). (p, if an_ID a = ads_AccountID d then a\<lparr>an_DefaultGroup := ads_Default d\<rparr> else a)) rows"

definition restoreAccountUpdateTx :: "AccountUpdate \<Rightarrow> controldb \<Rightarrow> control_error + unit \<times> controldb" where
  "restoreAccountUpdateTx up db =
     (let old = an_ID (snd (au_Before up)); new = an_ID (snd (au_After up))
      in if (case readStoredAccount new db of None \<Rightarrow> True | Some current \<Rightarrow> \<not> sameStoredAccount current (au_After up))
         then Inl ErrAccountLifecycleConflict
         else if old \<noteq> new \<and> readStoredAccount old db \<noteq> None then Inl ErrAccountLifecycleConflict
         else if \<not> sameStoredKeyRecords (readAccountKeyRows new db) (au_RowsAfter up) then Inl ErrAccountLifecycleConflict
         else (case checkRouteChanges (au_Routes up) (cb_routes db) of
                 Some e \<Rightarrow> Inl e
               | None \<Rightarrow>
         (case checkDefaults (au_DefaultsAfter up) db of
            Some e \<Rightarrow> Inl e
          | None \<Rightarrow>
         (case updateAccountRow new (\<lambda>row. au_Before up) (cb_accounts db) of
            Inl e \<Rightarrow> Inl e
          | Inr accounts \<Rightarrow>
         (case insertKeys (au_RowsBefore up) (deleteKeys (\<lambda>s k. kr_Account k = new) (cb_keys db)) of
            Inl e \<Rightarrow> Inl e
          | Inr table \<Rightarrow>
              Inr ((), db\<lparr>cb_accounts := fold restoreDefault (au_DefaultsBefore up) accounts, cb_keys := table,
                          cb_routes := fold restoreRoute (au_Routes up) (cb_routes db)\<rparr>))))))"

definition RestoreAccountUpdate ::
  "tx \<Rightarrow> int64 \<Rightarrow> Lease list \<Rightarrow> AccountUpdate \<Rightarrow> controldb \<Rightarrow> (control_error + unit) \<times> controldb" where
  "RestoreAccountUpdate tx now fence up db =
     (if an_ID (snd (au_Before up)) = [] \<or> an_ID (snd (au_After up)) = [] then (Inl ErrInvalidCatalogInput, db)
      else controlTx tx now fence (restoreAccountUpdateTx up) db)"

subsection \<open>Deletion\<close>

definition exclusiveKeys :: "string \<Rightarrow> key_rows \<Rightarrow> string list" where
  "exclusiveKeys ident rows =
     remdups (map (kr_Key \<circ> snd)
       (filter (\<lambda>(s, k). kr_Account k = ident \<and> isActive k \<and>
                  \<not> list_ex (\<lambda>(s', k'). sql_norm (kr_User k') = sql_norm (kr_User k) \<and> kr_Key k' = kr_Key k \<and>
                                       isActive k' \<and> kr_Account k' \<noteq> ident) rows) rows))"

definition accountDeletionTx :: "string \<Rightarrow> string \<Rightarrow> bool \<Rightarrow> controldb \<Rightarrow> control_error + AccountDeletion \<times> controldb" where
  "accountDeletionTx ident fallbackID revokeExclusive db =
     (case readStoredAccount ident db of
        None \<Rightarrow> Inl ErrAccountLifecycleNotFound
      | Some account \<Rightarrow>
          (let accounts = cb_accounts db; others = enabledOthers ident accounts;
               fallback = (if fallbackID \<noteq> [] then fallbackID else defaultFallback ident accounts);
               exclusive = exclusiveKeys ident (cb_keys db)
           in if length accounts \<le> 1 then Inl ErrAccountDeleteLast
              else if fallbackID \<noteq> [] \<and> (fallbackID = ident \<or> fallbackID \<notin> set others) then Inl ErrAccountDeleteNeedsFallback
              else if fallback = [] then Inl ErrAccountDeleteNeedsFallback
              else if exclusive \<noteq> [] \<and> \<not> revokeExclusive then Inl ErrAccountDeleteRequiresRevoke
              else Inr (\<lparr>ad_Account = account, ad_Rows = readAccountKeyRows ident db,
                         ad_Routes = map (routeChange ident fallback) (routedTo ident (cb_routes db)),
                         ad_Defaults = defaultStates accounts, ad_FallbackAccount = fallback,
                         ad_RevokedExclusiveKeys = length exclusive\<rparr>,
                        db\<lparr>cb_routes := rerouteAll ident fallback (cb_routes db),
                           cb_accounts := filter (\<lambda>(p, a). an_ID a \<noteq> ident)
                             (if an_DefaultGroup (snd account) then setDefault fallback accounts else accounts),
                           cb_keys := deleteKeys (\<lambda>s k. kr_Account k = ident) (cb_keys db)\<rparr>)))"

definition ApplyAccountDeletion ::
  "tx \<Rightarrow> int64 \<Rightarrow> Lease list \<Rightarrow> string \<Rightarrow> string \<Rightarrow> bool \<Rightarrow> controldb \<Rightarrow> (control_error + AccountDeletion) \<times> controldb" where
  "ApplyAccountDeletion tx now fence rawAccountID rawFallback revokeExclusive db =
     (let fallback = trim_space rawFallback
      in case (NormalizeAccountID rawAccountID, if fallback = [] then Some [] else NormalizeAccountID fallback) of
           (Some ident, Some fallbackID) \<Rightarrow> controlTx tx now fence (accountDeletionTx ident fallbackID revokeExclusive) db
         | _ \<Rightarrow> (Inl ErrInvalidCatalogInput, db))"

definition restoreAccountDeletionTx :: "AccountDeletion \<Rightarrow> controldb \<Rightarrow> control_error + unit \<times> controldb" where
  "restoreAccountDeletionTx d db =
     (if readStoredAccount (an_ID (snd (ad_Account d))) db \<noteq> None then Inl ErrAccountLifecycleConflict
      else (case checkRouteChanges (ad_Routes d) (cb_routes db) of
              Some e \<Rightarrow> Inl e
            | None \<Rightarrow>
                if list_ex (\<lambda>row. readStoredKeyRecord (fst row) db \<noteq> None) (ad_Rows d) then Inl ErrAccountLifecycleConflict
                else if accountClash (snd (ad_Account d)) (cb_accounts db) then Inl SqlError
                else (case insertKeys (sort_key fst (ad_Rows d)) (cb_keys db) of
                        Inl e \<Rightarrow> Inl e
                      | Inr table \<Rightarrow>
                          Inr ((), db\<lparr>cb_accounts := fold restoreDefault (ad_Defaults d)
                                        (orderAccounts (cb_accounts db @ [ad_Account d])),
                                      cb_keys := table,
                                      cb_routes := fold restoreRoute (ad_Routes d) (cb_routes db)\<rparr>))))"

definition RestoreAccountDeletion ::
  "tx \<Rightarrow> int64 \<Rightarrow> Lease list \<Rightarrow> AccountDeletion \<Rightarrow> controldb \<Rightarrow> (control_error + unit) \<times> controldb" where
  "RestoreAccountDeletion tx now fence d db =
     (if an_ID (snd (ad_Account d)) = [] \<or> ad_FallbackAccount d = [] then (Inl ErrInvalidCatalogInput, db)
      else controlTx tx now fence (restoreAccountDeletionTx d) db)"

section \<open>Lemmas\<close>

subsection \<open>Account tables\<close>

text \<open>Rows in the order of their positions, which are unique as the columns of the schema are.\<close>

definition account_table :: "account_rows \<Rightarrow> bool" where
  "account_table rows \<longleftrightarrow>
     sorted (map fst rows) \<and> distinct (map fst rows) \<and> distinct (map (an_ID \<circ> snd) rows) \<and>
     distinct (map (an_Email \<circ> snd) rows) \<and> distinct (map (an_Port \<circ> snd) rows)"

lemma accountIDs_eq: "accountIDs db = map (an_ID \<circ> snd) (cb_accounts db)"
  by (simp add: accountIDs_def comp_def case_prod_beta)

lemma sorted_fst_lex:
  "sorted (map fst xs) \<Longrightarrow> distinct (map fst xs) \<Longrightarrow> sorted (map (\<lambda>(p, a). (p, f a)) xs)"
  for xs :: "('a::linorder \<times> 'b) list" and f :: "'b \<Rightarrow> 'c::linorder"
proof (induction xs)
  case (Cons x xs)
  have "(fst x, f (snd x)) \<le> (fst y, f (snd y))" if "y \<in> set xs" for y
    using Cons.prems that by (force simp: less_eq_prod_def order.strict_iff_order)
  then show ?case using Cons by (auto simp: case_prod_beta)
qed simp

lemma orderAccounts_id: "sorted (map fst rows) \<Longrightarrow> distinct (map fst rows) \<Longrightarrow> orderAccounts rows = rows"
  unfolding orderAccounts_def by (rule sort_key_id_if_sorted) (rule sorted_fst_lex)

lemma set_orderAccounts [simp]: "set (orderAccounts rows) = set rows"
  by (simp add: orderAccounts_def)

lemma orderAccounts_unique:
  assumes "set xs = set ys" "distinct (map fst xs)" "sorted (map fst ys)" "distinct (map fst ys)"
  shows "orderAccounts xs = ys"
proof (rule map_sorted_distinct_set_unique [of fst])
  have "map fst (map (\<lambda>(p, a). (p, an_ID a)) rows) = map fst rows" for rows :: account_rows
    by (simp add: case_prod_beta comp_def)
  moreover have "sorted (map (\<lambda>(p, a). (p, an_ID a)) (orderAccounts xs))"
    unfolding orderAccounts_def by (rule sorted_sort_key)
  then have "sorted (map fst (map (\<lambda>(p, a). (p, an_ID a)) (orderAccounts xs)))"
    by (rule sorted_map_mono) (auto simp: mono_on_def less_eq_prod_def)
  ultimately show "sorted (map fst (orderAccounts xs))" by (simp only:)
  have "distinct xs" "inj_on fst (set xs)" using assms(2) by (auto simp: distinct_map)
  then show "distinct (map fst (orderAccounts xs))" by (simp add: distinct_map orderAccounts_def)
  show "inj_on fst (set (orderAccounts xs) \<union> set ys)" using assms(1,4) by (simp add: distinct_map)
qed (use assms in auto)

lemma account_table_order: "account_table rows \<Longrightarrow> orderAccounts rows = rows"
  by (simp add: account_table_def orderAccounts_id)

lemma nextPosition_greater: "p \<in> set (map fst rows) \<Longrightarrow> p < nextPosition rows"
  using Max_ge [of "set (map fst rows)" p] unfolding nextPosition_def by fastforce

lemma orderAccounts_append:
  assumes "account_table rows"
  shows "orderAccounts (rows @ [(nextPosition rows, a)]) = rows @ [(nextPosition rows, a)]"
proof (rule orderAccounts_id)
  have "\<forall>p \<in> set (map fst rows). p < nextPosition rows" using nextPosition_greater by blast
  then show "sorted (map fst (rows @ [(nextPosition rows, a)]))" "distinct (map fst (rows @ [(nextPosition rows, a)]))"
    using assms by (force simp: account_table_def sorted_append)+
qed

lemma find_account:
  assumes "distinct (map (an_ID \<circ> snd) rows)"
  shows "List.find (\<lambda>(p, a). an_ID a = ident) rows = Some (p, a) \<longleftrightarrow> (p, a) \<in> set rows \<and> an_ID a = ident"
  using assms
proof (induction rows)
  case (Cons r rows)
  obtain q b where r: "r = (q, b)" by (cases r)
  show ?case
  proof (cases "an_ID b = ident")
    case True
    then have "\<forall>r \<in> set rows. an_ID (snd r) \<noteq> ident" using Cons.prems r by force
    then show ?thesis using True r by auto
  next
    case False
    then show ?thesis using Cons r by auto
  qed
qed simp

lemma find_append: "List.find P (xs @ ys) = (case List.find P xs of None \<Rightarrow> List.find P ys | Some x \<Rightarrow> Some x)"
  by (induction xs) auto

lemma readStoredAccount_Some:
  "distinct (map (an_ID \<circ> snd) (cb_accounts db)) \<Longrightarrow>
   readStoredAccount ident db = Some (p, a) \<longleftrightarrow> (p, a) \<in> set (cb_accounts db) \<and> an_ID a = ident"
  unfolding readStoredAccount_def by (rule find_account)

lemma readStoredAccount_None:
  "readStoredAccount ident db = None \<longleftrightarrow> (\<forall>(p, a) \<in> set (cb_accounts db). an_ID a \<noteq> ident)"
  by (auto simp: readStoredAccount_def find_None_iff)

lemma distinct_row:
  assumes "distinct (map (f \<circ> snd) rows)" "f a = f b" "(p, a) \<in> set rows" "(q, b) \<in> set rows"
  shows "(p, a) = (q, b)"
proof -
  have "inj_on (f \<circ> snd) (set rows)" using assms(1) by (simp add: distinct_map)
  from inj_onD [OF this _ assms(3,4)] assms(2) show ?thesis by simp
qed

lemma account_row_unique:
  assumes "account_table rows" "(p, a) \<in> set rows" "(q, b) \<in> set rows"
    and "an_ID a = an_ID b \<or> an_Email a = an_Email b \<or> an_Port a = an_Port b"
  shows "(p, a) = (q, b)"
  using assms(4) distinct_row [OF _ _ assms(2,3), of an_ID] distinct_row [OF _ _ assms(2,3), of an_Email]
    distinct_row [OF _ _ assms(2,3), of an_Port] assms(1) unfolding account_table_def by blast

subsection \<open>Flags of the default account\<close>

text \<open>Two rows that differ in the flag of the default account only.\<close>

definition same_but_default :: "StoredAccount \<Rightarrow> StoredAccount \<Rightarrow> bool" where
  "same_but_default x y \<longleftrightarrow> fst x = fst y \<and> (snd x)\<lparr>an_DefaultGroup := an_DefaultGroup (snd y)\<rparr> = snd y"

lemma same_but_default_refl [simp]: "same_but_default x x"
  by (simp add: same_but_default_def)

lemma same_but_default_ID: "same_but_default x y \<Longrightarrow> an_ID (snd x) = an_ID (snd y)"
  unfolding same_but_default_def by (cases "snd x"; cases "snd y") simp

lemma fold_restoreDefault:
  assumes "distinct (map ads_AccountID ds)"
  shows "fold restoreDefault ds xs =
     map (\<lambda>(p, a). (p, case map_of (map (\<lambda>d. (ads_AccountID d, ads_Default d)) ds) (an_ID a) of
                          None \<Rightarrow> a | Some b \<Rightarrow> a\<lparr>an_DefaultGroup := b\<rparr>)) xs"
  using assms
proof (induction ds arbitrary: xs)
  case (Cons d ds)
  have none: "map_of (map (\<lambda>d. (ads_AccountID d, ads_Default d)) ds) (ads_AccountID d) = None"
    using Cons.prems by (auto simp: map_of_eq_None_iff)
  have "fold restoreDefault (d # ds) xs = fold restoreDefault ds (restoreDefault d xs)" by simp
  also have "\<dots> = map (\<lambda>(p, a). (p, case map_of (map (\<lambda>d. (ads_AccountID d, ads_Default d)) ds) (an_ID a) of
      None \<Rightarrow> a | Some b \<Rightarrow> a\<lparr>an_DefaultGroup := b\<rparr>)) (restoreDefault d xs)" using Cons by simp
  also have "\<dots> = map (\<lambda>(p, a). (p, case map_of (map (\<lambda>d. (ads_AccountID d, ads_Default d)) (d # ds)) (an_ID a) of
      None \<Rightarrow> a | Some b \<Rightarrow> a\<lparr>an_DefaultGroup := b\<rparr>)) xs"
    unfolding restoreDefault_def using none by (auto split: option.split)
  finally show ?case .
qed simp

lemma ads_defaultStates:
  "map ads_AccountID (defaultStates rows) = map (an_ID \<circ> snd) rows"
  "map (\<lambda>d. (ads_AccountID d, ads_Default d)) (defaultStates rows) = map (\<lambda>(p, a). (an_ID a, an_DefaultGroup a)) rows"
  by (simp_all add: defaultStates_def comp_def case_prod_beta)

text \<open>Restoring the flags of a table gives the table back from rows that differ in the flags only.\<close>

lemma restore_defaults:
  assumes "distinct (map (an_ID \<circ> snd) rows)" "list_all2 same_but_default xs rows"
  shows "fold restoreDefault (defaultStates rows) xs = rows"
proof -
  let ?M = "map (\<lambda>(p, a). (an_ID a, an_DefaultGroup a)) rows"
  let ?g = "\<lambda>(p, a). (p, case map_of ?M (an_ID a) of None \<Rightarrow> a | Some b \<Rightarrow> a\<lparr>an_DefaultGroup := b\<rparr>)"
  have d: "distinct (map fst ?M)" using assms(1) by (simp add: comp_def case_prod_beta)
  have "?g x = r" if s: "same_but_default x r" and r: "r \<in> set rows" for x r
  proof -
    obtain p a where x: "x = (p, a)" by (cases x)
    have "(an_ID (snd r), an_DefaultGroup (snd r)) \<in> set ?M"
      using r by (auto intro!: image_eqI [of _ _ r] simp: case_prod_beta)
    then have "map_of ?M (an_ID (snd r)) = Some (an_DefaultGroup (snd r))" using d by (simp only: map_of_eq_Some_iff)
    then have "map_of ?M (an_ID a) = Some (an_DefaultGroup (snd r))" using same_but_default_ID [OF s] x by simp
    then show ?thesis using s unfolding x same_but_default_def by (cases r) simp
  qed
  then have "list_all2 (\<lambda>x r. ?g x = r) xs rows"
    using assms(2) by (auto intro: list_all2_mono simp: list_all2_conv_all_nth)
  then have "list_all2 (=) (map ?g xs) rows" unfolding list_all2_map1 .
  then have "map ?g xs = rows" by (simp add: list.rel_eq)
  moreover have "distinct (map ads_AccountID (defaultStates rows))" using assms(1) by (simp only: ads_defaultStates)
  ultimately show ?thesis using fold_restoreDefault [of "defaultStates rows" xs] unfolding ads_defaultStates by simp
qed

lemma setDefault_same: "list_all2 same_but_default (setDefault ident rows) rows"
  by (auto simp: setDefault_def list_all2_map1 same_but_default_def intro!: list.rel_refl_strong)

subsection \<open>Routes of an account\<close>

lemma set_routedTo: "set (routedTo ident routes) = {u. (u, ident) \<in> set routes}"
  by (force simp: routedTo_def)

lemma distinct_routedTo: "wf_map routes \<Longrightarrow> distinct (routedTo ident routes)"
  by (simp add: routedTo_def wf_map_def distinct_map_filter)

lemma map_fst_rerouteAll [simp]: "map fst (rerouteAll x y routes) = map fst routes"
  by (simp add: rerouteAll_def comp_def case_prod_beta)

lemma wf_map_rerouteAll [simp]: "wf_map (rerouteAll x y routes) = wf_map routes"
  by (simp add: wf_map_def)

lemma map_of_rerouteAll: "map_of (rerouteAll x y routes) u = map_option (\<lambda>a. if a = x then y else a) (map_of routes u)"
  unfolding rerouteAll_def map_of_map by simp

lemma rerouteAll_same [simp]: "rerouteAll x x routes = routes"
proof -
  have "(case r of (u, a) \<Rightarrow> (u, if a = x then x else a)) = r" for r :: "string \<times> string" by (cases r) simp
  then show ?thesis by (simp add: rerouteAll_def)
qed

lemma rerouteAll_twice:
  assumes "\<forall>(u, a) \<in> set routes. a \<noteq> y"
  shows "rerouteAll y z (rerouteAll x y routes) = rerouteAll x z routes"
  using assms by (auto simp: rerouteAll_def)

lemma routedTo_rerouteAll:
  assumes "\<forall>(u, a) \<in> set routes. a \<noteq> y"
  shows "routedTo y (rerouteAll x y routes) = routedTo x routes"
proof -
  have "map fst (filter (\<lambda>(u, a). a = y) (rerouteAll x y routes)) = map fst (filter (\<lambda>(u, a). a = x) routes)"
    using assms by (induction routes) (auto simp: rerouteAll_def split: if_splits)
  then show ?thesis by (simp add: routedTo_def)
qed

lemma redirectChange_new:
  "u \<notin> arc_UserEmail ` set cs \<Longrightarrow> redirectChange ident fallback u cs = cs @ [routeChange ident fallback u]"
  by (induction cs) auto

lemma redirectChange_old:
  assumes "u \<notin> set ws"
  shows "redirectChange ident fallback u (map (routeChange ident fallback) ws @ routeChange ident x u # cs) =
     map (routeChange ident fallback) ws @ routeChange ident fallback u # cs"
  using assms by (induction ws) (auto simp: routeChange_def)

lemma redirect_all_new:
  assumes "distinct us" "set us \<inter> arc_UserEmail ` set cs = {}"
  shows "fold (redirectChange ident fallback) us cs = cs @ map (routeChange ident fallback) us"
  using assms
proof (induction us arbitrary: cs)
  case (Cons u us)
  then have "redirectChange ident fallback u cs = cs @ [routeChange ident fallback u]" by (intro redirectChange_new) auto
  moreover have "fold (redirectChange ident fallback) us (cs @ [routeChange ident fallback u]) =
      (cs @ [routeChange ident fallback u]) @ map (routeChange ident fallback) us"
    using Cons.prems by (intro Cons.IH) (auto simp: routeChange_def)
  ultimately show ?case by simp
qed simp

lemma redirect_all_old:
  assumes "distinct (ws @ us)"
  shows "fold (redirectChange ident fallback) us
      (map (routeChange ident fallback) ws @ map (routeChange ident x) us) = map (routeChange ident fallback) (ws @ us)"
  using assms
proof (induction us arbitrary: ws)
  case (Cons u us)
  then have "redirectChange ident fallback u (map (routeChange ident fallback) ws @ map (routeChange ident x) (u # us)) =
      map (routeChange ident fallback) (ws @ [u]) @ map (routeChange ident x) us"
    using redirectChange_old [of u ws] by simp
  then show ?case using Cons.IH [of "ws @ [u]"] Cons.prems by simp
qed simp

lemma updateRoutes_eq:
  fixes ident newID fallback routes and enabled :: bool
  assumes "wf_map routes" "newID \<noteq> ident \<Longrightarrow> \<forall>(u, a) \<in> set routes. a \<noteq> newID"
  defines "goal \<equiv> (if enabled then newID else fallback)"
  shows "snd (updateRoutes ident newID fallback enabled routes) = rerouteAll ident goal routes"
    and "fst (updateRoutes ident newID fallback enabled routes) =
       (if newID = ident \<and> enabled then [] else map (routeChange ident goal) (routedTo ident routes))"
proof -
  have d: "distinct (routedTo ident routes)" using assms(1) by (rule distinct_routedTo)
  have new: "fold (redirectChange ident fallback) (routedTo ident routes) [] = map (routeChange ident fallback) (routedTo ident routes)"
    using redirect_all_new [OF d, of "[]"] by simp
  have old: "fold (redirectChange ident fallback) (routedTo ident routes) (map (routeChange ident newID) (routedTo ident routes)) =
      map (routeChange ident fallback) (routedTo ident routes)"
    using redirect_all_old [of "[]" "routedTo ident routes"] d by simp
  show "snd (updateRoutes ident newID fallback enabled routes) = rerouteAll ident goal routes"
    "fst (updateRoutes ident newID fallback enabled routes) =
       (if newID = ident \<and> enabled then [] else map (routeChange ident goal) (routedTo ident routes))"
    using new old rerouteAll_twice [OF assms(2)] routedTo_rerouteAll [OF assms(2)]
    by (auto simp: updateRoutes_def goal_def)
qed

lemma restore_routes:
  assumes "wf_map routes"
  shows "fold restoreRoute (map (routeChange ident goal) (routedTo ident routes)) (rerouteAll ident goal routes) = routes"
proof -
  have "fold restoreRoute (map (routeChange ident goal) us) t =
     map (\<lambda>(u, a). (u, if u \<in> set us \<and> a = goal then ident else a)) t" if "distinct us" for us and t :: "(string, string) gomap"
    using that
  proof (induction us arbitrary: t)
    case Nil
    show ?case by (simp add: case_prod_beta)
  next
    case (Cons u us)
    have "fold restoreRoute (map (routeChange ident goal) (u # us)) t =
        map (\<lambda>(v, a). (v, if v \<in> set us \<and> a = goal then ident else a)) (restoreRoute (routeChange ident goal u) t)"
      using Cons by simp
    also have "\<dots> = map (\<lambda>(v, a). (v, if v \<in> set (u # us) \<and> a = goal then ident else a)) t"
      unfolding restoreRoute_def routeChange_def using Cons.prems by auto
    finally show ?case .
  qed
  from this [OF distinct_routedTo [OF assms]]
  have "fold restoreRoute (map (routeChange ident goal) (routedTo ident routes)) (rerouteAll ident goal routes) =
     map ((\<lambda>(u, a). (u, if u \<in> set (routedTo ident routes) \<and> a = goal then ident else a)) \<circ>
          (\<lambda>(u, a). (u, if a = ident then goal else a))) routes"
    by (simp add: rerouteAll_def)
  also have "\<dots> = routes"
  proof (rule map_idI)
    fix r assume r: "r \<in> set routes"
    obtain u a where ua: "r = (u, a)" by (cases r)
    have "(u, b) \<in> set routes \<longleftrightarrow> b = a" for b
      using r assms unfolding ua wf_map_def by (metis eq_key_imp_eq_value)
    then show "((\<lambda>(u, a). (u, if u \<in> set (routedTo ident routes) \<and> a = goal then ident else a)) \<circ>
          (\<lambda>(u, a). (u, if a = ident then goal else a))) r = r"
      unfolding ua set_routedTo by auto
  qed
  finally show ?thesis .
qed

lemma checkRouteChanges_None:
  "checkRouteChanges cs routes = None \<longleftrightarrow> (\<forall>c \<in> set cs. map_of routes (arc_UserEmail c) = Some (arc_After c))"
  by (induction cs) (auto split: option.splits)

lemma check_rerouted:
  assumes "wf_map routes"
  shows "checkRouteChanges (map (routeChange ident goal) (routedTo ident routes)) (rerouteAll ident goal routes) = None"
  unfolding checkRouteChanges_None
  using assms by (auto simp: routeChange_def set_routedTo map_of_rerouteAll wf_map_map_of)

subsection \<open>Rollbacks\<close>

text \<open>Tables as the code writes them: key rows and routes refer to accounts that exist.\<close>

definition account_tables :: "controldb \<Rightarrow> bool" where
  "account_tables db \<longleftrightarrow>
     account_table (cb_accounts db) \<and> key_table (cb_keys db) \<and> wf_map (cb_routes db) \<and>
     (\<forall>(s, k) \<in> set (cb_keys db). kr_Account k \<in> set (accountIDs db)) \<and>
     (\<forall>(u, a) \<in> set (cb_routes db). a \<in> set (accountIDs db))"

lemma sameAccount_refl [simp]: "sameAccount a a"
  by (simp add: sameAccount_def)

lemma sameStoredKeyRecord_refl [simp]: "sameStoredKeyRecord r r"
  by (simp add: sameStoredKeyRecord_def)

lemma accountCreationTx_Inr:
  fixes now candidate db
  assumes "accountCreationTx now candidate db = Inr (c, db')" "account_table (cb_accounts db)"
  defines "account \<equiv> candidate\<lparr>an_DefaultGroup := (cb_accounts db = [])\<rparr>"
  obtains records where
    "accountKeyRecords now account (cb_keys db) (activeUsers (cb_keys db)) = Inr records"
    "c = \<lparr>acr_Account = account, acr_CreatedRows = numbered (nextSequence (cb_keys db)) records\<rparr>"
    "db' = db\<lparr>cb_accounts := cb_accounts db @ [(nextPosition (cb_accounts db), account)],
              cb_keys := cb_keys db @ numbered (nextSequence (cb_keys db)) records\<rparr>"
    "\<not> accountClash account (cb_accounts db)"
proof -
  have new: "\<not> accountClash account (cb_accounts db)"
    using assms(1) by (auto simp: accountCreationTx_def Let_def account_def split: if_splits)
  with assms(1) obtain records where r: "accountKeyRecords now account (cb_keys db) (activeUsers (cb_keys db)) = Inr records"
    unfolding accountCreationTx_def Let_def account_def by (auto split: if_splits sum.splits)
  from that [OF r] show thesis
    using assms(1) new r insertKeys_next [of "cb_keys db" records] orderAccounts_append [OF assms(2), of account]
    unfolding accountCreationTx_def Let_def account_def [symmetric] by (auto split: if_splits)
qed

lemma ApplyAccountCreation_Inr:
  assumes "ApplyAccountCreation parse tx now fence candidate db = (Inr c, db')"
  obtains ident email mode created where "NormalizeAccountID (an_ID candidate) = Some ident"
    "NormalizeAccountEmail parse (an_Email candidate) = Some email" "NormalizeProxyMode (an_ProxyMode candidate) = Some mode"
    "1 \<le> an_Port candidate" "an_Port candidate \<le> 65535"
    "accountCreationTx now (candidate\<lparr>an_ID := ident, an_Email := email, an_ProxyMode := mode,
       an_CreatedAt := created, an_GroupEnabled := True\<rparr>) db = Inr (c, db')"
proof -
  obtain ident email mode where n: "NormalizeAccountID (an_ID candidate) = Some ident"
    "NormalizeAccountEmail parse (an_Email candidate) = Some email" "NormalizeProxyMode (an_ProxyMode candidate) = Some mode"
    using assms by (auto simp: ApplyAccountCreation_def split: option.splits)
  define created where "created = (if an_CreatedAt candidate \<le> 0 then now else an_CreatedAt candidate)"
  from assms have "1 \<le> an_Port candidate" "an_Port candidate \<le> 65535"
    "accountCreationTx now (candidate\<lparr>an_ID := ident, an_Email := email, an_ProxyMode := mode,
       an_CreatedAt := created, an_GroupEnabled := True\<rparr>) db = Inr (c, db')"
    unfolding ApplyAccountCreation_def n created_def [symmetric] by (auto split: if_splits dest: controlTx_Inr(1))
  then show thesis by (rule that [OF n])
qed

lemma accountClash_iff:
  "accountClash a rows \<longleftrightarrow> (\<exists>(p, b) \<in> set rows. an_ID b = an_ID a \<or> an_Email b = an_Email a \<or> an_Port b = an_Port a)"
  by (auto simp: accountClash_def list_ex_iff)

lemma RestoreAccountCreation_reverts:
  assumes t: "account_tables db"
    and a: "ApplyAccountCreation parse tx now fence candidate db = (Inr c, db')"
    and f: "validateWriteFence now' fence' (cb_leases db) = None"
  shows "RestoreAccountCreation TxOK now' fence' c (db'\<lparr>cb_internal := internal\<rparr>) = (Inr (), db\<lparr>cb_internal := internal\<rparr>)"
proof -
  obtain ident cand where ident: "NormalizeAccountID (an_ID candidate) = Some ident" "an_ID cand = ident"
    and tx: "accountCreationTx now cand db = Inr (c, db')"
  proof (rule ApplyAccountCreation_Inr [OF a])
    fix ident email mode created
    assume n: "NormalizeAccountID (an_ID candidate) = Some ident"
      and x: "accountCreationTx now (candidate\<lparr>an_ID := ident, an_Email := email, an_ProxyMode := mode,
         an_CreatedAt := created, an_GroupEnabled := True\<rparr>) db = Inr (c, db')"
    show thesis by (rule that [OF n _ x]) simp
  qed
  have at: "account_table (cb_accounts db)" using t by (simp add: account_tables_def)
  define account where "account = cand\<lparr>an_DefaultGroup := (cb_accounts db = [])\<rparr>"
  obtain records where c: "c = \<lparr>acr_Account = account, acr_CreatedRows = numbered (nextSequence (cb_keys db)) records\<rparr>"
    and db': "db' = db\<lparr>cb_accounts := cb_accounts db @ [(nextPosition (cb_accounts db), account)],
              cb_keys := cb_keys db @ numbered (nextSequence (cb_keys db)) records\<rparr>"
    and new: "\<not> accountClash account (cb_accounts db)"
    using accountCreationTx_Inr [OF tx at] unfolding account_def by metis
  have id0: "an_ID account = ident" "ident \<noteq> []"
    using ident NormalizeAccountID_ne by (auto simp: account_def)
  have fresh: "\<forall>(p, b) \<in> set (cb_accounts db). an_ID b \<noteq> ident" using new id0 by (auto simp: accountClash_iff)
  let ?d = "db'\<lparr>cb_internal := internal\<rparr>"
  have "readStoredAccount ident ?d = Some (nextPosition (cb_accounts db), account)"
    using fresh id0(1) by (auto simp: readStoredAccount_def db' find_append find_None_iff split: option.split dest!: find_SomeD)
  moreover have "\<not> list_ex (\<lambda>(u, a). a = ident) (cb_routes ?d)"
    using t fresh by (fastforce simp: account_tables_def list_ex_iff db' accountIDs_eq)
  moreover have "\<not> list_ex (\<lambda>expected. case readStoredKeyRecord (fst expected) ?d of None \<Rightarrow> True
      | Some row \<Rightarrow> \<not> sameStoredKeyRecord row expected) (acr_CreatedRows c)"
  proof -
    have "readStoredKeyRecord (fst r) ?d = Some r" if "r \<in> set (acr_CreatedRows c)" for r
      using that map_of_numbered [of "cb_keys db" "nextSequence (cb_keys db)" "fst r" "snd r" records] nextSequence_greater
      by (simp add: c db' readStoredKeyRecord_def)
    then show ?thesis by (simp add: list_ex_iff)
  qed
  moreover have "deleteKeys (\<lambda>s k. s \<in> set (map fst (acr_CreatedRows c))) (cb_keys ?d) = cb_keys db"
    using deleteKeys_fresh [of "cb_keys db" "nextSequence (cb_keys db)" records] nextSequence_greater by (simp add: c db')
  moreover have "filter (\<lambda>(p, a). an_ID a \<noteq> ident) (cb_accounts ?d) = cb_accounts db"
    using fresh id0(1) by (auto simp: db' filter_id_conv)
  ultimately have "restoreAccountCreationTx c ?d = Inr ((), db\<lparr>cb_internal := internal\<rparr>)"
    using id0(1) unfolding restoreAccountCreationTx_def Let_def by (simp add: c db')
  then show ?thesis using id0 f by (simp add: RestoreAccountCreation_def c controlTx_ok db')
qed

text \<open>An update, row by row.\<close>

definition updatedRow :: "string \<Rightarrow> (Account \<Rightarrow> Account) \<Rightarrow> StoredAccount \<Rightarrow> StoredAccount" where
  "updatedRow ident f row = (if an_ID (snd row) = ident then (fst row, f (snd row)) else row)"

lemma fst_updatedRow [simp]: "fst (updatedRow ident f row) = fst row"
  by (simp add: updatedRow_def)

lemma updateAccountRow_Inr:
  assumes "updateAccountRow ident (\<lambda>(p, a). (p, f a)) rows = Inr rows'" "account_table rows"
  shows "rows' = map (updatedRow ident f) rows"
proof -
  have m: "(\<lambda>row. if an_ID (snd row) = ident then (case row of (p, a) \<Rightarrow> (p, f a)) else row) = updatedRow ident f"
    by (rule ext) (auto simp: updatedRow_def)
  have "map fst (map (updatedRow ident f) rows) = map fst rows" by simp
  then have "orderAccounts (map (updatedRow ident f) rows) = map (updatedRow ident f) rows"
    using assms(2) unfolding account_table_def by (intro orderAccounts_id) (simp_all only:)
  then show ?thesis using assms(1) unfolding updateAccountRow_def m by (auto split: if_splits)
qed

lemma settleDefault_Inr:
  assumes "settleDefault newID fallback isDefault before rows = Inr accounts"
  obtains "isDefault" "accounts = setDefault newID rows"
  | "\<not> isDefault" "an_DefaultGroup before" "fallback \<noteq> []" "accounts = setDefault fallback rows"
  | "\<not> isDefault" "\<not> an_DefaultGroup before" "accounts = rows"
  using assms by (auto simp: settleDefault_def split: if_splits)

lemma settleDefault_same:
  assumes "settleDefault newID fallback isDefault before rows = Inr accounts"
  shows "list_all2 same_but_default accounts rows"
  using assms by (rule settleDefault_Inr) (auto simp: setDefault_same intro: list.rel_refl_strong)

lemma accountUpdateTx_Inr:
  fixes ident newID email mode ge dg fallbackID db
  assumes "accountUpdateTx ident newID email mode ge dg fallbackID db = Inr (up, db')" "account_table (cb_accounts db)"
  obtains before enabled isDefault fallback accounts where
    "readStoredAccount ident db = Some before"
    "enabled = desired ge (an_GroupEnabled (snd before))" "isDefault = desired dg (an_DefaultGroup (snd before))"
    "fallback = settleFallback ident fallbackID enabled isDefault (snd before) (cb_accounts db)"
    "newID = ident \<or> (\<forall>(p, b) \<in> set (cb_accounts db). an_ID b \<noteq> newID)"
    "\<forall>(p, b) \<in> set (cb_accounts db). an_ID b \<noteq> ident \<longrightarrow> to_lower (an_Email b) \<noteq> email"
    "enabled \<or> (enabledOthers ident (cb_accounts db) \<noteq> [] \<and> \<not> isDefault)"
    "fallbackID = [] \<or> fallbackID \<in> set (enabledOthers ident (cb_accounts db))"
    "settleDefault newID fallback isDefault (snd before)
       (map (updatedRow ident (updatedAccount newID email mode enabled isDefault)) (cb_accounts db)) = Inr accounts"
    "db' = db\<lparr>cb_accounts := accounts, cb_keys := updateKeys (\<lambda>s k. kr_Account k = ident) (renameKey newID email) (cb_keys db),
              cb_routes := snd (updateRoutes ident newID fallback enabled (cb_routes db))\<rparr>"
    "au_Before up = before" "readStoredAccount newID db' = Some (au_After up)"
    "au_RowsBefore up = readAccountKeyRows ident db" "au_RowsAfter up = readAccountKeyRows newID db'"
    "au_Routes up = fst (updateRoutes ident newID fallback enabled (cb_routes db))"
    "au_DefaultsBefore up = defaultStates (cb_accounts db)" "au_DefaultsAfter up = defaultStates accounts"
proof -
  from assms(1) obtain before where b: "readStoredAccount ident db = Some before"
    unfolding accountUpdateTx_def by (auto split: option.splits)
  define enabled isDefault where "enabled = desired ge (an_GroupEnabled (snd before))"
    and "isDefault = desired dg (an_DefaultGroup (snd before))"
  define fallback where "fallback = settleFallback ident fallbackID enabled isDefault (snd before) (cb_accounts db)"
  obtain changes routes where r: "updateRoutes ident newID fallback enabled (cb_routes db) = (changes, routes)" by fastforce
  note T = assms(1) [unfolded accountUpdateTx_def b option.case Let_def, folded enabled_def isDefault_def,
      folded fallback_def, unfolded r case_prod_conv]
  have g: "\<not> (newID \<noteq> ident \<and> list_ex (\<lambda>(p, b). an_ID b = newID) (cb_accounts db))"
    "\<not> list_ex (\<lambda>(p, b). to_lower (an_Email b) = email \<and> an_ID b \<noteq> ident) (cb_accounts db)"
    "\<not> (\<not> enabled \<and> enabledOthers ident (cb_accounts db) = [])"
    "\<not> (fallbackID \<noteq> [] \<and> (fallbackID = ident \<or> fallbackID \<notin> set (enabledOthers ident (cb_accounts db))))"
    "\<not> (\<not> enabled \<and> isDefault)"
    using T by (auto split: if_splits)
  note T2 = T [unfolded if_not_P [OF g(1)] if_not_P [OF g(2)] if_not_P [OF g(3)] if_not_P [OF g(4)] if_not_P [OF g(5)]]
  from T2 obtain rows where rows: "updateAccountRow ident (\<lambda>(p, a). (p, updatedAccount newID email mode enabled isDefault a))
      (cb_accounts db) = Inr rows" by (auto split: sum.splits)
  note R = updateAccountRow_Inr [OF rows assms(2)]
  from T2 obtain accounts where s: "settleDefault newID fallback isDefault (snd before) rows = Inr accounts"
    unfolding rows sum.case by (auto split: sum.splits)
  define d where "d = db\<lparr>cb_accounts := accounts,
      cb_keys := updateKeys (\<lambda>s k. kr_Account k = ident) (renameKey newID email) (cb_keys db), cb_routes := routes\<rparr>"
  note T3 = T2 [unfolded rows sum.case s, folded d_def]
  from T3 obtain after where a: "readStoredAccount newID d = Some after" by (auto split: option.splits)
  from T3 have up: "up = \<lparr>au_Before = before, au_After = after, au_RowsBefore = readAccountKeyRows ident db,
      au_RowsAfter = readAccountKeyRows newID d, au_Routes = changes, au_DefaultsBefore = defaultStates (cb_accounts db),
      au_DefaultsAfter = defaultStates accounts\<rparr>" and d: "db' = d"
    unfolding a option.case by auto
  show thesis
  proof (rule that [OF b enabled_def isDefault_def fallback_def])
    show "newID = ident \<or> (\<forall>(p, b) \<in> set (cb_accounts db). an_ID b \<noteq> newID)" using g(1) by (auto simp: list_ex_iff)
    show "\<forall>(p, b) \<in> set (cb_accounts db). an_ID b \<noteq> ident \<longrightarrow> to_lower (an_Email b) \<noteq> email"
      using g(2) by (auto simp: list_ex_iff)
    show "enabled \<or> (enabledOthers ident (cb_accounts db) \<noteq> [] \<and> \<not> isDefault)" using g(3,5) by blast
    show "fallbackID = [] \<or> fallbackID \<in> set (enabledOthers ident (cb_accounts db))" using g(4) by blast
    show "settleDefault newID fallback isDefault (snd before)
       (map (updatedRow ident (updatedAccount newID email mode enabled isDefault)) (cb_accounts db)) = Inr accounts"
      using s unfolding R .
  qed (simp_all add: up d a r, simp add: d_def)
qed

lemma same_but_default_fields:
  assumes "same_but_default x y"
  shows "an_ID (snd x) = an_ID (snd y)" "an_Email (snd x) = an_Email (snd y)" "an_Port (snd x) = an_Port (snd y)"
    "an_GroupEnabled (snd x) = an_GroupEnabled (snd y)" "fst x = fst y"
  using assms unfolding same_but_default_def by (cases "snd x"; cases "snd y"; simp)+

lemma same_but_default_maps:
  assumes "list_all2 same_but_default xs ys"
  shows "map (an_ID \<circ> snd) xs = map (an_ID \<circ> snd) ys" "map fst xs = map fst ys"
  using assms by (induction rule: list_all2_induct) (auto dest: same_but_default_fields)

lemma list_all2_member:
  assumes "list_all2 R xs ys" "x \<in> set xs"
  obtains y where "y \<in> set ys" "R x y"
proof -
  obtain i where "i < length xs" "x = xs ! i" using assms(2) by (auto simp: in_set_conv_nth)
  then show thesis using assms(1) by (intro that [of "ys ! i"]) (auto simp: list_all2_conv_all_nth)
qed

lemma updatedRow_cases:
  assumes "account_table rows" "before \<in> set rows" "an_ID (snd before) = ident" "r \<in> set rows"
  shows "(r = before \<and> updatedRow ident f r = (fst before, f (snd before))) \<or>
     (r \<noteq> before \<and> an_ID (snd r) \<noteq> ident \<and> an_Email (snd r) \<noteq> an_Email (snd before) \<and>
      an_Port (snd r) \<noteq> an_Port (snd before) \<and> updatedRow ident f r = r)"
proof (cases "r = before")
  case True
  then show ?thesis using assms(3) by (simp add: updatedRow_def)
next
  case False
  have "\<not> (an_ID (snd r) = an_ID (snd before) \<or> an_Email (snd r) = an_Email (snd before) \<or> an_Port (snd r) = an_Port (snd before))"
  proof
    assume "an_ID (snd r) = an_ID (snd before) \<or> an_Email (snd r) = an_Email (snd before) \<or> an_Port (snd r) = an_Port (snd before)"
    then have "(fst r, snd r) = (fst before, snd before)"
      using assms(2,4) by (intro account_row_unique [OF assms(1)]) simp_all
    then show False using False by simp
  qed
  then show ?thesis using False assms(3) by (simp add: updatedRow_def)
qed

text \<open>Writing the old row back leaves the old table, but for the flags of the default account.\<close>

lemma restored_row:
  assumes "account_table rows" "before \<in> set rows" "an_ID (snd before) = ident" "\<And>a. an_ID (f a) = newID"
    and "newID = ident \<or> (\<forall>(p, b) \<in> set rows. an_ID b \<noteq> newID)"
    and "list_all2 same_but_default accounts (map (updatedRow ident f) rows)"
  shows "list_all2 same_but_default (map (\<lambda>row. if an_ID (snd row) = newID then before else row) accounts) rows"
    and "updateAccountRow newID (\<lambda>row. before) accounts =
       Inr (map (\<lambda>row. if an_ID (snd row) = newID then before else row) accounts)"
proof -
  let ?G = "\<lambda>row. if an_ID (snd row) = newID then before else row"
  have rel: "list_all2 (\<lambda>x r. same_but_default x (updatedRow ident f r)) accounts rows"
    using assms(6) by (simp only: list_all2_map2)
  have step: "same_but_default (?G x) r \<and> (an_ID (snd x) \<noteq> newID \<longrightarrow>
      an_ID (snd x) \<noteq> ident \<and> an_Email (snd x) \<noteq> an_Email (snd before) \<and> an_Port (snd x) \<noteq> an_Port (snd before))"
    if r: "r \<in> set rows" and s: "same_but_default x (updatedRow ident f r)" for x r
    using updatedRow_cases [OF assms(1-3) r, of f]
  proof
    assume "r = before \<and> updatedRow ident f r = (fst before, f (snd before))"
    then have r: "r = before" "updatedRow ident f r = (fst before, f (snd before))" by blast+
    have "an_ID (snd x) = newID" using same_but_default_fields(1) [OF s] unfolding r(2) by (simp add: assms(4))
    then show ?thesis using r(1) by simp
  next
    assume o: "r \<noteq> before \<and> an_ID (snd r) \<noteq> ident \<and> an_Email (snd r) \<noteq> an_Email (snd before) \<and>
      an_Port (snd r) \<noteq> an_Port (snd before) \<and> updatedRow ident f r = r"
    then have "an_ID (snd r) \<noteq> newID" using assms(5) r by auto
    then show ?thesis using o s same_but_default_fields [OF s] by simp
  qed
  from rel have "list_all2 (\<lambda>x r. same_but_default (?G x) r) accounts rows"
    by (rule list.rel_mono_strong) (use step in blast)
  then show G: "list_all2 same_but_default (map ?G accounts) rows" by (simp only: list_all2_map1)
  have "\<not> accountClash (snd before) (filter (\<lambda>(p, b). an_ID b \<noteq> newID) accounts)"
  proof
    assume "accountClash (snd before) (filter (\<lambda>(p, b). an_ID b \<noteq> newID) accounts)"
    then obtain x where x: "x \<in> set accounts" "an_ID (snd x) \<noteq> newID" "an_ID (snd x) = an_ID (snd before) \<or>
        an_Email (snd x) = an_Email (snd before) \<or> an_Port (snd x) = an_Port (snd before)"
      by (auto simp: accountClash_iff)
    from rel x(1) obtain r where "r \<in> set rows" "same_but_default x (updatedRow ident f r)"
      by (rule list_all2_member)
    from step [OF this] x(2,3) assms(3) show False by simp
  qed
  then have "\<not> list_ex (\<lambda>row. an_ID (snd row) = newID \<and>
      accountClash (snd before) (filter (\<lambda>(p, b). an_ID b \<noteq> newID) accounts)) accounts" by (simp add: list_ex_iff)
  moreover have "map fst (map ?G accounts) = map fst rows" by (rule same_but_default_maps(2) [OF G])
  then have "orderAccounts (map ?G accounts) = map ?G accounts"
    using assms(1) unfolding account_table_def by (intro orderAccounts_id) (simp_all only:)
  ultimately show "updateAccountRow newID (\<lambda>row. before) accounts = Inr (map ?G accounts)"
    unfolding updateAccountRow_def by simp
qed

lemma restored_keys:
  assumes "key_table table" "newID = ident \<or> (\<forall>(s, k) \<in> set table. kr_Account k \<noteq> newID)"
  shows "insertKeys (filter (\<lambda>(s, k). kr_Account k = ident) table)
     (deleteKeys (\<lambda>s k. kr_Account k = newID) (updateKeys (\<lambda>s k. kr_Account k = ident) (renameKey newID email) table)) = Inr table"
proof -
  have "kr_Account (renameKey newID email k) = newID" for k by (simp add: renameKey_def)
  then have "deleteKeys (\<lambda>s k. kr_Account k = newID) (updateKeys (\<lambda>s k. kr_Account k = ident) (renameKey newID email) table) =
      filter (\<lambda>r. \<not> (case r of (s, k) \<Rightarrow> kr_Account k = ident)) table"
    using assms(2) by (induction table) (auto simp: deleteKeys_def updateKeys_def)
  then show ?thesis using insertKeys_restore [OF assms(1), of "\<lambda>(s, k). kr_Account k = ident"] by simp
qed

lemma checkDefaults_own:
  assumes "distinct (map (an_ID \<circ> snd) (cb_accounts db))"
  shows "checkDefaults (defaultStates (cb_accounts db)) db = None"
proof -
  have "checkDefaults (defaultStates rows) db = None" if "set rows \<subseteq> set (cb_accounts db)" for rows
    using that
  proof (induction rows)
    case (Cons r rows)
    obtain p a where r: "r = (p, a)" by (cases r)
    have "readStoredAccount (an_ID a) db = Some (p, a)"
      using Cons.prems r unfolding readStoredAccount_Some [OF assms] by simp
    then show ?case using Cons r by (simp add: defaultStates_def)
  qed (simp add: defaultStates_def)
  then show ?thesis by simp
qed

lemma ApplyAccountUpdate_Inr:
  assumes "ApplyAccountUpdate parse tx now fence request db = (Inr up, db')"
  obtains ident newID email mode fallbackID where
    "NormalizeAccountID (aur_AccountID request) = Some ident" "ident \<noteq> []" "accountIDPattern newID" "newID \<noteq> []"
    "to_lower email = email"
    "accountUpdateTx ident newID email mode (aur_GroupEnabled request) (aur_DefaultGroup request) fallbackID db = Inr (up, db')"
proof -
  define requested fallback where "requested = trim_space (aur_NewAccountID request)"
    and "fallback = trim_space (aur_FallbackAccount request)"
  obtain ident where i: "NormalizeAccountID (aur_AccountID request) = Some ident"
    using assms by (auto simp: ApplyAccountUpdate_def split: option.splits)
  note A = assms [unfolded ApplyAccountUpdate_def i option.case Let_def, folded requested_def fallback_def]
  obtain newID email mode fallbackID where n: "NormalizeAccountID (if requested = [] then ident else requested) = Some newID"
    "NormalizeAccountEmail parse (aur_Email request) = Some email" "NormalizeProxyMode (aur_ProxyMode request) = Some mode"
    "(if fallback = [] then Some [] else NormalizeAccountID fallback) = Some fallbackID"
    using A by (auto split: option.splits)
  have p: "accountIDPattern newID" using NormalizeAccountID_Some [OF n(1)] by blast
  have "to_lower email = email" using NormalizeAccountEmail_Some [OF n(2)] by (simp add: norm_user_def)
  moreover have "accountUpdateTx ident newID email mode (aur_GroupEnabled request) (aur_DefaultGroup request) fallbackID db =
      Inr (up, db')"
    using A unfolding n option.case prod.case by (rule controlTx_Inr(1))
  ultimately show thesis by (rule that [OF i NormalizeAccountID_ne [OF i] p NormalizeAccountID_ne [OF n(1)]])
qed

lemma RestoreAccountUpdate_reverts:
  assumes t: "account_tables db"
    and a: "ApplyAccountUpdate parse tx now fence request db = (Inr up, db')"
    and f: "validateWriteFence now' fence' (cb_leases db) = None"
  shows "RestoreAccountUpdate TxOK now' fence' up (db'\<lparr>cb_internal := internal\<rparr>) = (Inr (), db\<lparr>cb_internal := internal\<rparr>)"
proof -
  obtain ident newID email mode fallbackID where ne: "ident \<noteq> []" "newID \<noteq> []"
    and tx: "accountUpdateTx ident newID email mode (aur_GroupEnabled request) (aur_DefaultGroup request) fallbackID db = Inr (up, db')"
    by (rule ApplyAccountUpdate_Inr [OF a])
  have tab: "account_table (cb_accounts db)" and kt: "key_table (cb_keys db)" and wf: "wf_map (cb_routes db)"
    and ke: "\<forall>(s, k) \<in> set (cb_keys db). kr_Account k \<in> set (accountIDs db)"
    and re: "\<forall>(u, a) \<in> set (cb_routes db). a \<in> set (accountIDs db)"
    using t by (auto simp: account_tables_def)
  from tx tab obtain before enabled isDefault fallback accounts where b: "readStoredAccount ident db = Some before"
    and new: "newID = ident \<or> (\<forall>(p, b) \<in> set (cb_accounts db). an_ID b \<noteq> newID)"
    and sd: "settleDefault newID fallback isDefault (snd before)
       (map (updatedRow ident (updatedAccount newID email mode enabled isDefault)) (cb_accounts db)) = Inr accounts"
    and db': "db' = db\<lparr>cb_accounts := accounts, cb_keys := updateKeys (\<lambda>s k. kr_Account k = ident) (renameKey newID email) (cb_keys db),
              cb_routes := snd (updateRoutes ident newID fallback enabled (cb_routes db))\<rparr>"
    and up: "au_Before up = before" "readStoredAccount newID db' = Some (au_After up)"
      "au_RowsBefore up = readAccountKeyRows ident db" "au_RowsAfter up = readAccountKeyRows newID db'"
      "au_Routes up = fst (updateRoutes ident newID fallback enabled (cb_routes db))"
      "au_DefaultsBefore up = defaultStates (cb_accounts db)" "au_DefaultsAfter up = defaultStates accounts"
    by (rule accountUpdateTx_Inr)
  define f where "f = updatedAccount newID email mode enabled isDefault"
  define goal where "goal = (if enabled then newID else fallback)"
  let ?d = "db'\<lparr>cb_internal := internal\<rparr>"
  have bf: "before \<in> set (cb_accounts db)" "an_ID (snd before) = ident"
    using b by (auto simp: readStoredAccount_def dest: find_SomeD)
  have same: "list_all2 same_but_default accounts (map (updatedRow ident f) (cb_accounts db))"
    using settleDefault_same [OF sd] unfolding f_def .
  have fid: "\<And>a. an_ID (f a) = newID" by (simp add: f_def updatedAccount_def)
  note bk = restored_row [OF tab bf fid new same]
  have ids: "map (an_ID \<circ> snd) accounts = map (\<lambda>r. if an_ID (snd r) = ident then newID else an_ID (snd r)) (cb_accounts db)"
    using same_but_default_maps(1) [OF same] by (auto simp: updatedRow_def fid)
  have dist: "distinct (map (an_ID \<circ> snd) accounts)"
    unfolding ids using tab new by (auto simp: account_table_def distinct_map inj_on_def)
  have stored: "readStoredAccount i ?d = readStoredAccount i db'" for i by (simp add: readStoredAccount_def)
  have afterID: "an_ID (snd (au_After up)) = newID"
    using up(2) by (auto simp: readStoredAccount_def dest: find_SomeD)
  have gone: "\<not> (ident \<noteq> newID \<and> readStoredAccount ident ?d \<noteq> None)"
  proof -
    have "readStoredAccount ident ?d = None" if "ident \<noteq> newID"
    proof -
      have "ident \<notin> set (map (an_ID \<circ> snd) accounts)" unfolding ids using that by auto
      then show ?thesis unfolding readStoredAccount_None by (auto simp: db' case_prod_beta)
    qed
    then show ?thesis by auto
  qed
  have rt: "newID \<noteq> ident \<Longrightarrow> \<forall>(u, a) \<in> set (cb_routes db). a \<noteq> newID" using new re by (fastforce simp: accountIDs_eq)
  note U = updateRoutes_eq [OF wf rt, where enabled = enabled and fallback = fallback, folded goal_def]
  have routes: "checkRouteChanges (au_Routes up) (cb_routes ?d) = None" "fold restoreRoute (au_Routes up) (cb_routes ?d) = cb_routes db"
    using check_rerouted [OF wf] restore_routes [OF wf] U by (auto simp: up(5) db' goal_def)
  have defaults: "checkDefaults (au_DefaultsAfter up) ?d = None"
    using checkDefaults_own [of ?d] dist by (simp add: up(7) db')
  have rows: "updateAccountRow newID (\<lambda>row. au_Before up) (cb_accounts ?d) =
       Inr (map (\<lambda>row. if an_ID (snd row) = newID then before else row) accounts)"
    using bk(2) by (simp add: up(1) db')
  have acc: "fold restoreDefault (au_DefaultsBefore up) (map (\<lambda>row. if an_ID (snd row) = newID then before else row) accounts) = cb_accounts db"
    using restore_defaults [OF _ bk(1)] tab by (simp add: up(6) account_table_def)
  have ks: "insertKeys (au_RowsBefore up) (deleteKeys (\<lambda>s k. kr_Account k = newID) (cb_keys ?d)) = Inr (cb_keys db)"
    using restored_keys [OF kt, of newID ident email] new ke
    by (fastforce simp: up(3) db' readAccountKeyRows_def accountIDs_eq)
  have sames: "sameStoredKeyRecords (readAccountKeyRows newID ?d) (au_RowsAfter up)"
    by (auto simp: sameStoredKeyRecords_def up(4) readAccountKeyRows_def intro!: list.rel_refl_strong)
  have "restoreAccountUpdateTx up ?d = Inr ((), db\<lparr>cb_internal := internal\<rparr>)"
    unfolding restoreAccountUpdateTx_def Let_def afterID up(1) bf(2)
    using gone sames routes(1) defaults rows acc ks routes(2) up(1,2) stored
    by (simp add: sameStoredAccount_def) (simp add: db')
  then show ?thesis
    using ne afterID bf(2) f by (simp add: RestoreAccountUpdate_def up(1) controlTx_ok db')
qed

lemma defaultFallback_in: "defaultFallback ident rows \<noteq> [] \<Longrightarrow> defaultFallback ident rows \<in> set (enabledOthers ident rows)"
proof -
  assume ne: "defaultFallback ident rows \<noteq> []"
  show ?thesis
  proof (cases "List.find (\<lambda>(p, a). an_ID a \<noteq> ident \<and> an_GroupEnabled a \<and> an_DefaultGroup a) rows")
    case None
    then show ?thesis using ne by (auto simp: defaultFallback_def split: if_splits)
  next
    case (Some r)
    then have "r \<in> set (filter (\<lambda>(p, a). an_ID a \<noteq> ident \<and> an_GroupEnabled a) rows)"
      using find_SomeD [OF Some] by auto
    then have "an_ID (snd r) \<in> set (enabledOthers ident rows)" unfolding enabledOthers_def by auto
    then show ?thesis using Some by (cases r) (auto simp: defaultFallback_def Let_def)
  qed
qed

lemma accountDeletionTx_Inr:
  assumes "accountDeletionTx ident fallbackID revokeExclusive db = Inr (d, db')"
  obtains account fallback where "readStoredAccount ident db = Some account"
    "fallback \<noteq> []" "fallback \<in> set (enabledOthers ident (cb_accounts db))"
    "exclusiveKeys ident (cb_keys db) = [] \<or> revokeExclusive"
    "ad_Account d = account" "ad_Rows d = readAccountKeyRows ident db"
    "ad_Routes d = map (routeChange ident fallback) (routedTo ident (cb_routes db))"
    "ad_Defaults d = defaultStates (cb_accounts db)" "ad_FallbackAccount d = fallback"
    "db' = db\<lparr>cb_routes := rerouteAll ident fallback (cb_routes db),
       cb_accounts := filter (\<lambda>(p, a). an_ID a \<noteq> ident)
         (if an_DefaultGroup (snd account) then setDefault fallback (cb_accounts db) else cb_accounts db),
       cb_keys := deleteKeys (\<lambda>s k. kr_Account k = ident) (cb_keys db)\<rparr>"
proof -
  from assms obtain account where a: "readStoredAccount ident db = Some account"
    unfolding accountDeletionTx_def by (auto split: option.splits)
  define fallback where "fallback = (if fallbackID \<noteq> [] then fallbackID else defaultFallback ident (cb_accounts db))"
  note T = assms [unfolded accountDeletionTx_def a option.case Let_def, folded fallback_def]
  have g: "fallback \<noteq> []" "\<not> (fallbackID \<noteq> [] \<and> (fallbackID = ident \<or> fallbackID \<notin> set (enabledOthers ident (cb_accounts db))))"
    using T by (auto split: if_splits)
  have "fallback \<in> set (enabledOthers ident (cb_accounts db))"
    using g defaultFallback_in [of ident "cb_accounts db"] unfolding fallback_def by (cases "fallbackID = []") auto
  then show thesis using T g by (intro that [OF a g(1)]) (auto split: if_splits)
qed

lemma ApplyAccountDeletion_Inr:
  assumes "ApplyAccountDeletion tx now fence rawID rawFallback revokeExclusive db = (Inr d, db')"
  obtains ident fallbackID where "NormalizeAccountID rawID = Some ident" "ident \<noteq> []"
    "accountDeletionTx ident fallbackID revokeExclusive db = Inr (d, db')"
  using assms that NormalizeAccountID_ne [of rawID]
  by (auto simp: ApplyAccountDeletion_def Let_def split: option.splits if_splits dest!: controlTx_Inr(1))

text \<open>Putting the deleted row back among the others.\<close>

lemma restored_account:
  assumes "account_table rows" "account \<in> set rows" "an_ID (snd account) = ident" "list_all2 same_but_default rows' rows"
  defines "others \<equiv> filter (\<lambda>(p, a). an_ID a \<noteq> ident) rows'"
  shows "list_all2 same_but_default (orderAccounts (others @ [account])) rows" "\<not> accountClash (snd account) others"
proof -
  let ?G = "\<lambda>row. if an_ID (snd row) = ident then account else row"
  have one: "r = account" if "r \<in> set rows" "an_ID (snd r) = ident \<or> an_Email (snd r) = an_Email (snd account) \<or> an_Port (snd r) = an_Port (snd account)" for r
    using updatedRow_cases [OF assms(1-3) that(1)] that(2) by blast
  have "list_all2 (\<lambda>x r. same_but_default (?G x) r) rows' rows"
    using assms(4) by (rule list.rel_mono_strong) (auto dest!: one dest: same_but_default_ID simp: one)
  then have G: "list_all2 same_but_default (map ?G rows') rows" by (simp only: list_all2_map1)
  have fsts: "map fst (map ?G rows') = map fst rows" "map fst rows' = map fst rows"
    by (rule same_but_default_maps(2) [OF G], rule same_but_default_maps(2) [OF assms(4)])
  have dist: "sorted (map fst rows)" "distinct (map fst rows)" using assms(1) by (auto simp: account_table_def)
  obtain x where x: "x \<in> set rows'" "an_ID (snd x) = ident" "fst x = fst account"
  proof -
    have "list_all2 (\<lambda>r x. same_but_default x r) rows rows'" using assms(4) by (simp add: list_all2_conv_all_nth)
    from list_all2_member [OF this assms(2)] obtain x where "x \<in> set rows'" "same_but_default x account" .
    then show thesis using that assms(3) same_but_default_fields by metis
  qed
  have "set (others @ [account]) = set (map ?G rows')" using x(1,2) by (auto simp: others_def)
  moreover have "distinct (map fst (others @ [account]))"
  proof -
    have d': "distinct (map fst rows')" using dist(2) by (simp only: fsts)
    have "fst account \<notin> set (map fst others)"
    proof
      assume "fst account \<in> set (map fst others)"
      then obtain y where y: "y \<in> set rows'" "an_ID (snd y) \<noteq> ident" "fst y = fst account" by (auto simp: others_def)
      then have "y = x" using x d' inj_onD [of fst "set rows'" y x] by (simp add: distinct_map)
      then show False using y(2) x(2) by simp
    qed
    then show ?thesis using d' by (simp add: others_def distinct_map_filter)
  qed
  ultimately have "orderAccounts (others @ [account]) = map ?G rows'"
    using dist by (intro orderAccounts_unique) (simp_all only: fsts)
  then show "list_all2 same_but_default (orderAccounts (others @ [account])) rows" using G by simp
  show "\<not> accountClash (snd account) others"
  proof
    assume "accountClash (snd account) others"
    then obtain y where y: "y \<in> set rows'" "an_ID (snd y) \<noteq> ident" "an_ID (snd y) = an_ID (snd account) \<or>
        an_Email (snd y) = an_Email (snd account) \<or> an_Port (snd y) = an_Port (snd account)"
      by (auto simp: accountClash_iff others_def)
    obtain r where r: "r \<in> set rows" "same_but_default y r" by (rule list_all2_member [OF assms(4) y(1)])
    from one [OF r(1)] same_but_default_fields [OF r(2)] y(2,3) assms(3) show False by metis
  qed
qed

lemma RestoreAccountDeletion_reverts:
  assumes t: "account_tables db"
    and a: "ApplyAccountDeletion tx now fence rawID rawFallback revokeExclusive db = (Inr d, db')"
    and f: "validateWriteFence now' fence' (cb_leases db) = None"
  shows "RestoreAccountDeletion TxOK now' fence' d (db'\<lparr>cb_internal := internal\<rparr>) = (Inr (), db\<lparr>cb_internal := internal\<rparr>)"
proof -
  obtain ident fallbackID where ne: "ident \<noteq> []" and tx: "accountDeletionTx ident fallbackID revokeExclusive db = Inr (d, db')"
    by (rule ApplyAccountDeletion_Inr [OF a])
  have tab: "account_table (cb_accounts db)" and kt: "key_table (cb_keys db)" and wf: "wf_map (cb_routes db)"
    using t by (auto simp: account_tables_def)
  from tx obtain account fallback where acc: "readStoredAccount ident db = Some account" and fb: "fallback \<noteq> []"
    and d: "ad_Account d = account" "ad_Rows d = readAccountKeyRows ident db"
      "ad_Routes d = map (routeChange ident fallback) (routedTo ident (cb_routes db))"
      "ad_Defaults d = defaultStates (cb_accounts db)" "ad_FallbackAccount d = fallback"
    and db': "db' = db\<lparr>cb_routes := rerouteAll ident fallback (cb_routes db),
       cb_accounts := filter (\<lambda>(p, a). an_ID a \<noteq> ident)
         (if an_DefaultGroup (snd account) then setDefault fallback (cb_accounts db) else cb_accounts db),
       cb_keys := deleteKeys (\<lambda>s k. kr_Account k = ident) (cb_keys db)\<rparr>"
    by (rule accountDeletionTx_Inr)
  define rows' where "rows' = (if an_DefaultGroup (snd account) then setDefault fallback (cb_accounts db) else cb_accounts db)"
  let ?d = "db'\<lparr>cb_internal := internal\<rparr>"
  have account: "account \<in> set (cb_accounts db)" "an_ID (snd account) = ident"
    using acc by (auto simp: readStoredAccount_def dest: find_SomeD)
  have "list_all2 same_but_default rows' (cb_accounts db)"
    unfolding rows'_def by (simp add: setDefault_same list.rel_refl_strong)
  note R = restored_account [OF tab account this]
  have accs: "cb_accounts ?d = filter (\<lambda>(p, a). an_ID a \<noteq> ident) rows'" by (simp add: db' rows'_def)
  have none: "readStoredAccount ident ?d = None" unfolding readStoredAccount_None accs by auto
  have routes: "checkRouteChanges (ad_Routes d) (cb_routes ?d) = None" "fold restoreRoute (ad_Routes d) (cb_routes ?d) = cb_routes db"
    using check_rerouted [OF wf] restore_routes [OF wf] by (simp_all add: d(3) db')
  have norow: "\<not> list_ex (\<lambda>row. readStoredKeyRecord (fst row) ?d \<noteq> None) (ad_Rows d)"
  proof -
    have "fst r \<notin> set (map fst (cb_keys ?d))" if "r \<in> set (ad_Rows d)" for r
    proof
      assume "fst r \<in> set (map fst (cb_keys ?d))"
      then obtain k where k: "(fst r, k) \<in> set (cb_keys db)" "kr_Account k \<noteq> ident" by (auto simp: db' deleteKeys_def)
      have m: "(fst r, snd r) \<in> set (cb_keys db)" "kr_Account (snd r) = ident"
        using that by (auto simp: d(2) readAccountKeyRows_def)
      have "k = snd r" using k(1) m(1) kt unfolding key_table_def by (blast dest: eq_key_imp_eq_value)
      then show False using k(2) m(2) by simp
    qed
    then show ?thesis by (auto simp: list_ex_iff readStoredKeyRecord_def map_of_eq_None_iff)
  qed
  have ks: "insertKeys (sort_key fst (ad_Rows d)) (cb_keys ?d) = Inr (cb_keys db)"
    using insertKeys_restore [OF kt, of "\<lambda>(s, k). kr_Account k = ident"]
    unfolding d(2) readAccountKeyRows_def sort_key_filter_table [OF kt] by (simp add: db' deleteKeys_def case_prod_unfold)
  have defaults: "fold restoreDefault (ad_Defaults d) (orderAccounts (cb_accounts ?d @ [ad_Account d])) = cb_accounts db"
    unfolding d(1,4) accs using restore_defaults [OF _ R(1)] tab by (simp add: account_table_def)
  have clash: "\<not> accountClash (snd account) (cb_accounts ?d)" using R(2) unfolding accs .
  have "restoreAccountDeletionTx d ?d = Inr ((), ?d\<lparr>cb_accounts := cb_accounts db, cb_keys := cb_keys db, cb_routes := cb_routes db\<rparr>)"
    unfolding restoreAccountDeletionTx_def defaults routes ks unfolding d(1) account(2) none
    by (simp only: norow clash if_False option.case sum.case simp_thms)
  then have "restoreAccountDeletionTx d ?d = Inr ((), db\<lparr>cb_internal := internal\<rparr>)" by (simp add: db')
  then show ?thesis using ne fb account(2) f by (simp add: RestoreAccountDeletion_def d controlTx_ok db')
qed

subsection \<open>The contracts\<close>

lemma account_changes_Inl:
  "ApplyAccountCreation parse tx now fence candidate db = (Inl e, db') \<Longrightarrow> db' = db"
  "ApplyAccountUpdate parse tx now fence request db = (Inl e, db') \<Longrightarrow> db' = db"
  "ApplyAccountDeletion tx now fence rawID rawFallback revokeExclusive db = (Inl e, db') \<Longrightarrow> db' = db"
  by (auto simp: ApplyAccountCreation_def ApplyAccountUpdate_def ApplyAccountDeletion_def Let_def
      split: option.splits if_splits dest: controlTx_Inl)

lemma accountCreationTx_internal: "accountCreationTx now candidate db = Inr (c, db') \<Longrightarrow> cb_internal db' = cb_internal db"
  by (auto simp: accountCreationTx_def Let_def split: if_splits sum.splits)

lemma accountUpdateTx_internal:
  "accountUpdateTx ident newID email mode ge dg fallbackID db = Inr (up, db') \<Longrightarrow> cb_internal db' = cb_internal db"
  by (auto simp: accountUpdateTx_def Let_def split: if_splits sum.splits option.splits prod.splits)

lemma accountDeletionTx_internal:
  "accountDeletionTx ident fallbackID revokeExclusive db = Inr (d, db') \<Longrightarrow> cb_internal db' = cb_internal db"
  by (auto simp: accountDeletionTx_def Let_def split: if_splits option.splits)

lemma account_changes_internal:
  "ApplyAccountCreation parse tx now fence candidate db = (Inr c, db') \<Longrightarrow> cb_internal db' = cb_internal db"
  "ApplyAccountUpdate parse tx now fence request db = (Inr up, db') \<Longrightarrow> cb_internal db' = cb_internal db"
  "ApplyAccountDeletion tx now fence rawID rawFallback revokeExclusive db = (Inr d, db') \<Longrightarrow> cb_internal db' = cb_internal db"
  by (auto elim!: ApplyAccountCreation_Inr ApplyAccountUpdate_Inr ApplyAccountDeletion_Inr
      dest: accountCreationTx_internal accountUpdateTx_internal accountDeletionTx_internal)

interpretation accountCreation: synced_change
  "ApplyAccountCreation parse tx now fence" "RestoreAccountCreation TxOK now' fence'"
  "\<lambda>db. account_tables db \<and> validateWriteFence now' fence' (cb_leases db) = None"
  for parse tx now fence now' fence'
  by unfold_locales
    (auto simp: RestoreAccountCreation_reverts dest: account_changes_Inl account_changes_internal)

interpretation accountUpdate: synced_change
  "ApplyAccountUpdate parse tx now fence" "RestoreAccountUpdate TxOK now' fence'"
  "\<lambda>db. account_tables db \<and> validateWriteFence now' fence' (cb_leases db) = None"
  for parse tx now fence now' fence'
  by unfold_locales
    (auto simp: RestoreAccountUpdate_reverts dest: account_changes_Inl account_changes_internal)

interpretation accountDeletion: synced_change
  "\<lambda>(rawID, rawFallback, revokeExclusive). ApplyAccountDeletion tx now fence rawID rawFallback revokeExclusive"
  "RestoreAccountDeletion TxOK now' fence'"
  "\<lambda>db. account_tables db \<and> validateWriteFence now' fence' (cb_leases db) = None"
  for tx now fence now' fence'
  by unfold_locales
    (auto simp: RestoreAccountDeletion_reverts dest: account_changes_Inl account_changes_internal
      split: prod.splits)

section \<open>Properties\<close>

text \<open>
  C38: Each change of an account fails with no change or can be taken back. A creation, an update or a
  deletion that reports an error leaves every table as it was, whatever went wrong and wherever in
  the transaction. On tables as the code writes them, the rollback of a successful creation, update
  (with or without a rename, a disabling or a change of the default account) or deletion succeeds
  and gives back every row, flag and route, also after the internal keys were synchronised.
\<close>

theorem account_lifecycle_reversible:
  assumes "account_tables db" "validateWriteFence now' fence' (cb_leases db) = None"
  shows "(ApplyAccountCreation parse tx now fence candidate db = (Inr c, db1) \<longrightarrow>
       (\<exists>d. RestoreAccountCreation TxOK now' fence' c (db1\<lparr>cb_internal := internal\<rparr>) = (Inr (), d) \<and>
            same_db d (db\<lparr>cb_internal := internal\<rparr>))) \<and>
     (ApplyAccountUpdate parse tx now fence request db = (Inr up, db2) \<longrightarrow>
       (\<exists>d. RestoreAccountUpdate TxOK now' fence' up (db2\<lparr>cb_internal := internal\<rparr>) = (Inr (), d) \<and>
            same_db d (db\<lparr>cb_internal := internal\<rparr>))) \<and>
     (ApplyAccountDeletion tx now fence rawID rawFallback revokeExclusive db = (Inr x, db3) \<longrightarrow>
       (\<exists>d. RestoreAccountDeletion TxOK now' fence' x (db3\<lparr>cb_internal := internal\<rparr>) = (Inr (), d) \<and>
            same_db d (db\<lparr>cb_internal := internal\<rparr>))) \<and>
     (ApplyAccountCreation parse tx now fence candidate db = (Inl e1, db1) \<longrightarrow> db1 = db) \<and>
     (ApplyAccountUpdate parse tx now fence request db = (Inl e2, db2) \<longrightarrow> db2 = db) \<and>
     (ApplyAccountDeletion tx now fence rawID rawFallback revokeExclusive db = (Inl e3, db3) \<longrightarrow> db3 = db)"
proof -
  have pre: "account_tables db \<and> validateWriteFence now' fence' (cb_leases db) = None" using assms by blast
  show ?thesis
    using accountCreation.reverts_synced [OF pre, of parse tx now fence candidate c db1 internal]
      accountUpdate.reverts_synced [OF pre, of parse tx now fence request up db2 internal]
      accountDeletion.reverts_synced [OF pre, of tx now fence "(rawID, rawFallback, revokeExclusive)" x db3 internal]
    unfolding prod.case by (blast dest: account_changes_Inl)
qed

text \<open>Two accounts, the first one the default, with user \<open>ann\<close> on both and routed to the first.\<close>

definition sampleAccounts :: controldb where
  "sampleAccounts = \<lparr>cb_leases = [],
     cb_accounts = [(0, \<lparr>an_ID = ''a1'', an_Email = ''a@x.y'', an_Port = 1, an_ProxyMode = ''direct'', an_CreatedAt = 1,
                          an_GroupEnabled = True, an_DefaultGroup = True\<rparr>),
                    (1, \<lparr>an_ID = ''b1'', an_Email = ''b@x.y'', an_Port = 2, an_ProxyMode = ''direct'', an_CreatedAt = 1,
                          an_GroupEnabled = True, an_DefaultGroup = False\<rparr>)],
     cb_keys = [(0, \<lparr>kr_Label = ''ann:a1'', kr_Account = ''a1'', kr_AccountEmail = ''a@x.y'', kr_User = ''ann'',
                  kr_Status = ''active'', kr_Key = ''k'', kr_CreatedAt = 0, kr_UpdatedAt = 0\<rparr>),
                (1, \<lparr>kr_Label = ''ann:b1'', kr_Account = ''b1'', kr_AccountEmail = ''b@x.y'', kr_User = ''ann'',
                  kr_Status = ''active'', kr_Key = ''k'', kr_CreatedAt = 0, kr_UpdatedAt = 0\<rparr>)],
     cb_routes = [(''ann'', ''a1'')], cb_internal = [], cb_teams = [], cb_memberships = [], cb_tag_ids = [], cb_tags = []\<rparr>"

definition sampleCandidate :: Account where
  "sampleCandidate = \<lparr>an_ID = ''C1'', an_Email = ''c@x.y'', an_Port = 3, an_ProxyMode = [], an_CreatedAt = 0,
     an_GroupEnabled = False, an_DefaultGroup = False\<rparr>"

definition sampleUpdate :: AccountUpdateRequest where
  "sampleUpdate = \<lparr>aur_AccountID = ''a1'', aur_NewAccountID = ''z1'', aur_Email = ''z@x.y'', aur_ProxyMode = ''custom'',
     aur_GroupEnabled = Some False, aur_DefaultGroup = Some False, aur_FallbackAccount = []\<rparr>"

lemma sampleAccounts_tables: "account_tables sampleAccounts"
  by (simp add: account_tables_def account_table_def key_table_def wf_map_def sampleAccounts_def accountIDs_def)

theorem account_lifecycle_reversible_witness:
  "\<exists>c db1 up db2 x db3.
     ApplyAccountCreation Some TxOK 7 [] sampleCandidate sampleAccounts = (Inr c, db1) \<and>
     (\<exists>d. RestoreAccountCreation TxOK 8 [] c (db1\<lparr>cb_internal := []\<rparr>) = (Inr (), d) \<and> same_db d (sampleAccounts\<lparr>cb_internal := []\<rparr>)) \<and>
     ApplyAccountUpdate Some TxOK 7 [] sampleUpdate sampleAccounts = (Inr up, db2) \<and>
     (\<exists>d. RestoreAccountUpdate TxOK 8 [] up (db2\<lparr>cb_internal := []\<rparr>) = (Inr (), d) \<and> same_db d (sampleAccounts\<lparr>cb_internal := []\<rparr>)) \<and>
     ApplyAccountDeletion TxOK 7 [] ''a1'' [] False sampleAccounts = (Inr x, db3) \<and>
     (\<exists>d. RestoreAccountDeletion TxOK 8 [] x (db3\<lparr>cb_internal := []\<rparr>) = (Inr (), d) \<and> same_db d (sampleAccounts\<lparr>cb_internal := []\<rparr>)) \<and>
     (\<exists>e. ApplyAccountDeletion TxOK 7 [] ''zz'' [] False sampleAccounts = (Inl e, sampleAccounts))"
proof -
  have "\<not> isl (fst (ApplyAccountCreation Some TxOK 7 [] sampleCandidate sampleAccounts))" by code_simp
  then obtain c db1 where c: "ApplyAccountCreation Some TxOK 7 [] sampleCandidate sampleAccounts = (Inr c, db1)" by (rule ran_ok)
  have "\<not> isl (fst (ApplyAccountUpdate Some TxOK 7 [] sampleUpdate sampleAccounts))" by code_simp
  then obtain up db2 where u: "ApplyAccountUpdate Some TxOK 7 [] sampleUpdate sampleAccounts = (Inr up, db2)" by (rule ran_ok)
  have "\<not> isl (fst (ApplyAccountDeletion TxOK 7 [] ''a1'' [] False sampleAccounts))" by code_simp
  then obtain x db3 where x: "ApplyAccountDeletion TxOK 7 [] ''a1'' [] False sampleAccounts = (Inr x, db3)" by (rule ran_ok)
  have "isl (fst (ApplyAccountDeletion TxOK 7 [] ''zz'' [] False sampleAccounts))" by code_simp
  then obtain e db4 where e: "ApplyAccountDeletion TxOK 7 [] ''zz'' [] False sampleAccounts = (Inl e, db4)"
    by (cases "ApplyAccountDeletion TxOK 7 [] ''zz'' [] False sampleAccounts") (auto simp: isl_def)
  have f: "validateWriteFence 8 [] (cb_leases sampleAccounts) = None" by code_simp
  note W = account_lifecycle_reversible [OF sampleAccounts_tables f]
  from W [THEN conjunct1, rule_format, OF c, of "[]"]
    W [THEN conjunct2, THEN conjunct1, rule_format, OF u, of "[]"]
    W [THEN conjunct2, THEN conjunct2, THEN conjunct1, rule_format, OF x, of "[]"] c u x
    W [THEN conjunct2, THEN conjunct2, THEN conjunct2, THEN conjunct2, THEN conjunct2, rule_format, OF e] e
  show ?thesis by blast
qed

end
