(* ===== verification/Routes.thy ===== *)
theory Routes
  imports Control_Db
begin

text \<open>
  \<open>internal/controlplane/routes.go\<close>: moving users between accounts with the routes they are
  expected to have, and undoing a move, as fenced transactions of \<open>Control_Db\<close>. A Go map argument is
  an association list, its order the iteration order. The locale \<open>route_store\<close> is what the
  failover service relies on.
\<close>

section \<open>Definitions\<close>

record RouteUpdateResult =
  ru_MovedUsers :: int
  ru_Destinations :: "(string, int) gomap"

subsection \<open>Applying routes\<close>

text \<open>Go's read of a map under the raw key, then under the normalized one.\<close>

definition expectedRoute :: "(string, string) gomap \<Rightarrow> string \<Rightarrow> string option" where
  "expectedRoute expected rawUser =
     (case map_of expected rawUser of
        Some e \<Rightarrow> Some e
      | None \<Rightarrow> map_of expected (norm_user rawUser))"

fun normalizeAssignments ::
  "(string, string) gomap \<Rightarrow> (string, string) gomap \<Rightarrow> (string, string) gomap \<Rightarrow> (string, string) gomap \<Rightarrow>
   control_error + (string, string) gomap \<times> (string, string) gomap" where
  "normalizeAssignments expectedRoutes [] normalized expected = Inr (normalized, expected)"
| "normalizeAssignments expectedRoutes ((rawUser, rawTarget) # rest) normalized expected =
     (let user = norm_user rawUser; target = trim_space rawTarget
      in if user = [] \<or> target = [] then Inl RouteInputRequired
         else (case expectedRoute expectedRoutes rawUser of
                 None \<Rightarrow> Inl (ExpectedRouteRequired user)
               | Some e \<Rightarrow>
                   normalizeAssignments expectedRoutes rest (AList.update user target normalized)
                     (AList.update user (trim_space e) expected)))"

definition activeRows :: "controldb \<Rightarrow> string \<Rightarrow> KeyRecord list" where
  "activeRows db user = filter (\<lambda>k. kr_User k = user \<and> kr_Status k = ''active'') (map snd (cb_keys db))"

fun checkRouteUsers ::
  "controldb \<Rightarrow> (string, string) gomap \<Rightarrow> (string, string) gomap \<Rightarrow> string list \<Rightarrow> string list \<Rightarrow>
   control_error + string list" where
  "checkRouteUsers db normalized expected [] conflicts = Inr conflicts"
| "checkRouteUsers db normalized expected (user # users) conflicts =
     (let rows = activeRows db user
      in if rows = [] then Inl (ErrRouteUserNotFound user)
         else if length (dedup [] (map kr_Key rows)) \<noteq> 1 \<or>
                 \<not> list_ex (\<lambda>r. kr_Account r = gstring normalized user) rows
         then Inl (ErrRouteUserUnsafe user)
         else checkRouteUsers db normalized expected users
                (if gstring (cb_routes db) user \<noteq> gstring expected user then conflicts @ [user] else conflicts))"

fun moveUsers ::
  "(string, string) gomap \<Rightarrow> (string, string) gomap \<Rightarrow> string list \<Rightarrow> RouteUpdateResult \<Rightarrow> (string, string) gomap \<Rightarrow>
   RouteUpdateResult \<times> (string, string) gomap" where
  "moveUsers normalized current [] result routes = (result, routes)"
| "moveUsers normalized current (user # users) result routes =
     (let target = gstring normalized user
      in if gstring current user = target then moveUsers normalized current users result routes
         else moveUsers normalized current users
                (result\<lparr>ru_MovedUsers := ru_MovedUsers result + 1,
                        ru_Destinations := gincr target (ru_Destinations result)\<rparr>)
                (AList.update user target routes))"

definition emptyUpdate :: RouteUpdateResult where
  "emptyUpdate = \<lparr>ru_MovedUsers = 0, ru_Destinations = []\<rparr>"

definition applyRoutesTx ::
  "(string, string) gomap \<Rightarrow> (string, string) gomap \<Rightarrow> controldb \<Rightarrow> control_error + RouteUpdateResult \<times> controldb" where
  "applyRoutesTx normalized expected db =
     (case List.find (\<lambda>t. t \<notin> set (accountIDs db)) (dedup [] (map snd normalized)) of
        Some target \<Rightarrow> Inl (ErrRouteTargetNotFound target)
      | None \<Rightarrow>
          (case checkRouteUsers db normalized expected (sort (keys normalized)) [] of
             Inl e \<Rightarrow> Inl e
           | Inr conflicts \<Rightarrow>
               if conflicts \<noteq> [] then Inl (RouteConflictError conflicts)
               else (let (result, routes) = moveUsers normalized (cb_routes db) (sort (keys normalized))
                                              emptyUpdate (cb_routes db)
                     in Inr (result, db\<lparr>cb_routes := routes\<rparr>))))"

definition ApplyRoutesExpected ::
  "tx \<Rightarrow> int64 \<Rightarrow> Lease list \<Rightarrow> (string, string) gomap \<Rightarrow> (string, string) gomap \<Rightarrow> controldb \<Rightarrow>
   (control_error + RouteUpdateResult) \<times> controldb" where
  "ApplyRoutesExpected tx now fence assignments expectedRoutes db =
     (case normalizeAssignments expectedRoutes assignments [] [] of
        Inl e \<Rightarrow> (Inl e, db)
      | Inr (normalized, expected) \<Rightarrow>
          if normalized = [] then (Inr emptyUpdate, db)
          else controlTx tx now fence (applyRoutesTx normalized expected) db)"

subsection \<open>Restoring routes\<close>

fun normalizeOriginals ::
  "(string, string) gomap \<Rightarrow> (string, string) gomap \<Rightarrow> (string, string) gomap \<Rightarrow> (string, string) gomap \<Rightarrow>
   control_error + (string, string) gomap \<times> (string, string) gomap" where
  "normalizeOriginals expectedCurrent [] originals current = Inr (originals, current)"
| "normalizeOriginals expectedCurrent ((rawUser, original) # rest) originals current =
     (let user = norm_user rawUser
      in if user = [] then Inl RollbackUserRequired
         else (case expectedRoute expectedCurrent rawUser of
                 None \<Rightarrow> Inl (RollbackExpectedRequired user)
               | Some e \<Rightarrow>
                   if trim_space e = [] then Inl (RollbackExpectedRequired user)
                   else normalizeOriginals expectedCurrent rest
                          (AList.update user (trim_space original) originals)
                          (AList.update user (trim_space e) current)))"

definition restoreUser :: "(string, string) gomap \<Rightarrow> string \<Rightarrow> (string, string) gomap \<Rightarrow> (string, string) gomap" where
  "restoreUser originals user routes =
     (if gstring originals user = [] then AList.delete user routes
      else AList.update user (gstring originals user) routes)"

definition restoreRoutesTx ::
  "(string, string) gomap \<Rightarrow> (string, string) gomap \<Rightarrow> controldb \<Rightarrow> control_error + unit \<times> controldb" where
  "restoreRoutesTx originals current db =
     (let users = sort (keys originals);
          conflicts = filter (\<lambda>u. gstring (cb_routes db) u \<noteq> gstring current u) users
      in if conflicts \<noteq> [] then Inl (RouteConflictError conflicts)
         else Inr ((), db\<lparr>cb_routes := fold (restoreUser originals) users (cb_routes db)\<rparr>))"

definition RestoreRoutesExpected ::
  "tx \<Rightarrow> int64 \<Rightarrow> Lease list \<Rightarrow> (string, string) gomap \<Rightarrow> (string, string) gomap \<Rightarrow> controldb \<Rightarrow>
   (control_error + unit) \<times> controldb" where
  "RestoreRoutesExpected tx now fence originalRoutes expectedCurrentRoutes db =
     (case normalizeOriginals expectedCurrentRoutes originalRoutes [] [] of
        Inl e \<Rightarrow> (Inl e, db)
      | Inr (originals, current) \<Rightarrow> controlTx tx now fence (restoreRoutesTx originals current) db)"

text \<open>A plan's pair of maps: the same users, in normal form, with trimmed accounts.\<close>

definition plan_maps :: "(string, string) gomap \<Rightarrow> (string, string) gomap \<Rightarrow> bool" where
  "plan_maps assignments expected \<longleftrightarrow>
     wf_map assignments \<and> wf_map expected \<and> set (keys assignments) = set (keys expected) \<and>
     (\<forall>u t. (u, t) \<in> set assignments \<longrightarrow> norm_user u = u \<and> u \<noteq> [] \<and> trim_space t = t \<and> t \<noteq> []) \<and>
     (\<forall>u t. (u, t) \<in> set expected \<longrightarrow> trim_space t = t)"

text \<open>The routes after a set of assignments.\<close>

definition routesWith :: "(string, string) gomap \<Rightarrow> (string \<Rightarrow> string option) \<Rightarrow> string \<Rightarrow> string option" where
  "routesWith assignments routes u = (case map_of assignments u of Some t \<Rightarrow> Some t | None \<Rightarrow> routes u)"

section \<open>Lemmas\<close>

text \<open>The safety check of one user: one active secret, with a key row at the target.\<close>

definition safe_user :: "controldb \<Rightarrow> string \<Rightarrow> string \<Rightarrow> bool" where
  "safe_user db user target \<longleftrightarrow>
     activeRows db user \<noteq> [] \<and> length (dedup [] (map kr_Key (activeRows db user))) = 1 \<and>
     (\<exists>r \<in> set (activeRows db user). kr_Account r = target)"

lemma checkRouteUsers_Inr:
  "checkRouteUsers db n e us cs = Inr cs' \<longleftrightarrow>
     (\<forall>u \<in> set us. safe_user db u (gstring n u)) \<and>
     cs' = cs @ filter (\<lambda>u. gstring (cb_routes db) u \<noteq> gstring e u) us"
proof (induction db n e us cs rule: checkRouteUsers.induct)
  case (2 db n e u us cs)
  show ?case
  proof (cases "safe_user db u (gstring n u)")
    case True
    then have ok: "activeRows db u \<noteq> []" "length (dedup [] (map kr_Key (activeRows db u))) = 1"
      "list_ex (\<lambda>r. kr_Account r = gstring n u) (activeRows db u)"
      by (auto simp: safe_user_def list_ex_iff)
    from "2.IH" [OF refl ok(1)] ok True show ?thesis by (auto simp: Let_def)
  next
    case False
    then show ?thesis by (auto simp: safe_user_def Let_def list_ex_iff)
  qed
qed auto

lemma moveUsers_routes:
  "map_of (snd (moveUsers n cur us res routes)) u =
     (if u \<in> set us \<and> gstring cur u \<noteq> gstring n u then Some (gstring n u) else map_of routes u)"
  by (induction n cur us res routes rule: moveUsers.induct) (auto simp: Let_def)

lemma moveUsers_moved:
  "ru_MovedUsers (fst (moveUsers n cur us res routes)) =
     ru_MovedUsers res + int (length (filter (\<lambda>u. gstring cur u \<noteq> gstring n u) us))"
  by (induction n cur us res routes rule: moveUsers.induct) (auto simp: Let_def)

lemma find_None_all: "List.find P xs = None \<longleftrightarrow> (\<forall>x \<in> set xs. \<not> P x)"
  by (induction xs) auto

lemma applyRoutesTx_Inr:
  assumes "applyRoutesTx n e db = Inr (res, db')"
  shows "(\<forall>t \<in> set (map snd n). t \<in> set (accountIDs db)) \<and>
     (\<forall>u \<in> set (keys n). safe_user db u (gstring n u) \<and> gstring (cb_routes db) u = gstring e u) \<and>
     db' = db\<lparr>cb_routes := cb_routes db'\<rparr> \<and>
     (\<forall>u. map_of (cb_routes db') u =
        (if u \<in> set (keys n) \<and> gstring (cb_routes db) u \<noteq> gstring n u then Some (gstring n u)
         else map_of (cb_routes db) u)) \<and>
     ru_MovedUsers res = int (length (filter (\<lambda>u. gstring (cb_routes db) u \<noteq> gstring n u) (sort (keys n))))"
proof -
  from assms have f: "List.find (\<lambda>t. t \<notin> set (accountIDs db)) (dedup [] (map snd n)) = None"
    by (auto simp: applyRoutesTx_def split: option.splits)
  with assms obtain cs where c: "checkRouteUsers db n e (sort (keys n)) [] = Inr cs"
    by (auto simp: applyRoutesTx_def split: sum.splits)
  with f assms have cs: "cs = []" and m: "db' = db\<lparr>cb_routes := snd (moveUsers n (cb_routes db) (sort (keys n)) emptyUpdate (cb_routes db))\<rparr>"
    "res = fst (moveUsers n (cb_routes db) (sort (keys n)) emptyUpdate (cb_routes db))"
    by (auto simp: applyRoutesTx_def split: if_splits prod.splits)
  have "filter (\<lambda>u. gstring (cb_routes db) u \<noteq> gstring e u) (sort (keys n)) = []"
    and safe: "\<forall>u \<in> set (keys n). safe_user db u (gstring n u)"
    using c cs unfolding checkRouteUsers_Inr by auto
  then have exp: "\<forall>u \<in> set (keys n). gstring (cb_routes db) u = gstring e u"
    by (simp add: filter_empty_conv)
  have acc: "\<forall>t \<in> set (map snd n). t \<in> set (accountIDs db)"
    using f unfolding find_None_all set_dedup by simp
  show ?thesis using acc safe exp
    by (simp add: m moveUsers_routes moveUsers_moved emptyUpdate_def)
qed

text \<open>On the maps of a plan the normalization is the identity.\<close>

lemma normalizeAssignments_plan:
  assumes "\<forall>u t. (u, t) \<in> set as \<longrightarrow> norm_user u = u \<and> u \<noteq> [] \<and> trim_space t = t \<and> t \<noteq> [] \<and> map_of ex u \<noteq> None"
    and "distinct (keys as)"
  shows "\<exists>n' e'. normalizeAssignments ex as n e = Inr (n', e') \<and>
     (\<forall>u. map_of n' u = (case map_of as u of Some t \<Rightarrow> Some t | None \<Rightarrow> map_of n u)) \<and>
     (\<forall>u. map_of e' u = (if u \<in> set (keys as) then map_option trim_space (map_of ex u) else map_of e u))"
  using assms
proof (induction ex as n e rule: normalizeAssignments.induct)
  case (2 ex ru rt rest n e)
  obtain x where x: "norm_user ru = ru" "ru \<noteq> []" "trim_space rt = rt" "rt \<noteq> []" "map_of ex ru = Some x"
    using "2.prems"(1) [rule_format, of ru rt] by auto
  then have ex: "expectedRoute ex ru = Some x" by (simp add: expectedRoute_def)
  have "ru \<notin> set (keys rest)" using "2.prems"(2) by simp
  then have none: "map_of rest ru = None" by (simp add: map_of_eq_None_iff)
  have g: "\<not> (norm_user ru = [] \<or> trim_space rt = [])" using x by simp
  have rest: "\<forall>u t. (u, t) \<in> set rest \<longrightarrow> norm_user u = u \<and> u \<noteq> [] \<and> trim_space t = t \<and> t \<noteq> [] \<and> map_of ex u \<noteq> None"
    "distinct (keys rest)" using "2.prems" by simp_all
  obtain n' e' where IH: "normalizeAssignments ex rest (AList.update ru rt n) (AList.update ru (trim_space x) e) = Inr (n', e')"
    "\<forall>u. map_of n' u = (case map_of rest u of Some t \<Rightarrow> Some t | None \<Rightarrow> map_of (AList.update ru rt n) u)"
    "\<forall>u. map_of e' u = (if u \<in> set (keys rest) then map_option trim_space (map_of ex u)
       else map_of (AList.update ru (trim_space x) e) u)"
    using "2.IH" [OF refl refl g ex rest, unfolded x(1,3)] by blast
  have "normalizeAssignments ex ((ru, rt) # rest) n e = Inr (n', e')"
    using x ex IH(1) by (simp add: Let_def)
  moreover have "map_of n' u = (case map_of ((ru, rt) # rest) u of Some t \<Rightarrow> Some t | None \<Rightarrow> map_of n u)" for u
    using IH(2) none by (cases "u = ru") (auto split: option.splits)
  moreover have "map_of e' u = (if u \<in> set (keys ((ru, rt) # rest)) then map_option trim_space (map_of ex u) else map_of e u)" for u
    using IH(3) x(5) \<open>ru \<notin> set (keys rest)\<close> by (cases "u = ru") auto
  ultimately show ?case by blast
qed auto

lemma normalizeOriginals_plan:
  assumes "\<forall>u t. (u, t) \<in> set as \<longrightarrow> norm_user u = u \<and> u \<noteq> [] \<and>
      (\<exists>x. map_of ex u = Some x \<and> trim_space x \<noteq> [])"
    and "distinct (keys as)"
  shows "\<exists>n' e'. normalizeOriginals ex as n e = Inr (n', e') \<and>
     (\<forall>u. map_of n' u = (case map_of as u of Some t \<Rightarrow> Some (trim_space t) | None \<Rightarrow> map_of n u)) \<and>
     (\<forall>u. map_of e' u = (if u \<in> set (keys as) then map_option trim_space (map_of ex u) else map_of e u))"
  using assms
proof (induction ex as n e rule: normalizeOriginals.induct)
  case (2 ex ru rt rest n e)
  obtain x where x: "norm_user ru = ru" "ru \<noteq> []" "map_of ex ru = Some x" "trim_space x \<noteq> []"
    using "2.prems"(1) [rule_format, of ru rt] by auto
  then have ex: "expectedRoute ex ru = Some x" by (simp add: expectedRoute_def)
  have "ru \<notin> set (keys rest)" using "2.prems"(2) by simp
  then have none: "map_of rest ru = None" by (simp add: map_of_eq_None_iff)
  have g: "norm_user ru \<noteq> []" using x by simp
  have rest: "\<forall>u t. (u, t) \<in> set rest \<longrightarrow> norm_user u = u \<and> u \<noteq> [] \<and> (\<exists>x. map_of ex u = Some x \<and> trim_space x \<noteq> [])"
    "distinct (keys rest)" using "2.prems" by simp_all
  obtain n' e' where IH: "normalizeOriginals ex rest (AList.update ru (trim_space rt) n) (AList.update ru (trim_space x) e) = Inr (n', e')"
    "\<forall>u. map_of n' u = (case map_of rest u of Some t \<Rightarrow> Some (trim_space t) | None \<Rightarrow> map_of (AList.update ru (trim_space rt) n) u)"
    "\<forall>u. map_of e' u = (if u \<in> set (keys rest) then map_option trim_space (map_of ex u)
       else map_of (AList.update ru (trim_space x) e) u)"
    using "2.IH" [OF refl g ex x(4) rest, unfolded x(1)] by blast
  have "normalizeOriginals ex ((ru, rt) # rest) n e = Inr (n', e')"
    using x ex IH(1) by (simp add: Let_def)
  moreover have "map_of n' u = (case map_of ((ru, rt) # rest) u of Some t \<Rightarrow> Some (trim_space t) | None \<Rightarrow> map_of n u)" for u
    using IH(2) none by (cases "u = ru") (auto split: option.splits)
  moreover have "map_of e' u = (if u \<in> set (keys ((ru, rt) # rest)) then map_option trim_space (map_of ex u) else map_of e u)" for u
    using IH(3) x(3) \<open>ru \<notin> set (keys rest)\<close> by (cases "u = ru") auto
  ultimately show ?case by blast
qed auto

lemma restore_fold:
  "map_of (fold (restoreUser o0) us routes) u =
     (if u \<in> set us then (if gstring o0 u = [] then None else Some (gstring o0 u)) else map_of routes u)"
  by (induction us arbitrary: routes) (auto simp: restoreUser_def)

subsection \<open>The interface of the route store\<close>

locale route_store =
  fixes change :: "(string, string) gomap \<Rightarrow> (string, string) gomap \<Rightarrow> 'db \<Rightarrow> (control_error + 'r) \<times> 'db"
    and undo :: "(string, string) gomap \<Rightarrow> (string, string) gomap \<Rightarrow> 'db \<Rightarrow> (control_error + unit) \<times> 'db"
    and routes :: "'db \<Rightarrow> string \<Rightarrow> string option"
    and ready :: "'db \<Rightarrow> bool"
  assumes apply_fail: "change asg ex db = (Inl e, db') \<Longrightarrow> db' = db"
    and apply_ok: "plan_maps asg ex \<Longrightarrow> change asg ex db = (Inr res, db') \<Longrightarrow>
      routes db' = routesWith asg (routes db) \<and>
      (\<forall>u \<in> set (keys asg). (case routes db u of None \<Rightarrow> [] | Some a \<Rightarrow> a) = gstring ex u)"
    and restore_fail: "undo ex asg db = (Inl e, db') \<Longrightarrow> db' = db"
    and restore_ok: "plan_maps asg ex \<Longrightarrow> ready db \<Longrightarrow> \<forall>u \<in> set (keys asg). routes db u = map_of asg u \<Longrightarrow>
      \<exists>db'. undo ex asg db = (Inr (), db') \<and>
        (\<forall>u. routes db' u = (if u \<in> set (keys asg) then (if gstring ex u = [] then None else Some (gstring ex u))
                             else routes db u))"
begin

text \<open>Undoing a successful move gives back every route.\<close>

lemma roundtrip:
  assumes "plan_maps asg ex" "change asg ex db = (Inr res, db')" "ready db'" "\<forall>u. routes db u \<noteq> Some []"
  shows "\<exists>db''. undo ex asg db' = (Inr (), db'') \<and> routes db'' = routes db"
proof -
  note A = apply_ok [OF assms(1,2)]
  have in_keys: "u \<in> set (keys asg) \<longleftrightarrow> map_of asg u \<noteq> None" for u
    by (simp add: map_of_eq_None_iff)
  have "\<forall>u \<in> set (keys asg). routes db' u = map_of asg u"
  proof
    fix u assume "u \<in> set (keys asg)"
    then obtain t where "map_of asg u = Some t" using in_keys by blast
    then show "routes db' u = map_of asg u" using conjunct1 [OF A] by (simp add: routesWith_def)
  qed
  from restore_ok [OF assms(1,3) this] obtain db'' where r: "undo ex asg db' = (Inr (), db'')"
    "\<forall>u. routes db'' u = (if u \<in> set (keys asg) then (if gstring ex u = [] then None else Some (gstring ex u))
       else routes db' u)" by blast
  have "routes db'' u = routes db u" for u
  proof (cases "u \<in> set (keys asg)")
    case True
    then have g: "(case routes db u of None \<Rightarrow> [] | Some a \<Rightarrow> a) = gstring ex u" using A by blast
    show ?thesis
      using r(2)[rule_format, of u] True g assms(4)[rule_format, of u] by (cases "routes db u") auto
  next
    case False
    then have "map_of asg u = None" using in_keys by blast
    then show ?thesis using False r(2) A by (simp add: routesWith_def)
  qed
  then show ?thesis using r(1) by blast
qed

end

lemma plan_mapsD:
  assumes "plan_maps asg ex"
  shows "wf_map asg" "distinct (keys asg)" "distinct (keys ex)" "set (keys asg) = set (keys ex)"
    "\<forall>u t. (u, t) \<in> set asg \<longrightarrow> norm_user u = u \<and> u \<noteq> [] \<and> trim_space t = t \<and> t \<noteq> [] \<and> map_of ex u \<noteq> None"
    "\<forall>u t. (u, t) \<in> set ex \<longrightarrow> norm_user u = u \<and> u \<noteq> [] \<and> (\<exists>x. map_of asg u = Some x \<and> trim_space x \<noteq> [])"
proof -
  have p: "wf_map asg" "wf_map ex" "set (keys asg) = set (keys ex)"
    "\<forall>u t. (u, t) \<in> set asg \<longrightarrow> norm_user u = u \<and> u \<noteq> [] \<and> trim_space t = t \<and> t \<noteq> []"
    using assms unfolding plan_maps_def by blast+
  then show "wf_map asg" "distinct (keys asg)" "distinct (keys ex)" "set (keys asg) = set (keys ex)"
    by (simp_all add: wf_map_def)
  show "\<forall>u t. (u, t) \<in> set asg \<longrightarrow> norm_user u = u \<and> u \<noteq> [] \<and> trim_space t = t \<and> t \<noteq> [] \<and> map_of ex u \<noteq> None"
    using p(3,4) by (metis fst_conv image_eqI list.set_map map_of_eq_None_iff)
  show "\<forall>u t. (u, t) \<in> set ex \<longrightarrow> norm_user u = u \<and> u \<noteq> [] \<and> (\<exists>x. map_of asg u = Some x \<and> trim_space x \<noteq> [])"
  proof (intro allI impI)
    fix u t assume "(u, t) \<in> set ex"
    then have "u \<in> set (keys asg)" unfolding p(3) by force
    then obtain x where x: "map_of asg u = Some x" by (metis map_of_eq_None_iff not_None_eq list.set_map)
    then have "(u, x) \<in> set asg" by (rule map_of_SomeD)
    with p(4) x show "norm_user u = u \<and> u \<noteq> [] \<and> (\<exists>x. map_of asg u = Some x \<and> trim_space x \<noteq> [])" by force
  qed
qed

lemma plan_maps_trim: "plan_maps asg ex \<Longrightarrow> map_option trim_space (map_of ex u) = map_of ex u"
  unfolding plan_maps_def by (cases "map_of ex u") (auto dest: map_of_SomeD)

lemma gstring_cong: "map_of m u = map_of m' u \<Longrightarrow> gstring m u = gstring m' u"
  by (simp add: gstring_def)

lemma ApplyRoutes_plan:
  assumes p: "plan_maps asg ex" and a: "ApplyRoutesExpected tx now fence asg ex db = (Inr res, db')"
  shows "map_of (cb_routes db') = routesWith asg (map_of (cb_routes db)) \<and>
     (\<forall>u \<in> set (keys asg). gstring (cb_routes db) u = gstring ex u) \<and> cb_leases db' = cb_leases db"
proof -
  note P = plan_mapsD [OF p]
  obtain n x where nx: "normalizeAssignments ex asg [] [] = Inr (n, x)"
    and n: "\<forall>u. map_of n u = (case map_of asg u of Some t \<Rightarrow> Some t | None \<Rightarrow> map_of [] u)"
    and x: "\<forall>u. map_of x u = (if u \<in> set (keys asg) then map_option trim_space (map_of ex u) else map_of [] u)"
    using normalizeAssignments_plan [OF P(5,2), of "[]" "[]"] by blast
  have n': "map_of n = map_of asg"
  proof
    fix u show "map_of n u = map_of asg u"
      using n [rule_format, of u] by (cases "map_of asg u") auto
  qed
  have x': "gstring x u = gstring ex u" if "u \<in> set (keys asg)" for u
    using x that plan_maps_trim [OF p] by (intro gstring_cong) simp
  have kn: "u \<in> set (keys n) \<longleftrightarrow> u \<in> set (keys asg)" for u
    using arg_cong [OF n', of dom] by (auto simp: dom_map_of_conv_image_fst)
  show ?thesis
  proof (cases "n = []")
    case True
    then have "asg = []" using kn by (cases asg) auto
    moreover have "db' = db" using a nx True by (simp add: ApplyRoutesExpected_def)
    ultimately show ?thesis by (simp add: routesWith_def fun_eq_iff)
  next
    case False
    then have "controlTx tx now fence (applyRoutesTx n x) db = (Inr res, db')"
      using a nx by (simp add: ApplyRoutesExpected_def)
    then have "applyRoutesTx n x db = Inr (res, db')" by (cases rule: controlTx_cases) auto
    note A = applyRoutesTx_Inr [OF this]
    have "map_of (cb_routes db') u = routesWith asg (map_of (cb_routes db)) u" for u
    proof (cases "map_of asg u")
      case None
      then have "u \<notin> set (keys n)" using kn by (simp add: map_of_eq_None_iff)
      then show ?thesis using A None by (simp add: routesWith_def)
    next
      case (Some t)
      then have k: "u \<in> set (keys n)" "gstring n u = t" "t \<noteq> []"
        using kn n' P(5) map_of_SomeD [OF Some] by (force simp: gstring_def)+
      then show ?thesis using A Some by (auto simp: routesWith_def gstring_def split: if_splits option.splits)
    qed
    moreover have "cb_leases db' = cb_leases db"
    proof -
      have "db' = db\<lparr>cb_routes := cb_routes db'\<rparr>" using A by blast
      from arg_cong [OF this, of cb_leases] show ?thesis by simp
    qed
    moreover have "gstring (cb_routes db) u = gstring ex u" if "u \<in> set (keys asg)" for u
      using A x' [OF that] that kn by metis
    ultimately show ?thesis by (simp add: fun_eq_iff)
  qed
qed

lemma RestoreRoutes_plan:
  assumes p: "plan_maps asg ex" and f: "validateWriteFence now fence (cb_leases db) = None"
    and cur: "\<forall>u \<in> set (keys asg). map_of (cb_routes db) u = map_of asg u"
  shows "\<exists>db'. RestoreRoutesExpected TxOK now fence ex asg db = (Inr (), db') \<and>
     (\<forall>u. map_of (cb_routes db') u =
        (if u \<in> set (keys asg) then (if gstring ex u = [] then None else Some (gstring ex u)) else map_of (cb_routes db) u))"
proof -
  note P = plan_mapsD [OF p]
  obtain n x where nx: "normalizeOriginals asg ex [] [] = Inr (n, x)"
    and n: "\<forall>u. map_of n u = (case map_of ex u of Some t \<Rightarrow> Some (trim_space t) | None \<Rightarrow> map_of [] u)"
    and x: "\<forall>u. map_of x u = (if u \<in> set (keys ex) then map_option trim_space (map_of asg u) else map_of [] u)"
    using normalizeOriginals_plan [OF P(6,3), of "[]" "[]"] by blast
  have n': "map_of n = map_of ex"
  proof
    fix u show "map_of n u = map_of ex u"
      using n plan_maps_trim [OF p, of u] by (cases "map_of ex u") auto
  qed
  have kn: "u \<in> set (keys n) \<longleftrightarrow> u \<in> set (keys asg)" for u
    using arg_cong [OF n', of dom] P(4) by (auto simp: dom_map_of_conv_image_fst)
  have x': "gstring x u = gstring asg u" if "u \<in> set (keys asg)" for u
  proof -
    have "map_option trim_space (map_of asg u) = map_of asg u"
      using P(5) by (cases "map_of asg u") (auto dest: map_of_SomeD)
    then show ?thesis using x that P(4) by (intro gstring_cong) simp
  qed
  have "filter (\<lambda>u. gstring (cb_routes db) u \<noteq> gstring x u) (sort (keys n)) = []"
    unfolding filter_empty_conv set_sort not_not
  proof
    fix u assume "u \<in> set (keys n)"
    then have u: "u \<in> set (keys asg)" by (simp only: kn)
    show "gstring (cb_routes db) u = gstring x u"
      unfolding x' [OF u] by (rule gstring_cong) (rule cur [rule_format, OF u])
  qed
  then have t: "restoreRoutesTx n x db = Inr ((), db\<lparr>cb_routes := fold (restoreUser n) (sort (keys n)) (cb_routes db)\<rparr>)"
    by (simp add: restoreRoutesTx_def Let_def)
  have "RestoreRoutesExpected TxOK now fence ex asg db =
      (Inr (), db\<lparr>cb_routes := fold (restoreUser n) (sort (keys n)) (cb_routes db)\<rparr>)"
    using nx controlTx_ok [OF f, of "restoreRoutesTx n x"] t by (simp add: RestoreRoutesExpected_def)
  moreover have "gstring n u = gstring ex u" for u using n' by (simp add: gstring_def)
  ultimately show ?thesis using kn by (auto simp: restore_fold)
qed

interpretation controlRoutes: route_store
  "ApplyRoutesExpected tx now fence" "RestoreRoutesExpected TxOK now' fence'"
  "\<lambda>db. map_of (cb_routes db)" "\<lambda>db. validateWriteFence now' fence' (cb_leases db) = None"
  for tx now fence now' fence'
proof
  show "ApplyRoutesExpected tx now fence asg ex db = (Inl e, db') \<Longrightarrow> db' = db" for asg ex db e db'
    by (auto simp: ApplyRoutesExpected_def split: sum.splits if_splits elim: controlTx_cases)
  show "RestoreRoutesExpected TxOK now' fence' ex asg db = (Inl e, db') \<Longrightarrow> db' = db" for asg ex db e db'
    by (auto simp: RestoreRoutesExpected_def split: sum.splits elim: controlTx_cases)
  show "plan_maps asg ex \<Longrightarrow> ApplyRoutesExpected tx now fence asg ex db = (Inr res, db') \<Longrightarrow>
      map_of (cb_routes db') = routesWith asg (map_of (cb_routes db)) \<and>
      (\<forall>u \<in> set (keys asg). (case map_of (cb_routes db) u of None \<Rightarrow> [] | Some a \<Rightarrow> a) = gstring ex u)" for asg ex db res db'
    using ApplyRoutes_plan by (simp add: gstring_def)
  show "plan_maps asg ex \<Longrightarrow> validateWriteFence now' fence' (cb_leases db) = None \<Longrightarrow>
      \<forall>u \<in> set (keys asg). map_of (cb_routes db) u = map_of asg u \<Longrightarrow>
      \<exists>db'. RestoreRoutesExpected TxOK now' fence' ex asg db = (Inr (), db') \<and>
        (\<forall>u. map_of (cb_routes db') u = (if u \<in> set (keys asg) then (if gstring ex u = [] then None else Some (gstring ex u))
                             else map_of (cb_routes db) u))" for asg ex db
    by (rule RestoreRoutes_plan)
qed

subsection \<open>Routes as a change of the store\<close>

lemma checkRouteUsers_internal: "checkRouteUsers (db\<lparr>cb_internal := i\<rparr>) n e us cs = checkRouteUsers db n e us cs"
  by (induction db n e us cs rule: checkRouteUsers.induct) (simp_all add: activeRows_def Let_def)

lemma applyRoutesTx_internal:
  "applyRoutesTx n e db = Inr (r, db') \<Longrightarrow> applyRoutesTx n e (db\<lparr>cb_internal := i\<rparr>) = Inr (r, db'\<lparr>cb_internal := i\<rparr>)"
  by (auto simp: applyRoutesTx_def accountIDs_def checkRouteUsers_internal Let_def split: option.splits sum.splits if_splits prod.splits)

lemma ApplyRoutes_internal:
  assumes "ApplyRoutesExpected tx now fence asg ex db = (Inr r, db')"
  shows "ApplyRoutesExpected tx now fence asg ex (db\<lparr>cb_internal := i\<rparr>) = (Inr r, db'\<lparr>cb_internal := i\<rparr>)"
    and "db' = db\<lparr>cb_routes := cb_routes db'\<rparr>"
proof -
  obtain n x where nx: "normalizeAssignments ex asg [] [] = Inr (n, x)"
    using assms by (auto simp: ApplyRoutesExpected_def split: sum.splits)
  show "ApplyRoutesExpected tx now fence asg ex (db\<lparr>cb_internal := i\<rparr>) = (Inr r, db'\<lparr>cb_internal := i\<rparr>)"
    using assms nx applyRoutesTx_internal [of n x db r db' i]
    by (auto simp: ApplyRoutesExpected_def controlTx_def split: if_splits option.splits sum.splits prod.splits)
  show "db' = db\<lparr>cb_routes := cb_routes db'\<rparr>"
    using assms nx by (auto simp: ApplyRoutesExpected_def applyRoutesTx_def Let_def
        split: if_splits option.splits sum.splits prod.splits dest!: controlTx_Inr(1))
qed

lemma RestoreRoutes_db:
  "RestoreRoutesExpected tx now fence ex asg db = (Inr (), d) \<Longrightarrow> d = db\<lparr>cb_routes := cb_routes d\<rparr>"
  by (auto simp: RestoreRoutesExpected_def restoreRoutesTx_def Let_def split: sum.splits if_splits dest!: controlTx_Inr(1))

lemma RestoreRoutes_reverts:
  assumes pre: "plan_maps asg ex \<and> (\<forall>u. map_of (cb_routes db) u \<noteq> Some []) \<and> validateWriteFence now' fence' (cb_leases db) = None"
    and a: "ApplyRoutesExpected tx now fence asg ex db = (Inr r, db')"
  shows "\<exists>d. RestoreRoutesExpected TxOK now' fence' ex asg (db'\<lparr>cb_internal := i\<rparr>) = (Inr (), d) \<and> same_db d (db\<lparr>cb_internal := i\<rparr>)"
proof -
  note a' = ApplyRoutes_internal(1) [OF a, of i] ApplyRoutes_internal(2) [OF a]
  have f: "validateWriteFence now' fence' (cb_leases (db'\<lparr>cb_internal := i\<rparr>)) = None"
    using pre ApplyRoutes_plan [OF conjunct1 [OF pre] a] by simp
  have "\<forall>u. map_of (cb_routes (db\<lparr>cb_internal := i\<rparr>)) u \<noteq> Some []" using pre by simp
  then obtain d where d: "RestoreRoutesExpected TxOK now' fence' ex asg (db'\<lparr>cb_internal := i\<rparr>) = (Inr (), d)"
    "map_of (cb_routes d) = map_of (cb_routes db)"
    using controlRoutes.roundtrip [OF conjunct1 [OF pre] a'(1) f] by auto
  obtain x where "db' = db\<lparr>cb_routes := x\<rparr>" using a'(2) by blast
  moreover obtain y where "d = db'\<lparr>cb_internal := i\<rparr>\<lparr>cb_routes := y\<rparr>" using RestoreRoutes_db [OF d(1)] by blast
  ultimately have "same_db d (db\<lparr>cb_internal := i\<rparr>)" using d(2) by (simp add: same_db_def)
  then show ?thesis using d(1) by blast
qed

section \<open>Properties\<close>

text \<open>
  C28: routes change by compare and swap, all or nothing. If \<open>ApplyRoutesExpected\<close> fails, nothing
  changed. If it succeeds with some assignment, the caller's fence was valid, every user had
  exactly the route it was expected to have and one active secret with a key row on its target,
  every target is an account; afterwards each of these users is routed to its target, nobody
  else's route and no other table changed, and the result counts the users who moved.
\<close>

theorem ApplyRoutesExpected_cas:
  assumes "ApplyRoutesExpected tx now fence assignments expectedRoutes db = (r, db')"
  shows "(\<forall>e. r = Inl e \<longrightarrow> db' = db) \<and>
     (\<forall>res. r = Inr res \<longrightarrow>
        (\<exists>n x. normalizeAssignments expectedRoutes assignments [] [] = Inr (n, x) \<and>
           (n = [] \<longrightarrow> db' = db) \<and>
           (n \<noteq> [] \<longrightarrow>
              validateWriteFence now fence (cb_leases db) = None \<and>
              (\<forall>u \<in> set (keys n). safe_user db u (gstring n u) \<and> gstring (cb_routes db) u = gstring x u \<and>
                 gstring (cb_routes db') u = gstring n u) \<and>
              (\<forall>t \<in> set (map snd n). t \<in> set (accountIDs db)) \<and>
              (\<forall>u. u \<notin> set (keys n) \<longrightarrow> map_of (cb_routes db') u = map_of (cb_routes db) u) \<and>
              db' = db\<lparr>cb_routes := cb_routes db'\<rparr> \<and>
              ru_MovedUsers res =
                int (length (filter (\<lambda>u. gstring (cb_routes db) u \<noteq> gstring n u) (sort (keys n)))))))"
proof (cases "normalizeAssignments expectedRoutes assignments [] []")
  case (Inl e)
  then show ?thesis using assms by (auto simp: ApplyRoutesExpected_def)
next
  case (Inr q)
  obtain n x where q: "q = (n, x)" by (cases q)
  show ?thesis
  proof (cases "n = []")
    case True
    then show ?thesis using assms Inr q by (auto simp: ApplyRoutesExpected_def)
  next
    case False
    then have t: "controlTx tx now fence (applyRoutesTx n x) db = (r, db')"
      using assms Inr q by (simp add: ApplyRoutesExpected_def)
    then show ?thesis
    proof (cases rule: controlTx_cases)
      case (2 res)
      note A = applyRoutesTx_Inr [OF 2(2)]
      have "gstring (cb_routes db') u = gstring n u" if "u \<in> set (keys n)" for u
        using A that unfolding gstring_def by auto
      with A 2 False Inr q show ?thesis by auto
    qed simp
  qed
qed

theorem ApplyRoutesExpected_cas_witness:
  "\<exists>res. fst (ApplyRoutesExpected TxOK 0 [] [(''Ann '', ''b'')] [(''ann'', ''a'')] twoAccounts) = Inr res \<and>
     ru_MovedUsers res = 1 \<and>
     (\<exists>n x. normalizeAssignments [(''ann'', ''a'')] [(''Ann '', ''b'')] [] [] = Inr (n, x) \<and> n \<noteq> [] \<and>
        (\<forall>u \<in> set (keys n). gstring (cb_routes twoAccounts) u = gstring x u))"
proof -
  have run: "ApplyRoutesExpected TxOK 0 [] [(''Ann '', ''b'')] [(''ann'', ''a'')] twoAccounts =
      (Inr \<lparr>ru_MovedUsers = 1, ru_Destinations = [(''b'', 1)]\<rparr>, twoAccounts\<lparr>cb_routes := [(''ann'', ''b'')]\<rparr>)"
    by code_simp
  have n: "normalizeAssignments [(''ann'', ''a'')] [(''Ann '', ''b'')] [] [] = Inr ([(''ann'', ''b'')], [(''ann'', ''a'')])"
    by code_simp
  show ?thesis using ApplyRoutesExpected_cas [OF run] unfolding run n by auto
qed

text \<open>
  Undoing a move restores every route. After a successful \<open>ApplyRoutesExpected\<close> of a plan
  (its assignments and the routes it expected), \<open>RestoreRoutesExpected\<close> called with the two maps
  exchanged, under a fence that is still valid and with a healthy database, succeeds and gives
  back exactly the routes from before, for every user, including those who had no route.
\<close>

theorem RestoreRoutesExpected_undoes:
  assumes "plan_maps assignments expected"
    and "ApplyRoutesExpected tx now fence assignments expected db = (Inr res, db')"
    and "validateWriteFence now' fence' (cb_leases db) = None"
    and "\<forall>u. map_of (cb_routes db) u \<noteq> Some []"
  shows "\<exists>db''. RestoreRoutesExpected TxOK now' fence' expected assignments db' = (Inr (), db'') \<and>
     map_of (cb_routes db'') = map_of (cb_routes db)"
proof (rule controlRoutes.roundtrip [OF assms(1,2) _ assms(4)])
  show "validateWriteFence now' fence' (cb_leases db') = None"
    using assms(3) ApplyRoutes_plan [OF assms(1,2)] by simp
qed

theorem RestoreRoutesExpected_undoes_witness:
  "\<exists>db''. RestoreRoutesExpected TxOK 1 [] [(''ann'', ''a'')] [(''ann'', ''b'')]
       (twoAccounts\<lparr>cb_routes := [(''ann'', ''b'')]\<rparr>) = (Inr (), db'') \<and>
     map_of (cb_routes db'') = map_of (cb_routes twoAccounts)"
proof (rule RestoreRoutesExpected_undoes)
  show "ApplyRoutesExpected TxOK 0 [] [(''ann'', ''b'')] [(''ann'', ''a'')] twoAccounts =
      (Inr \<lparr>ru_MovedUsers = 1, ru_Destinations = [(''b'', 1)]\<rparr>, twoAccounts\<lparr>cb_routes := [(''ann'', ''b'')]\<rparr>)"
    by code_simp
  have "norm_user ''ann'' = ''ann''" "trim_space ''b'' = ''b''" "trim_space ''a'' = ''a''" by code_simp+
  then show "plan_maps [(''ann'', ''b'')] [(''ann'', ''a'')]" by (simp add: plan_maps_def wf_map_def)
qed (simp_all add: twoAccounts_def validateWriteFence_def)

end
