(* ===== verification/Catalog.thy ===== *)
theory Catalog
  imports Account_Lifecycle Routes Auth_Snapshot
begin

text \<open>
  The catalogue over its whole life: all operations of \<open>internal/controlplane\<close> that change
  accounts, users, keys, routes or internal keys, in any order, by any process, from an empty
  database. The rollback of a change (the \<open>Restore\<close> operations) comes after that change with
  nothing but the synchronisation of the internal keys in between, as in the admin process, which
  rolls a change back in the call that made it, under one lock (\<open>identityOperationLock\<close> of
  \<open>cmd/admin/main.go\<close>). A rollback after other changes of the catalogue is not a step, since it
  need not keep the invariant: the rollback of the deletion of an account knows nothing of the
  users created since, and that of a move nothing of accounts deleted since
  (\<open>late_route_rollback\<close>: the failover worker is a process of its own, without that lock). Its invariant is the key matrix the store's comments speak of: an active user has one
  key, with one row at each account; a key belongs to one user; there is one default account and it
  is enabled; rows and routes refer to accounts that exist.
\<close>

section \<open>Definitions\<close>

text \<open>The active rows of a user: none, or one at each account with one secret.\<close>

definition user_matrix :: "string list \<Rightarrow> string \<Rightarrow> key_rows \<Rightarrow> bool" where
  "user_matrix ids u active \<longleftrightarrow>
     active = [] \<or>
     (u \<noteq> [] \<and> distinct (map (kr_Account \<circ> snd) active) \<and> set (map (kr_Account \<circ> snd) active) = set ids \<and>
      (\<exists>key. key \<noteq> [] \<and> (\<forall>(s, k) \<in> set active. kr_Key k = key)))"

definition secrets_separate :: "key_rows \<Rightarrow> bool" where
  "secrets_separate rows \<longleftrightarrow>
     (\<forall>k \<in> snd ` set rows. \<forall>l \<in> snd ` set rows. kr_Key k = kr_Key l \<longrightarrow> sql_norm (kr_User k) = sql_norm (kr_User l))"

definition labelled :: "key_rows \<Rightarrow> bool" where
  "labelled rows \<longleftrightarrow> (\<forall>k \<in> snd ` set rows. kr_Label k = sql_norm (kr_User k) @ '':'' @ kr_Account k)"

definition matrix_ok :: "string list \<Rightarrow> key_rows \<Rightarrow> bool" where
  "matrix_ok ids rows \<longleftrightarrow> (\<forall>u. user_matrix ids u (activeKeyRows u rows)) \<and> secrets_separate rows \<and> labelled rows"

definition default_ok :: "account_rows \<Rightarrow> bool" where
  "default_ok rows \<longleftrightarrow>
     rows = [] \<or> (\<exists>r \<in> set rows. an_GroupEnabled (snd r) \<and> (\<forall>q \<in> set rows. an_DefaultGroup (snd q) \<longleftrightarrow> q = r))"

definition accounts_ok :: "account_rows \<Rightarrow> bool" where
  "accounts_ok rows \<longleftrightarrow> account_table rows \<and> default_ok rows \<and> (\<forall>i \<in> set (map (an_ID \<circ> snd) rows). accountIDPattern i)"

definition keys_ok :: "string list \<Rightarrow> key_rows \<Rightarrow> bool" where
  "keys_ok ids rows \<longleftrightarrow>
     key_table rows \<and> trimmed_users rows \<and> (\<forall>k \<in> snd ` set rows. kr_Account k \<in> set ids) \<and> matrix_ok ids rows"

definition routes_ok :: "string list \<Rightarrow> (string, string) gomap \<Rightarrow> bool" where
  "routes_ok ids routes \<longleftrightarrow> wf_map routes \<and> norm_names routes \<and> (\<forall>(u, a) \<in> set routes. a \<in> set ids)"

definition memberships_ok :: "string list \<Rightarrow> (string, UserMembershipState) gomap \<Rightarrow> bool" where
  "memberships_ok teams m \<longleftrightarrow>
     wf_map m \<and> norm_names m \<and> (\<forall>(e, s) \<in> set m. case um_TeamID s of None \<Rightarrow> True | Some t \<Rightarrow> t \<in> set teams)"

definition internal_ok :: "(string, InternalKey) gomap \<Rightarrow> bool" where
  "internal_ok i \<longleftrightarrow> wf_map i \<and> norm_names i \<and> internal_secrets i \<and> (\<forall>(u, k) \<in> set i. validInternalKey (ik_Key k))"

definition tags_ok :: "string list \<Rightarrow> (string \<times> UserTagState) list \<Rightarrow> bool" where
  "tags_ok ids tags \<longleftrightarrow>
     norm_names tags \<and> distinct (map (\<lambda>(e, t). (e, ut_TagID t)) tags) \<and> (\<forall>(e, t) \<in> set tags. ut_TagID t \<in> set ids)"

definition catalog_ok :: "controldb \<Rightarrow> bool" where
  "catalog_ok db \<longleftrightarrow>
     accounts_ok (cb_accounts db) \<and> keys_ok (accountIDs db) (cb_keys db) \<and> routes_ok (accountIDs db) (cb_routes db) \<and>
     memberships_ok (cb_teams db) (cb_memberships db) \<and> internal_ok (cb_internal db) \<and> tags_ok (cb_tag_ids db) (cb_tags db)"

text \<open>\<open>io.ReadFull\<close> of the random generator fills its 32 bytes or fails.\<close>

definition random_bytes :: "string option list \<Rightarrow> bool" where
  "random_bytes random \<longleftrightarrow> (\<forall>bs. Some bs \<in> set random \<longrightarrow> length bs = 32)"

text \<open>
  What the synchronisation of the internal keys writes while a change is published, and what it
  writes back when the publication fails.
\<close>

inductive internal_step :: "controldb \<Rightarrow> controldb \<Rightarrow> bool" where
  ensured: "EnsureInternalKeys tx now fence random users db = (r, db') \<Longrightarrow> random_bytes random \<Longrightarrow> internal_step db db'"
| put_back: "RestoreInternalKey tx now fence user previous db = (r, db') \<Longrightarrow>
     \<forall>k. previous = Some k \<longrightarrow> validInternalKey (ik_Key k) \<Longrightarrow> internal_step db db'"

text \<open>
  One operation by some process, whatever its outcome; or one that succeeded and was rolled back
  with the record of what it replaced, the internal keys synchronised in between.
\<close>

inductive catalog_step :: "parse_address \<Rightarrow> controldb \<Rightarrow> controldb \<Rightarrow> bool" for parse where
  user_created: "ApplyUserCreation tx now fence user key team db = (r, db') \<Longrightarrow> catalog_step parse db db'"
| user_revoked: "ApplyUserRevocation tx now fence user db = (r, db') \<Longrightarrow> catalog_step parse db db'"
| user_deleted: "ApplyUserDeletion tx now fence user revoke db = (r, db') \<Longrightarrow> catalog_step parse db db'"
| key_rotated: "ApplyUserKeyRotationExpected tx now fence user old new db = (r, db') \<Longrightarrow> catalog_step parse db db'"
| routes_moved: "ApplyRoutesExpected tx now fence assignments expected db = (r, db') \<Longrightarrow> catalog_step parse db db'"
| account_created: "ApplyAccountCreation parse tx now fence candidate db = (r, db') \<Longrightarrow> catalog_step parse db db'"
| account_updated: "ApplyAccountUpdate parse tx now fence request db = (r, db') \<Longrightarrow> catalog_step parse db db'"
| account_deleted: "ApplyAccountDeletion tx now fence rawID rawFallback revoke db = (r, db') \<Longrightarrow> catalog_step parse db db'"
| internal_keys: "EnsureInternalKeys tx now fence random users db = (r, db') \<Longrightarrow> random_bytes random \<Longrightarrow> catalog_step parse db db'"
| internal_restored: "RestoreInternalKey tx now fence user previous db = (r, db') \<Longrightarrow>
     \<forall>k. previous = Some k \<longrightarrow> validInternalKey (ik_Key k) \<Longrightarrow> catalog_step parse db db'"
| creation_undone: "ApplyUserCreation tx now fence user key team db = (Inr c, db1) \<Longrightarrow> internal_step\<^sup>*\<^sup>* db1 db2 \<Longrightarrow>
     RestoreUserCreation tx' now' fence' c db2 = (r, db') \<Longrightarrow> catalog_step parse db db'"
| revocation_undone: "ApplyUserRevocation tx now fence user db = (Inr v, db1) \<Longrightarrow> internal_step\<^sup>*\<^sup>* db1 db2 \<Longrightarrow>
     RestoreUserRevocation tx' now' fence' v db2 = (r, db') \<Longrightarrow> catalog_step parse db db'"
| deletion_undone: "ApplyUserDeletion tx now fence user revoke db = (Inr x, db1) \<Longrightarrow> internal_step\<^sup>*\<^sup>* db1 db2 \<Longrightarrow>
     RestoreUserDeletion tx' now' fence' x db2 = (r, db') \<Longrightarrow> catalog_step parse db db'"
| rotation_undone: "ApplyUserKeyRotationExpected tx now fence user old new db = (Inr rot, db1) \<Longrightarrow> internal_step\<^sup>*\<^sup>* db1 db2 \<Longrightarrow>
     RestoreUserKeyRotation tx' now' fence' rot db2 = (r, db') \<Longrightarrow> catalog_step parse db db'"
| move_undone: "plan_maps assignments expected \<Longrightarrow> ApplyRoutesExpected tx now fence assignments expected db = (Inr moved, db1) \<Longrightarrow> internal_step\<^sup>*\<^sup>* db1 db2 \<Longrightarrow>
     RestoreRoutesExpected tx' now' fence' expected assignments db2 = (r, db') \<Longrightarrow> catalog_step parse db db'"
| account_creation_undone: "ApplyAccountCreation parse tx now fence candidate db = (Inr ac, db1) \<Longrightarrow> internal_step\<^sup>*\<^sup>* db1 db2 \<Longrightarrow>
     RestoreAccountCreation tx' now' fence' ac db2 = (r, db') \<Longrightarrow> catalog_step parse db db'"
| account_update_undone: "ApplyAccountUpdate parse tx now fence request db = (Inr up, db1) \<Longrightarrow> internal_step\<^sup>*\<^sup>* db1 db2 \<Longrightarrow>
     RestoreAccountUpdate tx' now' fence' up db2 = (r, db') \<Longrightarrow> catalog_step parse db db'"
| account_deletion_undone: "ApplyAccountDeletion tx now fence rawID rawFallback revoke db = (Inr ad, db1) \<Longrightarrow> internal_step\<^sup>*\<^sup>* db1 db2 \<Longrightarrow>
     RestoreAccountDeletion tx' now' fence' ad db2 = (r, db') \<Longrightarrow> catalog_step parse db db'"

inductive_simps catalog_step_simps: "catalog_step parse db db'"

text \<open>An empty catalogue, with some teams and tags to choose from.\<close>

definition catalog_init :: "controldb \<Rightarrow> bool" where
  "catalog_init db \<longleftrightarrow>
     cb_accounts db = [] \<and> cb_keys db = [] \<and> cb_routes db = [] \<and> cb_internal db = [] \<and> cb_memberships db = [] \<and> cb_tags db = []"

inductive catalog_reachable :: "parse_address \<Rightarrow> controldb \<Rightarrow> bool" for parse where
  start: "catalog_init db \<Longrightarrow> catalog_reachable parse db"
| step: "catalog_reachable parse db \<Longrightarrow> catalog_step parse db db' \<Longrightarrow> catalog_reachable parse db'"

section \<open>Lemmas\<close>

lemma catalog_tables: "catalog_ok db \<Longrightarrow> account_tables db \<and> user_tables db"
  by (auto simp: catalog_ok_def accounts_ok_def keys_ok_def routes_ok_def memberships_ok_def internal_ok_def tags_ok_def
      account_tables_def user_tables_def)

lemma catalog_ok_init: "catalog_init db \<Longrightarrow> catalog_ok db"
  by (simp add: catalog_init_def catalog_ok_def accounts_ok_def keys_ok_def routes_ok_def memberships_ok_def internal_ok_def tags_ok_def
      account_table_def key_table_def trimmed_users_def wf_map_def norm_names_def
      internal_secrets_def matrix_ok_def user_matrix_def activeKeyRows_def secrets_separate_def labelled_def default_ok_def)

lemma norm_names_filter: "norm_names m \<Longrightarrow> norm_names (filter P m)"
  by (auto simp: norm_names_def)

lemma norm_names_update: "norm_names m \<Longrightarrow> sql_norm u = u \<Longrightarrow> norm_names (AList.update u v m)"
  unfolding norm_names_def by (induction m) auto

lemma wf_map_filter: "wf_map m \<Longrightarrow> wf_map (filter P m)"
  by (simp add: wf_map_def distinct_map_filter)

lemma routes_ok_filter: "routes_ok ids routes \<Longrightarrow> routes_ok ids (filter P routes)"
  by (auto simp: routes_ok_def norm_names_filter wf_map_filter)

lemma memberships_ok_filter: "memberships_ok teams m \<Longrightarrow> memberships_ok teams (filter P m)"
  by (auto simp: memberships_ok_def norm_names_filter wf_map_filter)

lemma internal_ok_filter:
  assumes "internal_ok i"
  shows "internal_ok (filter P i)"
proof -
  have wf: "wf_map i" "wf_map (filter P i)" using assms by (simp_all add: internal_ok_def wf_map_filter)
  have sub: "map_of i u = Some k" if "map_of (filter P i) u = Some k" for u k
    using that map_of_SomeD [OF that] wf(1) by (simp add: wf_map_map_of [symmetric])
  then have "internal_secrets (filter P i)"
    using assms unfolding internal_ok_def internal_secrets_def by blast
  then show ?thesis using assms wf by (auto simp: internal_ok_def norm_names_filter)
qed

lemma tags_ok_filter: "tags_ok ids tags \<Longrightarrow> tags_ok ids (filter P tags)"
  by (auto simp: tags_ok_def norm_names_filter distinct_map_filter)

lemma memberships_ok_update:
  assumes "memberships_ok teams m" "sql_norm u = u" "um_TeamID s = Some t" "t \<in> set teams"
  shows "memberships_ok teams (AList.update u s m)"
proof -
  have "set (AList.update u s m) \<subseteq> insert (u, s) (set m)" by (induction m) auto
  then show ?thesis using assms unfolding memberships_ok_def by (auto simp: norm_names_update)
qed

subsection \<open>Rows of the matrix\<close>

lemma user_matrix_cong:
  assumes "user_matrix ids u rows" "map (kr_Account \<circ> snd) rows' = map (kr_Account \<circ> snd) rows"
    and "\<forall>k \<in> snd ` set rows'. \<exists>l \<in> snd ` set rows. kr_Key k = kr_Key l"
  shows "user_matrix ids u rows'"
proof (cases "rows' = []")
  case False
  then have "rows \<noteq> []" using assms(2) by auto
  then obtain key where "key \<noteq> []" "\<forall>(s, k) \<in> set rows. kr_Key k = key" and r: "u \<noteq> []"
    "distinct (map (kr_Account \<circ> snd) rows)" "set (map (kr_Account \<circ> snd) rows) = set ids"
    using assms(1) by (auto simp: user_matrix_def)
  then have "\<forall>(s, k) \<in> set rows'. kr_Key k = key" using assms(3) by fastforce
  then show ?thesis unfolding user_matrix_def assms(2) using r \<open>key \<noteq> []\<close> by blast
qed (simp add: user_matrix_def)

lemma matrix_append:
  assumes "matrix_ok ids rows"
    and "\<forall>u. user_matrix ids' u (activeKeyRows u (rows @ new))"
    and "\<forall>k \<in> snd ` set new. kr_Label k = sql_norm (kr_User k) @ '':'' @ kr_Account k"
    and "\<forall>k \<in> snd ` set new. \<forall>l \<in> snd ` set (rows @ new). kr_Key k = kr_Key l \<longrightarrow> sql_norm (kr_User k) = sql_norm (kr_User l)"
  shows "matrix_ok ids' (rows @ new)"
proof -
  have "secrets_separate (rows @ new)" unfolding secrets_separate_def
  proof (intro ballI impI)
    fix k l assume k: "k \<in> snd ` set (rows @ new)" and l: "l \<in> snd ` set (rows @ new)" and e: "kr_Key k = kr_Key l"
    consider "k \<in> snd ` set new" | "l \<in> snd ` set new" | "k \<in> snd ` set rows" "l \<in> snd ` set rows" using k l by auto
    then show "sql_norm (kr_User k) = sql_norm (kr_User l)"
    proof cases
      case 1
      then show ?thesis using l e by (rule assms(4) [rule_format])
    next
      case 2
      then show ?thesis using assms(4) [rule_format, OF 2 k] e by simp
    next
      case 3
      then show ?thesis using assms(1) e unfolding matrix_ok_def secrets_separate_def by blast
    qed
  qed
  moreover have "labelled (rows @ new)"
    using assms(1,3) unfolding matrix_ok_def labelled_def set_append image_Un by blast
  ultimately show ?thesis using assms(2) by (simp add: matrix_ok_def)
qed

text \<open>Rows that lose their active status, or are deleted, but keep user, account, label and secret.\<close>

lemma matrix_shrink:
  assumes "matrix_ok ids rows" "\<forall>u. user_matrix ids' u (activeKeyRows u rows')"
    and "\<forall>k \<in> snd ` set rows'. \<exists>l \<in> snd ` set rows. kr_Label k = kr_Label l \<and> kr_User k = kr_User l \<and>
           kr_Account k = kr_Account l \<and> kr_Key k = kr_Key l"
  shows "matrix_ok ids' rows'"
proof -
  have "secrets_separate rows'" unfolding secrets_separate_def
  proof (intro ballI impI)
    fix k l assume "k \<in> snd ` set rows'" "l \<in> snd ` set rows'" "kr_Key k = kr_Key l"
    with assms(3) obtain k' l' where "k' \<in> snd ` set rows" "l' \<in> snd ` set rows" "kr_Key k' = kr_Key l'"
      "kr_User k = kr_User k'" "kr_User l = kr_User l'" by metis
    moreover from this have "sql_norm (kr_User k') = sql_norm (kr_User l')"
      using assms(1) unfolding matrix_ok_def secrets_separate_def by blast
    ultimately show "sql_norm (kr_User k) = sql_norm (kr_User l)" by simp
  qed
  moreover have "labelled rows'" unfolding labelled_def
  proof
    fix k assume "k \<in> snd ` set rows'"
    with assms(3) obtain l where l: "l \<in> snd ` set rows"
      and eq: "kr_Label k = kr_Label l" "kr_User k = kr_User l" "kr_Account k = kr_Account l" by blast
    show "kr_Label k = sql_norm (kr_User k) @ '':'' @ kr_Account k"
      using assms(1) l unfolding matrix_ok_def labelled_def eq by blast
  qed
  ultimately show ?thesis using assms(2) by (simp add: matrix_ok_def)
qed

lemma keys_okD:
  assumes "keys_ok ids rows" "(s, k) \<in> set rows"
  shows "kr_Account k \<in> set ids" "sql_norm (kr_User k) = to_lower (kr_User k)"
    "kr_Label k = sql_norm (kr_User k) @ '':'' @ kr_Account k"
proof -
  have k: "k \<in> snd ` set rows" using assms(2) by force
  show "kr_Account k \<in> set ids" "kr_Label k = sql_norm (kr_User k) @ '':'' @ kr_Account k"
    using assms(1) k unfolding keys_ok_def matrix_ok_def labelled_def by blast+
  show "sql_norm (kr_User k) = to_lower (kr_User k)"
    using assms unfolding keys_ok_def trimmed_users_def by blast
qed

lemma keys_ok_append:
  assumes "keys_ok ids rows" "set ids \<subseteq> set ids'"
    and m: "\<forall>u. user_matrix ids' u (activeKeyRows u rows @ activeKeyRows u (numbered (nextSequence rows) ks))"
    and k: "\<forall>k \<in> set ks. kr_Account k \<in> set ids' \<and> sql_norm (kr_User k) = kr_User k \<and> to_lower (kr_User k) = kr_User k \<and>
        kr_Label k = kr_User k @ '':'' @ kr_Account k"
    and s: "\<forall>k \<in> set ks. \<forall>l \<in> snd ` set rows \<union> set ks. kr_Key k = kr_Key l \<longrightarrow> kr_User k = sql_norm (kr_User l)"
  shows "keys_ok ids' (rows @ numbered (nextSequence rows) ks)"
proof -
  let ?new = "numbered (nextSequence rows) ks"
  have new: "snd ` set ?new = set ks" by (metis map_snd_numbered set_map)
  have "key_table (rows @ ?new)" using assms(1) by (intro key_table_numbered) (simp add: keys_ok_def)
  moreover have "trimmed_users (rows @ ?new)"
    using assms(1) k numbered_snd unfolding keys_ok_def trimmed_users_def by (fastforce dest: numbered_snd)
  moreover have "\<forall>k \<in> snd ` set (rows @ ?new). kr_Account k \<in> set ids'"
    using assms(1,2) k new unfolding keys_ok_def set_append image_Un by blast
  moreover have "matrix_ok ids' (rows @ ?new)"
  proof (rule matrix_append)
    show "matrix_ok ids rows" using assms(1) by (simp add: keys_ok_def)
    show "\<forall>u. user_matrix ids' u (activeKeyRows u (rows @ ?new))" using m by simp
    show "\<forall>k \<in> snd ` set ?new. kr_Label k = sql_norm (kr_User k) @ '':'' @ kr_Account k" using k unfolding new by auto
    show "\<forall>k \<in> snd ` set ?new. \<forall>l \<in> snd ` set (rows @ ?new). kr_Key k = kr_Key l \<longrightarrow> sql_norm (kr_User k) = sql_norm (kr_User l)"
    proof (intro ballI impI)
      fix k l assume "k \<in> snd ` set ?new" "l \<in> snd ` set (rows @ ?new)" "kr_Key k = kr_Key l"
      moreover from this have "kr_User k = sql_norm (kr_User l)" using s new unfolding set_append image_Un by blast
      ultimately show "sql_norm (kr_User k) = sql_norm (kr_User l)" using k new by metis
    qed
  qed
  ultimately show ?thesis by (simp add: keys_ok_def)
qed

text \<open>Marking the active rows of a user with another status.\<close>

lemma keys_ok_marked:
  fixes f :: "KeyRecord \<Rightarrow> KeyRecord"
  assumes "keys_ok ids rows" "\<And>k. \<not> isActive (f k)"
    and f: "\<And>k. kr_Label (f k) = kr_Label k \<and> kr_User (f k) = kr_User k \<and> kr_Account (f k) = kr_Account k \<and> kr_Key (f k) = kr_Key k"
  shows "keys_ok ids (updateKeys (\<lambda>s k. s \<in> set (map fst (activeKeyRows u rows)) \<and> isActive k) f rows)"
proof -
  let ?t = "updateKeys (\<lambda>s k. s \<in> set (map fst (activeKeyRows u rows)) \<and> isActive k) f rows"
  have kt: "key_table rows" using assms(1) by (simp add: keys_ok_def)
  have from_rows: "\<exists>l \<in> snd ` set rows. kr_Label k = kr_Label l \<and> kr_User k = kr_User l \<and> kr_Account k = kr_Account l \<and> kr_Key k = kr_Key l"
    if k: "k \<in> snd ` set ?t" for k
  proof -
    from k obtain s l where l: "(s, l) \<in> set rows" "k = f l \<or> k = l" by (fastforce simp: updateKeys_def split: if_splits)
    then have "l \<in> snd ` set rows" by force
    then show ?thesis using l(2) f by metis
  qed
  have "matrix_ok ids ?t"
  proof (rule matrix_shrink)
    show "matrix_ok ids rows" using assms(1) by (simp add: keys_ok_def)
    then show "\<forall>u. user_matrix ids u (activeKeyRows u ?t)"
      unfolding activeKeyRows_marked [OF kt assms(2)] by (simp add: matrix_ok_def user_matrix_def)
  qed (use from_rows in blast)
  moreover have "trimmed_users ?t" unfolding trimmed_users_def
  proof (intro ballI, clarify)
    fix s k assume "(s, k) \<in> set ?t"
    then have "k \<in> snd ` set ?t" by force
    from from_rows [OF this] obtain s' l where "(s', l) \<in> set rows" "kr_User k = kr_User l" by auto
    then show "sql_norm (kr_User k) = to_lower (kr_User k)" using keys_okD(2) [OF assms(1)] by simp
  qed
  moreover have "\<forall>k \<in> snd ` set ?t. kr_Account k \<in> set ids"
  proof
    fix k assume "k \<in> snd ` set ?t"
    from from_rows [OF this] obtain s' l where "(s', l) \<in> set rows" "kr_Account k = kr_Account l" by auto
    then show "kr_Account k \<in> set ids" using keys_okD(1) [OF assms(1)] by simp
  qed
  ultimately show ?thesis using kt by (simp add: keys_ok_def)
qed

lemma keys_ok_filter:
  assumes "keys_ok ids rows" "\<forall>u. user_matrix ids' u (activeKeyRows u (filter P rows))"
    and "\<forall>(s, k) \<in> set (filter P rows). kr_Account k \<in> set ids'"
  shows "keys_ok ids' (filter P rows)"
proof -
  have "matrix_ok ids' (filter P rows)"
  proof (rule matrix_shrink [of ids rows, OF _ assms(2)])
    have "snd ` set (filter P rows) \<subseteq> snd ` set rows" by auto
    then show "\<forall>k \<in> snd ` set (filter P rows). \<exists>l \<in> snd ` set rows. kr_Label k = kr_Label l \<and> kr_User k = kr_User l \<and>
        kr_Account k = kr_Account l \<and> kr_Key k = kr_Key l" by blast
  qed (use assms(1) in \<open>simp add: keys_ok_def\<close>)
  moreover have "key_table (filter P rows)"
    using assms(1) by (simp add: keys_ok_def key_table_def sorted_filter distinct_map_filter)
  ultimately show ?thesis using assms(1,3) by (auto simp: keys_ok_def trimmed_users_def)
qed

lemma norm_user_lower [simp]: "to_lower (norm_user u) = norm_user u"
  by (simp add: norm_user_def)

lemma numbered_map: "map (f \<circ> snd) (numbered n ks) = map f ks"
  unfolding map_map [symmetric] map_snd_numbered ..

lemma userKeyRows_accounts: "map (kr_Account \<circ> snd) (userKeyRows now u key db) = accountIDs db"
  unfolding userKeyRows_def numbered_map by (simp add: accountIDs_def userKeyRow_def comp_def case_prod_beta)

lemma accountIDs_cong: "cb_accounts a = cb_accounts b \<Longrightarrow> accountIDs a = accountIDs b"
  by (simp add: accountIDs_def)

subsection \<open>Users\<close>

lemma user_created_ok:
  assumes c: "catalog_ok db" and a: "ApplyUserCreation tx now fence user apiKey team db = (Inr r, db')"
  shows "catalog_ok db'"
proof -
  define u key where "u = norm_user user" and "key = trim_space apiKey"
  note A = ApplyUserCreation_Inr [OF a, folded u_def key_def]
  have nm: "norm_names (cb_memberships db)" and mo: "memberships_ok (cb_teams db) (cb_memberships db)"
    and ko: "keys_ok (accountIDs db) (cb_keys db)" and at0: "account_table (cb_accounts db)"
    using c by (auto simp: catalog_ok_def memberships_ok_def accounts_ok_def)
  have u: "sql_norm u = u" "to_lower u = u" by (simp_all add: u_def)
  define ks where "ks = map (\<lambda>(p, a). userKeyRow now u key a) (cb_accounts db)"
  obtain m where m: "db' = db\<lparr>cb_memberships := m, cb_routes := deleteUserRows u (cb_routes db),
        cb_keys := cb_keys db @ userKeyRows now u key db\<rparr>"
    and none: "activeKeyRows u (cb_keys db) = []" and fresh: "\<forall>(s, k) \<in> set (cb_keys db). kr_Key k \<noteq> key"
    and mm: "(\<not> uc_TeamChanged r \<and> m = cb_memberships db) \<or>
     (uc_TeamChanged r \<and> uc_PreviousMembership r = map_of (cb_memberships db) u \<and>
      (\<exists>s t. m = AList.update u s (cb_memberships db) \<and> um_TeamID s = Some t \<and> t \<in> set (cb_teams db)))"
    by (rule creationTx_Inr [OF A(3) nm], rule that; assumption)
  have ks: "userKeyRows now u key db = numbered (nextSequence (cb_keys db)) ks" by (simp add: userKeyRows_def ks_def)
  have row: "\<forall>k \<in> set ks. kr_Account k \<in> set (accountIDs db) \<and> kr_User k = u \<and> kr_Key k = key \<and> isActive k \<and>
      kr_Label k = u @ '':'' @ kr_Account k"
    by (auto simp: ks_def userKeyRow_def accountIDs_def isActive_def)
  then have act: "activeKeyRows v (numbered (nextSequence (cb_keys db)) ks) = (if v = u then numbered (nextSequence (cb_keys db)) ks else [])" for v
    using u(1) by (intro activeKeyRows_numbered) auto
  have "keys_ok (accountIDs db) (cb_keys db @ numbered (nextSequence (cb_keys db)) ks)"
  proof (rule keys_ok_append [OF ko subset_refl])
    show "\<forall>v. user_matrix (accountIDs db) v (activeKeyRows v (cb_keys db) @ activeKeyRows v (numbered (nextSequence (cb_keys db)) ks))"
    proof
      fix v
      have "user_matrix (accountIDs db) u (userKeyRows now u key db)"
        unfolding user_matrix_def userKeyRows_accounts using A(1,2) at0 row numbered_snd unfolding ks
        by (auto simp: account_table_def accountIDs_eq)
      then show "user_matrix (accountIDs db) v (activeKeyRows v (cb_keys db) @ activeKeyRows v (numbered (nextSequence (cb_keys db)) ks))"
        unfolding act using none ko ks by (cases "v = u") (auto simp: keys_ok_def matrix_ok_def)
    qed
    show "\<forall>k \<in> set ks. \<forall>l \<in> snd ` set (cb_keys db) \<union> set ks. kr_Key k = kr_Key l \<longrightarrow> kr_User k = sql_norm (kr_User l)"
      using row fresh u(1) by fastforce
  qed (use row u in auto)
  moreover have "memberships_ok (cb_teams db) m" using mm mo memberships_ok_update [OF mo u(1)] by auto
  moreover have "accountIDs db' = accountIDs db" by (rule accountIDs_cong) (simp add: m)
  ultimately show ?thesis
    using c unfolding catalog_ok_def by (simp add: m ks deleteUserRows_def routes_ok_filter)
qed

lemma user_revoked_ok:
  assumes c: "catalog_ok db" and a: "ApplyUserRevocation tx now fence user db = (Inr r, db')"
  shows "catalog_ok db'"
proof -
  have ko: "keys_ok (accountIDs db) (cb_keys db)" and kt: "key_table (cb_keys db)"
    using c by (auto simp: catalog_ok_def keys_ok_def)
  have tx: "revocationTx now (norm_user user) db = Inr (r, db')" using ApplyUserRevocation_Inr [OF a] by simp
  note R = revocationTx_Inr(2) [OF tx kt]
  have "keys_ok (accountIDs db) (cb_keys db')"
    unfolding R using keys_ok_marked [OF ko, where f = "markRevoked now"] by (simp add: isActive_def markRevoked_def)
  moreover have "accountIDs db' = accountIDs db" by (rule accountIDs_cong) (simp add: R)
  ultimately show ?thesis using c unfolding catalog_ok_def by (simp add: R)
qed

lemma user_deleted_ok:
  assumes c: "catalog_ok db" and a: "ApplyUserDeletion tx now fence user revoke db = (Inr r, db')"
  shows "catalog_ok db'"
proof -
  define u where "u = norm_user user"
  have ko: "keys_ok (accountIDs db) (cb_keys db)" using c by (simp add: catalog_ok_def)
  have "deletionTx u revoke db = Inr (r, db')" using ApplyUserDeletion_Inr [OF a] by (simp add: u_def)
  then have D: "db' = db\<lparr>cb_keys := filter (\<lambda>(s, k). sql_norm (kr_User k) \<noteq> u) (cb_keys db),
      cb_routes := deleteUserRows u (cb_routes db), cb_tags := deleteUserRows u (cb_tags db),
      cb_memberships := deleteUserRows u (cb_memberships db), cb_internal := deleteUserRows u (cb_internal db)\<rparr>"
    by (auto simp: deletionTx_def Let_def deleteKeys_def split: if_splits)
  have act: "activeKeyRows v (filter (\<lambda>(s, k). sql_norm (kr_User k) \<noteq> u) rows) = (if v = u then [] else activeKeyRows v rows)" for v rows
    by (induction rows) (auto simp: activeKeyRows_def)
  have "keys_ok (accountIDs db) (filter (\<lambda>(s, k). sql_norm (kr_User k) \<noteq> u) (cb_keys db))"
  proof (rule keys_ok_filter [OF ko])
    show "\<forall>v. user_matrix (accountIDs db) v (activeKeyRows v (filter (\<lambda>(s, k). sql_norm (kr_User k) \<noteq> u) (cb_keys db)))"
      unfolding act using ko by (auto simp: keys_ok_def matrix_ok_def user_matrix_def)
  qed (use keys_okD(1) [OF ko] in auto)
  moreover have "accountIDs db' = accountIDs db" by (rule accountIDs_cong) (simp add: D)
  ultimately show ?thesis
    using c unfolding catalog_ok_def
    by (simp add: D deleteUserRows_def routes_ok_filter memberships_ok_filter internal_ok_filter tags_ok_filter)
qed

lemma key_rotated_ok:
  assumes c: "catalog_ok db" and a: "ApplyUserKeyRotationExpected tx now fence user old0 new0 db = (Inr r, db')"
  shows "catalog_ok db'"
proof -
  define u old new where "u = norm_user user" and "old = trim_space old0" and "new = trim_space new0"
  have tx: "rotationTx u old new now db = Inr (r, db')" and ne: "u \<noteq> []" "new \<noteq> []"
    using a by (auto simp: ApplyUserKeyRotationExpected_def Let_def u_def old_def new_def split: if_splits dest: controlTx_Inr(1))
  have u: "sql_norm u = u" "to_lower u = u" by (simp_all add: u_def)
  have ko: "keys_ok (accountIDs db) (cb_keys db)" and kt: "key_table (cb_keys db)" and di: "distinct (accountIDs db)"
    using c by (auto simp: catalog_ok_def keys_ok_def accounts_ok_def account_table_def accountIDs_eq)
  define rows where "rows = activeKeyRows u (cb_keys db)"
  define ks where "ks = map (replacementKey now u new \<circ> snd) rows"
  define marked where "marked = updateKeys (\<lambda>s k. s \<in> set (map fst rows) \<and> isActive k) (markRotated now) (cb_keys db)"
  note R = rotationTx_Inr [OF tx u(1), folded rows_def, folded ks_def, folded marked_def]
  have mo: "keys_ok (accountIDs db) marked"
    unfolding marked_def rows_def using keys_ok_marked [OF ko, where f = "markRotated now"]
    by (simp add: markRotated_def isActive_def)
  have seq: "nextSequence (cb_keys db) = nextSequence marked" by (simp add: marked_def)
  have am: "activeKeyRows v marked = (if v = u then [] else activeKeyRows v (cb_keys db))" for v
    unfolding marked_def rows_def by (rule activeKeyRows_marked [OF kt isActive_markRotated])
  have row: "kr_Account k \<in> set (accountIDs db) \<and> kr_User k = u \<and> kr_Key k = new \<and> isActive k \<and> kr_Label k = u @ '':'' @ kr_Account k"
    if "k \<in> set ks" for k
  proof -
    from that obtain s l where l: "(s, l) \<in> set (cb_keys db)" "sql_norm (kr_User l) = u" "k = replacementKey now u new l"
      by (auto simp: ks_def rows_def activeKeyRows_def)
    then show ?thesis using keys_okD [OF ko l(1)] by (simp add: replacementKey_def isActive_def)
  qed
  have act: "activeKeyRows v (numbered (nextSequence marked) ks) = (if v = u then numbered (nextSequence marked) ks else [])" for v
    using row u(1) by (intro activeKeyRows_numbered) auto
  have acc: "map (kr_Account \<circ> snd) (numbered (nextSequence marked) ks) = map (kr_Account \<circ> snd) rows"
    unfolding numbered_map by (simp add: ks_def)
  have "keys_ok (accountIDs db) (marked @ numbered (nextSequence marked) ks)"
  proof (rule keys_ok_append [OF mo subset_refl])
    show "\<forall>v. user_matrix (accountIDs db) v (activeKeyRows v marked @ activeKeyRows v (numbered (nextSequence marked) ks))"
    proof
      fix v
      have "set (map (kr_Account \<circ> snd) rows) = set (accountIDs db)"
      proof -
        have "(s, k) \<in> set rows \<Longrightarrow> kr_Account k \<in> set (accountIDs db)" for s k
          using keys_okD(1) [OF ko] by (auto simp: rows_def activeKeyRows_def)
        then show ?thesis using R(7) by force
      qed
      then have "user_matrix (accountIDs db) u (numbered (nextSequence marked) ks)"
        unfolding user_matrix_def acc using ne R(6) row numbered_snd by blast
      then show "user_matrix (accountIDs db) v (activeKeyRows v marked @ activeKeyRows v (numbered (nextSequence marked) ks))"
        unfolding act am using ko by (cases "v = u") (auto simp: keys_ok_def matrix_ok_def)
    qed
    have fresh: "kr_Key l \<noteq> new" if "l \<in> snd ` set marked" for l
    proof -
      from that obtain s k where "(s, k) \<in> set (cb_keys db)" "kr_Key l = kr_Key k"
        by (fastforce simp: marked_def updateKeys_def markRotated_def split: if_splits)
      then show ?thesis using R(5) by auto
    qed
    show "\<forall>k \<in> set ks. \<forall>l \<in> snd ` set marked \<union> set ks. kr_Key k = kr_Key l \<longrightarrow> kr_User k = sql_norm (kr_User l)"
      using row fresh u(1) by fastforce
  qed (use row u in auto)
  moreover have "accountIDs db' = accountIDs db" by (rule accountIDs_cong) (simp add: R(1))
  ultimately show ?thesis using c unfolding catalog_ok_def by (simp add: R(1) seq)
qed

subsection \<open>Routes and internal keys\<close>

lemma moveUsers_wf: "moveUsers n cur us res routes = (res', routes') \<Longrightarrow> wf_map routes \<Longrightarrow> wf_map routes'"
  by (induction n cur us res routes rule: moveUsers.induct) (auto simp: Let_def split: if_splits)

lemma normalizeAssignments_norm:
  "normalizeAssignments ex asg n e = Inr (n', e') \<Longrightarrow> \<forall>u \<in> set (keys n). sql_norm u = u \<Longrightarrow> \<forall>u \<in> set (keys n'). sql_norm u = u"
proof (induction ex asg n e rule: normalizeAssignments.induct)
  case (2 ex ru rt rest n e)
  then obtain x where "normalizeAssignments ex rest (AList.update (norm_user ru) (trim_space rt) n)
      (AList.update (norm_user ru) (trim_space x) e) = Inr (n', e')" and g: "\<not> (norm_user ru = [] \<or> trim_space rt = [])"
    "expectedRoute ex ru = Some x"
    by (auto simp: Let_def split: if_splits option.splits)
  moreover have "\<forall>u \<in> set (keys (AList.update (norm_user ru) (trim_space rt) n)). sql_norm u = u"
    using "2.prems"(2) by (auto simp: dom_update)
  ultimately show ?case using "2.IH" [OF refl refl g] by blast
qed simp

lemma routes_moved_ok:
  assumes c: "catalog_ok db" and a: "ApplyRoutesExpected tx now fence asg ex db = (Inr r, db')"
  shows "catalog_ok db'"
proof -
  obtain n x where nx: "normalizeAssignments ex asg [] [] = Inr (n, x)"
    using a by (auto simp: ApplyRoutesExpected_def split: sum.splits if_splits)
  show ?thesis
  proof (cases "n = []")
    case True
    then have "db' = db" using a nx by (simp add: ApplyRoutesExpected_def)
    then show ?thesis using c by simp
  next
    case False
    then have "applyRoutesTx n x db = Inr (r, db')"
      using a nx by (auto simp: ApplyRoutesExpected_def dest: controlTx_Inr(1))
    note A = applyRoutesTx_Inr [OF this]
    have ro: "routes_ok (accountIDs db) (cb_routes db)" using c by (simp add: catalog_ok_def)
    have wf: "wf_map (cb_routes db')"
      using ro \<open>applyRoutesTx n x db = Inr (r, db')\<close>
      by (auto simp: applyRoutesTx_def routes_ok_def split: option.splits sum.splits if_splits prod.splits dest: moveUsers_wf)
    have "sql_norm u = u \<and> a \<in> set (accountIDs db)" if m: "map_of (cb_routes db') u = Some a" for u a
    proof (cases "u \<in> set (keys n) \<and> gstring (cb_routes db) u \<noteq> gstring n u")
      case True
      then have "a = gstring n u" using A m by simp
      moreover have "gstring n u \<in> set (map snd n)"
      proof -
        from True obtain y where "map_of n u = Some y" by (cases "map_of n u") (auto simp: map_of_eq_None_iff)
        then show ?thesis using map_of_SomeD [of n u y] by (force simp: gstring_def)
      qed
      then have "gstring n u \<in> set (accountIDs db)" by (rule conjunct1 [OF A, rule_format])
      moreover have "sql_norm u = u" using True normalizeAssignments_norm [OF nx] by auto
      ultimately show ?thesis by simp
    next
      case False
      have "map_of (cb_routes db') u = (if u \<in> set (keys n) \<and> gstring (cb_routes db) u \<noteq> gstring n u
          then Some (gstring n u) else map_of (cb_routes db) u)" using A by blast
      then have "map_of (cb_routes db) u = Some a" using m unfolding if_not_P [OF False] by simp
      then have "(u, a) \<in> set (cb_routes db)" by (rule map_of_SomeD)
      then show ?thesis using ro by (auto simp: routes_ok_def norm_names_def)
    qed
    then have "routes_ok (accountIDs db) (cb_routes db')"
      using wf by (auto simp: routes_ok_def norm_names_def wf_map_map_of)
    moreover obtain routes where d: "db' = db\<lparr>cb_routes := routes\<rparr>" using A by blast
    moreover have "accountIDs db' = accountIDs db" by (rule accountIDs_cong) (simp add: d)
    ultimately show ?thesis using c unfolding catalog_ok_def by (simp add: d)
  qed
qed

lemma normalizedUsers_norm: "u \<in> set (normalizedUsers us) \<Longrightarrow> sql_norm u = u"
proof -
  assume "u \<in> set (normalizedUsers us)"
  then have "u \<in> set (map norm_user us)" by (auto simp: normalizedUsers_def set_dedup)
  then show ?thesis by auto
qed

lemma internal_keys_ok:
  assumes c: "catalog_ok db" and a: "EnsureInternalKeys tx now fence random users db = (Inr r, db')" and rb: "random_bytes random"
  shows "catalog_ok db'"
proof -
  have io: "wf_map (cb_internal db)" "internal_secrets (cb_internal db)" "norm_names (cb_internal db)"
    and valid: "\<And>u k. map_of (cb_internal db) u = Some k \<Longrightarrow> validInternalKey (ik_Key k)"
    using c by (auto simp: catalog_ok_def internal_ok_def dest!: map_of_SomeD)
  note E = EnsureInternalKeys_Inr [OF a io(1,2)]
  have "sql_norm u = u \<and> validInternalKey (ik_Key k)" if m: "map_of (cb_internal db') u = Some k" for u k
  proof (cases "u \<in> set (normalizedUsers users)")
    case True
    then have "ensured now (cb_internal db) random u k" using E(1) m by fastforce
    then have "validInternalKey (ik_Key k)"
    proof (cases "map_of (cb_internal db) u")
      case None
      then obtain raw where raw: "raw \<in> set random" "newInternalKey raw = Some (ik_Key k)"
        using \<open>ensured now (cb_internal db) random u k\<close> by (auto simp: ensured_def)
      then obtain bs where "raw = Some bs" by (auto simp: newInternalKey_def)
      then show ?thesis using raw rb newInternalKey_valid by (auto simp: random_bytes_def)
    next
      case (Some old)
      then show ?thesis using valid [OF Some] \<open>ensured now (cb_internal db) random u k\<close> by (auto simp: ensured_def)
    qed
    then show ?thesis using normalizedUsers_norm [OF True] by blast
  next
    case False
    then have "map_of (cb_internal db') u = map_option (\<lambda>k. k\<lparr>ik_Status := ''inactive''\<rparr>) (map_of (cb_internal db) u)"
      using E(2) by blast
    then obtain k' where k': "map_of (cb_internal db) u = Some k'" "ik_Key k = ik_Key k'"
      using m by (cases "map_of (cb_internal db) u") auto
    have "(u, k') \<in> set (cb_internal db)" using k'(1) by (rule map_of_SomeD)
    then show ?thesis using io(3) valid [OF k'(1)] k'(2) by (auto simp: norm_names_def)
  qed
  then have "internal_ok (cb_internal db')" using E(4,5) by (auto simp: internal_ok_def norm_names_def wf_map_map_of)
  moreover obtain i where d: "db' = db\<lparr>cb_internal := i\<rparr>" using E(3) by blast
  moreover have "accountIDs db' = accountIDs db" by (rule accountIDs_cong) (simp add: d)
  ultimately show ?thesis using c unfolding catalog_ok_def by (simp add: d)
qed

subsection \<open>Creating an account\<close>

lemma sql_trim_ends:
  assumes "sql_trim s \<noteq> []"
  shows "hd (sql_trim s) \<noteq> CHR '' ''" "last (sql_trim s) \<noteq> CHR '' ''"
proof -
  let ?P = "\<lambda>c. c = CHR '' ''"
  define t where "t = dropWhile ?P s"
  have s: "sql_trim s = rev (dropWhile ?P (rev t))" by (simp add: sql_trim_def t_def)
  then have ne: "dropWhile ?P (rev t) \<noteq> []" using assms by simp
  show "last (sql_trim s) \<noteq> CHR '' ''" unfolding s using hd_dropWhile [OF ne] by (simp add: last_rev)
  obtain p where p: "rev t = p @ dropWhile ?P (rev t)" by (metis takeWhile_dropWhile_id)
  then have "t = sql_trim s @ rev p" unfolding s by (metis rev_append rev_rev_ident)
  then have "hd t = hd (sql_trim s)" using assms by (metis hd_append2)
  moreover have "t \<noteq> []" using assms s by auto
  ultimately have "hd t = hd (sql_trim s)" "t \<noteq> []" by blast+
  then show "hd (sql_trim s) \<noteq> CHR '' ''" using hd_dropWhile [of ?P s] by (simp add: t_def)
qed

lemma sql_norm_idem [simp]: "sql_norm (sql_norm s) = sql_norm s"
proof -
  have "sql_trim (sql_norm s) = sql_norm s"
    using sql_trim_ends [of s] by (intro sql_trim_id) (auto simp: sql_norm_def to_lower_def hd_map last_map)
  then show ?thesis by (simp add: sql_norm_def)
qed

lemma to_lower_sql_norm [simp]: "to_lower (sql_norm s) = sql_norm s"
  by (simp add: sql_norm_def)

lemma user_matrix_snd: "map snd rows = map snd rows' \<Longrightarrow> user_matrix ids u rows = user_matrix ids u rows'"
proof -
  assume e: "map snd rows = map snd rows'"
  have m: "map (kr_Account \<circ> snd) rows = map (kr_Account \<circ> snd) rows'" unfolding map_map [symmetric] e ..
  have "(\<forall>(s, k) \<in> set xs. kr_Key k = key) \<longleftrightarrow> (\<forall>k \<in> set (map snd xs). kr_Key k = key)" for xs :: key_rows and key by auto
  moreover have "rows = [] \<longleftrightarrow> rows' = []" using e by auto
  ultimately show ?thesis unfolding user_matrix_def m by (simp only: e)
qed

lemma accountKeyRecords_Inr:
  assumes "accountKeyRecords now a rows us = Inr ks"
  shows "ks = map (\<lambda>u. userKeyRow now u (hd (userSecrets u rows)) a) us"
    "\<forall>u \<in> set us. u \<noteq> [] \<and> length (userSecrets u rows) = 1 \<and> hd (userSecrets u rows) \<noteq> []"
  using assms by (induction us arbitrary: ks) (auto split: if_splits sum.splits)

lemma in_activeUsers: "u \<in> set (activeUsers rows) \<longleftrightarrow> activeKeyRows u rows \<noteq> []"
  by (induction rows) (auto simp: activeUsers_def activeKeyRows_def)

lemma activeKeyRows_records:
  assumes "distinct us" "\<forall>u \<in> set us. sql_norm (kr_User (g u)) = u \<and> isActive (g u)"
  shows "map snd (activeKeyRows v (numbered n (map g us))) = (if v \<in> set us then [g v] else [])"
  using assms by (induction us arbitrary: n) (auto simp: activeKeyRows_def)

text \<open>The one secret of an active user.\<close>

lemma userSecret:
  assumes "user_matrix ids u (activeKeyRows u rows)" "activeKeyRows u rows \<noteq> []"
  shows "\<forall>(s, k) \<in> set (activeKeyRows u rows). kr_Key k = hd (userSecrets u rows)"
proof -
  obtain key where k: "\<forall>(s, k) \<in> set (activeKeyRows u rows). kr_Key k = key" using assms by (auto simp: user_matrix_def)
  then have "set (map (kr_Key \<circ> snd) (activeKeyRows u rows)) = {key}" using assms(2) by (cases "activeKeyRows u rows") force+
  then have "set (userSecrets u rows) = {key}" by (simp add: userSecrets_def)
  then have "hd (userSecrets u rows) = key" using hd_in_set [of "userSecrets u rows"] by fastforce
  then show ?thesis using k by simp
qed

lemma account_table_append:
  assumes "account_table rows" "\<not> accountClash a rows"
  shows "account_table (rows @ [(nextPosition rows, a)])"
proof -
  have "\<forall>p \<in> set (map fst rows). p < nextPosition rows" using nextPosition_greater by blast
  moreover have "an_ID a \<notin> set (map (an_ID \<circ> snd) rows)" "an_Email a \<notin> set (map (an_Email \<circ> snd) rows)"
    "an_Port a \<notin> set (map (an_Port \<circ> snd) rows)"
    using assms(2) unfolding accountClash_iff by force+
  ultimately show ?thesis using assms(1) by (force simp: account_table_def sorted_append)
qed

lemma account_created_ok:
  assumes c: "catalog_ok db" and a: "ApplyAccountCreation parse tx now fence candidate db = (Inr r, db')"
  shows "catalog_ok db'"
proof -
  obtain cand where en: "an_GroupEnabled cand" "accountIDPattern (an_ID cand)" and tx: "accountCreationTx now cand db = Inr (r, db')"
  proof (rule ApplyAccountCreation_Inr [OF a])
    fix ident email mode created
    assume n: "NormalizeAccountID (an_ID candidate) = Some ident"
      and x: "accountCreationTx now (candidate\<lparr>an_ID := ident, an_Email := email, an_ProxyMode := mode,
         an_CreatedAt := created, an_GroupEnabled := True\<rparr>) db = Inr (r, db')"
    have "accountIDPattern ident" using NormalizeAccountID_Some [OF n] by blast
    then show thesis by (intro that [OF _ _ x]) simp_all
  qed
  have tab: "account_table (cb_accounts db)" and ko: "keys_ok (accountIDs db) (cb_keys db)" and dk: "default_ok (cb_accounts db)"
    using c by (auto simp: catalog_ok_def accounts_ok_def)
  define account where "account = cand\<lparr>an_DefaultGroup := (cb_accounts db = [])\<rparr>"
  define rows where "rows = cb_keys db"
  obtain records where rec: "accountKeyRecords now account rows (activeUsers rows) = Inr records"
    and db': "db' = db\<lparr>cb_accounts := cb_accounts db @ [(nextPosition (cb_accounts db), account)],
              cb_keys := rows @ numbered (nextSequence rows) records\<rparr>"
    and new: "\<not> accountClash account (cb_accounts db)"
    using accountCreationTx_Inr [OF tx tab] unfolding account_def rows_def by metis
  let ?g = "\<lambda>u. userKeyRow now u (hd (userSecrets u rows)) account"
  let ?ids = "accountIDs db @ [an_ID account]"
  note Rec = accountKeyRecords_Inr [OF rec]
  have ids: "accountIDs db' = ?ids" by (simp add: accountIDs_eq db')
  have fresh: "an_ID account \<notin> set (accountIDs db)" using new unfolding accountClash_iff accountIDs_eq by force
  have mat: "user_matrix (accountIDs db) v (activeKeyRows v rows)" and sep: "secrets_separate rows" for v
    using ko by (simp_all add: rows_def keys_ok_def matrix_ok_def)
  have us: "distinct (activeUsers rows)" "\<And>u. u \<in> set (activeUsers rows) \<Longrightarrow> sql_norm u = u \<and> to_lower u = u"
    by (auto simp: activeUsers_def)
  have g: "kr_User (?g u) = u" "isActive (?g u)" "kr_Account (?g u) = an_ID account" "kr_Label (?g u) = u @ '':'' @ an_ID account"
    "kr_Key (?g u) = hd (userSecrets u rows)" for u
    by (simp_all add: userKeyRow_def isActive_def)
  have owner: "sql_norm (kr_User l) = u" if "u \<in> set (activeUsers rows)" "l \<in> snd ` set rows" "kr_Key l = hd (userSecrets u rows)" for u l
  proof -
    from that(1) have ne: "activeKeyRows u rows \<noteq> []" by (simp add: in_activeUsers)
    then obtain s k where k: "(s, k) \<in> set (activeKeyRows u rows)" by (cases "activeKeyRows u rows") auto
    then have "k \<in> snd ` set rows" "sql_norm (kr_User k) = u" "kr_Key k = hd (userSecrets u rows)"
      using userSecret [OF mat ne] by (force simp: activeKeyRows_def)+
    then show ?thesis using sep that(2,3) unfolding secrets_separate_def by metis
  qed
  have "keys_ok ?ids (rows @ numbered (nextSequence rows) records)"
  proof (rule keys_ok_append [of "accountIDs db"])
    show "keys_ok (accountIDs db) rows" using ko by (simp add: rows_def)
    show "\<forall>k \<in> set records. kr_Account k \<in> set ?ids \<and> sql_norm (kr_User k) = kr_User k \<and> to_lower (kr_User k) = kr_User k \<and>
        kr_Label k = kr_User k @ '':'' @ kr_Account k"
      unfolding Rec(1) set_map using us(2) g by auto
    show "\<forall>k \<in> set records. \<forall>l \<in> snd ` set rows \<union> set records. kr_Key k = kr_Key l \<longrightarrow> kr_User k = sql_norm (kr_User l)"
    proof (intro ballI impI)
      fix k l assume k: "k \<in> set records" and l: "l \<in> snd ` set rows \<union> set records" and e: "kr_Key k = kr_Key l"
      from k obtain u where u: "u \<in> set (activeUsers rows)" "k = ?g u" unfolding Rec(1) by auto
      obtain l' where "l' \<in> snd ` set rows" "kr_Key l' = kr_Key l" "sql_norm (kr_User l') = sql_norm (kr_User l)"
      proof (cases "l \<in> snd ` set rows")
        case False
        then obtain w where w: "w \<in> set (activeUsers rows)" "l = ?g w" using l unfolding Rec(1) by auto
        then have ne: "activeKeyRows w rows \<noteq> []" by (simp add: in_activeUsers)
        then obtain s k where "(s, k) \<in> set (activeKeyRows w rows)" by (cases "activeKeyRows w rows") auto
        then have "k \<in> snd ` set rows" "sql_norm (kr_User k) = w" "kr_Key k = hd (userSecrets w rows)"
          using userSecret [OF mat ne] by (force simp: activeKeyRows_def)+
        then show thesis using w us(2) g(1,5) by (intro that [of k]) simp_all
      qed (use that in blast)
      moreover have "kr_User k = u" "kr_Key k = hd (userSecrets u rows)" unfolding u(2) by (rule g)+
      ultimately show "kr_User k = sql_norm (kr_User l)" using owner [OF u(1), of l'] e by simp
    qed
    show "\<forall>v. user_matrix ?ids v (activeKeyRows v rows @ activeKeyRows v (numbered (nextSequence rows) records))"
    proof
      fix v
      have snds: "map snd (activeKeyRows v rows @ activeKeyRows v (numbered (nextSequence rows) records)) =
          map snd (activeKeyRows v rows) @ (if v \<in> set (activeUsers rows) then [?g v] else [])"
        unfolding Rec(1) map_append using us g by (subst activeKeyRows_records) auto
      show "user_matrix ?ids v (activeKeyRows v rows @ activeKeyRows v (numbered (nextSequence rows) records))"
      proof (cases "activeKeyRows v rows = []")
        case True
        then have e: "map snd (activeKeyRows v rows @ activeKeyRows v (numbered (nextSequence rows) records)) = map snd []"
          unfolding snds in_activeUsers by simp
        show ?thesis unfolding user_matrix_snd [OF e] by (simp add: user_matrix_def)
      next
        case False
        then have e: "map snd (activeKeyRows v rows @ activeKeyRows v (numbered (nextSequence rows) records)) =
            map snd (activeKeyRows v rows @ [(0, ?g v)])" unfolding snds in_activeUsers by simp
        have old: "v \<noteq> []" "distinct (map (kr_Account \<circ> snd) (activeKeyRows v rows))"
          "set (map (kr_Account \<circ> snd) (activeKeyRows v rows)) = set (accountIDs db)"
          using mat [of v] False unfolding user_matrix_def by blast+
        have "map (kr_Account \<circ> snd) (activeKeyRows v rows @ [(0, ?g v)]) = map (kr_Account \<circ> snd) (activeKeyRows v rows) @ [an_ID account]"
          using g(3) by simp
        moreover have "hd (userSecrets v rows) \<noteq> []" using Rec(2) False in_activeUsers by blast
        moreover have "\<forall>(s, k) \<in> set (activeKeyRows v rows @ [(0, ?g v)]). kr_Key k = hd (userSecrets v rows)"
          using userSecret [OF mat False] g(5) by auto
        moreover have "distinct (map (kr_Account \<circ> snd) (activeKeyRows v rows) @ [an_ID account])"
          "set (map (kr_Account \<circ> snd) (activeKeyRows v rows) @ [an_ID account]) = set ?ids"
          using old(2,3) fresh by simp_all
        ultimately have "user_matrix ?ids v (activeKeyRows v rows @ [(0, ?g v)])"
          unfolding user_matrix_def using old(1) by metis
        then show ?thesis unfolding user_matrix_snd [OF e] .
      qed
    qed
  qed auto
  moreover have "accounts_ok (cb_accounts db @ [(nextPosition (cb_accounts db), account)])"
  proof -
    have "default_ok (cb_accounts db @ [(nextPosition (cb_accounts db), account)])"
    proof (cases "cb_accounts db = []")
      case True
      then show ?thesis using en by (simp add: default_ok_def account_def)
    next
      case False
      then obtain d where "d \<in> set (cb_accounts db)" "an_GroupEnabled (snd d)" "\<forall>q \<in> set (cb_accounts db). an_DefaultGroup (snd q) \<longleftrightarrow> q = d"
        using dk by (auto simp: default_ok_def)
      moreover have "(nextPosition (cb_accounts db), account) \<noteq> d" using \<open>d \<in> set (cb_accounts db)\<close> fresh by (force simp: accountIDs_eq)
      ultimately show ?thesis using False unfolding default_ok_def by (auto simp: account_def)
    qed
    then show ?thesis using account_table_append [OF tab new] c en(2) by (auto simp: accounts_ok_def catalog_ok_def account_def)
  qed
  moreover have "routes_ok ?ids (cb_routes db)" using c by (auto simp: catalog_ok_def routes_ok_def)
  ultimately show ?thesis using c unfolding catalog_ok_def ids by (simp add: db')
qed

subsection \<open>Changing an account\<close>

lemma in_enabledOthers:
  "x \<in> set (enabledOthers ident rows) \<longleftrightarrow> (\<exists>r \<in> set rows. an_ID (snd r) = x \<and> an_ID (snd r) \<noteq> ident \<and> an_GroupEnabled (snd r))"
  by (auto simp: enabledOthers_def case_prod_beta)

text \<open>Setting the default to an enabled account.\<close>

lemma default_ok_set:
  assumes "distinct (map (an_ID \<circ> snd) rows)" "r \<in> set rows" "an_ID (snd r) = x" "an_GroupEnabled (snd r)"
  shows "default_ok (setDefault x rows)"
proof -
  let ?f = "\<lambda>(p, a). (p, a\<lparr>an_DefaultGroup := (an_ID a = x)\<rparr>)"
  have s: "setDefault x rows = map ?f rows" by (simp add: setDefault_def)
  have one: "q = r" if "q \<in> set rows" "an_ID (snd q) = x" for q
    using inj_onD [of "an_ID \<circ> snd" "set rows" q r] that assms(1-3) by (simp add: distinct_map)
  have "an_DefaultGroup (snd (?f q)) \<longleftrightarrow> ?f q = ?f r" if q: "q \<in> set rows" for q
  proof
    assume "an_DefaultGroup (snd (?f q))"
    then have "an_ID (snd q) = x" by (cases q) simp
    then show "?f q = ?f r" using one [OF q] by simp
  next
    assume "?f q = ?f r"
    then show "an_DefaultGroup (snd (?f q))" using assms(3) by (cases r) simp
  qed
  then have "?f r \<in> set (setDefault x rows) \<and> an_GroupEnabled (snd (?f r)) \<and>
      (\<forall>q \<in> set (setDefault x rows). an_DefaultGroup (snd q) \<longleftrightarrow> q = ?f r)"
    unfolding s using assms(2,4) by (cases r) auto
  then show ?thesis unfolding default_ok_def by blast
qed

lemma account_table_same:
  assumes "account_table rows" "list_all2 same_but_default rows' rows"
  shows "account_table rows'"
proof -
  have "map fst rows' = map fst rows" "map (an_ID \<circ> snd) rows' = map (an_ID \<circ> snd) rows"
    "map (an_Email \<circ> snd) rows' = map (an_Email \<circ> snd) rows" "map (an_Port \<circ> snd) rows' = map (an_Port \<circ> snd) rows"
    using assms(2) by (induction rule: list_all2_induct) (auto dest: same_but_default_fields)
  then show ?thesis using assms(1) by (simp add: account_table_def)
qed

lemma routes_ok_rerouteAll:
  assumes "routes_ok ids routes" "goal \<in> set ids'" "\<forall>x \<in> set ids. x \<noteq> ident \<longrightarrow> x \<in> set ids'"
  shows "routes_ok ids' (rerouteAll ident goal routes)"
  using assms by (auto simp: routes_ok_def norm_names_def rerouteAll_def wf_map_def comp_def case_prod_beta)

lemma account_deleted_ok:
  assumes c: "catalog_ok db" and a: "ApplyAccountDeletion tx now fence rawID rawFallback revoke db = (Inr r, db')"
  shows "catalog_ok db'"
proof -
  obtain ident fallbackID where tx: "accountDeletionTx ident fallbackID revoke db = Inr (r, db')"
    by (rule ApplyAccountDeletion_Inr [OF a])
  have tab: "account_table (cb_accounts db)" and ko: "keys_ok (accountIDs db) (cb_keys db)" and df: "default_ok (cb_accounts db)"
    and ro: "routes_ok (accountIDs db) (cb_routes db)"
    using c by (auto simp: catalog_ok_def accounts_ok_def)
  from tx obtain account fallback where acc: "readStoredAccount ident db = Some account"
    and fb: "fallback \<in> set (enabledOthers ident (cb_accounts db))"
    and db': "db' = db\<lparr>cb_routes := rerouteAll ident fallback (cb_routes db),
       cb_accounts := filter (\<lambda>(p, a). an_ID a \<noteq> ident)
         (if an_DefaultGroup (snd account) then setDefault fallback (cb_accounts db) else cb_accounts db),
       cb_keys := deleteKeys (\<lambda>s k. kr_Account k = ident) (cb_keys db)\<rparr>"
    by (rule accountDeletionTx_Inr)
  define rows where "rows = (if an_DefaultGroup (snd account) then setDefault fallback (cb_accounts db) else cb_accounts db)"
  have account: "account \<in> set (cb_accounts db)" "an_ID (snd account) = ident"
    using acc by (auto simp: readStoredAccount_def dest: find_SomeD)
  have same: "list_all2 same_but_default rows (cb_accounts db)"
    unfolding rows_def by (simp add: setDefault_same list.rel_refl_strong)
  have tr: "account_table rows" by (rule account_table_same [OF tab same])
  have "map (an_ID \<circ> snd) (filter (\<lambda>(p, a). an_ID a \<noteq> ident) rows) = filter (\<lambda>x. x \<noteq> ident) (map (an_ID \<circ> snd) rows)"
    by (induction rows) auto
  then have ids: "accountIDs db' = filter (\<lambda>x. x \<noteq> ident) (accountIDs db)"
    by (simp add: accountIDs_eq db' rows_def [symmetric] same_but_default_maps(1) [OF same])
  obtain f where f: "f \<in> set (cb_accounts db)" "an_ID (snd f) = fallback" "fallback \<noteq> ident" "an_GroupEnabled (snd f)"
    using fb unfolding in_enabledOthers by blast
  have "default_ok rows \<and> (\<forall>q \<in> set rows. an_DefaultGroup (snd q) \<longrightarrow> an_ID (snd q) \<noteq> ident)"
  proof (cases "an_DefaultGroup (snd account)")
    case True
    have "default_ok (setDefault fallback (cb_accounts db))"
      using tab f by (intro default_ok_set [of _ f]) (auto simp: account_table_def)
    then show ?thesis using True f(3) by (auto simp: rows_def setDefault_def)
  next
    case False
    have "an_ID (snd q) \<noteq> ident" if "q \<in> set (cb_accounts db)" "an_DefaultGroup (snd q)" for q
    proof
      assume "an_ID (snd q) = ident"
      then have "q = account" using account_row_unique [OF tab, of "fst q" "snd q" "fst account" "snd account"] that(1) account
        by (simp add: prod_eq_iff)
      then show False using that(2) False by simp
    qed
    then show ?thesis using False df by (auto simp: rows_def)
  qed
  moreover have ne: "rows \<noteq> []" using account(1) same by (auto simp: list_all2_Nil)
  ultimately obtain d where "d \<in> set rows" "an_GroupEnabled (snd d)" "\<forall>q \<in> set rows. an_DefaultGroup (snd q) \<longleftrightarrow> q = d"
    "an_ID (snd d) \<noteq> ident" unfolding default_ok_def by blast
  then have "d \<in> set (filter (\<lambda>(p, a). an_ID a \<noteq> ident) rows) \<and> an_GroupEnabled (snd d) \<and>
      (\<forall>q \<in> set (filter (\<lambda>(p, a). an_ID a \<noteq> ident) rows). an_DefaultGroup (snd q) \<longleftrightarrow> q = d)" by auto
  then have "default_ok (filter (\<lambda>(p, a). an_ID a \<noteq> ident) rows)" unfolding default_ok_def by blast
  moreover have "account_table (filter (\<lambda>(p, a). an_ID a \<noteq> ident) rows)"
    using tr by (simp add: account_table_def sorted_filter distinct_map_filter)
  moreover have "keys_ok (accountIDs db') (filter (\<lambda>(s, k). kr_Account k \<noteq> ident) (cb_keys db))"
  proof (rule keys_ok_filter [OF ko])
    have eq: "activeKeyRows v (filter (\<lambda>(s, k). kr_Account k \<noteq> ident) xs) = filter (\<lambda>(s, k). kr_Account k \<noteq> ident) (activeKeyRows v xs)" for v xs
      by (induction xs) (auto simp: activeKeyRows_def)
    have "user_matrix (accountIDs db') v (filter (\<lambda>(s, k). kr_Account k \<noteq> ident) xs)" if "user_matrix (accountIDs db) v xs" for v xs
    proof -
      have m: "map (kr_Account \<circ> snd) (filter (\<lambda>(s, k). kr_Account k \<noteq> ident) xs) = filter (\<lambda>x. x \<noteq> ident) (map (kr_Account \<circ> snd) xs)"
        by (induction xs) auto
      have "set (map (kr_Account \<circ> snd) xs) = set (accountIDs db) \<Longrightarrow>
          set (filter (\<lambda>x. x \<noteq> ident) (map (kr_Account \<circ> snd) xs)) = set (accountIDs db')" unfolding ids by auto
      then show ?thesis using that unfolding user_matrix_def m by auto
    qed
    then show "\<forall>v. user_matrix (accountIDs db') v (activeKeyRows v (filter (\<lambda>(s, k). kr_Account k \<noteq> ident) (cb_keys db)))"
      using ko unfolding eq by (auto simp: keys_ok_def matrix_ok_def)
    show "\<forall>(s, k) \<in> set (filter (\<lambda>(s, k). kr_Account k \<noteq> ident) (cb_keys db)). kr_Account k \<in> set (accountIDs db')"
      unfolding ids using keys_okD(1) [OF ko] by auto
  qed
  moreover have "routes_ok (accountIDs db') (rerouteAll ident fallback (cb_routes db))"
  proof (rule routes_ok_rerouteAll [OF ro])
    have "fallback \<in> set (accountIDs db)" using f(1,2) by (auto simp: accountIDs_eq)
    then show "fallback \<in> set (accountIDs db')" using f(3) by (simp add: ids)
  qed (simp add: ids)
  moreover have "\<forall>i \<in> set (accountIDs db'). accountIDPattern i"
    using c unfolding ids by (auto simp: catalog_ok_def accounts_ok_def accountIDs_eq)
  ultimately show ?thesis
    using c unfolding catalog_ok_def accounts_ok_def by (simp add: db' rows_def [symmetric] deleteKeys_def accountIDs_eq)
qed

lemma settleFallback_in:
  assumes "fallbackID = [] \<or> fallbackID \<in> set (enabledOthers ident rows)"
    and "settleFallback ident fallbackID enabled isDefault before rows \<noteq> []"
  shows "settleFallback ident fallbackID enabled isDefault before rows \<in> set (enabledOthers ident rows)"
  using assms defaultFallback_in [of ident rows] by (auto simp: settleFallback_def split: if_splits)

lemma defaultFallback_found:
  assumes "enabledOthers ident rows \<noteq> []" "[] \<notin> set (enabledOthers ident rows)"
  shows "defaultFallback ident rows \<noteq> []"
proof -
  have "hd (enabledOthers ident rows) \<noteq> []" using hd_in_set [OF assms(1)] assms(2) by metis
  then show ?thesis using assms(1) by (auto simp: defaultFallback_def Let_def)
qed

lemma keys_ok_renamed:
  assumes ko: "keys_ok ids rows" and di: "distinct ids" and new: "newID = ident \<or> newID \<notin> set ids"
  defines "\<rho> \<equiv> \<lambda>x. if x = ident then newID else x"
  shows "keys_ok (map \<rho> ids) (updateKeys (\<lambda>s k. kr_Account k = ident) (renameKey newID email) rows)"
proof -
  let ?f = "\<lambda>k. if kr_Account k = ident then renameKey newID email k else k"
  let ?t = "updateKeys (\<lambda>s k. kr_Account k = ident) (renameKey newID email) rows"
  have t: "?t = map (\<lambda>(s, k). (s, ?f k)) rows" unfolding updateKeys_def by (rule map_cong) auto
  have f: "kr_User (?f k) = kr_User k" "kr_Key (?f k) = kr_Key k" "isActive (?f k) = isActive k" "kr_Account (?f k) = \<rho> (kr_Account k)" for k
    by (simp_all add: renameKey_def isActive_def \<rho>_def)
  have inj: "inj_on \<rho> (set ids)" using new by (auto simp: inj_on_def \<rho>_def)
  have act: "activeKeyRows v (map (\<lambda>(s, k). (s, ?f k)) xs) = map (\<lambda>(s, k). (s, ?f k)) (activeKeyRows v xs)" for v xs
    using f by (induction xs) (auto simp: activeKeyRows_def)
  have mat: "user_matrix (map \<rho> ids) v (map (\<lambda>(s, k). (s, ?f k)) xs)" if u: "user_matrix ids v xs" for v xs
  proof (cases "xs = []")
    case False
    have m: "map (kr_Account \<circ> snd) (map (\<lambda>(s, k). (s, ?f k)) xs) = map \<rho> (map (kr_Account \<circ> snd) xs)"
      using f(4) by (simp add: case_prod_beta)
    obtain key where k: "key \<noteq> []" "\<forall>(s, k) \<in> set xs. kr_Key k = key" and o: "v \<noteq> []" "distinct (map (kr_Account \<circ> snd) xs)"
      "set (map (kr_Account \<circ> snd) xs) = set ids"
      using u False unfolding user_matrix_def by blast
    have "distinct (map \<rho> (map (kr_Account \<circ> snd) xs))" using o(2) inj by (subst distinct_map) (simp only: o(3) simp_thms)
    moreover have "set (map \<rho> (map (kr_Account \<circ> snd) xs)) = set (map \<rho> ids)" using o(3) by (simp only: set_map)
    moreover have "\<forall>(s, k) \<in> set (map (\<lambda>(s, k). (s, ?f k)) xs). kr_Key k = key" using k(2) f(2) by auto
    ultimately show ?thesis unfolding user_matrix_def m using k(1) o(1) by (intro disjI2 conjI exI [of _ key])
  qed (simp add: user_matrix_def)
  have row: "\<exists>l. (s, l) \<in> set rows \<and> k = ?f l" if "(s, k) \<in> set ?t" for s k using that unfolding t by auto
  have "\<forall>v. user_matrix (map \<rho> ids) v (activeKeyRows v ?t)"
    using mat ko unfolding t act keys_ok_def matrix_ok_def by blast
  moreover have "labelled ?t" unfolding labelled_def
  proof
    fix k assume "k \<in> snd ` set ?t"
    then obtain s l where l: "(s, l) \<in> set rows" "k = ?f l" using row by fastforce
    show "kr_Label k = sql_norm (kr_User k) @ '':'' @ kr_Account k"
    proof (cases "kr_Account l = ident")
      case True
      then show ?thesis unfolding l(2) by (simp add: renameKey_def)
    next
      case False
      show ?thesis unfolding l(2) if_not_P [OF False] using keys_okD(3) [OF ko l(1)] .
    qed
  qed
  moreover have "secrets_separate ?t" unfolding secrets_separate_def
  proof (intro ballI impI)
    fix k k' assume m: "k \<in> snd ` set ?t" "k' \<in> snd ` set ?t" and e: "kr_Key k = kr_Key k'"
    obtain s l where l1: "(s, l) \<in> set rows" "k = ?f l" using m(1) row by fastforce
    obtain s' l' where l2: "(s', l') \<in> set rows" "k' = ?f l'" using m(2) row by fastforce
    note l = l1 l2
    have "l \<in> snd ` set rows" "l' \<in> snd ` set rows" using l(1,3) by force+
    moreover have "kr_Key l = kr_Key l'" using e unfolding l(2,4) f .
    ultimately have "sql_norm (kr_User l) = sql_norm (kr_User l')"
      using ko unfolding keys_ok_def matrix_ok_def secrets_separate_def by blast
    then show "sql_norm (kr_User k) = sql_norm (kr_User k')" unfolding l(2,4) f .
  qed
  moreover have "trimmed_users ?t" unfolding trimmed_users_def
  proof (intro ballI, clarify)
    fix s k assume "(s, k) \<in> set ?t"
    then obtain l where l: "(s, l) \<in> set rows" "k = ?f l" using row by blast
    show "sql_norm (kr_User k) = to_lower (kr_User k)" unfolding l(2) f using keys_okD(2) [OF ko l(1)] .
  qed
  moreover have "\<forall>k \<in> snd ` set ?t. kr_Account k \<in> set (map \<rho> ids)"
  proof
    fix k assume "k \<in> snd ` set ?t"
    then obtain s l where l: "(s, l) \<in> set rows" "k = ?f l" using row by fastforce
    show "kr_Account k \<in> set (map \<rho> ids)" unfolding l(2) f using keys_okD(1) [OF ko l(1)] by simp
  qed
  moreover have "key_table ?t" using ko by (simp add: keys_ok_def)
  ultimately show ?thesis unfolding keys_ok_def matrix_ok_def by blast
qed

lemma account_updated_ok:
  assumes c: "catalog_ok db" and a: "ApplyAccountUpdate parse tx now fence request db = (Inr up, db')"
  shows "catalog_ok db'"
proof -
  obtain ident newID email mode fallbackID where ne: "accountIDPattern newID" "to_lower email = email"
    and tx: "accountUpdateTx ident newID email mode (aur_GroupEnabled request) (aur_DefaultGroup request) fallbackID db = Inr (up, db')"
    by (rule ApplyAccountUpdate_Inr [OF a])
  define rows where "rows = cb_accounts db"
  have tab: "account_table rows" and ko: "keys_ok (accountIDs db) (cb_keys db)" and df: "default_ok rows"
    and ro: "routes_ok (accountIDs db) (cb_routes db)" and pat: "\<forall>i \<in> set (map (an_ID \<circ> snd) rows). accountIDPattern i"
    using c unfolding catalog_ok_def accounts_ok_def rows_def by blast+
  from tx tab [unfolded rows_def] obtain before enabled isDefault fallback accounts where b: "readStoredAccount ident db = Some before"
    and fbd: "fallback = settleFallback ident fallbackID enabled isDefault (snd before) (cb_accounts db)"
    and new: "newID = ident \<or> (\<forall>(p, b) \<in> set (cb_accounts db). an_ID b \<noteq> newID)"
    and mail: "\<forall>(p, b) \<in> set (cb_accounts db). an_ID b \<noteq> ident \<longrightarrow> to_lower (an_Email b) \<noteq> email"
    and en: "enabled \<or> (enabledOthers ident (cb_accounts db) \<noteq> [] \<and> \<not> isDefault)"
    and fid: "fallbackID = [] \<or> fallbackID \<in> set (enabledOthers ident (cb_accounts db))"
    and sd: "settleDefault newID fallback isDefault (snd before)
       (map (updatedRow ident (updatedAccount newID email mode enabled isDefault)) (cb_accounts db)) = Inr accounts"
    and db': "db' = db\<lparr>cb_accounts := accounts, cb_keys := updateKeys (\<lambda>s k. kr_Account k = ident) (renameKey newID email) (cb_keys db),
              cb_routes := snd (updateRoutes ident newID fallback enabled (cb_routes db))\<rparr>"
    by (rule accountUpdateTx_Inr)
  define f where "f = updatedAccount newID email mode enabled isDefault"
  define rows' where "rows' = map (updatedRow ident f) rows"
  define \<rho> where "\<rho> = (\<lambda>x. if x = ident then newID else x)"
  have bf: "before \<in> set rows" "an_ID (snd before) = ident"
    using b by (auto simp: rows_def readStoredAccount_def dest: find_SomeD)
  have same: "list_all2 same_but_default accounts rows'"
    using settleDefault_same [OF sd] unfolding f_def [symmetric] rows_def [symmetric] rows'_def [symmetric] .
  have F: "an_ID (snd (updatedRow ident f r)) = \<rho> (an_ID (snd r))" "an_Port (snd (updatedRow ident f r)) = an_Port (snd r)" for r
    by (simp_all add: updatedRow_def f_def updatedAccount_def \<rho>_def)
  have ids': "map (an_ID \<circ> snd) rows' = map \<rho> (accountIDs db)" unfolding rows'_def accountIDs_eq rows_def using F(1) by simp
  have ids: "accountIDs db' = map \<rho> (accountIDs db)"
    unfolding ids' [symmetric] same_but_default_maps(1) [OF same, symmetric] by (simp add: accountIDs_eq db')
  have fresh: "newID = ident \<or> newID \<notin> set (accountIDs db)" using new by (fastforce simp: accountIDs_eq)
  have inj: "inj_on \<rho> (set (accountIDs db))" using fresh by (auto simp: inj_on_def \<rho>_def)
  have di: "distinct (accountIDs db)" using tab by (simp add: account_table_def accountIDs_eq rows_def)
  have tab': "account_table rows'"
  proof -
    have "inj_on (an_Email \<circ> snd \<circ> updatedRow ident f) (set rows)"
    proof (rule inj_onI)
      fix x y assume xy: "x \<in> set rows" "y \<in> set rows" "(an_Email \<circ> snd \<circ> updatedRow ident f) x = (an_Email \<circ> snd \<circ> updatedRow ident f) y"
      have other: "an_Email (snd r) \<noteq> email" if "r \<in> set rows" "an_ID (snd r) \<noteq> ident" for r
        using mail that ne(2) unfolding rows_def by (cases r) auto
      have fe: "an_Email (f q) = email" for q by (simp add: f_def updatedAccount_def)
      show "x = y"
        using updatedRow_cases [OF tab bf xy(1), of f] updatedRow_cases [OF tab bf xy(2), of f] xy(3) other [OF xy(1)] other [OF xy(2)] fe
          account_row_unique [OF tab, of "fst x" "snd x" "fst y" "snd y"] xy(1,2)
        by (auto simp: prod_eq_iff)
    qed
    then have "distinct (map (an_Email \<circ> snd) rows')"
      using tab unfolding rows'_def by (simp add: distinct_map account_table_def comp_assoc)
    moreover have "distinct (map (an_ID \<circ> snd) rows')" unfolding ids' using di inj by (simp add: distinct_map)
    moreover have "map (an_Port \<circ> snd) rows' = map (an_Port \<circ> snd) rows" "map fst rows' = map fst rows"
      unfolding rows'_def using F(2) by simp_all
    ultimately show ?thesis using tab unfolding account_table_def by simp
  qed
  have row': "updatedRow ident f before \<in> set rows'" "an_ID (snd (updatedRow ident f before)) = newID"
    "an_GroupEnabled (snd (updatedRow ident f before)) = enabled" "an_DefaultGroup (snd (updatedRow ident f before)) = isDefault"
    using bf by (auto simp: rows'_def updatedRow_def f_def updatedAccount_def)
  have fbin: "fallback \<in> set (enabledOthers ident rows)" if "fallback \<noteq> []"
    using settleFallback_in [OF fid] that unfolding fbd rows_def by blast
  have default: "default_ok accounts"
    using sd unfolding f_def [symmetric] rows_def [symmetric] rows'_def [symmetric]
  proof (rule settleDefault_Inr)
    assume d: "isDefault" "accounts = setDefault newID rows'"
    show ?thesis unfolding d(2)
      using tab' row' en d(1) by (intro default_ok_set [of _ "updatedRow ident f before"]) (auto simp: account_table_def)
  next
    assume d: "fallback \<noteq> []" "accounts = setDefault fallback rows'"
    obtain q where q: "q \<in> set rows" "an_ID (snd q) = fallback" "an_ID (snd q) \<noteq> ident" "an_GroupEnabled (snd q)"
      using fbin [OF d(1)] unfolding in_enabledOthers by blast
    then have "q \<in> set rows'" unfolding rows'_def by (auto simp: updatedRow_def image_iff intro!: bexI [of _ q])
    then show ?thesis unfolding d(2) using tab' q by (intro default_ok_set [of _ q]) (auto simp: account_table_def)
  next
    assume d: "\<not> isDefault" "\<not> an_DefaultGroup (snd before)" "accounts = rows'"
    obtain q where q: "q \<in> set rows" "an_GroupEnabled (snd q)" "\<forall>x \<in> set rows. an_DefaultGroup (snd x) \<longleftrightarrow> x = q"
      using df bf(1) unfolding default_ok_def by auto
    have "q \<noteq> before" using q(1,3) d(2) by auto
    then have qf: "updatedRow ident f q = q" using updatedRow_cases [OF tab bf q(1)] by blast
    have "an_DefaultGroup (snd (updatedRow ident f x)) \<longleftrightarrow> updatedRow ident f x = q" if x: "x \<in> set rows" for x
      using updatedRow_cases [OF tab bf x, of f]
    proof
      assume o: "x = before \<and> updatedRow ident f x = (fst before, f (snd before))"
      have "\<not> an_DefaultGroup (f (snd before))" using d(1) by (simp add: f_def updatedAccount_def)
      moreover have "an_DefaultGroup (snd q)" using q(1,3) by blast
      ultimately show ?thesis using o by auto
    qed (use q(3) x in auto)
    moreover have "q \<in> set rows'" unfolding rows'_def using q(1) qf by (metis image_eqI set_map)
    ultimately have "q \<in> set rows' \<and> an_GroupEnabled (snd q) \<and> (\<forall>x \<in> set rows'. an_DefaultGroup (snd x) \<longleftrightarrow> x = q)"
      using q(2) unfolding rows'_def by auto
    then show ?thesis unfolding d(3) default_ok_def by blast
  qed
  define goal where "goal = (if enabled then newID else fallback)"
  have goal: "goal \<in> set (accountIDs db')"
  proof (cases enabled)
    case True
    have "ident \<in> set (accountIDs db)" using bf by (auto simp: accountIDs_eq rows_def)
    then show ?thesis using True unfolding goal_def ids \<rho>_def by auto
  next
    case False
    then have "enabledOthers ident rows \<noteq> []" using en by (simp add: rows_def)
    moreover have "[] \<notin> set (enabledOthers ident rows)" using pat by (auto simp: enabledOthers_def accountIDPattern_def)
    ultimately have "defaultFallback ident rows \<noteq> []" by (rule defaultFallback_found)
    then have "fallback \<noteq> []" using False unfolding fbd settleFallback_def rows_def by auto
    then obtain q where "q \<in> set rows" "an_ID (snd q) = fallback" "an_ID (snd q) \<noteq> ident"
      using fbin unfolding in_enabledOthers by blast
    then have "fallback \<in> set (accountIDs db)" "\<rho> fallback = fallback" by (auto simp: accountIDs_eq rows_def \<rho>_def)
    then show ?thesis using False unfolding goal_def ids by (metis image_eqI set_map)
  qed
  have "newID \<noteq> ident \<Longrightarrow> \<forall>(u, a) \<in> set (cb_routes db). a \<noteq> newID" using fresh ro by (auto simp: routes_ok_def)
  then have routes: "snd (updateRoutes ident newID fallback enabled (cb_routes db)) = rerouteAll ident goal (cb_routes db)"
    unfolding goal_def using ro by (intro updateRoutes_eq(1)) (auto simp: routes_ok_def)
  have "routes_ok (accountIDs db') (rerouteAll ident goal (cb_routes db))"
    by (rule routes_ok_rerouteAll [OF ro goal]) (auto simp: ids \<rho>_def)
  moreover have "keys_ok (accountIDs db') (cb_keys db')"
    using keys_ok_renamed [OF ko di fresh] unfolding ids \<rho>_def by (simp add: db')
  moreover have "account_table accounts" by (rule account_table_same [OF tab' same])
  moreover have "\<forall>i \<in> set (map (an_ID \<circ> snd) accounts). accountIDPattern i"
    unfolding same_but_default_maps(1) [OF same] ids' using pat ne(1) by (auto simp: \<rho>_def accountIDs_eq rows_def)
  ultimately show ?thesis
    using c default unfolding catalog_ok_def accounts_ok_def by (simp add: db' routes)
qed

subsection \<open>Every step\<close>

lemmas catalog_ok_steps =
  user_created_ok user_revoked_ok user_deleted_ok key_rotated_ok routes_moved_ok
  account_created_ok account_updated_ok account_deleted_ok internal_keys_ok

lemma operations_Inl:
  "ApplyUserKeyRotationExpected tx now fence user old new db = (Inl e, db') \<Longrightarrow> db' = db"
  "ApplyRoutesExpected tx now fence assignments expected db = (Inl e, db') \<Longrightarrow> db' = db"
  "EnsureInternalKeys tx now fence random users db = (Inl e, db') \<Longrightarrow> db' = db"
  by (auto simp: ApplyUserKeyRotationExpected_def ApplyRoutesExpected_def EnsureInternalKeys_def Let_def
      split: if_splits sum.splits dest: controlTx_Inl)

lemmas operations_fail =
  operations_Inl ApplyUserCreation_Inl ApplyUserRevocation_Inl ApplyUserDeletion_Inl account_changes_Inl

subsection \<open>Normal users\<close>

text \<open>Go's normal form is stable: white space has no letters, so lowering a trimmed name leaves it trimmed.\<close>

lemma lower_char_other:
  assumes "byte c < 65 \<or> 122 < byte c"
  shows "lower_char d = c \<longleftrightarrow> d = c"
proof (cases "is_upper d")
  case True
  then have "byte (lower_char d) = byte d + 32" by (auto simp: lower_char_def byte_def is_upper_def)
  then show ?thesis using assms True by (auto simp: is_upper_def lower_char_def)
qed (simp add: lower_char_def)

lemma leading_rune_to_lower:
  assumes "\<forall>r \<in> set rs. \<forall>c \<in> set r. byte c < 65 \<or> 122 < byte c"
  shows "leading_rune rs (to_lower s) = leading_rune rs s"
proof -
  have m: "map lower_char xs = r \<longleftrightarrow> xs = r" if "\<forall>c \<in> set r. byte c < 65 \<or> 122 < byte c" for xs r
    using that
  proof (induction xs arbitrary: r)
    case (Cons x xs)
    then show ?case using lower_char_other by (cases r) simp_all
  qed auto
  have "has_prefix r (to_lower s) \<longleftrightarrow> has_prefix r s" if "r \<in> set rs" for r
    unfolding has_prefix_def to_lower_def take_map using assms that by (intro m) blast
  then show ?thesis unfolding leading_rune_def by (intro find_cong) auto
qed

lemma space_runes_other: "\<forall>r \<in> set space_runes. \<forall>c \<in> set r. byte c < 65 \<or> 122 < byte c"
  by (simp add: space_runes_def byte_def)

lemma norm_user_idem [simp]: "norm_user (norm_user s) = norm_user s"
proof -
  define t where "t = trim_space s"
  have left: "leading_rune space_runes t = None"
    using leading_rune_strip [of space_runes t] trim_left_trim_space [of s] unfolding trim_left_def t_def by simp
  have right: "leading_rune (map rev space_runes) (rev t) = None"
    using leading_rune_strip unfolding t_def trim_space_def trim_right_def by simp
  have "trim_left (to_lower t) = to_lower t"
    unfolding trim_left_def using left space_runes_other
    by (subst strip_runes.simps) (simp add: leading_rune_to_lower)
  moreover have "trim_right (to_lower t) = to_lower t"
  proof -
    have "leading_rune (map rev space_runes) (to_lower (rev t)) = None"
      using right space_runes_other by (subst leading_rune_to_lower) auto
    then show ?thesis unfolding trim_right_def by (subst strip_runes.simps) (simp add: to_lower_def rev_map)
  qed
  ultimately have "trim_space (to_lower t) = to_lower t" by (simp add: trim_space_def)
  then show ?thesis by (simp add: norm_user_def t_def)
qed

definition normal_users :: "key_rows \<Rightarrow> bool" where
  "normal_users rows \<longleftrightarrow> (\<forall>k \<in> snd ` set rows. norm_user (kr_User k) = kr_User k)"

lemma normal_users_append: "normal_users (xs @ ys) \<longleftrightarrow> normal_users xs \<and> normal_users ys"
  by (auto simp: normal_users_def)

lemma normal_users_numbered: "normal_users (numbered n ks) \<longleftrightarrow> (\<forall>k \<in> set ks. norm_user (kr_User k) = kr_User k)"
  unfolding normal_users_def set_map [symmetric] map_snd_numbered ..

lemma normal_users_updateKeys:
  "normal_users rows \<Longrightarrow> (\<And>k. kr_User (f k) = kr_User k) \<Longrightarrow> normal_users (updateKeys P f rows)"
  by (force simp: normal_users_def updateKeys_def)

lemma normal_users_filter: "normal_users rows \<Longrightarrow> normal_users (filter P rows)"
  by (auto simp: normal_users_def)

lemma normal_users_sql: "normal_users rows \<Longrightarrow> (s, k) \<in> set rows \<Longrightarrow> sql_norm (kr_User k) = kr_User k"
  unfolding normal_users_def by (metis image_eqI snd_conv sql_norm_norm_user)

lemma user_created_normal:
  assumes ok: "catalog_ok db" and normal: "normal_users (cb_keys db)" and a: "ApplyUserCreation tx now fence user apiKey team db = (Inr r, db')"
  shows "normal_users (cb_keys db')"
proof -
  have nm: "norm_names (cb_memberships db)" using ok by (simp add: catalog_ok_def memberships_ok_def)
  obtain key where k: "cb_keys db' = cb_keys db @ userKeyRows now (norm_user user) key db"
    by (rule creationTx_Inr [OF ApplyUserCreation_Inr(3) [OF a] nm]) simp
  have "normal_users (userKeyRows now (norm_user user) key db)"
    unfolding userKeyRows_def normal_users_numbered by (auto simp: userKeyRow_def)
  then show ?thesis using normal by (simp add: k normal_users_append)
qed

lemma user_revoked_normal:
  assumes ok: "catalog_ok db" and normal: "normal_users (cb_keys db)" and a: "ApplyUserRevocation tx now fence user db = (Inr r, db')"
  shows "normal_users (cb_keys db')"
proof -
  have kt: "key_table (cb_keys db)" using ok by (simp add: catalog_ok_def keys_ok_def)
  have tx: "revocationTx now (norm_user user) db = Inr (r, db')" using ApplyUserRevocation_Inr [OF a] by simp
  show ?thesis unfolding revocationTx_Inr(2) [OF tx kt]
    using normal_users_updateKeys [OF normal] by (simp add: markRevoked_def)
qed

lemma user_deleted_normal:
  assumes ok: "catalog_ok db" and normal: "normal_users (cb_keys db)" and a: "ApplyUserDeletion tx now fence user revoke db = (Inr r, db')"
  shows "normal_users (cb_keys db')"
proof -
  have "deletionTx (norm_user user) revoke db = Inr (r, db')" using ApplyUserDeletion_Inr [OF a] by simp
  then show ?thesis
    by (auto simp: deletionTx_def Let_def deleteKeys_def split: if_splits intro: normal_users_filter [OF normal])
qed

lemma key_rotated_normal:
  assumes ok: "catalog_ok db" and normal: "normal_users (cb_keys db)" and a: "ApplyUserKeyRotationExpected tx now fence user old new db = (Inr r, db')"
  shows "normal_users (cb_keys db')"
proof -
  have tx: "rotationTx (norm_user user) (trim_space old) (trim_space new) now db = Inr (r, db')"
    using a by (auto simp: ApplyUserKeyRotationExpected_def Let_def split: if_splits dest: controlTx_Inr(1))
  have "normal_users (numbered n (map (replacementKey now (norm_user user) key \<circ> snd) rows))" for n key rows
    unfolding normal_users_numbered by auto
  then show ?thesis
    unfolding rotationTx_Inr(1) [OF tx sql_norm_norm_user]
    using normal_users_updateKeys [OF normal, of "markRotated now"] by (simp add: normal_users_append markRotated_def)
qed

lemma account_created_normal:
  assumes ok: "catalog_ok db" and normal: "normal_users (cb_keys db)" and a: "ApplyAccountCreation parse tx now fence candidate db = (Inr r, db')"
  shows "normal_users (cb_keys db')"
proof -
  have tab: "account_table (cb_accounts db)" using ok by (simp add: catalog_ok_def accounts_ok_def)
  obtain cand where tx: "accountCreationTx now cand db = Inr (r, db')" by (rule ApplyAccountCreation_Inr [OF a])
  obtain a ks where ks: "accountKeyRecords now a (cb_keys db) (activeUsers (cb_keys db)) = Inr ks"
    and k: "cb_keys db' = cb_keys db @ numbered (nextSequence (cb_keys db)) ks"
    by (rule accountCreationTx_Inr [OF tx tab]) simp
  have "norm_user u = u" if u: "u \<in> set (activeUsers (cb_keys db))" for u
  proof -
    obtain s l where l: "(s, l) \<in> set (cb_keys db)" "u = sql_norm (kr_User l)" using u by (auto simp: activeUsers_def)
    then have "u = kr_User l" using normal_users_sql [OF normal l(1)] by simp
    then show ?thesis using normal l(1) by (force simp: normal_users_def)
  qed
  then have "normal_users (numbered (nextSequence (cb_keys db)) ks)"
    unfolding normal_users_numbered accountKeyRecords_Inr(1) [OF ks] by (auto simp: userKeyRow_def)
  then show ?thesis using normal by (simp add: k normal_users_append)
qed

lemma account_updated_normal:
  assumes ok: "catalog_ok db" and normal: "normal_users (cb_keys db)" and a: "ApplyAccountUpdate parse tx now fence request db = (Inr up, db')"
  shows "normal_users (cb_keys db')"
proof -
  have tab: "account_table (cb_accounts db)" using ok by (simp add: catalog_ok_def accounts_ok_def)
  obtain ident newID email mode fallbackID where
    tx: "accountUpdateTx ident newID email mode (aur_GroupEnabled request) (aur_DefaultGroup request) fallbackID db = Inr (up, db')"
    by (rule ApplyAccountUpdate_Inr [OF a])
  have "cb_keys db' = updateKeys (\<lambda>s k. kr_Account k = ident) (renameKey newID email) (cb_keys db)"
    by (rule accountUpdateTx_Inr [OF tx tab]) simp
  then show ?thesis using normal_users_updateKeys [OF normal] by (simp add: renameKey_def)
qed

lemma account_deleted_normal:
  assumes ok: "catalog_ok db" and normal: "normal_users (cb_keys db)" and a: "ApplyAccountDeletion tx now fence rawID rawFallback revoke db = (Inr r, db')"
  shows "normal_users (cb_keys db')"
proof -
  obtain ident fallbackID where tx: "accountDeletionTx ident fallbackID revoke db = Inr (r, db')"
    by (rule ApplyAccountDeletion_Inr [OF a])
  have "cb_keys db' = filter (\<lambda>(s, k). kr_Account k \<noteq> ident) (cb_keys db)"
    by (rule accountDeletionTx_Inr [OF tx]) (simp add: deleteKeys_def)
  then show ?thesis using normal_users_filter [OF normal] by simp
qed

lemma routes_moved_normal:
  "catalog_ok db \<Longrightarrow> normal_users (cb_keys db) \<Longrightarrow> ApplyRoutesExpected tx now fence asg ex db = (Inr r, db') \<Longrightarrow> normal_users (cb_keys db')"
  by (auto simp: ApplyRoutesExpected_def applyRoutesTx_def Let_def
      split: sum.splits if_splits prod.splits option.splits dest!: controlTx_Inr(1))

lemma internal_keys_normal:
  "catalog_ok db \<Longrightarrow> normal_users (cb_keys db) \<Longrightarrow> EnsureInternalKeys tx now fence random users db = (Inr r, db') \<Longrightarrow> normal_users (cb_keys db')"
  by (auto simp: EnsureInternalKeys_def Let_def split: sum.splits prod.splits dest!: controlTx_Inr(1))

lemmas normal_steps =
  user_created_normal user_revoked_normal user_deleted_normal key_rotated_normal routes_moved_normal
  account_created_normal account_updated_normal account_deleted_normal internal_keys_normal

subsection \<open>Operations rolled back\<close>

lemma internal_restored_ok:
  assumes c: "catalog_ok db" and a: "RestoreInternalKey tx now fence user previous db = (r, db')"
    and v: "\<forall>k. previous = Some k \<longrightarrow> validInternalKey (ik_Key k)"
  shows "catalog_ok db' \<and> (\<exists>i. db' = db\<lparr>cb_internal := i\<rparr>)"
proof (cases r)
  case (Inl e)
  then have "db' = db" using a
    by (auto simp: RestoreInternalKey_def Let_def split: if_splits option.splits dest: controlTx_Inl)
  then show ?thesis using c by (auto intro: exI [of _ "cb_internal db"])
next
  case (Inr x)
  have io: "internal_ok (cb_internal db)" using c by (simp add: catalog_ok_def)
  have "\<exists>i. db' = db\<lparr>cb_internal := i\<rparr> \<and> internal_ok i"
  proof (cases previous)
    case None
    then have "db' = db\<lparr>cb_internal := filter (\<lambda>(e, k). sql_norm e \<noteq> norm_user user) (cb_internal db)\<rparr>"
      using a Inr by (auto simp: RestoreInternalKey_def Let_def split: if_splits dest: controlTx_Inr(1))
    then show ?thesis using internal_ok_filter [OF io] by blast
  next
    case (Some k)
    let ?u = "norm_user user"
    have d: "db' = db\<lparr>cb_internal := AList.update ?u k (cb_internal db)\<rparr>" "\<not> secretTaken ?u (ik_Key k) (cb_internal db)"
      using a Inr Some by (auto simp: RestoreInternalKey_def Let_def split: if_splits dest!: controlTx_Inr(1))
    have other: "ik_Key l \<noteq> ik_Key k" if "map_of (cb_internal db) v = Some l" "v \<noteq> ?u" for v l
      using d(2) map_of_SomeD [OF that(1)] that(2) by (auto simp: secretTaken_def list_ex_iff)
    have "internal_secrets (AList.update ?u k (cb_internal db))"
      using io other unfolding internal_ok_def internal_secrets_def map_of_update by (metis fun_upd_apply option.inject)
    moreover have "set (AList.update ?u k m) \<subseteq> insert (?u, k) (set m)" for m by (induction m) auto
    ultimately have "internal_ok (AList.update ?u k (cb_internal db))"
      using io v Some norm_names_update [of "cb_internal db" ?u k] unfolding internal_ok_def by fastforce
    then show ?thesis using d(1) by blast
  qed
  then obtain i where i: "db' = db\<lparr>cb_internal := i\<rparr>" "internal_ok i" by blast
  have "accountIDs db' = accountIDs db" by (rule accountIDs_cong) (simp add: i)
  then have "catalog_ok db'" using c i by (simp add: catalog_ok_def)
  then show ?thesis using i(1) by blast
qed

lemma internal_step_ok:
  assumes "internal_step db db'" "catalog_ok db"
  shows "catalog_ok db' \<and> (\<exists>i. db' = db\<lparr>cb_internal := i\<rparr>)"
  using assms(1)
proof cases
  case (ensured tx now fence random users r)
  show ?thesis
  proof (cases r)
    case (Inl e)
    then have "db' = db" using ensured(1) operations_Inl(3) by blast
    then show ?thesis using assms(2) by (auto intro: exI [of _ "cb_internal db"])
  next
    case (Inr x)
    have io: "wf_map (cb_internal db)" "internal_secrets (cb_internal db)" using assms(2) by (auto simp: catalog_ok_def internal_ok_def)
    show ?thesis using internal_keys_ok [OF assms(2) ensured(1) [unfolded Inr] ensured(2)]
        EnsureInternalKeys_Inr(3) [OF ensured(1) [unfolded Inr] io] by blast
  qed
next
  case (put_back tx now fence user previous r)
  then show ?thesis using internal_restored_ok [OF assms(2)] by blast
qed

lemma internal_steps_ok:
  assumes "internal_step\<^sup>*\<^sup>* db db'" "catalog_ok db"
  shows "catalog_ok db'" "db' = db\<lparr>cb_internal := cb_internal db'\<rparr>"
proof -
  have "catalog_ok db' \<and> (\<exists>i. db' = db\<lparr>cb_internal := i\<rparr>)" using assms(1)
  proof (induction rule: rtranclp_induct)
    case base
    then show ?case using assms(2) by (auto intro: exI [of _ "cb_internal db"])
  next
    case (step b c)
    then obtain j where j: "catalog_ok b" "b = db\<lparr>cb_internal := j\<rparr>" by blast
    obtain i where "catalog_ok c" "c = b\<lparr>cb_internal := i\<rparr>" using internal_step_ok [OF step.hyps(2) j(1)] by blast
    then have "catalog_ok c" "c = db\<lparr>cb_internal := i\<rparr>" unfolding j(2) by simp_all
    then show ?case by blast
  qed
  then obtain i where "catalog_ok db'" "db' = db\<lparr>cb_internal := i\<rparr>" by blast
  then show "catalog_ok db'" "db' = db\<lparr>cb_internal := cb_internal db'\<rparr>" by simp_all
qed

text \<open>A rollback that succeeds would succeed without a fence, and one that fails changes nothing.\<close>

lemma controlTx_free: "controlTx tx now fence operation db = (Inr a, d) \<Longrightarrow> controlTx TxOK now [] operation db = (Inr a, d)"
  by (rule controlTx_ok) (auto simp: validateWriteFence_def dest: controlTx_Inr(1))

lemma restores_Inl:
  "RestoreUserCreation tx now fence c db = (Inl e, d) \<Longrightarrow> d = db"
  "RestoreUserRevocation tx now fence v db = (Inl e, d) \<Longrightarrow> d = db"
  "RestoreUserDeletion tx now fence x db = (Inl e, d) \<Longrightarrow> d = db"
  "RestoreUserKeyRotation tx now fence rot db = (Inl e, d) \<Longrightarrow> d = db"
  "RestoreRoutesExpected tx now fence originals current db = (Inl e, d) \<Longrightarrow> d = db"
  "RestoreAccountCreation tx now fence ac db = (Inl e, d) \<Longrightarrow> d = db"
  "RestoreAccountUpdate tx now fence au db = (Inl e, d) \<Longrightarrow> d = db"
  "RestoreAccountDeletion tx now fence ad db = (Inl e, d) \<Longrightarrow> d = db"
  by (auto simp: RestoreUserCreation_def RestoreUserRevocation_def RestoreUserDeletion_def RestoreUserKeyRotation_def
      RestoreRoutesExpected_def RestoreAccountCreation_def RestoreAccountUpdate_def RestoreAccountDeletion_def
      split: if_splits sum.splits dest: controlTx_Inl)

lemma restores_free:
  "RestoreUserCreation tx now fence c db = (Inr (), d) \<Longrightarrow> RestoreUserCreation TxOK now [] c db = (Inr (), d)"
  "RestoreUserRevocation tx now fence v db = (Inr (), d) \<Longrightarrow> RestoreUserRevocation TxOK now [] v db = (Inr (), d)"
  "RestoreUserDeletion tx now fence x db = (Inr (), d) \<Longrightarrow> RestoreUserDeletion TxOK now [] x db = (Inr (), d)"
  "RestoreUserKeyRotation tx now fence rot db = (Inr (), d) \<Longrightarrow> RestoreUserKeyRotation TxOK now [] rot db = (Inr (), d)"
  "RestoreRoutesExpected tx now fence originals current db = (Inr (), d) \<Longrightarrow> RestoreRoutesExpected TxOK now [] originals current db = (Inr (), d)"
  "RestoreAccountCreation tx now fence ac db = (Inr (), d) \<Longrightarrow> RestoreAccountCreation TxOK now [] ac db = (Inr (), d)"
  "RestoreAccountUpdate tx now fence au db = (Inr (), d) \<Longrightarrow> RestoreAccountUpdate TxOK now [] au db = (Inr (), d)"
  "RestoreAccountDeletion tx now fence ad db = (Inr (), d) \<Longrightarrow> RestoreAccountDeletion TxOK now [] ad db = (Inr (), d)"
  by (auto simp: RestoreUserCreation_def RestoreUserRevocation_def RestoreUserDeletion_def RestoreUserKeyRotation_def
      RestoreRoutesExpected_def RestoreAccountCreation_def RestoreAccountUpdate_def RestoreAccountDeletion_def
      split: if_splits sum.splits dest: controlTx_free)

text \<open>What a rollback keeps of tables it does not compare row by row.\<close>

definition keeps_tables :: "controldb \<Rightarrow> controldb \<Rightarrow> bool" where
  "keeps_tables db d \<longleftrightarrow>
     (wf_map (cb_routes db) \<longrightarrow> wf_map (cb_routes d)) \<and> (wf_map (cb_memberships db) \<longrightarrow> wf_map (cb_memberships d)) \<and>
     cb_internal d = cb_internal db \<and> cb_tags d = cb_tags db"

lemma restoreUserMembership_keeps:
  "restoreUserMembership u m db = Inr d \<Longrightarrow> d = db\<lparr>cb_memberships := cb_memberships d\<rparr> \<and> (wf_map (cb_memberships db) \<longrightarrow> wf_map (cb_memberships d))"
  by (auto simp: restoreUserMembership_def writeMembership_def split: option.splits if_splits)

lemma wf_restoreRoute: "wf_map (fold restoreRoute cs routes) \<longleftrightarrow> wf_map routes"
proof (induction cs arbitrary: routes)
  case (Cons c cs)
  have "keys (restoreRoute c routes) = keys routes" by (simp add: restoreRoute_def case_prod_unfold comp_def)
  then show ?case using Cons by (simp add: wf_map_def)
qed simp

lemma wf_restoreUser: "wf_map routes \<Longrightarrow> wf_map (fold (restoreUser originals) us routes)"
  by (induction us arbitrary: routes) (auto simp: restoreUser_def)

lemma restores_keep:
  "RestoreUserCreation tx now fence c db = (Inr (), d) \<Longrightarrow> keeps_tables db d"
  "RestoreUserRevocation tx now fence v db = (Inr (), d) \<Longrightarrow> keeps_tables db d"
  "RestoreUserKeyRotation tx now fence rot db = (Inr (), d) \<Longrightarrow> keeps_tables db d"
  "RestoreRoutesExpected tx now fence originals current db = (Inr (), d) \<Longrightarrow> keeps_tables db d"
  "RestoreAccountCreation tx now fence ac db = (Inr (), d) \<Longrightarrow> keeps_tables db d"
  "RestoreAccountUpdate tx now fence au db = (Inr (), d) \<Longrightarrow> keeps_tables db d"
  "RestoreAccountDeletion tx now fence ad db = (Inr (), d) \<Longrightarrow> keeps_tables db d"
proof -
  show "RestoreUserCreation tx now fence c db = (Inr (), d) \<Longrightarrow> keeps_tables db d"
    by (auto simp: RestoreUserCreation_def restoreCreationTx_def keeps_tables_def Let_def restoreUserMembership_def writeMembership_def
        split: if_splits option.splits dest!: controlTx_Inr(1))
  show "RestoreUserRevocation tx now fence v db = (Inr (), d) \<Longrightarrow> keeps_tables db d"
    by (auto simp: RestoreUserRevocation_def restoreRevocationTx_def keeps_tables_def split: if_splits option.splits dest!: controlTx_Inr(1))
  show "RestoreUserKeyRotation tx now fence rot db = (Inr (), d) \<Longrightarrow> keeps_tables db d"
    by (auto simp: RestoreUserKeyRotation_def restoreRotationTx_def keeps_tables_def split: if_splits option.splits dest!: controlTx_Inr(1))
  show "RestoreRoutesExpected tx now fence originals current db = (Inr (), d) \<Longrightarrow> keeps_tables db d"
    by (auto simp: RestoreRoutesExpected_def restoreRoutesTx_def keeps_tables_def Let_def wf_restoreUser split: if_splits sum.splits dest!: controlTx_Inr(1))
  show "RestoreAccountCreation tx now fence ac db = (Inr (), d) \<Longrightarrow> keeps_tables db d"
    by (auto simp: RestoreAccountCreation_def restoreAccountCreationTx_def keeps_tables_def Let_def split: if_splits option.splits dest!: controlTx_Inr(1))
  show "RestoreAccountUpdate tx now fence au db = (Inr (), d) \<Longrightarrow> keeps_tables db d"
    by (auto simp: RestoreAccountUpdate_def restoreAccountUpdateTx_def keeps_tables_def Let_def wf_restoreRoute split: if_splits option.splits sum.splits dest!: controlTx_Inr(1))
  show "RestoreAccountDeletion tx now fence ad db = (Inr (), d) \<Longrightarrow> keeps_tables db d"
    by (auto simp: RestoreAccountDeletion_def restoreAccountDeletionTx_def keeps_tables_def Let_def wf_restoreRoute split: if_splits option.splits sum.splits dest!: controlTx_Inr(1))
qed

lemma same_rows: "wf_map a \<Longrightarrow> wf_map b \<Longrightarrow> map_of a = map_of b \<Longrightarrow> set a = set b"
  by (auto simp: wf_map_map_of)

lemma same_catalog_ok:
  assumes ok: "catalog_ok db" "normal_users (cb_keys db)" and same: "same_db d (db\<lparr>cb_internal := i\<rparr>)"
    and wf: "wf_map (cb_routes d)" "wf_map (cb_memberships d)" and io: "internal_ok (cb_internal d)"
    and tags: "distinct (map (\<lambda>(e, t). (e, ut_TagID t)) (cb_tags d))"
  shows "catalog_ok d \<and> normal_users (cb_keys d)"
proof -
  have s: "cb_accounts d = cb_accounts db" "cb_keys d = cb_keys db" "cb_teams d = cb_teams db" "cb_tag_ids d = cb_tag_ids db"
    "set (cb_tags d) = set (cb_tags db)" "map_of (cb_routes d) = map_of (cb_routes db)" "map_of (cb_memberships d) = map_of (cb_memberships db)"
    using same by (simp_all add: same_db_def)
  have ids: "accountIDs d = accountIDs db" by (rule accountIDs_cong [OF s(1)])
  have sets: "set (cb_routes d) = set (cb_routes db)" "set (cb_memberships d) = set (cb_memberships db)"
    using same_rows [OF wf(1) _ s(6)] same_rows [OF wf(2) _ s(7)] ok(1) by (auto simp: catalog_ok_def routes_ok_def memberships_ok_def)
  have "routes_ok (accountIDs db) (cb_routes d)" "memberships_ok (cb_teams db) (cb_memberships d)" "tags_ok (cb_tag_ids db) (cb_tags d)"
    using ok(1) wf tags unfolding catalog_ok_def routes_ok_def memberships_ok_def tags_ok_def norm_names_def sets s(5) by blast+
  then show ?thesis using ok io unfolding catalog_ok_def ids s(1-4) by blast
qed

lemma undone_ok:
  assumes ok: "catalog_ok db" "normal_users (cb_keys db)"
    and mid: "catalog_ok db1" "normal_users (cb_keys db1)" "internal_step\<^sup>*\<^sup>* db1 db2"
    and undo: "undo' db2 = (r, d)" and failed: "\<And>e. undo' db2 = (Inl e, d) \<Longrightarrow> d = db2"
    and keep: "undo' db2 = (Inr (), d) \<Longrightarrow> keeps_tables db2 d"
    and free: "undo' db2 = (Inr (), d) \<Longrightarrow> undo db2 = (Inr (), d)"
    and reverts: "\<exists>d'. undo (db1\<lparr>cb_internal := cb_internal db2\<rparr>) = (Inr (), d') \<and> same_db d' (db\<lparr>cb_internal := cb_internal db2\<rparr>)"
  shows "catalog_ok d \<and> normal_users (cb_keys d)"
proof -
  note S = internal_steps_ok [OF mid(3,1)]
  have "cb_keys db2 = cb_keys db1" using arg_cong [OF S(2), of cb_keys] by simp
  then have mid': "catalog_ok db2" "normal_users (cb_keys db2)" using S(1) mid(2) by simp_all
  show ?thesis
  proof (cases r)
    case (Inl e)
    then show ?thesis using failed undo mid' by blast
  next
    case (Inr x)
    then have done': "undo' db2 = (Inr (), d)" using undo by simp
    obtain d' where "undo (db1\<lparr>cb_internal := cb_internal db2\<rparr>) = (Inr (), d')" "same_db d' (db\<lparr>cb_internal := cb_internal db2\<rparr>)"
      using reverts by blast
    then have same: "same_db d (db\<lparr>cb_internal := cb_internal db2\<rparr>)" using free [OF done'] unfolding S(2) [symmetric] by simp
    show ?thesis
      by (rule same_catalog_ok [OF ok same])
        (use keep [OF done'] mid'(1) in \<open>auto simp: keeps_tables_def catalog_ok_def routes_ok_def memberships_ok_def tags_ok_def\<close>)
  qed
qed

lemma user_undone:
  assumes ok: "catalog_ok db" "normal_users (cb_keys db)" and syn: "internal_step\<^sup>*\<^sup>* db1 db2"
  shows "ApplyUserCreation tx now fence user key team db = (Inr c, db1) \<Longrightarrow> RestoreUserCreation tx' now' fence' c db2 = (r, d) \<Longrightarrow>
      catalog_ok d \<and> normal_users (cb_keys d)"
    and "ApplyUserRevocation tx now fence user db = (Inr v, db1) \<Longrightarrow> RestoreUserRevocation tx' now' fence' v db2 = (r, d) \<Longrightarrow>
      catalog_ok d \<and> normal_users (cb_keys d)"
    and "ApplyUserKeyRotationExpected tx now fence user old new db = (Inr rot, db1) \<Longrightarrow> RestoreUserKeyRotation tx' now' fence' rot db2 = (r, d) \<Longrightarrow>
      catalog_ok d \<and> normal_users (cb_keys d)"
proof -
  have none: "validateWriteFence now' [] (cb_leases db) = None" by (simp add: validateWriteFence_def)
  have tab: "user_tables db" using catalog_tables [OF ok(1)] by blast
  then have pre: "user_tables db \<and> validateWriteFence now' [] (cb_leases db) = None"
    "key_table (cb_keys db) \<and> trimmed_users (cb_keys db) \<and> validateWriteFence now' [] (cb_leases db) = None"
    using none by (simp_all add: user_tables_def)
  show "catalog_ok d \<and> normal_users (cb_keys d)"
    if a: "ApplyUserCreation tx now fence user key team db = (Inr c, db1)" and u: "RestoreUserCreation tx' now' fence' c db2 = (r, d)"
    by (rule undone_ok [where undo' = "RestoreUserCreation tx' now' fence' c" and undo = "RestoreUserCreation TxOK now' [] c",
          OF ok user_created_ok [OF ok(1) a] user_created_normal [OF ok a] syn u])
      (erule restores_Inl, erule restores_keep, erule restores_free, rule creation.reverts_synced [where x = "(user, key, team)", OF pre(1)], simp, rule a)
  show "catalog_ok d \<and> normal_users (cb_keys d)"
    if a: "ApplyUserRevocation tx now fence user db = (Inr v, db1)" and u: "RestoreUserRevocation tx' now' fence' v db2 = (r, d)"
    by (rule undone_ok [where undo' = "RestoreUserRevocation tx' now' fence' v" and undo = "RestoreUserRevocation TxOK now' [] v",
          OF ok user_revoked_ok [OF ok(1) a] user_revoked_normal [OF ok a] syn u])
      (erule restores_Inl, erule restores_keep, erule restores_free, rule revocation.reverts_synced [OF pre(1) a])
  show "catalog_ok d \<and> normal_users (cb_keys d)"
    if a: "ApplyUserKeyRotationExpected tx now fence user old new db = (Inr rot, db1)" and u: "RestoreUserKeyRotation tx' now' fence' rot db2 = (r, d)"
    by (rule undone_ok [where undo' = "RestoreUserKeyRotation tx' now' fence' rot" and undo = "RestoreUserKeyRotation TxOK now' [] rot",
          OF ok key_rotated_ok [OF ok(1) a] key_rotated_normal [OF ok a] syn u])
      (erule restores_Inl, erule restores_keep, erule restores_free, rule rotation.reverts_synced [where x = "(user, old, new)", OF pre(2)], simp, rule a)
qed

lemma account_undone:
  assumes ok: "catalog_ok db" "normal_users (cb_keys db)" and syn: "internal_step\<^sup>*\<^sup>* db1 db2"
  shows "ApplyAccountCreation parse tx now fence candidate db = (Inr c, db1) \<Longrightarrow> RestoreAccountCreation tx' now' fence' c db2 = (r, d) \<Longrightarrow>
      catalog_ok d \<and> normal_users (cb_keys d)"
    and "ApplyAccountUpdate parse tx now fence request db = (Inr up, db1) \<Longrightarrow> RestoreAccountUpdate tx' now' fence' up db2 = (r, d) \<Longrightarrow>
      catalog_ok d \<and> normal_users (cb_keys d)"
    and "ApplyAccountDeletion tx now fence rawID rawFallback revoke db = (Inr x, db1) \<Longrightarrow> RestoreAccountDeletion tx' now' fence' x db2 = (r, d) \<Longrightarrow>
      catalog_ok d \<and> normal_users (cb_keys d)"
proof -
  have pre: "account_tables db \<and> validateWriteFence now' [] (cb_leases db) = None"
    using catalog_tables [OF ok(1)] by (simp add: validateWriteFence_def)
  show "catalog_ok d \<and> normal_users (cb_keys d)"
    if a: "ApplyAccountCreation parse tx now fence candidate db = (Inr c, db1)" and u: "RestoreAccountCreation tx' now' fence' c db2 = (r, d)"
    by (rule undone_ok [where undo' = "RestoreAccountCreation tx' now' fence' c" and undo = "RestoreAccountCreation TxOK now' [] c",
          OF ok account_created_ok [OF ok(1) a] account_created_normal [OF ok a] syn u])
      (erule restores_Inl, erule restores_keep, erule restores_free, rule accountCreation.reverts_synced [OF pre a])
  show "catalog_ok d \<and> normal_users (cb_keys d)"
    if a: "ApplyAccountUpdate parse tx now fence request db = (Inr up, db1)" and u: "RestoreAccountUpdate tx' now' fence' up db2 = (r, d)"
    by (rule undone_ok [where undo' = "RestoreAccountUpdate tx' now' fence' up" and undo = "RestoreAccountUpdate TxOK now' [] up",
          OF ok account_updated_ok [OF ok(1) a] account_updated_normal [OF ok a] syn u])
      (erule restores_Inl, erule restores_keep, erule restores_free, rule accountUpdate.reverts_synced [OF pre a])
  show "catalog_ok d \<and> normal_users (cb_keys d)"
    if a: "ApplyAccountDeletion tx now fence rawID rawFallback revoke db = (Inr x, db1)" and u: "RestoreAccountDeletion tx' now' fence' x db2 = (r, d)"
    by (rule undone_ok [where undo' = "RestoreAccountDeletion tx' now' fence' x" and undo = "RestoreAccountDeletion TxOK now' [] x",
          OF ok account_deleted_ok [OF ok(1) a] account_deleted_normal [OF ok a] syn u])
      (erule restores_Inl, erule restores_keep, erule restores_free, rule accountDeletion.reverts_synced [where x = "(rawID, rawFallback, revoke)", OF pre], simp, rule a)
qed

text \<open>Of the steps of the rollback of a deletion only the last one looks at the internal keys.\<close>

lemma insertRoute_internal:
  "insertRoute u x (db\<lparr>cb_internal := j\<rparr>) = map_sum id (\<lambda>e. e\<lparr>cb_internal := j\<rparr>) (insertRoute u x db)"
  by (simp add: insertRoute_def split: option.split)

lemma restoreUserMembership_internal:
  "restoreUserMembership u x (db\<lparr>cb_internal := j\<rparr>) = map_sum id (\<lambda>e. e\<lparr>cb_internal := j\<rparr>) (restoreUserMembership u x db)"
  by (simp add: restoreUserMembership_def writeMembership_def split: option.split)

lemma insertTags_internal:
  "insertTags u ts (db\<lparr>cb_internal := j\<rparr>) = map_sum id (\<lambda>e. e\<lparr>cb_internal := j\<rparr>) (insertTags u ts db)"
proof (induction ts arbitrary: db)
  case (Cons t ts)
  have swap: "db\<lparr>cb_internal := j, cb_tags := x\<rparr> = db\<lparr>cb_tags := x, cb_internal := j\<rparr>" for x by simp
  show ?case using Cons.IH [of "db\<lparr>cb_tags := cb_tags db @ [(u, t)]\<rparr>"] unfolding insertTags.simps by (simp add: swap)
qed simp

lemma restoreDeletionTx_Inr:
  assumes "restoreDeletionTx x db = Inr ((), y)"
  obtains table db1 db2 db3 where "insertKeys (sort_key fst (ud_Rows x)) (cb_keys db) = Inr table"
    "insertRoute (ud_User x) (ud_Route x) (db\<lparr>cb_keys := table\<rparr>) = Inr db1"
    "restoreUserMembership (ud_User x) (ud_Membership x) db1 = Inr db2"
    "insertTags (ud_User x) (ud_Tags x) db2 = Inr db3" "insertInternal (ud_User x) (ud_InternalKey x) db3 = Inr y"
    "userKeys (ud_User x) (cb_keys db) = []"
proof -
  have "map_sum id (Pair ()) m = Inr ((), y) \<longleftrightarrow> m = Inr y" for m :: "control_error + controldb" by (cases m) auto
  then show thesis using assms that by (auto simp: restoreDeletionTx_def split: if_splits sum.splits)
qed

lemma restoreDeletionTx_internal:
  assumes "restoreDeletionTx x (db\<lparr>cb_internal := j\<rparr>) = Inr ((), d)" "restoreDeletionTx x db = Inr ((), y)"
  obtains i where "d = y\<lparr>cb_internal := i\<rparr>"
    "i = j \<or> (\<exists>k. ud_InternalKey x = Some k \<and> i = j @ [(ud_User x, k)] \<and> \<not> has_key j (ud_User x) \<and> (\<forall>(e, l) \<in> set j. ik_Key l \<noteq> ik_Key k))"
proof -
  obtain table db1 db2 db3 where t: "insertKeys (sort_key fst (ud_Rows x)) (cb_keys db) = Inr table"
    "insertRoute (ud_User x) (ud_Route x) (db\<lparr>cb_keys := table\<rparr>) = Inr db1"
    "restoreUserMembership (ud_User x) (ud_Membership x) db1 = Inr db2"
    "insertTags (ud_User x) (ud_Tags x) db2 = Inr db3" "insertInternal (ud_User x) (ud_InternalKey x) db3 = Inr y"
    "userKeys (ud_User x) (cb_keys db) = []"
    by (rule restoreDeletionTx_Inr [OF assms(2)])
  have swap: "db\<lparr>cb_internal := j, cb_keys := table\<rparr> = db\<lparr>cb_keys := table, cb_internal := j\<rparr>" by simp
  have "insertInternal (ud_User x) (ud_InternalKey x) (db3\<lparr>cb_internal := j\<rparr>) = Inr d"
  proof -
    have "map_sum id (Pair ()) m = Inr ((), d) \<longleftrightarrow> m = Inr d" for m :: "control_error + controldb" by (cases m) auto
    then show ?thesis
      using assms(1) insertRoute_internal [of "ud_User x" "ud_Route x" j "db\<lparr>cb_keys := table\<rparr>"]
        restoreUserMembership_internal [of "ud_User x" "ud_Membership x" j db1] insertTags_internal [of "ud_User x" "ud_Tags x" j db2]
      by (simp add: restoreDeletionTx_def t swap)
  qed
  moreover have "\<exists>i0. y = db3\<lparr>cb_internal := i0\<rparr>"
    using t(5) by (auto simp: insertInternal_def split: option.splits if_splits intro: exI [of _ "cb_internal db3"])
  then obtain i0 where y: "y = db3\<lparr>cb_internal := i0\<rparr>" by blast
  ultimately show thesis
  proof (cases "ud_InternalKey x")
    case None
    then show thesis using that [of j] \<open>insertInternal _ _ _ = Inr d\<close> y by (simp add: insertInternal_def)
  next
    case (Some k)
    then show thesis using that [of "j @ [(ud_User x, k)]"] \<open>insertInternal _ _ _ = Inr d\<close> y
      by (auto simp: insertInternal_def list_ex_iff split: if_splits)
  qed
qed

lemma insertTags_distinct:
  "insertTags u ts db = Inr d \<Longrightarrow> distinct (map (\<lambda>(e, t). (e, ut_TagID t)) (cb_tags db)) \<Longrightarrow>
   distinct (map (\<lambda>(e, t). (e, ut_TagID t)) (cb_tags d)) \<and> cb_routes d = cb_routes db \<and> cb_memberships d = cb_memberships db"
proof (induction ts arbitrary: db)
  case (Cons t ts)
  have new: "(u, ut_TagID t) \<notin> set (map (\<lambda>(e, t). (e, ut_TagID t)) (cb_tags db))"
    and rest: "insertTags u ts (db\<lparr>cb_tags := cb_tags db @ [(u, t)]\<rparr>) = Inr d"
    using Cons.prems(1) by (auto simp: list_ex_iff split: if_splits)
  show ?case using Cons.IH [OF rest] new Cons.prems(2) by simp
qed simp

lemma restoreDeletionTx_wf:
  assumes "restoreDeletionTx x db = Inr ((), y)"
    and "wf_map (cb_routes db)" "wf_map (cb_memberships db)" "distinct (map (\<lambda>(e, t). (e, ut_TagID t)) (cb_tags db))"
  shows "wf_map (cb_routes y)" "wf_map (cb_memberships y)" "distinct (map (\<lambda>(e, t). (e, ut_TagID t)) (cb_tags y))"
proof -
  obtain table db1 db2 db3 where t: "insertRoute (ud_User x) (ud_Route x) (db\<lparr>cb_keys := table\<rparr>) = Inr db1"
    "restoreUserMembership (ud_User x) (ud_Membership x) db1 = Inr db2"
    "insertTags (ud_User x) (ud_Tags x) db2 = Inr db3" "insertInternal (ud_User x) (ud_InternalKey x) db3 = Inr y"
    by (rule restoreDeletionTx_Inr [OF assms(1)])
  have 1: "wf_map (cb_routes db1)" "cb_memberships db1 = cb_memberships db" "cb_tags db1 = cb_tags db"
    using t(1) assms(2) by (auto simp: insertRoute_def wf_map_def has_key_set split: option.splits if_splits)
  have 2: "wf_map (cb_memberships db2)" "cb_routes db2 = cb_routes db1" "cb_tags db2 = cb_tags db1"
    using t(2) assms(3) 1(2) by (auto simp: restoreUserMembership_def writeMembership_def split: option.splits if_splits)
  have 3: "cb_routes y = cb_routes db3" "cb_memberships y = cb_memberships db3" "cb_tags y = cb_tags db3"
    using t(4) by (auto simp: insertInternal_def split: option.splits if_splits)
  have "distinct (map (\<lambda>(e, t). (e, ut_TagID t)) (cb_tags db2))" using assms(4) 1(3) 2(3) by simp
  note T = insertTags_distinct [OF t(3) this]
  show "wf_map (cb_routes y)" "wf_map (cb_memberships y)" "distinct (map (\<lambda>(e, t). (e, ut_TagID t)) (cb_tags y))"
    using T 1(1) 2(1,2) 3 by simp_all
qed

lemma internal_ok_snoc:
  assumes "internal_ok j" "\<not> has_key j u" "\<forall>(e, l) \<in> set j. ik_Key l \<noteq> ik_Key k" "sql_norm u = u" "validInternalKey (ik_Key k)"
  shows "internal_ok (j @ [(u, k)])"
proof -
  have "map_of j u = None" using assms(2) by (simp add: has_key_map_of)
  then have "internal_secrets (j @ [(u, k)])"
    using assms(1,3) unfolding internal_ok_def internal_secrets_def map_of_snoc [OF \<open>map_of j u = None\<close>]
    by (auto split: if_splits dest!: map_of_SomeD)
  then show ?thesis using assms by (auto simp: internal_ok_def wf_map_def norm_names_def has_key_set)
qed

lemma user_deletion_undone:
  assumes ok: "catalog_ok db" "normal_users (cb_keys db)" and syn: "internal_step\<^sup>*\<^sup>* db1 db2"
    and a: "ApplyUserDeletion tx now fence user revoke db = (Inr x, db1)" and u: "RestoreUserDeletion tx' now' fence' x db2 = (r, d)"
  shows "catalog_ok d \<and> normal_users (cb_keys d)"
proof -
  have mid: "catalog_ok db1" "normal_users (cb_keys db1)" using user_deleted_ok [OF ok(1) a] user_deleted_normal [OF ok a] .
  note S = internal_steps_ok [OF syn mid(1)]
  have "cb_keys db2 = cb_keys db1" using arg_cong [OF S(2), of cb_keys] by simp
  then have mid': "catalog_ok db2" "normal_users (cb_keys db2)" using S(1) mid(2) by simp_all
  show ?thesis
  proof (cases r)
    case (Inl e)
    then show ?thesis using restores_Inl(3) u mid' by blast
  next
    case (Inr z)
    have pre: "user_tables db \<and> validateWriteFence now' [] (cb_leases db) = None"
      using catalog_tables [OF ok(1)] by (simp add: validateWriteFence_def)
    obtain y where y: "RestoreUserDeletion TxOK now' [] x db1 = (Inr (), y)" "same_db y db"
      using deletion.reverts [OF pre, of tx now fence "(user, revoke)" x db1] a by auto
    have "restoreDeletionTx x db1 = Inr ((), y)" using y(1) by (auto simp: RestoreUserDeletion_def split: if_splits dest: controlTx_Inr(1))
    moreover have "restoreDeletionTx x db2 = Inr ((), d)" using u Inr by (auto simp: RestoreUserDeletion_def split: if_splits dest: controlTx_Inr(1))
    ultimately obtain i where i: "d = y\<lparr>cb_internal := i\<rparr>" "i = cb_internal db2 \<or> (\<exists>k. ud_InternalKey x = Some k \<and> i = cb_internal db2 @ [(ud_User x, k)] \<and>
        \<not> has_key (cb_internal db2) (ud_User x) \<and> (\<forall>(e, l) \<in> set (cb_internal db2). ik_Key l \<noteq> ik_Key k))"
      using restoreDeletionTx_internal [of x "cb_internal db2" db1 d y] unfolding S(2) [symmetric] by metis
    have io: "internal_ok (cb_internal db)" "internal_ok (cb_internal db2)" using ok(1) mid'(1) by (simp_all add: catalog_ok_def)
    have del: "ud_User x = norm_user user" "ud_InternalKey x = userRow (norm_user user) (cb_internal db)"
      using ApplyUserDeletion_Inr [OF a] by (auto simp: deletionTx_def Let_def split: if_splits)
    have "validInternalKey (ik_Key k)" if "ud_InternalKey x = Some k" for k
      using that io(1) unfolding del internal_ok_def by (auto simp: userRow_eq dest!: map_of_SomeD)
    then have "internal_ok i" using i(2) internal_ok_snoc [OF io(2)] io(2) by (auto simp: del)
    moreover have "same_db d (db\<lparr>cb_internal := i\<rparr>)" using y(2) by (simp add: i(1) same_db_def)
    moreover have "wf_map (cb_routes db1)" "wf_map (cb_memberships db1)" "distinct (map (\<lambda>(e, t). (e, ut_TagID t)) (cb_tags db1))"
      using mid(1) by (simp_all add: catalog_ok_def routes_ok_def memberships_ok_def tags_ok_def)
    note restoreDeletionTx_wf [OF \<open>restoreDeletionTx x db1 = Inr ((), y)\<close> this]
    ultimately show ?thesis using same_catalog_ok [OF ok, of d i] by (simp add: i(1))
  qed
qed

lemma routes_undone:
  assumes ok: "catalog_ok db" "normal_users (cb_keys db)" and syn: "internal_step\<^sup>*\<^sup>* db1 db2" and p: "plan_maps asg ex"
    and a: "ApplyRoutesExpected tx now fence asg ex db = (Inr x, db1)" and u: "RestoreRoutesExpected tx' now' fence' ex asg db2 = (r, d)"
  shows "catalog_ok d \<and> normal_users (cb_keys d)"
proof (rule undone_ok [where undo' = "RestoreRoutesExpected tx' now' fence' ex asg" and undo = "RestoreRoutesExpected TxOK now' [] ex asg",
      OF ok routes_moved_ok [OF ok(1) a] routes_moved_normal [OF ok a] syn u])
  have "map_of (cb_routes db) v \<noteq> Some []" for v
  proof
    assume "map_of (cb_routes db) v = Some []"
    then have "[] \<in> set (accountIDs db)" using ok(1) by (auto simp: catalog_ok_def routes_ok_def dest!: map_of_SomeD)
    then have "accountIDPattern []" using ok(1) unfolding catalog_ok_def accounts_ok_def accountIDs_eq by blast
    then show False by (simp add: accountIDPattern_def)
  qed
  then have pre: "plan_maps asg ex \<and> (\<forall>v. map_of (cb_routes db) v \<noteq> Some []) \<and> validateWriteFence now' [] (cb_leases db) = None"
    using p by (simp add: validateWriteFence_def)
  show "\<exists>d'. RestoreRoutesExpected TxOK now' [] ex asg (db1\<lparr>cb_internal := cb_internal db2\<rparr>) = (Inr (), d') \<and> same_db d' (db\<lparr>cb_internal := cb_internal db2\<rparr>)"
    by (rule RestoreRoutes_reverts [OF pre a])
qed (erule restores_Inl, erule restores_keep, erule restores_free)

subsection \<open>The invariant\<close>

lemma step_cases:
  assumes "f = (r, db')" "\<And>e. f = (Inl e, db') \<Longrightarrow> db' = db" "\<And>x. f = (Inr x, db') \<Longrightarrow> catalog_ok db'"
    and "\<And>x. f = (Inr x, db') \<Longrightarrow> normal_users (cb_keys db')" "catalog_ok db" "normal_users (cb_keys db)"
  shows "catalog_ok db' \<and> normal_users (cb_keys db')"
  using assms by (cases r) auto

lemma internal_restored_step:
  assumes "catalog_ok db" "normal_users (cb_keys db)" "RestoreInternalKey tx now fence user previous db = (r, db')"
    and "\<forall>k. previous = Some k \<longrightarrow> validInternalKey (ik_Key k)"
  shows "catalog_ok db' \<and> normal_users (cb_keys db')"
proof -
  obtain i where "catalog_ok db'" "db' = db\<lparr>cb_internal := i\<rparr>" using internal_restored_ok [OF assms(1,3,4)] by blast
  then show ?thesis using assms(2) by simp
qed

lemma catalog_step_ok:
  assumes "catalog_step parse db db'" "catalog_ok db" "normal_users (cb_keys db)"
  shows "catalog_ok db' \<and> normal_users (cb_keys db')"
  using assms
  by (induction rule: catalog_step.induct)
    (((rule user_undone account_undone user_deletion_undone routes_undone internal_restored_step); assumption) |
      (erule step_cases, erule operations_fail, erule (1) catalog_ok_steps, (assumption)?, erule (2) normal_steps, assumption, assumption))+

lemma catalog_ok_reachable: "catalog_reachable parse db \<Longrightarrow> catalog_ok db \<and> normal_users (cb_keys db)"
proof (induction rule: catalog_reachable.induct)
  case (start db)
  then show ?case using catalog_ok_init by (simp add: catalog_init_def normal_users_def)
qed (blast dest: catalog_step_ok)

subsection \<open>A rollback that comes too late\<close>

definition emptyCatalog :: controldb where
  "emptyCatalog = \<lparr>cb_leases = [], cb_accounts = [], cb_keys = [], cb_routes = [], cb_internal = [], cb_teams = [],
     cb_memberships = [], cb_tag_ids = [], cb_tags = []\<rparr>"

lemma emptyCatalog_reachable: "catalog_reachable parse emptyCatalog"
  by (rule start) (simp add: catalog_init_def emptyCatalog_def)

text \<open>
  The failover worker is a process of its own and does not share the lock of the admin process. Its
  rollback of a move compares the routes but does not look at the accounts: when an administrator
  deletes the account a user was moved away from before the publication of the move fails, the
  rollback routes the user to the account that is gone.
\<close>

definition raceStart :: controldb where
  "raceStart =
     (let db1 = snd (ApplyAccountCreation Some TxOK 7 [] sampleCandidate emptyCatalog);
          db2 = snd (ApplyAccountCreation Some TxOK 7 [] (sampleCandidate\<lparr>an_ID := ''c2'', an_Email := ''d@x.y'', an_Port := 4\<rparr>) db1);
          db3 = snd (ApplyUserCreation TxOK 8 [] ''ann'' ''k'' None db2)
      in snd (ApplyRoutesExpected TxOK 9 [] [(''ann'', ''c1'')] [(''ann'', [])] db3))"

lemma ran:
  "catalog_reachable Some db \<Longrightarrow> catalog_reachable Some (snd (ApplyAccountCreation Some tx now fence a db))"
  "catalog_reachable Some db \<Longrightarrow> catalog_reachable Some (snd (ApplyUserCreation tx now fence u k t db))"
  "catalog_reachable Some db \<Longrightarrow> catalog_reachable Some (snd (ApplyRoutesExpected tx now fence asg ex db))"
  by (metis step account_created prod.collapse, metis step user_created prod.collapse, metis step routes_moved prod.collapse)

lemma raceStart_reachable: "catalog_reachable Some raceStart"
  unfolding raceStart_def Let_def by (intro ran emptyCatalog_reachable)

lemma late_route_rollback:
  "catalog_reachable Some raceStart \<and> (\<exists>moved db1 x db2 db3. ApplyRoutesExpected TxOK 10 [] [(''ann'', ''c2'')] [(''ann'', ''c1'')] raceStart = (Inr moved, db1) \<and>
     ApplyAccountDeletion TxOK 11 [] ''c1'' [] False db1 = (Inr x, db2) \<and>
     RestoreRoutesExpected TxOK 12 [] [(''ann'', ''c1'')] [(''ann'', ''c2'')] db2 = (Inr (), db3) \<and>
     map_of (cb_routes db3) ''ann'' = Some ''c1'' \<and> ''c1'' \<notin> set (accountIDs db3))"
proof -
  let ?move = "ApplyRoutesExpected TxOK 10 [] [(''ann'', ''c2'')] [(''ann'', ''c1'')] raceStart"
  let ?drop = "ApplyAccountDeletion TxOK 11 [] ''c1'' [] False (snd ?move)"
  let ?undo = "RestoreRoutesExpected TxOK 12 [] [(''ann'', ''c1'')] [(''ann'', ''c2'')] (snd ?drop)"
  have "\<not> isl (fst ?move)" "\<not> isl (fst ?drop)" "\<not> isl (fst ?undo)" by code_simp+
  then obtain m d1 x d2 y d3 where r: "?move = (Inr m, d1)" "?drop = (Inr x, d2)" "?undo = (Inr y, d3)"
    by (metis ran_ok)
  have dangles: "map_of (cb_routes (snd ?undo)) ''ann'' = Some ''c1''" "list_all (\<lambda>i. i \<noteq> ''c1'') (accountIDs (snd ?undo))"
    by code_simp+
  have "d1 = snd ?move" "d2 = snd ?drop" "d3 = snd ?undo" using r by simp_all
  then show ?thesis using raceStart_reachable r dangles by (auto simp: list_all_iff)
qed

section \<open>Properties\<close>

text \<open>
  C5: The catalogue invariant. However users, keys, routes, accounts and internal keys are created,
  changed and deleted, by whatever processes, in whatever order, with failures at any point, each
  change possibly rolled back before the next change of anything but the internal keys: an
  active user has exactly one row of its one key at every account and no other; a key, active or
  not, belongs to one user; rows are labelled with user and account; there is one default account
  and it is enabled; every route leads to an account that exists; account identifiers, user names and
  internal keys have their documented form.
\<close>

theorem catalog_invariant:
  assumes "catalog_reachable parse db"
  shows "catalog_ok db \<and> normal_users (cb_keys db)"
  using assms by (rule catalog_ok_reachable)

theorem catalog_invariant_witness:
  "\<exists>db1 db2. snd (ApplyAccountCreation Some TxOK 7 [] sampleCandidate emptyCatalog) = db1 \<and>
     snd (ApplyUserCreation TxOK 8 [] ''Ann '' ''k'' None db1) = db2 \<and> length (cb_keys db2) = 1 \<and> catalog_ok db2"
proof -
  obtain r1 db1 where 1: "ApplyAccountCreation Some TxOK 7 [] sampleCandidate emptyCatalog = (r1, db1)" by fastforce
  obtain r2 db2 where 2: "ApplyUserCreation TxOK 8 [] ''Ann '' ''k'' None db1 = (r2, db2)" by fastforce
  have "catalog_reachable Some db2"
    by (rule step [OF step [OF emptyCatalog_reachable account_created [OF 1]] user_created [OF 2]])
  from catalog_invariant [OF this] have "catalog_ok db2" ..
  moreover have "length (cb_keys (snd (ApplyUserCreation TxOK 8 [] ''Ann '' ''k'' None
      (snd (ApplyAccountCreation Some TxOK 7 [] sampleCandidate emptyCatalog))))) = 1" by code_simp
  ultimately show ?thesis using 1 2 by simp
qed

end
