(* ===== verification/Publish.thy ===== *)
theory Publish
  imports Catalog
begin

text \<open>
  From the catalogue to the gateway: what a published snapshot makes a gateway accept, for every
  catalogue the store can hold. The chain is \<open>PublishAuthSnapshot\<close> (\<open>internal/failover\<close>), the
  file, \<open>ParseAuthSnapshot\<close>, \<open>LoadAuthSnapshot\<close> and \<open>Authorize\<close> (\<open>internal/gateway\<close>).
\<close>

section \<open>Definitions\<close>

text \<open>
  What the tables mean: an active row of \<open>key\<close> whose user is routed to an enabled account, with
  the identity the gateway is to use.
\<close>

definition authorizes :: "controldb \<Rightarrow> string \<Rightarrow> Identity \<Rightarrow> bool" where
  "authorizes db key i \<longleftrightarrow>
     (\<exists>s k p a internal. (s, k) \<in> set (cb_keys db) \<and> isActive k \<and> kr_Key k = key \<and>
        (p, a) \<in> set (cb_accounts db) \<and> an_GroupEnabled a \<and> map_of (cb_routes db) (kr_User k) = Some (an_ID a) \<and>
        map_of (cb_internal db) (kr_User k) = Some internal \<and>
        i = \<lparr>id_UserEmail = kr_User k, id_Account = an_ID a, id_Backend = ''cliproxy-'' @ an_ID a @ '':8317'',
             id_InternalKey = ik_Key internal, id_Label = kr_User k @ '':'' @ an_ID a\<rparr>)"

section \<open>Lemmas\<close>

subsection \<open>Names without white space\<close>

lemma leading_rune_none:
  assumes "\<forall>c \<in> set s. P c" "\<forall>r \<in> set rs. \<forall>c \<in> set r. \<not> P c"
  shows "leading_rune rs s = None"
proof (rule ccontr)
  assume "leading_rune rs s \<noteq> None"
  then obtain r where r: "r \<in> set rs" "r \<noteq> []" "has_prefix r s" using leading_rune_Some by blast
  then have "hd r \<in> set s" by (metis append_is_Nil_conv has_prefix_iff hd_append2 hd_in_set list.set_sel(1))
  then show False using assms r(1,2) hd_in_set by blast
qed

text \<open>Printable ASCII other than the blank.\<close>

definition graphic :: "char \<Rightarrow> bool" where
  "graphic c \<longleftrightarrow> 33 \<le> byte c \<and> byte c \<le> 126"

lemma space_runes_no_graphic: "\<forall>r \<in> set space_runes. \<forall>c \<in> set r. \<not> graphic c"
  by (simp add: space_runes_def graphic_def byte_def)

lemma trim_graphic:
  assumes "\<forall>c \<in> set s. graphic c"
  shows "trim_space s = s"
proof -
  have "trim_left s = s"
    unfolding trim_left_def by (subst strip_runes.simps) (simp add: leading_rune_none [OF assms space_runes_no_graphic])
  moreover have "leading_rune (map rev space_runes) (rev s) = None"
    by (rule leading_rune_none [of _ graphic]) (use assms space_runes_no_graphic in auto)
  then have "trim_right s = s" unfolding trim_right_def by (subst strip_runes.simps) simp
  ultimately show ?thesis by (simp add: trim_space_def)
qed

lemma trim_account:
  assumes "accountIDPattern a"
  shows "trim_space a = a"
proof (rule trim_graphic)
  have "graphic c" if "account_char c" for c
    using that by (auto simp: account_char_def is_lower_def is_digit_def graphic_def byte_def)
  moreover have "graphic c" if "is_lower c" for c using that by (simp add: is_lower_def graphic_def)
  ultimately show "\<forall>c \<in> set a. graphic c" using assms by (cases a) (auto simp: accountIDPattern_def list_all_iff)
qed

lemma accountIDPattern_name: "accountIDPattern a \<Longrightarrow> accountNamePattern a"
  by (simp add: accountIDPattern_def accountNamePattern_def)

subsection \<open>The pairs of a user\<close>

lemma activeOf_rows:
  assumes "normal_users rows"
  shows "activeOf u (map snd rows) = map snd (activeKeyRows u rows)"
  using assms
proof (induction rows)
  case (Cons r rows)
  obtain s k where r: "r = (s, k)" by fastforce
  have "norm_user (kr_User k) = kr_User k" "sql_norm (kr_User k) = kr_User k"
    using Cons.prems normal_users_sql [OF Cons.prems] by (auto simp: normal_users_def r)
  moreover have "activeOf u (map snd rows) = map snd (activeKeyRows u rows)"
    using Cons by (auto simp: normal_users_def)
  ultimately show ?case by (simp add: r activeOf_def activeKeyRows_def)
qed (simp add: activeOf_def activeKeyRows_def)

lemma secretsOf_single:
  assumes "items \<noteq> []" "\<forall>k \<in> set items. kr_Key k = key"
  shows "length (secretsOf items) = 1"
proof -
  have "set (secretsOf items) = {key}" using assms by (cases items) (auto simp: secretsOf_def set_dedup)
  then show ?thesis using distinct_card [of "secretsOf items"] by (simp add: secretsOf_def)
qed

lemma catalog_lookup:
  assumes "catalog_ok db"
  shows "map_of (accountCatalog (ReadAccounts db)) ident = Some m \<longleftrightarrow>
     (\<exists>p a. (p, a) \<in> set (cb_accounts db) \<and> an_ID a = ident \<and> m = readProxyMode a)"
proof -
  have i: "an_ID (readProxyMode a) = an_ID a" for a by (simp add: readProxyMode_def)
  have "map an_ID (ReadAccounts db) = map (an_ID \<circ> snd) (cb_accounts db)" by (simp add: ReadAccounts_def i case_prod_beta)
  then have d: "distinct (map an_ID (ReadAccounts db))" using assms by (simp add: catalog_ok_def accounts_ok_def account_table_def)
  have m: "m \<in> set (ReadAccounts db) \<longleftrightarrow> (\<exists>p a. (p, a) \<in> set (cb_accounts db) \<and> m = readProxyMode a)"
    by (force simp: ReadAccounts_def)
  show ?thesis unfolding map_of_accountCatalog [OF d] m using i by metis
qed

lemma userPairs_catalog:
  assumes c: "catalog_ok db" and n: "normal_users (cb_keys db)" and u: "u \<in> set (activeRecordUsers (ReadKeyRecords db))"
  shows "(key, acc) \<in> set (userPairs (accountCatalog (ReadAccounts db)) (ReadRoutes db) u (activeOf u (ReadKeyRecords db))) \<longleftrightarrow>
     (\<exists>s k p a. (s, k) \<in> set (cb_keys db) \<and> isActive k \<and> kr_User k = u \<and> kr_Key k = key \<and>
        (p, a) \<in> set (cb_accounts db) \<and> an_GroupEnabled a \<and> map_of (cb_routes db) u = Some (an_ID a) \<and> acc = an_ID a)"
    (is "?L \<longleftrightarrow> ?R")
proof -
  define items where "items = activeOf u (ReadKeyRecords db)"
  have it: "items = map snd (activeKeyRows u (cb_keys db))" unfolding items_def ReadKeyRecords_def by (rule activeOf_rows [OF n])
  have ne: "items \<noteq> []" "u \<noteq> []" using u by (auto simp: items_def set_activeRecordUsers)
  have in_items: "k \<in> set items \<longleftrightarrow> (\<exists>s. (s, k) \<in> set (cb_keys db)) \<and> isActive k \<and> kr_User k = u" for k
    using normal_users_sql [OF n] unfolding it by (force simp: activeKeyRows_def)
  have mat: "user_matrix (accountIDs db) u (activeKeyRows u (cb_keys db))"
    using c by (simp add: catalog_ok_def keys_ok_def matrix_ok_def)
  then obtain key0 where k0: "\<forall>k \<in> set items. kr_Key k = key0" and accs: "set (map kr_Account items) = set (accountIDs db)"
    using ne(1) unfolding user_matrix_def it by fastforce
  have one: "length (secretsOf items) = 1" by (rule secretsOf_single [OF ne(1) k0])
  have ids: "set (accountIDs db) = (an_ID \<circ> snd) ` set (cb_accounts db)" by (simp add: accountIDs_eq)
  have pat: "accountIDPattern x" if "x \<in> set (accountIDs db)" for x
    using that c by (auto simp: catalog_ok_def accounts_ok_def accountIDs_eq)
  have enabled: "an_GroupEnabled (readProxyMode a) = an_GroupEnabled a" for a by (simp add: readProxyMode_def)
  show ?thesis
  proof (cases "map_of (cb_routes db) u")
    case None
    have "map_of (accountCatalog (ReadAccounts db)) [] = None"
    proof (rule ccontr)
      assume "map_of (accountCatalog (ReadAccounts db)) [] \<noteq> None"
      then have "[] \<in> set (accountIDs db)" using catalog_lookup [OF c] by (force simp: ids)
      then show False using pat [of "[]"] by (simp add: accountIDPattern_def)
    qed
    then show ?thesis
      using None one unfolding items_def [symmetric] by (simp add: userPairs_def Let_def gstring_def ReadRoutes_def)
  next
    case (Some x)
    have "(u, x) \<in> set (cb_routes db)" using Some by (rule map_of_SomeD)
    then have x: "x \<in> set (accountIDs db)" using c by (auto simp: catalog_ok_def routes_ok_def)
    have t: "trim_space (gstring (ReadRoutes db) u) = x" using Some trim_account [OF pat [OF x]] by (simp add: gstring_def ReadRoutes_def)
    obtain p a where a: "(p, a) \<in> set (cb_accounts db)" "an_ID a = x" using x by (auto simp: ids)
    have cat: "map_of (accountCatalog (ReadAccounts db)) x = Some (readProxyMode a)" using a catalog_lookup [OF c] by blast
    have uniq: "q = a" if "(p', q) \<in> set (cb_accounts db)" "an_ID q = x" for p' q
      using that a c account_row_unique unfolding catalog_ok_def accounts_ok_def by (metis snd_conv)
    obtain k where k: "List.find (\<lambda>k. kr_Account k = x) items = Some k" using x accs by (metis (mono_tags, lifting) find_exists imageE set_map)
    then have ki: "k \<in> set items" using find_SomeD by fast
    have pairs: "userPairs (accountCatalog (ReadAccounts db)) (ReadRoutes db) u items = (if an_GroupEnabled a then [(kr_Key k, x)] else [])"
      using one by (simp add: userPairs_def Let_def t cat k enabled)
    have key0: "kr_Key k = key0" using k0 ki by blast
    show ?thesis unfolding items_def [symmetric] pairs
    proof
      assume "(key, acc) \<in> set (if an_GroupEnabled a then [(kr_Key k, x)] else [])"
      then have "an_GroupEnabled a" "key = kr_Key k" "acc = an_ID a" using a(2) by (auto split: if_splits)
      moreover obtain s where "(s, k) \<in> set (cb_keys db)" "isActive k" "kr_User k = u" using ki in_items by blast
      ultimately show ?R using a Some by blast
    next
      assume ?R
      then obtain s k' p' a' where r: "(s, k') \<in> set (cb_keys db)" "isActive k'" "kr_User k' = u" "kr_Key k' = key"
        "(p', a') \<in> set (cb_accounts db)" "an_GroupEnabled a'" "map_of (cb_routes db) u = Some (an_ID a')" "acc = an_ID a'" by blast
      have "a' = a" using uniq [OF r(5)] r(7) Some by simp
      moreover have "key = key0" using k0 in_items r(1-4) by metis
      ultimately show "(key, acc) \<in> set (if an_GroupEnabled a then [(kr_Key k, x)] else [])" using r(6,8) key0 a(2) by simp
    qed
  qed
qed

subsection \<open>The records of the catalogue\<close>

abbreviation dbTriples :: "controldb \<Rightarrow> (string \<times> string \<times> string \<times> string) list" where
  "dbTriples db \<equiv>
     userTriples (accountCatalog (ReadAccounts db)) (ReadRoutes db) (recordsByUser (ReadKeyRecords db)) (ReadInternalKeys db)
       (activeRecordUsers (ReadKeyRecords db))"

lemma dbSnapshot_iff:
  "dbSnapshot uuid now db = Inr s \<longleftrightarrow>
     (\<forall>u \<in> set (activeRecordUsers (ReadKeyRecords db)). internal_ready (ReadInternalKeys db) u) \<and>
     s = \<lparr>as_Version = 1, as_Generation = newGeneration uuid, as_GeneratedAt = f64_of_int now,
          as_Records = fold emitTriple (dbTriples db) []\<rparr>"
proof -
  have m: "map_sum id f x = Inr s \<longleftrightarrow> (\<exists>r. x = Inr r \<and> s = f r)" for f :: "AuthRecord list \<Rightarrow> AuthSnapshot" and x :: "publish_error + AuthRecord list"
    by (cases x) auto
  show ?thesis unfolding buildSnapshot_def Let_def m buildRecords_iff sorted_users by blast
qed

lemma in_dbTriples:
  "(u, i, pair) \<in> set (dbTriples db) \<longleftrightarrow>
     u \<in> set (activeRecordUsers (ReadKeyRecords db)) \<and> i = ik_Key (the (map_of (ReadInternalKeys db) u)) \<and>
     pair \<in> set (userPairs (accountCatalog (ReadAccounts db)) (ReadRoutes db) u (activeOf u (ReadKeyRecords db)))"
proof -
  have "(case map_of (recordsByUser (ReadKeyRecords db)) v of None \<Rightarrow> [] | Some items \<Rightarrow> items) = activeOf v (ReadKeyRecords db)"
    if "v \<in> set (activeRecordUsers (ReadKeyRecords db))" for v
    using that by (simp add: recordsByUser_lookup set_activeRecordUsers)
  then show ?thesis by (force simp: userTriples_def)
qed

lemma active_user:
  assumes "normal_users (cb_keys db)" "keys_ok ids (cb_keys db)" "(s, k) \<in> set (cb_keys db)" "isActive k"
  shows "kr_User k \<in> set (activeRecordUsers (ReadKeyRecords db))"
proof -
  have k: "k \<in> snd ` set (cb_keys db)" using assms(3) by force
  then have nu: "norm_user (kr_User k) = kr_User k" using assms(1) unfolding normal_users_def by blast
  have "(s, k) \<in> set (activeKeyRows (kr_User k) (cb_keys db))"
    using assms(3,4) normal_users_sql [OF assms(1,3)] by (simp add: activeKeyRows_def)
  moreover have "user_matrix ids (kr_User k) (activeKeyRows (kr_User k) (cb_keys db))"
    using assms(2) by (simp add: keys_ok_def matrix_ok_def)
  ultimately have "kr_User k \<noteq> []" by (auto simp: user_matrix_def)
  moreover have "k \<in> set (activeOf (kr_User k) (ReadKeyRecords db))"
    using k assms(4) nu by (simp add: activeOf_def ReadKeyRecords_def)
  ultimately show ?thesis by (auto simp: set_activeRecordUsers)
qed

lemma authorizes_triples:
  assumes c: "catalog_ok db" and n: "normal_users (cb_keys db)"
    and ready: "\<forall>u \<in> set (activeRecordUsers (ReadKeyRecords db)). internal_ready (ReadInternalKeys db) u"
  shows "authorizes db key i \<longleftrightarrow> (\<exists>u internal acc. (u, internal, key, acc) \<in> set (dbTriples db) \<and> i = identity_of (authRecord u internal (key, acc)))"
    (is "?L \<longleftrightarrow> ?R")
proof
  have ko: "keys_ok (accountIDs db) (cb_keys db)" using c by (simp add: catalog_ok_def)
  assume ?L
  then obtain s k p a internal where k: "(s, k) \<in> set (cb_keys db)" "isActive k" "kr_Key k = key"
    and a: "(p, a) \<in> set (cb_accounts db)" "an_GroupEnabled a" "map_of (cb_routes db) (kr_User k) = Some (an_ID a)"
    and i: "map_of (cb_internal db) (kr_User k) = Some internal"
      "i = \<lparr>id_UserEmail = kr_User k, id_Account = an_ID a, id_Backend = ''cliproxy-'' @ an_ID a @ '':8317'',
             id_InternalKey = ik_Key internal, id_Label = kr_User k @ '':'' @ an_ID a\<rparr>"
    unfolding authorizes_def by blast
  note u = active_user [OF n ko k(1,2)]
  have "(kr_User k, ik_Key internal, key, an_ID a) \<in> set (dbTriples db)"
    unfolding in_dbTriples userPairs_catalog [OF c n u] using u k a i(1) by (auto simp: ReadInternalKeys_def)
  moreover have "i = identity_of (authRecord (kr_User k) (ik_Key internal) (key, an_ID a))"
    by (simp add: i(2) identity_of_def authRecord_def)
  ultimately show ?R by blast
next
  assume ?R
  then obtain u internal acc where t: "(u, internal, key, acc) \<in> set (dbTriples db)"
    and i: "i = identity_of (authRecord u internal (key, acc))" by blast
  have u: "u \<in> set (activeRecordUsers (ReadKeyRecords db))" and int: "internal = ik_Key (the (map_of (cb_internal db) u))"
    using t unfolding in_dbTriples by (simp_all add: ReadInternalKeys_def)
  obtain ik where ik: "map_of (cb_internal db) u = Some ik" using ready u by (auto simp: internal_ready_def ReadInternalKeys_def)
  obtain s k p a where "(s, k) \<in> set (cb_keys db)" "isActive k" "kr_User k = u" "kr_Key k = key"
    "(p, a) \<in> set (cb_accounts db)" "an_GroupEnabled a" "map_of (cb_routes db) u = Some (an_ID a)" "acc = an_ID a"
    using t unfolding in_dbTriples userPairs_catalog [OF c n u] by blast
  moreover have "i = \<lparr>id_UserEmail = u, id_Account = acc, id_Backend = ''cliproxy-'' @ acc @ '':8317'',
             id_InternalKey = ik_Key ik, id_Label = u @ '':'' @ acc\<rparr>"
    using ik by (simp add: i int identity_of_def authRecord_def)
  ultimately show ?L using ik unfolding authorizes_def by blast
qed

text \<open>Every snapshot built from a catalogue passes the gateway's validation.\<close>

lemma dbSnapshot_wf:
  assumes c: "catalog_ok db" and n: "normal_users (cb_keys db)" and s: "dbSnapshot uuid now db = Inr s"
    and g: "validLowerHex (newGeneration uuid) 32"
  shows "wf_auth s"
proof -
  note S = s [unfolded dbSnapshot_iff]
  have "validAuthRecord r" if "r \<in> set (as_Records s)" for r
  proof -
    have "r \<in> set (fold emitTriple (dbTriples db) [])" using that S by simp
    then obtain u i key acc where t: "(u, i, key, acc) \<in> set (dbTriples db)" and r: "r = authRecord u i (key, acc)"
      using emitted_from [of r "dbTriples db" "[]"] by auto
    have u: "u \<in> set (activeRecordUsers (ReadKeyRecords db))" and i: "i = ik_Key (the (map_of (ReadInternalKeys db) u))"
      using t unfolding in_dbTriples by blast+
    have "u \<noteq> []" using u by (simp add: set_activeRecordUsers)
    moreover have "validInternalKey i" using S u i by (auto simp: internal_ready_def)
    moreover have "accountIDPattern acc"
    proof -
      obtain p a where "(p, a) \<in> set (cb_accounts db)" "acc = an_ID a"
        using t unfolding in_dbTriples userPairs_catalog [OF c n u] by blast
      then show ?thesis using c by (force simp: catalog_ok_def accounts_ok_def)
    qed
    ultimately show ?thesis unfolding r by (intro authRecord_valid) (auto simp: accountIDPattern_name)
  qed
  moreover have "distinct (map ExternalKeySHA256 (as_Records s))" using S distinct_emitted by simp
  ultimately show ?thesis using S g by (simp add: wf_auth_def)
qed

subsection \<open>The gateway\<close>

lemma wf_auth_unique:
  assumes "wf_auth s" "r \<in> set (as_Records s)" "r' \<in> set (as_Records s)" "ExternalKeySHA256 r' = ExternalKeySHA256 r"
  shows "r' = r"
  using inj_onD [of ExternalKeySHA256 "set (as_Records s)" r' r] assms by (simp add: wf_auth_def distinct_map)

lemma Authorize_records:
  assumes u: "authUsable now (eng_auth eng)" and a: "eng_auth eng = Some a" "au_byDigest a = byDigest (as_Records s)" and wf: "wf_auth s"
  shows "dc_Allowed (Authorize eng now header e) \<longleftrightarrow>
      (\<exists>key r. ExtractBearer header = Some key \<and> r \<in> set (as_Records s) \<and> ExternalKeySHA256 r = sha256_hex key \<and>
         \<not> (e \<and> (\<exists>u. quotaEnforced eng now (id_UserEmail (identity_of r)) u)))" (is ?A)
    and "\<lbrakk>ExtractBearer header = Some key; r \<in> set (as_Records s); ExternalKeySHA256 r = sha256_hex key\<rbrakk> \<Longrightarrow>
      dc_Identity (Authorize eng now header e) = Some (identity_of r)"
proof -
  note A = Authorize_Some [OF u a(1), of header e, unfolded a(2)]
  have D: "(\<exists>w. Authorize eng now header e = allowDecision (identity_of r) w) \<and> \<not> (e \<and> (\<exists>u. quotaEnforced eng now (id_UserEmail (identity_of r)) u)) \<or>
      (e \<and> (\<exists>u. quotaEnforced eng now (id_UserEmail (identity_of r)) u \<and> Authorize eng now header e = quotaExceededDecision (identity_of r) u now))"
    if "ExtractBearer header = Some key" "r \<in> set (as_Records s)" "ExternalKeySHA256 r = sha256_hex key" for key r
  proof -
    have m: "map_of (byDigest (as_Records s)) (sha256_hex key) = Some (identity_of r)"
      unfolding byDigest_Some [OF wf] using that by blast
    show ?thesis
    proof (cases "\<exists>u. quotaEnforced eng now (id_UserEmail (identity_of r)) u")
      case True
      then show ?thesis using m that(1) by (auto simp: A authorizeQuota_enforced)
    next
      case False
      then show ?thesis using m that(1) authorizeQuota_open [of eng now "identity_of r"] by (auto simp: A)
    qed
  qed
  then show "\<lbrakk>ExtractBearer header = Some key; r \<in> set (as_Records s); ExternalKeySHA256 r = sha256_hex key\<rbrakk> \<Longrightarrow>
      dc_Identity (Authorize eng now header e) = Some (identity_of r)"
    by (fastforce simp: allowDecision_def quotaExceededDecision_def)
  show ?A
  proof (cases "\<exists>key r. ExtractBearer header = Some key \<and> r \<in> set (as_Records s) \<and> ExternalKeySHA256 r = sha256_hex key")
    case False
    then have "Option.bind (ExtractBearer header) (\<lambda>k. map_of (byDigest (as_Records s)) (sha256_hex k)) = None"
      using byDigest_Some [OF wf] by (cases "ExtractBearer header"; cases "map_of (byDigest (as_Records s)) (sha256_hex (the (ExtractBearer header)))") auto
    then show ?thesis using False by (auto simp: A invalidKeyDecision_def)
  next
    case True
    then obtain key r where r: "ExtractBearer header = Some key" "r \<in> set (as_Records s)" "ExternalKeySHA256 r = sha256_hex key" by blast
    have "r' = r" if "r' \<in> set (as_Records s)" "ExternalKeySHA256 r' = sha256_hex key" for r'
      using wf_auth_unique [OF wf r(2) that(1)] that(2) r(3) by simp
    then have "?A \<longleftrightarrow> (dc_Allowed (Authorize eng now header e) \<longleftrightarrow>
        \<not> (e \<and> (\<exists>u. quotaEnforced eng now (id_UserEmail (identity_of r)) u)))" using r by (metis option.inject)
    moreover have "dc_Allowed (Authorize eng now header e) \<longleftrightarrow> \<not> (e \<and> (\<exists>u. quotaEnforced eng now (id_UserEmail (identity_of r)) u))"
      using D [OF r] by (elim disjE conjE exE) auto
    ultimately show ?thesis by blast
  qed
qed

lemma emitted_digests:
  assumes c: "catalog_ok db" "normal_users (cb_keys db)" and s: "dbSnapshot uuid now db = Inr s"
  shows "(\<exists>r \<in> set (as_Records s). ExternalKeySHA256 r = d) \<longleftrightarrow> (\<exists>key i. sha256_hex key = d \<and> authorizes db key i)"
    and "r \<in> set (as_Records s) \<Longrightarrow> \<exists>key. sha256_hex key = ExternalKeySHA256 r \<and> authorizes db key (identity_of r)"
proof -
  note S = s [unfolded dbSnapshot_iff]
  note T = authorizes_triples [OF c S [THEN conjunct1]]
  have recs: "as_Records s = fold emitTriple (dbTriples db) []" using S by simp
  show src: "\<exists>key. sha256_hex key = ExternalKeySHA256 r \<and> authorizes db key (identity_of r)" if "r \<in> set (as_Records s)" for r
  proof -
    obtain u i key acc where t: "(u, i, key, acc) \<in> set (dbTriples db)" and r: "r = authRecord u i (key, acc)"
      using emitted_from [of r "dbTriples db" "[]"] \<open>r \<in> set (as_Records s)\<close> unfolding recs by auto
    have "authorizes db key (identity_of r)" unfolding T using t r by blast
    then show ?thesis by (intro exI [of _ key]) (simp add: r authRecord_def)
  qed
  show "(\<exists>r \<in> set (as_Records s). ExternalKeySHA256 r = d) \<longleftrightarrow> (\<exists>key i. sha256_hex key = d \<and> authorizes db key i)"
  proof
    assume "\<exists>key i. sha256_hex key = d \<and> authorizes db key i"
    then obtain key u internal acc where "sha256_hex key = d" "(u, internal, key, acc) \<in> set (dbTriples db)" unfolding T by blast
    then show "\<exists>r \<in> set (as_Records s). ExternalKeySHA256 r = d"
      using emitted_all [of u internal "(key, acc)" "dbTriples db" "[]"] unfolding recs by auto
  qed (use src in blast)
qed

subsection \<open>Publishing succeeds\<close>

lemma ensured_ready:
  assumes c: "catalog_ok db" and rb: "random_bytes random"
    and ens: "EnsureInternalKeys tx now fence random (activeRecordUsers (ReadKeyRecords db)) db = (Inr result, db')"
    and u: "u \<in> set (activeRecordUsers (ReadKeyRecords db'))"
  shows "internal_ready (ReadInternalKeys db') u"
proof -
  have io: "wf_map (cb_internal db)" "internal_secrets (cb_internal db)" using c by (auto simp: catalog_ok_def internal_ok_def)
  note E = EnsureInternalKeys_Inr [OF ens io]
  obtain i where "db' = db\<lparr>cb_internal := i\<rparr>" using E(3) by blast
  then have u': "u \<in> set (activeRecordUsers (ReadKeyRecords db))" using u by (simp add: ReadKeyRecords_def)
  have "norm_user u = u" using u' by (auto simp: activeRecordUsers_def set_dedup)
  then have "u \<in> set (normalizedUsers (activeRecordUsers (ReadKeyRecords db)))"
    using u' set_activeRecordUsers [of u] by (force simp: normalizedUsers_def set_dedup)
  then obtain k where k: "map_of (cb_internal db') u = Some k" "ensured now (cb_internal db) random u k" using E(1) by blast
  have "catalog_ok db'" by (rule internal_keys_ok [OF c ens rb])
  then have "validInternalKey (ik_Key k)" using map_of_SomeD [OF k(1)] by (auto simp: catalog_ok_def internal_ok_def)
  then show ?thesis using k ensured_active by (auto simp: internal_ready_def ReadInternalKeys_def)
qed

text \<open>Nothing outside the publisher fails: reads, transactions, the generator, the file system.\<close>

definition publish_io_ok :: "publisher \<Rightarrow> publish_env \<Rightarrow> bool" where
  "publish_io_ok p env \<longleftrightarrow>
     pb_Wired p \<and> trim_space (pb_Root p) \<noteq> [] \<and> (\<forall>r. pe_reads env r) \<and> pe_fence env = TxOK \<and> pe_write env = Written \<and>
     validLowerHex (newGeneration (pe_uuid env)) 32"

definition fits_snapshot :: "publish_codec \<Rightarrow> AuthSnapshot \<Rightarrow> bool" where
  "fits_snapshot codec s \<longleftrightarrow>
     (\<exists>b. pc_enc codec s = Some b \<and> length b < MaxSnapshotBytes \<and> trim_space (b @ [CHR 10]) \<noteq> [])"

lemma publish_ok:
  assumes reach: "catalog_reachable parse (pw_db w)" "random_bytes (pe_random env)" and io: "publish_io_ok p env"
    and ens: "EnsureInternalKeys (pe_ensure env) (pe_ensureAt env) fence (pe_random env)
       (activeRecordUsers (ReadKeyRecords (pw_db w))) (pw_db w) = (Inr result, db)"
    and fence: "fence \<noteq> []" "validateWriteFence (pe_fenceAt env) fence (cb_leases (pw_db w)) = None"
    and enc: "\<And>s. dbSnapshot (pe_uuid env) (pe_now env) db = Inr s \<Longrightarrow> encodes codec s \<and> fits_snapshot codec s"
    and wt: "wait \<Longrightarrow> fst (waitForGeneration codec p (pe_wait env) (newGeneration (pe_uuid env))) = Inr ()"
  shows "\<exists>payload. PublishAuthSnapshot codec p fence env wait w =
     (Inr (newGeneration (pe_uuid env)), w\<lparr>pw_db := db, pw_file := Some payload\<rparr>)"
proof -
  have c0: "catalog_ok (pw_db w)" using catalog_ok_reachable [OF reach(1)] by blast
  have c: "catalog_ok db" "normal_users (cb_keys db)"
    using catalog_ok_reachable [OF step [OF reach(1) internal_keys [OF ens reach(2)]]] by blast+
  have "\<forall>u \<in> set (activeRecordUsers (ReadKeyRecords db)). internal_ready (ReadInternalKeys db) u"
    using ensured_ready [OF c0 reach(2) ens] by blast
  then obtain s where s: "dbSnapshot (pe_uuid env) (pe_now env) db = Inr s" using dbSnapshot_iff by blast
  obtain b where b: "pc_enc codec s = Some b" "length b < MaxSnapshotBytes" "trim_space (b @ [CHR 10]) \<noteq> []"
    using enc [OF s] by (auto simp: fits_snapshot_def)
  have g: "as_Generation s = newGeneration (pe_uuid env)" using s unfolding dbSnapshot_iff by simp
  have "wf_auth s" using io by (intro dbSnapshot_wf [OF c s]) (simp add: publish_io_ok_def)
  then obtain s' where "ParseAuthSnapshot (pc_float codec) (pc_dec codec) (RBytes (b @ [CHR 10])) = Inr s'"
    using ParseAuthSnapshot_encoded [OF _ b(1)] enc [OF s] b(2,3) by blast
  then have "buildPayload codec (pe_uuid env) (pe_now env) (ReadAccounts db) (ReadRoutes db) (ReadKeyRecords db) (ReadInternalKeys db) =
      Inr (b @ [CHR 10], newGeneration (pe_uuid env))"
    unfolding buildPayload_iff using s b(1) g by (intro exI [of _ s] exI [of _ b] exI [of _ s']) simp
  then have f: "publishFenced codec p env (w\<lparr>pw_db := db\<rparr>) = (Inr (newGeneration (pe_uuid env)), Some (b @ [CHR 10]))"
    using io by (simp add: publishFenced_def publish_io_ok_def writeSnapshot_def)
  obtain i where "db = (pw_db w)\<lparr>cb_internal := i\<rparr>"
    using EnsureInternalKeys_Inr(3) [OF ens] c0 by (auto simp: catalog_ok_def internal_ok_def)
  then have "cb_leases db = cb_leases (pw_db w)" by simp
  then have "WithWriteFence (pe_fence env) (pe_fenceAt env) fence (cb_leases db) (\<lambda>_. Inr (publishFenced codec p env (w\<lparr>pw_db := db\<rparr>))) =
      Inr (Inr (newGeneration (pe_uuid env)), Some (b @ [CHR 10]))"
    using fence io f by (simp add: WithWriteFence_def publish_io_ok_def)
  then have "PublishAuthSnapshot codec p fence env wait w = (Inr (newGeneration (pe_uuid env)), w\<lparr>pw_db := db, pw_file := Some (b @ [CHR 10])\<rparr>)"
    using io wt ens by (cases wait) (simp_all add: PublishAuthSnapshot_def Let_def publish_io_ok_def)
  then show ?thesis by blast
qed

lemma publish_loads:
  assumes "PublishAuthSnapshot codec p fence env wait w = (Inr generation, w')"
  shows "\<exists>s. LoadAuthSnapshot (pc_float codec) (pc_dec codec) (RBytes (the (pw_file w'))) at0 eng = (None, storeAuth at0 s eng) \<and>
     wf_auth s"
proof -
  obtain payload where fl: "pw_file w' = Some payload"
    and built: "buildPayload codec (pe_uuid env) (pe_now env) (ReadAccounts (pw_db w')) (ReadRoutes (pw_db w'))
       (ReadKeyRecords (pw_db w')) (ReadInternalKeys (pw_db w')) = Inr (payload, generation)"
    by (rule PublishAuthSnapshot_Inr [OF assms])
  then show ?thesis unfolding buildPayload_iff by (auto simp: LoadAuthSnapshot_def dest: ParseAuthSnapshot_wf)
qed

section \<open>Properties\<close>

text \<open>
  C4: What a publication makes a gateway accept. Publish from any catalogue the store can hold; a
  gateway that loads the published file is on the published generation. While the snapshot is fresh,
  a request without quota enforcement (the internal models probe) is allowed exactly when the
  digest of its bearer key is that of an active key whose user is routed to an enabled account; its
  identity is that of such a key: that user, account, container and internal key. A public request
  has the same identity, and is allowed exactly when, besides, no weekly limit of that user is
  enforceable and reached in the gateway's quota snapshot. Revoked, rotated and deleted keys are out
  with the next snapshot. The hypothesis on the codec is that \<open>encoding/json\<close> reads back the
  snapshot it wrote.
\<close>

theorem published_snapshot_authorizes:
  assumes reach: "catalog_reachable parse (pw_db w)" "random_bytes (pe_random env)"
    and pub: "PublishAuthSnapshot codec p fence env wait w = (Inr generation, w')"
    and enc: "\<And>s. dbSnapshot (pe_uuid env) (pe_now env) (pw_db w') = Inr s \<Longrightarrow> encodes codec s"
    and load: "LoadAuthSnapshot (pc_float codec) (pc_dec codec) (RBytes (the (pw_file w'))) loadedAt eng = (e, eng')"
    and fresh: "authUsable now (eng_auth eng')"
  shows "e = None \<and> (\<exists>a. eng_auth eng' = Some a \<and> au_generation a = generation) \<and>
    (dc_Allowed (Authorize eng' now header False) \<longleftrightarrow>
       (\<exists>key key' i. ExtractBearer header = Some key \<and> sha256_hex key' = sha256_hex key \<and> authorizes (pw_db w') key' i)) \<and>
    (dc_Allowed (Authorize eng' now header False) \<longrightarrow>
       (\<exists>key key' i. ExtractBearer header = Some key \<and> sha256_hex key' = sha256_hex key \<and> authorizes (pw_db w') key' i \<and>
          (\<forall>enforce. dc_Identity (Authorize eng' now header enforce) = Some i) \<and>
          (dc_Allowed (Authorize eng' now header True) \<longleftrightarrow> (\<nexists>u. quotaEnforced eng' now (id_UserEmail i) u)))) \<and>
    (dc_Allowed (Authorize eng' now header True) \<longrightarrow> dc_Allowed (Authorize eng' now header False))"
proof -
  obtain result payload where ens: "EnsureInternalKeys (pe_ensure env) (pe_ensureAt env) fence (pe_random env)
       (activeRecordUsers (ReadKeyRecords (pw_db w))) (pw_db w) = (Inr result, pw_db w')" and fl: "pw_file w' = Some payload"
    and built: "buildPayload codec (pe_uuid env) (pe_now env) (ReadAccounts (pw_db w')) (ReadRoutes (pw_db w'))
       (ReadKeyRecords (pw_db w')) (ReadInternalKeys (pw_db w')) = Inr (payload, generation)"
    by (rule PublishAuthSnapshot_Inr [OF pub])
  have c: "catalog_ok (pw_db w')" "normal_users (cb_keys (pw_db w'))"
    using catalog_ok_reachable [OF step [OF reach(1) internal_keys [OF ens reach(2)]]] by blast+
  obtain s b s' where s: "dbSnapshot (pe_uuid env) (pe_now env) (pw_db w') = Inr s" "pc_enc codec s = Some b"
    "payload = b @ [CHR 10]" "generation = as_Generation s"
    and parsed: "ParseAuthSnapshot (pc_float codec) (pc_dec codec) (RBytes payload) = Inr s'"
    using built unfolding buildPayload_iff by blast
  note D = ParseAuthSnapshot_decoded [OF enc [OF s(1)] s(2) parsed [unfolded s(3)]]
  have l: "e = None" "eng' = storeAuth loadedAt s' eng" using load parsed fl by (auto simp: LoadAuthSnapshot_def)
  obtain a where a: "eng_auth eng' = Some a" "au_byDigest a = byDigest (as_Records s')" "au_generation a = generation"
    using D(2) s(4) unfolding l(2) by (simp add: storeAuth_def)
  note wf = ParseAuthSnapshot_wf [OF parsed]
  note A = Authorize_records(1) [OF fresh a(1,2) wf, of header, unfolded D(1)]
  note I = Authorize_records(2) [OF fresh a(1,2) wf, of header, unfolded D(1)]
  note E = emitted_digests [OF c s(1)]
  have "\<exists>key key' i. ExtractBearer header = Some key \<and> sha256_hex key' = sha256_hex key \<and> authorizes (pw_db w') key' i \<and>
          (\<forall>enforce. dc_Identity (Authorize eng' now header enforce) = Some i) \<and>
          (dc_Allowed (Authorize eng' now header True) \<longleftrightarrow> (\<nexists>u. quotaEnforced eng' now (id_UserEmail i) u))"
    if allowed: "dc_Allowed (Authorize eng' now header False)"
  proof -
    obtain key r where r: "ExtractBearer header = Some key" "r \<in> set (as_Records s)" "ExternalKeySHA256 r = sha256_hex key"
      using allowed unfolding A by blast
    then obtain key' where "sha256_hex key' = sha256_hex key" "authorizes (pw_db w') key' (identity_of r)" using E(2) by metis
    moreover have "r' = r" if "r' \<in> set (as_Records s)" "ExternalKeySHA256 r' = sha256_hex key" for r'
      using wf_auth_unique [OF wf, unfolded D(1), OF r(2) that(1)] that(2) r(3) by simp
    then have "dc_Allowed (Authorize eng' now header True) \<longleftrightarrow> (\<nexists>u. quotaEnforced eng' now (id_UserEmail (identity_of r)) u)"
      unfolding A using r by (metis option.inject)
    ultimately show ?thesis using r(1) I [OF r] by blast
  qed
  moreover have "dc_Allowed (Authorize eng' now header False) \<longleftrightarrow>
      (\<exists>key. ExtractBearer header = Some key \<and> (\<exists>r \<in> set (as_Records s). ExternalKeySHA256 r = sha256_hex key))"
    unfolding A by blast
  moreover have "dc_Allowed (Authorize eng' now header True) \<longrightarrow> dc_Allowed (Authorize eng' now header False)"
    unfolding A by blast
  ultimately show ?thesis using l(1) a(1,3) unfolding E(1) by blast
qed

text \<open>A catalogue with an account, a user and its route, and a publication from it.\<close>

definition sampleFence :: "Lease list" where
  "sampleFence = [sample_lease ''rt'' 1 ''a'' 10 10 40, sample_lease ''w'' 1 ''b'' 11 11 16]"

definition sampleStart :: controldb where
  "sampleStart = emptyCatalog\<lparr>cb_leases := sample_rows (sample_lease ''rt'' 1 ''a'' 10 10 40) (sample_lease ''w'' 1 ''b'' 11 11 16)\<rparr>"

definition sampleRouted :: controldb where
  "sampleRouted =
     snd (ApplyRoutesExpected TxOK 9 [] [(''ann'', ''c1'')] [(''ann'', [])]
       (snd (ApplyUserCreation TxOK 8 [] ''Ann '' ''k'' None
         (snd (ApplyAccountCreation Some TxOK 7 [] sampleCandidate sampleStart)))))"

text \<open>The catalogue written out, for the evaluation of the examples.\<close>

lemma sampleRouted_code [code]:
  "sampleRouted = sampleStart\<lparr>cb_accounts := [(0, \<lparr>an_ID = ''c1'', an_Email = ''c@x.y'', an_Port = 3, an_ProxyMode = ''inherit'', an_CreatedAt = 7,
         an_GroupEnabled = True, an_DefaultGroup = True\<rparr>)],
     cb_keys := [(0, \<lparr>kr_Label = ''ann:c1'', kr_Account = ''c1'', kr_AccountEmail = ''c@x.y'', kr_User = ''ann'', kr_Status = ''active'',
         kr_Key = ''k'', kr_CreatedAt = 8, kr_UpdatedAt = 8\<rparr>)], cb_routes := [(''ann'', ''c1'')]\<rparr>"
  by code_simp

definition sampleRandom :: "string option list" where
  "sampleRandom = [Some (replicate 32 (CHR ''a''))]"

definition sampleSynced :: controldb where
  "sampleSynced = snd (EnsureInternalKeys TxOK 12 sampleFence sampleRandom (activeRecordUsers (ReadKeyRecords sampleRouted)) sampleRouted)"

definition sampleEnv :: publish_env where
  "sampleEnv =
     \<lparr>pe_reads = \<lambda>_. True, pe_ensure = TxOK, pe_ensureAt = 12, pe_random = sampleRandom, pe_fence = TxOK, pe_fenceAt = 12,
      pe_uuid = ''01234567-89ab-cdef-0123-456789abcdef'', pe_now = 12, pe_write = Written,
      pe_wait = \<lparr>we_context = None, we_ask = \<lambda>i url. TransportError, we_spent = \<lambda>i. 0\<rparr>\<rparr>"

definition samplePublisher :: publisher where
  "samplePublisher = \<lparr>pb_Wired = True, pb_Root = ''/r'', pb_ProbeURLs = [], pb_WaitTimeout = 0, pb_PollInterval = 0\<rparr>"

definition sampleCodec :: publish_codec where
  "sampleCodec =
     \<lparr>pc_float = \<lambda>_. None, pc_enc = \<lambda>_. Some ''x'',
      pc_dec = \<lambda>_. Some (rawAuth (projr (dbSnapshot (pe_uuid sampleEnv) (pe_now sampleEnv) sampleSynced))),
      pc_status = \<lambda>_. None, pc_url = \<lambda>_. None\<rparr>"

definition sampleWorld :: published where
  "sampleWorld = \<lparr>pw_db = sampleRouted, pw_file = None\<rparr>"

lemma sample_reachable: "catalog_reachable Some (pw_db sampleWorld)"
proof -
  have "catalog_reachable Some sampleStart"
    by (rule start) (simp add: catalog_init_def sampleStart_def emptyCatalog_def)
  from step [OF step [OF step [OF this account_created [OF surjective_pairing]] user_created [OF surjective_pairing]]
      routes_moved [OF surjective_pairing]]
  show ?thesis by (simp add: sampleWorld_def sampleRouted_def)
qed

lemma sample_publish_parts:
  "random_bytes (pe_random sampleEnv)" "publish_io_ok samplePublisher sampleEnv" "sampleFence \<noteq> []"
  "validateWriteFence (pe_fenceAt sampleEnv) sampleFence (cb_leases (pw_db sampleWorld)) = None"
  "dbSnapshot (pe_uuid sampleEnv) (pe_now sampleEnv) sampleSynced = Inr s \<Longrightarrow> encodes sampleCodec s \<and> fits_snapshot sampleCodec s"
proof -
  show "random_bytes (pe_random sampleEnv)" by (simp add: random_bytes_def sampleEnv_def sampleRandom_def)
  have g: "validLowerHex (newGeneration (pe_uuid sampleEnv)) 32" by code_simp
  have r: "trim_space (pb_Root samplePublisher) \<noteq> []" by code_simp
  show "publish_io_ok samplePublisher sampleEnv"
    using g r by (simp add: publish_io_ok_def samplePublisher_def sampleEnv_def)
  show "sampleFence \<noteq> []" by (simp add: sampleFence_def)
  show "validateWriteFence (pe_fenceAt sampleEnv) sampleFence (cb_leases (pw_db sampleWorld)) = None" by code_simp
  have t: "trim_space (''x'' @ [CHR 10]) \<noteq> []" by code_simp
  show "encodes sampleCodec s \<and> fits_snapshot sampleCodec s" if "dbSnapshot (pe_uuid sampleEnv) (pe_now sampleEnv) sampleSynced = Inr s"
    using that t by (simp add: encodes_def fits_snapshot_def sampleCodec_def MaxSnapshotBytes_def)
qed

lemma ensure_one:
  assumes "activeRecordUsers (ReadKeyRecords db) = [''ann'']" "cb_internal db = []" "validateWriteFence 12 sampleFence (cb_leases db) = None"
  shows "\<exists>result k. EnsureInternalKeys TxOK 12 sampleFence sampleRandom (activeRecordUsers (ReadKeyRecords db)) db =
     (Inr result, db\<lparr>cb_internal := [(''ann'', k)]\<rparr>)"
proof -
  have "normalizedUsers [''ann''] = [''ann'']" by code_simp
  moreover define k where "k = \<lparr>ik_Key = ''cpa_internal_'' @ hexEncode (replicate 32 (CHR ''a'')), ik_CreatedAt = 12, ik_Status = ''active''\<rparr>"
  ultimately show ?thesis using assms
    by (intro exI [of _ "[(''ann'', k)]"] exI [of _ k])
      (simp add: EnsureInternalKeys_def controlTx_def sampleRandom_def newInternalKey_def has_key_def secretTaken_def deactivateOthers_def Let_def)
qed

lemma sample_ensured:
  "\<exists>result k. EnsureInternalKeys TxOK 12 sampleFence sampleRandom (activeRecordUsers (ReadKeyRecords sampleRouted)) sampleRouted =
     (Inr result, sampleRouted\<lparr>cb_internal := [(''ann'', k)]\<rparr>)"
  by (rule ensure_one; code_simp)

lemma sample_ensure_run:
  "\<exists>result. EnsureInternalKeys (pe_ensure sampleEnv) (pe_ensureAt sampleEnv) sampleFence (pe_random sampleEnv)
     (activeRecordUsers (ReadKeyRecords (pw_db sampleWorld))) (pw_db sampleWorld) = (Inr result, sampleSynced)"
  using sample_ensured by (auto simp: sampleEnv_def sampleWorld_def sampleSynced_def)

lemma sample_authorizes: "\<exists>i. authorizes sampleSynced ''k'' i"
proof -
  obtain k where s: "sampleSynced = sampleRouted\<lparr>cb_internal := [(''ann'', k)]\<rparr>"
    using sample_ensured by (auto simp: sampleSynced_def)
  have "list_ex (\<lambda>(s, k). isActive k \<and> kr_Key k = ''k'' \<and> kr_User k = ''ann'' \<and>
     list_ex (\<lambda>(p, a). an_GroupEnabled a \<and> map_of (cb_routes sampleRouted) (kr_User k) = Some (an_ID a)) (cb_accounts sampleRouted))
     (cb_keys sampleRouted)" by code_simp
  then obtain n l p a where "(n, l) \<in> set (cb_keys sampleRouted)" "isActive l" "kr_Key l = ''k''" "kr_User l = ''ann''"
    "(p, a) \<in> set (cb_accounts sampleRouted)" "an_GroupEnabled a" "map_of (cb_routes sampleRouted) (kr_User l) = Some (an_ID a)"
    unfolding list_ex_iff by fast
  then show ?thesis unfolding authorizes_def s by fastforce
qed

lemma sample_published:
  "\<exists>payload. PublishAuthSnapshot sampleCodec samplePublisher sampleFence sampleEnv False sampleWorld =
     (Inr (newGeneration (pe_uuid sampleEnv)), sampleWorld\<lparr>pw_db := sampleSynced, pw_file := Some payload\<rparr>)"
proof -
  obtain result where "EnsureInternalKeys (pe_ensure sampleEnv) (pe_ensureAt sampleEnv) sampleFence (pe_random sampleEnv)
     (activeRecordUsers (ReadKeyRecords (pw_db sampleWorld))) (pw_db sampleWorld) = (Inr result, sampleSynced)" using sample_ensure_run by blast
  from publish_ok [OF sample_reachable sample_publish_parts(1,2) this sample_publish_parts(3,4,5), of False] show ?thesis by simp
qed

theorem published_snapshot_authorizes_witness:
  "\<exists>w' eng. PublishAuthSnapshot sampleCodec samplePublisher sampleFence sampleEnv False sampleWorld = (Inr (newGeneration (pe_uuid sampleEnv)), w') \<and>
     LoadAuthSnapshot (pc_float sampleCodec) (pc_dec sampleCodec) (RBytes (the (pw_file w'))) 100 NewEngine = (None, eng) \<and>
     dc_Allowed (Authorize eng 103 ''Bearer k'' False) \<and> dc_Allowed (Authorize eng 103 ''Bearer k'' True)"
proof -
  obtain payload where pub: "PublishAuthSnapshot sampleCodec samplePublisher sampleFence sampleEnv False sampleWorld =
      (Inr (newGeneration (pe_uuid sampleEnv)), sampleWorld\<lparr>pw_db := sampleSynced, pw_file := Some payload\<rparr>)"
    (is "_ = (_, ?w)") using sample_published by blast
  obtain s where load: "LoadAuthSnapshot (pc_float sampleCodec) (pc_dec sampleCodec) (RBytes (the (pw_file ?w))) 100 NewEngine =
      (None, storeAuth 100 s NewEngine)" and "wf_auth s" using publish_loads [OF pub] by blast
  then have "as_Generation s \<noteq> []" by (auto simp: wf_auth_def validLowerHex_def)
  then have "authUsable 103 (eng_auth (storeAuth 100 s NewEngine))"
    by (simp add: authUsable_def storeAuth_def i64_def AuthSnapshotMaxAge_def)
  note T = published_snapshot_authorizes [OF sample_reachable sample_publish_parts(1) pub _ load this, of "''Bearer k''",
      THEN conjunct2, THEN conjunct2]
  have "ExtractBearer ''Bearer k'' = Some ''k''" by code_simp
  then have "\<exists>key key' i. ExtractBearer ''Bearer k'' = Some key \<and> sha256_hex key' = sha256_hex key \<and> authorizes (pw_db ?w) key' i"
    using sample_authorizes by auto
  then have allowed: "dc_Allowed (Authorize (storeAuth 100 s NewEngine) 103 ''Bearer k'' False)"
    using sample_publish_parts(5) by (intro T [THEN conjunct1, THEN iffD2]) auto
  have open': "\<not> quotaEnforced (storeAuth 100 s NewEngine) 103 user u" for user u
    by (simp add: quotaEnforced_def storeAuth_def NewEngine_def)
  have "dc_Allowed (Authorize (storeAuth 100 s NewEngine) 103 ''Bearer k'' True)"
    using T [THEN conjunct2, THEN conjunct1, THEN mp, OF _ allowed] sample_publish_parts(5) open' by auto
  then show ?thesis using pub load allowed by blast
qed

text \<open>
  C15: The publisher never refuses a catalogue the store can hold. If reads, the fence, the random
  generator and the file system do their part and the encoded snapshot is within the size limit,
  publishing succeeds: every active user then has a valid internal key, and the generated snapshot
  passes the gateway's own validation, whatever accounts, users, keys and routes there are.
\<close>

theorem publish_never_refuses:
  assumes "catalog_reachable parse (pw_db w)" "random_bytes (pe_random env)" "publish_io_ok p env"
    and "EnsureInternalKeys (pe_ensure env) (pe_ensureAt env) fence (pe_random env)
       (activeRecordUsers (ReadKeyRecords (pw_db w))) (pw_db w) = (Inr result, db)"
    and "fence \<noteq> []" "validateWriteFence (pe_fenceAt env) fence (cb_leases (pw_db w)) = None"
    and "\<And>s. dbSnapshot (pe_uuid env) (pe_now env) db = Inr s \<Longrightarrow> encodes codec s \<and> fits_snapshot codec s"
    and "wait \<Longrightarrow> fst (waitForGeneration codec p (pe_wait env) (newGeneration (pe_uuid env))) = Inr ()"
  shows "\<exists>payload. PublishAuthSnapshot codec p fence env wait w =
     (Inr (newGeneration (pe_uuid env)), w\<lparr>pw_db := db, pw_file := Some payload\<rparr>)"
  by (rule publish_ok [OF assms])

theorem publish_never_refuses_witness:
  "\<exists>payload. PublishAuthSnapshot sampleCodec samplePublisher sampleFence sampleEnv False sampleWorld =
     (Inr (newGeneration (pe_uuid sampleEnv)), sampleWorld\<lparr>pw_db := sampleSynced, pw_file := Some payload\<rparr>)"
proof -
  obtain result where "EnsureInternalKeys (pe_ensure sampleEnv) (pe_ensureAt sampleEnv) sampleFence (pe_random sampleEnv)
     (activeRecordUsers (ReadKeyRecords (pw_db sampleWorld))) (pw_db sampleWorld) = (Inr result, sampleSynced)" using sample_ensure_run by blast
  from publish_never_refuses [OF sample_reachable sample_publish_parts(1,2) this sample_publish_parts(3,4,5), of False]
  show ?thesis by simp
qed

text \<open>A publication from any catalogue with this user, which the gateway confirms.\<close>

definition followed :: "controldb \<Rightarrow> controldb" where
  "followed db = snd (EnsureInternalKeys TxOK 12 sampleFence sampleRandom (activeRecordUsers (ReadKeyRecords db)) db)"

definition confirmCodec :: "controldb \<Rightarrow> publish_codec" where
  "confirmCodec db = sampleCodec\<lparr>pc_dec := \<lambda>_. Some (rawAuth (projr (dbSnapshot (pe_uuid sampleEnv) (pe_now sampleEnv) (followed db)))),
     pc_status := \<lambda>_. Some ((EngineStatus NewEngine)\<lparr>st_Auth := emptyKindStatus\<lparr>ks_ActiveGeneration := newGeneration (pe_uuid sampleEnv)\<rparr>\<rparr>),
     pc_url := \<lambda>_. Some (''http'', ''g'')\<rparr>"

definition confirmPublisher :: publisher where
  "confirmPublisher = samplePublisher\<lparr>pb_ProbeURLs := [''http://g'']\<rparr>"

definition confirmEnv :: publish_env where
  "confirmEnv = sampleEnv\<lparr>pe_wait := \<lparr>we_context = None, we_ask = \<lambda>i url. Answer 200 [], we_spent = \<lambda>i. 0\<rparr>\<rparr>"

lemma waitLoop_first:
  "fst (probeRound dec g (we_ask env i) urls l) \<Longrightarrow> fst (waitLoop dec g urls deadline interval env i elapsed l) = Inr ()"
  by (subst waitLoop.simps) (simp add: Let_def case_prod_beta)

lemma confirm_published:
  assumes reach: "catalog_reachable Some db"
    and one: "activeRecordUsers (ReadKeyRecords db) = [''ann'']" "cb_internal db = []" "validateWriteFence 12 sampleFence (cb_leases db) = None"
  shows "\<exists>payload. PublishAuthSnapshot (confirmCodec db) confirmPublisher sampleFence confirmEnv True (w\<lparr>pw_db := db\<rparr>) =
     (Inr (newGeneration (pe_uuid sampleEnv)), w\<lparr>pw_db := followed db, pw_file := Some payload\<rparr>)"
proof -
  have reach': "catalog_reachable Some (pw_db (w\<lparr>pw_db := db\<rparr>))" using reach by simp
  obtain result where ens: "EnsureInternalKeys (pe_ensure confirmEnv) (pe_ensureAt confirmEnv) sampleFence (pe_random confirmEnv)
     (activeRecordUsers (ReadKeyRecords (pw_db (w\<lparr>pw_db := db\<rparr>)))) (pw_db (w\<lparr>pw_db := db\<rparr>)) = (Inr result, followed db)"
    using ensure_one [OF one] by (auto simp: followed_def confirmEnv_def sampleEnv_def)
  have io: "random_bytes (pe_random confirmEnv)" "publish_io_ok confirmPublisher confirmEnv"
    using sample_publish_parts(1,2) by (simp_all add: confirmEnv_def confirmPublisher_def publish_io_ok_def)
  have fence: "validateWriteFence (pe_fenceAt confirmEnv) sampleFence (cb_leases (pw_db (w\<lparr>pw_db := db\<rparr>))) = None"
    using one(3) by (simp add: confirmEnv_def sampleEnv_def)
  have t: "trim_space (''x'' @ [CHR 10]) \<noteq> []" by code_simp
  have enc: "encodes (confirmCodec db) s \<and> fits_snapshot (confirmCodec db) s"
    if "dbSnapshot (pe_uuid confirmEnv) (pe_now confirmEnv) (followed db) = Inr s" for s
    using that t by (simp add: encodes_def fits_snapshot_def confirmEnv_def confirmCodec_def sampleCodec_def MaxSnapshotBytes_def)
  have "normalizedProbeURLs (\<lambda>_. Some (''http'', ''g'')) [''http://g''] = [''http://g'']" by code_simp
  then have urls: "normalizedProbeURLs (pc_url (confirmCodec db)) (pb_ProbeURLs confirmPublisher) = [''http://g'']"
    by (simp add: confirmCodec_def confirmPublisher_def)
  have "fst (waitForGeneration (confirmCodec db) confirmPublisher (pe_wait confirmEnv) (newGeneration (pe_uuid confirmEnv))) = Inr ()"
    unfolding waitForGeneration_def urls Let_def
    by (simp, rule waitLoop_first) (simp add: probeAuthGeneration_def confirmCodec_def confirmEnv_def)
  from publish_ok [OF reach' io ens sample_publish_parts(3) fence enc this] show ?thesis by (auto simp: confirmEnv_def)
qed

end
