(* ===== verification/Identity.thy ===== *)
theory Identity
  imports Published_Change Publish
begin

text \<open>
  \<open>internal/identity/service.go\<close>: the form of a user's e-mail address and of an API key, and the
  rotation of a key: read the settings, make a key, change the rows, publish, undo on failure.
  Settings are the maps the store reads from JSON; \<open>uuid.NewString\<close> is a parameter.
\<close>

section \<open>Definitions\<close>

subsection \<open>Users\<close>

definition emailLocalChar :: "char \<Rightarrow> bool" where
  "emailLocalChar c \<longleftrightarrow> is_lower c \<or> is_digit c \<or> c \<in> set ''.!#$%&*+/=?^_`{|}~-'' \<or> byte c = 39"

definition emailDomainChar :: "char \<Rightarrow> bool" where
  "emailDomainChar c \<longleftrightarrow> is_lower c \<or> is_digit c \<or> c = CHR ''.'' \<or> c = CHR ''-''"

text \<open>The domain of a match of \<open>userEmailPattern\<close>; neither part can hold a second \<open>@\<close>.\<close>

definition userEmailPattern :: "string \<Rightarrow> string option" where
  "userEmailPattern user =
     (let local = takeWhile (\<lambda>c. c \<noteq> CHR ''@'') user; rest = dropWhile (\<lambda>c. c \<noteq> CHR ''@'') user
      in if local \<noteq> [] \<and> list_all emailLocalChar local \<and> tl rest \<noteq> [] \<and> list_all emailDomainChar (tl rest)
         then Some (tl rest) else None)"

definition allowedDomain :: "string \<Rightarrow> string" where
  "allowedDomain value = (let d = norm_user value in if has_prefix ''@'' d then drop 1 d else d)"

fun domainsOf :: "goany list \<Rightarrow> string list option" where
  "domainsOf [] = Some []"
| "domainsOf (v # vs) =
     (case v of
        AString value \<Rightarrow> map_option (\<lambda>ds. if allowedDomain value = [] then ds else allowedDomain value # ds) (domainsOf vs)
      | _ \<Rightarrow> None)"

text \<open>A setting that is not a list allows no domain.\<close>

definition NormalizeUser :: "(string \<times> goany) list \<Rightarrow> string \<Rightarrow> string option" where
  "NormalizeUser settings raw =
     (let user = norm_user raw
      in case userEmailPattern user of
           None \<Rightarrow> None
         | Some domain \<Rightarrow>
             (case domainsOf (as_list (obj_get (Some settings) ''identity.allowed_email_domains'')) of
                None \<Rightarrow> None
              | Some domains \<Rightarrow> if domain \<in> set domains then Some user else None))"

subsection \<open>Keys\<close>

definition namespaceChar :: "char \<Rightarrow> bool" where
  "namespaceChar c \<longleftrightarrow> is_lower c \<or> is_digit c"

text \<open>The loop of \<open>userNamespace\<close>: the text built so far, and whether it ends in an underscore.\<close>

fun namespaceLoop :: "string \<Rightarrow> string \<Rightarrow> bool \<Rightarrow> string" where
  "namespaceLoop [] built lastUnderscore = built"
| "namespaceLoop (c # cs) built lastUnderscore =
     (if namespaceChar c then namespaceLoop cs (built @ [c]) False
      else if built \<noteq> [] \<and> \<not> lastUnderscore then namespaceLoop cs (built @ ''_'') True
      else namespaceLoop cs built lastUnderscore)"

definition trimUnderscores :: "string \<Rightarrow> string" where
  "trimUnderscores s = rev (dropWhile (\<lambda>c. c = CHR ''_'') (rev (dropWhile (\<lambda>c. c = CHR ''_'') s)))"

definition userNamespace :: "string \<Rightarrow> string" where
  "userNamespace user =
     (let result = trimUnderscores (namespaceLoop (takeWhile (\<lambda>c. c \<noteq> CHR ''@'') (norm_user user)) [] False)
      in if result = [] then ''user'' else result)"

definition prefixChar :: "char \<Rightarrow> bool" where
  "prefixChar c \<longleftrightarrow> is_lower c \<or> is_digit c \<or> c = CHR ''_''"

definition keyPrefixPattern :: "string \<Rightarrow> bool" where
  "keyPrefixPattern p \<longleftrightarrow>
     3 \<le> length p \<and> length p \<le> 32 \<and> is_lower (hd p) \<and> list_all prefixChar (tl p) \<and> last p = CHR ''_''"

definition DefaultUserKeyPrefix :: string where
  "DefaultUserKeyPrefix = ''ccpa_''"

definition keyPrefix :: "(string \<times> goany) list \<Rightarrow> string" where
  "keyPrefix settings =
     (let value = as_string (obj_get (Some settings) ''identity.key_prefix'')
      in if trim_space value = [] then DefaultUserKeyPrefix else norm_user value)"

definition NewUserKey :: "string \<Rightarrow> (string \<times> goany) list \<Rightarrow> string \<Rightarrow> string option" where
  "NewUserKey uuid settings user =
     (if keyPrefixPattern (keyPrefix settings) then Some (keyPrefix settings @ userNamespace user @ ''_'' @ uuid) else None)"

subsection \<open>Rotation\<close>

record RotationResult =
  rt_APIKey :: string
  rt_SnapshotGeneration :: string

datatype rotation_error =
    RotationIncomplete
  | ErrRotationUnsafe "control_error option"
  | ErrRotationConflict control_error
  | RotationSettings
  | RotationApply control_error
  | RotationPublish change_error

definition rotationError :: "change_error \<Rightarrow> rotation_error" where
  "rotationError e =
     (case e of
        ChangeFailed c \<Rightarrow>
          (case c of
             ErrUserKeyRotationConflict \<Rightarrow> ErrRotationConflict c
           | ErrUserKeyRotationUnsafe \<Rightarrow> ErrRotationUnsafe (Some c)
           | ErrInvalidCatalogInput \<Rightarrow> ErrRotationUnsafe (Some c)
           | _ \<Rightarrow> RotationApply c)
      | PublishFailed _ _ _ \<Rightarrow> RotationPublish e)"

record rotation_env =
  re_wired :: bool
  re_settings :: "(string \<times> goany) list option"
  re_uuid :: string
  re_fence :: "Lease list"
  re_apply :: tx
  re_applyAt :: int64
  re_publish :: publish_env
  re_undo :: tx
  re_undoAt :: int64
  re_republish :: publish_env

definition RotateUserKey ::
  "publish_codec \<Rightarrow> publisher \<Rightarrow> rotation_env \<Rightarrow> string \<Rightarrow> string \<Rightarrow> published \<Rightarrow> (rotation_error + RotationResult) \<times> published" where
  "RotateUserKey codec p env rawUser rawKey w =
     (let user = norm_user rawUser; expectedKey = trim_space rawKey
      in if \<not> re_wired env then (Inl RotationIncomplete, w)
         else if user = [] \<or> expectedKey = [] then (Inl (ErrRotationUnsafe None), w)
         else (case re_settings env of
                 None \<Rightarrow> (Inl RotationSettings, w)
               | Some settings \<Rightarrow>
                   (case NewUserKey (re_uuid env) settings user of
                      None \<Rightarrow> (Inl (ErrRotationUnsafe None), w)
                    | Some newKey \<Rightarrow>
                        (case publishChange (PublishAuthSnapshot codec p (re_fence env) (re_publish env) True)
                                (PublishAuthSnapshot codec p (re_fence env) (re_republish env) True)
                                (ApplyUserKeyRotationExpected (re_apply env) (re_applyAt env) (re_fence env) user expectedKey newKey)
                                (RestoreUserKeyRotation (re_undo env) (re_undoAt env) (re_fence env)) w of
                           (Inl e, w') \<Rightarrow> (Inl (rotationError e), w')
                         | (Inr (rotation, generation), w') \<Rightarrow>
                             (Inr \<lparr>rt_APIKey = newKey, rt_SnapshotGeneration = generation\<rparr>, w')))))"

section \<open>Lemmas\<close>

text \<open>Keys are printable, so that the store takes them as they are.\<close>

lemma graphic_classes: "is_lower c \<Longrightarrow> graphic c" "is_digit c \<Longrightarrow> graphic c"
  by (simp_all add: is_lower_def is_digit_def graphic_def)

lemma set_namespaceLoop: "set (namespaceLoop cs built l) \<subseteq> set built \<union> {c. prefixChar c}"
  by (induction cs built l rule: namespaceLoop.induct) (auto simp: namespaceChar_def prefixChar_def split: if_splits)

lemma set_trimUnderscores: "set (trimUnderscores s) \<subseteq> set s"
  unfolding trimUnderscores_def by (metis set_dropWhileD set_rev subsetI)

lemma userNamespace_chars: "\<forall>c \<in> set (userNamespace user). prefixChar c"
proof -
  have "\<forall>c \<in> set ''user''. prefixChar c" by (simp add: prefixChar_def is_lower_def byte_def)
  then show ?thesis using set_trimUnderscores set_namespaceLoop [of _ "[]" False]
    unfolding userNamespace_def Let_def by (auto split: if_splits)
qed

lemma userNamespace_nonempty: "userNamespace user \<noteq> []"
  by (simp add: userNamespace_def Let_def)

text \<open>A UUID in its text form has lower-case hexadecimal digits and dashes.\<close>

definition uuid_text :: "string \<Rightarrow> bool" where
  "uuid_text s \<longleftrightarrow> length s = 36 \<and> list_all (\<lambda>c. is_lower_hex c \<or> c = CHR ''-'') s"

lemma NewUserKey_trimmed:
  assumes "NewUserKey uuid settings user = Some key" "uuid_text uuid"
  shows "trim_space key = key" "key \<noteq> []"
proof -
  have k: "key = keyPrefix settings @ userNamespace user @ ''_'' @ uuid" and p: "keyPrefixPattern (keyPrefix settings)"
    using assms(1) by (auto simp: NewUserKey_def split: if_splits)
  have g: "graphic c" if "prefixChar c" for c using that graphic_classes by (auto simp: prefixChar_def graphic_def byte_def)
  have "\<forall>c \<in> set (keyPrefix settings). graphic c"
    using p g graphic_classes(1) by (cases "keyPrefix settings") (auto simp: keyPrefixPattern_def list_all_iff)
  moreover have "\<forall>c \<in> set uuid. graphic c"
    using assms(2) by (auto simp: uuid_text_def list_all_iff is_lower_hex_def is_digit_def graphic_def byte_def)
  ultimately show "trim_space key = key"
    using g userNamespace_chars unfolding k by (intro trim_graphic) (auto simp: graphic_def byte_def)
  show "key \<noteq> []" by (simp add: k)
qed

lemma NormalizeUser_Some:
  assumes "NormalizeUser settings raw = Some u"
  shows "u = norm_user raw \<and> u \<noteq> [] \<and> norm_user u = u"
  using assms by (auto simp: NormalizeUser_def userEmailPattern_def Let_def split: option.splits if_splits)

lemma RotateUserKey_runs:
  assumes run: "RotateUserKey codec p env user key w = (res, w')" and undo: "re_undo env = TxOK"
    and c: "catalog_ok (pw_db w)" and f: "validateWriteFence (re_undoAt env) (re_fence env) (cb_leases (pw_db w)) = None"
    and u: "uuid_text (re_uuid env)"
  shows "case res of Inl e \<Rightarrow> unchanged (pw_db w) (pw_db w')
    | Inr r \<Rightarrow> \<exists>rot db1 i. trim_space (rt_APIKey r) = rt_APIKey r \<and>
        ApplyUserKeyRotationExpected (re_apply env) (re_applyAt env) (re_fence env) (norm_user user) (trim_space key) (rt_APIKey r) (pw_db w) =
          (Inr rot, db1) \<and> pw_db w' = db1\<lparr>cb_internal := i\<rparr>"
proof (cases "re_wired env \<and> norm_user user \<noteq> [] \<and> trim_space key \<noteq> []")
  case False
  then show ?thesis using run unchanged_refl by (auto simp: RotateUserKey_def Let_def split: if_splits)
next
  case valid: True
  show ?thesis
  proof (cases "\<exists>settings newKey. re_settings env = Some settings \<and> NewUserKey (re_uuid env) settings (norm_user user) = Some newKey")
    case False
    then have "isl res \<and> w' = w" using run valid by (auto simp: RotateUserKey_def Let_def split: option.splits)
    then show ?thesis using unchanged_refl by (auto split: sum.splits)
  next
    case True
    then obtain settings newKey where k: "re_settings env = Some settings" "NewUserKey (re_uuid env) settings (norm_user user) = Some newKey" by blast
    let ?change = "ApplyUserKeyRotationExpected (re_apply env) (re_applyAt env) (re_fence env) (norm_user user) (trim_space key) newKey"
    let ?pub = "\<lambda>e. PublishAuthSnapshot codec p (re_fence env) e True"
    let ?undo = "RestoreUserKeyRotation (re_undo env) (re_undoAt env) (re_fence env)"
    obtain r1 w1 where pc: "publishChange (?pub (re_publish env)) (?pub (re_republish env)) ?change ?undo w = (r1, w1)" by fastforce
    have pre: "key_table (cb_keys (pw_db w)) \<and> trimmed_users (cb_keys (pw_db w)) \<and>
        validateWriteFence (re_undoAt env) (re_fence env) (cb_leases (pw_db w)) = None"
      using c f by (simp add: catalog_ok_def keys_ok_def)
    have A: "atomic_change ?change (pw_db w) r1 (pw_db w1)"
      using rotation.published_atomic [OF pre publishes_snapshot publishes_snapshot, where x = "(norm_user user, trim_space key, newKey)"]
        pc unfolding undo by simp
    have R: "(res, w') = (case r1 of Inl e \<Rightarrow> (Inl (rotationError e), w1)
        | Inr (rotation, generation) \<Rightarrow> (Inr \<lparr>rt_APIKey = newKey, rt_SnapshotGeneration = generation\<rparr>, w1))"
      using run valid k pc by (simp add: RotateUserKey_def Let_def split: sum.splits)
    show ?thesis
    proof (cases r1)
      case (Inl e)
      then show ?thesis using R A atomic_unchanged by auto
    next
      case (Inr rg)
      then obtain rot g where rg: "r1 = Inr (rot, g)" by (cases rg) auto
      obtain db1 i where "?change (pw_db w) = (Inr rot, db1)" "pw_db w1 = db1\<lparr>cb_internal := i\<rparr>"
        using A unfolding rg atomic_change_def by auto
      then show ?thesis using R NewUserKey_trimmed(1) [OF k(2) u] by (auto simp: rg)
    qed
  qed
qed

lemma rotation_accounts:
  assumes "ApplyUserKeyRotationExpected tx now fence (norm_user user) key newKey db = (Inr rot, db')"
  shows "accountIDs db \<noteq> []" "norm_user user \<noteq> []"
  using assms by (auto simp: ApplyUserKeyRotationExpected_def rotationTx_def Let_def split: if_splits sum.splits dest!: controlTx_Inr(1))

lemma remdups_single:
  assumes "xs \<noteq> []" "\<forall>x \<in> set xs. f x = y"
  shows "remdups (map f xs) = [y]"
proof -
  have s: "set (remdups (map f xs)) = {y}" using assms by (cases xs) auto
  then have "length (remdups (map f xs)) = 1" using distinct_card [of "remdups (map f xs)"] by simp
  then obtain z where "remdups (map f xs) = [z]" by (cases "remdups (map f xs)") auto
  then show ?thesis using s by simp
qed

section \<open>Properties\<close>

text \<open>
  C14: Rotating a user's key is atomic and takes effect. On success the user's
  active key was the expected one before and is the one returned afterwards, on every account, and
  that key is new: it differs from the old one and no row of the catalogue had it;
  the published database authorises no other key for that user, in particular not the old one, and
  that key for no other user; the active keys of the others, and all routes, accounts and leases are
  the same. On an error the catalogue is as it was, also when the rows had been changed and the
  gateways did not follow. The hypotheses: the catalogue is one
  the store can hold, the rollback's transaction is not refused by the database or the write fence,
  and \<open>uuid.NewString\<close> gives the text of a UUID.
\<close>

theorem RotateUserKey_atomic:
  assumes reach: "catalog_reachable parse (pw_db w)" and undo: "re_undo env = TxOK"
    and f: "validateWriteFence (re_undoAt env) (re_fence env) (cb_leases (pw_db w)) = None" and u: "uuid_text (re_uuid env)"
  shows "case RotateUserKey codec p env user key w of
      (Inl e, w') \<Rightarrow> unchanged (pw_db w) (pw_db w')
    | (Inr r, w') \<Rightarrow>
        ActiveUserKey user (pw_db w) = Inr (trim_space key) \<and> rt_APIKey r \<noteq> trim_space key \<and>
        (\<forall>(s, k) \<in> set (cb_keys (pw_db w)). kr_Key k \<noteq> rt_APIKey r) \<and>
        ActiveUserKey user (pw_db w') = Inr (rt_APIKey r) \<and>
        (\<forall>k i. authorizes (pw_db w') k i \<longrightarrow> (id_UserEmail i = norm_user user \<longleftrightarrow> k = rt_APIKey r)) \<and>
        (\<forall>v. v \<noteq> norm_user user \<longrightarrow> activeKeyRows v (cb_keys (pw_db w')) = activeKeyRows v (cb_keys (pw_db w))) \<and>
        (\<exists>ks i. pw_db w' = (pw_db w)\<lparr>cb_keys := ks, cb_internal := i\<rparr>)"
proof -
  obtain res w' where run: "RotateUserKey codec p env user key w = (res, w')" by fastforce
  note C = catalog_ok_reachable [OF reach]
  show ?thesis
  proof (cases res)
    case (Inl e)
    then show ?thesis using RotateUserKey_runs [OF run undo conjunct1 [OF C] f u] run by simp
  next
    case (Inr r)
    then obtain rot db1 i where t: "trim_space (rt_APIKey r) = rt_APIKey r"
      and a: "ApplyUserKeyRotationExpected (re_apply env) (re_applyAt env) (re_fence env) (norm_user user) (trim_space key) (rt_APIKey r)
        (pw_db w) = (Inr rot, db1)" and w': "pw_db w' = db1\<lparr>cb_internal := i\<rparr>"
      using RotateUserKey_runs [OF run undo conjunct1 [OF C] f u] by auto
    have C1: "catalog_ok db1" "normal_users (cb_keys db1)"
      using catalog_ok_reachable [OF step [OF reach key_rotated [OF a]]] by blast+
    have kt: "key_table (cb_keys (pw_db w))" "distinct (accountIDs (pw_db w))"
      using C by (simp_all add: catalog_ok_def keys_ok_def accounts_ok_def account_table_def accountIDs_eq)
    note R = rotation_complete [OF a kt, THEN conjunct2, rule_format, OF refl, unfolded Let_def norm_user_idem t]
    define rows where "rows = activeKeyRows (norm_user user) (cb_keys db1)"
    have new: "\<forall>(s, k) \<in> set rows. kr_Key k = rt_APIKey r" and accs: "set (map (kr_Account \<circ> snd) rows) = set (accountIDs (pw_db w))"
      and others: "\<forall>v. v \<noteq> norm_user user \<longrightarrow> activeKeyRows v (cb_keys db1) = activeKeyRows v (cb_keys (pw_db w))"
      and fresh: "\<forall>(s, k) \<in> set (cb_keys (pw_db w)). kr_Key k \<noteq> rt_APIKey r" and db1: "db1 = (pw_db w)\<lparr>cb_keys := cb_keys db1\<rparr>"
      using R unfolding rows_def by blast+
    define before where "before = activeKeyRows (norm_user user) (cb_keys (pw_db w))"
    have old: "\<forall>(s, k) \<in> set before. kr_Key k = trim_space key" and same: "map (kr_Account \<circ> snd) rows = map (kr_Account \<circ> snd) before"
      using R unfolding rows_def before_def trim_space_idem by blast+
    have rows: "rows \<noteq> []" using accs rotation_accounts(1) [OF a] by auto
    have act: "(s, k) \<in> set (activeKeyRows (kr_User k) (cb_keys db1))" if "(s, k) \<in> set (cb_keys db1)" "isActive k" for s k
      using that normal_users_sql [OF C1(2)] by (simp add: activeKeyRows_def)
    have "id_UserEmail ident = norm_user user \<longleftrightarrow> k = rt_APIKey r" if au: "authorizes (pw_db w') k ident" for k ident
    proof -
      obtain s row where row: "(s, row) \<in> set (cb_keys db1)" "isActive row" "kr_Key row = k" "id_UserEmail ident = kr_User row"
        using au unfolding authorizes_def w' by auto
      note in_act = act [OF row(1,2)]
      have "k = rt_APIKey r" if "kr_User row = norm_user user" using in_act new row(3) that unfolding rows_def by auto
      moreover have "k \<noteq> rt_APIKey r" if "kr_User row \<noteq> norm_user user"
      proof -
        have "(s, row) \<in> set (activeKeyRows (kr_User row) (cb_keys (pw_db w)))" using in_act others that by simp
        then have "(s, row) \<in> set (cb_keys (pw_db w))" by (simp add: activeKeyRows_def)
        then show ?thesis using fresh row(3) by blast
      qed
      ultimately show ?thesis using row(4) by auto
    qed
    moreover have "remdups (map (kr_Key \<circ> snd) rows) = [rt_APIKey r]" by (rule remdups_single [OF rows]) (use new in auto)
    then have "ActiveUserKey user (pw_db w') = Inr (rt_APIKey r)"
      using rotation_accounts(2) [OF a] by (simp add: ActiveUserKey_def w' rows_def [symmetric])
    moreover have "\<exists>ks i. pw_db w' = (pw_db w)\<lparr>cb_keys := ks, cb_internal := i\<rparr>" using db1 unfolding w' by metis
    moreover have "cb_keys (pw_db w') = cb_keys db1" by (simp add: w')
    moreover have b: "before \<noteq> []" using same rows by auto
    then have "remdups (map (kr_Key \<circ> snd) before) = [trim_space key]" by (rule remdups_single) (use old in auto)
    then have "ActiveUserKey user (pw_db w) = Inr (trim_space key)"
      using rotation_accounts(2) [OF a] by (simp add: ActiveUserKey_def before_def [symmetric])
    moreover have "rt_APIKey r \<noteq> trim_space key"
    proof -
      obtain s k where "(s, k) \<in> set before" using b by (cases before) auto
      then show ?thesis using old fresh unfolding before_def by (auto simp: activeKeyRows_def)
    qed
    ultimately show ?thesis using others fresh run Inr by simp
  qed
qed

text \<open>The user of the sample catalogue gets a new key.\<close>

definition rotatedKey :: string where
  "rotatedKey = ''ccpa_ann_'' @ pe_uuid sampleEnv"

definition sampleRotated :: controldb where
  "sampleRotated = snd (ApplyUserKeyRotationExpected TxOK 12 sampleFence ''ann'' ''k'' rotatedKey sampleRouted)"

lemma sampleRotated_code [code]:
  "sampleRotated = sampleRouted\<lparr>cb_keys :=
     [(0, \<lparr>kr_Label = ''ann:c1'', kr_Account = ''c1'', kr_AccountEmail = ''c@x.y'', kr_User = ''ann'', kr_Status = ''rotated'',
         kr_Key = ''k'', kr_CreatedAt = 8, kr_UpdatedAt = 12\<rparr>),
      (1, \<lparr>kr_Label = ''ann:c1'', kr_Account = ''c1'', kr_AccountEmail = ''c@x.y'', kr_User = ''ann'', kr_Status = ''active'',
         kr_Key = rotatedKey, kr_CreatedAt = 12, kr_UpdatedAt = 12\<rparr>)]\<rparr>"
  by code_simp

definition rotateEnv :: rotation_env where
  "rotateEnv =
     \<lparr>re_wired = True, re_settings = Some [], re_uuid = pe_uuid sampleEnv, re_fence = sampleFence, re_apply = TxOK, re_applyAt = 12,
      re_publish = confirmEnv, re_undo = TxOK, re_undoAt = 12, re_republish = sampleEnv\<rparr>"

theorem RotateUserKey_atomic_witness:
  "\<exists>r w'. RotateUserKey (confirmCodec sampleRotated) confirmPublisher rotateEnv '' Ann'' ''k'' sampleWorld = (Inr r, w') \<and>
     ActiveUserKey ''ann'' (pw_db w') = Inr (rt_APIKey r) \<and> rt_APIKey r \<noteq> ''k''"
proof -
  have "\<not> isl (fst (ApplyUserKeyRotationExpected TxOK 12 sampleFence ''ann'' ''k'' rotatedKey sampleRouted))" by code_simp
  then obtain rot where a: "ApplyUserKeyRotationExpected TxOK 12 sampleFence ''ann'' ''k'' rotatedKey sampleRouted = (Inr rot, sampleRotated)"
    by (metis ran_ok sampleRotated_def snd_conv)
  have "catalog_reachable Some sampleRotated"
    using step [OF sample_reachable key_rotated] a by (simp add: sampleWorld_def)
  moreover have "activeRecordUsers (ReadKeyRecords sampleRotated) = [''ann'']" by code_simp
  moreover have "cb_internal sampleRotated = []" by code_simp
  moreover have "validateWriteFence 12 sampleFence (cb_leases sampleRotated) = None" by code_simp
  ultimately obtain payload where pub: "PublishAuthSnapshot (confirmCodec sampleRotated) confirmPublisher sampleFence confirmEnv True
      (sampleWorld\<lparr>pw_db := sampleRotated\<rparr>) =
      (Inr (newGeneration (pe_uuid sampleEnv)), sampleWorld\<lparr>pw_db := followed sampleRotated, pw_file := Some payload\<rparr>)" (is "_ = (_, ?w)")
    using confirm_published by blast
  have n: "norm_user '' Ann'' = ''ann''" "norm_user ''ann'' = ''ann''" "trim_space ''k'' = ''k''" by code_simp+
  have k: "NewUserKey (pe_uuid sampleEnv) [] ''ann'' = Some rotatedKey" by code_simp
  have "\<exists>r. RotateUserKey (confirmCodec sampleRotated) confirmPublisher rotateEnv '' Ann'' ''k'' sampleWorld = (Inr r, ?w)"
    using a pub by (simp add: RotateUserKey_def n k rotateEnv_def publishChange_def sampleWorld_def)
  then obtain r where run: "RotateUserKey (confirmCodec sampleRotated) confirmPublisher rotateEnv '' Ann'' ''k'' sampleWorld = (Inr r, ?w)" by blast
  have "uuid_text (re_uuid rotateEnv)" by code_simp
  moreover have "re_undo rotateEnv = TxOK" "validateWriteFence (re_undoAt rotateEnv) (re_fence rotateEnv) (cb_leases (pw_db sampleWorld)) = None"
    using sample_publish_parts(4) by (simp_all add: rotateEnv_def sampleEnv_def)
  ultimately have "ActiveUserKey '' Ann'' (pw_db ?w) = Inr (rt_APIKey r) \<and> rt_APIKey r \<noteq> ''k''"
    using RotateUserKey_atomic [OF sample_reachable, where env = rotateEnv and codec = "confirmCodec sampleRotated"
        and p = confirmPublisher and user = "'' Ann''" and key = "''k''"] run n(3) by simp
  then show ?thesis using run by (auto simp: ActiveUserKey_def n)
qed

end
