(* ===== verification/Failover_Planner.thy ===== *)
theory Failover_Planner
  imports Prelude Float64 "HOL-Library.Product_Lexorder" "HOL-Library.Multiset"
begin

text \<open>
  \<open>internal/failover/planner.go\<close>: which user goes to which account, when accounts are evacuated or
  all users are rebalanced. Go maps are association lists in any order; \<open>sort.Slice\<close> with a
  strict total order on distinct elements is \<open>sort_key\<close>. Scores are the IEEE quotients of
  \<open>Float64\<close>. The locale \<open>selector_fn\<close> is what both planners need of the choice of an account:
  it returns a candidate.
\<close>

section \<open>Definitions\<close>

subsection \<open>Data\<close>

definition ModeOff :: string where "ModeOff = ''off''"

definition ModeActive :: string where "ModeActive = ''active''"

definition ParseMode :: "string \<Rightarrow> string option" where
  "ParseMode value =
     (let mode = norm_user value in if mode = ModeOff \<or> mode = ModeActive then Some mode else None)"

record AccountState =
  ac_Account :: string
  ac_Eligible :: bool
  ac_Exhausted :: bool
  ac_Reason :: string
  ac_UsedPercent :: "float64 option"
  ac_RemainingPercent :: "float64 option"
  ac_Headroom :: float64
  ac_ResetAt :: int64
  ac_ObservedAt :: int64

record Plan =
  pl_Assignments :: "(string, string) gomap"
  pl_ExpectedRoutes :: "(string, string) gomap"
  pl_Sources :: "(string, int) gomap"
  pl_Destinations :: "(string, int) gomap"
  pl_CandidateAccounts :: "string list"
  pl_AffectedUsers :: int
  pl_PlannedUsers :: int
  pl_SkippedUsers :: int
  pl_UnassignedUsers :: int
  pl_TargetCounts :: "(string, int) gomap"

record routeEntry =
  re_User :: string
  re_Account :: string

type_synonym states = "(string, AccountState) gomap"

subsection \<open>The least used account\<close>

fun in_percent :: "float64 option \<Rightarrow> bool" where
  "in_percent None = False"
| "in_percent (Some x) =
     (\<not> is_nan x \<and> \<not> is_inf x \<and> \<not> f64_lt x (Finite 0) \<and> \<not> f64_lt (Finite 100) x)"

definition leastUsedEligible :: "states \<Rightarrow> string \<Rightarrow> bool" where
  "leastUsedEligible states account \<longleftrightarrow>
     (case map_of states account of
        None \<Rightarrow> False
      | Some s \<Rightarrow> trim_space (ac_Account s) = account \<and> ac_Eligible s \<and> \<not> ac_Exhausted s \<and>
          ac_Reason s = ''available'' \<and> \<not> f64_le (ac_Headroom s) (Finite 0) \<and>
          in_percent (ac_RemainingPercent s) \<and> in_percent (ac_UsedPercent s))"

fun finite_value :: "float64 \<Rightarrow> rat" where
  "finite_value (Finite q) = q"
| "finite_value _ = 0"

text \<open>The percentage of an account that passed the filter, which is a finite number.\<close>

definition usedOf :: "states \<Rightarrow> string \<Rightarrow> rat" where
  "usedOf states account =
     (case map_of states account of
        None \<Rightarrow> 0
      | Some s \<Rightarrow> (case ac_UsedPercent s of None \<Rightarrow> 0 | Some u \<Rightarrow> finite_value u))"

definition LeastUsedEligibleAccount :: "string list \<Rightarrow> states \<Rightarrow> string option" where
  "LeastUsedEligibleAccount candidates states =
     (let eligible = filter (leastUsedEligible states)
                       (dedup [] (filter (\<lambda>a. a \<noteq> []) (map trim_space candidates)))
      in (case sort_key (\<lambda>a. (usedOf states a, a)) eligible of
            [] \<Rightarrow> None
          | best # _ \<Rightarrow> Some best))"

subsection \<open>Choosing an account by weight\<close>

definition eligibleCandidates :: "states \<Rightarrow> string goset \<Rightarrow> string list" where
  "eligibleCandidates states excluded =
     sort (map fst (filter (\<lambda>(account, s). ac_Eligible s \<and> f64_lt (Finite 0) (ac_Headroom s) \<and>
                              \<not> has_key excluded account) states))"

definition stateHeadroom :: "states \<Rightarrow> string \<Rightarrow> float64" where
  "stateHeadroom states a = (case map_of states a of None \<Rightarrow> Finite 0 | Some s \<Rightarrow> ac_Headroom s)"

definition stateUsed :: "states \<Rightarrow> string \<Rightarrow> float64" where
  "stateUsed states a =
     (case Option.bind (map_of states a) ac_UsedPercent of None \<Rightarrow> Finite 101 | Some u \<Rightarrow> u)"

definition weightedScore :: "states \<Rightarrow> (string, int) gomap \<Rightarrow> string \<Rightarrow> float64" where
  "weightedScore states counts a = f64_div (f64_of_int (gcount counts a + 1)) (stateHeadroom states a)"

definition weightedLess :: "states \<Rightarrow> (string, int) gomap \<Rightarrow> string \<Rightarrow> string \<Rightarrow> bool" where
  "weightedLess states counts left right =
     (let leftScore = weightedScore states counts left; rightScore = weightedScore states counts right;
          leftUsed = stateUsed states left; rightUsed = stateUsed states right
      in if \<not> f64_eq leftScore rightScore then f64_lt leftScore rightScore
         else if \<not> f64_eq leftUsed rightUsed then f64_lt leftUsed rightUsed
         else left < right)"

definition leastWeightedAccount :: "states \<Rightarrow> string list \<Rightarrow> (string, int) gomap \<Rightarrow> string option" where
  "leastWeightedAccount states candidates counts =
     (case candidates of
        [] \<Rightarrow> None
      | c # cs \<Rightarrow> Some (fold (\<lambda>a best. if weightedLess states counts a best then a else best) cs c))"

definition zeroCounts :: "string list \<Rightarrow> (string, int) gomap" where
  "zeroCounts candidates = fold (\<lambda>a m. AList.update a 0 m) candidates []"

definition addTarget :: "states \<Rightarrow> string list \<Rightarrow> (string, int) gomap \<Rightarrow> (string, int) gomap" where
  "addTarget states candidates counts =
     gincr (case leastWeightedAccount states candidates counts of None \<Rightarrow> [] | Some a \<Rightarrow> a) counts"

definition weightedTargetCounts :: "nat \<Rightarrow> string list \<Rightarrow> states \<Rightarrow> (string, int) gomap" where
  "weightedTargetCounts n candidates states = (addTarget states candidates ^^ n) (zeroCounts candidates)"

definition firstDeficit :: "string list \<Rightarrow> (string, int) gomap \<Rightarrow> string" where
  "firstDeficit candidates deficits =
     (case List.find (\<lambda>a. gcount deficits a > 0) candidates of None \<Rightarrow> [] | Some a \<Rightarrow> a)"

definition sortRouteEntries :: "routeEntry list \<Rightarrow> routeEntry list" where
  "sortRouteEntries es = sort_key (\<lambda>e. (re_User e, re_Account e)) es"

definition newPlan :: "string list \<Rightarrow> nat \<Rightarrow> Plan" where
  "newPlan candidates affected =
     \<lparr>pl_Assignments = [], pl_ExpectedRoutes = [], pl_Sources = [], pl_Destinations = [],
      pl_CandidateAccounts = candidates, pl_AffectedUsers = int affected, pl_PlannedUsers = 0,
      pl_SkippedUsers = 0, pl_UnassignedUsers = 0, pl_TargetCounts = []\<rparr>"

subsection \<open>Evacuation\<close>

text \<open>A nil set of sources stands for the exhausted accounts.\<close>

definition evacuationSources :: "states \<Rightarrow> string goset option \<Rightarrow> string goset" where
  "evacuationSources states sourceAccounts =
     (case sourceAccounts of
        Some sources \<Rightarrow> sources
      | None \<Rightarrow> fold (\<lambda>(account, s) m. if ac_Exhausted s then AList.update account () m else m) states [])"

definition affectedEntries ::
  "(string, string) gomap \<Rightarrow> string goset \<Rightarrow> string goset \<Rightarrow> routeEntry list" where
  "affectedEntries routes activeUsers sources =
     sortRouteEntries (map (\<lambda>(user, account). \<lparr>re_User = user, re_Account = account\<rparr>)
       (filter (\<lambda>(user, account). has_key activeUsers user \<and> has_key sources account) routes))"

definition routedCounts ::
  "(string, string) gomap \<Rightarrow> string goset \<Rightarrow> string list \<Rightarrow> (string, int) gomap" where
  "routedCounts routes activeUsers candidates =
     fold (\<lambda>(user, account) m. if has_key activeUsers user \<and> has_key m account then gincr account m else m)
       routes (zeroCounts candidates)"

fun evacuateEntries ::
  "states \<Rightarrow> string list \<Rightarrow> string goset \<Rightarrow> routeEntry list \<Rightarrow> (string, int) gomap \<Rightarrow> Plan \<Rightarrow> Plan" where
  "evacuateEntries states candidates routableUsers [] counts plan = plan"
| "evacuateEntries states candidates routableUsers (e # es) counts plan =
     (let plan1 = plan\<lparr>pl_Sources := gincr (re_Account e) (pl_Sources plan)\<rparr>
      in if \<not> has_key routableUsers (re_User e)
         then evacuateEntries states candidates routableUsers es counts
                (plan1\<lparr>pl_SkippedUsers := pl_SkippedUsers plan1 + 1\<rparr>)
         else (case leastWeightedAccount states candidates counts of
                 None \<Rightarrow> evacuateEntries states candidates routableUsers es counts plan1
               | Some target \<Rightarrow>
                   evacuateEntries states candidates routableUsers es (gincr target counts)
                     (plan1\<lparr>pl_Assignments := AList.update (re_User e) target (pl_Assignments plan1),
                            pl_ExpectedRoutes := AList.update (re_User e) (re_Account e) (pl_ExpectedRoutes plan1),
                            pl_Destinations := gincr target (pl_Destinations plan1)\<rparr>)))"

definition PlanEvacuation ::
  "(string, string) gomap \<Rightarrow> string goset \<Rightarrow> string goset \<Rightarrow> states \<Rightarrow> string goset option \<Rightarrow> Plan" where
  "PlanEvacuation routes activeUsers routableUsers states sourceAccounts =
     (let sources = evacuationSources states sourceAccounts;
          candidates = eligibleCandidates states sources;
          affected = affectedEntries routes activeUsers sources;
          plan = evacuateEntries states candidates routableUsers affected
                   (routedCounts routes activeUsers candidates) (newPlan candidates (length affected));
          planned = int (length (pl_Assignments plan))
      in plan\<lparr>pl_PlannedUsers := planned, pl_UnassignedUsers := pl_AffectedUsers plan - planned\<rparr>)"

subsection \<open>Global rebalancing\<close>

definition currentByAccount ::
  "(string, string) gomap \<Rightarrow> string list \<Rightarrow> (string, string list) gomap" where
  "currentByAccount routes routable =
     fold (\<lambda>user m. AList.update (gstring routes user)
                      ((case map_of m (gstring routes user) of None \<Rightarrow> [] | Some us \<Rightarrow> us) @ [user]) m)
       routable []"

definition currentOf :: "(string, string list) gomap \<Rightarrow> string \<Rightarrow> string list" where
  "currentOf m a = (case map_of m a of None \<Rightarrow> [] | Some us \<Rightarrow> us)"

definition keepCount :: "(string, string list) gomap \<Rightarrow> (string, int) gomap \<Rightarrow> string \<Rightarrow> int" where
  "keepCount current targetCounts a = min (int (length (currentOf current a))) (gcount targetCounts a)"

definition retainedUsers ::
  "string list \<Rightarrow> (string, string list) gomap \<Rightarrow> (string, int) gomap \<Rightarrow> string goset" where
  "retainedUsers candidates current targetCounts =
     fold (\<lambda>a m. fold (\<lambda>u m. AList.update u () m)
                    (take (nat (keepCount current targetCounts a)) (sort (currentOf current a))) m)
       candidates []"

definition remainingEntries ::
  "(string, string) gomap \<Rightarrow> string list \<Rightarrow> string goset \<Rightarrow> routeEntry list" where
  "remainingEntries routes routable retained =
     sortRouteEntries (map (\<lambda>u. \<lparr>re_User = u, re_Account = gstring routes u\<rparr>)
       (filter (\<lambda>u. \<not> has_key retained u) routable))"

definition accountDeficits ::
  "string list \<Rightarrow> (string, string list) gomap \<Rightarrow> (string, int) gomap \<Rightarrow> (string, int) gomap" where
  "accountDeficits candidates current targetCounts =
     fold (\<lambda>a m. AList.update a (gcount targetCounts a - keepCount current targetCounts a) m) candidates []"

fun rebalanceEntries :: "string list \<Rightarrow> routeEntry list \<Rightarrow> (string, int) gomap \<Rightarrow> Plan \<Rightarrow> Plan" where
  "rebalanceEntries candidates [] deficits plan = plan"
| "rebalanceEntries candidates (e # es) deficits plan =
     (let target = firstDeficit candidates deficits
      in if target = [] then plan
         else if re_Account e = target then rebalanceEntries candidates es (gdecr target deficits) plan
         else rebalanceEntries candidates es (gdecr target deficits)
                (plan\<lparr>pl_Assignments := AList.update (re_User e) target (pl_Assignments plan),
                      pl_ExpectedRoutes := AList.update (re_User e) (re_Account e) (pl_ExpectedRoutes plan),
                      pl_Sources := gincr (re_Account e) (pl_Sources plan),
                      pl_Destinations := gincr target (pl_Destinations plan)\<rparr>))"

definition PlanGlobalRebalance ::
  "(string, string) gomap \<Rightarrow> string goset \<Rightarrow> string goset \<Rightarrow> states \<Rightarrow> Plan" where
  "PlanGlobalRebalance routes activeUsers routableUsers states =
     (let candidates = eligibleCandidates states [];
          users = sort (keys activeUsers);
          plan = newPlan candidates (length users)
      in if candidates = [] then plan\<lparr>pl_UnassignedUsers := int (length users)\<rparr>
         else let routable = filter (has_key routableUsers) users;
                  skipped = int (length users) - int (length routable)
              in if skipped > 0
                 then plan\<lparr>pl_SkippedUsers := skipped, pl_UnassignedUsers := pl_AffectedUsers plan\<rparr>
                 else let targetCounts = weightedTargetCounts (length routable) candidates states;
                          current = currentByAccount routes routable;
                          retained = retainedUsers candidates current targetCounts;
                          remaining = remainingEntries routes routable retained;
                          deficits = accountDeficits candidates current targetCounts;
                          plan' = rebalanceEntries candidates remaining deficits
                                    (plan\<lparr>pl_TargetCounts := targetCounts\<rparr>)
                      in plan'\<lparr>pl_PlannedUsers := int (length (pl_Assignments plan')),
                               pl_UnassignedUsers := 0\<rparr>)"

text \<open>Where a user is routed once a plan is applied.\<close>

definition routedAfter :: "Plan \<Rightarrow> (string, string) gomap \<Rightarrow> string \<Rightarrow> string" where
  "routedAfter plan routes u =
     (case map_of (pl_Assignments plan) u of Some a \<Rightarrow> a | None \<Rightarrow> gstring routes u)"

text \<open>The accounts \<open>rebalanceEntries\<close> deals out, while every deficit search succeeds.\<close>

fun dealTargets :: "string list \<Rightarrow> (string, int) gomap \<Rightarrow> nat \<Rightarrow> string list" where
  "dealTargets candidates deficits 0 = []"
| "dealTargets candidates deficits (Suc n) =
     (let t = firstDeficit candidates deficits in t # dealTargets candidates (gdecr t deficits) n)"

text \<open>What the evacuation loop does to a plan, entry by entry.\<close>

definition evacuated :: "string goset \<Rightarrow> string list \<Rightarrow> routeEntry list \<Rightarrow> Plan \<Rightarrow> Plan \<Rightarrow> bool" where
  "evacuated routable cs es plan out \<longleftrightarrow>
     (\<forall>u t. map_of (pl_Assignments out) u = Some t \<longrightarrow>
        map_of (pl_Assignments plan) u = Some t \<or>
        (\<exists>e \<in> set es. re_User e = u \<and> has_key routable u \<and> t \<in> set cs \<and>
           map_of (pl_ExpectedRoutes out) u = Some (re_Account e))) \<and>
     (\<forall>u. u \<notin> re_User ` set es \<longrightarrow> map_of (pl_ExpectedRoutes out) u = map_of (pl_ExpectedRoutes plan) u) \<and>
     int (length (pl_Assignments out)) =
       int (length (pl_Assignments plan)) +
       (if cs = [] then 0 else int (length (filter (\<lambda>e. has_key routable (re_User e)) es))) \<and>
     pl_SkippedUsers out = pl_SkippedUsers plan + int (length (filter (\<lambda>e. \<not> has_key routable (re_User e)) es)) \<and>
     pl_AffectedUsers out = pl_AffectedUsers plan \<and> pl_CandidateAccounts out = pl_CandidateAccounts plan"

section \<open>Lemmas\<close>

subsection \<open>Choosing an account\<close>

lemma fold_choice_in: "fold (\<lambda>a best. if P a best then a else best) cs c \<in> set (c # cs)"
proof (induction cs arbitrary: c)
  case (Cons x cs)
  show ?case using Cons.IH [of x] Cons.IH [of c] by auto
qed simp

lemma leastWeightedAccount_in: "leastWeightedAccount states cs counts = Some a \<Longrightarrow> a \<in> set cs"
  using fold_choice_in [of "weightedLess states counts" "tl cs" "hd cs"]
  by (cases cs) (auto simp: leastWeightedAccount_def)

lemma gcount_zeroCounts: "gcount (zeroCounts cs) a = 0"
proof -
  have "gcount (fold (\<lambda>a m. AList.update a 0 m) cs m) a = 0" if "gcount m a = 0" for m :: "(string, int) gomap"
    using that by (induction cs arbitrary: m) auto
  then show ?thesis by (simp add: zeroCounts_def)
qed

lemma has_key_zeroCounts: "has_key (zeroCounts cs) a \<longleftrightarrow> a \<in> set cs"
proof -
  have "has_key (fold (\<lambda>a m. AList.update a 0 m) cs m) a \<longleftrightarrow> a \<in> set cs \<or> has_key m a"
    for m :: "(string, int) gomap"
    by (induction cs arbitrary: m) auto
  then show ?thesis by (simp add: zeroCounts_def has_key_def)
qed

lemma sum_gcount_gincr:
  "distinct cs \<Longrightarrow> a \<in> set cs \<Longrightarrow> (\<Sum>c\<leftarrow>cs. gcount (gincr a m) c) = (\<Sum>c\<leftarrow>cs. gcount m c) + 1"
proof (induction cs)
  case (Cons c cs)
  have "(\<Sum>x\<leftarrow>cs. gcount (gincr a m) x) = (\<Sum>x\<leftarrow>cs. gcount m x)" if "a \<notin> set cs"
    using that by (intro arg_cong [where f = sum_list] map_cong) auto
  with Cons show ?case by auto
qed simp

lemma sum_gcount_gdecr:
  "distinct cs \<Longrightarrow> a \<in> set cs \<Longrightarrow> (\<Sum>c\<leftarrow>cs. gcount (gdecr a m) c) = (\<Sum>c\<leftarrow>cs. gcount m c) - 1"
proof (induction cs)
  case (Cons c cs)
  have "(\<Sum>x\<leftarrow>cs. gcount (gdecr a m) x) = (\<Sum>x\<leftarrow>cs. gcount m x)" if "a \<notin> set cs"
    using that by (intro arg_cong [where f = sum_list] map_cong) auto
  with Cons show ?case by auto
qed simp

text \<open>What the planners need of the choice: a candidate, whenever there is one.\<close>

locale selector_fn =
  fixes pick :: "(string, int) gomap \<Rightarrow> string option" and cands :: "string list"
  assumes choose_in: "pick counts = Some a \<Longrightarrow> a \<in> set cands"
    and choose_some: "cands \<noteq> [] \<Longrightarrow> pick counts \<noteq> None"
begin

lemma choose_nonempty: "cands \<noteq> [] \<Longrightarrow> \<exists>a. pick counts = Some a \<and> a \<in> set cands"
  using choose_in choose_some by blast

text \<open>Dealing \<open>n\<close> users spreads exactly \<open>n\<close> over the candidates and takes none away.\<close>

lemma spread:
  assumes "cands \<noteq> []" "distinct cands"
  shows "(\<Sum>c\<leftarrow>cands. gcount (((\<lambda>m. gincr (case pick m of None \<Rightarrow> [] | Some a \<Rightarrow> a) m) ^^ n) z) c) =
           (\<Sum>c\<leftarrow>cands. gcount z c) + int n \<and>
         (\<forall>c. gcount z c \<le> gcount (((\<lambda>m. gincr (case pick m of None \<Rightarrow> [] | Some a \<Rightarrow> a) m) ^^ n) z) c)"
proof (induction n)
  case (Suc n)
  let ?m = "((\<lambda>m. gincr (case pick m of None \<Rightarrow> [] | Some a \<Rightarrow> a) m) ^^ n) z"
  obtain a where "pick ?m = Some a" "a \<in> set cands" using choose_nonempty [OF assms(1)] by blast
  with Suc sum_gcount_gincr [OF assms(2), of a ?m] show ?case
    by (auto simp: add_increasing2)
qed simp

end

interpretation weighted: selector_fn "leastWeightedAccount states cs" cs for states cs
  by unfold_locales (auto simp: leastWeightedAccount_in, auto simp: leastWeightedAccount_def split: list.splits)

lemma weightedTargetCounts_sum:
  assumes "cs \<noteq> []" "distinct cs"
  shows "(\<Sum>c\<leftarrow>cs. gcount (weightedTargetCounts n cs states) c) = int n"
    and "0 \<le> gcount (weightedTargetCounts n cs states) c"
proof -
  have f: "addTarget states cs = (\<lambda>m. gincr (case leastWeightedAccount states cs m of None \<Rightarrow> [] | Some a \<Rightarrow> a) m)"
    by (rule ext) (simp add: addTarget_def)
  have z: "(\<Sum>c\<leftarrow>cs. gcount (zeroCounts cs) c) = 0" by (simp add: gcount_zeroCounts)
  note S = weighted.spread [OF assms, where states = states and n = n and z = "zeroCounts cs", folded f]
  show "(\<Sum>c\<leftarrow>cs. gcount (weightedTargetCounts n cs states) c) = int n"
    using S [THEN conjunct1] z by (simp only: weightedTargetCounts_def)
  show "0 \<le> gcount (weightedTargetCounts n cs states) c"
    using S [THEN conjunct2, THEN spec, of c] by (simp only: weightedTargetCounts_def gcount_zeroCounts)
qed

lemma distinct_eligibleCandidates: "wf_map states \<Longrightarrow> distinct (eligibleCandidates states ex)"
  by (auto simp: eligibleCandidates_def wf_map_def distinct_map_filter)

lemma set_eligibleCandidates:
  "wf_map states \<Longrightarrow> a \<in> set (eligibleCandidates states ex) \<longleftrightarrow>
     (\<exists>s. map_of states a = Some s \<and> ac_Eligible s \<and> f64_lt (Finite 0) (ac_Headroom s) \<and> \<not> has_key ex a)"
  by (force simp: eligibleCandidates_def wf_map_map_of)

lemma candidates_keys: "set (eligibleCandidates states ex) \<subseteq> set (keys states)"
  by (auto simp: eligibleCandidates_def)

subsection \<open>Dealing out deficits\<close>

lemma sum_list_zero_all:
  "(\<forall>c \<in> set cs. 0 \<le> f c) \<Longrightarrow> (\<forall>c \<in> set cs. f c \<le> (0::int)) \<Longrightarrow> (\<Sum>c\<leftarrow>cs. f c) = 0"
  by (induction cs) auto

lemma firstDeficit_found:
  assumes "\<forall>c \<in> set cs. 0 \<le> gcount d c" "0 < (\<Sum>c\<leftarrow>cs. gcount d c)"
  shows "firstDeficit cs d \<in> set cs \<and> 0 < gcount d (firstDeficit cs d)"
proof -
  have "\<exists>c \<in> set cs. 0 < gcount d c"
    using sum_list_zero_all [OF assms(1)] assms(2) by force
  then obtain x where "List.find (\<lambda>a. gcount d a > 0) cs = Some x" using find_exists by metis
  then show ?thesis using find_SomeD [of "\<lambda>a. gcount d a > 0" cs x] by (simp add: firstDeficit_def)
qed

lemma deal_counts:
  assumes "distinct cs" "\<forall>c \<in> set cs. 0 \<le> gcount d c" "(\<Sum>c\<leftarrow>cs. gcount d c) = int n"
  shows "length (dealTargets cs d n) = n \<and> set (dealTargets cs d n) \<subseteq> set cs \<and>
         (\<forall>c \<in> set cs. int (count_list (dealTargets cs d n) c) = gcount d c)"
  using assms(2,3)
proof (induction n arbitrary: d)
  case 0
  have "gcount d c = 0" if "c \<in> set cs" for c
    using 0 that sum_list_nonneg_eq_0_iff [of "map (gcount d) cs"] by auto
  then show ?case by simp
next
  case (Suc n)
  let ?t = "firstDeficit cs d"
  have t: "?t \<in> set cs" "0 < gcount d ?t" using firstDeficit_found [OF Suc.prems(1)] Suc.prems(2) by auto
  have "\<forall>c \<in> set cs. 0 \<le> gcount (gdecr ?t d) c" using Suc.prems(1) t by auto
  moreover have "(\<Sum>c\<leftarrow>cs. gcount (gdecr ?t d) c) = int n"
    using sum_gcount_gdecr [OF assms(1) t(1)] Suc.prems(2) by simp
  ultimately have "length (dealTargets cs (gdecr ?t d) n) = n \<and> set (dealTargets cs (gdecr ?t d) n) \<subseteq> set cs \<and>
      (\<forall>c \<in> set cs. int (count_list (dealTargets cs (gdecr ?t d) n) c) = gcount (gdecr ?t d) c)"
    by (rule Suc.IH)
  with t show ?case by (auto simp: Let_def)
qed

text \<open>The loop of the rebalance, when no deficit search fails.\<close>

lemma rebalanceEntries_deal:
  assumes "[] \<notin> set (dealTargets cs d (length es))" "distinct (map re_User es)"
  shows "(\<forall>(e, t) \<in> set (zip es (dealTargets cs d (length es))).
            map_of (pl_Assignments (rebalanceEntries cs es d plan)) (re_User e) =
              (if re_Account e = t then map_of (pl_Assignments plan) (re_User e) else Some t) \<and>
            (re_Account e \<noteq> t \<longrightarrow>
              map_of (pl_ExpectedRoutes (rebalanceEntries cs es d plan)) (re_User e) = Some (re_Account e))) \<and>
         (\<forall>u. u \<notin> re_User ` set es \<longrightarrow>
            map_of (pl_Assignments (rebalanceEntries cs es d plan)) u = map_of (pl_Assignments plan) u \<and>
            map_of (pl_ExpectedRoutes (rebalanceEntries cs es d plan)) u = map_of (pl_ExpectedRoutes plan) u)"
  using assms
proof (induction cs es d plan rule: rebalanceEntries.induct)
  case (2 cs e es d plan)
  let ?t = "firstDeficit cs d" and ?ts = "dealTargets cs (gdecr (firstDeficit cs d) d) (length es)"
  let ?plan = "if re_Account e = ?t then plan
    else plan\<lparr>pl_Assignments := AList.update (re_User e) ?t (pl_Assignments plan),
              pl_ExpectedRoutes := AList.update (re_User e) (re_Account e) (pl_ExpectedRoutes plan),
              pl_Sources := gincr (re_Account e) (pl_Sources plan),
              pl_Destinations := gincr ?t (pl_Destinations plan)\<rparr>"
  have t: "?t \<noteq> []" "[] \<notin> set ?ts" "distinct (map re_User es)" "re_User e \<notin> re_User ` set es"
    using "2.prems" by (auto simp: Let_def)
  have loop: "rebalanceEntries cs (e # es) d plan = rebalanceEntries cs es (gdecr ?t d) ?plan"
    using t(1) by (simp add: Let_def)
  have IH: "(\<forall>(e, t) \<in> set (zip es ?ts).
            map_of (pl_Assignments (rebalanceEntries cs es (gdecr ?t d) ?plan)) (re_User e) =
              (if re_Account e = t then map_of (pl_Assignments ?plan) (re_User e) else Some t) \<and>
            (re_Account e \<noteq> t \<longrightarrow>
              map_of (pl_ExpectedRoutes (rebalanceEntries cs es (gdecr ?t d) ?plan)) (re_User e) = Some (re_Account e))) \<and>
         (\<forall>u. u \<notin> re_User ` set es \<longrightarrow>
            map_of (pl_Assignments (rebalanceEntries cs es (gdecr ?t d) ?plan)) u = map_of (pl_Assignments ?plan) u \<and>
            map_of (pl_ExpectedRoutes (rebalanceEntries cs es (gdecr ?t d) ?plan)) u = map_of (pl_ExpectedRoutes ?plan) u)"
    using "2.IH" [OF refl t(1)] t by simp
  have other: "map_of (pl_Assignments ?plan) (re_User e') = map_of (pl_Assignments plan) (re_User e')"
    if "(e', t') \<in> set (zip es ?ts)" for e' t'
  proof -
    have "re_User e' \<noteq> re_User e" using that t(4) by (metis imageI set_zip_leftD)
    then show ?thesis by simp
  qed
  have ts: "dealTargets cs d (length (e # es)) = ?t # ?ts" by (simp add: Let_def)
  show ?case unfolding loop ts zip_Cons_Cons
    using IH other t(4) by (auto split: prod.splits)
qed simp

subsection \<open>Who stays and who moves\<close>

lemma currentOf_currentByAccount:
  "currentOf (currentByAccount routes us) a = filter (\<lambda>u. gstring routes u = a) us"
proof -
  have "currentOf (fold (\<lambda>user m. AList.update (gstring routes user)
            ((case map_of m (gstring routes user) of None \<Rightarrow> [] | Some us \<Rightarrow> us) @ [user]) m) us m) a =
        currentOf m a @ filter (\<lambda>u. gstring routes u = a) us" for m
    by (induction us arbitrary: m) (auto simp: currentOf_def)
  then show ?thesis by (simp add: currentByAccount_def currentOf_def)
qed

lemma has_key_fold_update:
  "has_key (fold (\<lambda>u m. AList.update u () m) us m) v \<longleftrightarrow> v \<in> set us \<or> has_key m v"
  by (induction us arbitrary: m) auto

lemma has_key_retained:
  "has_key (retainedUsers cs cur tc) u \<longleftrightarrow>
     (\<exists>a \<in> set cs. u \<in> set (take (nat (keepCount cur tc a)) (sort (currentOf cur a))))"
proof -
  have "has_key (fold (\<lambda>a m. fold (\<lambda>u m. AList.update u () m)
          (take (nat (keepCount cur tc a)) (sort (currentOf cur a))) m) cs m) u \<longleftrightarrow>
        (\<exists>a \<in> set cs. u \<in> set (take (nat (keepCount cur tc a)) (sort (currentOf cur a)))) \<or> has_key m u"
    for m :: "string goset"
    by (induction cs arbitrary: m) (auto simp: has_key_fold_update)
  then show ?thesis by (simp add: retainedUsers_def has_key_def)
qed

lemma gcount_accountDeficits:
  "a \<in> set cs \<Longrightarrow> gcount (accountDeficits cs cur tc) a = gcount tc a - keepCount cur tc a"
proof -
  have "gcount (fold (\<lambda>a m. AList.update a (gcount tc a - keepCount cur tc a) m) cs m) a =
      (if a \<in> set cs then gcount tc a - keepCount cur tc a else gcount m a)" for m :: "(string, int) gomap"
    by (induction cs arbitrary: m) auto
  then show "a \<in> set cs \<Longrightarrow> gcount (accountDeficits cs cur tc) a = gcount tc a - keepCount cur tc a"
    by (simp add: accountDeficits_def)
qed

lemma retained_on_account:
  assumes "distinct us" "a \<in> set cs" "0 \<le> gcount tc a"
  shows "int (length (filter (\<lambda>u. has_key (retainedUsers cs (currentByAccount routes us) tc) u \<and> gstring routes u = a) us)) =
         keepCount (currentByAccount routes us) tc a"
proof -
  let ?cur = "currentByAccount routes us"
  let ?k = "nat (keepCount ?cur tc a)" and ?on = "filter (\<lambda>u. gstring routes u = a) us"
  have k: "?k \<le> length ?on" "int ?k = keepCount ?cur tc a"
    using assms(3) by (auto simp: keepCount_def currentOf_currentByAccount)
  have "{u \<in> set us. has_key (retainedUsers cs ?cur tc) u \<and> gstring routes u = a} = set (take ?k (sort ?on))"
  proof -
    have on: "u \<in> set us \<and> gstring routes u = b" if "u \<in> set (take n (sort (currentOf ?cur b)))" for u b n
      using in_set_takeD [OF that] by (simp add: currentOf_currentByAccount)
    have cur: "currentOf ?cur a = ?on" by (rule currentOf_currentByAccount)
    have "u \<in> set (take ?k (sort ?on))"
      if "has_key (retainedUsers cs ?cur tc) u" "gstring routes u = a" for u
    proof -
      obtain b where "u \<in> set (take (nat (keepCount ?cur tc b)) (sort (currentOf ?cur b)))"
        using \<open>has_key (retainedUsers cs ?cur tc) u\<close> unfolding has_key_retained by blast
      moreover from on [OF this] have "b = a" using \<open>gstring routes u = a\<close> by simp
      ultimately show ?thesis unfolding cur [symmetric] by simp
    qed
    moreover have "u \<in> set us \<and> gstring routes u = a \<and> has_key (retainedUsers cs ?cur tc) u"
      if "u \<in> set (take ?k (sort ?on))" for u
      using on [OF that [folded cur]] that [folded cur] assms(2) unfolding has_key_retained by blast
    ultimately show ?thesis by blast
  qed
  then have "card (set (filter (\<lambda>u. has_key (retainedUsers cs ?cur tc) u \<and> gstring routes u = a) us)) =
      card (set (take ?k (sort ?on)))" by simp
  moreover have "distinct (take ?k (sort ?on))" using assms(1) by simp
  ultimately show ?thesis
    using assms(1) k by (simp add: distinct_card del: set_filter)
qed

lemma retained_route:
  "has_key (retainedUsers cs (currentByAccount routes us) tc) u \<Longrightarrow> gstring routes u \<in> set cs"
  by (auto simp: has_key_retained currentOf_currentByAccount dest!: in_set_takeD)

lemma indicator_sum: "distinct cs \<Longrightarrow> (\<Sum>a\<leftarrow>cs. if x = a then 1 else 0 :: nat) = (if x \<in> set cs then 1 else 0)"
  by (induction cs) auto

lemma length_filter_classes:
  "distinct cs \<Longrightarrow> \<forall>u. P u \<longrightarrow> f u \<in> set cs \<Longrightarrow>
   length (filter P us) = (\<Sum>a\<leftarrow>cs. length (filter (\<lambda>u. P u \<and> f u = a) us))"
proof (induction us)
  case (Cons u us)
  have "(\<Sum>a\<leftarrow>cs. length (filter (\<lambda>u. P u \<and> f u = a) (u # us))) =
      (\<Sum>a\<leftarrow>cs. (if P u \<and> f u = a then 1 else 0) + length (filter (\<lambda>u. P u \<and> f u = a) us))"
    by (intro arg_cong [where f = sum_list] map_cong) auto
  also have "\<dots> = (\<Sum>a\<leftarrow>cs. if P u \<and> f u = a then 1 else 0) + length (filter P us)"
    using Cons by (simp add: sum_list_addf)
  also have "(\<Sum>a\<leftarrow>cs. if P u \<and> f u = a then 1 else 0) = (if P u then 1 else (0::nat))"
    using Cons.prems indicator_sum [OF Cons.prems(1), of "f u"] by (cases "P u") auto
  finally show ?case by simp
qed simp

lemma sum_retained:
  assumes "distinct us" "distinct cs" "\<forall>a \<in> set cs. 0 \<le> gcount tc a"
  shows "int (length (filter (has_key (retainedUsers cs (currentByAccount routes us) tc)) us)) =
         (\<Sum>a\<leftarrow>cs. keepCount (currentByAccount routes us) tc a)"
proof -
  let ?ret = "has_key (retainedUsers cs (currentByAccount routes us) tc)"
  have "length (filter ?ret us) = (\<Sum>a\<leftarrow>cs. length (filter (\<lambda>u. ?ret u \<and> gstring routes u = a) us))"
    by (rule length_filter_classes [OF assms(2)]) (use retained_route in blast)
  also have "int \<dots> = (\<Sum>a\<leftarrow>cs. int (length (filter (\<lambda>u. ?ret u \<and> gstring routes u = a) us)))"
    by (rule int_sum_list [symmetric])
  also have "\<dots> = (\<Sum>a\<leftarrow>cs. keepCount (currentByAccount routes us) tc a)"
    using assms by (intro arg_cong [where f = sum_list] map_cong refl retained_on_account) auto
  finally show ?thesis .
qed

lemma mset_remaining:
  "mset (map re_User (remainingEntries routes us ret)) = mset (filter (\<lambda>u. \<not> has_key ret u) us)"
  by (simp add: remainingEntries_def sortRouteEntries_def image_mset.compositionality comp_def)

lemma remaining_entry:
  "e \<in> set (remainingEntries routes us ret) \<Longrightarrow> re_Account e = gstring routes (re_User e)"
  by (auto simp: remainingEntries_def sortRouteEntries_def)

lemma count_list_filter: "count_list xs a = length (filter (\<lambda>x. x = a) xs)"
  by (induction xs) auto

text \<open>The body of the rebalance, on distinct users and candidates.\<close>

lemma rebalance_body:
  fixes us cs routes states plan
  defines "tc \<equiv> weightedTargetCounts (length us) cs states" and "cur \<equiv> currentByAccount routes us"
  defines "ret \<equiv> retainedUsers cs cur tc"
  defines "es \<equiv> remainingEntries routes us ret" and "d \<equiv> accountDeficits cs cur tc"
  assumes us: "distinct us" and cs: "distinct cs" "cs \<noteq> []" "[] \<notin> set cs" and "pl_Assignments plan = []"
  defines "out \<equiv> rebalanceEntries cs es d plan"
  shows "\<forall>u \<in> set us. routedAfter out routes u \<in> set cs"
    and "\<forall>a \<in> set cs. int (length (filter (\<lambda>u. routedAfter out routes u = a) us)) = gcount tc a"
    and "\<forall>u t. map_of (pl_Assignments out) u = Some t \<longrightarrow>
           u \<in> set us \<and> t \<noteq> gstring routes u \<and> map_of (pl_ExpectedRoutes out) u = Some (gstring routes u)"
proof -
  let ?n = "length es" and ?ts = "dealTargets cs d (length es)"
  have tc: "(\<Sum>a\<leftarrow>cs. gcount tc a) = int (length us)" "\<And>a. 0 \<le> gcount tc a"
    unfolding tc_def using weightedTargetCounts_sum [OF cs(2,1)] by auto
  have dg: "gcount d a = gcount tc a - keepCount cur tc a" if "a \<in> set cs" for a
    unfolding d_def using that by (rule gcount_accountDeficits)
  have dnn: "\<forall>a \<in> set cs. 0 \<le> gcount d a" using dg by (simp add: keepCount_def)
  have ms: "mset (map re_User es) = mset (filter (\<lambda>u. \<not> has_key ret u) us)"
    unfolding es_def by (rule mset_remaining)
  have len: "?n = length (filter (\<lambda>u. \<not> has_key ret u) us)" using arg_cong [OF ms, of size] by (simp only: size_mset length_map)
  have sumd: "(\<Sum>a\<leftarrow>cs. gcount d a) = int ?n"
  proof -
    have "(\<Sum>a\<leftarrow>cs. gcount d a) = (\<Sum>a\<leftarrow>cs. gcount tc a - keepCount cur tc a)"
      using dg by (intro arg_cong [where f = sum_list] map_cong) auto
    also have "\<dots> = int (length us) - int (length (filter (has_key ret) us))"
      using tc sum_retained [OF us cs(1), of tc routes] by (simp add: sum_list_subtractf ret_def cur_def)
    also have "\<dots> = int ?n" using sum_length_filter_compl [of "has_key ret" us] len by simp
    finally show ?thesis .
  qed
  note deal = deal_counts [OF cs(1) dnn sumd]
  have ts: "length ?ts = ?n" "set ?ts \<subseteq> set cs" "[] \<notin> set ?ts" using deal cs(3) by auto
  have dist: "distinct (map re_User es)" using ms us by (metis distinct_filter mset_eq_imp_distinct_iff)
  note loop = rebalanceEntries_deal [OF ts(3) dist, of plan, folded out_def]
  have acc: "re_Account e = gstring routes (re_User e)" if "e \<in> set es" for e
    using that unfolding es_def by (rule remaining_entry)
  have moved: "routedAfter out routes (re_User e) = t" if et: "(e, t) \<in> set (zip es ?ts)" for e t
  proof -
    have "map_of (pl_Assignments out) (re_User e) = (if re_Account e = t then None else Some t)"
      using loop et assms(10) by auto
    moreover have "re_Account e = gstring routes (re_User e)" using et acc by (meson set_zip_leftD)
    ultimately show ?thesis by (simp add: routedAfter_def)
  qed
  have es_set: "re_User ` set es = {u \<in> set us. \<not> has_key ret u}"
    using arg_cong [OF ms, of set_mset] by auto
  have kept: "routedAfter out routes u = gstring routes u" if "has_key ret u" for u
  proof -
    have "u \<notin> re_User ` set es" using that unfolding es_set by simp
    with loop assms(10) show ?thesis by (simp add: routedAfter_def)
  qed
  have map_ts: "map (\<lambda>e. routedAfter out routes (re_User e)) es = ?ts"
  proof (rule nth_equalityI)
    fix i assume "i < length (map (\<lambda>e. routedAfter out routes (re_User e)) es)"
    then have "i < length es" "(es ! i, ?ts ! i) \<in> set (zip es ?ts)" using ts(1) by (auto simp: set_zip)
    then show "map (\<lambda>e. routedAfter out routes (re_User e)) es ! i = ?ts ! i" using moved by simp
  qed (use ts(1) in simp)
  show all: "\<forall>u \<in> set us. routedAfter out routes u \<in> set cs"
  proof
    fix u assume u: "u \<in> set us"
    show "routedAfter out routes u \<in> set cs"
    proof (cases "has_key ret u")
      case True
      then have "gstring routes u \<in> set cs" unfolding ret_def cur_def by (rule retained_route)
      then show ?thesis using kept [OF True] by simp
    next
      case False
      then have "u \<in> re_User ` set es" using u unfolding es_set by simp
      then obtain e where "e \<in> set es" "u = re_User e" by (rule imageE)
      then have "routedAfter out routes u \<in> set ?ts" unfolding map_ts [symmetric] by auto
      then show ?thesis using ts(2) by blast
    qed
  qed
  show "\<forall>a \<in> set cs. int (length (filter (\<lambda>u. routedAfter out routes u = a) us)) = gcount tc a"
  proof
    fix a assume a: "a \<in> set cs"
    let ?R = "\<lambda>u. routedAfter out routes u = a"
    have split: "length (filter ?R us) =
        length (filter (\<lambda>u. has_key ret u \<and> ?R u) us) + length (filter ?R (filter (\<lambda>u. \<not> has_key ret u) us))"
      by (induction us) auto
    have "filter (\<lambda>u. has_key ret u \<and> ?R u) us = filter (\<lambda>u. has_key ret u \<and> gstring routes u = a) us"
      using kept by (intro filter_cong) auto
    then have 1: "int (length (filter (\<lambda>u. has_key ret u \<and> ?R u) us)) = keepCount cur tc a"
      using retained_on_account [OF us a tc(2)] unfolding ret_def cur_def by simp
    have "length (filter ?R (filter (\<lambda>u. \<not> has_key ret u) us)) = length (filter ?R (map re_User es))"
      by (metis (no_types) ms mset_filter size_mset)
    also have "\<dots> = count_list ?ts a"
      unfolding map_ts [symmetric] by (simp add: count_list_filter filter_map comp_def)
    finally have 2: "int (length (filter ?R (filter (\<lambda>u. \<not> has_key ret u) us))) = gcount d a"
      using deal a by simp
    show "int (length (filter ?R us)) = gcount tc a"
      using split 1 2 dg [OF a] by simp
  qed
  show "\<forall>u t. map_of (pl_Assignments out) u = Some t \<longrightarrow>
           u \<in> set us \<and> t \<noteq> gstring routes u \<and> map_of (pl_ExpectedRoutes out) u = Some (gstring routes u)"
  proof (intro allI impI)
    fix u t assume ut: "map_of (pl_Assignments out) u = Some t"
    have "u \<in> re_User ` set es"
    proof (rule ccontr)
      assume "u \<notin> re_User ` set es"
      then have "map_of (pl_Assignments out) u = None" using loop assms(10) by simp
      then show False using ut by simp
    qed
    then obtain e where e: "u = re_User e" "e \<in> set es" by (rule imageE)
    then obtain t' where et: "(e, t') \<in> set (zip es ?ts)"
      using ts(1) by (metis in_set_impl_in_set_zip1)
    with loop ut e assms(10) have "re_Account e \<noteq> t'" "t = t'"
        "map_of (pl_ExpectedRoutes out) u = Some (re_Account e)" by (force split: if_splits)+
    then show "u \<in> set us \<and> t \<noteq> gstring routes u \<and> map_of (pl_ExpectedRoutes out) u = Some (gstring routes u)"
      using acc [OF e(2)] e es_set by auto
  qed
qed

subsection \<open>The evacuation loop\<close>

lemma evacuateEntries_spec:
  assumes "distinct (map re_User es)" "\<forall>e \<in> set es. \<not> has_key (pl_Assignments plan) (re_User e)"
  shows "evacuated routable cs es plan (evacuateEntries states cs routable es counts plan)"
  using assms
proof (induction states cs routable es counts plan rule: evacuateEntries.induct)
  case (2 states cs routable e es counts plan)
  let ?plan1 = "plan\<lparr>pl_Sources := gincr (re_Account e) (pl_Sources plan)\<rparr>"
  have d: "distinct (map re_User es)" "re_User e \<notin> re_User ` set es" using "2.prems"(1) by auto
  consider (skip) "\<not> has_key routable (re_User e)"
    | (none) "has_key routable (re_User e)" "leastWeightedAccount states cs counts = None"
    | (move) t where "has_key routable (re_User e)" "leastWeightedAccount states cs counts = Some t"
    by (cases "leastWeightedAccount states cs counts") auto
  then show ?case
  proof cases
    case skip
    from "2.IH"(1) [OF refl skip d(1)] "2.prems"(2) skip show ?thesis
      unfolding evacuated_def by (auto simp: Let_def)
  next
    case none
    then have "cs = []" using weighted.choose_some by blast
    moreover have "evacuated routable cs es ?plan1 (evacuateEntries states cs routable es counts ?plan1)"
      by (rule "2.IH"(2) [OF refl _ none(2) d(1)]) (use none "2.prems"(2) in simp_all)
    ultimately show ?thesis using none unfolding evacuated_def by (auto simp: Let_def)
  next
    case (move t)
    let ?plan2 = "?plan1\<lparr>pl_Assignments := AList.update (re_User e) t (pl_Assignments ?plan1),
                 pl_ExpectedRoutes := AList.update (re_User e) (re_Account e) (pl_ExpectedRoutes ?plan1),
                 pl_Destinations := gincr t (pl_Destinations ?plan1)\<rparr>"
    let ?out = "evacuateEntries states cs routable es (gincr t counts) ?plan2"
    have t: "t \<in> set cs" "cs \<noteq> []" using leastWeightedAccount_in [OF move(2)] by auto
    have loop: "evacuateEntries states cs routable (e # es) counts plan = ?out"
      using move by (simp add: Let_def)
    have new: "\<not> has_key (pl_Assignments plan) (re_User e)" using "2.prems"(2) by simp
    have IH: "evacuated routable cs es ?plan2 ?out"
      by (rule "2.IH"(3) [OF refl _ move(2) d(1)]) (use move "2.prems"(2) d(2) in \<open>auto simp: image_iff\<close>)
    have x: "map_of (pl_ExpectedRoutes ?out) (re_User e) = Some (re_Account e)"
      using IH d(2) by (simp add: evacuated_def)
    have l: "int (length (pl_Assignments ?plan2)) = int (length (pl_Assignments plan)) + 1"
      using length_update_new [OF new] by simp
    show ?thesis unfolding loop evacuated_def
    proof (intro conjI allI impI)
      fix u t' assume "map_of (pl_Assignments ?out) u = Some t'"
      then consider "map_of (pl_Assignments ?plan2) u = Some t'"
        | e' where "e' \<in> set es" "re_User e' = u" "has_key routable u" "t' \<in> set cs"
            "map_of (pl_ExpectedRoutes ?out) u = Some (re_Account e')"
        using IH unfolding evacuated_def by blast
      then show "map_of (pl_Assignments plan) u = Some t' \<or>
          (\<exists>e' \<in> set (e # es). re_User e' = u \<and> has_key routable u \<and> t' \<in> set cs \<and>
             map_of (pl_ExpectedRoutes ?out) u = Some (re_Account e'))"
        by cases (use x t(1) move(1) in \<open>auto split: if_splits\<close>)
    qed (use IH l t(2) move(1) in \<open>simp_all add: evacuated_def\<close>)
  qed
qed (simp add: evacuated_def)

lemma affected_users:
  "wf_map routes \<Longrightarrow> distinct (map re_User (affectedEntries routes active sources))"
proof -
  assume w: "wf_map routes"
  let ?f = "\<lambda>(user, account). \<lparr>re_User = user, re_Account = account\<rparr>"
  let ?R = "filter (\<lambda>(user, account). has_key active user \<and> has_key sources account) routes"
  have "mset (map re_User (affectedEntries routes active sources)) = mset (map fst ?R)"
    by (simp add: affectedEntries_def sortRouteEntries_def image_mset.compositionality comp_def split_beta)
  moreover have "distinct (map fst ?R)" using w by (simp add: wf_map_def distinct_map_filter)
  ultimately show ?thesis by (metis mset_eq_imp_distinct_iff)
qed

lemma affected_entry:
  "wf_map routes \<Longrightarrow> e \<in> set (affectedEntries routes active sources) \<longleftrightarrow>
     map_of routes (re_User e) = Some (re_Account e) \<and> has_key active (re_User e) \<and> has_key sources (re_Account e)"
  by (cases e) (auto simp: affectedEntries_def sortRouteEntries_def wf_map_map_of image_iff)

lemma evacuateEntries_assigns:
  "cs \<noteq> [] \<Longrightarrow> has_key (pl_Assignments (evacuateEntries states cs routable es counts plan)) u \<longleftrightarrow>
     has_key (pl_Assignments plan) u \<or> (u \<in> re_User ` set es \<and> has_key routable u)"
proof (induction states cs routable es counts plan rule: evacuateEntries.induct)
  case (2 states cs routable e es counts plan)
  obtain t where t: "leastWeightedAccount states cs counts = Some t"
    using weighted.choose_some "2.prems" by (cases "leastWeightedAccount states cs counts") blast+
  show ?case
  proof (cases "has_key routable (re_User e)")
    case True
    then show ?thesis using "2.IH"(3) [OF refl _ t "2.prems"] t by (auto simp: Let_def)
  next
    case False
    then show ?thesis using "2.IH"(1) [OF refl False "2.prems"] by (auto simp: Let_def)
  qed
qed simp

lemma evacuateEntries_wf:
  "wf_map (pl_Assignments plan) \<Longrightarrow> wf_map (pl_Assignments (evacuateEntries states cs routable es counts plan))"
proof (induction states cs routable es counts plan rule: evacuateEntries.induct)
  case (2 states cs routable e es counts plan)
  show ?case
  proof (cases "has_key routable (re_User e)")
    case True
    then show ?thesis using "2.IH"(2) [OF refl _ _] "2.IH"(3) [OF refl] "2.prems" by (auto simp: Let_def wf_map_update split: option.splits)
  next
    case False
    then show ?thesis using "2.IH"(1) [OF refl False] "2.prems" by (simp add: Let_def)
  qed
qed simp

lemma has_key_evacuationSources:
  assumes "wf_map states"
  shows "has_key (evacuationSources states sourceAccounts) a \<longleftrightarrow>
     (case sourceAccounts of Some S \<Rightarrow> has_key S a | None \<Rightarrow> \<exists>s. map_of states a = Some s \<and> ac_Exhausted s)"
proof -
  have "has_key (fold (\<lambda>(account, s) m. if ac_Exhausted s then AList.update account () m else m) xs m) a \<longleftrightarrow>
      has_key m a \<or> (\<exists>s. (a, s) \<in> set xs \<and> ac_Exhausted s)" for xs m
    by (induction xs arbitrary: m) (auto split: if_splits)
  from this [of states "[]"] show ?thesis
    unfolding wf_map_map_of [OF assms] evacuationSources_def
    by (cases sourceAccounts) (simp_all add: has_key_def)
qed

lemma affected_set:
  assumes "wf_map routes"
  shows "re_User ` set (affectedEntries routes active sources) =
     {u. has_key active u \<and> (\<exists>a. map_of routes u = Some a \<and> has_key sources a)}"
proof -
  have "u \<in> re_User ` set (affectedEntries routes active sources)"
    if "has_key active u" "map_of routes u = Some a" "has_key sources a" for u a
    using that affected_entry [OF assms, of "\<lparr>re_User = u, re_Account = a\<rparr>"] by force
  then show ?thesis using affected_entry [OF assms] by blast
qed

lemma card_users:
  assumes "distinct (map re_User es)"
  shows "length es = card (re_User ` set es)"
    and "length (filter (\<lambda>e. P (re_User e)) es) = card {u \<in> re_User ` set es. P u}"
proof -
  show "length es = card (re_User ` set es)" using distinct_card [OF assms] by simp
  have "distinct (map re_User (filter (\<lambda>e. P (re_User e)) es))" using assms by (rule distinct_map_filter)
  moreover have "re_User ` {e \<in> set es. P (re_User e)} = {u \<in> re_User ` set es. P u}" by blast
  ultimately show "length (filter (\<lambda>e. P (re_User e)) es) = card {u \<in> re_User ` set es. P u}"
    using distinct_card [of "map re_User (filter (\<lambda>e. P (re_User e)) es)"] by simp
qed

section \<open>Properties\<close>

text \<open>
  C26: a global rebalance deals exactly. When there is a candidate account and every active user
  can be routed, the plan sends every active user to a candidate, and each candidate ends up with
  exactly its target number of users, the targets adding up to the number of active users: the
  search for an account with a deficit never fails. Only users who change account are assigned,
  each with the route it is expected to have. Without a candidate, or with one active user who
  cannot be routed, nobody is assigned.
\<close>

theorem PlanGlobalRebalance_exact:
  fixes routes activeUsers routableUsers states
  assumes "wf_map states" "wf_map activeUsers" "[] \<notin> set (keys states)"
  defines "plan \<equiv> PlanGlobalRebalance routes activeUsers routableUsers states"
    and "candidates \<equiv> eligibleCandidates states []"
  shows "(candidates \<noteq> [] \<and> (\<forall>u \<in> set (keys activeUsers). has_key routableUsers u) \<longrightarrow>
            (\<forall>u \<in> set (keys activeUsers). routedAfter plan routes u \<in> set candidates) \<and>
            (\<forall>a \<in> set candidates.
               int (length (filter (\<lambda>u. routedAfter plan routes u = a) (keys activeUsers))) =
               gcount (pl_TargetCounts plan) a) \<and>
            (\<Sum>a\<leftarrow>candidates. gcount (pl_TargetCounts plan) a) = int (length activeUsers) \<and>
            (\<forall>u t. map_of (pl_Assignments plan) u = Some t \<longrightarrow>
               has_key activeUsers u \<and> t \<noteq> gstring routes u \<and>
               map_of (pl_ExpectedRoutes plan) u = Some (gstring routes u))) \<and>
         (candidates = [] \<or> (\<exists>u \<in> set (keys activeUsers). \<not> has_key routableUsers u) \<longrightarrow>
            pl_Assignments plan = [] \<and> pl_UnassignedUsers plan = int (length activeUsers))"
proof (cases "candidates \<noteq> [] \<and> (\<forall>u \<in> set (keys activeUsers). has_key routableUsers u)")
  case False
  have "length (filter (has_key routableUsers) (sort (keys activeUsers))) < length (sort (keys activeUsers))"
    if "\<exists>u \<in> set (keys activeUsers). \<not> has_key routableUsers u"
  proof -
    from that obtain u where "u \<in> set (sort (keys activeUsers))" "\<not> has_key routableUsers u" by auto
    then show ?thesis by (rule length_filter_less)
  qed
  with False show ?thesis
    by (auto simp: plan_def PlanGlobalRebalance_def candidates_def [symmetric] Let_def newPlan_def)
next
  case True
  let ?us = "sort (keys activeUsers)"
  have r: "filter (has_key routableUsers) ?us = ?us" using True by (intro filter_True) simp
  have us: "distinct ?us" using assms(2) by (simp add: wf_map_def)
  have cs: "distinct candidates" "candidates \<noteq> []" "[] \<notin> set candidates"
    using True assms(1,3) candidates_keys distinct_eligibleCandidates unfolding candidates_def by blast+
  let ?tc = "weightedTargetCounts (length ?us) candidates states"
  let ?plan = "newPlan candidates (length ?us)\<lparr>pl_TargetCounts := ?tc\<rparr>"
  let ?cur = "currentByAccount routes ?us"
  let ?out = "rebalanceEntries candidates (remainingEntries routes ?us (retainedUsers candidates ?cur ?tc))
      (accountDeficits candidates ?cur ?tc) ?plan"
  have tc: "pl_TargetCounts (rebalanceEntries cs es d pl) = pl_TargetCounts pl" for cs es d pl
    by (induction cs es d pl rule: rebalanceEntries.induct) (simp_all add: Let_def)
  have plan: "plan = ?out\<lparr>pl_PlannedUsers := int (length (pl_Assignments ?out)), pl_UnassignedUsers := 0\<rparr>"
    using cs(2) by (simp add: plan_def PlanGlobalRebalance_def candidates_def [symmetric] Let_def r)
  have after: "routedAfter plan routes = routedAfter ?out routes" by (rule ext) (simp add: plan routedAfter_def)
  have "pl_Assignments ?plan = []" by (simp add: newPlan_def)
  note body = rebalance_body [OF us cs this, of routes states]
  have perm: "length (filter P (keys activeUsers)) = length (filter P ?us)" for P
    by (metis mset_filter mset_sort size_mset)
  have t: "pl_TargetCounts plan = ?tc" by (simp add: plan tc)
  have sums: "(\<Sum>a\<leftarrow>candidates. gcount ?tc a) = int (length activeUsers)"
    using weightedTargetCounts_sum(1) [OF cs(2,1)] by simp
  have c1: "\<forall>u \<in> set (keys activeUsers). routedAfter plan routes u \<in> set candidates"
    using body(1) unfolding after by simp
  have c2: "\<forall>a \<in> set candidates. int (length (filter (\<lambda>u. routedAfter plan routes u = a) (keys activeUsers))) =
      gcount (pl_TargetCounts plan) a"
    using body(2) unfolding after perm t by blast
  have c3: "\<forall>u t. map_of (pl_Assignments plan) u = Some t \<longrightarrow>
      has_key activeUsers u \<and> t \<noteq> gstring routes u \<and> map_of (pl_ExpectedRoutes plan) u = Some (gstring routes u)"
    using body(3) by (simp add: plan has_key_set)
  show ?thesis using True c1 c2 c3 sums unfolding t by blast
qed

text \<open>
  C27: an evacuation moves exactly who must move, to where they may go. A source is an account of
  the given set, or, when none is given, one whose state is exhausted; a candidate is an account
  that is eligible with headroom and not a source. If there is a candidate, the assigned users are
  exactly the active, routable users routed to a source; without one nobody is assigned. Every
  assignment goes to a candidate and expects the user's current route. The numbers count the users:
  affected are the active ones routed to a source, skipped those of them who cannot be routed,
  planned the assigned ones, unassigned the rest, which are the skipped ones when there is a
  candidate.
\<close>

theorem PlanEvacuation_sound:
  fixes routes activeUsers routableUsers states sourceAccounts
  assumes "wf_map routes" "wf_map states"
  defines "plan \<equiv> PlanEvacuation routes activeUsers routableUsers states sourceAccounts"
    and "source \<equiv> \<lambda>a. case sourceAccounts of Some S \<Rightarrow> has_key S a
           | None \<Rightarrow> \<exists>s. map_of states a = Some s \<and> ac_Exhausted s"
  defines "candidate \<equiv> \<lambda>t. \<exists>s. map_of states t = Some s \<and> ac_Eligible s \<and> f64_lt (Finite 0) (ac_Headroom s) \<and> \<not> source t"
    and "affected \<equiv> {u. has_key activeUsers u \<and> (\<exists>a. map_of routes u = Some a \<and> source a)}"
  shows "(\<forall>u. has_key (pl_Assignments plan) u \<longleftrightarrow> u \<in> affected \<and> has_key routableUsers u \<and> (\<exists>t. candidate t)) \<and>
         (\<forall>u t. map_of (pl_Assignments plan) u = Some t \<longrightarrow>
            candidate t \<and> map_of (pl_ExpectedRoutes plan) u = map_of routes u) \<and>
         pl_AffectedUsers plan = int (card affected) \<and>
         pl_SkippedUsers plan = int (card {u \<in> affected. \<not> has_key routableUsers u}) \<and>
         pl_PlannedUsers plan = int (card {u. has_key (pl_Assignments plan) u}) \<and>
         pl_PlannedUsers plan + pl_UnassignedUsers plan = pl_AffectedUsers plan \<and>
         ((\<exists>t. candidate t) \<longrightarrow> pl_UnassignedUsers plan = pl_SkippedUsers plan)"
proof -
  define sources where "sources = evacuationSources states sourceAccounts"
  define entries where "entries = affectedEntries routes activeUsers sources"
  have src: "source a \<longleftrightarrow> has_key sources a" for a
    unfolding source_def sources_def has_key_evacuationSources [OF assms(2)] ..
  let ?cs = "eligibleCandidates states sources"
  have cs: "candidate t \<longleftrightarrow> t \<in> set ?cs" for t
    unfolding candidate_def src set_eligibleCandidates [OF assms(2)] by blast
  have users: "re_User ` set entries = affected"
    unfolding affected_def src entries_def by (rule affected_set [OF assms(1)])
  have d: "distinct (map re_User entries)" unfolding entries_def by (rule affected_users [OF assms(1)])
  let ?plan0 = "newPlan ?cs (length entries)"
  let ?out = "evacuateEntries states ?cs routableUsers entries (routedCounts routes activeUsers ?cs) ?plan0"
  have plan: "plan = ?out\<lparr>pl_PlannedUsers := int (length (pl_Assignments ?out)),
      pl_UnassignedUsers := pl_AffectedUsers ?out - int (length (pl_Assignments ?out))\<rparr>"
    by (simp add: plan_def PlanEvacuation_def sources_def [symmetric] entries_def [symmetric] Let_def)
  have p0: "pl_Assignments ?plan0 = []" "pl_SkippedUsers ?plan0 = 0" "pl_AffectedUsers ?plan0 = int (length entries)"
    "pl_CandidateAccounts ?plan0 = ?cs" by (simp_all add: newPlan_def)
  have ev: "evacuated routableUsers ?cs entries ?plan0 ?out"
    by (rule evacuateEntries_spec) (use d p0(1) in \<open>simp_all add: has_key_def\<close>)
  have moves: "candidate t \<and> map_of (pl_ExpectedRoutes ?out) u = map_of routes u \<and> u \<in> affected \<and> has_key routableUsers u"
    if ut: "map_of (pl_Assignments ?out) u = Some t" for u t
  proof -
    obtain e where e: "e \<in> set entries" "re_User e = u" "has_key routableUsers u" "t \<in> set ?cs"
      "map_of (pl_ExpectedRoutes ?out) u = Some (re_Account e)"
      using ev [unfolded evacuated_def, THEN conjunct1, rule_format, OF ut] p0(1) by auto
    from e(1) have "map_of routes u = Some (re_Account e)"
      unfolding entries_def affected_entry [OF assms(1)] e(2) by blast
    with e cs users show ?thesis by auto
  qed
  have assigned: "has_key (pl_Assignments ?out) u \<longleftrightarrow> u \<in> affected \<and> has_key routableUsers u \<and> (\<exists>t. candidate t)" for u
  proof (cases "?cs = []")
    case True
    then have "\<not> candidate t" for t unfolding cs by simp
    then show ?thesis using moves [of u] unfolding has_key_map_of by blast
  next
    case False
    then have "\<exists>t. candidate t" unfolding cs by (simp add: ex_in_conv)
    then show ?thesis using evacuateEntries_assigns [OF False] p0(1) users by (simp add: has_key_def)
  qed
  have wf: "wf_map (pl_Assignments ?out)" by (rule evacuateEntries_wf) (simp add: p0(1) wf_map_def)
  have planned: "length (pl_Assignments ?out) = card {u. has_key (pl_Assignments ?out) u}"
    using distinct_card [of "keys (pl_Assignments ?out)"] wf by (simp add: wf_map_def has_key_set)
  have counts: "pl_AffectedUsers ?out = int (card affected)"
    "pl_SkippedUsers ?out = int (card {u \<in> affected. \<not> has_key routableUsers u})"
    using ev p0 card_users(1) [OF d] card_users(2) [OF d, of "\<lambda>u. \<not> has_key routableUsers u"]
    unfolding evacuated_def users by simp_all
  have fin: "finite affected" unfolding users [symmetric] by simp
  have "int (card affected) - int (card {u. has_key (pl_Assignments ?out) u}) = int (card {u \<in> affected. \<not> has_key routableUsers u})"
    if "\<exists>t. candidate t"
  proof -
    have "{u. has_key (pl_Assignments ?out) u} = {u \<in> affected. has_key routableUsers u}" using assigned that by blast
    moreover have "card affected = card {u \<in> affected. has_key routableUsers u} + card {u \<in> affected. \<not> has_key routableUsers u}"
      using fin by (subst card_Un_disjoint [symmetric]) (auto intro: arg_cong [where f = card])
    ultimately show ?thesis by simp
  qed
  then show ?thesis using assigned moves counts planned by (simp add: plan)
qed

definition sample_state :: "string \<Rightarrow> rat \<Rightarrow> AccountState" where
  "sample_state account used =
     \<lparr>ac_Account = account, ac_Eligible = True, ac_Exhausted = False, ac_Reason = ''available'',
      ac_UsedPercent = Some (Finite used), ac_RemainingPercent = Some (Finite (100 - used)),
      ac_Headroom = Finite (95 - used), ac_ResetAt = 0, ac_ObservedAt = 0\<rparr>"

definition sample_states :: states where
  "sample_states = [(''b1'', sample_state ''b1'' 15), (''a1'', sample_state ''a1'' 55)]"

lemma sample_states_ok: "wf_map sample_states" "[] \<notin> set (keys sample_states)"
  by (simp_all add: sample_states_def wf_map_def)

theorem PlanGlobalRebalance_exact_witness:
  "let plan = PlanGlobalRebalance [(''u'', ''a1''), (''v'', ''a1''), (''w'', ''a1'')]
                [(''w'', ()), (''u'', ()), (''v'', ())] [(''u'', ()), (''v'', ()), (''w'', ())] sample_states
   in gcount (pl_TargetCounts plan) ''a1'' + gcount (pl_TargetCounts plan) ''b1'' = 3 \<and>
      (\<forall>u \<in> {''u'', ''v'', ''w''}. routedAfter plan [(''u'', ''a1''), (''v'', ''a1''), (''w'', ''a1'')] u \<in> {''a1'', ''b1''})"
proof -
  let ?r = "[(''u'', ''a1''), (''v'', ''a1''), (''w'', ''a1'')]" and ?a = "[(''w'', ()), (''u'', ()), (''v'', ())]"
  let ?q = "[(''u'', ()), (''v'', ()), (''w'', ())]"
  let ?plan = "PlanGlobalRebalance ?r ?a ?q sample_states"
  have c: "eligibleCandidates sample_states [] = [''a1'', ''b1'']" by code_simp
  have w: "wf_map ?a" by (simp add: wf_map_def)
  from PlanGlobalRebalance_exact [OF sample_states_ok(1) w sample_states_ok(2), THEN conjunct1, of ?q ?r]
  have "(\<forall>u \<in> set (keys ?a). routedAfter ?plan ?r u \<in> set [''a1'', ''b1'']) \<and>
      (\<Sum>a\<leftarrow>[''a1'', ''b1'']. gcount (pl_TargetCounts ?plan) a) = int (length ?a)"
    unfolding c by (simp add: has_key_def)
  then show ?thesis by (simp add: Let_def)
qed

theorem PlanEvacuation_sound_witness:
  "let plan = PlanEvacuation [(''u'', ''a1''), (''v'', ''b1'')] [(''u'', ()), (''v'', ())] [(''u'', ()), (''v'', ())]
                sample_states (Some [(''a1'', ())])
   in map_of (pl_Assignments plan) ''u'' = Some ''b1'' \<and> map_of (pl_Assignments plan) ''v'' = None \<and>
      map_of (pl_ExpectedRoutes plan) ''u'' = Some ''a1''"
proof -
  let ?r = "[(''u'', ''a1''), (''v'', ''b1'')]" and ?a = "[(''u'', ()), (''v'', ())]"
  let ?plan = "PlanEvacuation ?r ?a ?a sample_states (Some [(''a1'', ())])"
  have wr: "wf_map ?r" by (simp add: wf_map_def)
  note P = PlanEvacuation_sound [OF wr sample_states_ok(1), of ?a ?a "Some [(''a1'', ())]"]
  have "\<exists>t s. map_of sample_states t = Some s \<and> ac_Eligible s \<and> f64_lt (Finite 0) (ac_Headroom s) \<and> \<not> has_key [(''a1'', ())] t"
    by (intro exI [of _ "''b1''"]) (simp add: sample_states_def sample_state_def has_key_def)
  then have "has_key (pl_Assignments ?plan) ''u''" unfolding P [THEN conjunct1, rule_format] by (simp add: has_key_def)
  then obtain t where t: "map_of (pl_Assignments ?plan) ''u'' = Some t" by (auto simp: has_key_map_of)
  moreover have "\<not> has_key (pl_Assignments ?plan) ''v''" unfolding P [THEN conjunct1, rule_format] by (simp add: has_key_def)
  moreover note P [THEN conjunct2, THEN conjunct1, rule_format, OF t]
  ultimately show ?thesis by (auto simp: Let_def has_key_map_of sample_states_def split: if_splits)
qed

text \<open>
  The account for a new key is the least used one. \<open>LeastUsedEligibleAccount\<close> returns the
  eligible candidate with the smallest used percentage, the smallest name among equals, whatever
  the order and the repetitions of the candidates; it returns nothing exactly when no candidate is
  eligible.
\<close>

theorem LeastUsedEligibleAccount_least:
  "(LeastUsedEligibleAccount candidates states = Some best \<longleftrightarrow>
      best \<in> {a \<in> trim_space ` set candidates. a \<noteq> [] \<and> leastUsedEligible states a} \<and>
      (\<forall>a \<in> {a \<in> trim_space ` set candidates. a \<noteq> [] \<and> leastUsedEligible states a}.
         usedOf states best < usedOf states a \<or> (usedOf states best = usedOf states a \<and> best \<le> a))) \<and>
   (LeastUsedEligibleAccount candidates states = None \<longleftrightarrow>
      {a \<in> trim_space ` set candidates. a \<noteq> [] \<and> leastUsedEligible states a} = {})"
proof -
  let ?E = "{a \<in> trim_space ` set candidates. a \<noteq> [] \<and> leastUsedEligible states a}"
  let ?f = "\<lambda>a. (usedOf states a, a)"
  let ?el = "filter (leastUsedEligible states) (dedup [] (filter (\<lambda>a. a \<noteq> []) (map trim_space candidates)))"
  have E: "set ?el = ?E" by (auto simp: set_dedup)
  have L: "LeastUsedEligibleAccount candidates states = (case sort_key ?f ?el of [] \<Rightarrow> None | b # _ \<Rightarrow> Some b)"
    by (simp add: LeastUsedEligibleAccount_def Let_def)
  show ?thesis
  proof (cases "sort_key ?f ?el")
    case Nil
    from arg_cong [OF this, of set] have "set ?el = {}" by (simp only: set_sort list.set)
    then have e: "?E = {}" using E by simp
    have n: "LeastUsedEligibleAccount candidates states = None" using L Nil by simp
    show ?thesis unfolding e n by simp
  next
    case (Cons b rest)
    have mem: "set (b # rest) = ?E" unfolding Cons [symmetric] set_sort by (rule E)
    have "sorted (map ?f (b # rest))" unfolding Cons [symmetric] by (rule sorted_sort_key)
    then have "\<forall>x \<in> set (b # rest). ?f b \<le> ?f x" by auto
    then have min: "\<forall>a \<in> ?E. usedOf states b < usedOf states a \<or> (usedOf states b = usedOf states a \<and> b \<le> a)"
      unfolding mem by (auto simp: less_eq_prod_def)
    have b: "b \<in> ?E" unfolding mem [symmetric] by simp
    have uniq: "x = b" if "x \<in> ?E"
      "\<forall>a \<in> ?E. usedOf states x < usedOf states a \<or> (usedOf states x = usedOf states a \<and> x \<le> a)" for x
      using bspec [OF that(2) b] bspec [OF min that(1)] by auto
    have "LeastUsedEligibleAccount candidates states = Some best \<longleftrightarrow> best = b" using L Cons by auto
    moreover have "LeastUsedEligibleAccount candidates states \<noteq> None" using L Cons by simp
    ultimately show ?thesis using b min uniq by blast
  qed
qed

theorem LeastUsedEligibleAccount_least_witness:
  "LeastUsedEligibleAccount ['' a1 '', ''b1'', ''a1'', ''zz''] sample_states = Some ''b1'' \<and>
   LeastUsedEligibleAccount [''zz''] sample_states = None"
proof -
  have e: "leastUsedEligible sample_states ''a1''" "leastUsedEligible sample_states ''b1''"
    "\<not> leastUsedEligible sample_states ''zz''" by code_simp+
  have t: "trim_space '' a1 '' = ''a1''" "trim_space ''b1'' = ''b1''" "trim_space ''a1'' = ''a1''" "trim_space ''zz'' = ''zz''"
    by code_simp+
  have u: "usedOf sample_states ''b1'' = 15" "usedOf sample_states ''a1'' = 55"
    by (simp_all add: usedOf_def sample_states_def sample_state_def)
  have E: "{a \<in> trim_space ` set ['' a1 '', ''b1'', ''a1'', ''zz'']. a \<noteq> [] \<and> leastUsedEligible sample_states a} = {''a1'', ''b1''}"
    using e by (auto simp: t)
  have N: "{a \<in> trim_space ` set [''zz'']. a \<noteq> [] \<and> leastUsedEligible sample_states a} = {}"
    using e by (auto simp: t)
  show ?thesis
    using LeastUsedEligibleAccount_least [of "['' a1 '', ''b1'', ''a1'', ''zz'']" sample_states "''b1''"]
      LeastUsedEligibleAccount_least [of "[''zz'']" sample_states "[]"]
    unfolding E N using u by simp
qed

end
