(* ===== verification/Quota_Normalize.thy ===== *)
theory Quota_Normalize
  imports Go_Any
begin

text \<open>
  \<open>internal/quota/types.go\<close> and \<open>normalize.go\<close>: the weekly windows of an account read from the
  upstream's usage answer, an arbitrary JSON value. Text is a list of bytes, so the two labels
  in Chinese are written as their UTF-8 bytes. \<open>pf\<close> is \<open>strconv.ParseFloat\<close>.

  The lemmas show that whatever the upstream sends, what leaves the normalisation is in range:
  the failover and recovery code relies on that (\<open>wf_quota_account\<close>).
\<close>

section \<open>Definitions\<close>

subsection \<open>Data\<close>

definition WeeklyWindowSeconds :: int64 where "WeeklyWindowSeconds = 604800"

record WeeklyWindow =
  ww_Key :: string
  ww_Label :: string
  ww_MeteredFeature :: "string option"
  ww_WindowSlot :: string
  ww_UsedPercent :: float64
  ww_RemainingPercent :: float64
  ww_ReportedUsedPercent :: float64
  ww_ResetAt :: "int64 option"
  ww_ResetAfterSeconds :: "int64 option"
  ww_WindowSeconds :: int64
  ww_LimitReached :: bool
  ww_Resettable :: bool

record AccountQuota =
  aq_oauthAccountID :: string
  aq_recoveryAllowed :: bool
  aq_Account :: string
  aq_Status :: string
  aq_PlanType :: "string option"
  aq_Allowed :: "bool option"
  aq_LimitReached :: "bool option"
  aq_ResetCreditCount :: "int64 option"
  aq_Weekly :: "WeeklyWindow option"
  aq_WeeklyWindows :: "WeeklyWindow list"

record Snapshot =
  sn_GeneratedAt :: int64
  sn_CacheTTLSeconds :: int64
  sn_Cached :: bool
  sn_Refreshing :: bool
  sn_Accounts :: "AccountQuota list"

definition unavailableAccount :: "string \<Rightarrow> string \<Rightarrow> AccountQuota" where
  "unavailableAccount account status =
     \<lparr>aq_oauthAccountID = [], aq_recoveryAllowed = False, aq_Account = account, aq_Status = status,
      aq_PlanType = None, aq_Allowed = None, aq_LimitReached = None, aq_ResetCreditCount = None,
      aq_Weekly = None, aq_WeeklyWindows = []\<rparr>"

record quotaSource =
  qz_key :: string
  qz_label :: string
  qz_meteredFeature :: "string option"
  qz_rateLimit :: "(string \<times> goany) list option"
  qz_reachedTypeAlias :: "string list"

subsection \<open>Numbers\<close>

definition boolValue :: "goany \<Rightarrow> bool \<Rightarrow> bool" where
  "boolValue v fallback = (case as_bool v of Some b \<Rightarrow> b | None \<Rightarrow> fallback)"

fun finite_int64 :: "float64 option \<Rightarrow> int64 option" where
  "finite_int64 None = None"
| "finite_int64 (Some x) = (if is_nan x \<or> is_inf x then None else Some (f64_to_int64 x))"

fun nonnegativeInt :: "parse_float \<Rightarrow> goany \<Rightarrow> int64 option" where
  "nonnegativeInt pf (ANumber s) = map_option (max 0) (finite_int64 (pf s))"
| "nonnegativeInt pf (AFloat x) = map_option (max 0) (finite_int64 (Some x))"
| "nonnegativeInt pf (AInt n) = Some (max 0 n)"
| "nonnegativeInt pf (AInt64 n) = Some (max 0 n)"
| "nonnegativeInt pf (AString s) = map_option (max 0) (finite_int64 (pf (trim_space s)))"
| "nonnegativeInt pf _ = None"

fun anyNumber :: "parse_float \<Rightarrow> goany \<Rightarrow> float64 option" where
  "anyNumber pf (ANumber s) = pf s"
| "anyNumber pf (AFloat x) = Some x"
| "anyNumber pf (AInt n) = Some (f64_of_int n)"
| "anyNumber pf (AInt64 n) = Some (f64_of_int n)"
| "anyNumber pf (AString s) = pf (trim_space s)"
| "anyNumber pf _ = None"

definition numberValue :: "parse_float \<Rightarrow> goany \<Rightarrow> float64 \<Rightarrow> float64" where
  "numberValue pf v fallback =
     (case anyNumber pf v of
        None \<Rightarrow> fallback
      | Some x \<Rightarrow> if is_nan x \<or> is_inf x then fallback else x)"

definition round2 :: "float64 \<Rightarrow> float64" where
  "round2 x = f64_div (f64_rint (f64_mul x (Finite 100))) (Finite 100)"

definition clampPercent :: "float64 \<Rightarrow> float64" where
  "clampPercent x = f64_max (Finite 0) (f64_min x (Finite 100))"

text \<open>\<open>strconv.Itoa\<close> on a natural number.\<close>

fun itoa :: "nat \<Rightarrow> string" where
  "itoa n = (if n < 10 then [char_of (48 + n)] else itoa (n div 10) @ [char_of (48 + n mod 10)])"

declare itoa.simps [simp del]

definition formatInt :: "int \<Rightarrow> string" where
  "formatInt n = (if n < 0 then CHR ''-'' # itoa (nat (- n)) else itoa (nat n))"

subsection \<open>Sources\<close>

definition newQuotaSource ::
  "string \<Rightarrow> string \<Rightarrow> string option \<Rightarrow> (string \<times> goany) list option \<Rightarrow> string list \<Rightarrow> quotaSource" where
  "newQuotaSource key label meteredFeature rateLimit aliases =
     \<lparr>qz_key = key, qz_label = label, qz_meteredFeature = meteredFeature, qz_rateLimit = rateLimit,
      qz_reachedTypeAlias = filter (\<lambda>a. a \<noteq> []) (map norm_user aliases)\<rparr>"

definition defaultLabel :: string where
  "defaultLabel = [CHR 0xE5, CHR 0xB8, CHR 0xB8, CHR 0xE8, CHR 0xA7, CHR 0x84, CHR 0xE5, CHR 0x91, CHR 0xA8,
     CHR 0xE9, CHR 0x99, CHR 0x90, CHR 0xE9, CHR 0xA2, CHR 0x9D]"

definition additionalLabel :: string where
  "additionalLabel = [CHR 0xE9, CHR 0x99, CHR 0x84, CHR 0xE5, CHR 0x8A, CHR 0xA0, CHR 0xE5, CHR 0x91, CHR 0xA8,
     CHR 0xE9, CHR 0x99, CHR 0x90, CHR 0xE9, CHR 0xA2, CHR 0x9D, CHR 0x20]"

definition first_nonempty :: "string list \<Rightarrow> string \<Rightarrow> string" where
  "first_nonempty xs d = (case List.find (\<lambda>x. x \<noteq> []) xs of Some x \<Rightarrow> x | None \<Rightarrow> d)"

definition additionalSource :: "nat \<Rightarrow> goany \<Rightarrow> quotaSource option" where
  "additionalSource index raw =
     (case as_object raw of
        None \<Rightarrow> None
      | Some item \<Rightarrow>
          (let limitName = trim_space (as_string (obj_get (Some item) ''limit_name''));
               metered = trim_space (as_string (obj_get (Some item) ''metered_feature''));
               identifier = first_nonempty [metered, limitName] (''additional-'' @ itoa (index + 1));
               label = first_nonempty [limitName, metered] (additionalLabel @ itoa (index + 1))
           in Some (newQuotaSource (''additional:'' @ identifier) label
                      (if metered \<noteq> [] then Some metered else None)
                      (as_object (obj_get (Some item) ''rate_limit'')) [identifier, limitName, metered])))"

definition quotaSources :: "(string \<times> goany) list \<Rightarrow> quotaSource list" where
  "quotaSources payload =
     newQuotaSource ''default'' defaultLabel None (as_object (obj_get (Some payload) ''rate_limit'')) [''default'']
     # List.map_filter (\<lambda>(index, raw). additionalSource index raw)
         (List.enumerate 0 (as_list (obj_get (Some payload) ''additional_rate_limits'')))"

subsection \<open>Windows\<close>

definition sourceWindow ::
  "parse_float \<Rightarrow> int64 option \<Rightarrow> string \<Rightarrow> quotaSource \<Rightarrow> string \<Rightarrow> WeeklyWindow option" where
  "sourceWindow pf applicable reachedDetails source slot =
     (let limitReached = boolValue (obj_get (qz_rateLimit source) ''limit_reached'') False;
          window = as_object (obj_get (qz_rateLimit source) slot)
      in case nonnegativeInt pf (obj_get window ''limit_window_seconds'') of
           None \<Rightarrow> None
         | Some windowSeconds \<Rightarrow>
             if windowSeconds \<noteq> WeeklyWindowSeconds then None
             else (let used = clampPercent (numberValue pf (obj_get window ''used_percent'') (Finite 0));
                       reported = round2 used;
                       effective = (if limitReached then Finite 100 else reported);
                       resettable = f64_le (Finite 100) reported \<or>
                         ((case applicable of None \<Rightarrow> False | Some n \<Rightarrow> n > 0) \<and> limitReached \<and>
                          reachedDetails \<in> set (qz_reachedTypeAlias source))
                   in Some \<lparr>ww_Key = qz_key source @ '':'' @ slot, ww_Label = qz_label source,
                            ww_MeteredFeature = qz_meteredFeature source, ww_WindowSlot = slot,
                            ww_UsedPercent = effective,
                            ww_RemainingPercent = round2 (f64_sub (Finite 100) effective),
                            ww_ReportedUsedPercent = reported,
                            ww_ResetAt = nonnegativeInt pf (obj_get window ''reset_at''),
                            ww_ResetAfterSeconds = nonnegativeInt pf (obj_get window ''reset_after_seconds''),
                            ww_WindowSeconds = windowSeconds, ww_LimitReached = limitReached,
                            ww_Resettable = resettable\<rparr>))"

definition sourceWindows ::
  "parse_float \<Rightarrow> int64 option \<Rightarrow> string \<Rightarrow> quotaSource \<Rightarrow> WeeklyWindow list" where
  "sourceWindows pf applicable reachedDetails source =
     (if qz_rateLimit source = None then []
      else List.map_filter (sourceWindow pf applicable reachedDetails source) [''primary_window'', ''secondary_window''])"

definition planType :: "(string \<times> goany) list \<Rightarrow> string option" where
  "planType payload =
     (let p = trim_space (as_string (obj_get (Some payload) ''plan_type'')) in if p \<noteq> [] then Some p else None)"

definition quotaWindows :: "parse_float \<Rightarrow> (string \<times> goany) list \<Rightarrow> WeeklyWindow list" where
  "quotaWindows pf payload =
     (let resetCredits = as_object (obj_get (Some payload) ''rate_limit_reset_credits'');
          applicable = nonnegativeInt pf (obj_get resetCredits ''applicable_available_count'');
          reachedDetails = norm_user (as_string
            (obj_get (as_object (obj_get (Some payload) ''rate_limit_reached_type'')) ''details''))
      in concat (map (sourceWindows pf applicable reachedDetails) (quotaSources payload)))"

definition Normalize :: "parse_float \<Rightarrow> string \<Rightarrow> (string \<times> goany) list \<Rightarrow> AccountQuota" where
  "Normalize pf account payload =
     (let defaultRateLimit = as_object (obj_get (Some payload) ''rate_limit'');
          resetCredits = as_object (obj_get (Some payload) ''rate_limit_reset_credits'');
          windows = quotaWindows pf payload;
          result = (unavailableAccount account ''weekly_unavailable'')
            \<lparr>aq_PlanType := planType payload,
             aq_Allowed := as_bool (obj_get defaultRateLimit ''allowed''),
             aq_LimitReached := as_bool (obj_get defaultRateLimit ''limit_reached''),
             aq_ResetCreditCount := nonnegativeInt pf (obj_get resetCredits ''available_count''),
             aq_WeeklyWindows := windows\<rparr>
      in (case windows of
            [] \<Rightarrow> result
          | weekly # _ \<Rightarrow> result\<lparr>aq_Status := ''ok'', aq_Weekly := Some weekly\<rparr>))"

text \<open>What the rest of the system may rely on.\<close>

definition percent :: "float64 \<Rightarrow> bool" where
  "percent x \<longleftrightarrow> (\<exists>q. x = Finite q \<and> 0 \<le> q \<and> q \<le> 100)"

definition wf_window :: "WeeklyWindow \<Rightarrow> bool" where
  "wf_window w \<longleftrightarrow> percent (ww_UsedPercent w) \<and> percent (ww_RemainingPercent w) \<and>
     percent (ww_ReportedUsedPercent w) \<and> ww_WindowSeconds w = WeeklyWindowSeconds \<and>
     (ww_LimitReached w \<longrightarrow> ww_UsedPercent w = Finite 100) \<and>
     (ww_UsedPercent w = Finite 100 \<longrightarrow> ww_RemainingPercent w = Finite 0) \<and>
     (\<forall>t. ww_ResetAt w = Some t \<longrightarrow> 0 \<le> t)"

definition wf_quota_account :: "AccountQuota \<Rightarrow> bool" where
  "wf_quota_account a \<longleftrightarrow> (\<forall>w \<in> set (aq_WeeklyWindows a). wf_window w) \<and>
     (case aq_Weekly a of None \<Rightarrow> True | Some w \<Rightarrow> wf_window w)"

section \<open>Lemmas\<close>

lemma max0_nonneg: "map_option (max (0::int)) x = Some t \<Longrightarrow> 0 \<le> t"
  by (cases x) auto

lemma nonnegativeInt_nonneg: "nonnegativeInt pf v = Some t \<Longrightarrow> 0 \<le> t"
  by (cases v) (auto dest: max0_nonneg)

lemma numberValue_finite: "finite64 d \<Longrightarrow> finite64 (numberValue pf v d)"
  by (auto simp: numberValue_def finite64_def split: option.splits)

lemma clampPercent_percent: "finite64 x \<Longrightarrow> percent (clampPercent x)"
  by (auto simp: clampPercent_def percent_def finite64_iff f64_max_def f64_min_def)

lemma round2_percent:
  assumes "percent x"
  shows "percent (round2 x)"
proof -
  obtain q where q: "x = Finite q" "0 \<le> q" "q \<le> 100" using assms by (auto simp: percent_def)
  obtain r where r: "f64_mul x (Finite 100) = Finite r" "0 \<le> r" "r \<le> 10000"
    using f64_round_between [of "q * 100" 0 10000] q by auto
  have i: "f64_rint (Finite r) = Finite (of_int \<lfloor>r + 1 / 2\<rfloor>)" using r
    by (cases "r = 0") (auto simp: floor_eq_iff)
  have n: "0 \<le> \<lfloor>r + 1 / 2\<rfloor>" "\<lfloor>r + 1 / 2\<rfloor> \<le> 10000" using r by linarith+
  obtain p where "f64_round (of_int \<lfloor>r + 1 / 2\<rfloor> / 100) = Finite p" "0 \<le> p" "p \<le> 100"
    using f64_round_between [of "of_int \<lfloor>r + 1 / 2\<rfloor> / 100" 0 100] n by auto
  then show ?thesis unfolding round2_def r(1) i by (simp add: percent_def)
qed

lemma round2_zero [simp]: "round2 (Finite 0) = Finite 0"
  by (simp add: round2_def f64_round_def)

lemma sub_percent:
  assumes "percent x"
  shows "percent (f64_sub (Finite 100) x)"
proof -
  obtain q where q: "x = Finite q" "0 \<le> q" "q \<le> 100" using assms by (auto simp: percent_def)
  then show ?thesis using f64_round_between [of "100 - q" 0 100] by (auto simp: percent_def f64_sub_def)
qed

lemma percent_ends [simp]: "percent (Finite 0)" "percent (Finite 100)"
  by (simp_all add: percent_def)

lemma sub_100 [simp]: "f64_sub (Finite 100) (Finite 100) = Finite 0"
  by (simp add: f64_sub_def f64_round_def)

lemma reported_percent: "percent (round2 (clampPercent (numberValue pf v (Finite 0))))"
  by (intro round2_percent clampPercent_percent numberValue_finite) simp

lemma sourceWindow_wf:
  assumes "sourceWindow pf ap rd s slot = Some w"
  shows "wf_window w"
proof (cases "nonnegativeInt pf (obj_get (as_object (obj_get (qz_rateLimit s) slot)) ''limit_window_seconds'')")
  case None
  then show ?thesis using assms by (simp add: sourceWindow_def Let_def)
next
  case (Some n)
  then show ?thesis
    using assms reported_percent [of pf] round2_percent [OF sub_percent [OF reported_percent [of pf]]]
    by (cases "boolValue (obj_get (qz_rateLimit s) ''limit_reached'') False")
      (auto simp: sourceWindow_def wf_window_def Let_def dest: nonnegativeInt_nonneg split: if_splits)
qed

lemma sourceWindow_key: "sourceWindow pf ap rd s slot = Some w \<Longrightarrow> ww_Key w = qz_key s @ '':'' @ slot"
  by (auto simp: sourceWindow_def Let_def split: option.splits if_splits)

lemma Normalize_fields [simp]:
  "aq_WeeklyWindows (Normalize pf account payload) = quotaWindows pf payload"
  "aq_Weekly (Normalize pf account payload) =
     (case quotaWindows pf payload of [] \<Rightarrow> None | w # _ \<Rightarrow> Some w)"
  "aq_Status (Normalize pf account payload) =
     (if quotaWindows pf payload = [] then ''weekly_unavailable'' else ''ok'')"
  "aq_Account (Normalize pf account payload) = account"
  unfolding Normalize_def Let_def unavailableAccount_def by (cases "quotaWindows pf payload"; simp)+

lemma set_map_filter: "set (List.map_filter f xs) = {y. \<exists>x \<in> set xs. f x = Some y}"
  by (induction xs) (auto simp: List.map_filter_simps split: option.splits)

lemma sourceWindowsD:
  assumes "w \<in> set (sourceWindows pf ap rd s)"
  shows "\<exists>slot \<in> {''primary_window'', ''secondary_window''}. sourceWindow pf ap rd s slot = Some w"
proof -
  have "w \<in> set (List.map_filter (sourceWindow pf ap rd s) [''primary_window'', ''secondary_window''])"
    using assms unfolding sourceWindows_def by (simp only: list.set empty_iff split: if_splits)
  then show ?thesis unfolding set_map_filter by simp
qed

lemma quotaWindowsD:
  assumes "w \<in> set (quotaWindows pf payload)"
  shows "\<exists>s \<in> set (quotaSources payload). \<exists>slot \<in> {''primary_window'', ''secondary_window''}.
           ww_Key w = qz_key s @ '':'' @ slot" "wf_window w"
proof -
  obtain s ap rd where "s \<in> set (quotaSources payload)" "w \<in> set (sourceWindows pf ap rd s)"
    using assms unfolding quotaWindows_def Let_def by auto
  with sourceWindowsD [OF this(2)] show "\<exists>s \<in> set (quotaSources payload).
      \<exists>slot \<in> {''primary_window'', ''secondary_window''}. ww_Key w = qz_key s @ '':'' @ slot" "wf_window w"
    by (blast dest: sourceWindow_key, blast dest: sourceWindow_wf)
qed

lemma wf_Normalize: "wf_quota_account (Normalize pf account payload)"
  using quotaWindowsD(2) [of _ pf payload] unfolding wf_quota_account_def
  by (cases "quotaWindows pf payload") auto

lemma wf_unavailableAccount: "wf_quota_account (unavailableAccount account status)"
  by (simp add: wf_quota_account_def unavailableAccount_def)

lemma quotaSources_key:
  assumes "s \<in> set (tl (quotaSources payload))"
  shows "has_prefix ''additional:'' (qz_key s)"
  using assms by (auto simp: quotaSources_def set_map_filter additionalSource_def newQuotaSource_def Let_def
      split: option.splits)

lemma hd_quotaSources [simp]: "qz_key (hd (quotaSources payload)) = ''default''" "quotaSources payload \<noteq> []"
  by (simp_all add: quotaSources_def newQuotaSource_def)

lemma default_first:
  assumes "w \<in> set (quotaWindows pf payload)" "has_prefix ''default:'' (ww_Key w)"
  shows "has_prefix ''default:'' (ww_Key (hd (quotaWindows pf payload)))"
proof -
  obtain ap rd where q: "quotaWindows pf payload = concat (map (sourceWindows pf ap rd) (quotaSources payload))"
    unfolding quotaWindows_def Let_def by blast
  obtain s where s: "s \<in> set (quotaSources payload)" "w \<in> set (sourceWindows pf ap rd s)"
    using assms(1) q by auto
  have def_key: "has_prefix ''default:'' (ww_Key v)" if "v \<in> set (sourceWindows pf ap rd (hd (quotaSources payload)))" for v
    using sourceWindowsD [OF that] by (auto simp: has_prefix_def dest!: sourceWindow_key)
  have "s = hd (quotaSources payload)"
  proof (rule ccontr)
    assume "s \<noteq> hd (quotaSources payload)"
    then have "s \<in> set (tl (quotaSources payload))" using s(1) by (cases "quotaSources payload") auto
    from quotaSources_key [OF this] sourceWindowsD [OF s(2)] assms(2) show False
      by (auto simp: has_prefix_iff dest!: sourceWindow_key)
  qed
  then have "sourceWindows pf ap rd (hd (quotaSources payload)) \<noteq> []" using s(2) by auto
  then have "hd (quotaWindows pf payload) = hd (sourceWindows pf ap rd (hd (quotaSources payload)))"
    unfolding q by (cases "quotaSources payload") auto
  with def_key [of "hd (quotaWindows pf payload)"] \<open>sourceWindows pf ap rd _ \<noteq> []\<close> show ?thesis by simp
qed

section \<open>Properties\<close>

text \<open>
  C37: quota data is in range whatever the upstream sends. For any JSON answer and any behaviour of
  the number parser, every weekly window of the normalised account has finite used, reported and
  remaining percentages between 0 and 100, a window of exactly one week and no negative reset
  time; a reached limit counts as 100 percent used, and 100 percent used leaves nothing. The
  account is \<open>ok\<close> exactly when there is a weekly window; its weekly quota is the first one, and
  that is a window of the regular limit whenever the regular limit has one at all.
\<close>

theorem Normalize_sound:
  fixes pf account payload
  defines "q \<equiv> Normalize pf account payload"
  shows "(\<forall>w \<in> set (aq_WeeklyWindows q).
            percent (ww_UsedPercent w) \<and> percent (ww_RemainingPercent w) \<and> percent (ww_ReportedUsedPercent w) \<and>
            ww_WindowSeconds w = WeeklyWindowSeconds \<and> (\<forall>t. ww_ResetAt w = Some t \<longrightarrow> 0 \<le> t) \<and>
            (ww_LimitReached w \<longrightarrow> ww_UsedPercent w = Finite 100) \<and>
            (ww_UsedPercent w = Finite 100 \<longrightarrow> ww_RemainingPercent w = Finite 0)) \<and>
         (aq_Status q = ''ok'' \<longleftrightarrow> aq_WeeklyWindows q \<noteq> []) \<and>
         aq_Weekly q = (case aq_WeeklyWindows q of [] \<Rightarrow> None | w # _ \<Rightarrow> Some w) \<and>
         ((\<exists>w \<in> set (aq_WeeklyWindows q). has_prefix ''default:'' (ww_Key w)) \<longrightarrow>
            (\<exists>w. aq_Weekly q = Some w \<and> has_prefix ''default:'' (ww_Key w)))"
proof (intro conjI)
  have wf: "wf_window w" if "w \<in> set (quotaWindows pf payload)" for w
    using quotaWindowsD(2) [OF that] .
  show "\<forall>w \<in> set (aq_WeeklyWindows q).
            percent (ww_UsedPercent w) \<and> percent (ww_RemainingPercent w) \<and> percent (ww_ReportedUsedPercent w) \<and>
            ww_WindowSeconds w = WeeklyWindowSeconds \<and> (\<forall>t. ww_ResetAt w = Some t \<longrightarrow> 0 \<le> t) \<and>
            (ww_LimitReached w \<longrightarrow> ww_UsedPercent w = Finite 100) \<and>
            (ww_UsedPercent w = Finite 100 \<longrightarrow> ww_RemainingPercent w = Finite 0)"
    unfolding q_def Normalize_fields using wf by (simp add: wf_window_def)
  show "(\<exists>w \<in> set (aq_WeeklyWindows q). has_prefix ''default:'' (ww_Key w)) \<longrightarrow>
            (\<exists>w. aq_Weekly q = Some w \<and> has_prefix ''default:'' (ww_Key w))"
  proof
    assume "\<exists>w \<in> set (aq_WeeklyWindows q). has_prefix ''default:'' (ww_Key w)"
    then have ne: "quotaWindows pf payload \<noteq> []" and h: "has_prefix ''default:'' (ww_Key (hd (quotaWindows pf payload)))"
      using default_first unfolding q_def Normalize_fields by auto
    then show "\<exists>w. aq_Weekly q = Some w \<and> has_prefix ''default:'' (ww_Key w)"
      unfolding q_def Normalize_fields by (cases "quotaWindows pf payload") simp_all
  qed
qed (simp_all add: q_def)

definition samplePayload :: "(string \<times> goany) list" where
  "samplePayload =
     [(''rate_limit'', AObject [(''allowed'', ABool True), (''limit_reached'', ABool True),
        (''primary_window'', AObject [(''limit_window_seconds'', AInt 604800), (''used_percent'', AFloat (Finite 250))])])]"

theorem Normalize_sound_witness:
  "\<exists>w. aq_WeeklyWindows (Normalize (\<lambda>_. None) ''acc'' samplePayload) = [w] \<and>
     ww_Key w = ''default:primary_window'' \<and> ww_UsedPercent w = Finite 100 \<and> ww_RemainingPercent w = Finite 0 \<and>
     percent (ww_ReportedUsedPercent w)"
proof -
  obtain w where w: "quotaWindows (\<lambda>_. None) samplePayload = [w]" "ww_Key w = ''default:primary_window''" "ww_LimitReached w"
    by (simp add: quotaWindows_def quotaSources_def samplePayload_def newQuotaSource_def sourceWindows_def
        sourceWindow_def List.map_filter_simps WeeklyWindowSeconds_def boolValue_def Let_def)
  with Normalize_sound [of "\<lambda>_. None" "''acc''" samplePayload] show ?thesis
    unfolding Normalize_fields by simp
qed

end
