(* ===== verification/Failover_States.thy ===== *)
theory Failover_States
  imports Failover_Planner Quota_Normalize Routes
begin

text \<open>
  \<open>internal/failover/quota_states.go\<close> and \<open>providers.go\<close>: the capacity of every account, built from
  one quota snapshot, persisted by the controller and read back by the services. Times are in
  seconds, durations in nanoseconds as in Go. A store read that fails is \<open>None\<close>; the JSON decoder
  of the persisted state is a parameter.
\<close>

section \<open>Definitions\<close>

subsection \<open>From a quota snapshot\<close>

definition defaultAccountStateStaleAfter :: int where
  "defaultAccountStateStaleAfter = 120 * second"

definition isDefaultKey :: "string \<Rightarrow> bool" where
  "isDefaultKey k = has_prefix ''default:'' k"

definition defaultWeeklyWindow :: "AccountQuota \<Rightarrow> WeeklyWindow option" where
  "defaultWeeklyWindow q =
     (case aq_Weekly q of
        Some w \<Rightarrow> if ww_Key w = [] \<or> isDefaultKey (ww_Key w) then Some w
                  else List.find (\<lambda>w. isDefaultKey (ww_Key w)) (aq_WeeklyWindows q)
      | None \<Rightarrow> List.find (\<lambda>w. isDefaultKey (ww_Key w)) (aq_WeeklyWindows q))"

definition boundedStaleAfter :: "int \<Rightarrow> int" where
  "boundedStaleAfter staleAfter =
     (if staleAfter < 5 * second \<or> staleAfter > 24 * 3600 * second then defaultAccountStateStaleAfter
      else staleAfter)"

definition boundedReserve :: "float64 \<Rightarrow> float64" where
  "boundedReserve r =
     (if is_nan r \<or> is_inf r \<or> f64_lt r (Finite 0) \<or> f64_lt (Finite 50) r then Finite 5 else r)"

definition snapshotFresh :: "int64 \<Rightarrow> int64 \<Rightarrow> int \<Rightarrow> bool" where
  "snapshotFresh observedAt now staleAfter =
     (let age = i64 (now - observedAt)
      in observedAt > 0 \<and> age \<ge> - 30 \<and> age \<le> go_div staleAfter second)"

definition quotaByAccount :: "AccountQuota list \<Rightarrow> (string, AccountQuota) gomap" where
  "quotaByAccount qs = fold (\<lambda>q m. if aq_Account q \<noteq> [] then AList.update (aq_Account q) q m else m) qs []"

definition quotaHeadroom :: "float64 \<Rightarrow> WeeklyWindow option \<Rightarrow> float64" where
  "quotaHeadroom reserve weekly =
     (case weekly of
        None \<Rightarrow> Finite 0
      | Some w \<Rightarrow> f64_max (Finite 0) (f64_sub (ww_RemainingPercent w) reserve))"

definition quotaExhausted :: "bool \<Rightarrow> AccountQuota option \<Rightarrow> bool" where
  "quotaExhausted fresh accountQuota =
     (case accountQuota of
        None \<Rightarrow> False
      | Some q \<Rightarrow> fresh \<and> aq_Status q = ''ok'' \<and>
          (aq_LimitReached q = Some True \<or>
           (case defaultWeeklyWindow q of
              None \<Rightarrow> False
            | Some w \<Rightarrow> ww_LimitReached w \<or> f64_le (Finite 100) (ww_UsedPercent w))))"

text \<open>Reading an absent quota gives Go's zero value, which is that of \<open>unavailableAccount\<close> with no status.\<close>

definition quotaOrZero :: "AccountQuota option \<Rightarrow> AccountQuota" where
  "quotaOrZero accountQuota = (case accountQuota of None \<Rightarrow> unavailableAccount [] [] | Some q \<Rightarrow> q)"

definition accountState ::
  "bool \<Rightarrow> int64 \<Rightarrow> float64 \<Rightarrow> bool \<Rightarrow> AccountQuota option \<Rightarrow> Account \<Rightarrow> AccountState" where
  "accountState fresh observedAt reserve running accountQuota account =
     (let found = accountQuota \<noteq> None;
          q = quotaOrZero accountQuota;
          weekly = defaultWeeklyWindow q;
          exhausted = quotaExhausted fresh accountQuota;
          headroom = quotaHeadroom reserve weekly;
          oauthConfigured = (found \<and> aq_Status q \<noteq> ''auth_missing'');
          allowed = (aq_Allowed q \<noteq> Some False);
          eligible = (an_GroupEnabled account \<and> running \<and> oauthConfigured \<and> fresh \<and> aq_Status q = ''ok'' \<and>
                      weekly \<noteq> None \<and> allowed \<and> \<not> exhausted \<and> f64_lt (Finite 0) headroom);
          reason = (if exhausted then ''quota_exhausted''
                    else if \<not> an_GroupEnabled account then ''account_disabled''
                    else if \<not> running then ''container_not_running''
                    else if \<not> oauthConfigured then ''oauth_missing''
                    else if \<not> fresh then ''quota_stale''
                    else if \<not> found \<or> aq_Status q \<noteq> ''ok'' \<or> weekly = None then ''quota_unavailable''
                    else if \<not> allowed then ''upstream_disallowed''
                    else if f64_le headroom (Finite 0) then ''reserve_reached''
                    else ''available'')
      in \<lparr>ac_Account = an_ID account, ac_Eligible = eligible, ac_Exhausted = exhausted, ac_Reason = reason,
          ac_UsedPercent = map_option ww_UsedPercent weekly,
          ac_RemainingPercent = map_option ww_RemainingPercent weekly, ac_Headroom = headroom,
          ac_ResetAt = (case Option.bind weekly ww_ResetAt of None \<Rightarrow> 0 | Some t \<Rightarrow> t),
          ac_ObservedAt = observedAt\<rparr>)"

definition isRunning :: "(string, bool) gomap \<Rightarrow> string \<Rightarrow> bool" where
  "isRunning running a = (map_of running a = Some True)"

definition BuildAccountStates ::
  "Account list \<Rightarrow> Snapshot \<Rightarrow> (string, bool) gomap \<Rightarrow> int64 \<Rightarrow> int \<Rightarrow> float64 \<Rightarrow> states" where
  "BuildAccountStates accounts snapshot running now staleAfter reservePercent =
     (let fresh = snapshotFresh (sn_GeneratedAt snapshot) now (boundedStaleAfter staleAfter);
          quotas = quotaByAccount (sn_Accounts snapshot)
      in fold (\<lambda>a m. AList.update (an_ID a)
                 (accountState fresh (sn_GeneratedAt snapshot) (boundedReserve reservePercent)
                    (isRunning running (an_ID a)) (map_of quotas (an_ID a)) a) m) accounts [])"

subsection \<open>The persisted state\<close>

record PlanSummary =
  ps_Sources :: "(string, int) gomap"
  ps_Destinations :: "(string, int) gomap"
  ps_CandidateAccounts :: "string list"
  ps_AffectedUsers :: int
  ps_PlannedUsers :: int
  ps_SkippedUsers :: int
  ps_UnassignedUsers :: int

record ActionSummary =
  am_At :: int64
  am_Trigger :: string
  am_Sources :: "(string, int) gomap"
  am_Destinations :: "(string, int) gomap"
  am_MovedUsers :: int
  am_SnapshotGeneration :: string

record RuntimeState =
  ft_Version :: int
  ft_Mode :: string
  ft_HeartbeatAt :: "int64 option"
  ft_LastCheckAt :: "int64 option"
  ft_LastSuccessAt :: "int64 option"
  ft_NextCheckAt :: "int64 option"
  ft_QuotaRefreshing :: bool
  ft_LastError :: string
  ft_Accounts :: states
  ft_LastPlan :: "PlanSummary option"
  ft_LastAction :: "ActionSummary option"

definition RuntimeStateVersion :: int where "RuntimeStateVersion = 1"

definition DefaultRuntimeState :: RuntimeState where
  "DefaultRuntimeState =
     \<lparr>ft_Version = RuntimeStateVersion, ft_Mode = ModeOff, ft_HeartbeatAt = None, ft_LastCheckAt = None,
      ft_LastSuccessAt = None, ft_NextCheckAt = None, ft_QuotaRefreshing = False, ft_LastError = [],
      ft_Accounts = [], ft_LastPlan = None, ft_LastAction = None\<rparr>"

text \<open>The row of the runtime state: the read failed, there is none, or its raw JSON.\<close>

datatype state_row = RowFault | RowMissing | Row string

definition ReadRuntimeState ::
  "(string \<Rightarrow> RuntimeState option) \<Rightarrow> state_row \<Rightarrow> (RuntimeState \<times> bool) option" where
  "ReadRuntimeState unmarshal row =
     (case row of
        RowFault \<Rightarrow> None
      | RowMissing \<Rightarrow> Some (DefaultRuntimeState, False)
      | Row raw \<Rightarrow>
          if raw = [] \<or> hd raw \<noteq> CHR ''{'' then Some (DefaultRuntimeState, True)
          else (case unmarshal raw of
                  None \<Rightarrow> Some (DefaultRuntimeState, True)
                | Some persisted \<Rightarrow>
                    if ft_Version persisted \<noteq> RuntimeStateVersion then Some (DefaultRuntimeState, True)
                    else if ft_Mode persisted \<noteq> ModeOff \<and> ft_Mode persisted \<noteq> ModeActive
                    then Some (persisted\<lparr>ft_Mode := ModeOff\<rparr>, True)
                    else Some (persisted, True)))"

fun settingSeconds :: "goany \<Rightarrow> float64" where
  "settingSeconds (AFloat x) = x"
| "settingSeconds (AInt n) = f64_of_int n"
| "settingSeconds (AInt64 n) = f64_of_int n"
| "settingSeconds _ = Finite 0"

definition durationSetting :: "goany \<Rightarrow> int \<Rightarrow> int" where
  "durationSetting v fallback =
     (let seconds = settingSeconds v
      in if is_nan seconds \<or> is_inf seconds \<or> f64_lt seconds (Finite 5) \<or> f64_lt (Finite 86400) seconds
         then fallback else f64_to_int64 (f64_mul seconds (Finite 1000000000)))"

definition unavailableAccountState :: "string \<Rightarrow> string \<Rightarrow> AccountState" where
  "unavailableAccountState account reason =
     \<lparr>ac_Account = account, ac_Eligible = False, ac_Exhausted = False, ac_Reason = reason,
      ac_UsedPercent = None, ac_RemainingPercent = None, ac_Headroom = Finite 0, ac_ResetAt = 0, ac_ObservedAt = 0\<rparr>"

fun percentOrNil :: "float64 option \<Rightarrow> bool" where
  "percentOrNil None = True"
| "percentOrNil (Some x) = in_percent (Some x)"

definition validateAccountState :: "AccountState \<Rightarrow> bool" where
  "validateAccountState s \<longleftrightarrow>
     \<not> (f64_lt (ac_Headroom s) (Finite 0) \<or> is_nan (ac_Headroom s) \<or> is_inf (ac_Headroom s)) \<and>
     percentOrNil (ac_UsedPercent s) \<and> percentOrNil (ac_RemainingPercent s)"

datatype provider_error = AccountStateReadError | InvalidPersistedState string

definition providedState ::
  "RuntimeState \<Rightarrow> bool \<Rightarrow> int64 \<Rightarrow> int \<Rightarrow> Account \<Rightarrow> AccountState option" where
  "providedState persisted found now staleAfter account =
     (case map_of (ft_Accounts persisted) (an_ID account) of
        None \<Rightarrow> Some (unavailableAccountState (an_ID account) ''quota_unavailable'')
      | Some state \<Rightarrow>
          if \<not> found \<or> ft_LastError persisted \<noteq> []
          then Some (unavailableAccountState (an_ID account) ''quota_unavailable'')
          else (let state = state\<lparr>ac_Account := an_ID account\<rparr>
                in if \<not> validateAccountState state then None
                   else if \<not> an_GroupEnabled account
                   then Some (state\<lparr>ac_Eligible := False, ac_Headroom := Finite 0, ac_Reason := ''account_disabled''\<rparr>)
                   else if ac_ObservedAt state \<le> 0 \<or> ac_ObservedAt state > i64 (now + 30) \<or>
                           i64 (now - ac_ObservedAt state) > go_div staleAfter second
                   then Some (state\<lparr>ac_Eligible := False, ac_Headroom := Finite 0, ac_Reason := ''quota_stale''\<rparr>)
                   else Some state))"

fun provideStates ::
  "RuntimeState \<Rightarrow> bool \<Rightarrow> int64 \<Rightarrow> int \<Rightarrow> Account list \<Rightarrow> states \<Rightarrow> provider_error + states" where
  "provideStates persisted found now staleAfter [] result = Inr result"
| "provideStates persisted found now staleAfter (account # accounts) result =
     (case providedState persisted found now staleAfter account of
        None \<Rightarrow> Inl (InvalidPersistedState (an_ID account))
      | Some s \<Rightarrow> provideStates persisted found now staleAfter accounts (AList.update (an_ID account) s result))"

definition AccountStates ::
  "(string \<Rightarrow> RuntimeState option) \<Rightarrow> Account list option \<Rightarrow> (string \<times> goany) list option \<Rightarrow> state_row \<Rightarrow> int64 \<Rightarrow>
   provider_error + states" where
  "AccountStates unmarshal accounts settings row now =
     (case (accounts, settings) of
        (Some as, Some m) \<Rightarrow>
          (let staleAfter = durationSetting (obj_get (Some m) ''account_failover.stale_after_seconds'')
                              defaultAccountStateStaleAfter
           in case ReadRuntimeState unmarshal row of
                None \<Rightarrow> Inl AccountStateReadError
              | Some (persisted, found) \<Rightarrow> provideStates persisted found now staleAfter as [])
      | _ \<Rightarrow> Inl AccountStateReadError)"

text \<open>The evidence an account needs to be a target.\<close>

definition capacityEvidence :: "Account \<Rightarrow> Snapshot \<Rightarrow> (string, bool) gomap \<Rightarrow> int64 \<Rightarrow> int \<Rightarrow> float64 \<Rightarrow> bool" where
  "capacityEvidence account snapshot running now staleAfter reserve \<longleftrightarrow>
     an_GroupEnabled account \<and> map_of running (an_ID account) = Some True \<and>
     snapshotFresh (sn_GeneratedAt snapshot) now (boundedStaleAfter staleAfter) \<and>
     (\<exists>q w. map_of (quotaByAccount (sn_Accounts snapshot)) (an_ID account) = Some q \<and>
        aq_Status q = ''ok'' \<and> aq_Allowed q \<noteq> Some False \<and> aq_LimitReached q \<noteq> Some True \<and>
        defaultWeeklyWindow q = Some w \<and> \<not> ww_LimitReached w \<and> f64_lt (ww_UsedPercent w) (Finite 100) \<and>
        f64_lt (Finite 0) (f64_sub (ww_RemainingPercent w) (boundedReserve reserve)))"

section \<open>Lemmas\<close>

lemma quotaByAccount_from:
  "map_of (quotaByAccount qs) a = Some q \<Longrightarrow> q \<in> set qs \<and> aq_Account q = a \<and> a \<noteq> []"
proof -
  have "map_of (fold (\<lambda>q m. if aq_Account q \<noteq> [] then AList.update (aq_Account q) q m else m) qs m) a = Some q \<Longrightarrow>
      (q \<in> set qs \<and> aq_Account q = a \<and> a \<noteq> []) \<or> map_of m a = Some q" for m
  proof (induction qs arbitrary: m)
    case (Cons b bs)
    have "q \<in> set bs \<and> aq_Account q = a \<and> a \<noteq> [] \<or>
        map_of (if aq_Account b \<noteq> [] then AList.update (aq_Account b) b m else m) a = Some q"
      by (rule Cons.IH) (use Cons.prems in simp)
    then show ?case by (auto split: if_splits)
  qed simp
  from this [of "[]"] show "map_of (quotaByAccount qs) a = Some q \<Longrightarrow> q \<in> set qs \<and> aq_Account q = a \<and> a \<noteq> []"
    by (simp add: quotaByAccount_def)
qed

lemma defaultWeeklyWindow_wf:
  assumes "wf_quota_account q" "defaultWeeklyWindow q = Some w"
  shows "wf_window w"
  using assms by (auto simp: defaultWeeklyWindow_def wf_quota_account_def
      dest!: find_SomeD split: option.splits if_splits)

lemma boundedReserve_range: "\<exists>r. boundedReserve x = Finite r \<and> 0 \<le> r \<and> r \<le> 50"
  by (cases x) (auto simp: boundedReserve_def is_nan_def)

lemma headroom_percent:
  assumes "\<forall>w. weekly = Some w \<longrightarrow> wf_window w"
  shows "percent (quotaHeadroom (boundedReserve r) weekly)"
proof (cases weekly)
  case None
  then show ?thesis by (simp add: quotaHeadroom_def)
next
  case (Some w)
  then obtain p where p: "ww_RemainingPercent w = Finite p" "0 \<le> p" "p \<le> 100"
    using assms by (auto simp: wf_window_def percent_def)
  obtain b where b: "boundedReserve r = Finite b" "0 \<le> b" "b \<le> 50" using boundedReserve_range by blast
  obtain d where "f64_round (p - b) = Finite d" "- 50 \<le> d" "d \<le> 100"
  proof -
    have "\<bar>p - b\<bar> < 2 ^ 53" using p b by (simp add: abs_if)
    then show ?thesis using f64_round_between [of "p - b" "-50" 100] p b that by auto
  qed
  then show ?thesis using p b Some by (auto simp: quotaHeadroom_def f64_sub_def f64_max_def percent_def)
qed

lemma percent_in_percent: "percent x \<Longrightarrow> in_percent (Some x)"
  by (auto simp: percent_def is_nan_def)

lemma f64_max0_pos: "f64_lt (Finite 0) (f64_max (Finite 0) x) \<longleftrightarrow> f64_lt (Finite 0) x"
  by (cases x) (auto simp: f64_max_def)

lemma not_f64_lt_percent: "percent x \<Longrightarrow> f64_le x (Finite 0) \<longleftrightarrow> \<not> f64_lt (Finite 0) x"
  by (auto simp: percent_def)

lemma BuildAccountStates_lookup:
  assumes "distinct (map an_ID accounts)" "account \<in> set accounts"
  shows "map_of (BuildAccountStates accounts snapshot running now staleAfter reserve) (an_ID account) =
     Some (accountState (snapshotFresh (sn_GeneratedAt snapshot) now (boundedStaleAfter staleAfter))
        (sn_GeneratedAt snapshot) (boundedReserve reserve) (isRunning running (an_ID account))
        (map_of (quotaByAccount (sn_Accounts snapshot)) (an_ID account)) account)"
proof -
  have "map_of (fold (\<lambda>a m. AList.update (an_ID a) (f a) m) accounts m) (an_ID account) = Some (f account)"
    for f :: "Account \<Rightarrow> AccountState" and m
    using assms
  proof (induction accounts arbitrary: m)
    case (Cons b bs)
    have keep: "map_of (fold (\<lambda>a m. AList.update (an_ID a) (f a) m) bs m) k = map_of m k"
      if "k \<notin> an_ID ` set bs" for m k
      using that by (induction bs arbitrary: m) auto
    show ?case
    proof (cases "account = b")
      case True
      then have "an_ID account \<notin> an_ID ` set bs" using Cons.prems(1) by simp
      then show ?thesis using True by (simp add: keep)
    next
      case False
      then show ?thesis using Cons by simp
    qed
  qed simp
  then show ?thesis unfolding BuildAccountStates_def Let_def .
qed

lemma BuildAccountStates_keys:
  "set (keys (BuildAccountStates accounts snapshot running now staleAfter reserve)) = set (map an_ID accounts)"
proof -
  have "set (keys (fold (\<lambda>a m. AList.update (an_ID a) (f a) m) accounts m)) = set (map an_ID accounts) \<union> set (keys m)"
    for f :: "Account \<Rightarrow> AccountState" and m
    by (induction accounts arbitrary: m) (auto simp: dom_update)
  then show ?thesis unfolding BuildAccountStates_def Let_def by simp
qed

lemma accountState_eligible:
  assumes "\<And>q. Q = Some q \<Longrightarrow> wf_quota_account q"
  shows "ac_Eligible (accountState fresh obs r running Q account) \<longleftrightarrow>
     an_GroupEnabled account \<and> running \<and> fresh \<and>
     (\<exists>q w. Q = Some q \<and> aq_Status q = ''ok'' \<and> aq_Allowed q \<noteq> Some False \<and> aq_LimitReached q \<noteq> Some True \<and>
        defaultWeeklyWindow q = Some w \<and> \<not> ww_LimitReached w \<and> f64_lt (ww_UsedPercent w) (Finite 100) \<and>
        f64_lt (Finite 0) (f64_sub (ww_RemainingPercent w) r))" (is "?L \<longleftrightarrow> ?R")
proof (cases "\<exists>q w. Q = Some q \<and> defaultWeeklyWindow q = Some w")
  case True
  then obtain q w where q: "Q = Some q" "defaultWeeklyWindow q = Some w" by blast
  have "percent (ww_UsedPercent w)" using defaultWeeklyWindow_wf [OF assms [OF q(1)] q(2)] by (simp add: wf_window_def)
  then have u: "f64_le (Finite 100) (ww_UsedPercent w) \<longleftrightarrow> \<not> f64_lt (ww_UsedPercent w) (Finite 100)"
    by (auto simp: percent_def)
  show ?thesis
    using q u by (auto simp: accountState_def Let_def quotaOrZero_def quotaExhausted_def quotaHeadroom_def f64_max0_pos)
next
  case False
  then show ?thesis
    by (cases Q) (auto simp: accountState_def Let_def quotaOrZero_def)
qed

lemma accountState_valid:
  assumes "\<And>q. Q = Some q \<Longrightarrow> wf_quota_account q"
  shows "validateAccountState (accountState fresh obs (boundedReserve r) running Q account)"
    and "percent (ac_Headroom (accountState fresh obs (boundedReserve r) running Q account))"
proof -
  have w: "wf_window w" if "defaultWeeklyWindow (quotaOrZero Q) = Some w" for w
    using that assms wf_unavailableAccount by (cases Q) (auto simp: quotaOrZero_def intro: defaultWeeklyWindow_wf)
  then show "percent (ac_Headroom (accountState fresh obs (boundedReserve r) running Q account))"
    unfolding accountState_def Let_def by (simp add: headroom_percent)
  then have "\<not> (f64_lt (ac_Headroom (accountState fresh obs (boundedReserve r) running Q account)) (Finite 0) \<or>
      is_nan (ac_Headroom (accountState fresh obs (boundedReserve r) running Q account)) \<or>
      is_inf (ac_Headroom (accountState fresh obs (boundedReserve r) running Q account)))"
    by (auto simp: percent_def is_nan_def)
  moreover have "percentOrNil (map_option ww_UsedPercent (defaultWeeklyWindow (quotaOrZero Q)))"
    "percentOrNil (map_option ww_RemainingPercent (defaultWeeklyWindow (quotaOrZero Q)))"
    using w by (cases "defaultWeeklyWindow (quotaOrZero Q)";
      simp add: wf_window_def percent_in_percent del: in_percent.simps)+
  ultimately show "validateAccountState (accountState fresh obs (boundedReserve r) running Q account)"
    unfolding validateAccountState_def by (simp add: accountState_def Let_def)
qed

lemma accountState_reason:
  assumes "percent (ac_Headroom (accountState fresh obs r running Q account))"
  shows "ac_Reason (accountState fresh obs r running Q account) = ''available'' \<longleftrightarrow>
     ac_Eligible (accountState fresh obs r running Q account)"
proof -
  have p: "percent (quotaHeadroom r (defaultWeeklyWindow (quotaOrZero Q)))"
    using assms by (simp add: accountState_def Let_def)
  show ?thesis
    using not_f64_lt_percent [OF p] by (cases Q) (auto simp: accountState_def Let_def quotaOrZero_def unavailableAccount_def)
qed

lemma providedState_eligible:
  assumes "providedState persisted found now staleAfter account = Some s" "ac_Eligible s"
  shows "found \<and> ft_LastError persisted = [] \<and> an_GroupEnabled account \<and>
     (\<exists>p. map_of (ft_Accounts persisted) (an_ID account) = Some p \<and> ac_Eligible p \<and>
        s = p\<lparr>ac_Account := an_ID account\<rparr>) \<and>
     0 < ac_ObservedAt s \<and> ac_ObservedAt s \<le> i64 (now + 30) \<and>
     i64 (now - ac_ObservedAt s) \<le> go_div staleAfter second"
  using assms unfolding providedState_def unavailableAccountState_def Let_def
  by (cases "map_of (ft_Accounts persisted) (an_ID account)") (auto split: if_splits)

lemma provideStates_Inr:
  assumes "provideStates persisted found now staleAfter accounts result = Inr states"
  shows "(map_of states a = Some s \<longrightarrow>
            map_of result a = Some s \<or>
            (\<exists>account \<in> set accounts. an_ID account = a \<and>
               providedState persisted found now staleAfter account = Some s)) \<and>
         set (keys states) = set (keys result) \<union> an_ID ` set accounts"
  using assms
proof (induction accounts arbitrary: result)
  case (Cons b bs)
  then obtain t where t: "providedState persisted found now staleAfter b = Some t"
    "provideStates persisted found now staleAfter bs (AList.update (an_ID b) t result) = Inr states"
    by (auto split: option.splits)
  have "set (keys (AList.update (an_ID b) t result)) = insert (an_ID b) (set (keys result))"
    by (simp add: dom_update)
  with Cons.IH [OF t(2)] t(1) show ?case by (auto split: if_splits)
qed simp

section \<open>Properties\<close>

text \<open>
  C33: capacity fails closed. Built from quotas in range, the state of every account says that the
  account can take users exactly when there is evidence for it: the account is enabled, its
  container runs, the snapshot is fresh and reports the account as \<open>ok\<close> with a regular weekly
  window, which is neither reached nor disallowed and leaves more than the reserve. The reason is
  \<open>available\<close> exactly then, an exhausted account is never eligible, and the state passes the
  validation of the provider that reads it back.
\<close>

theorem BuildAccountStates_fail_closed:
  assumes "distinct (map an_ID accounts)" "account \<in> set accounts"
    and "\<forall>q \<in> set (sn_Accounts snapshot). wf_quota_account q"
  shows "\<exists>s. map_of (BuildAccountStates accounts snapshot running now staleAfter reserve) (an_ID account) = Some s \<and>
     ac_Account s = an_ID account \<and>
     (ac_Eligible s \<longleftrightarrow> capacityEvidence account snapshot running now staleAfter reserve) \<and>
     (ac_Reason s = ''available'' \<longleftrightarrow> ac_Eligible s) \<and> (ac_Exhausted s \<longrightarrow> \<not> ac_Eligible s) \<and>
     percent (ac_Headroom s) \<and> validateAccountState s"
proof -
  let ?Q = "map_of (quotaByAccount (sn_Accounts snapshot)) (an_ID account)"
  let ?s = "accountState (snapshotFresh (sn_GeneratedAt snapshot) now (boundedStaleAfter staleAfter))
        (sn_GeneratedAt snapshot) (boundedReserve reserve) (isRunning running (an_ID account)) ?Q account"
  have wf: "wf_quota_account q" if "?Q = Some q" for q
    using quotaByAccount_from [OF that] assms(3) by blast
  have "ac_Eligible ?s \<longleftrightarrow> capacityEvidence account snapshot running now staleAfter reserve"
    by (simp only: accountState_eligible [OF wf] capacityEvidence_def isRunning_def)
  moreover have "ac_Exhausted ?s \<longrightarrow> \<not> ac_Eligible ?s" "ac_Account ?s = an_ID account"
    by (simp_all add: accountState_def Let_def)
  ultimately show ?thesis
    using accountState_valid [OF wf] accountState_reason [OF accountState_valid(2) [OF wf]]
    by (intro exI [of _ ?s] conjI BuildAccountStates_lookup [OF assms(1,2)]) assumption+
qed

definition sampleAccount :: Account where
  "sampleAccount = \<lparr>an_ID = ''a'', an_Email = [], an_Port = 1, an_ProxyMode = ''direct'', an_CreatedAt = 0,
     an_GroupEnabled = True, an_DefaultGroup = False\<rparr>"

definition sampleQuota :: AccountQuota where
  "sampleQuota = (unavailableAccount ''a'' ''ok'')\<lparr>aq_Weekly := Some
     \<lparr>ww_Key = ''default:primary_window'', ww_Label = [], ww_MeteredFeature = None, ww_WindowSlot = ''primary_window'',
      ww_UsedPercent = Finite 40, ww_RemainingPercent = Finite 60, ww_ReportedUsedPercent = Finite 40,
      ww_ResetAt = None, ww_ResetAfterSeconds = None, ww_WindowSeconds = 604800, ww_LimitReached = False,
      ww_Resettable = False\<rparr>\<rparr>"

definition sampleSnapshot :: Snapshot where
  "sampleSnapshot = \<lparr>sn_GeneratedAt = 1000, sn_CacheTTLSeconds = 60, sn_Cached = False, sn_Refreshing = False,
     sn_Accounts = [sampleQuota]\<rparr>"

lemma sampleQuota_wf: "wf_quota_account sampleQuota"
  by (simp add: sampleQuota_def wf_quota_account_def unavailableAccount_def wf_window_def percent_def WeeklyWindowSeconds_def)

lemma sample_evidence: "capacityEvidence sampleAccount sampleSnapshot [(''a'', True)] 1060 (120 * second) (Finite 5)"
proof -
  have "f64_sub (Finite 60) (Finite 5) = Finite 55"
    using f64_round_of_int [of 55] by (simp add: f64_sub_def)
  then show ?thesis
    by (simp add: capacityEvidence_def sampleAccount_def sampleSnapshot_def sampleQuota_def snapshotFresh_def
        boundedStaleAfter_def boundedReserve_def quotaByAccount_def defaultWeeklyWindow_def isDefaultKey_def
        unavailableAccount_def second_def go_div_def i64_def is_nan_def has_prefix_def)
qed

theorem BuildAccountStates_fail_closed_witness:
  "\<exists>s. map_of (BuildAccountStates [sampleAccount] sampleSnapshot [(''a'', True)] 1060 (120 * second) (Finite 5)) ''a'' = Some s \<and>
     ac_Eligible s \<and> ac_Reason s = ''available''"
proof -
  have "\<forall>q \<in> set (sn_Accounts sampleSnapshot). wf_quota_account q"
    by (simp add: sampleSnapshot_def sampleQuota_wf)
  from BuildAccountStates_fail_closed [OF _ _ this, of "[sampleAccount]" sampleAccount "[(''a'', True)]" 1060 "120 * second" "Finite 5"]
  show ?thesis using sample_evidence by (auto simp: sampleAccount_def)
qed

text \<open>
  C36: reading capacity back only weakens it. Whatever bytes are stored and whatever the decoder
  makes of them, \<open>AccountStates\<close> reports every account of the catalogue and no other, and an
  account is eligible only if the controller stored it as eligible without an error, it is enabled
  now, and the observation is at most 30 seconds ahead of the clock and not older than the
  configured limit.
\<close>

theorem AccountStates_weakens:
  assumes "AccountStates unmarshal (Some accounts) (Some settings) row now = Inr states"
  shows "set (keys states) = an_ID ` set accounts \<and>
     (\<forall>a s. map_of states a = Some s \<and> ac_Eligible s \<longrightarrow>
        (\<exists>account \<in> set accounts. an_ID account = a \<and> an_GroupEnabled account) \<and>
        (\<exists>persisted p. ReadRuntimeState unmarshal row = Some (persisted, True) \<and> ft_LastError persisted = [] \<and>
           map_of (ft_Accounts persisted) a = Some p \<and> ac_Eligible p \<and> s = p\<lparr>ac_Account := a\<rparr>) \<and>
        0 < ac_ObservedAt s \<and> ac_ObservedAt s \<le> i64 (now + 30) \<and>
        i64 (now - ac_ObservedAt s) \<le>
          go_div (durationSetting (obj_get (Some settings) ''account_failover.stale_after_seconds'')
                    defaultAccountStateStaleAfter) second)"
proof -
  let ?stale = "durationSetting (obj_get (Some settings) ''account_failover.stale_after_seconds'') defaultAccountStateStaleAfter"
  obtain persisted found where r: "ReadRuntimeState unmarshal row = Some (persisted, found)"
    and p: "provideStates persisted found now ?stale accounts [] = Inr states"
    using assms unfolding AccountStates_def Let_def by (auto split: option.splits)
  have "(\<exists>account \<in> set accounts. an_ID account = a \<and> an_GroupEnabled account) \<and>
        (\<exists>persisted p. ReadRuntimeState unmarshal row = Some (persisted, True) \<and> ft_LastError persisted = [] \<and>
           map_of (ft_Accounts persisted) a = Some p \<and> ac_Eligible p \<and> s = p\<lparr>ac_Account := a\<rparr>) \<and>
        0 < ac_ObservedAt s \<and> ac_ObservedAt s \<le> i64 (now + 30) \<and> i64 (now - ac_ObservedAt s) \<le> go_div ?stale second"
    if e: "map_of states a = Some s" "ac_Eligible s" for a s
  proof -
    obtain account where a: "account \<in> set accounts" "an_ID account = a"
      "providedState persisted found now ?stale account = Some s"
      using provideStates_Inr [OF p, of a s] e(1) by auto
    have P: "found" "ft_LastError persisted = []" "an_GroupEnabled account"
      "\<exists>p. map_of (ft_Accounts persisted) a = Some p \<and> ac_Eligible p \<and> s = p\<lparr>ac_Account := a\<rparr>"
      "0 < ac_ObservedAt s" "ac_ObservedAt s \<le> i64 (now + 30)" "i64 (now - ac_ObservedAt s) \<le> go_div ?stale second"
      using providedState_eligible [OF a(3) e(2), unfolded a(2)] by blast+
    then show ?thesis using a(1,2) r by auto
  qed
  then show ?thesis using provideStates_Inr [OF p] by auto
qed

definition sampleRuntime :: RuntimeState where
  "sampleRuntime = DefaultRuntimeState\<lparr>ft_Mode := ModeActive, ft_Accounts := [(''a'',
     (unavailableAccountState ''a'' ''available'')\<lparr>ac_Eligible := True, ac_Headroom := Finite 55, ac_ObservedAt := 1000\<rparr>)]\<rparr>"

theorem AccountStates_weakens_witness:
  "\<exists>states s. AccountStates (\<lambda>_. Some sampleRuntime) (Some [sampleAccount]) (Some []) (Row ''{}'') 1060 = Inr states \<and>
     map_of states ''a'' = Some s \<and> ac_Eligible s \<and> 0 < ac_ObservedAt s \<and> ac_ObservedAt s \<le> i64 (1060 + 30)"
proof -
  have run: "AccountStates (\<lambda>_. Some sampleRuntime) (Some [sampleAccount]) (Some []) (Row ''{}'') 1060 =
      Inr [(''a'', (unavailableAccountState ''a'' ''available'')\<lparr>ac_Eligible := True, ac_Headroom := Finite 55, ac_ObservedAt := 1000\<rparr>)]"
    (is "_ = Inr [(_, ?s)]")
  proof -
    have r: "ReadRuntimeState (\<lambda>_. Some sampleRuntime) (Row ''{}'') = Some (sampleRuntime, True)"
      by (simp add: ReadRuntimeState_def sampleRuntime_def DefaultRuntimeState_def)
    have "validateAccountState ?s"
      by (simp add: validateAccountState_def unavailableAccountState_def is_nan_def)
    then have p: "providedState sampleRuntime True 1060 (120 * second) sampleAccount = Some ?s"
      by (simp add: providedState_def sampleRuntime_def DefaultRuntimeState_def sampleAccount_def
          unavailableAccountState_def second_def go_div_def i64_def)
    have d: "durationSetting (obj_get (Some []) ''account_failover.stale_after_seconds'')
        defaultAccountStateStaleAfter = 120 * second"
      by (simp add: durationSetting_def defaultAccountStateStaleAfter_def is_nan_def)
    have "an_ID sampleAccount = ''a''" by (simp add: sampleAccount_def)
    then show ?thesis
      unfolding AccountStates_def Let_def prod.case option.case d r
      by (simp only: provideStates.simps p option.case AList.update.simps)
  qed
  let ?s = "(unavailableAccountState ''a'' ''available'')\<lparr>ac_Eligible := True, ac_Headroom := Finite 55, ac_ObservedAt := 1000\<rparr>"
  have m: "map_of [(''a'', ?s)] ''a'' = Some ?s" "ac_Eligible ?s" by simp_all
  with AccountStates_weakens [OF run, THEN conjunct2, rule_format, of "''a''" ?s] run show ?thesis by blast
qed

end
