(* ===== verification/Failover_Service.thy ===== *)
theory Failover_Service
  imports Published_Change Publish Failover_Planner Failover_States
begin

text \<open>
  \<open>internal/failover/service.go\<close>: moving users between accounts. A plan is computed from the
  routes, the key records and the account states, refused when it is incomplete, and applied with
  the pattern of \<open>Published_Change\<close>; then the activity counts are refreshed. The environment of a
  call holds what each read, transaction, publication and refresh gives.
\<close>

section \<open>Definitions\<close>

record RebalanceResult =
  rr_MovedUsers :: int
  rr_Destinations :: "(string, int) gomap"
  rr_TargetCounts :: "(string, int) gomap"
  rr_SnapshotGeneration :: string
  rr_ActiveUsers1H :: "(string, int) gomap"
  rr_ActivityRefreshed :: bool
  rr_Warning :: string

record EvacuationResult =
  er_Rebalance :: RebalanceResult
  er_Plan :: PlanSummary

datatype rebalance_error =
    RebalanceIncomplete
  | MoveInvalid
  | RebalanceInputs
  | ErrRebalanceUnavailable
  | ErrRebalanceUnsafe int int
  | RebalanceFailed change_error

record service_env =
  se_wired :: bool
  se_routes :: bool
  se_keys :: bool
  se_states :: "states option"
  se_fence :: "Lease list"
  se_apply :: tx
  se_applyAt :: int64
  se_publish :: publish_env
  se_undo :: tx
  se_undoAt :: int64
  se_republish :: publish_env
  se_refresh :: "string + (string, int) gomap"
  se_window :: "nat option"

text \<open>The window in minutes of a provider that is configured, or none.\<close>

definition activityWindowLabel :: "nat option \<Rightarrow> string" where
  "activityWindowLabel window =
     (case window of
        None \<Rightarrow> ''one-hour''
      | Some minutes \<Rightarrow> if minutes mod 60 = 0 then itoa (minutes div 60) @ ''-hour'' else itoa minutes @ ''-minute'')"

definition emptyRebalanceResult :: "Plan \<Rightarrow> RebalanceResult" where
  "emptyRebalanceResult plan =
     \<lparr>rr_MovedUsers = 0, rr_Destinations = [], rr_TargetCounts = pl_TargetCounts plan, rr_SnapshotGeneration = [],
      rr_ActiveUsers1H = [], rr_ActivityRefreshed = False, rr_Warning = []\<rparr>"

definition summarizePlan :: "Plan \<Rightarrow> PlanSummary" where
  "summarizePlan plan =
     \<lparr>ps_Sources = pl_Sources plan, ps_Destinations = pl_Destinations plan, ps_CandidateAccounts = pl_CandidateAccounts plan,
      ps_AffectedUsers = pl_AffectedUsers plan, ps_PlannedUsers = pl_PlannedUsers plan, ps_SkippedUsers = pl_SkippedUsers plan,
      ps_UnassignedUsers = pl_UnassignedUsers plan\<rparr>"

definition activeUsersFromRecords :: "KeyRecord list \<Rightarrow> string goset" where
  "activeUsersFromRecords records =
     fold (\<lambda>k m. let user = norm_user (kr_User k) in if \<not> isActive k \<or> user = [] then m else AList.update user () m) records []"

definition routableUser :: "string list \<Rightarrow> KeyRecord list \<Rightarrow> bool" where
  "routableUser accounts records \<longleftrightarrow>
     length (secretsOf records) = 1 \<and> list_all (\<lambda>a. a \<in> set (map kr_Account records)) accounts"

definition routableUsers :: "KeyRecord list \<Rightarrow> states \<Rightarrow> string goset" where
  "routableUsers records states =
     map (\<lambda>(u, items). (u, ())) (filter (\<lambda>(u, items). routableUser (sort (keys states)) items) (recordsByUser records))"

text \<open>The refresh of the activity counts; its failure is only a warning.\<close>

definition refreshActivity :: "service_env \<Rightarrow> RebalanceResult \<Rightarrow> RebalanceResult" where
  "refreshActivity env result =
     (case se_refresh env of
        Inl e \<Rightarrow> result\<lparr>rr_Warning := ''routes changed, but the '' @ activityWindowLabel (se_window env) @
                          '' active-user refresh failed: '' @ e\<rparr>
      | Inr activity \<Rightarrow> result\<lparr>rr_ActiveUsers1H := activity, rr_ActivityRefreshed := True\<rparr>)"

definition applyPlan ::
  "publish_codec \<Rightarrow> publisher \<Rightarrow> service_env \<Rightarrow> Plan \<Rightarrow> published \<Rightarrow> (rebalance_error + RebalanceResult) \<times> published" where
  "applyPlan codec p env plan w =
     (if pl_Assignments plan = [] then (Inr (emptyRebalanceResult plan), w)
      else (case publishChange (PublishAuthSnapshot codec p (se_fence env) (se_publish env) True)
                   (PublishAuthSnapshot codec p (se_fence env) (se_republish env) True)
                   (ApplyRoutesExpected (se_apply env) (se_applyAt env) (se_fence env) (pl_Assignments plan) (pl_ExpectedRoutes plan))
                   (\<lambda>_. RestoreRoutesExpected (se_undo env) (se_undoAt env) (se_fence env) (pl_ExpectedRoutes plan) (pl_Assignments plan))
                   w of
              (Inl e, w') \<Rightarrow> (Inl (RebalanceFailed e), w')
            | (Inr (updated, generation), w') \<Rightarrow>
                (Inr (refreshActivity env
                   ((emptyRebalanceResult plan)\<lparr>rr_MovedUsers := ru_MovedUsers updated, rr_Destinations := ru_Destinations updated,
                      rr_SnapshotGeneration := generation\<rparr>)), w')))"

definition movePlan :: "string \<Rightarrow> string \<Rightarrow> string \<Rightarrow> Plan" where
  "movePlan user target expected =
     \<lparr>pl_Assignments = [(user, target)], pl_ExpectedRoutes = [(user, expected)], pl_Sources = [(expected, 1)],
      pl_Destinations = [(target, 1)], pl_CandidateAccounts = [target], pl_AffectedUsers = 1, pl_PlannedUsers = 1,
      pl_SkippedUsers = 0, pl_UnassignedUsers = 0, pl_TargetCounts = []\<rparr>"

definition MoveUser ::
  "publish_codec \<Rightarrow> publisher \<Rightarrow> service_env \<Rightarrow> string \<Rightarrow> string \<Rightarrow> string \<Rightarrow> published \<Rightarrow>
   (rebalance_error + RebalanceResult) \<times> published" where
  "MoveUser codec p env rawUser rawTarget rawExpected w =
     (let user = norm_user rawUser; target = trim_space rawTarget; expected = trim_space rawExpected
      in if \<not> se_wired env then (Inl RebalanceIncomplete, w)
         else if user = [] \<or> target = [] then (Inl MoveInvalid, w)
         else if target = expected
         then (Inr (emptyRebalanceResult (movePlan user target expected)), w)
         else applyPlan codec p env (movePlan user target expected) w)"

text \<open>The three reads run concurrently; an error of any is the error of all.\<close>

definition rebalanceInputs :: "service_env \<Rightarrow> controldb \<Rightarrow> ((string, string) gomap \<times> KeyRecord list \<times> states) option" where
  "rebalanceInputs env db =
     (case se_states env of
        None \<Rightarrow> None
      | Some states \<Rightarrow> if se_routes env \<and> se_keys env then Some (ReadRoutes db, ReadKeyRecords db, states) else None)"

definition planUnsafe :: "Plan \<Rightarrow> bool" where
  "planUnsafe plan \<longleftrightarrow> pl_UnassignedUsers plan > 0 \<or> pl_SkippedUsers plan > 0"

definition unsafeError :: "Plan \<Rightarrow> rebalance_error" where
  "unsafeError plan = ErrRebalanceUnsafe (max (pl_UnassignedUsers plan) (pl_SkippedUsers plan)) (pl_AffectedUsers plan)"

definition RebalanceAll ::
  "publish_codec \<Rightarrow> publisher \<Rightarrow> service_env \<Rightarrow> published \<Rightarrow> (rebalance_error + RebalanceResult) \<times> published" where
  "RebalanceAll codec p env w =
     (if \<not> se_wired env then (Inl RebalanceIncomplete, w)
      else (case rebalanceInputs env (pw_db w) of
              None \<Rightarrow> (Inl RebalanceInputs, w)
            | Some (routes, records, states) \<Rightarrow>
                (let plan = PlanGlobalRebalance routes (activeUsersFromRecords records) (routableUsers records states) states
                 in if pl_CandidateAccounts plan = [] then (Inl ErrRebalanceUnavailable, w)
                    else if planUnsafe plan then (Inl (unsafeError plan), w)
                    else applyPlan codec p env plan w)))"

text \<open>An evacuation also returns its plan with most errors.\<close>

definition noEvacuation :: EvacuationResult where
  "noEvacuation =
     \<lparr>er_Rebalance = \<lparr>rr_MovedUsers = 0, rr_Destinations = [], rr_TargetCounts = [], rr_SnapshotGeneration = [],
                       rr_ActiveUsers1H = [], rr_ActivityRefreshed = False, rr_Warning = []\<rparr>,
      er_Plan = \<lparr>ps_Sources = [], ps_Destinations = [], ps_CandidateAccounts = [], ps_AffectedUsers = 0, ps_PlannedUsers = 0,
                 ps_SkippedUsers = 0, ps_UnassignedUsers = 0\<rparr>\<rparr>"

definition evacuate ::
  "publish_codec \<Rightarrow> publisher \<Rightarrow> service_env \<Rightarrow> string goset option \<Rightarrow> published \<Rightarrow>
   (EvacuationResult \<times> rebalance_error option) \<times> published" where
  "evacuate codec p env sourceAccounts w =
     (if \<not> se_wired env then ((noEvacuation, Some RebalanceIncomplete), w)
      else (case rebalanceInputs env (pw_db w) of
              None \<Rightarrow> ((noEvacuation, Some RebalanceInputs), w)
            | Some (routes, records, states) \<Rightarrow>
                (let plan = PlanEvacuation routes (activeUsersFromRecords records) (routableUsers records states) states sourceAccounts;
                     result = noEvacuation\<lparr>er_Plan := summarizePlan plan\<rparr>
                 in if pl_AffectedUsers plan = 0 then ((result\<lparr>er_Rebalance := emptyRebalanceResult plan\<rparr>, None), w)
                    else if pl_CandidateAccounts plan = [] then ((result, Some ErrRebalanceUnavailable), w)
                    else if planUnsafe plan then ((result, Some (unsafeError plan)), w)
                    else (case applyPlan codec p env plan w of
                            (Inl e, w') \<Rightarrow> ((result, Some e), w')
                          | (Inr applied, w') \<Rightarrow> ((result\<lparr>er_Rebalance := applied\<rparr>, None), w')))))"

definition EvacuateExhausted ::
  "publish_codec \<Rightarrow> publisher \<Rightarrow> service_env \<Rightarrow> published \<Rightarrow> (EvacuationResult \<times> rebalance_error option) \<times> published" where
  "EvacuateExhausted codec p env w = evacuate codec p env None w"

definition EvacuateAccount ::
  "publish_codec \<Rightarrow> publisher \<Rightarrow> service_env \<Rightarrow> string \<Rightarrow> published \<Rightarrow> (EvacuationResult \<times> rebalance_error option) \<times> published" where
  "EvacuateAccount codec p env rawAccount w =
     (let account = norm_user rawAccount
      in if account = [] then ((noEvacuation, Some MoveInvalid), w)
         else evacuate codec p env (Some [(account, ())]) w)"

section \<open>Lemmas\<close>

subsection \<open>Routes as a change of the store\<close>

interpretation routeChange: synced_change
  "\<lambda>x::unit. ApplyRoutesExpected tx now fence asg ex" "\<lambda>r. RestoreRoutesExpected TxOK now' fence' ex asg"
  "\<lambda>db. plan_maps asg ex \<and> (\<forall>u. map_of (cb_routes db) u \<noteq> Some []) \<and> validateWriteFence now' fence' (cb_leases db) = None"
  for tx now fence asg ex now' fence'
proof
  show "ApplyRoutesExpected tx now fence asg ex db = (Inl e, db') \<Longrightarrow> db' = db" for db e db' by (auto simp: ApplyRoutesExpected_def split: sum.splits if_splits elim: controlTx_cases)
  show "cb_internal db' = cb_internal db" if a: "ApplyRoutesExpected tx now fence asg ex db = (Inr r, db')" for db r db'
  proof -
    obtain x where "db' = db\<lparr>cb_routes := x\<rparr>" using ApplyRoutes_internal(2) [OF a] by blast
    then show ?thesis by simp
  qed
qed (rule RestoreRoutes_reverts)

subsection \<open>The maps of a plan\<close>

definition plan_of :: "(string \<Rightarrow> bool) \<Rightarrow> (string \<Rightarrow> bool) \<Rightarrow> (string \<Rightarrow> bool) \<Rightarrow> Plan \<Rightarrow> bool" where
  "plan_of U T R plan \<longleftrightarrow>
     wf_map (pl_Assignments plan) \<and> wf_map (pl_ExpectedRoutes plan) \<and>
     set (keys (pl_Assignments plan)) = set (keys (pl_ExpectedRoutes plan)) \<and>
     (\<forall>u t. (u, t) \<in> set (pl_Assignments plan) \<longrightarrow> U u \<and> T t) \<and> (\<forall>u r. (u, r) \<in> set (pl_ExpectedRoutes plan) \<longrightarrow> R r)"

lemma set_update_sub: "set (AList.update k v m) \<subseteq> insert (k, v) (set m)"
  by (induction m) auto

lemma plan_of_update:
  assumes "plan_of U T R plan" "U u" "T t" "R r"
  shows "plan_of U T R (plan\<lparr>pl_Assignments := AList.update u t (pl_Assignments plan),
     pl_ExpectedRoutes := AList.update u r (pl_ExpectedRoutes plan)\<rparr>)"
proof -
  have k: "set (keys (AList.update u x m)) = insert u (set (keys m))" for x :: string and m by (simp add: dom_update)
  have a: "\<forall>v s. (v, s) \<in> set (AList.update u t (pl_Assignments plan)) \<longrightarrow> U v \<and> T s"
    using assms set_update_sub [of u t "pl_Assignments plan"] unfolding plan_of_def by fast
  have e: "\<forall>v s. (v, s) \<in> set (AList.update u r (pl_ExpectedRoutes plan)) \<longrightarrow> R s"
    using assms set_update_sub [of u r "pl_ExpectedRoutes plan"] unfolding plan_of_def by fast
  let ?q = "plan\<lparr>pl_Assignments := AList.update u t (pl_Assignments plan), pl_ExpectedRoutes := AList.update u r (pl_ExpectedRoutes plan)\<rparr>"
  have q: "pl_Assignments ?q = AList.update u t (pl_Assignments plan)" "pl_ExpectedRoutes ?q = AList.update u r (pl_ExpectedRoutes plan)"
    by simp_all
  have "wf_map (AList.update u t (pl_Assignments plan))" "wf_map (AList.update u r (pl_ExpectedRoutes plan))"
    "set (keys (AList.update u t (pl_Assignments plan))) = set (keys (AList.update u r (pl_ExpectedRoutes plan)))"
    using assms(1) unfolding plan_of_def k by simp_all
  then show ?thesis using a e unfolding plan_of_def q by blast
qed

lemma plan_of_cong:
  "pl_Assignments p = pl_Assignments q \<Longrightarrow> pl_ExpectedRoutes p = pl_ExpectedRoutes q \<Longrightarrow> plan_of U T R p = plan_of U T R q"
  by (simp add: plan_of_def)

lemma plan_of_rebalanceEntries:
  assumes "plan_of U T R plan" "\<forall>e \<in> set es. U (re_User e) \<and> R (re_Account e)" "\<forall>c \<in> set cs. T c"
  shows "plan_of U T R (rebalanceEntries cs es deficits plan)"
  using assms
proof (induction cs es deficits plan rule: rebalanceEntries.induct)
  case (2 cs e es deficits plan)
  let ?t = "firstDeficit cs deficits"
  have t: "T ?t" if "?t \<noteq> []"
    using that "2.prems"(3) by (auto simp: firstDeficit_def split: option.splits dest: find_SomeD)
  have up: "plan_of U T R (plan\<lparr>pl_Assignments := AList.update (re_User e) ?t (pl_Assignments plan),
      pl_ExpectedRoutes := AList.update (re_User e) (re_Account e) (pl_ExpectedRoutes plan),
      pl_Sources := gincr (re_Account e) (pl_Sources plan), pl_Destinations := gincr ?t (pl_Destinations plan)\<rparr>)" if "?t \<noteq> []"
    using plan_of_update [OF "2.prems"(1) _ t [OF that], of "re_User e" "re_Account e"] "2.prems"(2) by (simp add: plan_of_def)
  then show ?case using 2 by (simp add: Let_def)
qed simp

lemma plan_of_evacuateEntries:
  assumes "plan_of U T R plan" "\<forall>e \<in> set es. U (re_User e) \<and> R (re_Account e)" "\<forall>c \<in> set cs. T c"
  shows "plan_of U T R (evacuateEntries states cs routable es counts plan)"
  using assms
proof (induction states cs routable es counts plan rule: evacuateEntries.induct)
  case (2 states cs routable e es counts plan)
  have up: "plan_of U T R (plan\<lparr>pl_Sources := gincr (re_Account e) (pl_Sources plan),
      pl_Assignments := AList.update (re_User e) t (pl_Assignments plan),
      pl_ExpectedRoutes := AList.update (re_User e) (re_Account e) (pl_ExpectedRoutes plan),
      pl_Destinations := gincr t (pl_Destinations plan)\<rparr>)" if "leastWeightedAccount states cs counts = Some t" for t
    using plan_of_update [OF "2.prems"(1), of "re_User e" t "re_Account e"] "2.prems"(2,3) leastWeightedAccount_in [OF that]
    by (simp add: plan_of_def)
  have "plan_of U T R (plan\<lparr>pl_Sources := s\<rparr>)" "plan_of U T R (plan\<lparr>pl_Sources := s, pl_SkippedUsers := k\<rparr>)" for s k
    using "2.prems"(1) by (simp_all add: plan_of_def)
  note plain = this
  show ?case
  proof (cases "has_key routable (re_User e)")
    case False
    then show ?thesis using "2.IH"(1) [OF refl False plain(2)] "2.prems"(2,3) by (simp add: Let_def)
  next
    case True
    show ?thesis
    proof (cases "leastWeightedAccount states cs counts")
      case None
      then show ?thesis using "2.IH"(2) [OF refl _ None plain(1)] True "2.prems"(2,3) by (simp add: Let_def)
    next
      case (Some t)
      then show ?thesis using "2.IH"(3) [OF refl _ Some] up [OF Some] True "2.prems"(2,3) by (simp add: Let_def)
    qed
  qed
qed simp

lemma has_key_activeUsers: "has_key (activeUsersFromRecords records) u \<longleftrightarrow> u \<noteq> [] \<and> activeOf u records \<noteq> []"
proof -
  let ?f = "\<lambda>k m. let user = norm_user (kr_User k) in if \<not> isActive k \<or> user = [] then m else AList.update user () m"
  have "has_key (fold ?f records m) u \<longleftrightarrow> has_key m u \<or> u \<noteq> [] \<and> activeOf u records \<noteq> []" for m
    by (induction records arbitrary: m) (auto simp: activeOf_def Let_def)
  then show ?thesis by (simp add: activeUsersFromRecords_def has_key_def)
qed

lemma wf_activeUsers: "wf_map (activeUsersFromRecords records)"
proof -
  let ?f = "\<lambda>k m. let user = norm_user (kr_User k) in if \<not> isActive k \<or> user = [] then m else AList.update user () m"
  have "wf_map m \<Longrightarrow> wf_map (fold ?f records m)" for m by (induction records arbitrary: m) (auto simp: Let_def)
  then show ?thesis by (simp add: activeUsersFromRecords_def)
qed

abbreviation normal_user :: "string \<Rightarrow> bool" where
  "normal_user u \<equiv> norm_user u = u \<and> u \<noteq> []"

abbreviation account_name :: "string \<Rightarrow> bool" where
  "account_name t \<equiv> trim_space t = t \<and> t \<noteq> []"

lemma active_normal:
  assumes "has_key (activeUsersFromRecords records) u"
  shows "normal_user u"
proof -
  obtain k where "k \<in> set (activeOf u records)" "u \<noteq> []" using assms by (cases "activeOf u records") (auto simp: has_key_activeUsers)
  then show ?thesis by (auto simp: activeOf_def)
qed

lemma plan_of_maps:
  "plan_of normal_user account_name (\<lambda>r. trim_space r = r) plan \<Longrightarrow> plan_maps (pl_Assignments plan) (pl_ExpectedRoutes plan)"
  unfolding plan_of_def plan_maps_def by blast

lemma catalog_routes_trim:
  assumes "catalog_ok db"
  shows "(u, a) \<in> set (cb_routes db) \<Longrightarrow> accountIDPattern a" "trim_space (gstring (cb_routes db) u) = gstring (cb_routes db) u"
    "map_of (cb_routes db) u \<noteq> Some []"
proof -
  show pat: "accountIDPattern b" if "(v, b) \<in> set (cb_routes db)" for v b
    using assms that by (auto simp: catalog_ok_def routes_ok_def accounts_ok_def accountIDs_eq)
  show "trim_space (gstring (cb_routes db) u) = gstring (cb_routes db) u"
    using trim_account pat by (auto simp: gstring_def split: option.splits dest: map_of_SomeD)
  show "map_of (cb_routes db) u \<noteq> Some []" using pat [of u "[]"] map_of_SomeD [of "cb_routes db" u "[]"] by (auto simp: accountIDPattern_def)
qed

definition states_ok :: "states \<Rightarrow> bool" where
  "states_ok states \<longleftrightarrow> wf_map states \<and> (\<forall>a \<in> set (keys states). accountIDPattern a)"

lemma states_candidates: "states_ok states \<Longrightarrow> \<forall>c \<in> set (eligibleCandidates states ex). account_name c"
  using candidates_keys [of states ex] trim_account unfolding states_ok_def accountIDPattern_def by fastforce

lemma plan_of_new: "plan_of U T R (newPlan cs n)"
  by (simp add: plan_of_def newPlan_def)

lemma rebalance_plan_maps:
  fixes db states records routable
  assumes "catalog_ok db" "states_ok states"
  defines "plan \<equiv> PlanGlobalRebalance (ReadRoutes db) (activeUsersFromRecords records) routable states"
  shows "plan_maps (pl_Assignments plan) (pl_ExpectedRoutes plan)"
proof (rule plan_of_maps)
  let ?P = "plan_of normal_user account_name (\<lambda>r. trim_space r = r)"
  have e: "\<forall>e \<in> set (remainingEntries (ReadRoutes db) (filter f (sort (keys (activeUsersFromRecords records)))) retained).
      normal_user (re_User e) \<and> trim_space (re_Account e) = re_Account e" for f retained
    using active_normal catalog_routes_trim(2) [OF assms(1)]
    by (auto simp: remainingEntries_def sortRouteEntries_def ReadRoutes_def has_key_set)
  have "?P (rebalanceEntries (eligibleCandidates states [])
      (remainingEntries (ReadRoutes db) (filter f (sort (keys (activeUsersFromRecords records)))) retained) deficits
      ((newPlan cs n)\<lparr>pl_TargetCounts := x\<rparr>))" for f retained deficits cs n x
    by (rule plan_of_rebalanceEntries [OF _ e states_candidates [OF assms(2)]]) (simp add: plan_of_def newPlan_def)
  then show "?P plan" unfolding plan_def PlanGlobalRebalance_def Let_def by (simp add: plan_of_def newPlan_def)
qed

lemma evacuation_plan_maps:
  fixes db states records routable sources
  assumes "catalog_ok db" "states_ok states"
  defines "plan \<equiv> PlanEvacuation (ReadRoutes db) (activeUsersFromRecords records) routable states sources"
  shows "plan_maps (pl_Assignments plan) (pl_ExpectedRoutes plan)"
proof (rule plan_of_maps)
  let ?P = "plan_of normal_user account_name (\<lambda>r. trim_space r = r)"
  have e: "\<forall>e \<in> set (affectedEntries (ReadRoutes db) (activeUsersFromRecords records) src).
      normal_user (re_User e) \<and> trim_space (re_Account e) = re_Account e" for src
    using active_normal trim_account catalog_routes_trim(1) [OF assms(1)]
    by (auto simp: affectedEntries_def sortRouteEntries_def ReadRoutes_def)
  show "?P plan" unfolding plan_def PlanEvacuation_def Let_def
    using plan_of_evacuateEntries [OF plan_of_new e states_candidates [OF assms(2)]] by (simp add: plan_of_def)
qed

subsection \<open>Applying a plan\<close>

text \<open>
  What a call promises: on success only routes (and internal keys) changed, as the plan says; on an
  error the catalogue is as it was, up to the internal keys.
\<close>

definition routes_only :: "(string \<Rightarrow> string option) \<Rightarrow> controldb \<Rightarrow> controldb \<Rightarrow> bool" where
  "routes_only routes db db' \<longleftrightarrow> (\<exists>r i. db' = db\<lparr>cb_routes := r, cb_internal := i\<rparr> \<and> map_of r = routes)"

lemma routes_only_refl: "routes_only (map_of (cb_routes db)) db db"
  unfolding routes_only_def by (intro exI [of _ "cb_routes db"] exI [of _ "cb_internal db"]) simp

lemma applyPlan_atomic:
  assumes c: "catalog_ok (pw_db w)" and pm: "plan_maps (pl_Assignments plan) (pl_ExpectedRoutes plan)"
    and f: "se_undo env = TxOK" "validateWriteFence (se_undoAt env) (se_fence env) (cb_leases (pw_db w)) = None"
    and run: "applyPlan codec p env plan w = (res, w')"
  shows "case res of Inl e \<Rightarrow> unchanged (pw_db w) (pw_db w')
    | Inr r \<Rightarrow> routes_only (routesWith (pl_Assignments plan) (map_of (cb_routes (pw_db w)))) (pw_db w) (pw_db w')"
proof (cases "pl_Assignments plan = []")
  case True
  have "routesWith [] m = m" for m by (auto simp: routesWith_def)
  then show ?thesis using run True routes_only_refl by (auto simp: applyPlan_def)
next
  case False
  let ?change = "ApplyRoutesExpected (se_apply env) (se_applyAt env) (se_fence env) (pl_Assignments plan) (pl_ExpectedRoutes plan)"
  let ?undo = "\<lambda>_. RestoreRoutesExpected (se_undo env) (se_undoAt env) (se_fence env) (pl_ExpectedRoutes plan) (pl_Assignments plan)"
  let ?pub = "\<lambda>e. PublishAuthSnapshot codec p (se_fence env) e True"
  obtain r1 w1 where pc: "publishChange (?pub (se_publish env)) (?pub (se_republish env)) ?change ?undo w = (r1, w1)" by fastforce
  have pre: "plan_maps (pl_Assignments plan) (pl_ExpectedRoutes plan) \<and> (\<forall>u. map_of (cb_routes (pw_db w)) u \<noteq> Some []) \<and>
      validateWriteFence (se_undoAt env) (se_fence env) (cb_leases (pw_db w)) = None"
    using pm f(2) catalog_routes_trim(3) [OF c] by blast
  have A: "atomic_change ?change (pw_db w) r1 (pw_db w1)"
    by (rule routeChange.published_atomic [OF pre publishes_snapshot publishes_snapshot pc [unfolded f(1)]])
  show ?thesis
  proof (cases r1)
    case (Inl e)
    then have "unchanged (pw_db w) (pw_db w1)" using A atomic_unchanged by blast
    then show ?thesis using run False pc Inl by (auto simp: applyPlan_def)
  next
    case (Inr rg)
    then obtain r g where rg: "r1 = Inr (r, g)" by (cases rg) auto
    obtain db1 i where d: "?change (pw_db w) = (Inr r, db1)" "pw_db w1 = db1\<lparr>cb_internal := i\<rparr>"
      using A unfolding rg atomic_change_def by auto
    obtain x where x: "db1 = (pw_db w)\<lparr>cb_routes := x\<rparr>" using ApplyRoutes_internal(2) [OF d(1)] by blast
    have "map_of x = routesWith (pl_Assignments plan) (map_of (cb_routes (pw_db w)))"
      using ApplyRoutes_plan [OF pm d(1)] by (simp add: x)
    then have "routes_only (routesWith (pl_Assignments plan) (map_of (cb_routes (pw_db w)))) (pw_db w) (pw_db w1)"
      unfolding routes_only_def d(2) x by auto
    then show ?thesis using run False pc rg by (auto simp: applyPlan_def)
  qed
qed

lemma evacuate_atomic:
  assumes c: "catalog_ok (pw_db w)" and st: "\<And>s. se_states env = Some s \<Longrightarrow> states_ok s"
    and f: "se_undo env = TxOK" "validateWriteFence (se_undoAt env) (se_fence env) (cb_leases (pw_db w)) = None"
    and run: "evacuate codec p env sources w = ((res, err), w')"
  shows "err \<noteq> None \<Longrightarrow> unchanged (pw_db w) (pw_db w')"
    and "err = None \<Longrightarrow> \<exists>states plan. se_states env = Some states \<and>
       plan = PlanEvacuation (ReadRoutes (pw_db w)) (activeUsersFromRecords (ReadKeyRecords (pw_db w)))
         (routableUsers (ReadKeyRecords (pw_db w)) states) states sources \<and>
       (pl_AffectedUsers plan = 0 \<and> w' = w \<or> pl_CandidateAccounts plan \<noteq> [] \<and> \<not> planUnsafe plan \<and>
          routes_only (routesWith (pl_Assignments plan) (map_of (cb_routes (pw_db w)))) (pw_db w) (pw_db w'))"
proof -
  have "if err \<noteq> None then unchanged (pw_db w) (pw_db w') else
     \<exists>states plan. se_states env = Some states \<and>
       plan = PlanEvacuation (ReadRoutes (pw_db w)) (activeUsersFromRecords (ReadKeyRecords (pw_db w)))
         (routableUsers (ReadKeyRecords (pw_db w)) states) states sources \<and>
       (pl_AffectedUsers plan = 0 \<and> w' = w \<or> pl_CandidateAccounts plan \<noteq> [] \<and> \<not> planUnsafe plan \<and>
          routes_only (routesWith (pl_Assignments plan) (map_of (cb_routes (pw_db w)))) (pw_db w) (pw_db w'))"
  proof (cases "se_wired env \<and> rebalanceInputs env (pw_db w) \<noteq> None")
    case False
    have "err \<noteq> None \<and> w' = w"
    proof (cases "se_wired env")
      case True
      then have "rebalanceInputs env (pw_db w) = None" using False by blast
      then show ?thesis using run True by (auto simp: evacuate_def)
    qed (use run in \<open>auto simp: evacuate_def\<close>)
    then show ?thesis using unchanged_refl by simp
  next
    case True
    then obtain states where s: "se_states env = Some states"
      "rebalanceInputs env (pw_db w) = Some (ReadRoutes (pw_db w), ReadKeyRecords (pw_db w), states)"
      by (auto simp: rebalanceInputs_def split: option.splits if_splits)
    define plan where "plan = PlanEvacuation (ReadRoutes (pw_db w)) (activeUsersFromRecords (ReadKeyRecords (pw_db w)))
         (routableUsers (ReadKeyRecords (pw_db w)) states) states sources"
    have pm: "plan_maps (pl_Assignments plan) (pl_ExpectedRoutes plan)"
      unfolding plan_def by (rule evacuation_plan_maps [OF c st [OF s(1)]])
    obtain r1 w1 where ap: "applyPlan codec p env plan w = (r1, w1)" by fastforce
    note A = applyPlan_atomic [OF c pm f ap]
    note R = run [unfolded evacuate_def s(2) Let_def option.case prod.case, folded plan_def]
    have "if err \<noteq> None then unchanged (pw_db w) (pw_db w') else
        pl_AffectedUsers plan = 0 \<and> w' = w \<or> pl_CandidateAccounts plan \<noteq> [] \<and> \<not> planUnsafe plan \<and>
          routes_only (routesWith (pl_Assignments plan) (map_of (cb_routes (pw_db w)))) (pw_db w) (pw_db w')"
    proof (cases "pl_AffectedUsers plan = 0 \<or> pl_CandidateAccounts plan = [] \<or> planUnsafe plan")
      case unplanned: True
      then show ?thesis using R True unchanged_refl by (auto split: if_splits)
    next
      case False
      then show ?thesis using R True A by (auto simp: ap split: sum.splits)
    qed
    then show ?thesis using s(1) unfolding plan_def by (auto split: if_splits)
  qed
  then show "err \<noteq> None \<Longrightarrow> unchanged (pw_db w) (pw_db w')"
    and "err = None \<Longrightarrow> \<exists>states plan. se_states env = Some states \<and>
       plan = PlanEvacuation (ReadRoutes (pw_db w)) (activeUsersFromRecords (ReadKeyRecords (pw_db w)))
         (routableUsers (ReadKeyRecords (pw_db w)) states) states sources \<and>
       (pl_AffectedUsers plan = 0 \<and> w' = w \<or> pl_CandidateAccounts plan \<noteq> [] \<and> \<not> planUnsafe plan \<and>
          routes_only (routesWith (pl_Assignments plan) (map_of (cb_routes (pw_db w)))) (pw_db w) (pw_db w'))"
    by auto
qed

lemma movePlan_maps:
  assumes "norm_user u \<noteq> []" "trim_space t \<noteq> []"
  shows "plan_maps (pl_Assignments (movePlan (norm_user u) (trim_space t) (trim_space x)))
     (pl_ExpectedRoutes (movePlan (norm_user u) (trim_space t) (trim_space x)))"
  using assms by (simp add: plan_maps_def movePlan_def wf_map_def)

lemma rebalance_inputs:
  assumes "rebalanceInputs env db = Some (routes, records, states)"
  shows "se_states env = Some states" "routes = ReadRoutes db" "records = ReadKeyRecords db"
  using assms by (auto simp: rebalanceInputs_def split: option.splits if_splits)

lemma MoveUser_atomic:
  assumes c: "catalog_ok (pw_db w)"
    and f: "se_undo env = TxOK" "validateWriteFence (se_undoAt env) (se_fence env) (cb_leases (pw_db w)) = None"
    and run: "MoveUser codec p env user target expected w = (res, w')"
  shows "case res of Inl e \<Rightarrow> unchanged (pw_db w) (pw_db w')
    | Inr r \<Rightarrow> routes_only (if trim_space target = trim_space expected then map_of (cb_routes (pw_db w))
                  else (map_of (cb_routes (pw_db w)))(norm_user user \<mapsto> trim_space target)) (pw_db w) (pw_db w')"
proof (cases "\<not> se_wired env \<or> norm_user user = [] \<or> trim_space target = []")
  case True
  then show ?thesis using run unchanged_refl by (auto simp: MoveUser_def Let_def split: if_splits)
next
  case valid: False
  show ?thesis
  proof (cases "trim_space target = trim_space expected")
    case True
    then show ?thesis using run valid routes_only_refl by (auto simp: MoveUser_def Let_def)
  next
    case False
    let ?plan = "movePlan (norm_user user) (trim_space target) (trim_space expected)"
    have a: "applyPlan codec p env ?plan w = (res, w')" using run valid False by (simp add: MoveUser_def Let_def)
    have e: "routesWith (pl_Assignments ?plan) m = m(norm_user user \<mapsto> trim_space target)" for m
      by (auto simp: routesWith_def movePlan_def)
    have pm: "plan_maps (pl_Assignments ?plan) (pl_ExpectedRoutes ?plan)" using movePlan_maps valid by blast
    show ?thesis using applyPlan_atomic [OF c pm f a] unfolding e if_not_P [OF False] .
  qed
qed

lemma RebalanceAll_atomic:
  assumes c: "catalog_ok (pw_db w)" and st: "\<And>s. se_states env = Some s \<Longrightarrow> states_ok s"
    and f: "se_undo env = TxOK" "validateWriteFence (se_undoAt env) (se_fence env) (cb_leases (pw_db w)) = None"
    and run: "RebalanceAll codec p env w = (res, w')"
  shows "case res of Inl e \<Rightarrow> unchanged (pw_db w) (pw_db w')
    | Inr r \<Rightarrow> \<exists>states plan. se_states env = Some states \<and>
        plan = PlanGlobalRebalance (ReadRoutes (pw_db w)) (activeUsersFromRecords (ReadKeyRecords (pw_db w)))
          (routableUsers (ReadKeyRecords (pw_db w)) states) states \<and>
        pl_CandidateAccounts plan \<noteq> [] \<and> \<not> planUnsafe plan \<and>
        routes_only (routesWith (pl_Assignments plan) (map_of (cb_routes (pw_db w)))) (pw_db w) (pw_db w')"
proof (cases "se_wired env")
  case False
  then show ?thesis using run unchanged_refl by (auto simp: RebalanceAll_def)
next
  case wired: True
  show ?thesis
  proof (cases "rebalanceInputs env (pw_db w)")
    case None
    then show ?thesis using run wired unchanged_refl by (auto simp: RebalanceAll_def)
  next
    case (Some inp)
    then obtain routes records states where inp: "rebalanceInputs env (pw_db w) = Some (routes, records, states)" by (cases inp) auto
    note I = rebalance_inputs [OF inp]
    define plan where "plan = PlanGlobalRebalance (ReadRoutes (pw_db w)) (activeUsersFromRecords (ReadKeyRecords (pw_db w)))
         (routableUsers (ReadKeyRecords (pw_db w)) states) states"
    have pm: "plan_maps (pl_Assignments plan) (pl_ExpectedRoutes plan)"
      unfolding plan_def by (rule rebalance_plan_maps [OF c st [OF I(1)]])
    note R = run [unfolded RebalanceAll_def inp I(2,3) Let_def option.case prod.case, folded plan_def]
    have "case res of Inl e \<Rightarrow> unchanged (pw_db w) (pw_db w')
      | Inr r \<Rightarrow> pl_CandidateAccounts plan \<noteq> [] \<and> \<not> planUnsafe plan \<and>
        routes_only (routesWith (pl_Assignments plan) (map_of (cb_routes (pw_db w)))) (pw_db w) (pw_db w')"
    proof (cases "pl_CandidateAccounts plan = [] \<or> planUnsafe plan")
      case True
      then show ?thesis using R wired unchanged_refl by (auto split: if_splits)
    next
      case False
      then have "applyPlan codec p env plan w = (res, w')" using R wired by simp
      from applyPlan_atomic [OF c pm f this] False show ?thesis by (simp split: sum.splits)
    qed
    then show ?thesis using I(1) unfolding plan_def by (auto split: sum.splits)
  qed
qed

lemma evacuation_none:
  assumes w: "wf_map routes" and "pl_AffectedUsers (PlanEvacuation routes active routable states (Some sources)) = 0"
    and "map_of routes u = Some a" "has_key active u" "has_key sources a"
  shows False
proof -
  let ?cs = "eligibleCandidates states sources" and ?af = "affectedEntries routes active sources"
  have "evacuated routable ?cs ?af (newPlan ?cs (length ?af)) (evacuateEntries states ?cs routable ?af (routedCounts routes active ?cs) (newPlan ?cs (length ?af)))"
    by (rule evacuateEntries_spec) (use affected_users [OF w] in \<open>simp_all add: newPlan_def has_key_def\<close>)
  then have "length ?af = 0" using assms(2) by (simp add: evacuated_def PlanEvacuation_def evacuationSources_def newPlan_def Let_def)
  moreover have "\<lparr>re_User = u, re_Account = a\<rparr> \<in> set ?af" unfolding affected_entry [OF w] using assms(3-5) by simp
  ultimately show False by simp
qed

lemma evacuation_moves:
  assumes w: "wf_map routes" "wf_map states"
    and a: "map_of (pl_Assignments (PlanEvacuation routes active routable states sourceAccounts)) u = Some t"
  shows "\<exists>a s. map_of routes u = Some a \<and> has_key active u \<and> has_key (evacuationSources states sourceAccounts) a \<and>
     map_of states t = Some s \<and> ac_Eligible s \<and> \<not> has_key (evacuationSources states sourceAccounts) t"
proof -
  let ?src = "evacuationSources states sourceAccounts"
  let ?cs = "eligibleCandidates states ?src" and ?af = "affectedEntries routes active ?src"
  let ?out = "evacuateEntries states ?cs routable ?af (routedCounts routes active ?cs) (newPlan ?cs (length ?af))"
  have ev: "evacuated routable ?cs ?af (newPlan ?cs (length ?af)) ?out"
    by (rule evacuateEntries_spec) (use affected_users [OF w(1)] in \<open>simp_all add: newPlan_def has_key_def\<close>)
  have "map_of (pl_Assignments ?out) u = Some t" using a by (simp add: PlanEvacuation_def Let_def)
  then obtain e where "e \<in> set ?af" "re_User e = u" "t \<in> set ?cs"
    using ev unfolding evacuated_def by (fastforce simp: newPlan_def)
  then show ?thesis unfolding affected_entry [OF w(1)] set_eligibleCandidates [OF w(2)] by blast
qed

text \<open>A safe evacuation leaves no affected user behind, and sends nobody to a source.\<close>

lemma evacuation_complete:
  fixes routes active routable states sources
  defines "plan \<equiv> PlanEvacuation routes active routable states (Some sources)"
  assumes w: "wf_map routes" "wf_map states" and safe: "\<not> planUnsafe plan"
  shows "map_of routes u = Some a \<Longrightarrow> has_key active u \<Longrightarrow> has_key sources a \<Longrightarrow> \<exists>t. map_of (pl_Assignments plan) u = Some t"
    and "map_of (pl_Assignments plan) u = Some t \<Longrightarrow> \<not> has_key sources t \<and> has_key active u \<and> (\<exists>a. map_of routes u = Some a \<and> has_key sources a)"
proof -
  let ?cs = "eligibleCandidates states sources" and ?af = "affectedEntries routes active sources"
  let ?out = "evacuateEntries states ?cs routable ?af (routedCounts routes active ?cs) (newPlan ?cs (length ?af))"
  have asg: "pl_Assignments plan = pl_Assignments ?out" "pl_UnassignedUsers plan = pl_AffectedUsers ?out - int (length (pl_Assignments ?out))"
    by (simp_all add: plan_def PlanEvacuation_def evacuationSources_def Let_def)
  have ev: "evacuated routable ?cs ?af (newPlan ?cs (length ?af)) ?out"
    by (rule evacuateEntries_spec) (use affected_users [OF w(1)] in \<open>simp_all add: newPlan_def has_key_def\<close>)
  have moved: "\<exists>e \<in> set ?af. re_User e = v \<and> t \<in> set ?cs" if "map_of (pl_Assignments ?out) v = Some t" for v t
    using ev that unfolding evacuated_def by (fastforce simp: newPlan_def)
  have "pl_AffectedUsers ?out = int (length ?af)" using ev unfolding evacuated_def by (simp add: newPlan_def)
  then have len: "length ?af \<le> length (pl_Assignments ?out)" using safe asg(2) by (simp add: planUnsafe_def)
  have wf: "wf_map (pl_Assignments ?out)"
    using plan_of_evacuateEntries [of "\<lambda>_. True" "\<lambda>_. True" "\<lambda>_. True", OF plan_of_new] unfolding plan_of_def by blast
  have sub: "set (keys (pl_Assignments ?out)) \<subseteq> re_User ` set ?af"
    using moved wf_map_map_of [OF wf] by fastforce
  have "card (re_User ` set ?af) \<le> length ?af" by (metis card_image_le card_length finite_set le_trans)
  moreover have "card (set (keys (pl_Assignments ?out))) = length (pl_Assignments ?out)"
    using wf distinct_card [of "keys (pl_Assignments ?out)"] by (simp add: wf_map_def)
  ultimately have all: "set (keys (pl_Assignments ?out)) = re_User ` set ?af"
    using card_seteq [OF _ sub] len by simp
  show "\<exists>t. map_of (pl_Assignments plan) u = Some t" if "map_of routes u = Some a" "has_key active u" "has_key sources a"
  proof -
    have "\<lparr>re_User = u, re_Account = a\<rparr> \<in> set ?af" unfolding affected_entry [OF w(1)] using that by simp
    then have "u \<in> set (keys (pl_Assignments ?out))" unfolding all by force
    then show ?thesis unfolding asg by (metis map_of_eq_None_iff not_None_eq set_map)
  qed
  show "\<not> has_key sources t \<and> has_key active u \<and> (\<exists>a. map_of routes u = Some a \<and> has_key sources a)"
    if m: "map_of (pl_Assignments plan) u = Some t"
    using evacuation_moves [OF w m [unfolded plan_def]] by (auto simp: evacuationSources_def)
qed

section \<open>Properties\<close>

text \<open>
  C6: Moving users is atomic. Whichever call it is, an explicit move, a global rebalance or an
  evacuation: it succeeds, and then of the catalogue only routes differ, by exactly the computed
  plan, which was complete; or it returns an error, and then the routes, keys, accounts and leases
  are as they were, also when the transaction succeeded and the gateways did not follow. Internal
  keys, which the publisher synchronises, are apart. The hypotheses: the rollback's own transaction
  is not refused by the database or by the write fence, and account states carry account names.
\<close>

theorem rebalance_atomic:
  assumes c: "catalog_ok (pw_db w)" and st: "\<And>s. se_states env = Some s \<Longrightarrow> states_ok s"
    and f: "se_undo env = TxOK" "validateWriteFence (se_undoAt env) (se_fence env) (cb_leases (pw_db w)) = None"
  shows "(case MoveUser codec p env user target expected w of
            (Inl e, w') \<Rightarrow> unchanged (pw_db w) (pw_db w')
          | (Inr r, w') \<Rightarrow> routes_only (if trim_space target = trim_space expected then map_of (cb_routes (pw_db w))
                              else (map_of (cb_routes (pw_db w)))(norm_user user \<mapsto> trim_space target)) (pw_db w) (pw_db w')) \<and>
         (case RebalanceAll codec p env w of
            (Inl e, w') \<Rightarrow> unchanged (pw_db w) (pw_db w')
          | (Inr r, w') \<Rightarrow> \<exists>states plan. se_states env = Some states \<and>
              plan = PlanGlobalRebalance (ReadRoutes (pw_db w)) (activeUsersFromRecords (ReadKeyRecords (pw_db w)))
                (routableUsers (ReadKeyRecords (pw_db w)) states) states \<and>
              pl_CandidateAccounts plan \<noteq> [] \<and> \<not> planUnsafe plan \<and>
              routes_only (routesWith (pl_Assignments plan) (map_of (cb_routes (pw_db w)))) (pw_db w) (pw_db w')) \<and>
         (case evacuate codec p env sources w of
            ((r, Some e), w') \<Rightarrow> unchanged (pw_db w) (pw_db w')
          | ((r, None), w') \<Rightarrow> \<exists>states plan. se_states env = Some states \<and>
              plan = PlanEvacuation (ReadRoutes (pw_db w)) (activeUsersFromRecords (ReadKeyRecords (pw_db w)))
                (routableUsers (ReadKeyRecords (pw_db w)) states) states sources \<and>
              (pl_AffectedUsers plan = 0 \<and> w' = w \<or> pl_CandidateAccounts plan \<noteq> [] \<and> \<not> planUnsafe plan \<and>
                 routes_only (routesWith (pl_Assignments plan) (map_of (cb_routes (pw_db w)))) (pw_db w) (pw_db w')))"
proof (intro conjI)
  obtain r1 w1 where m: "MoveUser codec p env user target expected w = (r1, w1)" by fastforce
  show "case MoveUser codec p env user target expected w of
            (Inl e, w') \<Rightarrow> unchanged (pw_db w) (pw_db w')
          | (Inr r, w') \<Rightarrow> routes_only (if trim_space target = trim_space expected then map_of (cb_routes (pw_db w))
                              else (map_of (cb_routes (pw_db w)))(norm_user user \<mapsto> trim_space target)) (pw_db w) (pw_db w')"
    using MoveUser_atomic [OF c f m] by (simp add: m split: sum.splits)
  obtain r2 w2 where r: "RebalanceAll codec p env w = (r2, w2)" by fastforce
  show "case RebalanceAll codec p env w of
            (Inl e, w') \<Rightarrow> unchanged (pw_db w) (pw_db w')
          | (Inr r, w') \<Rightarrow> \<exists>states plan. se_states env = Some states \<and>
              plan = PlanGlobalRebalance (ReadRoutes (pw_db w)) (activeUsersFromRecords (ReadKeyRecords (pw_db w)))
                (routableUsers (ReadKeyRecords (pw_db w)) states) states \<and>
              pl_CandidateAccounts plan \<noteq> [] \<and> \<not> planUnsafe plan \<and>
              routes_only (routesWith (pl_Assignments plan) (map_of (cb_routes (pw_db w)))) (pw_db w) (pw_db w')"
    using RebalanceAll_atomic [OF c st f r] by (simp add: r split: sum.splits)
  obtain r3 e w3 where e: "evacuate codec p env sources w = ((r3, e), w3)" by (metis prod.exhaust)
  show "case evacuate codec p env sources w of
            ((r, Some e), w') \<Rightarrow> unchanged (pw_db w) (pw_db w')
          | ((r, None), w') \<Rightarrow> \<exists>states plan. se_states env = Some states \<and>
              plan = PlanEvacuation (ReadRoutes (pw_db w)) (activeUsersFromRecords (ReadKeyRecords (pw_db w)))
                (routableUsers (ReadKeyRecords (pw_db w)) states) states sources \<and>
              (pl_AffectedUsers plan = 0 \<and> w' = w \<or> pl_CandidateAccounts plan \<noteq> [] \<and> \<not> planUnsafe plan \<and>
                 routes_only (routesWith (pl_Assignments plan) (map_of (cb_routes (pw_db w)))) (pw_db w) (pw_db w'))"
    using evacuate_atomic [OF c st f e] by (cases e) (simp_all add: e)
qed

text \<open>The same catalogue with a second account, and a move that the gateways confirm.\<close>

definition sampleTwo :: controldb where
  "sampleTwo = snd (ApplyAccountCreation Some TxOK 10 [] (sampleCandidate\<lparr>an_ID := ''c2'', an_Email := ''d@x.y'', an_Port := 4\<rparr>) sampleRouted)"

lemma sampleTwo_code [code]:
  "sampleTwo = sampleRouted\<lparr>
     cb_accounts := cb_accounts sampleRouted @
       [(1, \<lparr>an_ID = ''c2'', an_Email = ''d@x.y'', an_Port = 4, an_ProxyMode = ''inherit'', an_CreatedAt = 10,
          an_GroupEnabled = True, an_DefaultGroup = False\<rparr>)],
     cb_keys := cb_keys sampleRouted @
       [(1, \<lparr>kr_Label = ''ann:c2'', kr_Account = ''c2'', kr_AccountEmail = ''d@x.y'', kr_User = ''ann'', kr_Status = ''active'',
          kr_Key = ''k'', kr_CreatedAt = 10, kr_UpdatedAt = 10\<rparr>)]\<rparr>"
  by code_simp

definition sampleMoved :: controldb where
  "sampleMoved = snd (ApplyRoutesExpected TxOK 12 sampleFence [(''ann'', ''c2'')] [(''ann'', ''c1'')] sampleTwo)"

lemma sampleMoved_code [code]: "sampleMoved = sampleTwo\<lparr>cb_routes := [(''ann'', ''c2'')]\<rparr>"
  by code_simp

definition moveStates :: states where
  "moveStates = [(''c2'', sample_state ''c2'' 15), (''c1'', sample_state ''c1'' 99)]"

definition moveEnv :: service_env where
  "moveEnv =
     \<lparr>se_wired = True, se_routes = True, se_keys = True, se_states = Some moveStates, se_fence = sampleFence, se_apply = TxOK, se_applyAt = 12,
      se_publish = confirmEnv,
      se_undo = TxOK, se_undoAt = 12, se_republish = sampleEnv, se_refresh = Inr [], se_window = None\<rparr>"

definition twoWorld :: published where
  "twoWorld = \<lparr>pw_db = sampleTwo, pw_file = None\<rparr>"

lemma two_reachable: "catalog_reachable Some sampleTwo"
  using step [OF sample_reachable account_created [OF surjective_pairing]] by (simp add: sampleTwo_def sampleWorld_def)

lemma two_ok:
  "catalog_ok (pw_db twoWorld)" "states_ok moveStates"
  "validateWriteFence 12 sampleFence (cb_leases (pw_db twoWorld)) = None"
proof -
  show "catalog_ok (pw_db twoWorld)" using catalog_ok_reachable [OF two_reachable] by (simp add: twoWorld_def)
  show "states_ok moveStates" by code_simp
  show "validateWriteFence 12 sampleFence (cb_leases (pw_db twoWorld)) = None" by code_simp
qed

lemma move_applied:
  "\<exists>u. ApplyRoutesExpected TxOK 12 sampleFence [(''ann'', ''c2'')] [(''ann'', ''c1'')] sampleTwo = (Inr u, sampleMoved)"
proof -
  have "\<not> isl (fst (ApplyRoutesExpected TxOK 12 sampleFence [(''ann'', ''c2'')] [(''ann'', ''c1'')] sampleTwo))" by code_simp
  then show ?thesis by (metis ran_ok sampleMoved_def snd_conv)
qed

text \<open>A move of the user to the second account whose publication fails is undone.\<close>

theorem rebalance_atomic_witness:
  "\<exists>e w'. MoveUser (confirmCodec sampleMoved) confirmPublisher (moveEnv\<lparr>se_publish := sampleEnv\<lparr>pe_reads := \<lambda>_. False\<rparr>\<rparr>) ''Ann'' ''c2'' ''c1'' twoWorld =
       (Inl (RebalanceFailed e), w') \<and> unchanged (pw_db twoWorld) (pw_db w')"
proof -
  let ?env = "moveEnv\<lparr>se_publish := sampleEnv\<lparr>pe_reads := \<lambda>_. False\<rparr>\<rparr>"
  obtain r w' where m: "MoveUser (confirmCodec sampleMoved) confirmPublisher ?env ''Ann'' ''c2'' ''c1'' twoWorld = (r, w')" by fastforce
  obtain u where u: "ApplyRoutesExpected TxOK 12 sampleFence [(''ann'', ''c2'')] [(''ann'', ''c1'')] sampleTwo = (Inr u, sampleMoved)"
    using move_applied by blast
  have n: "norm_user ''Ann'' = ''ann''" "trim_space ''c2'' = ''c2''" "trim_space ''c1'' = ''c1''" by code_simp+
  have "\<exists>e. r = Inl (RebalanceFailed e)"
    using m u by (auto simp: MoveUser_def n applyPlan_def movePlan_def publishChange_def moveEnv_def twoWorld_def PublishAuthSnapshot_def Let_def
        split: prod.splits sum.splits if_splits)
  moreover have st: "states_ok s" if "se_states ?env = Some s" for s using that two_ok(2) by (simp add: moveEnv_def)
  have undo: "se_undo ?env = TxOK" "validateWriteFence (se_undoAt ?env) (se_fence ?env) (cb_leases (pw_db twoWorld)) = None"
    using two_ok(3) by (simp_all add: moveEnv_def)
  note rebalance_atomic [OF two_ok(1) st undo, where codec = "confirmCodec sampleMoved" and p = confirmPublisher and user = "''Ann''" and target = "''c2''"
      and expected = "''c1''", THEN conjunct1]
  ultimately show ?thesis using m by auto
qed

text \<open>
  C7: An evacuation empties the account. After a successful evacuation of an account, no active
  user is routed to it; the users that were not active or were routed elsewhere keep their routes;
  and a user who was moved is now on another account. The call never reports success with a user
  left behind: it then returns that the evacuation is unsafe.
\<close>

theorem EvacuateAccount_empties:
  assumes c: "catalog_ok (pw_db w)" and st: "\<And>s. se_states env = Some s \<Longrightarrow> states_ok s"
    and f: "se_undo env = TxOK" "validateWriteFence (se_undoAt env) (se_fence env) (cb_leases (pw_db w)) = None"
    and run: "EvacuateAccount codec p env account w = ((r, None), w')"
  shows "(\<forall>u. has_key (activeUsersFromRecords (ReadKeyRecords (pw_db w'))) u \<longrightarrow>
            map_of (cb_routes (pw_db w')) u \<noteq> Some (norm_user account)) \<and>
         (\<forall>u. map_of (cb_routes (pw_db w)) u \<noteq> Some (norm_user account) \<or>
            \<not> has_key (activeUsersFromRecords (ReadKeyRecords (pw_db w))) u \<longrightarrow>
            map_of (cb_routes (pw_db w')) u = map_of (cb_routes (pw_db w)) u)"
proof -
  let ?src = "[(norm_user account, ())]" and ?act = "activeUsersFromRecords (ReadKeyRecords (pw_db w))"
  have ev: "evacuate codec p env (Some ?src) w = ((r, None), w')"
    using run by (auto simp: EvacuateAccount_def Let_def split: if_splits)
  obtain states plan where s: "se_states env = Some states"
    and plan: "plan = PlanEvacuation (ReadRoutes (pw_db w)) ?act (routableUsers (ReadKeyRecords (pw_db w)) states) states (Some ?src)"
    and cs: "pl_AffectedUsers plan = 0 \<and> w' = w \<or> pl_CandidateAccounts plan \<noteq> [] \<and> \<not> planUnsafe plan \<and>
        routes_only (routesWith (pl_Assignments plan) (map_of (cb_routes (pw_db w)))) (pw_db w) (pw_db w')"
    using evacuate_atomic(2) [OF c st f ev refl] by blast
  have wf: "wf_map (ReadRoutes (pw_db w))" "wf_map states"
    using c st [OF s] by (simp_all add: catalog_ok_def routes_ok_def states_ok_def ReadRoutes_def)
  have on: "has_key ?src a \<longleftrightarrow> a = norm_user account" for a by (auto simp: has_key_def)
  from cs show ?thesis
  proof
    assume none: "pl_AffectedUsers plan = 0 \<and> w' = w"
    have "map_of (cb_routes (pw_db w)) u \<noteq> Some (norm_user account)" if "has_key ?act u" for u
      using evacuation_none [OF wf(1), of ?act] none that unfolding plan by (metis ReadRoutes_def on)
    then show ?thesis using none by blast
  next
    assume moved: "pl_CandidateAccounts plan \<noteq> [] \<and> \<not> planUnsafe plan \<and>
        routes_only (routesWith (pl_Assignments plan) (map_of (cb_routes (pw_db w)))) (pw_db w) (pw_db w')"
    then obtain x i where x: "pw_db w' = (pw_db w)\<lparr>cb_routes := x, cb_internal := i\<rparr>"
      "map_of x = routesWith (pl_Assignments plan) (map_of (cb_routes (pw_db w)))" unfolding routes_only_def by blast
    note E = evacuation_complete [OF wf, of ?act "routableUsers (ReadKeyRecords (pw_db w)) states" ?src, folded plan,
        OF conjunct1 [OF conjunct2 [OF moved]], unfolded on, unfolded ReadRoutes_def]
    have k: "ReadKeyRecords (pw_db w') = ReadKeyRecords (pw_db w)" "map_of (cb_routes (pw_db w')) = map_of x" by (simp_all add: x(1) ReadKeyRecords_def)
    have a: "map_of x u \<noteq> Some (norm_user account)" if "has_key ?act u" for u
      using E(1) [OF _ that refl] E(2) [of u] unfolding x(2) routesWith_def by (auto split: option.splits)
    have b: "map_of x u = map_of (cb_routes (pw_db w)) u"
      if "map_of (cb_routes (pw_db w)) u \<noteq> Some (norm_user account) \<or> \<not> has_key ?act u" for u
      using E(2) [of u] that unfolding x(2) routesWith_def by (cases "map_of (pl_Assignments plan) u") auto
    show ?thesis unfolding k using a b by blast
  qed
qed

lemma moved_ok:
  "catalog_reachable Some sampleMoved" "activeRecordUsers (ReadKeyRecords sampleMoved) = [''ann'']" "cb_internal sampleMoved = []"
  "validateWriteFence 12 sampleFence (cb_leases sampleMoved) = None"
proof -
  show "catalog_reachable Some sampleMoved"
    using step [OF two_reachable routes_moved [OF surjective_pairing]] by (simp only: sampleMoved_def)
  show "activeRecordUsers (ReadKeyRecords sampleMoved) = [''ann'']" by code_simp
  show "cb_internal sampleMoved = []" by code_simp
  show "validateWriteFence 12 sampleFence (cb_leases sampleMoved) = None" by code_simp
qed

theorem EvacuateAccount_empties_witness:
  "\<exists>r w'. EvacuateAccount (confirmCodec sampleMoved) confirmPublisher moveEnv ''C1 '' twoWorld = ((r, None), w') \<and>
     map_of (cb_routes (pw_db twoWorld)) ''ann'' = Some ''c1'' \<and> map_of (cb_routes (pw_db w')) ''ann'' \<noteq> Some ''c1''"
proof -
  define plan where "plan = PlanEvacuation (ReadRoutes sampleTwo) (activeUsersFromRecords (ReadKeyRecords sampleTwo))
     (routableUsers (ReadKeyRecords sampleTwo) moveStates) moveStates (Some [(''c1'', ())])"
  have r: "ReadRoutes sampleTwo = [(''ann'', ''c1'')]" "activeUsersFromRecords (ReadKeyRecords sampleTwo) = [(''ann'', ())]"
    "routableUsers (ReadKeyRecords sampleTwo) moveStates = [(''ann'', ())]" by code_simp+
  have c: "eligibleCandidates moveStates [(''c1'', ())] = [''c2'']" by code_simp
  have af: "affectedEntries [(''ann'', ''c1'')] [(''ann'', ())] [(''c1'', ())] = [\<lparr>re_User = ''ann'', re_Account = ''c1''\<rparr>]" by code_simp
  have P: "pl_Assignments plan = [(''ann'', ''c2'')]" "pl_ExpectedRoutes plan = [(''ann'', ''c1'')]" "pl_AffectedUsers plan = 1"
    "pl_CandidateAccounts plan = [''c2'']" "\<not> planUnsafe plan"
    by (simp_all add: plan_def r c af PlanEvacuation_def planUnsafe_def evacuationSources_def leastWeightedAccount_def newPlan_def has_key_def Let_def)
  have n: "norm_user ''C1 '' = ''c1''" by code_simp
  have inp: "rebalanceInputs moveEnv (pw_db twoWorld) = Some (ReadRoutes sampleTwo, ReadKeyRecords sampleTwo, moveStates)"
    by (simp add: rebalanceInputs_def moveEnv_def twoWorld_def)
  obtain u where u: "ApplyRoutesExpected TxOK 12 sampleFence [(''ann'', ''c2'')] [(''ann'', ''c1'')] sampleTwo = (Inr u, sampleMoved)"
    using move_applied by blast
  obtain payload where pub: "PublishAuthSnapshot (confirmCodec sampleMoved) confirmPublisher sampleFence (se_publish moveEnv) True (twoWorld\<lparr>pw_db := sampleMoved\<rparr>) =
     (Inr (newGeneration (pe_uuid sampleEnv)), twoWorld\<lparr>pw_db := followed sampleMoved, pw_file := Some payload\<rparr>)" (is "_ = (_, ?w)")
    using confirm_published [OF moved_ok, of twoWorld] by (auto simp: moveEnv_def)
  have env: "se_fence moveEnv = sampleFence" "se_apply moveEnv = TxOK" "se_applyAt moveEnv = 12" "se_wired moveEnv" "pw_db twoWorld = sampleTwo"
    by (simp_all add: moveEnv_def twoWorld_def)
  have "\<exists>a. applyPlan (confirmCodec sampleMoved) confirmPublisher moveEnv plan twoWorld = (Inr a, ?w)"
    by (simp add: applyPlan_def P publishChange_def env u pub)
  then obtain a where "applyPlan (confirmCodec sampleMoved) confirmPublisher moveEnv plan twoWorld = (Inr a, ?w)" by blast
  then have run: "\<exists>r. EvacuateAccount (confirmCodec sampleMoved) confirmPublisher moveEnv ''C1 '' twoWorld = ((r, None), ?w)"
    by (simp add: EvacuateAccount_def n evacuate_def inp env(4) plan_def [symmetric] P Let_def)
  then obtain r where run: "EvacuateAccount (confirmCodec sampleMoved) confirmPublisher moveEnv ''C1 '' twoWorld = ((r, None), ?w)" by blast
  have st: "states_ok s" if "se_states moveEnv = Some s" for s using that two_ok(2) by (simp add: moveEnv_def)
  have undo: "se_undo moveEnv = TxOK" "validateWriteFence (se_undoAt moveEnv) (se_fence moveEnv) (cb_leases (pw_db twoWorld)) = None"
    using two_ok(3) by (simp_all add: moveEnv_def)
  obtain k where k: "pw_db ?w = sampleMoved\<lparr>cb_internal := k\<rparr>" using PublishAuthSnapshot_db [OF pub] by auto
  have "has_key (activeUsersFromRecords (ReadKeyRecords sampleMoved)) ''ann''" by code_simp
  then have act: "has_key (activeUsersFromRecords (ReadKeyRecords (pw_db ?w))) ''ann''" unfolding k by (simp add: ReadKeyRecords_def)
  have "map_of (cb_routes (pw_db ?w)) ''ann'' \<noteq> Some ''c1''"
    using EvacuateAccount_empties [OF two_ok(1) st undo run, THEN conjunct1, rule_format, OF _ act] n by simp
  moreover have "map_of (cb_routes (pw_db twoWorld)) ''ann'' = Some ''c1''" by code_simp
  ultimately show ?thesis using run by blast
qed

end
