(* ===== verification/Quota_Refresh.thy ===== *)
theory Quota_Refresh
  imports Failover_States
begin

text \<open>
  \<open>internal/quota/refresh.go\<close>: the round that reads every account's official quota, and the runtime
  state it leaves for the failover controller. What a round gets for an account (its OAuth record,
  its proxy, the upstream answer) is its environment; the store's answers are flags, the JSON codec
  of the state is a parameter. \<open>oauthAccountID\<close> and \<open>recoveryAllowed\<close>, which are never persisted, are
  left out.
\<close>

section \<open>Definitions\<close>

subsection \<open>Text cut to a number of runes\<close>

definition cont_byte :: "nat \<Rightarrow> nat \<Rightarrow> char \<Rightarrow> bool" where
  "cont_byte lo hi c \<longleftrightarrow> lo \<le> byte c \<and> byte c \<le> hi"

text \<open>The number of bytes of the well-formed rune a text starts with, if it starts with one.\<close>

fun rune_width :: "string \<Rightarrow> nat option" where
  "rune_width [] = None"
| "rune_width (c # s) =
     (let b = byte c; lo = (if b = 224 then 160 else if b = 240 then 144 else 128);
          hi = (if b = 237 then 159 else if b = 244 then 143 else 191)
      in if b < 128 then Some 1
         else if 194 \<le> b \<and> b \<le> 223
         then (case s of c1 # _ \<Rightarrow> if cont_byte 128 191 c1 then Some 2 else None | _ \<Rightarrow> None)
         else if 224 \<le> b \<and> b \<le> 239
         then (case s of c1 # c2 # _ \<Rightarrow> if cont_byte lo hi c1 \<and> cont_byte 128 191 c2 then Some 3 else None | _ \<Rightarrow> None)
         else if 240 \<le> b \<and> b \<le> 244
         then (case s of c1 # c2 # c3 # _ \<Rightarrow> if cont_byte lo hi c1 \<and> cont_byte 128 191 c2 \<and> cont_byte 128 191 c3 then Some 4 else None
               | _ \<Rightarrow> None)
         else None)"

text \<open>\<open>[]rune(s)\<close>, each rune as the bytes \<open>string\<close> writes for it; a stray byte is U+FFFD.\<close>

fun runesOf :: "nat \<Rightarrow> string \<Rightarrow> string list" where
  "runesOf 0 s = []"
| "runesOf (Suc n) [] = []"
| "runesOf (Suc n) (c # s) =
     (case rune_width (c # s) of
        None \<Rightarrow> [char_of (239 :: nat), char_of (191 :: nat), char_of (189 :: nat)] # runesOf n s
      | Some w \<Rightarrow> take w (c # s) # runesOf n (drop w (c # s)))"

definition boundedError :: "string option \<Rightarrow> nat \<Rightarrow> string" where
  "boundedError err maximum = (case err of None \<Rightarrow> [] | Some text0 \<Rightarrow> concat (take maximum (runesOf (length text0) text0)))"

subsection \<open>The runtime state\<close>

record QuotaState =
  qt_Version :: int
  qt_HeartbeatAt :: int64
  qt_LastSuccessAt :: int64
  qt_LastError :: string
  qt_Snapshot :: Snapshot

definition quotaStateVersion :: int where
  "quotaStateVersion = 1"

definition emptySnapshot :: Snapshot where
  "emptySnapshot = \<lparr>sn_GeneratedAt = 0, sn_CacheTTLSeconds = 0, sn_Cached = False, sn_Refreshing = False, sn_Accounts = []\<rparr>"

definition emptyQuotaState :: QuotaState where
  "emptyQuotaState = \<lparr>qt_Version = 0, qt_HeartbeatAt = 0, qt_LastSuccessAt = 0, qt_LastError = [], qt_Snapshot = emptySnapshot\<rparr>"

definition ReadState :: "(string \<Rightarrow> QuotaState option) \<Rightarrow> state_row \<Rightarrow> (QuotaState \<times> bool) option" where
  "ReadState unmarshal row =
     (case row of
        RowFault \<Rightarrow> None
      | RowMissing \<Rightarrow> Some (emptyQuotaState, False)
      | Row raw \<Rightarrow>
          if raw = [] \<or> hd raw \<noteq> CHR ''{'' then Some (emptyQuotaState, True)
          else (case unmarshal raw of
                  None \<Rightarrow> Some (emptyQuotaState, True)
                | Some state \<Rightarrow> if qt_Version state \<noteq> quotaStateVersion then Some (emptyQuotaState, True) else Some (state, True)))"

definition Healthy :: "QuotaState \<Rightarrow> bool \<Rightarrow> int64 \<Rightarrow> int \<Rightarrow> bool" where
  "Healthy state found now maxAge =
     (if \<not> found \<or> qt_Version state \<noteq> quotaStateVersion \<or> qt_HeartbeatAt state \<le> 0 \<or> qt_LastSuccessAt state \<le> 0 \<or>
         qt_LastError state \<noteq> [] \<or> maxAge \<le> 0
      then False
      else (let age = i64 (now - qt_HeartbeatAt state) in age \<ge> 0 \<and> age \<le> go_div maxAge second))"

fun numericSetting :: "goany \<Rightarrow> float64 option" where
  "numericSetting (AFloat x) = Some x"
| "numericSetting (AInt n) = Some (f64_of_int n)"
| "numericSetting (AInt64 n) = Some (f64_of_int n)"
| "numericSetting _ = None"

definition intSetting :: "goany \<Rightarrow> int64 \<Rightarrow> int64 \<Rightarrow> int64 \<Rightarrow> int64" where
  "intSetting value fallback minimum maximum =
     (case numericSetting value of
        None \<Rightarrow> fallback
      | Some x \<Rightarrow>
          if is_nan x \<or> is_inf x \<or> f64_lt x (f64_of_int minimum) \<or> f64_lt (f64_of_int maximum) x then fallback
          else f64_to_int64 x)"

definition PollInterval :: "(string \<times> goany) list \<Rightarrow> int" where
  "PollInterval settings = i64 (intSetting (obj_get (Some settings) ''account_failover.poll_seconds'') 60 30 3600 * second)"

subsection \<open>A round\<close>

text \<open>How far a round got with an account.\<close>

datatype fetched =
    OAuthMissing
  | OAuthUnreadable
  | ProxyUnresolved
  | AuthExpired
  | FetchFailed
  | FetchedPayload "(string \<times> goany) list"

fun refreshAccount :: "parse_float \<Rightarrow> string \<Rightarrow> fetched \<Rightarrow> AccountQuota" where
  "refreshAccount pf account OAuthMissing = unavailableAccount account ''auth_missing''"
| "refreshAccount pf account OAuthUnreadable = unavailableAccount account ''unavailable''"
| "refreshAccount pf account ProxyUnresolved = unavailableAccount account ''unavailable''"
| "refreshAccount pf account AuthExpired = unavailableAccount account ''auth_expired''"
| "refreshAccount pf account FetchFailed = unavailableAccount account ''unavailable''"
| "refreshAccount pf account (FetchedPayload payload) = Normalize pf account payload"

datatype refresh_error = RefresherIncomplete | RefreshAccounts | RefreshSettings | RefreshState | RefreshWrite

record refresh_env =
  rf_store :: bool
  rf_accounts :: "Account list option"
  rf_settings :: "(string \<times> goany) list option"
  rf_now :: int64
  rf_fetch :: "Account \<Rightarrow> fetched"
  rf_write :: bool

text \<open>\<open>WriteRuntimeState\<close>: the JSON of the state replaces the row, unless encoding or the transaction fails.\<close>

definition storeState :: "bool \<Rightarrow> ('s \<Rightarrow> string option) \<Rightarrow> 's \<Rightarrow> state_row \<Rightarrow> state_row option" where
  "storeState committed marshal state row =
     (case marshal state of None \<Rightarrow> None | Some raw \<Rightarrow> if committed then Some (Row raw) else None)"

text \<open>The result \<open>snapshot\<close> also comes with the error of the final write.\<close>

definition refreshOnce ::
  "parse_float \<Rightarrow> (QuotaState \<Rightarrow> string option) \<Rightarrow> refresh_env \<Rightarrow> state_row \<Rightarrow> (Snapshot \<times> refresh_error option) \<times> state_row" where
  "refreshOnce pf marshal env row =
     (if \<not> rf_store env then ((emptySnapshot, Some RefresherIncomplete), row)
      else (case rf_accounts env of
              None \<Rightarrow> ((emptySnapshot, Some RefreshAccounts), row)
            | Some accounts \<Rightarrow>
                (case rf_settings env of
                   None \<Rightarrow> ((emptySnapshot, Some RefreshSettings), row)
                 | Some settings \<Rightarrow>
                     (let result =
                            \<lparr>sn_GeneratedAt = rf_now env,
                             sn_CacheTTLSeconds = intSetting (obj_get (Some settings) ''usage.quota_cache_seconds'') 60 30 3600,
                             sn_Cached = False, sn_Refreshing = False,
                             sn_Accounts = map (\<lambda>a. refreshAccount pf (an_ID a) (rf_fetch env a)) accounts\<rparr>;
                          state =
                            \<lparr>qt_Version = quotaStateVersion, qt_HeartbeatAt = rf_now env, qt_LastSuccessAt = rf_now env,
                             qt_LastError = [], qt_Snapshot = result\<rparr>
                      in case storeState (rf_write env) marshal state row of
                           None \<Rightarrow> ((result, Some RefreshWrite), row)
                         | Some row' \<Rightarrow> ((result, None), row')))))"

text \<open>The record of a failed round keeps the last snapshot.\<close>

definition recordQuotaError ::
  "(string \<Rightarrow> QuotaState option) \<Rightarrow> (QuotaState \<Rightarrow> string option) \<Rightarrow> refresh_env \<Rightarrow> string option \<Rightarrow> state_row \<Rightarrow>
   refresh_error option \<times> state_row" where
  "recordQuotaError unmarshal marshal env runError row =
     (if \<not> rf_store env then (Some RefresherIncomplete, row)
      else (case ReadState unmarshal row of
              None \<Rightarrow> (Some RefreshState, row)
            | Some (state, found) \<Rightarrow>
                (case storeState (rf_write env) marshal
                        (state\<lparr>qt_Version := quotaStateVersion, qt_HeartbeatAt := rf_now env,
                               qt_LastError := boundedError runError 500\<rparr>) row of
                   None \<Rightarrow> (Some RefreshWrite, row)
                 | Some row' \<Rightarrow> (None, row'))))"

section \<open>Lemmas\<close>

text \<open>
  What a codec promises for a state it encodes: an object, read back as it was. For
  \<open>encoding/json\<close> that holds for states whose texts are valid UTF-8, since other bytes come back as
  replacement characters; so it is assumed of the state a row was written from, never of all.
\<close>

definition state_codec :: "('s \<Rightarrow> string option) \<Rightarrow> (string \<Rightarrow> 's option) \<Rightarrow> 's \<Rightarrow> bool" where
  "state_codec marshal unmarshal s \<longleftrightarrow>
     (\<forall>raw. marshal s = Some raw \<longrightarrow> raw \<noteq> [] \<and> hd raw = CHR ''{'' \<and> unmarshal raw = Some s)"

lemma storeState_Some: "storeState c marshal s row = Some row' \<longleftrightarrow> (\<exists>raw. c \<and> marshal s = Some raw \<and> row' = Row raw)"
  by (auto simp: storeState_def split: option.splits)

lemma read_stored:
  assumes "storeState c marshal s row = Some row'" "state_codec marshal unmarshal s" "qt_Version s = quotaStateVersion"
  shows "ReadState unmarshal row' = Some (s, True)"
  using assms by (auto simp: storeState_Some state_codec_def ReadState_def)

lemma refreshAccount_wf: "wf_quota_account (refreshAccount pf a f)"
  by (cases f) (simp_all add: wf_Normalize, simp_all add: wf_quota_account_def unavailableAccount_def)

text \<open>A round that reported no error left a healthy state with well-formed quotas, one for each account.\<close>

lemma refreshOnce_state:
  assumes "refreshOnce pf marshal env row = ((snapshot, None), row')"
    and "\<And>s raw. row' = Row raw \<Longrightarrow> marshal s = Some raw \<Longrightarrow> state_codec marshal unmarshal s" and "rf_now env > 0"
  shows "\<exists>state. ReadState unmarshal row' = Some (state, True) \<and> qt_Snapshot state = snapshot \<and> sn_GeneratedAt snapshot = rf_now env \<and>
     (\<forall>q \<in> set (sn_Accounts snapshot). wf_quota_account q) \<and>
     (\<forall>now maxAge. rf_now env \<le> now \<and> now - rf_now env < 2 ^ 63 \<and> second \<le> maxAge \<and> now - rf_now env \<le> maxAge div second \<longrightarrow>
        Healthy state True now maxAge)"
proof -
  let ?state = "\<lparr>qt_Version = quotaStateVersion, qt_HeartbeatAt = rf_now env, qt_LastSuccessAt = rf_now env,
     qt_LastError = [], qt_Snapshot = snapshot\<rparr>"
  have r: "storeState (rf_write env) marshal ?state row = Some row'" and g: "sn_GeneratedAt snapshot = rf_now env"
    and q: "\<forall>q \<in> set (sn_Accounts snapshot). wf_quota_account q"
    using assms(1) refreshAccount_wf by (auto simp: refreshOnce_def Let_def split: if_splits option.splits)
  have h: "Healthy ?state True now maxAge"
    if "rf_now env \<le> now \<and> now - rf_now env < 2 ^ 63 \<and> second \<le> maxAge \<and> now - rf_now env \<le> maxAge div second" for now maxAge
  proof -
    have "i64 (now - rf_now env) = now - rf_now env" using that assms(3) by (intro i64_id) (simp add: in_i64_def)
    moreover have "0 < maxAge" "go_div maxAge second = maxAge div second" using that by (auto simp: go_div_def second_def)
    ultimately show ?thesis using that assms(3) by (simp add: Healthy_def)
  qed
  have "ReadState unmarshal row' = Some (?state, True)" 
  proof (rule read_stored [OF r])
    show "state_codec marshal unmarshal ?state" using r assms(2) by (auto simp: storeState_Some)
  qed simp
  then show ?thesis using g q h by (intro exI [of _ ?state]) simp
qed

end
