(* ===== verification/Controller.thy ===== *)
theory Controller
  imports Failover_Service Quota_Refresh
begin

text \<open>
  \<open>internal/failover/controller.go\<close>: the loop body of the failover process. One run reads the
  settings, its own persisted state and the state of the quota refresher, decides whether a check is
  due, computes the capacity of every account, evacuates the exhausted ones through the service,
  and persists what it saw and did. The environment holds the answers of the store, the runtime
  probe and the audit log; the codecs of the two persisted states are parameters.
\<close>

section \<open>Definitions\<close>

subsection \<open>Settings and small helpers\<close>

definition modeSetting :: "goany \<Rightarrow> string" where
  "modeSetting value =
     (case value of
        AString raw \<Rightarrow>
          if trim_space raw = [] then ModeActive
          else (case ParseMode raw of None \<Rightarrow> ModeOff | Some mode \<Rightarrow> mode)
      | _ \<Rightarrow> ModeActive)"

definition percentageSetting :: "goany \<Rightarrow> float64 \<Rightarrow> float64" where
  "percentageSetting value fallback =
     (case numericSetting value of
        None \<Rightarrow> fallback
      | Some x \<Rightarrow> if is_nan x \<or> is_inf x \<or> f64_lt x (Finite 0) \<or> f64_lt (Finite 50) x then fallback else x)"

definition timestampAge :: "int64 option \<Rightarrow> int64 \<Rightarrow> int64" where
  "timestampAge timestamp now =
     (case timestamp of None \<Rightarrow> 2 ^ 63 - 1 | Some t \<Rightarrow> if t > now then 2 ^ 63 - 1 else i64 (now - t))"

definition latestObservedAt :: "states \<Rightarrow> int64" where
  "latestObservedAt states = fold (\<lambda>(account, s) latest. if ac_ObservedAt s > latest then ac_ObservedAt s else latest) states 0"

text \<open>\<open>ActiveUserWindowFromSettings\<close> of \<open>internal/usage/store.go\<close>, in nanoseconds.\<close>

definition DefaultActiveUserWindow :: int where
  "DefaultActiveUserWindow = 15 * 60 * second"

fun windowSeconds :: "goany \<Rightarrow> int64" where
  "windowSeconds (AInt n) = n"
| "windowSeconds (AInt64 n) = n"
| "windowSeconds (AFloat x) = f64_to_int64 x"
| "windowSeconds _ = 0"

definition ActiveUserWindowFromSettings :: "(string \<times> goany) list \<Rightarrow> int" where
  "ActiveUserWindowFromSettings settings =
     (let seconds = windowSeconds (obj_get (Some settings) ''usage.active_user_window_seconds'')
      in if seconds < 60 \<or> seconds > 24 * 60 * 60 then DefaultActiveUserWindow else seconds * second)"

definition formatCounts :: "(string, int) gomap \<Rightarrow> string" where
  "formatCounts values = join_strings '','' (map (\<lambda>k. k @ '':'' @ formatInt (gcount values k)) (sort (keys values)))"

definition formatMigrationTarget :: "(string, int) gomap \<Rightarrow> (string, int) gomap \<Rightarrow> string" where
  "formatMigrationTarget sources destinations = formatCounts sources @ '' -> '' @ formatCounts destinations"

definition formatCapacityTarget :: "PlanSummary \<Rightarrow> string" where
  "formatCapacityTarget plan = formatCounts (ps_Sources plan) @ '' unassigned:'' @ formatInt (ps_UnassignedUsers plan)"

definition joinWarnings :: "string list \<Rightarrow> string" where
  "joinWarnings values = join_strings ''; '' (filter (\<lambda>v. v \<noteq> []) (map trim_space values))"

text \<open>Two plans are deeply equal when their maps have the same entries.\<close>

definition sameCounts :: "(string, int) gomap \<Rightarrow> (string, int) gomap \<Rightarrow> bool" where
  "sameCounts m n \<longleftrightarrow> list_all (\<lambda>k. map_of m k = map_of n k) (keys m @ keys n)"

definition previousPlanChanged :: "PlanSummary option \<Rightarrow> PlanSummary \<Rightarrow> bool" where
  "previousPlanChanged previous current =
     (case previous of
        None \<Rightarrow> True
      | Some p \<Rightarrow> \<not> (sameCounts (ps_Sources p) (ps_Sources current) \<and> sameCounts (ps_Destinations p) (ps_Destinations current) \<and>
          ps_CandidateAccounts p = ps_CandidateAccounts current \<and> ps_AffectedUsers p = ps_AffectedUsers current \<and>
          ps_PlannedUsers p = ps_PlannedUsers current \<and> ps_SkippedUsers p = ps_SkippedUsers current \<and>
          ps_UnassignedUsers p = ps_UnassignedUsers current))"

subsection \<open>Errors\<close>

datatype controller_error =
    ControllerStore
  | ControllerSettings
  | ControllerState
  | DependenciesIncomplete
  | CollectInputs string
  | ProbeRuntimes string
  | ErrQuotaStateUnavailable
  | EvacuationFailed rebalance_error string
  | StateWrite

text \<open>
  The text of an error that is recorded in the state: the constant part the source gives, then the
  text of the cause, which is a parameter of the error.
\<close>

definition evacuationText :: "rebalance_error \<Rightarrow> string \<Rightarrow> string" where
  "evacuationText e cause =
     (case e of
        RebalanceIncomplete \<Rightarrow> ''account evacuation dependencies are incomplete''
      | MoveInvalid \<Rightarrow> cause @ '': source account is required''
      | RebalanceInputs \<Rightarrow> ''collect account evacuation inputs: '' @ cause
      | ErrRebalanceUnavailable \<Rightarrow> ''account rebalance has no eligible capacity''
      | ErrRebalanceUnsafe n m \<Rightarrow> ''account rebalance is unsafe: '' @ formatInt n @ '' of '' @ formatInt m @ '' active users cannot be moved safely''
      | RebalanceFailed (ChangeFailed c) \<Rightarrow> ''apply account rebalance routes: '' @ cause
      | RebalanceFailed (PublishFailed p u a) \<Rightarrow> ''publish account rebalance snapshot: '' @ cause)"

definition errorText :: "controller_error \<Rightarrow> string" where
  "errorText e =
     (case e of
        DependenciesIncomplete \<Rightarrow> ''active account failover dependencies are incomplete''
      | CollectInputs cause \<Rightarrow> ''collect account failover inputs: '' @ cause
      | ProbeRuntimes cause \<Rightarrow> ''probe account runtimes: '' @ cause
      | ErrQuotaStateUnavailable \<Rightarrow> ''official quota state is unavailable or stale''
      | EvacuationFailed r cause \<Rightarrow> evacuationText r cause
      | _ \<Rightarrow> [])"

subsection \<open>The persisted state\<close>

record controller_env =
  ce_store :: bool
  ce_settings :: "(string \<times> goany) list option"
  ce_now :: int64
  ce_read :: bool
  ce_quota :: state_row
  ce_wired :: bool
  ce_accounts :: bool
  ce_probe :: "Account list \<Rightarrow> string + (string, bool) gomap"
  ce_windowed :: bool
  ce_settingsAgain :: "(string \<times> goany) list option"
  ce_service :: service_env
  ce_cause :: string
  ce_audit :: "(string \<Rightarrow> string \<Rightarrow> string option) option"
  ce_write :: bool

record state_codecs =
  sc_marshal :: "RuntimeState \<Rightarrow> string option"
  sc_unmarshal :: "string \<Rightarrow> RuntimeState option"
  sc_quota :: "string \<Rightarrow> QuotaState option"

record controlled =
  cw_world :: published
  cw_row :: state_row

definition HealthyRuntimeState :: "RuntimeState \<Rightarrow> bool \<Rightarrow> int64 \<Rightarrow> int \<Rightarrow> bool" where
  "HealthyRuntimeState state found now maxAge =
     (case ft_HeartbeatAt state of
        None \<Rightarrow> False
      | Some heartbeat \<Rightarrow>
          if \<not> found \<or> ft_Version state \<noteq> RuntimeStateVersion \<or> heartbeat \<le> 0 \<or> ft_LastError state \<noteq> [] \<or> maxAge \<le> 0 then False
          else (let age = i64 (now - heartbeat)
                in if age < 0 \<or> age > go_div maxAge second then False
                   else if ft_Mode state = ModeOff then True
                   else ft_Mode state = ModeActive \<and> (case ft_LastSuccessAt state of None \<Rightarrow> False | Some t \<Rightarrow> t > 0)))"

definition writtenState :: "RuntimeState \<Rightarrow> RuntimeState" where
  "writtenState state =
     state\<lparr>ft_Version := RuntimeStateVersion,
           ft_Mode := (if ft_Mode state \<noteq> ModeOff \<and> ft_Mode state \<noteq> ModeActive then ModeOff else ft_Mode state)\<rparr>"

definition writeState :: "state_codecs \<Rightarrow> controller_env \<Rightarrow> RuntimeState \<Rightarrow> controlled \<Rightarrow> controller_error option \<times> controlled" where
  "writeState codecs env state w =
     (case storeState (ce_write env) (sc_marshal codecs) (writtenState state) (cw_row w) of
        None \<Rightarrow> (Some StateWrite, w)
      | Some row \<Rightarrow> (None, w\<lparr>cw_row := row\<rparr>))"

text \<open>The error of a failed write is joined to the one being recorded.\<close>

definition recordRunError ::
  "state_codecs \<Rightarrow> controller_env \<Rightarrow> RuntimeState \<Rightarrow> int \<Rightarrow> controller_error \<Rightarrow> controlled \<Rightarrow> controller_error list \<times> controlled" where
  "recordRunError codecs env state pollInterval runError w =
     (case writeState codecs env
             (state\<lparr>ft_HeartbeatAt := Some (ce_now env), ft_LastCheckAt := Some (ce_now env),
                    ft_NextCheckAt := Some (i64 (ce_now env + go_div pollInterval second)), ft_QuotaRefreshing := False,
                    ft_LastError := boundedError (Some (errorText runError)) 500\<rparr>) w of
        (None, w') \<Rightarrow> ([runError], w')
      | (Some writeError, w') \<Rightarrow> ([runError, writeError], w'))"

definition auditWarning :: "controller_env \<Rightarrow> string \<Rightarrow> string \<Rightarrow> string" where
  "auditWarning env action target0 =
     (case ce_audit env of
        None \<Rightarrow> []
      | Some record0 \<Rightarrow> (case record0 action target0 of None \<Rightarrow> [] | Some e \<Rightarrow> ''audit write failed: '' @ e))"

subsection \<open>A run\<close>

record ControllerResult =
  cr_Mode :: string
  cr_Checked :: bool
  cr_MovedUsers :: int
  cr_Plan :: "PlanSummary option"
  cr_CapacityUnavailable :: bool
  cr_Warning :: string

definition controllerResult :: "string \<Rightarrow> ControllerResult" where
  "controllerResult mode =
     \<lparr>cr_Mode = mode, cr_Checked = False, cr_MovedUsers = 0, cr_Plan = None, cr_CapacityUnavailable = False, cr_Warning = []\<rparr>"

type_synonym controller_answer = "(ControllerResult \<times> controller_error list) \<times> controlled"

text \<open>The report and the state of a check that was not refused.\<close>

definition checkOutcome ::
  "controller_env \<Rightarrow> PlanSummary option \<Rightarrow> RuntimeState \<Rightarrow> ControllerResult \<Rightarrow> EvacuationResult \<Rightarrow> bool \<Rightarrow>
   ControllerResult \<times> RuntimeState" where
  "checkOutcome env previousPlan state result evacuation capacityUnavailable =
     (let plan = er_Plan evacuation;
          moved = rr_MovedUsers (er_Rebalance evacuation);
          state = state\<lparr>ft_LastSuccessAt := Some (ce_now env), ft_LastError := []\<rparr>
      in if capacityUnavailable
         then (result\<lparr>cr_CapacityUnavailable := True,
                 cr_Warning :=
                   (if previousPlanChanged previousPlan plan
                    then joinWarnings [''exhausted accounts have users that cannot be migrated safely'',
                           auditWarning env ''account.failover.capacity_unavailable'' (formatCapacityTarget plan)]
                    else ''exhausted accounts have users that cannot be migrated safely'')\<rparr>, state)
         else if moved > 0
         then (result\<lparr>cr_MovedUsers := moved,
                 cr_Warning := joinWarnings [rr_Warning (er_Rebalance evacuation),
                   auditWarning env ''account.failover.rebalance''
                     (formatMigrationTarget (ps_Sources plan) (rr_Destinations (er_Rebalance evacuation)))]\<rparr>,
               state\<lparr>ft_LastAction := Some
                 \<lparr>am_At = ce_now env, am_Trigger = ''automatic'', am_Sources = ps_Sources plan,
                  am_Destinations = rr_Destinations (er_Rebalance evacuation), am_MovedUsers = moved,
                  am_SnapshotGeneration = rr_SnapshotGeneration (er_Rebalance evacuation)\<rparr>\<rparr>)
         else (result\<lparr>cr_MovedUsers := moved, cr_Warning := rr_Warning (er_Rebalance evacuation)\<rparr>, state))"

definition capacityError :: "rebalance_error \<Rightarrow> bool" where
  "capacityError e = (case e of ErrRebalanceUnavailable \<Rightarrow> True | ErrRebalanceUnsafe n m \<Rightarrow> True | _ \<Rightarrow> False)"

text \<open>After the evacuation: what is persisted and reported (\<open>run\<close>, from the call of the service on).\<close>

definition finishCheck ::
  "state_codecs \<Rightarrow> controller_env \<Rightarrow> int \<Rightarrow> PlanSummary option \<Rightarrow> RuntimeState \<Rightarrow> ControllerResult \<Rightarrow>
   EvacuationResult \<Rightarrow> rebalance_error option \<Rightarrow> controlled \<Rightarrow> controller_answer" where
  "finishCheck codecs env pollInterval previousPlan state0 result0 evacuation evacuationError w =
     (let result = result0\<lparr>cr_Plan := Some (er_Plan evacuation)\<rparr>;
          state = state0\<lparr>ft_LastPlan := Some (er_Plan evacuation)\<rparr>;
          succeeded = (\<lambda>capacityUnavailable.
            case checkOutcome env previousPlan state result evacuation capacityUnavailable of
              (report, final) \<Rightarrow>
                (case writeState codecs env final w of
                   (Some e, w') \<Rightarrow> ((report, [e]), w')
                 | (None, w') \<Rightarrow> ((report, []), w')))
      in case evacuationError of
           None \<Rightarrow> succeeded False
         | Some e \<Rightarrow>
             if capacityError e then succeeded True
             else (case recordRunError codecs env state pollInterval (EvacuationFailed e (ce_cause env)) w of
                     (errs, w') \<Rightarrow> ((result, errs), w')))"

definition serviceEnv :: "controller_env \<Rightarrow> states \<Rightarrow> service_env" where
  "serviceEnv env states =
     (ce_service env)\<lparr>se_wired := True, se_states := Some states,
        se_window := (case (ce_windowed env, ce_settingsAgain env) of
                        (True, Some settings) \<Rightarrow> Some (nat (ActiveUserWindowFromSettings settings div (60 * second)))
                      | _ \<Rightarrow> se_window (ce_service env))\<rparr>"

text \<open>A check that is due, with the quota state as it was read.\<close>

definition runCheck ::
  "publish_codec \<Rightarrow> publisher \<Rightarrow> state_codecs \<Rightarrow> controller_env \<Rightarrow> (string \<times> goany) list \<Rightarrow> PlanSummary option \<Rightarrow> RuntimeState \<Rightarrow>
   (QuotaState \<times> bool) option \<Rightarrow> controlled \<Rightarrow> controller_answer" where
  "runCheck codec p codecs env settings previousPlan state quotaRead w =
     (let pollInterval = durationSetting (obj_get (Some settings) ''account_failover.poll_seconds'') (60 * second);
          staleAfter = durationSetting (obj_get (Some settings) ''account_failover.stale_after_seconds'') defaultAccountStateStaleAfter;
          reserve = percentageSetting (obj_get (Some settings) ''account_failover.reserve_percent'') (Finite 5);
          result = controllerResult (ft_Mode state);
          failed = (\<lambda>state result e. case recordRunError codecs env state pollInterval e w of (errs, w') \<Rightarrow> ((result, errs), w'))
      in if \<not> ce_wired env then failed state result DependenciesIncomplete
         else (case quotaRead of
                 None \<Rightarrow> failed state result (CollectInputs (ce_cause env))
               | Some (quotaState, quotaFound) \<Rightarrow>
                   if \<not> ce_accounts env then failed state result (CollectInputs (ce_cause env))
                   else (let accounts = ReadAccounts (pw_db (cw_world w))
                         in case ce_probe env accounts of
                              Inl cause \<Rightarrow> failed state result (ProbeRuntimes cause)
                            | Inr running \<Rightarrow>
                                (let states = BuildAccountStates accounts (qt_Snapshot quotaState) running (ce_now env) staleAfter reserve;
                                     state = state\<lparr>ft_Accounts := states, ft_LastCheckAt := Some (ce_now env),
                                               ft_NextCheckAt := Some (i64 (ce_now env + go_div pollInterval second))\<rparr>;
                                     result = result\<lparr>cr_Checked := True\<rparr>
                                 in if \<not> Healthy quotaState quotaFound (ce_now env) staleAfter
                                    then failed state result ErrQuotaStateUnavailable
                                    else (case EvacuateExhausted codec p (serviceEnv env states) (cw_world w) of
                                            ((evacuation, evacuationError), world) \<Rightarrow>
                                              finishCheck codecs env pollInterval previousPlan state result evacuation evacuationError
                                                (w\<lparr>cw_world := world\<rparr>))))))"

definition controllerRun ::
  "publish_codec \<Rightarrow> publisher \<Rightarrow> state_codecs \<Rightarrow> controller_env \<Rightarrow> bool \<Rightarrow> controlled \<Rightarrow> controller_answer" where
  "controllerRun codec p codecs env force w =
     (let empty = \<lparr>cr_Mode = [], cr_Checked = False, cr_MovedUsers = 0, cr_Plan = None, cr_CapacityUnavailable = False, cr_Warning = []\<rparr>
      in if \<not> ce_store env then ((empty, [ControllerStore]), w)
         else (case ce_settings env of
                 None \<Rightarrow> ((empty, [ControllerSettings]), w)
               | Some settings \<Rightarrow>
                   (case ReadRuntimeState (sc_unmarshal codecs) (if ce_read env then cw_row w else RowFault) of
                      None \<Rightarrow> ((empty, [ControllerState]), w)
                    | Some (previous, found) \<Rightarrow>
                        (let mode = modeSetting (obj_get (Some settings) ''account_failover.mode'');
                             pollInterval = durationSetting (obj_get (Some settings) ''account_failover.poll_seconds'') (60 * second);
                             previousHeartbeatAge = timestampAge (ft_HeartbeatAt previous) (ce_now env);
                             state = previous\<lparr>ft_Mode := mode, ft_HeartbeatAt := Some (ce_now env), ft_QuotaRefreshing := False\<rparr>;
                             result = controllerResult mode;
                             wrote = (\<lambda>state. case writeState codecs env state w of
                                        (Some e, w') \<Rightarrow> ((result, [e]), w')
                                      | (None, w') \<Rightarrow> ((result, []), w'));
                             quotaRead = ReadState (sc_quota codecs) (ce_quota env);
                             quotaChanged = (case quotaRead of
                                None \<Rightarrow> False
                              | Some (q, found) \<Rightarrow> found \<and> sn_GeneratedAt (qt_Snapshot q) > latestObservedAt (ft_Accounts state))
                         in if mode = ModeOff
                            then (if force \<or> ft_Mode previous \<noteq> mode \<or> previousHeartbeatAge \<ge> 60
                                  then wrote (state\<lparr>ft_NextCheckAt := None, ft_LastError := []\<rparr>)
                                  else ((result, []), w))
                            else if \<not> force \<and> ft_Mode previous = mode \<and>
                                    (case ft_LastCheckAt state of None \<Rightarrow> False
                                     | Some t \<Rightarrow> ce_now env < i64 (t + go_div pollInterval second)) \<and> \<not> quotaChanged
                            then (if previousHeartbeatAge \<ge> 60 then wrote state else ((result, []), w))
                            else runCheck codec p codecs env settings (ft_LastPlan previous) state quotaRead w))))"

definition RunOnce where "RunOnce codec p codecs env w = controllerRun codec p codecs env False w"

definition RunForced where "RunForced codec p codecs env w = controllerRun codec p codecs env True w"

section \<open>Lemmas\<close>

subsection \<open>What is persisted\<close>

lemma rune_width_pos: "rune_width s = Some w \<Longrightarrow> 0 < w"
  by (cases s) (auto simp: Let_def split: if_splits list.splits)

lemma boundedError_nonempty:
  assumes "t \<noteq> []" "0 < n"
  shows "boundedError (Some t) n \<noteq> []"
proof -
  obtain c cs where t: "t = c # cs" using assms(1) by (cases t) auto
  obtain r rs where r: "runesOf (length t) t = r # rs" "r \<noteq> []"
  proof (cases "rune_width (c # cs)")
    case None
    then show ?thesis using that by (simp add: t)
  next
    case (Some w)
    then show ?thesis using that rune_width_pos [OF Some] by (simp add: t)
  qed
  then show ?thesis using assms(2) by (cases n) (simp_all add: boundedError_def)
qed

lemma evacuationText_nonempty: "evacuationText e cause \<noteq> []"
  by (auto simp: evacuationText_def split: rebalance_error.splits change_error.splits)

lemma errorText_nonempty:
  "e \<notin> {ControllerStore, ControllerSettings, ControllerState, StateWrite} \<Longrightarrow> errorText e \<noteq> []"
  using evacuationText_nonempty by (auto simp: errorText_def split: controller_error.splits)

lemma writtenState_mode: "ft_Mode (writtenState s) = ModeOff \<or> ft_Mode (writtenState s) = ModeActive"
  by (simp add: writtenState_def)

text \<open>
  What a reader of the row relies on: the state whose encoding is in it is read back as it was. For
  \<open>encoding/json\<close> that is so when the texts of the state are valid UTF-8; other bytes would come
  back as replacement characters.
\<close>

definition row_reads_back :: "state_codecs \<Rightarrow> state_row \<Rightarrow> bool" where
  "row_reads_back codecs row \<longleftrightarrow>
     (\<forall>s raw. row = Row raw \<and> sc_marshal codecs s = Some raw \<longrightarrow> state_codec (sc_marshal codecs) (sc_unmarshal codecs) s)"

lemma writeState_read:
  assumes "writeState codecs env state w = (None, w')" "row_reads_back codecs (cw_row w')"
  shows "ReadRuntimeState (sc_unmarshal codecs) (cw_row w') = Some (writtenState state, True)" "cw_world w' = cw_world w"
proof -
  obtain raw where raw: "sc_marshal codecs (writtenState state) = Some raw" "w' = w\<lparr>cw_row := Row raw\<rparr>"
    using assms(1) by (auto simp: writeState_def storeState_Some split: option.splits)
  then have "raw \<noteq> []" "hd raw = CHR ''{''" "sc_unmarshal codecs raw = Some (writtenState state)"
    using assms(2) by (auto simp: row_reads_back_def state_codec_def)
  moreover have "ft_Version (writtenState state) = RuntimeStateVersion" by (simp add: writtenState_def)
  ultimately show "ReadRuntimeState (sc_unmarshal codecs) (cw_row w') = Some (writtenState state, True)"
    using writtenState_mode [of state] by (auto simp: raw(2) ReadRuntimeState_def)
  show "cw_world w' = cw_world w" by (simp add: raw(2))
qed

lemma writeState_cases: "fst (writeState codecs env state w) = None \<or> fst (writeState codecs env state w) = Some StateWrite"
  by (auto simp: writeState_def split: option.splits)

text \<open>What a run owes its readers: the state it wrote is healthy exactly when it reported no error.\<close>

definition honest :: "state_codecs \<Rightarrow> controller_env \<Rightarrow> int \<Rightarrow> controller_error list \<Rightarrow> controlled \<Rightarrow> bool" where
  "honest codecs env maxAge errs w \<longleftrightarrow>
     StateWrite \<in> set errs \<or>
     (\<exists>st. ReadRuntimeState (sc_unmarshal codecs) (cw_row w) = Some (st, True) \<and> ft_HeartbeatAt st = Some (ce_now env) \<and>
        (HealthyRuntimeState st True (ce_now env) maxAge \<longleftrightarrow> errs = []))"

lemma recordRunError_honest:
  assumes "recordRunError codecs env state poll e w = (errs, w')" "row_reads_back codecs (cw_row w')"
    and "e \<notin> {ControllerStore, ControllerSettings, ControllerState, StateWrite}"
  shows "errs \<noteq> []" "cw_world w' = cw_world w" "honest codecs env maxAge errs w'"
proof -
  let ?s = "state\<lparr>ft_HeartbeatAt := Some (ce_now env), ft_LastCheckAt := Some (ce_now env),
     ft_NextCheckAt := Some (i64 (ce_now env + go_div poll second)), ft_QuotaRefreshing := False,
     ft_LastError := boundedError (Some (errorText e)) 500\<rparr>"
  obtain f w1 where f: "writeState codecs env ?s w = (f, w1)" by fastforce
  have "f = None \<or> f = Some StateWrite" using writeState_cases [of codecs env ?s w] f by simp
  then show "errs \<noteq> []" "cw_world w' = cw_world w" "honest codecs env maxAge errs w'"
  proof -
    show "errs \<noteq> []" using assms(1) f by (cases f) (auto simp: recordRunError_def)
    show "cw_world w' = cw_world w"
      using assms(1) f by (cases f) (auto simp: recordRunError_def writeState_def split: option.splits)
    assume fc: "f = None \<or> f = Some StateWrite"
    show "honest codecs env maxAge errs w'"
    proof (cases f)
      case None
      then have e: "errs = [e]" "w' = w1" using assms(1) f by (auto simp: recordRunError_def)
      have "boundedError (Some (errorText e)) 500 \<noteq> []"
        by (rule boundedError_nonempty [OF errorText_nonempty [OF assms(3)]]) simp
      then have "\<not> HealthyRuntimeState (writtenState ?s) True (ce_now env) maxAge"
        by (simp add: HealthyRuntimeState_def writtenState_def)
      moreover have "ft_HeartbeatAt (writtenState ?s) = Some (ce_now env)" by (simp add: writtenState_def)
      ultimately show ?thesis using writeState_read(1) [OF f [unfolded None]] assms(2) unfolding honest_def e by blast
    next
      case (Some x)
      then have "errs = [e, StateWrite]" using assms(1) f fc by (auto simp: recordRunError_def)
      then show ?thesis by (simp add: honest_def)
    qed
  qed
qed

lemma success_honest:
  assumes "writeState codecs env state w = (f, w')" "row_reads_back codecs (cw_row w')"
    and "ft_Mode state = ModeActive" "ft_HeartbeatAt state = Some (ce_now env)" "ft_LastSuccessAt state = Some (ce_now env)"
      "ft_LastError state = []" and "0 < ce_now env" "0 < maxAge"
  shows "honest codecs env maxAge (case f of None \<Rightarrow> [] | Some e \<Rightarrow> [e]) w'" "cw_world w' = cw_world w"
proof -
  show "cw_world w' = cw_world w" using assms(1) by (auto simp: writeState_def split: option.splits)
  show "honest codecs env maxAge (case f of None \<Rightarrow> [] | Some e \<Rightarrow> [e]) w'"
  proof (cases f)
    case None
    have "0 \<le> go_div maxAge second" using assms(8) by (simp add: go_div_def second_def)
    then have "HealthyRuntimeState (writtenState state) True (ce_now env) maxAge"
      using assms(3-8) by (simp add: HealthyRuntimeState_def writtenState_def i64_def)
    moreover have "ft_HeartbeatAt (writtenState state) = Some (ce_now env)" using assms(4) by (simp add: writtenState_def)
    ultimately show ?thesis using writeState_read(1) [OF assms(1) [unfolded None] assms(2)] unfolding honest_def None by auto
  next
    case (Some e)
    then have "e = StateWrite" using writeState_cases [of codecs env state w] assms(1) by simp
    then show ?thesis using Some by (simp add: honest_def)
  qed
qed

lemma checkOutcome_state:
  assumes "checkOutcome env previous state result ev cap = (report, final)"
  shows "ft_Mode final = ft_Mode state" "ft_HeartbeatAt final = ft_HeartbeatAt state" "ft_LastSuccessAt final = Some (ce_now env)"
    "ft_LastError final = []"
  using assms by (auto simp: checkOutcome_def Let_def split: if_splits)

lemma finishCheck_honest:
  assumes run: "finishCheck codecs env poll previous state result ev err w = ((r, errs), w')"
    and c: "row_reads_back codecs (cw_row w')"
    and st: "ft_Mode state = ModeActive" "ft_HeartbeatAt state = Some (ce_now env)" and t: "0 < ce_now env" "0 < maxAge"
  shows "honest codecs env maxAge errs w'" "cw_world w' = cw_world w"
proof -
  have "honest codecs env maxAge errs w' \<and> cw_world w' = cw_world w"
  proof (cases "\<exists>e. err = Some e \<and> \<not> capacityError e")
    case True
    then obtain e where e: "err = Some e" "\<not> capacityError e" by blast
    obtain es w1 where r: "recordRunError codecs env (state\<lparr>ft_LastPlan := Some (er_Plan ev)\<rparr>) poll (EvacuationFailed e (ce_cause env)) w = (es, w1)"
      by fastforce
    have "errs = es" "w' = w1" using run e r unfolding finishCheck_def Let_def by simp_all
    then show ?thesis using recordRunError_honest [OF r] c by simp
  next
    case False
    obtain report final where o: "checkOutcome env previous (state\<lparr>ft_LastPlan := Some (er_Plan ev)\<rparr>)
        (result\<lparr>cr_Plan := Some (er_Plan ev)\<rparr>) ev (err \<noteq> None) = (report, final)" by fastforce
    obtain f w1 where wr: "writeState codecs env final w = (f, w1)" by fastforce
    have "errs = (case f of None \<Rightarrow> [] | Some e \<Rightarrow> [e]) \<and> w' = w1"
      using run False o wr unfolding finishCheck_def Let_def by (auto split: option.splits)
    then show ?thesis
      using success_honest [OF wr _ _ _ checkOutcome_state(3,4) [OF o] t] checkOutcome_state(1,2) [OF o] st c by simp
  qed
  then show "honest codecs env maxAge errs w'" "cw_world w' = cw_world w" by blast+
qed

lemma runCheck_honest:
  assumes run: "runCheck codec p codecs env settings previous state quotaRead w = ((r, errs), w')"
    and c: "row_reads_back codecs (cw_row w')"
    and st: "ft_Mode state = ModeActive" "ft_HeartbeatAt state = Some (ce_now env)" and t: "0 < ce_now env" "0 < maxAge"
  shows "honest codecs env maxAge errs w'"
proof -
  have rec: "honest codecs env maxAge errs w'"
    if "(case recordRunError codecs env s poll e w of (errs, w') \<Rightarrow> ((res, errs), w')) = ((r, errs), w')"
      "e \<notin> {ControllerStore, ControllerSettings, ControllerState, StateWrite}" for s poll e res
    using recordRunError_honest(3) [OF _ c that(2)] that(1) by (auto split: prod.splits)
  show ?thesis
  proof (cases "ce_wired env \<and> quotaRead \<noteq> None \<and> ce_accounts env \<and> (\<exists>x. ce_probe env (ReadAccounts (pw_db (cw_world w))) = Inr x)")
    case False
    then show ?thesis using run rec unfolding runCheck_def Let_def by (auto split: if_splits option.splits sum.splits)
  next
    case True
    then obtain q found running where q: "quotaRead = Some (q, found)" "ce_probe env (ReadAccounts (pw_db (cw_world w))) = Inr running" by auto
    show ?thesis
    proof (cases "Healthy q found (ce_now env) (durationSetting (obj_get (Some settings) ''account_failover.stale_after_seconds'') defaultAccountStateStaleAfter)")
      case False
      then show ?thesis using run True q rec unfolding runCheck_def Let_def by simp
    next
      case healthy: True
      show ?thesis using run True q healthy finishCheck_honest(1) [OF _ c _ _ t] st unfolding runCheck_def Let_def
        by (auto split: prod.splits)
    qed
  qed
qed

subsection \<open>What a run does to the catalogue\<close>

lemma writeState_world: "writeState codecs env state w = (f, w') \<Longrightarrow> cw_world w' = cw_world w"
  by (auto simp: writeState_def split: option.splits)

lemma recordRunError_world: "recordRunError codecs env state poll e w = (errs, w') \<Longrightarrow> cw_world w' = cw_world w"
  by (auto simp: recordRunError_def dest: writeState_world split: prod.splits option.splits)

lemma finishCheck_world: "finishCheck codecs env poll previous state result ev err w = (x, w') \<Longrightarrow> cw_world w' = cw_world w"
  by (auto simp: finishCheck_def Let_def dest: writeState_world recordRunError_world split: option.splits if_splits prod.splits)

lemma wf_BuildAccountStates: "wf_map (BuildAccountStates accounts snapshot running now stale reserve)"
proof -
  have "wf_map m \<Longrightarrow> wf_map (fold (\<lambda>a m. AList.update (an_ID a) (f a) m) accounts m)" for f :: "Account \<Rightarrow> AccountState" and m
    by (induction accounts arbitrary: m) auto
  then show ?thesis by (simp add: BuildAccountStates_def Let_def)
qed

lemma catalog_account_ids:
  assumes "catalog_ok db"
  shows "distinct (map an_ID (ReadAccounts db))" "\<forall>a \<in> set (ReadAccounts db). accountIDPattern (an_ID a)"
proof -
  have i: "an_ID (readProxyMode a) = an_ID a" for a by (simp add: readProxyMode_def)
  have "map an_ID (ReadAccounts db) = map (an_ID \<circ> snd) (cb_accounts db)" by (simp add: ReadAccounts_def i case_prod_beta)
  then show "distinct (map an_ID (ReadAccounts db))" using assms by (simp add: catalog_ok_def accounts_ok_def account_table_def)
  show "\<forall>a \<in> set (ReadAccounts db). accountIDPattern (an_ID a)"
    using assms by (auto simp: catalog_ok_def accounts_ok_def ReadAccounts_def i)
qed

lemma states_ok_Build:
  assumes "catalog_ok db"
  shows "states_ok (BuildAccountStates (ReadAccounts db) snapshot running now stale reserve)"
  using wf_BuildAccountStates catalog_account_ids(2) [OF assms] unfolding states_ok_def BuildAccountStates_keys by auto

text \<open>The evidence behind the two ends of a move.\<close>

lemma built_evidence:
  assumes c: "catalog_ok db" and wf: "\<forall>q \<in> set (sn_Accounts snapshot). wf_quota_account q"
    and s: "map_of (BuildAccountStates (ReadAccounts db) snapshot running now stale reserve) t = Some s"
  shows "ac_Eligible s \<Longrightarrow> \<exists>a \<in> set (ReadAccounts db). an_ID a = t \<and> capacityEvidence a snapshot running now stale reserve"
    and "ac_Exhausted s \<Longrightarrow> quotaExhausted (snapshotFresh (sn_GeneratedAt snapshot) now (boundedStaleAfter stale))
           (map_of (quotaByAccount (sn_Accounts snapshot)) t)"
proof -
  have "t \<in> set (map an_ID (ReadAccounts db))"
    using map_of_SomeD [OF s] BuildAccountStates_keys [of "ReadAccounts db" snapshot running now stale reserve] by force
  then obtain a where a: "a \<in> set (ReadAccounts db)" "an_ID a = t" by auto
  have q: "wf_quota_account q" if "map_of (quotaByAccount (sn_Accounts snapshot)) (an_ID a) = Some q" for q
    using quotaByAccount_from [OF that] wf by blast
  have e: "s = accountState (snapshotFresh (sn_GeneratedAt snapshot) now (boundedStaleAfter stale)) (sn_GeneratedAt snapshot) (boundedReserve reserve)
      (isRunning running (an_ID a)) (map_of (quotaByAccount (sn_Accounts snapshot)) (an_ID a)) a"
    using BuildAccountStates_lookup [OF catalog_account_ids(1) [OF c] a(1)] s by (simp add: a(2))
  show "\<exists>a \<in> set (ReadAccounts db). an_ID a = t \<and> capacityEvidence a snapshot running now stale reserve" if "ac_Eligible s"
    using that a unfolding e by (auto simp only: accountState_eligible [OF q] capacityEvidence_def isRunning_def)
  show "quotaExhausted (snapshotFresh (sn_GeneratedAt snapshot) now (boundedStaleAfter stale)) (map_of (quotaByAccount (sn_Accounts snapshot)) t)"
    if "ac_Exhausted s" using that a unfolding e by (simp add: accountState_def Let_def)
qed

lemma exhausted_source:
  assumes "has_key (evacuationSources states None) a"
  shows "\<exists>s. (a, s) \<in> set states \<and> ac_Exhausted s"
proof -
  have "has_key (fold (\<lambda>(account, s) m. if ac_Exhausted s then AList.update account () m else m) states m) a \<Longrightarrow>
      has_key m a \<or> (\<exists>s. (a, s) \<in> set states \<and> ac_Exhausted s)" for m
    by (induction states arbitrary: m) (force split: if_splits)+
  from this [of "[]"] assms show ?thesis unfolding evacuationSources_def option.case by (simp add: has_key_map_of)
qed

text \<open>
  A run either leaves the world alone, or it was a check with healthy quota data and the world is
  the one the evacuation left.
\<close>

lemma run_world:
  assumes run: "controllerRun codec p codecs env force w = (x, w')"
  obtains (same) "cw_world w' = cw_world w"
  | (checked) settings quota running ev err where
      "ce_settings env = Some settings" "modeSetting (obj_get (Some settings) ''account_failover.mode'') = ModeActive"
      "ReadState (sc_quota codecs) (ce_quota env) = Some (quota, True)"
      "Healthy quota True (ce_now env) (durationSetting (obj_get (Some settings) ''account_failover.stale_after_seconds'') defaultAccountStateStaleAfter)"
      "ce_probe env (ReadAccounts (pw_db (cw_world w))) = Inr running"
      "EvacuateExhausted codec p (serviceEnv env (BuildAccountStates (ReadAccounts (pw_db (cw_world w))) (qt_Snapshot quota) running (ce_now env)
         (durationSetting (obj_get (Some settings) ''account_failover.stale_after_seconds'') defaultAccountStateStaleAfter)
         (percentageSetting (obj_get (Some settings) ''account_failover.reserve_percent'') (Finite 5)))) (cw_world w) = ((ev, err), cw_world w')"
proof (cases "\<exists>settings previous found. ce_store env \<and> ce_settings env = Some settings \<and>
    ReadRuntimeState (sc_unmarshal codecs) (if ce_read env then cw_row w else RowFault) = Some (previous, found)")
  case False
  then have "w' = w" using run unfolding controllerRun_def Let_def by (auto split: if_splits option.splits)
  then show ?thesis using same by simp
next
  case True
  then obtain settings previous found where i: "ce_store env" "ce_settings env = Some settings"
    "ReadRuntimeState (sc_unmarshal codecs) (if ce_read env then cw_row w else RowFault) = Some (previous, found)" by blast
  let ?mode = "modeSetting (obj_get (Some settings) ''account_failover.mode'')"
  let ?state = "previous\<lparr>ft_Mode := ?mode, ft_HeartbeatAt := Some (ce_now env), ft_QuotaRefreshing := False\<rparr>"
  let ?quota = "ReadState (sc_quota codecs) (ce_quota env)"
  consider (quiet) "cw_world w' = cw_world w" | (due) "?mode \<noteq> ModeOff" "runCheck codec p codecs env settings (ft_LastPlan previous) ?state ?quota w = (x, w')"
    using run i unfolding controllerRun_def Let_def
    by (auto split: if_splits prod.splits option.splits dest: writeState_world)
  then show ?thesis
  proof cases
    case quiet
    then show ?thesis by (rule same)
  next
    case due
    have mode: "?mode = ModeActive" using due(1) by (auto simp: modeSetting_def ParseMode_def Let_def split: goany.splits if_splits option.splits)
    let ?stale = "durationSetting (obj_get (Some settings) ''account_failover.stale_after_seconds'') defaultAccountStateStaleAfter"
    show ?thesis
    proof (cases "\<exists>quota found running. ?quota = Some (quota, found) \<and> Healthy quota found (ce_now env) ?stale \<and> ce_wired env \<and> ce_accounts env \<and>
        ce_probe env (ReadAccounts (pw_db (cw_world w))) = Inr running")
      case False
      then have "cw_world w' = cw_world w" using due(2) unfolding runCheck_def Let_def
        by (auto split: if_splits prod.splits option.splits sum.splits dest: recordRunError_world)
      then show ?thesis by (rule same)
    next
      case True
      then obtain quota found running where q: "?quota = Some (quota, found)" "Healthy quota found (ce_now env) ?stale" "ce_wired env" "ce_accounts env"
        "ce_probe env (ReadAccounts (pw_db (cw_world w))) = Inr running" by blast
      have "found" using q(2) by (auto simp: Healthy_def split: if_splits)
      let ?ev = "EvacuateExhausted codec p (serviceEnv env (BuildAccountStates (ReadAccounts (pw_db (cw_world w))) (qt_Snapshot quota) running
         (ce_now env) ?stale (percentageSetting (obj_get (Some settings) ''account_failover.reserve_percent'') (Finite 5)))) (cw_world w)"
      obtain ev err w1 where e: "?ev = ((ev, err), w1)" by (metis prod.exhaust)
      have "cw_world w' = w1" using due(2) q e unfolding runCheck_def Let_def
        by (auto dest: finishCheck_world)
      then show ?thesis using checked [OF i(2) mode] q e \<open>found\<close> by simp
    qed
  qed
qed

lemma run_honest:
  assumes run: "controllerRun codec p codecs env force w = ((r, errs), w')"
    and c: "row_reads_back codecs (cw_row w')" and t: "0 < ce_now env" "0 < maxAge"
    and fin: "cr_Checked r \<or> errs \<noteq> []"
  shows "set errs \<inter> {ControllerStore, ControllerSettings, ControllerState} \<noteq> {} \<or> honest codecs env maxAge errs w'"
proof (cases "\<exists>settings previous found. ce_store env \<and> ce_settings env = Some settings \<and>
    ReadRuntimeState (sc_unmarshal codecs) (if ce_read env then cw_row w else RowFault) = Some (previous, found)")
  case False
  then have "set errs \<inter> {ControllerStore, ControllerSettings, ControllerState} \<noteq> {}"
    using run unfolding controllerRun_def Let_def by (auto split: if_splits option.splits)
  then show ?thesis ..
next
  case True
  then obtain settings previous found where i: "ce_store env" "ce_settings env = Some settings"
    "ReadRuntimeState (sc_unmarshal codecs) (if ce_read env then cw_row w else RowFault) = Some (previous, found)" by blast
  let ?mode = "modeSetting (obj_get (Some settings) ''account_failover.mode'')"
  let ?state = "previous\<lparr>ft_Mode := ?mode, ft_HeartbeatAt := Some (ce_now env), ft_QuotaRefreshing := False\<rparr>"
  let ?quota = "ReadState (sc_quota codecs) (ce_quota env)"
  have sw: "f = StateWrite" if "writeState codecs env s v = (Some f, v')" for s v f v'
    using writeState_cases [of codecs env s v] that by simp
  consider (unwritten) "StateWrite \<in> set errs" | (quiet) "\<not> cr_Checked r" "errs = []"
    | (due) "?mode \<noteq> ModeOff" "runCheck codec p codecs env settings (ft_LastPlan previous) ?state ?quota w = ((r, errs), w')"
    using run i unfolding controllerRun_def Let_def
    by (auto simp: controllerResult_def split: if_splits prod.splits option.splits dest: sw)
  then show ?thesis
  proof cases
    case unwritten
    then show ?thesis by (simp add: honest_def)
  next
    case quiet
    then show ?thesis using fin by blast
  next
    case due
    have "?mode = ModeActive" using due(1) by (auto simp: modeSetting_def ParseMode_def Let_def split: goany.splits if_splits option.splits)
    then show ?thesis using runCheck_honest [OF due(2) c _ _ t] by simp
  qed
qed

text \<open>The errors that come before or from the write, and what they leave of the world.\<close>

lemma writeState_unwritten: "writeState codecs env state w = (Some e, w') \<Longrightarrow> w' = w \<and> e = StateWrite"
  by (auto simp: writeState_def split: option.splits)

lemma recordRunError_late:
  assumes "recordRunError codecs env state poll e w = (errs, w')" "e \<notin> {ControllerStore, ControllerSettings, ControllerState, StateWrite}"
  shows "set errs \<inter> {ControllerStore, ControllerSettings, ControllerState} = {}" "StateWrite \<in> set errs \<Longrightarrow> cw_row w' = cw_row w"
  using assms by (auto simp: recordRunError_def split: prod.splits option.splits dest: writeState_unwritten)

lemma finishCheck_late:
  assumes "finishCheck codecs env poll previous state result ev err w = ((r, errs), w')"
  shows "set errs \<inter> {ControllerStore, ControllerSettings, ControllerState} = {} \<and> (StateWrite \<in> set errs \<longrightarrow> cw_row w' = cw_row w)"
proof (cases "\<exists>e. err = Some e \<and> \<not> capacityError e")
  case True
  then show ?thesis using assms recordRunError_late unfolding finishCheck_def Let_def by (force split: prod.splits)
next
  case False
  obtain report final where o: "checkOutcome env previous (state\<lparr>ft_LastPlan := Some (er_Plan ev)\<rparr>)
      (result\<lparr>cr_Plan := Some (er_Plan ev)\<rparr>) ev (err \<noteq> None) = (report, final)" by fastforce
  obtain f w1 where wr: "writeState codecs env final w = (f, w1)" by fastforce
  have "errs = (case f of None \<Rightarrow> [] | Some e \<Rightarrow> [e]) \<and> w' = w1"
    using assms False o wr unfolding finishCheck_def Let_def by (auto split: option.splits)
  then show ?thesis using wr by (cases f) (auto dest: writeState_unwritten)
qed

lemma runCheck_late:
  assumes run: "runCheck codec p codecs env settings previous state quotaRead w = ((r, errs), w')"
  shows "set errs \<inter> {ControllerStore, ControllerSettings, ControllerState} = {} \<and> (StateWrite \<in> set errs \<longrightarrow> cw_row w' = cw_row w)"
proof -
  have rec: "set errs \<inter> {ControllerStore, ControllerSettings, ControllerState} = {} \<and> (StateWrite \<in> set errs \<longrightarrow> cw_row w' = cw_row w)"
    if "(case recordRunError codecs env s poll e w of (errs, w') \<Rightarrow> ((res, errs), w')) = ((r, errs), w')"
      "e \<notin> {ControllerStore, ControllerSettings, ControllerState, StateWrite}" for s poll e res
    using recordRunError_late [OF _ that(2)] that(1) by (auto split: prod.splits)
  have fin: "set errs \<inter> {ControllerStore, ControllerSettings, ControllerState} = {} \<and> (StateWrite \<in> set errs \<longrightarrow> cw_row w' = cw_row w)"
    if "finishCheck codecs env poll previous s res ev err (w\<lparr>cw_world := world\<rparr>) = ((r, errs), w')" for poll s res ev err world
    using finishCheck_late [OF that] by simp
  show ?thesis using run rec fin unfolding runCheck_def Let_def by (auto split: if_splits option.splits sum.splits prod.splits)
qed

lemma run_late:
  assumes run: "controllerRun codec p codecs env force w = ((r, errs), w')"
  shows "(w' = w \<and> \<not> cr_Checked r \<and> StateWrite \<notin> set errs) \<or>
    (set errs \<inter> {ControllerStore, ControllerSettings, ControllerState} = {} \<and> (StateWrite \<in> set errs \<longrightarrow> cw_row w' = cw_row w))"
proof -
  show ?thesis
  proof (cases "\<exists>settings previous found. ce_store env \<and> ce_settings env = Some settings \<and>
      ReadRuntimeState (sc_unmarshal codecs) (if ce_read env then cw_row w else RowFault) = Some (previous, found)")
    case False
    then show ?thesis using run unfolding controllerRun_def Let_def by (auto split: if_splits option.splits)
  next
    case True
    then obtain settings previous found where i: "ce_store env" "ce_settings env = Some settings"
      "ReadRuntimeState (sc_unmarshal codecs) (if ce_read env then cw_row w else RowFault) = Some (previous, found)" by blast
    let ?mode = "modeSetting (obj_get (Some settings) ''account_failover.mode'')"
    let ?state = "previous\<lparr>ft_Mode := ?mode, ft_HeartbeatAt := Some (ce_now env), ft_QuotaRefreshing := False\<rparr>"
    consider (unwritten) "errs = [StateWrite]" "w' = w" | (quiet) "errs = []"
      | (due) "runCheck codec p codecs env settings (ft_LastPlan previous) ?state (ReadState (sc_quota codecs) (ce_quota env)) w = ((r, errs), w')"
      using run i unfolding controllerRun_def Let_def
      by (auto split: if_splits prod.splits option.splits dest: writeState_unwritten)
    then show ?thesis
    proof cases
      case unwritten
      then show ?thesis by simp
    next
      case quiet
      then show ?thesis by simp
    next
      case due
      then show ?thesis using runCheck_late by blast
    qed
  qed
qed

lemma run_untouched:
  "controllerRun codec p codecs env force w = ((r, errs), w') \<Longrightarrow>
   set errs \<inter> {ControllerStore, ControllerSettings, ControllerState} \<noteq> {} \<Longrightarrow> w' = w \<and> \<not> cr_Checked r"
  using run_late by blast

lemma run_unwritten:
  "controllerRun codec p codecs env force w = ((r, errs), w') \<Longrightarrow> StateWrite \<in> set errs \<Longrightarrow> cw_row w' = cw_row w"
  using run_late by blast

section \<open>Properties\<close>

text \<open>
  C8: The controller moves a user only on evidence. Whatever a run does, of the catalogue it
  changes routes only (and the internal keys the publisher synchronises). If the route of a user is
  different afterwards, then failover is switched on, the quota refresher's state is healthy, the
  account the user was on is exhausted by a fresh official quota, and the account the user is on now
  is enabled, its container is running, and a fresh quota shows headroom above the reserve. The
  hypotheses: quotas are in range, as the refresher writes them, and the rollback of an evacuation is
  not refused.
\<close>

theorem controller_moves_on_evidence:
  assumes c: "catalog_ok (pw_db (cw_world w))"
    and undo: "se_undo (ce_service env) = TxOK"
      "validateWriteFence (se_undoAt (ce_service env)) (se_fence (ce_service env)) (cb_leases (pw_db (cw_world w))) = None"
    and wf: "\<forall>quota found. ReadState (sc_quota codecs) (ce_quota env) = Some (quota, found) \<longrightarrow>
       (\<forall>q \<in> set (sn_Accounts (qt_Snapshot quota)). wf_quota_account q)"
    and run: "controllerRun codec p codecs env force w = (x, w')"
  shows "(\<exists>routes. unchanged ((pw_db (cw_world w))\<lparr>cb_routes := routes\<rparr>) (pw_db (cw_world w'))) \<and>
    (\<forall>u. map_of (cb_routes (pw_db (cw_world w'))) u \<noteq> map_of (cb_routes (pw_db (cw_world w))) u \<longrightarrow>
       (\<exists>settings quota running a account. ce_settings env = Some settings \<and>
          modeSetting (obj_get (Some settings) ''account_failover.mode'') = ModeActive \<and>
          ReadState (sc_quota codecs) (ce_quota env) = Some (quota, True) \<and>
          (let stale = durationSetting (obj_get (Some settings) ''account_failover.stale_after_seconds'') defaultAccountStateStaleAfter;
               reserve = percentageSetting (obj_get (Some settings) ''account_failover.reserve_percent'') (Finite 5);
               snapshot = qt_Snapshot quota
           in Healthy quota True (ce_now env) stale \<and>
              ce_probe env (ReadAccounts (pw_db (cw_world w))) = Inr running \<and>
              map_of (cb_routes (pw_db (cw_world w))) u = Some a \<and>
              quotaExhausted (snapshotFresh (sn_GeneratedAt snapshot) (ce_now env) (boundedStaleAfter stale))
                (map_of (quotaByAccount (sn_Accounts snapshot)) a) \<and>
              account \<in> set (ReadAccounts (pw_db (cw_world w))) \<and>
              map_of (cb_routes (pw_db (cw_world w'))) u = Some (an_ID account) \<and>
              capacityEvidence account snapshot running (ce_now env) stale reserve)))"
  using run
proof (cases rule: run_world)
  case same
  have "unchanged ((pw_db (cw_world w))\<lparr>cb_routes := cb_routes (pw_db (cw_world w))\<rparr>) (pw_db (cw_world w))"
    using unchanged_refl by simp
  then show ?thesis unfolding same by blast
next
  case (checked settings quota running ev err)
  define stale where "stale = durationSetting (obj_get (Some settings) ''account_failover.stale_after_seconds'') defaultAccountStateStaleAfter"
  define reserve where "reserve = percentageSetting (obj_get (Some settings) ''account_failover.reserve_percent'') (Finite 5)"
  define db where "db = pw_db (cw_world w)"
  define states where "states = BuildAccountStates (ReadAccounts db) (qt_Snapshot quota) running (ce_now env) stale reserve"
  note ck = checked [folded stale_def reserve_def db_def, folded states_def]
  have ev: "evacuate codec p (serviceEnv env states) None (cw_world w) = ((ev, err), cw_world w')"
    using ck(6) by (simp add: EvacuateExhausted_def)
  have st: "states_ok s" if "se_states (serviceEnv env states) = Some s" for s
    using that states_ok_Build [OF c] unfolding states_def db_def by (auto simp: serviceEnv_def)
  have f: "se_undo (serviceEnv env states) = TxOK"
    "validateWriteFence (se_undoAt (serviceEnv env states)) (se_fence (serviceEnv env states)) (cb_leases (pw_db (cw_world w))) = None"
    using undo by (simp_all add: serviceEnv_def)
  have same: "?thesis" if u: "unchanged db (pw_db (cw_world w'))"
  proof -
    have "map_of (cb_routes (pw_db (cw_world w'))) = map_of (cb_routes db)" using u by (auto simp: unchanged_def same_db_def)
    moreover have "unchanged (db\<lparr>cb_routes := cb_routes db\<rparr>) (pw_db (cw_world w'))" using u by simp
    ultimately show ?thesis unfolding db_def by metis
  qed
  show ?thesis
  proof (cases err)
    case (Some e)
    then show ?thesis using same evacuate_atomic(1) [OF c st f ev] by (simp add: db_def)
  next
    case None
    obtain plan where plan: "plan = PlanEvacuation (ReadRoutes db) (activeUsersFromRecords (ReadKeyRecords db)) (routableUsers (ReadKeyRecords db) states) states None"
      and o: "pl_AffectedUsers plan = 0 \<and> cw_world w' = cw_world w \<or> pl_CandidateAccounts plan \<noteq> [] \<and> \<not> planUnsafe plan \<and>
        routes_only (routesWith (pl_Assignments plan) (map_of (cb_routes db))) db (pw_db (cw_world w'))"
      using evacuate_atomic(2) [OF c st f ev None] by (auto simp: serviceEnv_def db_def)
    show ?thesis
    proof (cases "cw_world w' = cw_world w")
      case True
      then show ?thesis using same unchanged_refl by (simp add: db_def)
    next
      case False
      then obtain rt i where rt: "pw_db (cw_world w') = db\<lparr>cb_routes := rt, cb_internal := i\<rparr>"
        "map_of rt = routesWith (pl_Assignments plan) (map_of (cb_routes db))" using o unfolding routes_only_def by blast
      have "unchanged (db\<lparr>cb_routes := rt\<rparr>) (pw_db (cw_world w'))"
        unfolding rt(1) unchanged_def by (intro exI [of _ i]) simp
      moreover have moved: "\<exists>a account. map_of (cb_routes db) u = Some a \<and>
          quotaExhausted (snapshotFresh (sn_GeneratedAt (qt_Snapshot quota)) (ce_now env) (boundedStaleAfter stale))
            (map_of (quotaByAccount (sn_Accounts (qt_Snapshot quota))) a) \<and>
          account \<in> set (ReadAccounts db) \<and> map_of rt u = Some (an_ID account) \<and>
          capacityEvidence account (qt_Snapshot quota) running (ce_now env) stale reserve"
        if ne: "map_of rt u \<noteq> map_of (cb_routes db) u" for u
      proof -
        obtain t where t: "map_of (pl_Assignments plan) u = Some t" "map_of rt u = Some t"
          using ne unfolding rt(2) routesWith_def by (auto split: option.splits)
        have wfm: "wf_map (ReadRoutes db)" "wf_map states"
          using c wf_BuildAccountStates by (simp_all add: db_def catalog_ok_def routes_ok_def ReadRoutes_def states_def)
        obtain a s where a: "map_of (ReadRoutes db) u = Some a" "has_key (evacuationSources states None) a" "map_of states t = Some s" "ac_Eligible s"
          using evacuation_moves [OF wfm t(1) [unfolded plan]] by blast
        have wq: "\<forall>q \<in> set (sn_Accounts (qt_Snapshot quota)). wf_quota_account q" using wf ck(3) by blast
        obtain sa where "(a, sa) \<in> set states" "ac_Exhausted sa" using exhausted_source [OF a(2)] by blast
        then have "map_of states a = Some sa" "ac_Exhausted sa" using wf_map_map_of [OF wfm(2)] by auto
        then have "quotaExhausted (snapshotFresh (sn_GeneratedAt (qt_Snapshot quota)) (ce_now env) (boundedStaleAfter stale))
            (map_of (quotaByAccount (sn_Accounts (qt_Snapshot quota))) a)"
          using built_evidence(2) [OF c wq] unfolding states_def db_def by blast
        moreover obtain account where "account \<in> set (ReadAccounts db)" "an_ID account = t"
            "capacityEvidence account (qt_Snapshot quota) running (ce_now env) stale reserve"
          using built_evidence(1) [OF c wq] a(3,4) unfolding states_def db_def by blast
        ultimately show ?thesis using a(1) t(2) by (auto simp: ReadRoutes_def)
      qed
      moreover have "map_of (cb_routes (pw_db (cw_world w'))) = map_of rt" by (simp add: rt(1))
      ultimately show ?thesis
        using ck(1-5) unfolding db_def [symmetric] Let_def stale_def reserve_def by (metis (no_types, lifting))
    qed
  qed
qed

text \<open>A catalogue whose routed account is exhausted, and a due run that evacuates it.\<close>

definition controlSnapshot :: Snapshot where
  "controlSnapshot = sampleSnapshot\<lparr>sn_Accounts :=
     [sampleQuota\<lparr>aq_Account := ''c1'', aq_LimitReached := Some True\<rparr>, sampleQuota\<lparr>aq_Account := ''c2''\<rparr>]\<rparr>"

definition controlEnv :: controller_env where
  "controlEnv =
     \<lparr>ce_store = True, ce_settings = Some [], ce_now = 1060, ce_read = True, ce_quota = Row ''{}'', ce_wired = True, ce_accounts = True,
      ce_probe = (\<lambda>_. Inr [(''c1'', True), (''c2'', True)]), ce_windowed = False, ce_settingsAgain = None, ce_service = moveEnv,
      ce_cause = [], ce_audit = None, ce_write = True\<rparr>"

definition controlCodecs :: state_codecs where
  "controlCodecs =
     \<lparr>sc_marshal = (\<lambda>_. Some ''{''), sc_unmarshal = (\<lambda>_. None),
      sc_quota = (\<lambda>_. Some \<lparr>qt_Version = 1, qt_HeartbeatAt = 1050, qt_LastSuccessAt = 1050, qt_LastError = [], qt_Snapshot = controlSnapshot\<rparr>)\<rparr>"

definition controlStates :: states where
  "controlStates =
     [(''c1'', \<lparr>ac_Account = ''c1'', ac_Eligible = False, ac_Exhausted = True, ac_Reason = ''quota_exhausted'', ac_UsedPercent = Some (Finite 40),
        ac_RemainingPercent = Some (Finite 60), ac_Headroom = Finite 55, ac_ResetAt = 0, ac_ObservedAt = 1000\<rparr>),
      (''c2'', \<lparr>ac_Account = ''c2'', ac_Eligible = True, ac_Exhausted = False, ac_Reason = ''available'', ac_UsedPercent = Some (Finite 40),
        ac_RemainingPercent = Some (Finite 60), ac_Headroom = Finite 55, ac_ResetAt = 0, ac_ObservedAt = 1000\<rparr>)]"

lemma default_durations:
  "durationSetting ANil d = d" "percentageSetting ANil x = x" "modeSetting ANil = ModeActive"
  by (simp_all add: durationSetting_def percentageSetting_def modeSetting_def is_nan_def)

lemma control_states:
  "BuildAccountStates (ReadAccounts sampleTwo) controlSnapshot [(''c1'', True), (''c2'', True)] 1060 (120 * second) (Finite 5) = controlStates"
proof -
  have r: "map an_ID (ReadAccounts sampleTwo) = [''c1'', ''c2'']" "map an_GroupEnabled (ReadAccounts sampleTwo) = [True, True]" by code_simp+
  have "f64_sub (Finite 60) (Finite 5) = Finite 55" using f64_round_of_int [of 55] by (simp add: f64_sub_def)
  moreover obtain a b where "ReadAccounts sampleTwo = [a, b]" "an_ID a = ''c1''" "an_ID b = ''c2''" "an_GroupEnabled a" "an_GroupEnabled b"
    using r by (auto simp: map_eq_Cons_conv)
  ultimately show ?thesis
    by (simp add: BuildAccountStates_def accountState_def controlSnapshot_def sampleSnapshot_def sampleQuota_def snapshotFresh_def
        boundedStaleAfter_def boundedReserve_def quotaByAccount_def quotaOrZero_def quotaExhausted_def quotaHeadroom_def isRunning_def
        defaultWeeklyWindow_def isDefaultKey_def unavailableAccount_def second_def go_div_def i64_def is_nan_def has_prefix_def controlStates_def f64_max_def)
qed

lemma control_evacuation:
  "\<exists>r w'. EvacuateExhausted (confirmCodec sampleMoved) confirmPublisher (serviceEnv controlEnv controlStates) twoWorld = ((r, None), w') \<and>
     map_of (cb_routes (pw_db w')) ''ann'' = Some ''c2''"
proof -
  let ?env = "serviceEnv controlEnv controlStates"
  define plan where "plan = PlanEvacuation (ReadRoutes sampleTwo) (activeUsersFromRecords (ReadKeyRecords sampleTwo))
     (routableUsers (ReadKeyRecords sampleTwo) controlStates) controlStates None"
  have r: "ReadRoutes sampleTwo = [(''ann'', ''c1'')]" "activeUsersFromRecords (ReadKeyRecords sampleTwo) = [(''ann'', ())]"
    "routableUsers (ReadKeyRecords sampleTwo) controlStates = [(''ann'', ())]" by code_simp+
  have s: "evacuationSources controlStates None = [(''c1'', ())]" by code_simp
  have c: "eligibleCandidates controlStates [(''c1'', ())] = [''c2'']" by code_simp
  have af: "affectedEntries [(''ann'', ''c1'')] [(''ann'', ())] [(''c1'', ())] = [\<lparr>re_User = ''ann'', re_Account = ''c1''\<rparr>]" by code_simp
  have P: "pl_Assignments plan = [(''ann'', ''c2'')]" "pl_ExpectedRoutes plan = [(''ann'', ''c1'')]" "pl_AffectedUsers plan = 1"
    "pl_CandidateAccounts plan = [''c2'']" "\<not> planUnsafe plan"
    by (simp_all add: plan_def r s c af PlanEvacuation_def planUnsafe_def leastWeightedAccount_def newPlan_def has_key_def Let_def)
  have inp: "rebalanceInputs ?env (pw_db twoWorld) = Some (ReadRoutes sampleTwo, ReadKeyRecords sampleTwo, controlStates)"
    by (simp add: rebalanceInputs_def serviceEnv_def controlEnv_def moveEnv_def twoWorld_def)
  obtain u where u: "ApplyRoutesExpected TxOK 12 sampleFence [(''ann'', ''c2'')] [(''ann'', ''c1'')] sampleTwo = (Inr u, sampleMoved)"
    using move_applied by blast
  obtain payload where pub: "PublishAuthSnapshot (confirmCodec sampleMoved) confirmPublisher sampleFence (se_publish ?env) True (twoWorld\<lparr>pw_db := sampleMoved\<rparr>) =
     (Inr (newGeneration (pe_uuid sampleEnv)), twoWorld\<lparr>pw_db := followed sampleMoved, pw_file := Some payload\<rparr>)" (is "_ = (_, ?w)")
    using confirm_published [OF moved_ok, of twoWorld] by (auto simp: serviceEnv_def controlEnv_def moveEnv_def)
  have env: "se_fence ?env = sampleFence" "se_apply ?env = TxOK" "se_applyAt ?env = 12" "se_wired ?env" "pw_db twoWorld = sampleTwo"
    by (simp_all add: serviceEnv_def controlEnv_def moveEnv_def twoWorld_def)
  obtain a where "applyPlan (confirmCodec sampleMoved) confirmPublisher ?env plan twoWorld = (Inr a, ?w)"
    by (auto simp: applyPlan_def P publishChange_def env u pub)
  then have "\<exists>r. EvacuateExhausted (confirmCodec sampleMoved) confirmPublisher ?env twoWorld = ((r, None), ?w)"
    by (simp add: EvacuateExhausted_def evacuate_def inp env(4) plan_def [symmetric] P Let_def)
  moreover obtain k where k: "pw_db ?w = sampleMoved\<lparr>cb_internal := k\<rparr>" using PublishAuthSnapshot_db [OF pub] by auto
  have "map_of (cb_routes sampleMoved) ''ann'' = Some ''c2''" by code_simp
  then have "map_of (cb_routes (pw_db ?w)) ''ann'' = Some ''c2''" unfolding k by simp
  ultimately show ?thesis by blast
qed

lemma control_run:
  "\<exists>x w'. RunOnce (confirmCodec sampleMoved) confirmPublisher controlCodecs controlEnv \<lparr>cw_world = twoWorld, cw_row = RowMissing\<rparr> = (x, w') \<and>
     map_of (cb_routes (pw_db (cw_world w'))) ''ann'' = Some ''c2''"
proof -
  let ?w = "\<lparr>cw_world = twoWorld, cw_row = RowMissing\<rparr>"
  obtain r v where e: "EvacuateExhausted (confirmCodec sampleMoved) confirmPublisher (serviceEnv controlEnv controlStates) twoWorld = ((r, None), v)"
    "map_of (cb_routes (pw_db v)) ''ann'' = Some ''c2''" using control_evacuation by blast
  obtain x w' where run: "RunOnce (confirmCodec sampleMoved) confirmPublisher controlCodecs controlEnv ?w = (x, w')" by fastforce
  let ?quota = "\<lparr>qt_Version = 1, qt_HeartbeatAt = 1050, qt_LastSuccessAt = 1050, qt_LastError = [], qt_Snapshot = controlSnapshot\<rparr>"
  have q: "ReadState (sc_quota controlCodecs) (ce_quota controlEnv) = Some (?quota, True)"
    by (simp add: ReadState_def controlCodecs_def controlEnv_def quotaStateVersion_def)
  have h: "Healthy ?quota True 1060 (120 * second)" by (simp add: Healthy_def quotaStateVersion_def go_div_def second_def i64_def)
  have d: "ReadRuntimeState (sc_unmarshal controlCodecs) RowMissing = Some (DefaultRuntimeState, False)" by (simp add: ReadRuntimeState_def)
  have env: "ce_store controlEnv" "ce_settings controlEnv = Some []" "ce_read controlEnv" "ce_wired controlEnv" "ce_accounts controlEnv"
    "ce_now controlEnv = 1060" "ce_probe controlEnv as = Inr [(''c1'', True), (''c2'', True)]" for as by (simp_all add: controlEnv_def)
  have m: "ft_Mode DefaultRuntimeState \<noteq> ModeActive" "ModeActive \<noteq> ModeOff" by (simp_all add: DefaultRuntimeState_def ModeOff_def ModeActive_def)
  obtain pollInterval previousPlan state result where "finishCheck controlCodecs controlEnv pollInterval previousPlan state result r None (?w\<lparr>cw_world := v\<rparr>) = (x, w')"
    using run unfolding RunOnce_def controllerRun_def runCheck_def Let_def defaultAccountStateStaleAfter_def
    by (auto simp: default_durations env d m q h e control_states twoWorld_def [THEN arg_cong [where f = pw_db]])
  then have "cw_world w' = v" using finishCheck_world by fastforce
  then show ?thesis using run e(2) by blast
qed

theorem controller_moves_on_evidence_witness:
  "\<exists>x w' a. RunOnce (confirmCodec sampleMoved) confirmPublisher controlCodecs controlEnv \<lparr>cw_world = twoWorld, cw_row = RowMissing\<rparr> = (x, w') \<and>
     map_of (cb_routes sampleTwo) ''ann'' = Some ''c1'' \<and> map_of (cb_routes (pw_db (cw_world w'))) ''ann'' = Some (an_ID a) \<and> a \<in> set (ReadAccounts sampleTwo) \<and>
     an_ID a = ''c2'' \<and> capacityEvidence a controlSnapshot [(''c1'', True), (''c2'', True)] 1060 (120 * second) (Finite 5)"
proof -
  let ?w = "\<lparr>cw_world = twoWorld, cw_row = RowMissing\<rparr>"
  obtain x w' where run: "RunOnce (confirmCodec sampleMoved) confirmPublisher controlCodecs controlEnv ?w = (x, w')"
    and moved: "map_of (cb_routes (pw_db (cw_world w'))) ''ann'' = Some ''c2''" using control_run by blast
  have w: "pw_db (cw_world ?w) = sampleTwo" by (simp add: twoWorld_def)
  have undo: "se_undo (ce_service controlEnv) = TxOK"
    "validateWriteFence (se_undoAt (ce_service controlEnv)) (se_fence (ce_service controlEnv)) (cb_leases (pw_db (cw_world ?w))) = None"
    using two_ok(3) by (simp_all add: controlEnv_def moveEnv_def)
  have wf: "\<forall>quota found. ReadState (sc_quota controlCodecs) (ce_quota controlEnv) = Some (quota, found) \<longrightarrow>
      (\<forall>q \<in> set (sn_Accounts (qt_Snapshot quota)). wf_quota_account q)"
    using sampleQuota_wf by (auto simp: ReadState_def controlCodecs_def controlEnv_def quotaStateVersion_def controlSnapshot_def sampleQuota_def wf_quota_account_def)
  have c1: "map_of (cb_routes sampleTwo) ''ann'' = Some ''c1''" by code_simp
  have "map_of (cb_routes (pw_db (cw_world w'))) ''ann'' \<noteq> map_of (cb_routes (pw_db (cw_world ?w))) ''ann''" unfolding w c1 moved by simp
  note evidence = controller_moves_on_evidence [OF _ undo wf run [unfolded RunOnce_def], THEN conjunct2, rule_format, OF _ this]
  have "\<exists>a. map_of (cb_routes (pw_db (cw_world w'))) ''ann'' = Some (an_ID a) \<and> a \<in> set (ReadAccounts sampleTwo) \<and>
     capacityEvidence a controlSnapshot [(''c1'', True), (''c2'', True)] 1060 (120 * second) (Finite 5)"
    using evidence two_ok(1) unfolding w Let_def
    by (auto simp: controlEnv_def controlCodecs_def ReadState_def quotaStateVersion_def default_durations defaultAccountStateStaleAfter_def twoWorld_def)
  then show ?thesis using run c1 moved by auto
qed

text \<open>
  C34: The controller's health report is honest. Take a run that checked or failed. If neither the
  store, the settings nor the old state was the problem and the new state could be written, the
  state a reader now gets carries the time of the run, and \<open>HealthyRuntimeState\<close> accepts it
  exactly when the run reported no error: the text of an error is recorded and never empty, however
  it is cut to 500 characters. The exceptions leave the row as it was: without a store, without
  settings or with an unreadable state the run writes nothing at all, and when the write of the
  state fails the old row stays. Then the row is the one of an earlier run, and whatever a reader
  takes for healthy in it, at any later time, has a heartbeat no older than the age the reader
  accepts. The hypothesis on the codec is that the encoded state in the row is read back as it was.
\<close>

theorem controller_honest:
  assumes "controllerRun codec p codecs env force w = ((r, errs), w')"
    and "row_reads_back codecs (cw_row w')" "0 < ce_now env" "0 < maxAge"
    and "cr_Checked r \<or> errs \<noteq> []"
  shows "(set errs \<inter> {ControllerStore, ControllerSettings, ControllerState, StateWrite} = {} \<longrightarrow>
       (\<exists>st. ReadRuntimeState (sc_unmarshal codecs) (cw_row w') = Some (st, True) \<and> ft_HeartbeatAt st = Some (ce_now env) \<and>
          (HealthyRuntimeState st True (ce_now env) maxAge \<longleftrightarrow> errs = []))) \<and>
     (set errs \<inter> {ControllerStore, ControllerSettings, ControllerState} \<noteq> {} \<longrightarrow> w' = w \<and> \<not> cr_Checked r) \<and>
     (StateWrite \<in> set errs \<longrightarrow> cw_row w' = cw_row w) \<and>
     (\<forall>st found later. ReadRuntimeState (sc_unmarshal codecs) (cw_row w') = Some (st, found) \<and>
        HealthyRuntimeState st found later maxAge \<longrightarrow>
        (\<exists>heartbeat. ft_HeartbeatAt st = Some heartbeat \<and> 0 \<le> i64 (later - heartbeat) \<and> i64 (later - heartbeat) \<le> go_div maxAge second))"
proof (intro conjI allI impI)
  show "\<exists>st. ReadRuntimeState (sc_unmarshal codecs) (cw_row w') = Some (st, True) \<and> ft_HeartbeatAt st = Some (ce_now env) \<and>
      (HealthyRuntimeState st True (ce_now env) maxAge \<longleftrightarrow> errs = [])"
    if "set errs \<inter> {ControllerStore, ControllerSettings, ControllerState, StateWrite} = {}"
    using run_honest [OF assms] that unfolding honest_def by blast
  show "w' = w" "\<not> cr_Checked r" if "set errs \<inter> {ControllerStore, ControllerSettings, ControllerState} \<noteq> {}"
    using run_untouched [OF assms(1) that] by blast+
  show "cw_row w' = cw_row w" if "StateWrite \<in> set errs" by (rule run_unwritten [OF assms(1) that])
  show "\<exists>heartbeat. ft_HeartbeatAt st = Some heartbeat \<and> 0 \<le> i64 (later - heartbeat) \<and> i64 (later - heartbeat) \<le> go_div maxAge second"
    if "ReadRuntimeState (sc_unmarshal codecs) (cw_row w') = Some (st, found) \<and> HealthyRuntimeState st found later maxAge" for st found later
    using that by (auto simp: HealthyRuntimeState_def Let_def split: option.splits if_splits)
qed

text \<open>A run that failed says so.\<close>

definition failedState :: RuntimeState where
  "failedState = DefaultRuntimeState\<lparr>ft_Mode := ModeActive, ft_HeartbeatAt := Some 1060, ft_LastCheckAt := Some 1060, ft_NextCheckAt := Some 1120,
     ft_LastError := boundedError (Some (errorText DependenciesIncomplete)) 500\<rparr>"

theorem controller_honest_witness:
  "\<exists>codecs r errs w' st. codecs = controlCodecs\<lparr>sc_marshal := \<lambda>s. if s = failedState then Some ''{'' else None, sc_unmarshal := \<lambda>_. Some failedState\<rparr> \<and>
     RunForced (confirmCodec sampleMoved) confirmPublisher codecs (controlEnv\<lparr>ce_wired := False\<rparr>) \<lparr>cw_world = twoWorld, cw_row = RowMissing\<rparr> = ((r, errs), w') \<and>
     ReadRuntimeState (sc_unmarshal codecs) (cw_row w') = Some (st, True) \<and> errs \<noteq> [] \<and> \<not> HealthyRuntimeState st True 1060 (120 * second)"
proof -
  let ?codecs = "controlCodecs\<lparr>sc_marshal := \<lambda>s. if s = failedState then Some ''{'' else None, sc_unmarshal := \<lambda>_. Some failedState\<rparr>"
  let ?w = "\<lparr>cw_world = twoWorld, cw_row = RowMissing\<rparr>" and ?env = "controlEnv\<lparr>ce_wired := False\<rparr>"
  have c: "row_reads_back ?codecs row" for row by (simp add: row_reads_back_def state_codec_def)
  have r: "\<exists>r. RunForced (confirmCodec sampleMoved) confirmPublisher ?codecs ?env ?w = ((r, [DependenciesIncomplete]), ?w\<lparr>cw_row := Row ''{''\<rparr>)"
    by (simp add: RunForced_def controllerRun_def runCheck_def Let_def controlEnv_def default_durations ReadRuntimeState_def ModeActive_def ModeOff_def
        recordRunError_def writeState_def storeState_def writtenState_def failedState_def DefaultRuntimeState_def go_div_def second_def i64_def)
  then obtain r where run: "RunForced (confirmCodec sampleMoved) confirmPublisher ?codecs ?env ?w = ((r, [DependenciesIncomplete]), ?w\<lparr>cw_row := Row ''{''\<rparr>)" by blast
  have "\<exists>st. ReadRuntimeState (sc_unmarshal ?codecs) (Row ''{'') = Some (st, True) \<and> \<not> HealthyRuntimeState st True 1060 (120 * second)"
    using controller_honest [OF run [unfolded RunForced_def] c, of "120 * second", THEN conjunct1] by (auto simp: controlEnv_def second_def)
  then show ?thesis using run by fastforce
qed

end
