(* ===== verification/Week.thy ===== *)
theory Week
  imports Prelude
begin

text \<open>
  The natural week of the usage store (\<open>naturalWeekBounds\<close> of \<open>internal/usage/writer.go\<close>) with the
  parts of package \<open>time\<close> it calls. A \<open>time.Location\<close> is its name and its lookup: for an instant, the
  offset from UTC and the stretch \<open>[start, end)\<close> in which that offset is in force. The rules of the
  zones are the system's zone database, so a location is an argument. An instant is a number of
  seconds since 1970; a civil time is the number of seconds of the wall clock since the same date,
  so that civil day 0 is a Thursday. The wrap-around of package \<open>time\<close> at years beyond \<open>2 ^ 33\<close> is
  not modelled.
\<close>

section \<open>Definitions\<close>

record zone =
  zn_Name :: string
  zn_lookup :: "int64 \<Rightarrow> int64 \<times> int64 \<times> int64"

definition zoneAlpha :: int64 where "zoneAlpha = - (2 ^ 63)"

definition zoneOmega :: int64 where "zoneOmega = 2 ^ 63 - 1"

definition fixedZone :: "string \<Rightarrow> int \<Rightarrow> zone" where
  "fixedZone name offset = \<lparr>zn_Name = name, zn_lookup = (\<lambda>_. (offset, zoneAlpha, zoneOmega))\<rparr>"

definition utcZone :: zone where "utcZone = fixedZone ''UTC'' 0"

definition daySeconds :: int where "daySeconds = 86400"

text \<open>The wall clock at an instant, and its weekday, Sunday being 0.\<close>

definition civilOf :: "zone \<Rightarrow> int64 \<Rightarrow> int" where
  "civilOf z t = t + fst (zn_lookup z t)"

definition civilDay :: "int \<Rightarrow> int" where
  "civilDay c = c div daySeconds"

definition goWeekday :: "int \<Rightarrow> int" where
  "goWeekday day = (day + 4) mod 7"

text \<open>
  \<open>time.Date\<close>: the offset is looked up as if the civil time were UTC, and once more if the instant it
  gives is outside the stretch of that offset.
\<close>

definition goDate :: "zone \<Rightarrow> int \<Rightarrow> int64" where
  "goDate z c =
     (case zn_lookup z c of (offset, since, until) \<Rightarrow>
        if offset = 0 then c
        else (let utc = c - offset
              in if utc < since \<or> until \<le> utc then c - fst (zn_lookup z utc) else utc))"

text \<open>\<open>Time.AddDate(0, 0, n)\<close>: the same wall clock \<open>n\<close> days later.\<close>

definition addDays :: "zone \<Rightarrow> int64 \<Rightarrow> int \<Rightarrow> int64" where
  "addDays z t n = goDate z (civilOf z t + n * daySeconds)"

definition naturalWeekBounds :: "int64 \<Rightarrow> zone option \<Rightarrow> int64 \<times> int64" where
  "naturalWeekBounds timestamp location =
     (let z = (case location of None \<Rightarrow> utcZone | Some z \<Rightarrow> z);
          daysSinceMonday = (goWeekday (civilDay (civilOf z timestamp)) + 6) mod 7;
          startDate = addDays z timestamp (- daysSinceMonday);
          start = goDate z (civilDay (civilOf z startDate) * daySeconds);
          end = addDays z start 7
      in (start, end))"

abbreviation weekStart :: "zone \<Rightarrow> int64 \<Rightarrow> int64" where
  "weekStart z t \<equiv> fst (naturalWeekBounds t (Some z))"

section \<open>Lemmas\<close>

text \<open>A stretch around an instant in which the offset does not change.\<close>

definition steady :: "zone \<Rightarrow> int \<Rightarrow> int64 \<Rightarrow> int64 \<Rightarrow> bool" where
  "steady z offset lo hi \<longleftrightarrow>
     (\<exists>since until. since \<le> lo \<and> hi < until \<and> (\<forall>x. lo \<le> x \<longrightarrow> x \<le> hi \<longrightarrow> zn_lookup z x = (offset, since, until)))"

lemma steady_civil: "steady z off lo hi \<Longrightarrow> lo \<le> t \<Longrightarrow> t \<le> hi \<Longrightarrow> civilOf z t = t + off"
  by (auto simp: steady_def civilOf_def)

lemma steady_date:
  assumes "steady z off lo hi" "lo \<le> c" "c \<le> hi" "lo \<le> c - off" "c - off \<le> hi"
  shows "goDate z c = c - off"
  using assms unfolding steady_def goDate_def Let_def by auto

definition weekOf :: "int \<Rightarrow> int64 \<Rightarrow> int64" where
  "weekOf off t = (let day = (t + off) div 86400 in (day - (day + 3) mod 7) * 86400 - off)"

lemma weekOf_bounds:
  fixes off t :: int
  shows "weekOf off t \<le> t" "t < weekOf off t + 604800" "(weekOf off t + off) mod 86400 = 0" "((weekOf off t + off) div 86400 + 3) mod 7 = 0"
proof -
  define day where "day = (t + off) div 86400"
  define k where "k = (day + 3) mod 7"
  have w: "weekOf off t + off = (day - k) * 86400" by (simp add: weekOf_def day_def k_def Let_def)
  have k: "0 \<le> k" "k \<le> 6" unfolding k_def using pos_mod_bound [of 7 "day + 3"] by simp_all
  have d: "day * 86400 \<le> t + off" "t + off < day * 86400 + 86400"
    unfolding day_def using div_mult_mod_eq [of "t + off" 86400] pos_mod_bound [of 86400 "t + off"] pos_mod_sign [of 86400 "t + off"] by linarith+
  show "weekOf off t \<le> t" using w k d by simp
  show "t < weekOf off t + 604800" using w k d by simp
  show "(weekOf off t + off) mod 86400 = 0" unfolding w by simp
  show "((weekOf off t + off) div 86400 + 3) mod 7 = 0" unfolding w k_def by simp presburger
qed

lemma weekOf_same:
  assumes "weekOf off t \<le> t'" "t' < weekOf off t + 604800"
  shows "weekOf off t' = weekOf off t"
proof -
  note a = weekOf_bounds [where off = off and t = t] and b = weekOf_bounds [where off = off and t = t']
  obtain x where x: "weekOf off t + off = x * 86400" using a(3) by (metis mod_0_imp_dvd dvdE mult.commute)
  obtain y where y: "weekOf off t' + off = y * 86400" using b(3) by (metis mod_0_imp_dvd dvdE mult.commute)
  have "(x + 3) mod 7 = 0" "(y + 3) mod 7 = 0" using a(4) b(4) by (simp_all add: x y)
  moreover have "\<bar>x - y\<bar> < 7" using assms a(1,2) b(1,2) x y by linarith
  ultimately have "x = y" by presburger
  then show ?thesis using x y by simp
qed

lemma steady_week:
  assumes s: "steady z off (t - 864000) (t + 864000)" and o: "\<bar>off\<bar> \<le> 86400"
  shows "naturalWeekBounds t (Some z) = (weekOf off t, weekOf off t + 604800)"
proof -
  define day where "day = (t + off) div 86400"
  define k where "k = (day + 3) mod 7"
  have k: "0 \<le> k" "k \<le> 6" unfolding k_def using pos_mod_bound [of 7 "day + 3"] by simp_all
  have kk: "((day + 4) mod 7 + 6) mod 7 = k" unfolding k_def by presburger
  have w: "weekOf off t = (day - k) * 86400 - off" by (simp add: weekOf_def day_def k_def Let_def)
  have d: "day * 86400 \<le> t + off" "t + off < day * 86400 + 86400"
    unfolding day_def using div_mult_mod_eq [of "t + off" 86400] pos_mod_bound [of 86400 "t + off"] pos_mod_sign [of 86400 "t + off"] by linarith+
  have c: "civilOf z x = x + off" if "t - 864000 \<le> x" "x \<le> t + 864000" for x using steady_civil [OF s that] .
  have g: "goDate z x = x - off" if "t - 777600 \<le> x" "x \<le> t + 777600" for x
    using steady_date [OF s, of x] that o by linarith
  have s1: "addDays z t (- k) = t - k * 86400"
    unfolding addDays_def daySeconds_def using c [of t] g [of "t + off - k * 86400"] k o by simp
  have "civilDay (civilOf z (t - k * 86400)) = day - k"
  proof -
    have "civilOf z (t - k * 86400) = (t + off) + (- k) * 86400" using c [of "t - k * 86400"] k by simp
    then show ?thesis unfolding civilDay_def daySeconds_def day_def by (simp only: div_mult_self1 [of 86400 "t + off" "- k", simplified mult.commute])
  qed
  moreover have "goDate z ((day - k) * 86400) = weekOf off t" unfolding w using g [of "(day - k) * 86400"] d k o by (simp add: algebra_simps)
  moreover have "addDays z (weekOf off t) 7 = weekOf off t + 604800"
    unfolding addDays_def daySeconds_def using c [of "weekOf off t"] g [of "weekOf off t + off + 604800"] weekOf_bounds(1,2) [where off = off and t = t] o by simp
  ultimately show ?thesis
    unfolding naturalWeekBounds_def goWeekday_def Let_def option.case
    using s1 kk c [of t] by (simp add: civilDay_def day_def [symmetric] daySeconds_def)
qed

section \<open>Properties\<close>

text \<open>
  The week is a week. Where the location keeps its offset in the ten days around an instant, the
  bounds contain the instant, are seven days apart, start on a Monday at midnight of the wall clock,
  and are the same for every instant between them at which the offset is still steady: the weeks
  partition time, so every event is counted in one bucket.
\<close>

theorem naturalWeekBounds_week:
  assumes "steady z off (t - 864000) (t + 864000)" "\<bar>off\<bar> \<le> 86400" "naturalWeekBounds t (Some z) = (since, until)"
  shows "since \<le> t \<and> t < until \<and> until = since + 7 * daySeconds \<and>
    civilOf z since mod daySeconds = 0 \<and> goWeekday (civilDay (civilOf z since)) = 1 \<and>
    (\<forall>t'. since \<le> t' \<longrightarrow> t' < until \<longrightarrow> steady z off (t' - 864000) (t' + 864000) \<longrightarrow> naturalWeekBounds t' (Some z) = (since, until))"
proof -
  have w: "since = weekOf off t" "until = weekOf off t + 604800" using steady_week [OF assms(1,2)] assms(3) by simp_all
  note b = weekOf_bounds [where off = off and t = t]
  have c: "civilOf z since = since + off" using steady_civil [OF assms(1), of since] b(1,2) w by simp
  have "(d + 4) mod 7 = 1" if "(d + 3) mod 7 = 0" for d :: int using that by presburger
  from this [OF b(4)] have "goWeekday ((weekOf off t + off) div 86400) = 1" by (simp only: goWeekday_def)
  moreover have "naturalWeekBounds t' (Some z) = (since, until)"
    if "since \<le> t'" "t' < until" "steady z off (t' - 864000) (t' + 864000)" for t'
    using steady_week [OF that(3) assms(2)] weekOf_same [of off t t'] that(1,2) w by simp
  ultimately show ?thesis using b c unfolding w daySeconds_def civilDay_def by simp
qed

theorem naturalWeekBounds_week_witness:
  "naturalWeekBounds 1760000000 (Some (fixedZone ''Asia/Shanghai'' 28800)) = (1759680000, 1760284800) \<and>
   civilOf (fixedZone ''Asia/Shanghai'' 28800) 1759680000 mod daySeconds = 0 \<and>
   goWeekday (civilDay (civilOf (fixedZone ''Asia/Shanghai'' 28800) 1759680000)) = 1"
proof -
  let ?z = "fixedZone ''Asia/Shanghai'' 28800"
  have e: "naturalWeekBounds 1760000000 (Some ?z) = (1759680000, 1760284800)" by code_simp
  have s: "steady ?z 28800 (1760000000 - 864000) (1760000000 + 864000)"
    unfolding steady_def by (intro exI [of _ zoneAlpha] exI [of _ zoneOmega]) (simp add: fixedZone_def zoneAlpha_def zoneOmega_def)
  show ?thesis using naturalWeekBounds_week [OF s _ e] e by simp
qed

end
