(* ===== verification/Usage_Events.thy ===== *)
theory Usage_Events
  imports Quota_Refresh Sha256 Week
begin

text \<open>
  The usage events of \<open>internal/usage/writer.go\<close> before they reach the database: reading the dynamic
  values of a decoded event (\<open>stringValue\<close>, \<open>nonNegativeInt\<close>, \<open>eventTimestamp\<close>, \<open>truthy\<close>), the identity
  of a key (\<open>keyHash\<close>), the identity of an event (\<open>usageEventKey\<close>), and the weight of its tokens (the
  multipliers of \<open>multiplier_policy.go\<close> and their policy version), up to \<open>normalizeEvent\<close>.

  What the code calls of packages \<open>time\<close>, \<open>strconv\<close>, \<open>fmt\<close> and \<open>encoding/json\<close> for zones, for dates in
  text, for floating-point text and for JSON text is the record \<open>usage_lib\<close>, an argument. An event is
  the object \<open>encoding/json\<close> decoded.
\<close>

section \<open>Definitions\<close>

record usage_lib =
  ul_zone :: "string \<Rightarrow> zone option"
  ul_parseFloat :: parse_float
  ul_parseTime :: "string \<Rightarrow> string \<Rightarrow> int64 option"
  ul_sprintFloat :: "float64 \<Rightarrow> string"
  ul_formatFloat :: "float64 \<Rightarrow> string"
  ul_encode :: "goany \<Rightarrow> string option"

type_synonym event = "(string \<times> goany) list"

definition has_suffix :: "string \<Rightarrow> string \<Rightarrow> bool" where
  "has_suffix p s \<longleftrightarrow> has_prefix (rev p) (rev s)"

subsection \<open>Numbers in text\<close>

definition parseDigits :: "string \<Rightarrow> int option" where
  "parseDigits s =
     (if s = [] \<or> \<not> list_all is_digit s then None
      else Some (foldl (\<lambda>n c. n * 10 + (int (byte c) - 48)) 0 s))"

definition parseInteger :: "string \<Rightarrow> int option" where
  "parseInteger s =
     (case s of
        [] \<Rightarrow> None
      | c # r \<Rightarrow> if c = CHR ''+'' then parseDigits r
                 else if c = CHR ''-'' then map_option uminus (parseDigits r)
                 else parseDigits s)"

text \<open>\<open>strconv.ParseInt(s, 10, 64)\<close>, and its value where the error is ignored.\<close>

definition parseInt64 :: "string \<Rightarrow> int64 option" where
  "parseInt64 s = (case parseInteger s of None \<Rightarrow> None | Some n \<Rightarrow> if in_i64 n then Some n else None)"

definition parseIntValue :: "string \<Rightarrow> int64" where
  "parseIntValue s = (case parseInteger s of None \<Rightarrow> 0 | Some n \<Rightarrow> max (- (2 ^ 63)) (min (2 ^ 63 - 1) n))"

subsection \<open>Dynamic values\<close>

text \<open>\<open>fmt.Sprint\<close>.\<close>

fun sprintAny :: "(float64 \<Rightarrow> string) \<Rightarrow> goany \<Rightarrow> string" where
  "sprintAny ff ANil = ''<nil>''"
| "sprintAny ff (ABool b) = (if b then ''true'' else ''false'')"
| "sprintAny ff (AFloat x) = ff x"
| "sprintAny ff (AInt n) = formatInt n"
| "sprintAny ff (AInt64 n) = formatInt n"
| "sprintAny ff (ANumber s) = s"
| "sprintAny ff (AString s) = s"
| "sprintAny ff (AList xs) = ''['' @ join_strings '' '' (map (sprintAny ff) xs) @ '']''"
| "sprintAny ff (AObject m) =
     ''map['' @ join_strings '' '' (map (\<lambda>(k, s). k @ '':'' @ s) (sort_key fst (map (\<lambda>(k, v). (k, sprintAny ff v)) m))) @ '']''"

definition stringValue :: "usage_lib \<Rightarrow> goany \<Rightarrow> string" where
  "stringValue lib value =
     (case value of ANil \<Rightarrow> [] | AString s \<Rightarrow> s | _ \<Rightarrow> sprintAny (ul_sprintFloat lib) value)"

fun nonNegativeInt :: "usage_lib \<Rightarrow> goany \<Rightarrow> int64" where
  "nonNegativeInt lib (AInt n) = max n 0"
| "nonNegativeInt lib (AInt64 n) = max n 0"
| "nonNegativeInt lib (ABool b) = (if b then 1 else 0)"
| "nonNegativeInt lib (AFloat x) =
     (if is_nan x \<or> is_inf x \<or> f64_lt (Finite (2 ^ 63)) x \<or> f64_lt x (Finite (- (2 ^ 63))) then 0 else max (f64_to_int64 x) 0)"
| "nonNegativeInt lib (ANumber s) =
     (case parseInt64 s of
        Some n \<Rightarrow> max n 0
      | None \<Rightarrow> (case ul_parseFloat lib s of Some x \<Rightarrow> max (f64_to_int64 x) 0 | None \<Rightarrow> 0))"
| "nonNegativeInt lib (AString s) = (case parseInt64 (trim_space s) of None \<Rightarrow> 0 | Some n \<Rightarrow> max n 0)"
| "nonNegativeInt lib _ = 0"

fun truthy :: "goany \<Rightarrow> bool" where
  "truthy ANil = False"
| "truthy (ABool b) = b"
| "truthy (AString s) = (s \<noteq> [])"
| "truthy (AInt n) = (n \<noteq> 0)"
| "truthy (AInt64 n) = (n \<noteq> 0)"
| "truthy (AFloat x) = (x \<noteq> Finite 0)"
| "truthy (ANumber s) = (s \<noteq> [] \<and> s \<noteq> ''0'')"
| "truthy (AList xs) = (xs \<noteq> [])"
| "truthy (AObject m) = (m \<noteq> [])"

definition boolInteger :: "bool \<Rightarrow> int" where
  "boolInteger b = (if b then 1 else 0)"

definition timeLayouts :: "string list" where
  "timeLayouts =
     [''2006-01-02T15:04:05.999999999Z07:00'', ''2006-01-02 15:04:05.999999999Z07:00'', ''2006-01-02 15:04:05'', ''2006-01-02'']"

fun eventTimestamp :: "usage_lib \<Rightarrow> goany \<Rightarrow> int64 \<Rightarrow> int64" where
  "eventTimestamp lib (AInt n) fallback = n"
| "eventTimestamp lib (AInt64 n) fallback = n"
| "eventTimestamp lib (AFloat x) fallback = f64_to_int64 x"
| "eventTimestamp lib (ANumber s) fallback =
     (case parseInt64 s of
        Some n \<Rightarrow> n
      | None \<Rightarrow> (case ul_parseFloat lib s of Some x \<Rightarrow> f64_to_int64 x | None \<Rightarrow> fallback))"
| "eventTimestamp lib (AString s) fallback =
     (case List.find (\<lambda>layout. ul_parseTime lib layout (trim_space s) \<noteq> None) timeLayouts of
        None \<Rightarrow> fallback
      | Some layout \<Rightarrow> the (ul_parseTime lib layout (trim_space s)))"
| "eventTimestamp lib _ fallback = fallback"

subsection \<open>Keys\<close>

definition keyHash :: "string \<Rightarrow> string" where
  "keyHash value =
     (let raw0 = trim_space value;
          raw = (if 7 \<le> length raw0 \<and> equal_fold (take 7 raw0) ''bearer '' then trim_space (drop 7 raw0) else raw0)
      in if raw = [] then [] else sha256_hex raw)"

definition businessEvent :: "usage_lib \<Rightarrow> event \<Rightarrow> bool" where
  "businessEvent lib payload \<longleftrightarrow> \<not> has_suffix ''/v1/models'' (norm_user (stringValue lib (obj_get (Some payload) ''endpoint'')))"

definition canonicalJSON :: "usage_lib \<Rightarrow> goany \<Rightarrow> string" where
  "canonicalJSON lib value =
     (case ul_encode lib value of
        None \<Rightarrow> ''null''
      | Some output \<Rightarrow> if output \<noteq> [] \<and> last output = CHR 0x0A then butlast output else output)"

definition usageEventKey :: "usage_lib \<Rightarrow> string \<Rightarrow> string \<Rightarrow> string \<Rightarrow> event \<Rightarrow> string" where
  "usageEventKey lib account requestID keyDigest payload =
     (if requestID \<noteq> [] then account @ '':'' @ keyDigest @ '':'' @ requestID
      else account @ '':sha256:'' @ sha256_hex (canonicalJSON lib (AObject
             ([(''account'', AString account), (''key_hash'', AString keyDigest)] @
              map (\<lambda>k. (k, obj_get (Some payload) k))
                [''timestamp'', ''endpoint'', ''model'', ''alias'', ''reasoning_effort'', ''failed'', ''tokens'']))))"

subsection \<open>Weights\<close>

definition reasoningMultiplierConfigBase :: string where
  "reasoningMultiplierConfigBase = ''user_quota.reasoning_multiplier.''"

definition ModelMultiplierConfigBase :: string where
  "ModelMultiplierConfigBase = ''user_quota.model_multiplier.''"

definition ReasoningMultiplierSettingKey :: "string \<Rightarrow> string" where
  "ReasoningMultiplierSettingKey effort = reasoningMultiplierConfigBase @ effort"

definition ModelMultiplierSettingKey :: "string \<Rightarrow> string" where
  "ModelMultiplierSettingKey model = ModelMultiplierConfigBase @ model"

definition reasoningEfforts :: "string list" where
  "reasoningEfforts =
     [''none'', ''minimal'', ''low'', ''medium'', ''high'', ''xhigh'', ''max'', ''ultra'', ''auto'', ''unknown'']"

definition ReasoningMultiplierDefinitions :: "(string \<times> float64) list" where
  "ReasoningMultiplierDefinitions =
     [(''none'', Finite 1), (''minimal'', Finite 1), (''low'', Finite 1), (''medium'', Finite 1), (''high'', Finite 1),
      (''xhigh'', Finite 1), (''max'', Finite 2), (''ultra'', Finite 3), (''auto'', Finite 1), (''unknown'', Finite 1)]"

definition modelMultiplierDefinitions :: "(string \<times> float64) list" where
  "modelMultiplierDefinitions =
     [(''codex-auto-review'', Finite 1), (''gpt-5.3-codex-spark'', Finite 1), (''gpt-5.4'', Finite 1), (''gpt-5.4-mini'', Finite 1),
      (''gpt-5.5'', Finite 1), (''gpt-5.6-luna'', Finite 1), (''gpt-5.6-sol'', Finite 1), (''gpt-5.6-terra'', Finite 1),
      (''gpt-6-astra'', Finite 4), (''gpt-image-1.5'', Finite 1), (''gpt-image-2'', Finite 1), (''unknown'', Finite 1)]"

record WeightPolicy =
  wp_ModelMultipliers :: "(string, float64) gomap"
  wp_ReasoningMultipliers :: "(string, float64) gomap"

text \<open>The two reads of a multiplier, by its setting key and by its bare name, with the fallback.\<close>

definition multiplierOr :: "(string, float64) gomap \<Rightarrow> string \<Rightarrow> string \<Rightarrow> float64 \<Rightarrow> float64" where
  "multiplierOr configuration settingKey name fallback =
     (case (case map_of configuration settingKey of Some v \<Rightarrow> Some v | None \<Rightarrow> map_of configuration name) of
        None \<Rightarrow> fallback
      | Some v \<Rightarrow> if is_nan v \<or> is_inf v \<or> f64_le v (Finite 0) then fallback else v)"

definition normalizedReasoningMultipliers :: "(string, float64) gomap \<Rightarrow> (string, float64) gomap" where
  "normalizedReasoningMultipliers configuration =
     map (\<lambda>effort. (effort, multiplierOr configuration (reasoningMultiplierConfigBase @ effort) effort
                       (if effort = ''max'' then Finite 2 else Finite 1))) reasoningEfforts"

definition normalizedModelMultipliers :: "(string, float64) gomap \<Rightarrow> (string, float64) gomap" where
  "normalizedModelMultipliers configuration =
     map (\<lambda>(model, default). (model, multiplierOr configuration (ModelMultiplierSettingKey model) model default)) modelMultiplierDefinitions"

definition normalizeModelMultiplier :: "string \<Rightarrow> string \<Rightarrow> string" where
  "normalizeModelMultiplier model alias =
     (let value = (if norm_user model = [] then norm_user alias else norm_user model)
      in if value \<in> set (map fst modelMultiplierDefinitions) then value else ''unknown'')"

definition normalizeReasoningEffort :: "usage_lib \<Rightarrow> goany \<Rightarrow> string" where
  "normalizeReasoningEffort lib value =
     (let effort = norm_user (stringValue lib value) in if effort \<in> set reasoningEfforts then effort else ''unknown'')"

text \<open>\<open>strconv.Quote\<close> of a multiplier's name: printable ASCII without quotes or backslashes.\<close>

definition quoteName :: "string \<Rightarrow> string" where
  "quoteName s = ''\"'' @ s @ ''\"''"

definition writeMultiplierPolicyMap :: "usage_lib \<Rightarrow> string \<Rightarrow> (string, float64) gomap \<Rightarrow> string" where
  "writeMultiplierPolicyMap lib name multipliers =
     quoteName name @ '':{'' @
     join_strings '','' (map (\<lambda>(key, value). quoteName key @ '':'' @
        (let raw = ul_formatFloat lib value in if CHR ''.'' \<in> set raw then raw else raw @ ''.0'')) (sort_key fst multipliers)) @ ''}''"

definition weightPolicyVersionPrefix :: string where
  "weightPolicyVersionPrefix = ''model-reasoning-''"

definition weightPolicyVersion :: "usage_lib \<Rightarrow> (string, float64) gomap \<Rightarrow> (string, float64) gomap \<Rightarrow> string" where
  "weightPolicyVersion lib modelMultipliers reasoningMultipliers =
     weightPolicyVersionPrefix @ take 12 (sha256_hex
       (''{'' @ writeMultiplierPolicyMap lib ''models'' modelMultipliers @ '','' @
        writeMultiplierPolicyMap lib ''reasoning'' reasoningMultipliers @ ''}''))"

subsection \<open>The normalized event\<close>

record identityRow =
  ir_KeyLabel :: string
  ir_UserEmail :: string
  ir_Account :: string
  ir_TeamID :: string
  ir_TeamMembershipVersion :: int64
  ir_FirstSeenAt :: int64
  ir_LastSeenAt :: int64

record normalizedEvent =
  ne_EventKey :: string
  ne_Account :: string
  ne_UserEmail :: string
  ne_KeyLabel :: string
  ne_OccurredAt :: int64
  ne_RequestID :: string
  ne_Provider :: string
  ne_Model :: string
  ne_Alias :: string
  ne_ReasoningEffort :: string
  ne_Endpoint :: string
  ne_Failed :: int
  ne_LatencyMS :: int64
  ne_InputTokens :: int64
  ne_OutputTokens :: int64
  ne_ReasoningTokens :: int64
  ne_CachedTokens :: int64
  ne_TotalTokens :: int64
  ne_QuotaMultiplier :: float64
  ne_WeightedTokens :: int64
  ne_WeightPolicyVersion :: string
  ne_TeamID :: string
  ne_TeamMembershipVersion :: int64

definition gfloat :: "(string, float64) gomap \<Rightarrow> string \<Rightarrow> float64" where
  "gfloat m k = (case map_of m k of None \<Rightarrow> Finite 0 | Some v \<Rightarrow> v)"

definition weightedTokens :: "int64 \<Rightarrow> float64 \<Rightarrow> int64" where
  "weightedTokens tokens multiplier =
     f64_to_int64 (f64_floor (f64_add (f64_mul (f64_of_int tokens) multiplier) (Finite (1 / 2))))"

record preparedEvent =
  pr_payload :: event
  pr_keyDigest :: string

definition requestOf :: "usage_lib \<Rightarrow> event \<Rightarrow> string" where
  "requestOf lib payload = trim_space (stringValue lib (obj_get (Some payload) ''request_id''))"

definition normalizeEvent ::
  "usage_lib \<Rightarrow> string \<Rightarrow> preparedEvent \<Rightarrow> identityRow \<Rightarrow> (string, float64) gomap \<Rightarrow> (string, float64) gomap \<Rightarrow> string \<Rightarrow> int64 \<Rightarrow> normalizedEvent" where
  "normalizeEvent lib account item identity modelMultipliers reasoningMultipliers policyVersion now =
     (let payload = pr_payload item; field = obj_get (Some payload); tokens = obj_get (as_object (field ''tokens''));
          inputTokens = nonNegativeInt lib (tokens ''input_tokens'');
          outputTokens = nonNegativeInt lib (tokens ''output_tokens'');
          stated = nonNegativeInt lib (tokens ''total_tokens'');
          totalTokens = (if stated = 0 \<and> (inputTokens \<noteq> 0 \<or> outputTokens \<noteq> 0) then i64 (inputTokens + outputTokens) else stated);
          model = trim_space (stringValue lib (field ''model''));
          alias0 = trim_space (stringValue lib (field ''alias''));
          alias = (if alias0 = [] then model else alias0);
          reasoningEffort = normalizeReasoningEffort lib (field ''reasoning_effort'');
          multiplier = f64_mul (gfloat modelMultipliers (normalizeModelMultiplier model alias)) (gfloat reasoningMultipliers reasoningEffort);
          requestID = requestOf lib payload
      in \<lparr>ne_EventKey = usageEventKey lib account requestID (pr_keyDigest item) payload,
          ne_Account = account, ne_UserEmail = ir_UserEmail identity, ne_KeyLabel = ir_KeyLabel identity,
          ne_OccurredAt = eventTimestamp lib (field ''timestamp'') now, ne_RequestID = requestID,
          ne_Provider = stringValue lib (field ''provider''), ne_Model = model, ne_Alias = alias,
          ne_ReasoningEffort = reasoningEffort, ne_Endpoint = stringValue lib (field ''endpoint''),
          ne_Failed = boolInteger (truthy (field ''failed'')), ne_LatencyMS = nonNegativeInt lib (field ''latency_ms''),
          ne_InputTokens = inputTokens, ne_OutputTokens = outputTokens,
          ne_ReasoningTokens = nonNegativeInt lib (tokens ''reasoning_tokens''),
          ne_CachedTokens = nonNegativeInt lib (tokens ''cached_tokens''), ne_TotalTokens = totalTokens,
          ne_QuotaMultiplier = multiplier, ne_WeightedTokens = weightedTokens totalTokens multiplier,
          ne_WeightPolicyVersion = policyVersion, ne_TeamID = ir_TeamID identity,
          ne_TeamMembershipVersion = max (ir_TeamMembershipVersion identity) 0\<rparr>)"

section \<open>Lemmas\<close>

lemma round_half_even_of_int [simp]: "round_half_even (of_int n) = n"
  by (simp add: round_half_even_def Let_def)

text \<open>Halves of odd integers below \<open>2 ^ 53\<close> are representable.\<close>

lemma f64_round_half:
  assumes "0 \<le> h" "h < 2 ^ 52"
  shows "f64_round (of_int h + 1 / 2) = Finite (of_int h + 1 / 2)"
proof -
  define q where "q = (of_int h + 1 / 2 :: rat)"
  define e where "e = max (- 1074) (log2_floor q - 52)"
  define g where "g = (2::rat) powi e"
  have q0: "0 < q" using assms(1) by (simp add: q_def add_nonneg_pos)
  have "h + 1 \<le> 2 ^ 52" using assms(2) by simp
  then have "of_int (h + 1) \<le> (of_int (2 ^ 52) :: rat)" by (simp only: of_int_le_iff)
  then have q1: "q < 2 ^ 52" by (simp add: q_def)
  have g: "0 < g" by (simp add: g_def)
  have "(2::rat) powi log2_floor q < 2 powi 52" using log2_floor_le [OF q0] q1 by (simp add: power_int_def)
  then have "log2_floor q < 52" by (metis linorder_not_less one_le_numeral power_int_increasing)
  then have e1: "e \<le> - 1" by (simp add: e_def)
  define n where "n = (2 * h + 1) * 2 ^ nat (- e - 1)"
  have "nat (- e) = Suc (nat (- e - 1))" using e1 by simp
  then have "of_int n * 2 = (of_int ((2 * h + 1) * 2 ^ nat (- e)) :: rat)" by (simp add: n_def)
  also have "\<dots> = of_int (2 * h + 1) / g" unfolding g_def using powi_neg_of_int [of e "2 * h + 1"] e1 by simp
  finally have "of_int n * 2 = (2 * q) / g" by (simp add: q_def algebra_simps)
  then have qg: "q / g = of_int n" by simp
  have "q < 2 ^ 1024" using q1 by (rule less_trans) (rule power_strict_increasing, simp_all)
  moreover have "of_int n * g = q" unfolding qg [symmetric] using g by simp
  ultimately show ?thesis
    using q0 unfolding q_def [symmetric] by (simp add: f64_round_def Let_def e_def [symmetric] g_def [symmetric] qg)
qed

text \<open>The weight with an integral multiplier is the product, as long as it stays below \<open>2 ^ 52\<close>.\<close>

lemma weightedTokens_exact:
  assumes "0 \<le> n" "0 \<le> m" "n < 2 ^ 53" "n * m < 2 ^ 52"
  shows "weightedTokens n (Finite (of_int m)) = n * m"
proof -
  have a: "f64_of_int n = Finite (of_int n)" using f64_round_of_int [of n] assms by (simp add: f64_of_int_def)
  have b: "f64_round (of_int n * of_int m) = Finite (of_int (n * m))" using f64_round_of_int [of "n * m"] assms by simp
  have c: "f64_round (of_int (n * m) + 1 / 2) = Finite (of_int (n * m) + 1 / 2)" using f64_round_half [of "n * m"] assms by simp
  have f: "\<lfloor>(of_int (n * m) + 1 / 2 :: rat)\<rfloor> = n * m" by linarith
  have i: "f64_to_int64 (Finite (of_int k)) = k" if "0 \<le> k" "k < 2 ^ 52" for k :: int using that by (simp add: in_i64_def)
  show ?thesis unfolding weightedTokens_def a f64_mul.simps b f64_add.simps c f64_floor.simps f
    by (rule i) (use assms in simp_all)
qed

text \<open>
  The catalogue the Configuration Center shows and the weights that are applied without a configuration
  agree on every effort but one.
\<close>

lemma reasoning_defaults_differ:
  assumes "effort \<in> set reasoningEfforts"
  shows "map_of ReasoningMultiplierDefinitions effort = map_of (normalizedReasoningMultipliers []) effort \<longleftrightarrow> effort \<noteq> ''ultra''"
  using assms by (auto simp: reasoningEfforts_def ReasoningMultiplierDefinitions_def normalizedReasoningMultipliers_def multiplierOr_def)

lemma model_defaults_agree: "normalizedModelMultipliers [] = modelMultiplierDefinitions"
  by (simp add: normalizedModelMultipliers_def multiplierOr_def modelMultiplierDefinitions_def)

end
