(* ===== verification/Usage_Writer.thy ===== *)
theory Usage_Writer
  imports Usage_Events
begin

text \<open>
  The usage database and its writer (\<open>internal/usage/writer.go\<close>, \<open>schema.go\<close>): identities, events, the
  materialized weekly usage of each user, and the two ways the weekly usage comes about, event by event
  in \<open>IngestEvents\<close> and from all events in \<open>rebuildWeeklyUsage\<close>.

  A table is an association list by its primary key; events and adjustments carry their row id and are
  kept in the order of the ids. Integers of a column are 64 bits wide: where SQLite adds two of them and
  the sum does not fit, it stores the floating-point sum (\<open>sqladd\<close>); Go's sums wrap around. A transaction
  that cannot begin, or one of whose statements the database refuses, is \<open>BeginFault\<close>; one that cannot
  commit is \<open>CommitFault\<close>: both leave the tables as they were.
\<close>

section \<open>Definitions\<close>

subsection \<open>The database\<close>

datatype sqlnum = SqlInt int64 | SqlReal float64

fun sqladd :: "sqlnum \<Rightarrow> int64 \<Rightarrow> sqlnum" where
  "sqladd (SqlInt a) b = (if in_i64 (a + b) then SqlInt (a + b) else SqlReal (f64_add (f64_of_int a) (f64_of_int b)))"
| "sqladd (SqlReal x) b = SqlReal (f64_add x (f64_of_int b))"

record weeklyRow =
  wr_TotalTokens :: sqlnum
  wr_WeightedTokens :: sqlnum
  wr_RequestCount :: int64
  wr_UpdatedAt :: int64

record policyRow =
  pw_WeeklyTokens :: "int64 option"
  pw_CreatedAt :: int64
  pw_UpdatedAt :: int64
  pw_CreatedBy :: string
  pw_ResetAt :: "int64 option"

record adjustmentRow =
  ad_UserEmail :: string
  ad_WeekStartAt :: int64
  ad_Action :: string
  ad_TokenAmount :: int64
  ad_Reason :: string
  ad_CreatedAt :: int64
  ad_CreatedBy :: string

record usagedb =
  ud_identities :: "(string, identityRow) gomap"
  ud_events :: "(int64 \<times> normalizedEvent) list"
  ud_meta :: "(string, string) gomap"
  ud_weekly :: "(string \<times> int64, weeklyRow) gomap"
  ud_policies :: "(string, policyRow) gomap"
  ud_adjustments :: "(int64 \<times> adjustmentRow) list"

datatype usage_error =
    UsageDatabase | UsageAccountRequired | UsageTimezone string | UsageScan | UsageMismatch
  | QuotaPolicyInvalid | ErrInvalidQuotaAction | ErrQuotaActionUnlimited string | ErrQuotaActionLimitExceeded string

text \<open>The database \<open>Initialize\<close> creates.\<close>

definition weeklyUsageTimezoneKey :: string where "weeklyUsageTimezoneKey = ''weekly_usage_timezone''"

definition defaultWeekTimezone :: string where "defaultWeekTimezone = ''Asia/Shanghai''"

definition initialUsage :: usagedb where
  "initialUsage =
     \<lparr>ud_identities = [], ud_events = [], ud_meta = [(weeklyUsageTimezoneKey, defaultWeekTimezone)], ud_weekly = [], ud_policies = [],
      ud_adjustments = []\<rparr>"

definition usageTx :: "tx \<Rightarrow> (usagedb \<Rightarrow> usage_error + 'a \<times> usagedb) \<Rightarrow> usagedb \<Rightarrow> (usage_error + 'a) \<times> usagedb" where
  "usageTx tx operation db =
     (if tx = BeginFault then (Inl UsageDatabase, db)
      else (case operation db of
              Inl e \<Rightarrow> (Inl e, db)
            | Inr (a, db') \<Rightarrow> if tx = CommitFault then (Inl UsageDatabase, db) else (Inr a, db')))"

definition loadWeekTimezone :: "usage_lib \<Rightarrow> usagedb \<Rightarrow> usage_error + zone" where
  "loadWeekTimezone lib db =
     (let name = (case map_of (ud_meta db) weeklyUsageTimezoneKey of
                    Some stored \<Rightarrow> if trim_space stored \<noteq> [] then trim_space stored else defaultWeekTimezone
                  | None \<Rightarrow> defaultWeekTimezone)
      in case ul_zone lib name of None \<Rightarrow> Inl (UsageTimezone name) | Some z \<Rightarrow> Inr z)"

subsection \<open>Identities\<close>

record UsageIdentity =
  ui_Key :: string
  ui_Label :: string
  ui_UserEmail :: string
  ui_Account :: string

definition syncIdentity :: "int64 \<Rightarrow> string \<Rightarrow> UsageIdentity \<Rightarrow> (string, identityRow) gomap \<Rightarrow> (string, identityRow) gomap" where
  "syncIdentity now digest i rows =
     AList.update digest
       (case map_of rows digest of
          None \<Rightarrow> \<lparr>ir_KeyLabel = ui_Label i, ir_UserEmail = norm_user (ui_UserEmail i), ir_Account = trim_space (ui_Account i),
                   ir_TeamID = [], ir_TeamMembershipVersion = 0, ir_FirstSeenAt = now, ir_LastSeenAt = now\<rparr>
        | Some r \<Rightarrow> r\<lparr>ir_KeyLabel := ui_Label i, ir_UserEmail := norm_user (ui_UserEmail i), ir_Account := trim_space (ui_Account i),
                     ir_LastSeenAt := now\<rparr>) rows"

definition SyncIdentities :: "tx \<Rightarrow> int64 \<Rightarrow> UsageIdentity list \<Rightarrow> usagedb \<Rightarrow> (usage_error + nat) \<times> usagedb" where
  "SyncIdentities tx now identities db =
     (let rows = filter (\<lambda>i. keyHash (ui_Key i) \<noteq> []) identities
      in if rows = [] then (Inr 0, db)
         else usageTx tx (\<lambda>db. Inr (length rows,
                db\<lparr>ud_identities := fold (\<lambda>i. syncIdentity now (keyHash (ui_Key i)) i) rows (ud_identities db)\<rparr>)) db)"

record TeamIdentity =
  ti_TeamID :: string
  ti_MembershipVersion :: int64

definition syncTeam :: "string \<Rightarrow> TeamIdentity \<Rightarrow> (string, identityRow) gomap \<Rightarrow> (string, identityRow) gomap" where
  "syncTeam user team rows =
     map (\<lambda>(h, r). (h, if ir_UserEmail r = norm_user user
                       then r\<lparr>ir_TeamID := trim_space (ti_TeamID team), ir_TeamMembershipVersion := max (ti_MembershipVersion team) 0\<rparr> else r)) rows"

definition SyncUserTeams :: "tx \<Rightarrow> (string, TeamIdentity) gomap \<Rightarrow> usagedb \<Rightarrow> (usage_error + nat) \<times> usagedb" where
  "SyncUserTeams tx classifications db =
     (if classifications = [] then (Inr 0, db)
      else usageTx tx (\<lambda>db. Inr (length classifications,
             db\<lparr>ud_identities := fold (\<lambda>(user, team). syncTeam user team) (sort_key fst classifications) (ud_identities db)\<rparr>)) db)"

definition breakdownStartedAtKey :: string where "breakdownStartedAtKey = ''usage_breakdown_started_at''"

definition EnsureUsageBreakdownStarted :: "tx \<Rightarrow> int64 \<Rightarrow> usagedb \<Rightarrow> (usage_error + int64) \<times> usagedb" where
  "EnsureUsageBreakdownStarted tx now db =
     usageTx tx (\<lambda>db.
       let meta = (if has_key (ud_meta db) breakdownStartedAtKey then ud_meta db
                   else AList.update breakdownStartedAtKey (formatInt now) (ud_meta db));
           value = parseIntValue (gstring meta breakdownStartedAtKey)
       in Inr (max value 0, db\<lparr>ud_meta := meta\<rparr>)) db"

subsection \<open>Ingest\<close>

record IngestCounters =
  ic_Received :: int
  ic_Inserted :: int
  ic_Duplicate :: int
  ic_Unmapped :: int
  ic_MissingAPIKey :: int
  ic_UnknownAPIKey :: int
  ic_Ignored :: int

definition noCounters :: IngestCounters where
  "noCounters = \<lparr>ic_Received = 0, ic_Inserted = 0, ic_Duplicate = 0, ic_Unmapped = 0, ic_MissingAPIKey = 0, ic_UnknownAPIKey = 0, ic_Ignored = 0\<rparr>"

definition prepareEvent :: "usage_lib \<Rightarrow> event \<Rightarrow> IngestCounters \<times> preparedEvent list \<Rightarrow> IngestCounters \<times> preparedEvent list" where
  "prepareEvent lib e st =
     (case st of (c0, prepared) \<Rightarrow>
        let c = c0\<lparr>ic_Received := ic_Received c0 + 1\<rparr>
        in if \<not> businessEvent lib e then (c\<lparr>ic_Ignored := ic_Ignored c + 1\<rparr>, prepared)
           else (let digest = keyHash (trim_space (stringValue lib (obj_get (Some e) ''api_key'')))
                 in if digest = [] then (c\<lparr>ic_Unmapped := ic_Unmapped c + 1, ic_MissingAPIKey := ic_MissingAPIKey c + 1\<rparr>, prepared)
                    else (c, prepared @ [\<lparr>pr_payload = e, pr_keyDigest = digest\<rparr>])))"

definition prepareEvents :: "usage_lib \<Rightarrow> event list \<Rightarrow> IngestCounters \<times> preparedEvent list" where
  "prepareEvents lib events = fold (prepareEvent lib) events (noCounters, [])"

definition loadIdentities :: "preparedEvent list \<Rightarrow> usagedb \<Rightarrow> (string, identityRow) gomap" where
  "loadIdentities prepared db = filter (\<lambda>(h, r). h \<in> set (map pr_keyDigest prepared)) (ud_identities db)"

definition lastEventID :: "usagedb \<Rightarrow> int64" where
  "lastEventID db = fold max (map fst (ud_events db)) 0"

text \<open>The upsert of the weekly usage, and the insert of an event that is not there yet.\<close>

definition addWeekly :: "zone \<Rightarrow> int64 \<Rightarrow> normalizedEvent \<Rightarrow> (string \<times> int64, weeklyRow) gomap \<Rightarrow> (string \<times> int64, weeklyRow) gomap" where
  "addWeekly z now e rows =
     (let k = (ne_UserEmail e, fst (naturalWeekBounds (ne_OccurredAt e) (Some z)))
      in AList.update k
           (case map_of rows k of
              None \<Rightarrow> \<lparr>wr_TotalTokens = SqlInt (ne_TotalTokens e), wr_WeightedTokens = SqlInt (ne_WeightedTokens e), wr_RequestCount = 1, wr_UpdatedAt = now\<rparr>
            | Some r \<Rightarrow> \<lparr>wr_TotalTokens = sqladd (wr_TotalTokens r) (ne_TotalTokens e), wr_WeightedTokens = sqladd (wr_WeightedTokens r) (ne_WeightedTokens e),
                         wr_RequestCount = wr_RequestCount r + 1, wr_UpdatedAt = now\<rparr>) rows)"

definition hasEvent :: "usagedb \<Rightarrow> string \<Rightarrow> bool" where
  "hasEvent db key \<longleftrightarrow> key \<in> set (map (ne_EventKey \<circ> snd) (ud_events db))"

definition insertEvent :: "zone \<Rightarrow> int64 \<Rightarrow> normalizedEvent \<Rightarrow> usagedb \<Rightarrow> usagedb" where
  "insertEvent z now e db =
     db\<lparr>ud_events := ud_events db @ [(lastEventID db + 1, e)], ud_weekly := addWeekly z now e (ud_weekly db)\<rparr>"

definition ingestEvent ::
  "zone \<Rightarrow> int64 \<Rightarrow> (preparedEvent \<Rightarrow> identityRow \<Rightarrow> normalizedEvent) \<Rightarrow> (string, identityRow) gomap \<Rightarrow> preparedEvent \<Rightarrow>
   IngestCounters \<times> usagedb \<Rightarrow> IngestCounters \<times> usagedb" where
  "ingestEvent z now normal identities item st =
     (case st of (c, db) \<Rightarrow>
        (case map_of identities (pr_keyDigest item) of
           None \<Rightarrow> (c\<lparr>ic_Unmapped := ic_Unmapped c + 1, ic_UnknownAPIKey := ic_UnknownAPIKey c + 1\<rparr>, db)
         | Some identity \<Rightarrow>
             (let e = normal item identity
              in if hasEvent db (ne_EventKey e) then (c\<lparr>ic_Duplicate := ic_Duplicate c + 1\<rparr>, db)
                 else (c\<lparr>ic_Inserted := ic_Inserted c + 1\<rparr>, insertEvent z now e db))))"

definition weeklyUsageBackfillKey :: string where "weeklyUsageBackfillKey = ''weekly_usage_backfill_version''"

definition weeklyUsageBackfillVersion :: string where "weeklyUsageBackfillVersion = ''2''"

definition weeklyUsageLastEventIDKey :: string where "weeklyUsageLastEventIDKey = ''weekly_usage_last_event_id''"

definition markWeekly :: "int64 \<Rightarrow> usagedb \<Rightarrow> usagedb" where
  "markWeekly lastID db =
     db\<lparr>ud_meta := AList.update weeklyUsageLastEventIDKey (formatInt lastID)
          (AList.update weeklyUsageBackfillKey weeklyUsageBackfillVersion (ud_meta db))\<rparr>"

definition IngestEvents ::
  "usage_lib \<Rightarrow> tx \<Rightarrow> int64 \<Rightarrow> string \<Rightarrow> event list \<Rightarrow> WeightPolicy \<Rightarrow> usagedb \<Rightarrow> (usage_error + IngestCounters) \<times> usagedb" where
  "IngestEvents lib tx now account0 events policy db =
     (let account = trim_space account0
      in if account = [] then (Inl UsageAccountRequired, db)
         else (case prepareEvents lib events of (counters, prepared) \<Rightarrow>
           if prepared = [] then (Inr counters, db)
           else (let models = normalizedModelMultipliers (wp_ModelMultipliers policy);
                     reasoning = normalizedReasoningMultipliers (wp_ReasoningMultipliers policy);
                     version = weightPolicyVersion lib models reasoning
                 in usageTx tx (\<lambda>db.
                      case loadWeekTimezone lib db of
                        Inl e \<Rightarrow> Inl e
                      | Inr z \<Rightarrow>
                          (case fold (ingestEvent z now (\<lambda>item i. normalizeEvent lib account item i models reasoning version now)
                                        (loadIdentities prepared db)) prepared (counters, db) of
                             (c, db') \<Rightarrow> Inr (c, if ic_Inserted c > 0 then markWeekly (lastEventID db') db' else db'))) db)))"

subsection \<open>Rebuilding the weekly usage\<close>

record RebuildResult =
  rb_Backfilled :: bool
  rb_Events :: nat
  rb_Counters :: nat

text \<open>The weight of an event; events from before the weights count their tokens.\<close>

definition rebuildWeight :: "normalizedEvent \<Rightarrow> int64" where
  "rebuildWeight e =
     (if ne_WeightPolicyVersion e = ''legacy-v1'' \<and> ne_TotalTokens e > 0 \<and> ne_WeightedTokens e = 0 then ne_TotalTokens e else ne_WeightedTokens e)"

definition countEvent :: "zone \<Rightarrow> normalizedEvent \<Rightarrow> (string \<times> int64, int64 \<times> int64 \<times> int64) gomap \<Rightarrow> (string \<times> int64, int64 \<times> int64 \<times> int64) gomap" where
  "countEvent z e counters =
     (let k = (ne_UserEmail e, fst (naturalWeekBounds (ne_OccurredAt e) (Some z)));
          (raw, weighted, requests) = (case map_of counters k of None \<Rightarrow> (0, 0, 0) | Some v \<Rightarrow> v)
      in AList.update k (i64 (raw + ne_TotalTokens e), i64 (weighted + rebuildWeight e), i64 (requests + 1)) counters)"

definition rebuildWeeklyUsage :: "int64 \<Rightarrow> zone \<Rightarrow> usagedb \<Rightarrow> RebuildResult \<times> usagedb" where
  "rebuildWeeklyUsage now z db =
     (let rows = sort_key fst (ud_events db);
          counters = fold (countEvent z \<circ> snd) rows [];
          weekly = map (\<lambda>(k, raw, weighted, requests).
                     (k, \<lparr>wr_TotalTokens = SqlInt raw, wr_WeightedTokens = SqlInt weighted, wr_RequestCount = requests, wr_UpdatedAt = now\<rparr>))
                   (sort_key fst counters);
          lastID = (if rows = [] then 0 else fst (last rows))
      in (\<lparr>rb_Backfilled = False, rb_Events = length rows, rb_Counters = length counters\<rparr>, markWeekly lastID (db\<lparr>ud_weekly := weekly\<rparr>)))"

definition RebuildWeeklyUsage :: "usage_lib \<Rightarrow> tx \<Rightarrow> int64 \<Rightarrow> usagedb \<Rightarrow> (usage_error + RebuildResult) \<times> usagedb" where
  "RebuildWeeklyUsage lib tx now db =
     usageTx tx (\<lambda>db. case loadWeekTimezone lib db of
                        Inl e \<Rightarrow> Inl e
                      | Inr z \<Rightarrow> (case rebuildWeeklyUsage now z db of (r, db') \<Rightarrow> Inr (r\<lparr>rb_Backfilled := True\<rparr>, db'))) db"

definition EnsureWeekTimezone :: "usage_lib \<Rightarrow> tx \<Rightarrow> int64 \<Rightarrow> string \<Rightarrow> usagedb \<Rightarrow> (usage_error + bool) \<times> usagedb" where
  "EnsureWeekTimezone lib tx now timezone0 db =
     (let timezone = (if trim_space timezone0 = [] then defaultWeekTimezone else trim_space timezone0)
      in case ul_zone lib timezone of
           None \<Rightarrow> (Inl (UsageTimezone timezone), db)
         | Some z \<Rightarrow>
             usageTx tx (\<lambda>db.
               if gstring (ud_meta db) weeklyUsageTimezoneKey = timezone then Inr (False, db)
               else (let db1 = snd (rebuildWeeklyUsage now z db)
                     in Inr (True,
                          db1\<lparr>ud_adjustments := map (\<lambda>(i, a). (i, a\<lparr>ad_WeekStartAt := fst (naturalWeekBounds (ad_CreatedAt a) (Some z))\<rparr>)) (ud_adjustments db1),
                              ud_meta := AList.update weeklyUsageTimezoneKey timezone (ud_meta db1)\<rparr>))) db)"

subsection \<open>Status\<close>

definition truncateRunes :: "string \<Rightarrow> nat \<Rightarrow> string" where
  "truncateRunes value limit =
     (if limit = 0 then [] else (let runes = runesOf (length value) value in if length runes \<le> limit then value else concat (take limit runes)))"

definition UpdateCollectorStatus :: "tx \<Rightarrow> int64 \<Rightarrow> string \<Rightarrow> usagedb \<Rightarrow> (usage_error + unit) \<times> usagedb" where
  "UpdateCollectorStatus tx now lastError db =
     usageTx tx (\<lambda>db. Inr ((), db\<lparr>ud_meta := AList.update ''collector_last_error'' (truncateRunes lastError 500)
                                    (AList.update ''collector_heartbeat_at'' (formatInt now) (ud_meta db))\<rparr>)) db"

section \<open>Specification\<close>

text \<open>The bucket of an event, and what a bucket holds after some events: the sums over the events that fall into it.\<close>

definition bucket :: "zone \<Rightarrow> normalizedEvent \<Rightarrow> string \<times> int64" where
  "bucket z e = (ne_UserEmail e, weekStart z (ne_OccurredAt e))"

definition bucketEvents :: "zone \<Rightarrow> string \<times> int64 \<Rightarrow> normalizedEvent list \<Rightarrow> normalizedEvent list" where
  "bucketEvents z k es = filter (\<lambda>e. bucket z e = k) es"

definition bucketUsage :: "zone \<Rightarrow> normalizedEvent list \<Rightarrow> string \<times> int64 \<Rightarrow> (int64 \<times> int64 \<times> int64) option" where
  "bucketUsage z es k =
     (let b = bucketEvents z k es
      in if b = [] then None else Some (\<Sum>e\<leftarrow>b. ne_TotalTokens e, \<Sum>e\<leftarrow>b. rebuildWeight e, int (length b)))"

text \<open>The sums of every bucket fit into a column, whatever the signs.\<close>

definition fits :: "zone \<Rightarrow> normalizedEvent list \<Rightarrow> bool" where
  "fits z es \<longleftrightarrow> int (length es) < 2 ^ 63 \<and>
     (\<forall>k. (\<Sum>e\<leftarrow>bucketEvents z k es. \<bar>ne_TotalTokens e\<bar>) < 2 ^ 63 \<and> (\<Sum>e\<leftarrow>bucketEvents z k es. \<bar>rebuildWeight e\<bar>) < 2 ^ 63)"

definition rowUsage :: "weeklyRow \<Rightarrow> sqlnum \<times> sqlnum \<times> int64" where
  "rowUsage r = (wr_TotalTokens r, wr_WeightedTokens r, wr_RequestCount r)"

definition weekly_sums :: "zone \<Rightarrow> normalizedEvent list \<Rightarrow> (string \<times> int64, weeklyRow) gomap \<Rightarrow> bool" where
  "weekly_sums z es rows \<longleftrightarrow>
     (\<forall>k. map_option rowUsage (map_of rows k) = map_option (\<lambda>(a, b, c). (SqlInt a, SqlInt b, c)) (bucketUsage z es k))"

definition events_ok :: "usagedb \<Rightarrow> bool" where
  "events_ok db \<longleftrightarrow> sorted (map fst (ud_events db)) \<and> distinct (map fst (ud_events db)) \<and> (\<forall>i \<in> set (map fst (ud_events db)). 0 < i) \<and>
     distinct (map (ne_EventKey \<circ> snd) (ud_events db)) \<and> (\<forall>(i, e) \<in> set (ud_events db). ne_WeightPolicyVersion e \<noteq> ''legacy-v1'')"

definition usage_ok :: "usage_lib \<Rightarrow> usagedb \<Rightarrow> bool" where
  "usage_ok lib db \<longleftrightarrow> events_ok db \<and> wf_map (ud_identities db) \<and> wf_map (ud_weekly db) \<and>
     (\<forall>z. loadWeekTimezone lib db = Inr z \<longrightarrow> fits z (map snd (ud_events db)) \<longrightarrow> weekly_sums z (map snd (ud_events db)) (ud_weekly db))"

section \<open>Lemmas\<close>

lemma usageTx_Inr: "usageTx tx f db = (Inr a, db') \<Longrightarrow> f db = Inr (a, db')"
  by (auto simp: usageTx_def split: if_splits sum.splits prod.splits)

lemma usageTx_Inl: "usageTx tx f db = (Inl e, db') \<Longrightarrow> db' = db"
  by (auto simp: usageTx_def split: if_splits sum.splits prod.splits)

lemma usageTx_cases: "usageTx tx f db = (r, db') \<Longrightarrow> db' = db \<or> (\<exists>a. r = Inr a \<and> f db = Inr (a, db'))"
  by (auto simp: usageTx_def split: if_splits sum.splits prod.splits)

subsection \<open>Sums\<close>

lemma abs_sum_list: "\<bar>\<Sum>e\<leftarrow>xs. f e\<bar> \<le> (\<Sum>e\<leftarrow>xs. \<bar>f e\<bar>)" for f :: "'a \<Rightarrow> int"
  by (induction xs) auto

lemma bucketEvents_append [simp]: "bucketEvents z k (xs @ ys) = bucketEvents z k xs @ bucketEvents z k ys"
  by (simp add: bucketEvents_def)

lemma bucketEvents_one: "bucketEvents z k [e] = (if bucket z e = k then [e] else [])"
  by (simp add: bucketEvents_def)

lemma sum_abs_nonneg [simp]: "0 \<le> (\<Sum>e\<leftarrow>xs. \<bar>f e\<bar>)" for f :: "'a \<Rightarrow> int"
  by (induction xs) auto

lemma fits_prefix:
  assumes "fits z (es @ xs)"
  shows "fits z es"
proof -
  have le: "(\<Sum>e\<leftarrow>bucketEvents z k es. \<bar>f e\<bar>) \<le> (\<Sum>e\<leftarrow>bucketEvents z k (es @ xs). \<bar>f e\<bar>)" for k and f :: "normalizedEvent \<Rightarrow> int"
    by simp
  have "int (length es) < 2 ^ 63" using assms unfolding fits_def by simp
  then show ?thesis using order_le_less_trans [OF le] assms unfolding fits_def by blast
qed

lemma in_i64_abs: "\<bar>x\<bar> < 2 ^ 63 \<Longrightarrow> in_i64 x"
  unfolding in_i64_def by linarith

lemma fits_sums:
  assumes "fits z es"
  shows "in_i64 (\<Sum>e\<leftarrow>bucketEvents z k es. ne_TotalTokens e)" "in_i64 (\<Sum>e\<leftarrow>bucketEvents z k es. rebuildWeight e)"
    "in_i64 (int (length (bucketEvents z k es)))"
proof -
  have l: "length (bucketEvents z k es) \<le> length es" by (simp add: bucketEvents_def)
  show "in_i64 (int (length (bucketEvents z k es)))" using assms l unfolding fits_def in_i64_def by linarith
  show "in_i64 (\<Sum>e\<leftarrow>bucketEvents z k es. ne_TotalTokens e)" "in_i64 (\<Sum>e\<leftarrow>bucketEvents z k es. rebuildWeight e)"
    using assms abs_sum_list order_le_less_trans unfolding fits_def by (blast intro!: in_i64_abs)+
qed

lemma bucketUsage_snoc:
  "bucketUsage z (es @ [e]) k =
     (if bucket z e = k
      then (case bucketUsage z es k of
              None \<Rightarrow> Some (ne_TotalTokens e, rebuildWeight e, 1)
            | Some (a, b, c) \<Rightarrow> Some (a + ne_TotalTokens e, b + rebuildWeight e, c + 1))
      else bucketUsage z es k)"
  by (simp add: bucketUsage_def Let_def bucketEvents_one)

lemma fits_usage:
  assumes "fits z es" "bucketUsage z es k = Some (a, b, c)"
  shows "in_i64 a" "in_i64 b" "in_i64 c"
  using fits_sums [OF assms(1), of k] assms(2) by (auto simp: bucketUsage_def Let_def split: if_splits)

lemma addWeekly_sums:
  assumes s: "weekly_sums z es rows" and f: "fits z (es @ [e])" and w: "rebuildWeight e = ne_WeightedTokens e"
  shows "weekly_sums z (es @ [e]) (addWeekly z now e rows)"
  unfolding weekly_sums_def
proof
  fix k
  have s: "map_option rowUsage (map_of rows k) = map_option (\<lambda>(a, b, c). (SqlInt a, SqlInt b, c)) (bucketUsage z es k)"
    using s unfolding weekly_sums_def by blast
  show "map_option rowUsage (map_of (addWeekly z now e rows) k) = map_option (\<lambda>(a, b, c). (SqlInt a, SqlInt b, c)) (bucketUsage z (es @ [e]) k)"
  proof (cases "bucket z e = k")
    case False
    then show ?thesis using s by (auto simp: addWeekly_def bucketUsage_snoc bucket_def Let_def)
  next
    case True
    show ?thesis
    proof (cases "bucketUsage z es k")
      case None
      then show ?thesis using s True w by (auto simp: addWeekly_def bucketUsage_snoc bucket_def Let_def rowUsage_def)
    next
      case (Some v)
      obtain a b c where v: "bucketUsage z es k = Some (a, b, c)" using Some by (cases v) auto
      obtain r where r: "map_of rows k = Some r" "wr_TotalTokens r = SqlInt a" "wr_WeightedTokens r = SqlInt b" "wr_RequestCount r = c"
        using s v by (auto simp: rowUsage_def)
      have u: "bucketUsage z (es @ [e]) k = Some (a + ne_TotalTokens e, b + rebuildWeight e, c + 1)" using v True by (simp add: bucketUsage_snoc)
      show ?thesis using r u fits_usage [OF f u] True w by (auto simp: addWeekly_def bucket_def Let_def rowUsage_def)
    qed
  qed
qed

lemma map_of_countEvent:
  "map_of (countEvent z e m) k =
     (if bucket z e = k
      then (case (case map_of m k of None \<Rightarrow> (0, 0, 0) | Some v \<Rightarrow> v) of
              (raw, weighted, requests) \<Rightarrow> Some (i64 (raw + ne_TotalTokens e), i64 (weighted + rebuildWeight e), i64 (requests + 1)))
      else map_of m k)"
  by (auto simp: countEvent_def bucket_def Let_def split: prod.splits)

lemma countEvents_sums:
  assumes "fits z es"
  shows "map_of (fold (countEvent z) es []) k = bucketUsage z es k"
  using assms
proof (induction es rule: rev_induct)
  case Nil
  then show ?case by (simp add: bucketUsage_def bucketEvents_def)
next
  case (snoc e es)
  have ih: "map_of (fold (countEvent z) es []) k = bucketUsage z es k" using snoc fits_prefix by blast
  show ?case
  proof (cases "bucket z e = k")
    case False
    then show ?thesis using ih by (simp add: map_of_countEvent bucketUsage_snoc)
  next
    case True
    let ?old = "case bucketUsage z es k of None \<Rightarrow> (0, 0, 0) | Some v \<Rightarrow> v"
    obtain a b c where o: "?old = (a, b, c)" by (metis prod_cases3)
    have u: "bucketUsage z (es @ [e]) k = Some (a + ne_TotalTokens e, b + rebuildWeight e, c + 1)"
      using True o by (auto simp: bucketUsage_snoc split: option.splits)
    have "map_of (fold (countEvent z) (es @ [e]) []) k = Some (i64 (a + ne_TotalTokens e), i64 (b + rebuildWeight e), i64 (c + 1))"
      using True ih o by (simp add: map_of_countEvent)
    then show ?thesis using u fits_usage [OF snoc.prems u] by (simp add: i64_id)
  qed
qed

lemma wf_addWeekly [simp]: "wf_map rows \<Longrightarrow> wf_map (addWeekly z now e rows)"
  by (simp add: addWeekly_def Let_def)

lemma wf_countEvents: "wf_map m \<Longrightarrow> wf_map (fold (countEvent z) es m)"
  by (induction es arbitrary: m) (auto simp: countEvent_def Let_def split: prod.splits)

subsection \<open>Ingest\<close>

lemma fold_max_upper: "x \<le> m \<or> x \<in> set xs \<Longrightarrow> x \<le> fold max xs m" for x :: int
proof (induction xs arbitrary: m)
  case Nil
  then show ?case by simp
next
  case (Cons a xs)
  have "x \<le> max a m \<or> x \<in> set xs" using Cons.prems by (metis le_max_iff_disj order_refl set_ConsD)
  then show ?case using Cons.IH [of "max a m"] by simp
qed

lemma lastEventID_upper: "i \<in> set (map fst (ud_events db)) \<Longrightarrow> i \<le> lastEventID db"
  unfolding lastEventID_def using fold_max_upper by blast

lemma lastEventID_nonneg: "0 \<le> lastEventID db"
  unfolding lastEventID_def using fold_max_upper by blast

lemma events_ok_insert:
  assumes ok: "events_ok db" and new: "\<not> hasEvent db (ne_EventKey e)" "ne_WeightPolicyVersion e \<noteq> ''legacy-v1''"
  shows "events_ok (insertEvent z now e db)"
proof -
  have l: "\<forall>i \<in> set (map fst (ud_events db)). i < lastEventID db + 1" using lastEventID_upper [of _ db] by fastforce
  have ev: "ud_events (insertEvent z now e db) = ud_events db @ [(lastEventID db + 1, e)]" by (simp add: insertEvent_def)
  note o = ok [unfolded events_ok_def]
  have "sorted (map fst (ud_events db @ [(lastEventID db + 1, e)]))" using o l by (auto simp: sorted_append intro: less_imp_le)
  moreover have "distinct (map fst (ud_events db @ [(lastEventID db + 1, e)]))" using o l by auto
  moreover have "\<forall>i \<in> set (map fst (ud_events db @ [(lastEventID db + 1, e)])). 0 < i" using o lastEventID_nonneg [of db] by auto
  moreover have "distinct (map (ne_EventKey \<circ> snd) (ud_events db @ [(lastEventID db + 1, e)]))" using o new(1) by (simp add: hasEvent_def)
  ultimately show ?thesis using o new(2) unfolding events_ok_def ev by simp
qed

text \<open>One ingested event keeps the weekly usage in step, in the zone of the transaction.\<close>

definition in_step :: "zone \<Rightarrow> usagedb \<Rightarrow> bool" where
  "in_step z db \<longleftrightarrow> events_ok db \<and> wf_map (ud_weekly db) \<and>
     (fits z (map snd (ud_events db)) \<longrightarrow> weekly_sums z (map snd (ud_events db)) (ud_weekly db))"

lemma in_step_insert:
  assumes "in_step z db" "\<not> hasEvent db (ne_EventKey e)" "ne_WeightPolicyVersion e \<noteq> ''legacy-v1''"
  shows "in_step z (insertEvent z now e db)"
proof -
  have w: "rebuildWeight e = ne_WeightedTokens e" using assms(3) by (simp add: rebuildWeight_def)
  have "weekly_sums z (map snd (ud_events db) @ [e]) (addWeekly z now e (ud_weekly db))" if "fits z (map snd (ud_events db) @ [e])"
    using addWeekly_sums [OF _ that w] fits_prefix [OF that] assms(1) by (simp add: in_step_def)
  then show ?thesis using events_ok_insert [OF _ assms(2,3)] assms(1) by (simp add: in_step_def insertEvent_def)
qed

lemma version_not_legacy: "weightPolicyVersion lib models reasoning \<noteq> ''legacy-v1''"
  by (simp add: weightPolicyVersion_def weightPolicyVersionPrefix_def)

text \<open>What the loop over the prepared events does: only new events are inserted, the rest of the database stays.\<close>

definition loop_kept :: "usagedb \<Rightarrow> usagedb \<Rightarrow> bool" where
  "loop_kept db db' \<longleftrightarrow> db' = db\<lparr>ud_events := ud_events db', ud_weekly := ud_weekly db'\<rparr> \<and> (\<exists>new. ud_events db' = ud_events db @ new)"

lemma loop_kept_refl [simp]: "loop_kept db db" by (simp add: loop_kept_def)

lemma loop_kept_trans: "loop_kept a b \<Longrightarrow> loop_kept b c \<Longrightarrow> loop_kept a c"
  by (cases a; cases b; cases c) (auto simp: loop_kept_def)

lemma loop_kept_rest:
  assumes "loop_kept db db'"
  shows "ud_meta db' = ud_meta db" "ud_identities db' = ud_identities db" "ud_policies db' = ud_policies db" "ud_adjustments db' = ud_adjustments db"
proof -
  obtain e w where "db' = db\<lparr>ud_events := e, ud_weekly := w\<rparr>" using assms unfolding loop_kept_def by blast
  then show "ud_meta db' = ud_meta db" "ud_identities db' = ud_identities db" "ud_policies db' = ud_policies db" "ud_adjustments db' = ud_adjustments db"
    by simp_all
qed

lemma loop_kept_insert: "loop_kept db (insertEvent z now e db)" by (simp add: loop_kept_def insertEvent_def)

lemma ingestEvent_cases:
  assumes "ingestEvent z now normal identities item (c, db) = (c1, db1)"
  obtains (kept) "db1 = db" "ic_Inserted c1 = ic_Inserted c"
  | (inserted) i where "\<not> hasEvent db (ne_EventKey (normal item i))" "db1 = insertEvent z now (normal item i) db" "ic_Inserted c1 = ic_Inserted c + 1"
proof (cases "map_of identities (pr_keyDigest item)")
  case None
  then have "db1 = db" "ic_Inserted c1 = ic_Inserted c" using assms by (auto simp: ingestEvent_def)
  then show ?thesis by (rule kept)
next
  case (Some i)
  let ?e = "normal item i"
  have s: "ingestEvent z now normal identities item (c, db) =
      (if hasEvent db (ne_EventKey ?e) then (c\<lparr>ic_Duplicate := ic_Duplicate c + 1\<rparr>, db) else (c\<lparr>ic_Inserted := ic_Inserted c + 1\<rparr>, insertEvent z now ?e db))"
    by (simp add: ingestEvent_def Some)
  show ?thesis
  proof (cases "hasEvent db (ne_EventKey ?e)")
    case True
    then have "db1 = db" "ic_Inserted c1 = ic_Inserted c" using assms s by auto
    then show ?thesis by (rule kept)
  next
    case False
    then have "db1 = insertEvent z now ?e db" "ic_Inserted c1 = ic_Inserted c + 1" using assms s by auto
    then show ?thesis by (rule inserted [OF False])
  qed
qed

lemma ingest_loop:
  assumes "fold (ingestEvent z now normal identities) items (c, db) = (c', db')" "in_step z db"
    and legacy: "\<And>item i. ne_WeightPolicyVersion (normal item i) \<noteq> ''legacy-v1''"
  shows "in_step z db' \<and> loop_kept db db' \<and> ic_Inserted c \<le> ic_Inserted c' \<and> (ic_Inserted c' = ic_Inserted c \<longrightarrow> db' = db)"
  using assms(1,2)
proof (induction items arbitrary: c db)
  case Nil
  then show ?case by simp
next
  case (Cons item items)
  obtain c1 db1 where s: "ingestEvent z now normal identities item (c, db) = (c1, db1)" by fastforce
  have r: "fold (ingestEvent z now normal identities) items (c1, db1) = (c', db')" using Cons.prems(1) s by simp
  from s show ?case
  proof (cases rule: ingestEvent_cases)
    case kept
    then show ?thesis using Cons.IH [OF r] Cons.prems(2) by simp
  next
    case (inserted i)
    have "in_step z db1" using in_step_insert [OF Cons.prems(2) inserted(1) legacy] inserted(2) by simp
    then have "in_step z db' \<and> loop_kept db1 db' \<and> ic_Inserted c1 \<le> ic_Inserted c'" using Cons.IH [OF r] by blast
    then show ?thesis using loop_kept_trans [OF loop_kept_insert] inserted(2,3) by auto
  qed
qed

lemma markWeekly_meta: "map_of (ud_meta (markWeekly n db)) weeklyUsageTimezoneKey = map_of (ud_meta db) weeklyUsageTimezoneKey"
  by (simp add: markWeekly_def weeklyUsageTimezoneKey_def weeklyUsageLastEventIDKey_def weeklyUsageBackfillKey_def)

lemma loadWeekTimezone_cong:
  "map_of (ud_meta db') weeklyUsageTimezoneKey = map_of (ud_meta db) weeklyUsageTimezoneKey \<Longrightarrow> loadWeekTimezone lib db' = loadWeekTimezone lib db"
  by (simp add: loadWeekTimezone_def)

lemma usage_ok_cong:
  assumes "usage_ok lib db" "ud_events db' = ud_events db" "ud_weekly db' = ud_weekly db"
    "map_of (ud_meta db') weeklyUsageTimezoneKey = map_of (ud_meta db) weeklyUsageTimezoneKey" "wf_map (ud_identities db')"
  shows "usage_ok lib db'"
  using assms(1-3,5) loadWeekTimezone_cong [OF assms(4)] by (simp add: usage_ok_def events_ok_def)

lemma usage_ok_step: "usage_ok lib db \<Longrightarrow> loadWeekTimezone lib db = Inr z \<Longrightarrow> in_step z db"
  by (simp add: usage_ok_def in_step_def)

lemma IngestEvents_cases:
  assumes "IngestEvents lib tx now account events policy db = (r, db')"
  obtains (same) "db' = db"
  | (ran) z counters prepared c db1 where "loadWeekTimezone lib db = Inr z" "prepareEvents lib events = (counters, prepared)" "r = Inr c"
      "fold (ingestEvent z now (\<lambda>item i. normalizeEvent lib (trim_space account) item i (normalizedModelMultipliers (wp_ModelMultipliers policy))
          (normalizedReasoningMultipliers (wp_ReasoningMultipliers policy))
          (weightPolicyVersion lib (normalizedModelMultipliers (wp_ModelMultipliers policy)) (normalizedReasoningMultipliers (wp_ReasoningMultipliers policy))) now)
        (loadIdentities prepared db)) prepared (counters, db) = (c, db1)"
      "db' = (if ic_Inserted c > 0 then markWeekly (lastEventID db1) db1 else db1)"
proof -
  obtain counters prepared where p: "prepareEvents lib events = (counters, prepared)" by fastforce
  show ?thesis
    using assms p same ran unfolding IngestEvents_def Let_def
    by (auto split: if_splits sum.splits prod.splits dest!: usageTx_cases)
qed

lemma prepare_counts: "ic_Inserted (fst (fold (prepareEvent lib) es st)) = ic_Inserted (fst st)"
  by (induction es arbitrary: st) (auto simp: prepareEvent_def Let_def split: prod.splits)

lemma IngestEvents_ok:
  assumes ok: "usage_ok lib db" and run: "IngestEvents lib tx now account events policy db = (r, db')"
  shows "usage_ok lib db'"
  using run
proof (cases rule: IngestEvents_cases)
  case same
  then show ?thesis using ok by simp
next
  case (ran z counters prepared c db1)
  have l: "in_step z db1" "loop_kept db db1"
    using ingest_loop [OF ran(4) usage_ok_step [OF ok ran(1)]] by (simp_all add: normalizeEvent_def Let_def version_not_legacy)
  have m: "ud_meta db1 = ud_meta db" "ud_identities db1 = ud_identities db" using loop_kept_rest [OF l(2)] by simp_all
  have z: "loadWeekTimezone lib db' = Inr z"
    using ran(1,5) loadWeekTimezone_cong [of db' db lib] markWeekly_meta [of "lastEventID db1" db1] m(1) by simp
  have "ud_events db' = ud_events db1" "ud_weekly db' = ud_weekly db1" "ud_identities db' = ud_identities db"
    using ran(5) m(2) by (simp_all add: markWeekly_def)
  then show ?thesis using l(1) ok z unfolding usage_ok_def in_step_def events_ok_def by simp
qed

subsection \<open>Rebuilding\<close>

lemma map_of_sorted: "wf_map m \<Longrightarrow> map_of (sort_key fst m) = map_of m" for m :: "('k::linorder, 'v) gomap"
proof -
  assume wf: "wf_map m"
  then have "distinct (map fst (sort_key fst m))" by (simp add: wf_map_def distinct_map)
  then show ?thesis using wf map_of_inject_set [of "sort_key fst m" m] by (simp add: wf_map_def)
qed

lemma rebuild_parts:
  "ud_events (snd (rebuildWeeklyUsage now z db)) = ud_events db" "ud_identities (snd (rebuildWeeklyUsage now z db)) = ud_identities db"
  "ud_policies (snd (rebuildWeeklyUsage now z db)) = ud_policies db" "ud_adjustments (snd (rebuildWeeklyUsage now z db)) = ud_adjustments db"
  "map_of (ud_meta (snd (rebuildWeeklyUsage now z db))) weeklyUsageTimezoneKey = map_of (ud_meta db) weeklyUsageTimezoneKey"
  by (simp_all add: rebuildWeeklyUsage_def Let_def markWeekly_meta) (simp_all add: markWeekly_def)

lemma rebuild_weekly:
  assumes ok: "events_ok db"
  shows "wf_map (ud_weekly (snd (rebuildWeeklyUsage now z db)))"
    "fits z (map snd (ud_events db)) \<Longrightarrow> weekly_sums z (map snd (ud_events db)) (ud_weekly (snd (rebuildWeeklyUsage now z db)))"
proof -
  have id: "sort_key fst (ud_events db) = ud_events db" using ok by (simp add: events_ok_def sort_key_id_if_sorted)
  define counters where "counters = fold (countEvent z) (map snd (ud_events db)) []"
  define row where "row = (\<lambda>(raw, weighted, requests).
      \<lparr>wr_TotalTokens = SqlInt raw, wr_WeightedTokens = SqlInt weighted, wr_RequestCount = requests, wr_UpdatedAt = now\<rparr>)"
  have wf: "wf_map counters" by (simp add: counters_def wf_countEvents)
  have w: "ud_weekly (snd (rebuildWeeklyUsage now z db)) = map (\<lambda>(k, v). (k, row v)) (sort_key fst counters)"
    by (simp add: rebuildWeeklyUsage_def Let_def id counters_def fold_map row_def markWeekly_def case_prod_unfold comp_def)
  have m: "map fst (map (\<lambda>(k, v). (k, row v)) (sort_key fst counters)) = map fst (sort_key fst counters)" by (simp add: case_prod_unfold)
  show "wf_map (ud_weekly (snd (rebuildWeeklyUsage now z db)))" using wf unfolding w wf_map_def m by (simp add: distinct_map)
  assume f: "fits z (map snd (ud_events db))"
  have "map_of (map (\<lambda>(k, v). (k, row v)) (sort_key fst counters)) k = map_option row (bucketUsage z (map snd (ud_events db)) k)" for k
    using map_of_sorted [OF wf] countEvents_sums [OF f] by (simp add: map_of_map counters_def)
  then show "weekly_sums z (map snd (ud_events db)) (ud_weekly (snd (rebuildWeeklyUsage now z db)))"
    unfolding weekly_sums_def w by (auto simp: option.map_comp comp_def row_def rowUsage_def case_prod_unfold)
qed

lemma RebuildWeeklyUsage_ok:
  assumes ok: "usage_ok lib db" and run: "RebuildWeeklyUsage lib tx now db = (r, db')"
  shows "usage_ok lib db'"
proof -
  consider "db' = db" | z where "loadWeekTimezone lib db = Inr z" "db' = snd (rebuildWeeklyUsage now z db)"
    using run unfolding RebuildWeeklyUsage_def by (auto dest!: usageTx_cases split: sum.splits prod.splits)
  then show ?thesis
  proof cases
    case 1
    then show ?thesis using ok by simp
  next
    case (2 z)
    have e: "events_ok db" using ok by (simp add: usage_ok_def)
    have "loadWeekTimezone lib db' = Inr z" using loadWeekTimezone_cong [of db' db lib] rebuild_parts(5) [of now z db] 2 by simp
    then show ?thesis using ok rebuild_weekly [OF e, where now = now and z = z] rebuild_parts(1,2) [of now z db] 2(2) by (simp add: usage_ok_def events_ok_def)
  qed
qed

lemma EnsureWeekTimezone_cases:
  assumes "EnsureWeekTimezone lib tx now timezone db = (r, db')"
  obtains (same) "db' = db"
  | (moved) z name where "ul_zone lib name = Some z" "trim_space name = name" "name \<noteq> []" "r = Inr True"
      "db' = (snd (rebuildWeeklyUsage now z db))\<lparr>
         ud_adjustments := map (\<lambda>(i, a). (i, a\<lparr>ad_WeekStartAt := weekStart z (ad_CreatedAt a)\<rparr>)) (ud_adjustments (snd (rebuildWeeklyUsage now z db))),
         ud_meta := AList.update weeklyUsageTimezoneKey name (ud_meta (snd (rebuildWeeklyUsage now z db)))\<rparr>"
proof -
  let ?name = "if trim_space timezone = [] then defaultWeekTimezone else trim_space timezone"
  have "trim_space defaultWeekTimezone = defaultWeekTimezone" by code_simp
  then have n: "trim_space ?name = ?name" "?name \<noteq> []" by (simp_all add: defaultWeekTimezone_def)
  show ?thesis
    using assms same moved [OF _ n] unfolding EnsureWeekTimezone_def Let_def
    by (auto split: option.splits if_splits dest!: usageTx_cases)
qed

lemma EnsureWeekTimezone_ok:
  assumes ok: "usage_ok lib db" and run: "EnsureWeekTimezone lib tx now timezone db = (r, db')"
  shows "usage_ok lib db'"
  using run
proof (cases rule: EnsureWeekTimezone_cases)
  case same
  then show ?thesis using ok by simp
next
  case (moved z name)
  have e: "events_ok db" using ok by (simp add: usage_ok_def)
  have "loadWeekTimezone lib db' = Inr z" using moved(1-3) by (simp add: loadWeekTimezone_def moved(5))
  then show ?thesis using ok rebuild_weekly [OF e, where now = now and z = z] rebuild_parts(1,2) [of now z db] moved(5) by (simp add: usage_ok_def events_ok_def)
qed

subsection \<open>The other operations\<close>

lemma wf_syncIdentity [simp]: "wf_map rows \<Longrightarrow> wf_map (syncIdentity now digest i rows)"
  by (simp add: syncIdentity_def)

lemma wf_syncTeam [simp]: "wf_map (syncTeam user team rows) \<longleftrightarrow> wf_map rows"
  by (simp add: syncTeam_def wf_map_def comp_def case_prod_unfold)

lemma wf_fold_sync:
  "wf_map rows \<Longrightarrow> wf_map (fold (\<lambda>i. syncIdentity now (keyHash (ui_Key i)) i) xs rows)"
  "wf_map rows \<Longrightarrow> wf_map (fold (\<lambda>(user, team). syncTeam user team) ys rows)"
  by (induction xs arbitrary: rows) (simp_all, induction ys arbitrary: rows, auto)

lemma SyncIdentities_ok:
  assumes ok: "usage_ok lib db" and run: "SyncIdentities tx now identities db = (r, db')"
  shows "usage_ok lib db'"
proof -
  obtain rows where "wf_map rows" "db' = db\<lparr>ud_identities := rows\<rparr>"
    using run ok wf_fold_sync(1) [of "ud_identities db"] unfolding SyncIdentities_def Let_def usage_ok_def
    by (auto split: if_splits dest!: usageTx_cases)
  then show ?thesis using usage_ok_cong [OF ok] by simp
qed

lemma SyncUserTeams_ok:
  assumes ok: "usage_ok lib db" and run: "SyncUserTeams tx teams db = (r, db')"
  shows "usage_ok lib db'"
proof -
  obtain rows where "wf_map rows" "db' = db\<lparr>ud_identities := rows\<rparr>"
    using run ok wf_fold_sync(2) [of "ud_identities db"] unfolding SyncUserTeams_def Let_def usage_ok_def
    by (auto split: if_splits dest!: usageTx_cases)
  then show ?thesis using usage_ok_cong [OF ok] by simp
qed

lemma EnsureUsageBreakdownStarted_ok:
  assumes ok: "usage_ok lib db" and run: "EnsureUsageBreakdownStarted tx now db = (r, db')"
  shows "usage_ok lib db'"
proof -
  have k: "breakdownStartedAtKey \<noteq> weeklyUsageTimezoneKey" by (simp add: breakdownStartedAtKey_def weeklyUsageTimezoneKey_def)
  have "ud_events db' = ud_events db \<and> ud_weekly db' = ud_weekly db \<and> ud_identities db' = ud_identities db \<and>
      map_of (ud_meta db') weeklyUsageTimezoneKey = map_of (ud_meta db) weeklyUsageTimezoneKey"
    using run k unfolding EnsureUsageBreakdownStarted_def Let_def by (auto split: if_splits dest!: usageTx_cases)
  then show ?thesis using usage_ok_cong [OF ok, of db'] ok by (simp add: usage_ok_def)
qed

lemma UpdateCollectorStatus_ok:
  assumes ok: "usage_ok lib db" and run: "UpdateCollectorStatus tx now lastError db = (r, db')"
  shows "usage_ok lib db'"
proof -
  have k: "weeklyUsageTimezoneKey \<noteq> ''collector_last_error''" "weeklyUsageTimezoneKey \<noteq> ''collector_heartbeat_at''"
    by (simp_all add: weeklyUsageTimezoneKey_def)
  have "ud_events db' = ud_events db \<and> ud_weekly db' = ud_weekly db \<and> ud_identities db' = ud_identities db \<and>
      map_of (ud_meta db') weeklyUsageTimezoneKey = map_of (ud_meta db) weeklyUsageTimezoneKey"
    using run k unfolding UpdateCollectorStatus_def by (auto dest!: usageTx_cases)
  then show ?thesis using usage_ok_cong [OF ok, of db'] ok by (simp add: usage_ok_def)
qed

lemma initialUsage_ok: "usage_ok lib initialUsage"
  by (simp add: usage_ok_def events_ok_def initialUsage_def weekly_sums_def bucketUsage_def bucketEvents_def)

subsection \<open>Counting and repeating\<close>

text \<open>The digest of a business event, and the events that have one.\<close>

definition eventDigest :: "usage_lib \<Rightarrow> event \<Rightarrow> string" where
  "eventDigest lib e = (if businessEvent lib e then keyHash (trim_space (stringValue lib (obj_get (Some e) ''api_key''))) else [])"

lemma prepare_events:
  assumes "fold (prepareEvent lib) es (c, p) = (c', p')"
  shows "p' = p @ map (\<lambda>e. \<lparr>pr_payload = e, pr_keyDigest = eventDigest lib e\<rparr>) (filter (\<lambda>e. eventDigest lib e \<noteq> []) es) \<and>
    ic_Received c' = ic_Received c + int (length es) \<and>
    ic_Ignored c' + ic_Unmapped c' + int (length p') = ic_Ignored c + ic_Unmapped c + int (length p) + int (length es) \<and>
    ic_Unmapped c' - ic_MissingAPIKey c' = ic_Unmapped c - ic_MissingAPIKey c \<and>
    ic_Inserted c' = ic_Inserted c \<and> ic_Duplicate c' = ic_Duplicate c \<and> ic_UnknownAPIKey c' = ic_UnknownAPIKey c"
  using assms
proof (induction es arbitrary: c p)
  case Nil
  then show ?case by simp
next
  case (Cons e es)
  obtain c1 p1 where s: "prepareEvent lib e (c, p) = (c1, p1)" by fastforce
  have ih: "fold (prepareEvent lib) es (c1, p1) = (c', p')" using Cons.prems s by simp
  consider "eventDigest lib e = []" "p1 = p" "ic_Ignored c1 + ic_Unmapped c1 = ic_Ignored c + ic_Unmapped c + 1"
    | "eventDigest lib e \<noteq> []" "p1 = p @ [\<lparr>pr_payload = e, pr_keyDigest = eventDigest lib e\<rparr>]" "ic_Ignored c1 + ic_Unmapped c1 = ic_Ignored c + ic_Unmapped c"
    using s unfolding prepareEvent_def eventDigest_def Let_def by (auto split: if_splits)
  moreover have "ic_Received c1 = ic_Received c + 1 \<and> ic_Unmapped c1 - ic_MissingAPIKey c1 = ic_Unmapped c - ic_MissingAPIKey c \<and>
      ic_Inserted c1 = ic_Inserted c \<and> ic_Duplicate c1 = ic_Duplicate c \<and> ic_UnknownAPIKey c1 = ic_UnknownAPIKey c"
    using s unfolding prepareEvent_def Let_def by (auto split: if_splits)
  ultimately show ?case using Cons.IH [OF ih] by cases auto
qed

lemma ingestEvent_counts:
  assumes "ingestEvent z now normal identities item (c, db) = (c1, db1)"
  shows "ic_Inserted c1 + ic_Duplicate c1 + ic_Unmapped c1 = ic_Inserted c + ic_Duplicate c + ic_Unmapped c + 1"
    "ic_Unmapped c1 - ic_UnknownAPIKey c1 = ic_Unmapped c - ic_UnknownAPIKey c"
    "ic_Received c1 = ic_Received c" "ic_Ignored c1 = ic_Ignored c" "ic_MissingAPIKey c1 = ic_MissingAPIKey c"
    "int (length (ud_events db1)) - ic_Inserted c1 = int (length (ud_events db)) - ic_Inserted c"
  using assms by (auto simp: ingestEvent_def insertEvent_def Let_def split: option.splits if_splits)

lemma ingest_counts:
  assumes "fold (ingestEvent z now normal identities) items (c, db) = (c', db')"
  shows "ic_Inserted c' + ic_Duplicate c' + ic_Unmapped c' = ic_Inserted c + ic_Duplicate c + ic_Unmapped c + int (length items) \<and>
    ic_Unmapped c' - ic_UnknownAPIKey c' = ic_Unmapped c - ic_UnknownAPIKey c \<and>
    ic_Received c' = ic_Received c \<and> ic_Ignored c' = ic_Ignored c \<and> ic_MissingAPIKey c' = ic_MissingAPIKey c \<and>
    int (length (ud_events db')) - ic_Inserted c' = int (length (ud_events db)) - ic_Inserted c"
  using assms
proof (induction items arbitrary: c db)
  case Nil
  then show ?case by simp
next
  case (Cons item items)
  obtain c1 db1 where s: "ingestEvent z now normal identities item (c, db) = (c1, db1)" by fastforce
  have "fold (ingestEvent z now normal identities) items (c1, db1) = (c', db')" using Cons.prems s by simp
  from Cons.IH [OF this] show ?case using ingestEvent_counts [OF s] by simp
qed

text \<open>After the loop every event with an identity is there, and a second pass over the same events finds them.\<close>

lemma hasEvent_insert: "hasEvent (insertEvent z now e db) k \<longleftrightarrow> k = ne_EventKey e \<or> hasEvent db k"
  by (auto simp: hasEvent_def insertEvent_def)

lemma ingest_present:
  assumes "fold (ingestEvent z now normal identities) items (c, db) = (c', db')" and key: "\<And>item i. ne_EventKey (normal item i) = key item"
  shows "(\<forall>k. hasEvent db k \<longrightarrow> hasEvent db' k) \<and> (\<forall>item \<in> set items. has_key identities (pr_keyDigest item) \<longrightarrow> hasEvent db' (key item))"
  using assms(1)
proof (induction items arbitrary: c db)
  case Nil
  then show ?case by simp
next
  case (Cons item items)
  obtain c1 db1 where s: "ingestEvent z now normal identities item (c, db) = (c1, db1)" by fastforce
  have r: "fold (ingestEvent z now normal identities) items (c1, db1) = (c', db')" using Cons.prems s by simp
  have m: "hasEvent db1 k" if "hasEvent db k" for k
    using s that by (cases rule: ingestEvent_cases) (auto simp: hasEvent_insert)
  have h: "hasEvent db1 (key item)" if k: "has_key identities (pr_keyDigest item)"
  proof -
    obtain i where i: "map_of identities (pr_keyDigest item) = Some i" using k by (auto simp: has_key_map_of)
    show ?thesis
    proof (cases "hasEvent db (key item)")
      case True
      then show ?thesis by (rule m)
    next
      case False
      then have "db1 = insertEvent z now (normal item i) db" using s i key by (simp add: ingestEvent_def)
      then show ?thesis by (simp add: hasEvent_insert key)
    qed
  qed
  show ?case using Cons.IH [OF r] m h by auto
qed

lemma ingest_again:
  assumes key: "\<And>item i. ne_EventKey (normal item i) = key item" and "\<forall>item \<in> set items. has_key identities (pr_keyDigest item) \<longrightarrow> hasEvent db (key item)"
  shows "\<exists>c'. fold (ingestEvent z now normal identities) items (c, db) = (c', db) \<and> ic_Inserted c' = ic_Inserted c"
  using assms(2)
proof (induction items arbitrary: c)
  case Nil
  then show ?case by simp
next
  case (Cons item items)
  obtain c1 where "ingestEvent z now normal identities item (c, db) = (c1, db)" "ic_Inserted c1 = ic_Inserted c"
  proof (cases "map_of identities (pr_keyDigest item)")
    case None
    then show ?thesis using that by (simp add: ingestEvent_def)
  next
    case (Some i)
    then have "hasEvent db (key item)" using Cons.prems by (simp add: has_key_map_of)
    then show ?thesis using that Some key by (simp add: ingestEvent_def)
  qed
  then show ?case using Cons.IH [of c1] Cons.prems by simp
qed

lemma normalizeEvent_key:
  "ne_EventKey (normalizeEvent lib account item i models reasoning version now) =
     usageEventKey lib account (requestOf lib (pr_payload item)) (pr_keyDigest item) (pr_payload item)"
  by (simp add: normalizeEvent_def Let_def)

lemma fold_identities:
  assumes "fold (ingestEvent z now normal identities) items (c, db) = (c', db')"
  shows "ud_identities db' = ud_identities db"
  using assms
proof (induction items arbitrary: c db)
  case Nil
  then show ?case by simp
next
  case (Cons item items)
  obtain c1 db1 where s: "ingestEvent z now normal identities item (c, db) = (c1, db1)" by fastforce
  have "ud_identities db1 = ud_identities db" using s by (cases rule: ingestEvent_cases) (simp_all add: insertEvent_def)
  then show ?case using Cons.IH [of c1 db1] Cons.prems s by simp
qed

end
