(* ===== verification/Usage_Quota.thy ===== *)
theory Usage_Quota
  imports Usage_Writer
begin

text \<open>
  Quotas on top of the weekly usage: the policies and adjustments of \<open>internal/usage/writer.go\<close>
  (\<open>ConfigurePersonalQuotaReset\<close>, \<open>WeeklyQuotas\<close>), \<open>quota_actions.go\<close> (\<open>ApplyQuotaAction\<close>) and
  \<open>portal_store.go\<close> (\<open>SetQuotaPolicy\<close>, \<open>ClearQuotaPolicy\<close>), and the collector's status.

  The column types are those of \<open>schema.go\<close>: the id of an adjustment is an integer primary key, and
  SQLite refuses a text there that is not an integer.
\<close>

section \<open>Definitions\<close>

definition normalizedEmailSet :: "string list \<Rightarrow> string list" where
  "normalizedEmailSet values = sort (remdups (filter (\<lambda>e. e \<noteq> []) (map norm_user values)))"

subsection \<open>Policies\<close>

record QuotaResetConfiguration =
  qc_Enabled :: bool
  qc_WeekStartAt :: int64
  qc_WeekEndAt :: int64
  qc_ExpiredPolicies :: nat
  qc_ScheduledPolicies :: nat
  qc_CancelledSchedules :: nat

definition expired :: "int64 \<Rightarrow> policyRow \<Rightarrow> bool" where
  "expired now p \<longleftrightarrow> (case pw_ResetAt p of None \<Rightarrow> False | Some t \<Rightarrow> t \<le> now)"

text \<open>An \<open>UPDATE\<close> of the rows that satisfy a condition, and how many it changed.\<close>

definition updatePolicies :: "(policyRow \<Rightarrow> bool) \<Rightarrow> (policyRow \<Rightarrow> policyRow) \<Rightarrow> (string, policyRow) gomap \<Rightarrow> nat \<times> (string, policyRow) gomap" where
  "updatePolicies P f rows = (length (filter (\<lambda>(u, p). P p) rows), map (\<lambda>(u, p). (u, if P p then f p else p)) rows)"

definition ConfigurePersonalQuotaReset ::
  "usage_lib \<Rightarrow> tx \<Rightarrow> int64 \<Rightarrow> bool \<Rightarrow> bool \<Rightarrow> usagedb \<Rightarrow> (usage_error + QuotaResetConfiguration) \<times> usagedb" where
  "ConfigurePersonalQuotaReset lib tx now enabled reschedule db =
     usageTx tx (\<lambda>db.
       case loadWeekTimezone lib db of
         Inl e \<Rightarrow> Inl e
       | Inr z \<Rightarrow>
           (case naturalWeekBounds now (Some z) of (startAt, endAt) \<Rightarrow>
             (let live = filter (\<lambda>(u, p). \<not> expired now p) (ud_policies db);
                  gone = length (filter (\<lambda>(u, p). expired now p) (ud_policies db));
                  (scheduled, cancelled, rows) =
                    (if enabled
                     then (case updatePolicies (\<lambda>p. reschedule \<or> pw_ResetAt p = None) (pw_ResetAt_update (\<lambda>_. Some endAt)) live of (n, r) \<Rightarrow> (n, 0, r))
                     else (case updatePolicies (\<lambda>p. pw_ResetAt p \<noteq> None) (pw_ResetAt_update (\<lambda>_. None)) live of (n, r) \<Rightarrow> (0, n, r)))
              in Inr (\<lparr>qc_Enabled = enabled, qc_WeekStartAt = startAt, qc_WeekEndAt = endAt, qc_ExpiredPolicies = gone,
                       qc_ScheduledPolicies = scheduled, qc_CancelledSchedules = cancelled\<rparr>, db\<lparr>ud_policies := rows\<rparr>)))) db"

definition ClearQuotaPolicy :: "tx \<Rightarrow> string \<Rightarrow> usagedb \<Rightarrow> (usage_error + unit) \<times> usagedb" where
  "ClearQuotaPolicy tx user0 db =
     (let user = norm_user user0
      in if user = [] then (Inl QuotaPolicyInvalid, db)
         else usageTx tx (\<lambda>db. Inr ((), db\<lparr>ud_policies := AList.delete user (ud_policies db)\<rparr>)) db)"

definition maxWeeklyQuotaTokens :: int64 where "maxWeeklyQuotaTokens = 1000000000000"

definition SetQuotaPolicy ::
  "usage_lib \<Rightarrow> tx \<Rightarrow> int64 \<Rightarrow> string \<Rightarrow> string \<Rightarrow> int64 option \<Rightarrow> bool \<Rightarrow> string \<Rightarrow> usagedb \<Rightarrow> (usage_error + unit) \<times> usagedb" where
  "SetQuotaPolicy lib tx now user0 mode0 weeklyTokens resetOnNewWeek createdBy0 db =
     (let user = norm_user user0; mode = norm_user mode0; createdBy = trim_space createdBy0
      in if user = [] \<or> createdBy = [] then (Inl QuotaPolicyInvalid, db)
         else if mode = ''inherit'' then ClearQuotaPolicy tx user db
         else if mode \<noteq> ''unlimited'' \<and> mode \<noteq> ''custom'' then (Inl QuotaPolicyInvalid, db)
         else if mode = ''custom'' \<and> (case weeklyTokens of None \<Rightarrow> True | Some n \<Rightarrow> n \<le> 0 \<or> n > 1000000000000) then (Inl QuotaPolicyInvalid, db)
         else (let tokens = (if mode = ''unlimited'' then None else weeklyTokens)
               in usageTx tx (\<lambda>db.
                    case (if resetOnNewWeek then (case loadWeekTimezone lib db of Inl e \<Rightarrow> Inl e | Inr z \<Rightarrow> Inr (Some (snd (naturalWeekBounds now (Some z)))))
                          else Inr None) of
                      Inl e \<Rightarrow> Inl e
                    | Inr resetAt \<Rightarrow>
                        Inr ((), db\<lparr>ud_policies := AList.update user
                               (case map_of (ud_policies db) user of
                                  None \<Rightarrow> \<lparr>pw_WeeklyTokens = tokens, pw_CreatedAt = now, pw_UpdatedAt = now, pw_CreatedBy = createdBy, pw_ResetAt = resetAt\<rparr>
                                | Some p \<Rightarrow> p\<lparr>pw_WeeklyTokens := tokens, pw_UpdatedAt := now, pw_CreatedBy := createdBy, pw_ResetAt := resetAt\<rparr>)
                               (ud_policies db)\<rparr>)) db))"

subsection \<open>The quota of a user\<close>

record UserQuota =
  uq_Period :: string
  uq_Timezone :: string
  uq_WeekStartAt :: int64
  uq_WeekEndAt :: int64
  uq_LimitTokens :: "int64 option"
  uq_BaseLimitTokens :: "int64 option"
  uq_BonusTokens :: int64
  uq_UsedTokens :: int64
  uq_WeightedUsedTokens :: int64
  uq_RawUsedTokens :: int64
  uq_UnweightedUsedTokens :: int64
  uq_WeightedRawUsedTokens :: int64
  uq_UsageResetTokens :: int64
  uq_RemainingTokens :: "int64 option"
  uq_UsedPercent :: "float64 option"
  uq_LimitReached :: bool
  uq_Source :: string
  uq_PolicyMode :: string
  uq_PolicyTokens :: "int64 option"
  uq_PolicyUpdatedAt :: "int64 option"
  uq_PolicyUpdatedBy :: "string option"
  uq_PolicyResetAt :: "int64 option"
  uq_DefaultLimitTokens :: "int64 option"
  uq_Unlimited :: bool
  uq_SoftLimit :: bool
  uq_QuotaUnit :: string
  uq_AdjustmentCount :: int64

text \<open>Scanning a column into an \<open>int64\<close>, and the sum of an aggregate, which SQLite refuses to overflow.\<close>

fun scanInt :: "sqlnum \<Rightarrow> usage_error + int64" where
  "scanInt (SqlInt n) = Inr n"
| "scanInt (SqlReal x) = Inl UsageScan"

definition sumTokens :: "adjustmentRow list \<Rightarrow> usage_error + int64" where
  "sumTokens rows = (let n = \<Sum>a\<leftarrow>rows. ad_TokenAmount a in if in_i64 n then Inr n else Inl UsageDatabase)"

definition userAdjustments :: "int64 \<Rightarrow> string \<Rightarrow> usagedb \<Rightarrow> adjustmentRow list" where
  "userAdjustments startAt user db =
     filter (\<lambda>a. ad_WeekStartAt a = startAt \<and> ad_UserEmail a = user) (map snd (ud_adjustments db))"

definition livePolicy :: "int64 \<Rightarrow> string \<Rightarrow> usagedb \<Rightarrow> policyRow option" where
  "livePolicy now user db =
     (case map_of (ud_policies db) user of None \<Rightarrow> None | Some p \<Rightarrow> if expired now p then None else Some p)"

text \<open>The three reads for one user: usage, bonus and reset tokens, and the number of adjustments.\<close>

definition quotaReads :: "int64 \<Rightarrow> string \<Rightarrow> usagedb \<Rightarrow> usage_error + (int64 \<times> int64) \<times> int64 \<times> int64 \<times> int64" where
  "quotaReads startAt user db =
     (let adjustments = userAdjustments startAt user db
      in case (case map_of (ud_weekly db) (user, startAt) of
                 None \<Rightarrow> Inr (0, 0)
               | Some r \<Rightarrow> (case scanInt (wr_TotalTokens r) of Inl e \<Rightarrow> Inl e | Inr t \<Rightarrow>
                             (case scanInt (wr_WeightedTokens r) of Inl e \<Rightarrow> Inl e | Inr w \<Rightarrow> Inr (t, w)))) of
           Inl e \<Rightarrow> Inl e
         | Inr u \<Rightarrow>
             (case sumTokens (filter (\<lambda>a. ad_Action a = ''bonus'') adjustments) of
                Inl e \<Rightarrow> Inl e
              | Inr bonus \<Rightarrow>
                  (case sumTokens (filter (\<lambda>a. ad_Action a = ''usage_reset'') adjustments) of
                     Inl e \<Rightarrow> Inl e
                   | Inr resets \<Rightarrow> Inr (u, bonus, resets, int (length adjustments)))))"

definition quotaOf ::
  "string \<Rightarrow> int64 \<times> int64 \<Rightarrow> int64 option \<Rightarrow> policyRow option \<Rightarrow> (int64 \<times> int64) \<times> int64 \<times> int64 \<times> int64 \<Rightarrow> UserQuota" where
  "quotaOf zoneName bounds defaultWeeklyTokens policy reads =
     (case (bounds, reads) of ((startAt, endAt), (raw, weighted), bonus, resets, adjusted) \<Rightarrow>
        let (mode, source, baseLimit, policyTokens) =
              (case policy of
                 None \<Rightarrow> (''inherit'', ''default'', defaultWeeklyTokens, None)
               | Some p \<Rightarrow> (case pw_WeeklyTokens p of
                              Some n \<Rightarrow> (''custom'', ''user_custom'', Some n, Some n)
                            | None \<Rightarrow> (''unlimited'', ''user_unlimited'', None, None)));
            limit = map_option (\<lambda>n. i64 (n + bonus)) baseLimit;
            used = max (i64 (weighted - resets)) 0
        in \<lparr>uq_Period = ''natural_week'', uq_Timezone = zoneName, uq_WeekStartAt = startAt, uq_WeekEndAt = endAt,
            uq_LimitTokens = limit, uq_BaseLimitTokens = baseLimit, uq_BonusTokens = bonus, uq_UsedTokens = used, uq_WeightedUsedTokens = used,
            uq_RawUsedTokens = raw, uq_UnweightedUsedTokens = raw, uq_WeightedRawUsedTokens = weighted, uq_UsageResetTokens = resets,
            uq_RemainingTokens = map_option (\<lambda>n. max (i64 (n - used)) 0) limit,
            uq_UsedPercent = map_option (\<lambda>n. f64_div (f64_rint (f64_div (f64_mul (f64_of_int used) (Finite 10000)) (f64_of_int n))) (Finite 100)) limit,
            uq_LimitReached = (case limit of None \<Rightarrow> False | Some n \<Rightarrow> used \<ge> n),
            uq_Source = source, uq_PolicyMode = mode, uq_PolicyTokens = policyTokens,
            uq_PolicyUpdatedAt = map_option pw_UpdatedAt policy, uq_PolicyUpdatedBy = map_option pw_CreatedBy policy,
            uq_PolicyResetAt = Option.bind policy pw_ResetAt, uq_DefaultLimitTokens = defaultWeeklyTokens,
            uq_Unlimited = (limit = None), uq_SoftLimit = True, uq_QuotaUnit = ''weighted_tokens'', uq_AdjustmentCount = adjusted\<rparr>)"

fun quotasOf ::
  "(string \<Rightarrow> usage_error + (int64 \<times> int64) \<times> int64 \<times> int64 \<times> int64) \<Rightarrow> (string \<Rightarrow> (int64 \<times> int64) \<times> int64 \<times> int64 \<times> int64 \<Rightarrow> UserQuota) \<Rightarrow>
   string list \<Rightarrow> usage_error + (string, UserQuota) gomap" where
  "quotasOf reads quota [] = Inr []"
| "quotasOf reads quota (u # us) =
     (case reads u of
        Inl e \<Rightarrow> Inl e
      | Inr r \<Rightarrow> (case quotasOf reads quota us of Inl e \<Rightarrow> Inl e | Inr m \<Rightarrow> Inr ((u, quota u r) # m)))"

definition WeeklyQuotas ::
  "usage_lib \<Rightarrow> tx \<Rightarrow> int64 \<Rightarrow> string list \<Rightarrow> int64 option \<Rightarrow> usagedb \<Rightarrow> usage_error + (string, UserQuota) gomap" where
  "WeeklyQuotas lib tx now userEmails defaultWeeklyTokens db =
     (let users = normalizedEmailSet userEmails
      in if users = [] then Inr []
         else if tx \<noteq> TxOK then Inl UsageDatabase
         else (case loadWeekTimezone lib db of
                 Inl e \<Rightarrow> Inl e
               | Inr z \<Rightarrow>
                   (let bounds = naturalWeekBounds now (Some z)
                    in quotasOf (\<lambda>u. quotaReads (fst bounds) u db)
                         (\<lambda>u. quotaOf (zn_Name z) bounds defaultWeeklyTokens (livePolicy now u db)) users)))"

subsection \<open>Quota actions\<close>

text \<open>\<open>strings.Fields\<close>.\<close>

fun fieldsFrom :: "nat \<Rightarrow> string \<Rightarrow> string \<Rightarrow> string list" where
  "fieldsFrom 0 word s = (if word = [] then [] else [word])"
| "fieldsFrom (Suc n) word [] = (if word = [] then [] else [word])"
| "fieldsFrom (Suc n) word (c # s) =
     (case leading_rune space_runes (c # s) of
        Some r \<Rightarrow> (if word = [] then [] else [word]) @ fieldsFrom n [] (drop (length r) (c # s))
      | None \<Rightarrow> fieldsFrom n (word @ [c]) s)"

definition fieldsOf :: "string \<Rightarrow> string list" where
  "fieldsOf s = fieldsFrom (Suc (length s)) [] s"

record QuotaActionRequest =
  qr_Action :: string
  qr_Users :: "string list"
  qr_TokenAmount :: int64
  qr_Reason :: string
  qr_CreatedBy :: string
  qr_DefaultLimit :: "int64 option"

record QuotaActionResult =
  qs_Action :: string
  qs_Applied :: "(string \<times> int64) list option"
  qs_AppliedUsers :: "string list"
  qs_SkippedUsers :: "string list"
  qs_TokenAmount :: "int64 option"
  qs_WeekStartAt :: int64
  qs_Reason :: string
  qs_CreatedAt :: int64
  qs_ChangedPolicies :: "int64 option"

text \<open>
  The value of a text in an integer primary key, if SQLite takes it for one. (It also takes the text of
  a real number with an integral value.)
\<close>

definition integerKey :: "string \<Rightarrow> int64 option" where
  "integerKey s = parseInt64 s"

definition insertAdjustment :: "string \<Rightarrow> adjustmentRow \<Rightarrow> usagedb \<Rightarrow> usage_error + usagedb" where
  "insertAdjustment key row db =
     (case integerKey key of
        None \<Rightarrow> Inl UsageMismatch
      | Some i \<Rightarrow> if i \<in> set (map fst (ud_adjustments db)) then Inl UsageDatabase
                  else Inr (db\<lparr>ud_adjustments := insort_key fst (i, row) (ud_adjustments db)\<rparr>))"

definition clearQuotaPolicies :: "string list \<Rightarrow> usagedb \<Rightarrow> int64 \<times> usagedb" where
  "clearQuotaPolicies users db =
     (int (length (filter (\<lambda>(u, p). u \<in> set users) (ud_policies db))),
      db\<lparr>ud_policies := filter (\<lambda>(u, p). u \<notin> set users) (ud_policies db)\<rparr>)"

text \<open>The validation of a bonus, before anything is written.\<close>

definition bonusRefused :: "int64 \<Rightarrow> int64 \<Rightarrow> QuotaActionRequest \<Rightarrow> usagedb \<Rightarrow> string \<Rightarrow> usage_error option" where
  "bonusRefused now startAt request db user =
     (case (case livePolicy now user db of None \<Rightarrow> qr_DefaultLimit request | Some p \<Rightarrow> pw_WeeklyTokens p) of
        None \<Rightarrow> Some (ErrQuotaActionUnlimited user)
      | Some baseLimit \<Rightarrow>
          (case sumTokens (filter (\<lambda>a. ad_Action a = ''bonus'') (userAdjustments startAt user db)) of
             Inl e \<Rightarrow> Some e
           | Inr existing \<Rightarrow>
               if existing < 0 \<or> existing > maxWeeklyQuotaTokens \<or> qr_TokenAmount request > maxWeeklyQuotaTokens - existing \<or>
                  baseLimit > maxWeeklyQuotaTokens - existing - qr_TokenAmount request
               then Some (ErrQuotaActionLimitExceeded user) else None))"

fun firstRefusal :: "(string \<Rightarrow> usage_error option) \<Rightarrow> string list \<Rightarrow> usage_error option" where
  "firstRefusal refused [] = None"
| "firstRefusal refused (u # us) = (case refused u of Some e \<Rightarrow> Some e | None \<Rightarrow> firstRefusal refused us)"

fun insertBonuses :: "(nat \<Rightarrow> string) \<Rightarrow> nat \<Rightarrow> (string \<Rightarrow> adjustmentRow) \<Rightarrow> string list \<Rightarrow> usagedb \<Rightarrow> usage_error + usagedb" where
  "insertBonuses uuids n row [] db = Inr db"
| "insertBonuses uuids n row (u # us) db =
     (case insertAdjustment (uuids n) (row u) db of Inl e \<Rightarrow> Inl e | Inr db' \<Rightarrow> insertBonuses uuids (Suc n) row us db')"

definition addQuotaBonus ::
  "usage_lib \<Rightarrow> (nat \<Rightarrow> string) \<Rightarrow> int64 \<Rightarrow> QuotaActionRequest \<Rightarrow> usagedb \<Rightarrow> usage_error + QuotaActionResult \<times> usagedb" where
  "addQuotaBonus lib uuids now request db =
     (case loadWeekTimezone lib db of
        Inl e \<Rightarrow> Inl e
      | Inr z \<Rightarrow>
          (let startAt = fst (naturalWeekBounds now (Some z));
               row = (\<lambda>user. \<lparr>ad_UserEmail = user, ad_WeekStartAt = startAt, ad_Action = ''bonus'', ad_TokenAmount = qr_TokenAmount request,
                              ad_Reason = qr_Reason request, ad_CreatedAt = now, ad_CreatedBy = qr_CreatedBy request\<rparr>)
           in case firstRefusal (bonusRefused now startAt request db) (qr_Users request) of
                Some e \<Rightarrow> Inl e
              | None \<Rightarrow>
                  (case insertBonuses uuids 0 row (qr_Users request) db of
                     Inl e \<Rightarrow> Inl e
                   | Inr db' \<Rightarrow>
                       Inr (\<lparr>qs_Action = ''bonus'', qs_Applied = None, qs_AppliedUsers = qr_Users request, qs_SkippedUsers = [],
                             qs_TokenAmount = Some (qr_TokenAmount request), qs_WeekStartAt = startAt, qs_Reason = qr_Reason request,
                             qs_CreatedAt = now, qs_ChangedPolicies = None\<rparr>, db'))))"

fun resetUsers ::
  "(nat \<Rightarrow> string) \<Rightarrow> nat \<Rightarrow> (string \<Rightarrow> int64 \<Rightarrow> adjustmentRow) \<Rightarrow> (string \<Rightarrow> int64) \<Rightarrow> string list \<Rightarrow>
   QuotaActionResult \<Rightarrow> usagedb \<Rightarrow> usage_error + QuotaActionResult \<times> usagedb" where
  "resetUsers uuids n row effective [] result db = Inr (result, db)"
| "resetUsers uuids n row effective (u # us) result db =
     (if effective u = 0 then resetUsers uuids n row effective us (result\<lparr>qs_SkippedUsers := qs_SkippedUsers result @ [u]\<rparr>) db
      else (case insertAdjustment (uuids n) (row u (effective u)) db of
              Inl e \<Rightarrow> Inl e
            | Inr db' \<Rightarrow>
                resetUsers uuids (Suc n) row effective us
                  (result\<lparr>qs_Applied := map_option (\<lambda>a. a @ [(u, effective u)]) (qs_Applied result), qs_AppliedUsers := qs_AppliedUsers result @ [u],
                          qs_TokenAmount := map_option (\<lambda>t. i64 (t + effective u)) (qs_TokenAmount result)\<rparr>) db'))"

text \<open>The effective usage of a user; a read that fails is the first error.\<close>

definition effectiveUsage :: "int64 \<Rightarrow> usagedb \<Rightarrow> string \<Rightarrow> usage_error + int64" where
  "effectiveUsage startAt db user =
     (case (case map_of (ud_weekly db) (user, startAt) of None \<Rightarrow> Inr 0 | Some r \<Rightarrow> scanInt (wr_WeightedTokens r)) of
        Inl e \<Rightarrow> Inl e
      | Inr u \<Rightarrow>
          (case sumTokens (filter (\<lambda>a. ad_Action a = ''usage_reset'') (userAdjustments startAt user db)) of
             Inl e \<Rightarrow> Inl e
           | Inr r \<Rightarrow> Inr (max (i64 (u - r)) 0)))"

definition resetQuotaUsage ::
  "usage_lib \<Rightarrow> (nat \<Rightarrow> string) \<Rightarrow> int64 \<Rightarrow> QuotaActionRequest \<Rightarrow> usagedb \<Rightarrow> usage_error + QuotaActionResult \<times> usagedb" where
  "resetQuotaUsage lib uuids now request db =
     (case loadWeekTimezone lib db of
        Inl e \<Rightarrow> Inl e
      | Inr z \<Rightarrow>
          (let startAt = fst (naturalWeekBounds now (Some z));
               row = (\<lambda>user amount. \<lparr>ad_UserEmail = user, ad_WeekStartAt = startAt, ad_Action = ''usage_reset'', ad_TokenAmount = amount,
                              ad_Reason = qr_Reason request, ad_CreatedAt = now, ad_CreatedBy = qr_CreatedBy request\<rparr>)
           in case firstRefusal (\<lambda>u. case effectiveUsage startAt db u of Inl e \<Rightarrow> Some e | Inr n \<Rightarrow> None) (qr_Users request) of
                Some e \<Rightarrow> Inl e
              | None \<Rightarrow>
                  resetUsers uuids 0 row (\<lambda>u. case effectiveUsage startAt db u of Inl e \<Rightarrow> 0 | Inr n \<Rightarrow> n) (qr_Users request)
                    \<lparr>qs_Action = ''usage_reset'', qs_Applied = Some [], qs_AppliedUsers = [], qs_SkippedUsers = [], qs_TokenAmount = Some 0,
                     qs_WeekStartAt = startAt, qs_Reason = qr_Reason request, qs_CreatedAt = now, qs_ChangedPolicies = None\<rparr> db))"

definition quotaActionInvalid :: "QuotaActionRequest \<Rightarrow> bool" where
  "quotaActionInvalid request \<longleftrightarrow>
     qr_Users request = [] \<or> qr_CreatedBy request = [] \<or>
     (case qr_DefaultLimit request of None \<Rightarrow> False | Some n \<Rightarrow> n \<le> 0 \<or> n > maxWeeklyQuotaTokens) \<or>
     (qr_Action request \<noteq> ''restore_default'' \<and> qr_Action request \<noteq> ''add_bonus'' \<and> qr_Action request \<noteq> ''reset_usage'') \<or>
     (qr_Action request = ''add_bonus'' \<and> (qr_TokenAmount request \<le> 0 \<or> qr_TokenAmount request > maxWeeklyQuotaTokens)) \<or>
     (qr_Action request \<noteq> ''restore_default'' \<and>
        (qr_Reason request = [] \<or> length (runesOf (length (qr_Reason request)) (qr_Reason request)) > 200))"

definition normalizedRequest :: "QuotaActionRequest \<Rightarrow> QuotaActionRequest" where
  "normalizedRequest request =
     request\<lparr>qr_Action := norm_user (qr_Action request), qr_CreatedBy := trim_space (qr_CreatedBy request), qr_Users := normalizedEmailSet (qr_Users request),
       qr_Reason := (if norm_user (qr_Action request) \<noteq> ''restore_default'' then join_strings '' '' (fieldsOf (qr_Reason request)) else qr_Reason request)\<rparr>"

definition ApplyQuotaAction ::
  "usage_lib \<Rightarrow> tx \<Rightarrow> (nat \<Rightarrow> string) \<Rightarrow> int64 \<Rightarrow> QuotaActionRequest \<Rightarrow> usagedb \<Rightarrow> (usage_error + QuotaActionResult) \<times> usagedb" where
  "ApplyQuotaAction lib tx uuids now request0 db =
     (let request = normalizedRequest request0
      in if quotaActionInvalid request then (Inl ErrInvalidQuotaAction, db)
         else usageTx tx (\<lambda>db.
                if qr_Action request = ''restore_default''
                then (case clearQuotaPolicies (qr_Users request) db of (changed, db') \<Rightarrow>
                        Inr (\<lparr>qs_Action = qr_Action request, qs_Applied = None, qs_AppliedUsers = qr_Users request, qs_SkippedUsers = [],
                              qs_TokenAmount = None, qs_WeekStartAt = 0, qs_Reason = [], qs_CreatedAt = 0, qs_ChangedPolicies = Some changed\<rparr>, db'))
                else if qr_Action request = ''add_bonus'' then addQuotaBonus lib uuids now request db
                else resetQuotaUsage lib uuids now request db) db)"

subsection \<open>The collector's status\<close>

record CollectorStatus =
  cs_Status :: string
  cs_HeartbeatAt :: int64
  cs_LastError :: string
  cs_EventCount :: int64
  cs_CollectionStartedAt :: int64
  cs_UsageBreakdownStartedAt :: int64
  cs_LastEventAt :: int64

definition parseNonNegativeInt :: "string \<Rightarrow> int64" where
  "parseNonNegativeInt value = (case parseInt64 (trim_space value) of None \<Rightarrow> 0 | Some n \<Rightarrow> max n 0)"

definition loadCollectorStatus :: "int64 \<Rightarrow> usagedb \<Rightarrow> CollectorStatus" where
  "loadCollectorStatus now db =
     (let meta = ud_meta db; times = map (ne_OccurredAt \<circ> snd) (ud_events db);
          heartbeat = parseNonNegativeInt (gstring meta ''collector_heartbeat_at'');
          lastError = gstring meta ''collector_last_error'';
          state = (if heartbeat > 0 then if i64 (now - heartbeat) \<le> 15 \<and> lastError = [] then ''healthy'' else ''degraded'' else ''starting'')
      in \<lparr>cs_Status = state, cs_HeartbeatAt = heartbeat, cs_LastError = lastError, cs_EventCount = int (length times),
          cs_CollectionStartedAt = (if times = [] then 0 else fold min times (hd times)),
          cs_UsageBreakdownStartedAt = parseNonNegativeInt (gstring meta breakdownStartedAtKey),
          cs_LastEventAt = (if times = [] then 0 else fold max times (hd times))\<rparr>)"

section \<open>Specification\<close>

text \<open>
  Every way the sources change the modelled tables of the usage database, in any order. The portal's
  \<open>deleteUserState\<close> (\<open>portal_store.go\<close>) is not a step of its own: besides the sessions and
  credentials, which are not modelled, it deletes the policy of a user, as \<open>ClearQuotaPolicy\<close> does.
\<close>

inductive usage_step :: "usage_lib \<Rightarrow> usagedb \<Rightarrow> usagedb \<Rightarrow> bool" for lib where
  identities: "SyncIdentities tx now identities db = (r, db') \<Longrightarrow> usage_step lib db db'"
| teams: "SyncUserTeams tx teams db = (r, db') \<Longrightarrow> usage_step lib db db'"
| breakdown: "EnsureUsageBreakdownStarted tx now db = (r, db') \<Longrightarrow> usage_step lib db db'"
| ingest: "IngestEvents lib tx now account events policy db = (r, db') \<Longrightarrow> usage_step lib db db'"
| rebuild: "RebuildWeeklyUsage lib tx now db = (r, db') \<Longrightarrow> usage_step lib db db'"
| timezone: "EnsureWeekTimezone lib tx now name db = (r, db') \<Longrightarrow> usage_step lib db db'"
| reset: "ConfigurePersonalQuotaReset lib tx now enabled reschedule db = (r, db') \<Longrightarrow> usage_step lib db db'"
| policy: "SetQuotaPolicy lib tx now user mode tokens renew actor db = (r, db') \<Longrightarrow> usage_step lib db db'"
| cleared: "ClearQuotaPolicy tx user db = (r, db') \<Longrightarrow> usage_step lib db db'"
| action: "ApplyQuotaAction lib tx uuids now request db = (r, db') \<Longrightarrow> usage_step lib db db'"
| status: "UpdateCollectorStatus tx now lastError db = (r, db') \<Longrightarrow> usage_step lib db db'"

inductive usage_reachable :: "usage_lib \<Rightarrow> usagedb \<Rightarrow> bool" for lib where
  initial: "usage_reachable lib initialUsage"
| next_step: "usage_reachable lib db \<Longrightarrow> usage_step lib db db' \<Longrightarrow> usage_reachable lib db'"

text \<open>The text form of a UUID.\<close>

definition uuid_format :: "string \<Rightarrow> bool" where
  "uuid_format s \<longleftrightarrow> length s = 36 \<and> s ! 8 = CHR ''-'' \<and> is_lower_hex (hd s)"

section \<open>Lemmas\<close>

lemma quota_keeps:
  assumes ok: "usage_ok lib db" and same: "ud_events db' = ud_events db" "ud_weekly db' = ud_weekly db" "ud_meta db' = ud_meta db" "ud_identities db' = ud_identities db"
  shows "usage_ok lib db'"
  using usage_ok_cong [OF ok same(1,2)] same(3,4) ok by (simp add: usage_ok_def)

lemma ConfigurePersonalQuotaReset_cases:
  assumes "ConfigurePersonalQuotaReset lib tx now enabled reschedule db = (r, db')"
  obtains (same) "db' = db"
  | (ran) z startAt endAt where "loadWeekTimezone lib db = Inr z" "naturalWeekBounds now (Some z) = (startAt, endAt)"
      "db' = db\<lparr>ud_policies := map (\<lambda>(u, p). (u,
         if enabled then if reschedule \<or> pw_ResetAt p = None then p\<lparr>pw_ResetAt := Some endAt\<rparr> else p
         else if pw_ResetAt p \<noteq> None then p\<lparr>pw_ResetAt := None\<rparr> else p)) (filter (\<lambda>(u, p). \<not> expired now p) (ud_policies db))\<rparr>"
  using assms unfolding ConfigurePersonalQuotaReset_def updatePolicies_def Let_def
  by (cases enabled) (auto dest!: usageTx_cases split: sum.splits prod.splits)

lemma ClearQuotaPolicy_policies: "ClearQuotaPolicy tx user db = (r, db') \<Longrightarrow> \<exists>p. db' = db\<lparr>ud_policies := p\<rparr>"
  by (cases db) (auto simp: ClearQuotaPolicy_def Let_def split: if_splits dest!: usageTx_cases)

lemma SetQuotaPolicy_policies: "SetQuotaPolicy lib tx now user mode tokens renew actor db = (r, db') \<Longrightarrow> \<exists>p. db' = db\<lparr>ud_policies := p\<rparr>"
  by (cases db) (auto simp: SetQuotaPolicy_def Let_def split: if_splits sum.splits dest!: usageTx_cases dest: ClearQuotaPolicy_policies)

lemma insertAdjustment_rows: "insertAdjustment key row db = Inr db' \<Longrightarrow> \<exists>a. db' = db\<lparr>ud_adjustments := a\<rparr>"
  by (auto simp: insertAdjustment_def split: option.splits if_splits)

lemma insertBonuses_rows: "insertBonuses uuids n row us db = Inr db' \<Longrightarrow> \<exists>a. db' = db\<lparr>ud_adjustments := a\<rparr>"
proof (induction us arbitrary: n db)
  case Nil
  then show ?case by (cases db) auto
next
  case (Cons u us)
  then obtain db1 where "insertAdjustment (uuids n) (row u) db = Inr db1" "insertBonuses uuids (Suc n) row us db1 = Inr db'"
    by (auto split: sum.splits)
  then show ?case using insertAdjustment_rows Cons.IH by fastforce
qed

lemma resetUsers_rows: "resetUsers uuids n row effective us result db = Inr (x, db') \<Longrightarrow> \<exists>a. db' = db\<lparr>ud_adjustments := a\<rparr>"
proof (induction us arbitrary: n result db)
  case Nil
  then show ?case by (cases db) auto
next
  case (Cons u us)
  show ?case
  proof (cases "effective u = 0")
    case True
    then show ?thesis using Cons.prems Cons.IH by simp
  next
    case False
    then obtain db1 res where "insertAdjustment (uuids n) (row u (effective u)) db = Inr db1" "resetUsers uuids (Suc n) row effective us res db1 = Inr (x, db')"
      using Cons.prems by (auto split: sum.splits)
    then show ?thesis using insertAdjustment_rows Cons.IH by fastforce
  qed
qed

lemma ApplyQuotaAction_cases:
  assumes "ApplyQuotaAction lib tx uuids now request db = (r, db')"
  obtains (refused) e where "r = Inl e" "db' = db"
  | (restored) x where "r = Inr x" "norm_user (qr_Action request) = ''restore_default''" "db' = snd (clearQuotaPolicies (normalizedEmailSet (qr_Users request)) db)"
  | (bonus) x where "r = Inr x" "normalizedEmailSet (qr_Users request) \<noteq> []" "addQuotaBonus lib uuids now (normalizedRequest request) db = Inr (x, db')"
  | (resets) x where "r = Inr x" "norm_user (qr_Action request) = ''reset_usage''" "resetQuotaUsage lib uuids now (normalizedRequest request) db = Inr (x, db')"
proof (cases "quotaActionInvalid (normalizedRequest request)")
  case True
  then show ?thesis using assms refused by (auto simp: ApplyQuotaAction_def)
next
  case False
  have v: "normalizedEmailSet (qr_Users request) \<noteq> []"
    "norm_user (qr_Action request) \<in> {''restore_default'', ''add_bonus'', ''reset_usage''}"
    using False unfolding quotaActionInvalid_def normalizedRequest_def by simp_all
  let ?f = "\<lambda>db. if norm_user (qr_Action request) = ''restore_default''
      then (case clearQuotaPolicies (normalizedEmailSet (qr_Users request)) db of (changed, db') \<Rightarrow>
              Inr (\<lparr>qs_Action = norm_user (qr_Action request), qs_Applied = None, qs_AppliedUsers = normalizedEmailSet (qr_Users request), qs_SkippedUsers = [],
                    qs_TokenAmount = None, qs_WeekStartAt = 0, qs_Reason = [], qs_CreatedAt = 0, qs_ChangedPolicies = Some changed\<rparr>, db'))
      else if norm_user (qr_Action request) = ''add_bonus'' then addQuotaBonus lib uuids now (normalizedRequest request) db
      else resetQuotaUsage lib uuids now (normalizedRequest request) db"
  have a: "qr_Action (normalizedRequest request) = norm_user (qr_Action request)" "qr_Users (normalizedRequest request) = normalizedEmailSet (qr_Users request)"
    by (simp_all add: normalizedRequest_def)
  have t: "usageTx tx ?f db = (r, db')" using assms False unfolding ApplyQuotaAction_def Let_def a by simp
  show ?thesis
  proof (cases r)
    case (Inl e)
    then show ?thesis using usageTx_Inl [of tx ?f db e db'] t refused by simp
  next
    case (Inr x)
    then have f: "?f db = Inr (x, db')" using usageTx_Inr t by fast
    show ?thesis
    proof (cases "norm_user (qr_Action request) = ''restore_default''")
      case True
      then show ?thesis using f restored [OF Inr] by (auto split: prod.splits)
    next
      case no: False
      show ?thesis
      proof (cases "norm_user (qr_Action request) = ''add_bonus''")
        case True
        then show ?thesis using f bonus [OF Inr v(1)] no by simp
      next
        case False
        then show ?thesis using f resets [OF Inr] no v(2) by simp
      qed
    qed
  qed
qed

lemma addQuotaBonus_rows:
  assumes "addQuotaBonus lib uuids now request db = Inr (x, db')"
  shows "\<exists>row. insertBonuses uuids 0 row (qr_Users request) db = Inr db'"
  using assms unfolding addQuotaBonus_def Let_def by (auto split: sum.splits option.splits)

lemma resetQuotaUsage_rows:
  assumes "resetQuotaUsage lib uuids now request db = Inr (x, db')"
  shows "\<exists>row effective result. resetUsers uuids 0 row effective (qr_Users request) result db = Inr (x, db') \<and> qs_AppliedUsers result = []"
  using assms unfolding resetQuotaUsage_def Let_def by (auto split: sum.splits option.splits) (metis QuotaActionResult.select_convs(3))

lemma ApplyQuotaAction_rows:
  assumes "ApplyQuotaAction lib tx uuids now request db = (r, db')"
  shows "\<exists>p a. db' = db\<lparr>ud_policies := p, ud_adjustments := a\<rparr>"
  using assms
proof (cases rule: ApplyQuotaAction_cases)
  case refused
  then show ?thesis by (intro exI [of _ "ud_policies db"] exI [of _ "ud_adjustments db"]) simp
next
  case restored
  then show ?thesis by (auto simp: clearQuotaPolicies_def intro!: exI [of _ "ud_adjustments db"])
next
  case (bonus x)
  obtain a where "db' = db\<lparr>ud_adjustments := a\<rparr>" using addQuotaBonus_rows [OF bonus(3)] insertBonuses_rows by blast
  then show ?thesis by (auto intro!: exI [of _ "ud_policies db"])
next
  case (resets x)
  obtain a where "db' = db\<lparr>ud_adjustments := a\<rparr>" using resetQuotaUsage_rows [OF resets(3)] resetUsers_rows by blast
  then show ?thesis by (auto intro!: exI [of _ "ud_policies db"])
qed

lemma usage_step_ok: "usage_step lib db db' \<Longrightarrow> usage_ok lib db \<Longrightarrow> usage_ok lib db'"
proof (induction rule: usage_step.induct)
  case (reset tx now enabled reschedule db r db')
  from reset(1) show ?case by (cases rule: ConfigurePersonalQuotaReset_cases) (use reset(2) quota_keeps [OF reset(2)] in auto)
next
  case (policy tx now user mode tokens renew actor db r db')
  then show ?case using quota_keeps SetQuotaPolicy_policies by fastforce
next
  case (cleared tx user db r db')
  then show ?case using quota_keeps ClearQuotaPolicy_policies by fastforce
next
  case (action tx uuids now request db r db')
  then show ?case using quota_keeps ApplyQuotaAction_rows by fastforce
qed (auto intro: SyncIdentities_ok SyncUserTeams_ok EnsureUsageBreakdownStarted_ok IngestEvents_ok RebuildWeeklyUsage_ok EnsureWeekTimezone_ok
       UpdateCollectorStatus_ok)

lemma usage_reachable_ok: "usage_reachable lib db \<Longrightarrow> usage_ok lib db"
  by (induction rule: usage_reachable.induct) (auto intro: usage_step_ok initialUsage_ok)

lemma sumTokens_Inr: "sumTokens rows = Inr n \<Longrightarrow> n = (\<Sum>a\<leftarrow>rows. ad_TokenAmount a)"
  by (auto simp: sumTokens_def Let_def split: if_splits)

lemma quotaReads_sums:
  assumes s: "weekly_sums z es (ud_weekly db)" and r: "quotaReads week u db = Inr r"
  shows "fst (fst r) = (\<Sum>e\<leftarrow>bucketEvents z (u, week) es. ne_TotalTokens e) \<and>
      snd (fst r) = (\<Sum>e\<leftarrow>bucketEvents z (u, week) es. rebuildWeight e) \<and>
      fst (snd r) = (\<Sum>a\<leftarrow>filter (\<lambda>a. ad_Action a = ''bonus'') (userAdjustments week u db). ad_TokenAmount a) \<and>
      fst (snd (snd r)) = (\<Sum>a\<leftarrow>filter (\<lambda>a. ad_Action a = ''usage_reset'') (userAdjustments week u db). ad_TokenAmount a)"
proof -
  have w: "map_option rowUsage (map_of (ud_weekly db) (u, week)) = map_option (\<lambda>(a, b, c). (SqlInt a, SqlInt b, c)) (bucketUsage z es (u, week))"
    using s unfolding weekly_sums_def by blast
  let ?b = "bucketEvents z (u, week) es"
  have "(case map_of (ud_weekly db) (u, week) of
                 None \<Rightarrow> Inr (0, 0)
               | Some r \<Rightarrow> (case scanInt (wr_TotalTokens r) of Inl e \<Rightarrow> Inl e | Inr t \<Rightarrow>
                             (case scanInt (wr_WeightedTokens r) of Inl e \<Rightarrow> Inl e | Inr w \<Rightarrow> Inr (t, w)))) =
      Inr (\<Sum>e\<leftarrow>?b. ne_TotalTokens e, \<Sum>e\<leftarrow>?b. rebuildWeight e)"
    using w by (cases "?b = []") (auto simp: bucketUsage_def Let_def rowUsage_def)
  note u = this
  show ?thesis using r unfolding quotaReads_def Let_def u sum.case by (auto split: sum.splits dest: sumTokens_Inr)
qed

lemma quotaOf_fields:
  fixes r :: "(int64 \<times> int64) \<times> int64 \<times> int64 \<times> int64"
  shows "uq_RawUsedTokens (quotaOf name bounds defaultLimit policy r) = fst (fst r)"
    "uq_WeightedRawUsedTokens (quotaOf name bounds defaultLimit policy r) = snd (fst r)"
    "uq_UsedTokens (quotaOf name bounds defaultLimit policy r) = max (i64 (snd (fst r) - fst (snd (snd r)))) 0"
    "uq_LimitTokens (quotaOf name bounds defaultLimit policy r) =
       map_option (\<lambda>n. i64 (n + fst (snd r))) (case policy of None \<Rightarrow> defaultLimit | Some p \<Rightarrow> pw_WeeklyTokens p)"
    "uq_LimitReached (quotaOf name bounds defaultLimit policy r) \<longleftrightarrow>
       (\<exists>n. uq_LimitTokens (quotaOf name bounds defaultLimit policy r) = Some n \<and> n \<le> uq_UsedTokens (quotaOf name bounds defaultLimit policy r))"
    "uq_WeekStartAt (quotaOf name bounds defaultLimit policy r) = fst bounds" "uq_WeekEndAt (quotaOf name bounds defaultLimit policy r) = snd bounds"
  by (cases bounds; cases r; cases "fst r"; cases "snd r"; cases "snd (snd r)"; cases policy; cases defaultLimit;
      auto simp: quotaOf_def Let_def split: option.splits)+

lemma map_of_filter_wf:
  "wf_map m \<Longrightarrow> map_of (filter (\<lambda>(k, v). P v) m) k = (case map_of m k of None \<Rightarrow> None | Some v \<Rightarrow> if P v then Some v else None)"
  by (induction m) (auto simp: wf_map_def map_of_eq_None_iff split: option.splits dest: map_of_SomeD)

lemma uuid_not_integer:
  assumes "uuid_format s"
  shows "integerKey s = None"
proof -
  have "CHR ''-'' \<in> set s" using assms nth_mem [of 8 s] by (simp add: uuid_format_def)
  moreover have "\<not> is_digit CHR ''-''" by (simp add: is_digit_def byte_def)
  ultimately have "\<not> list_all is_digit s" unfolding list_all_iff by blast
  then have d: "parseDigits s = None" by (simp add: parseDigits_def)
  obtain c r where s: "s = c # r" using assms by (cases s) (simp_all add: uuid_format_def)
  have "c \<noteq> CHR ''+''" "c \<noteq> CHR ''-''" using assms s by (auto simp: uuid_format_def is_lower_hex_def is_digit_def byte_def)
  then show ?thesis using d unfolding integerKey_def parseInt64_def parseInteger_def s by simp
qed

section \<open>Properties\<close>

text \<open>
  C9: The weekly usage a user is charged is exactly the sum of the user's events. In every state the
  operations can reach from a new database, whatever was ingested in which order, however often the time
  zone changed or the table was rebuilt: the materialized row of a user and week holds the sums of the
  tokens and of the weighted tokens of the events that fall into it and their number, there is no row
  without an event, and rebuilding the table from all events changes no row (but for the time of the
  update). The hypotheses: the stored zone loads, and the sums of the events of a bucket fit into 64 bits.
\<close>

theorem weekly_usage_equals_rebuild:
  assumes "usage_reachable lib db" "loadWeekTimezone lib db = Inr z" "fits z (map snd (ud_events db))"
  shows "(\<forall>k. map_option rowUsage (map_of (ud_weekly db) k) =
            map_option (\<lambda>(raw, weighted, n). (SqlInt raw, SqlInt weighted, n)) (bucketUsage z (map snd (ud_events db)) k)) \<and>
         (\<exists>res db'. RebuildWeeklyUsage lib TxOK now db = (Inr res, db') \<and>
            (\<forall>k. map_option rowUsage (map_of (ud_weekly db') k) = map_option rowUsage (map_of (ud_weekly db) k)))"
proof -
  have ok: "usage_ok lib db" using usage_reachable_ok assms(1) .
  then have e: "events_ok db" by (simp add: usage_ok_def)
  have s: "weekly_sums z (map snd (ud_events db)) (ud_weekly db)" using ok assms(2,3) by (simp add: usage_ok_def)
  let ?db = "snd (rebuildWeeklyUsage now z db)"
  have r: "weekly_sums z (map snd (ud_events db)) (ud_weekly ?db)" using rebuild_weekly(2) [OF e assms(3)] .
  have run: "\<exists>res. RebuildWeeklyUsage lib TxOK now db = (Inr res, ?db)"
    by (cases "rebuildWeeklyUsage now z db") (simp add: RebuildWeeklyUsage_def usageTx_def assms(2))
  have "map_option rowUsage (map_of (ud_weekly ?db) k) = map_option rowUsage (map_of (ud_weekly db) k)" for k
    using r s unfolding weekly_sums_def by metis
  then show ?thesis using s run unfolding weekly_sums_def by blast
qed

text \<open>A database with one user, one event of ten tokens, and a zone eight hours east.\<close>

definition sampleLib :: usage_lib where
  "sampleLib = \<lparr>ul_zone = (\<lambda>n. Some (fixedZone n 28800)), ul_parseFloat = (\<lambda>_. None), ul_parseTime = (\<lambda>_ _. None),
     ul_sprintFloat = (\<lambda>_. []), ul_formatFloat = (\<lambda>_. ''1''), ul_encode = (\<lambda>_. None)\<rparr>"

definition sampleUsageEvent :: event where
  "sampleUsageEvent =
     [(''api_key'', AString ''k''), (''request_id'', AString ''r''), (''endpoint'', AString ''/v1/responses''), (''timestamp'', AInt 1760000000),
      (''tokens'', AObject [(''total_tokens'', AInt 10)])]"

definition samplePolicy :: WeightPolicy where
  "samplePolicy = \<lparr>wp_ModelMultipliers = [], wp_ReasoningMultipliers = []\<rparr>"

definition sampleIdentified :: usagedb where
  "sampleIdentified = snd (SyncIdentities TxOK 5 [\<lparr>ui_Key = ''k'', ui_Label = ''l'', ui_UserEmail = ''Ann'', ui_Account = ''c1''\<rparr>] initialUsage)"

definition sampleUsed :: usagedb where
  "sampleUsed = snd (IngestEvents sampleLib TxOK 1760000100 ''c1'' [sampleUsageEvent] samplePolicy sampleIdentified)"

lemma sampleUsed_reachable: "usage_reachable lib sampleIdentified" "usage_reachable sampleLib sampleUsed"
proof -
  show i: "usage_reachable lib sampleIdentified" for lib
    unfolding sampleIdentified_def by (rule next_step [OF initial identities]) (rule surjective_pairing)
  show "usage_reachable sampleLib sampleUsed"
    unfolding sampleUsed_def by (rule next_step [OF i ingest]) (rule surjective_pairing)
qed

lemma sample_digest: "keyHash ''k'' \<noteq> []"
proof -
  have "trim_space ''k'' = ''k''" by code_simp
  moreover have "sha256_hex ''k'' \<noteq> []" using length_sha256_hex [of "''k''"] by (metis length_0_conv zero_neq_numeral)
  ultimately show ?thesis by (simp add: keyHash_def)
qed

definition sampleIdentity :: identityRow where
  "sampleIdentity = \<lparr>ir_KeyLabel = ''l'', ir_UserEmail = ''ann'', ir_Account = ''c1'', ir_TeamID = [], ir_TeamMembershipVersion = 0,
     ir_FirstSeenAt = 5, ir_LastSeenAt = 5\<rparr>"

lemma sampleIdentified_eq: "sampleIdentified = initialUsage\<lparr>ud_identities := [(keyHash ''k'', sampleIdentity)]\<rparr>"
proof -
  have n: "norm_user ''Ann'' = ''ann''" "trim_space ''c1'' = ''c1''" by code_simp+
  show ?thesis by (simp add: sampleIdentity_def sampleIdentified_def SyncIdentities_def usageTx_def syncIdentity_def initialUsage_def sample_digest n)
qed

lemma sample_event:
  "businessEvent sampleLib sampleUsageEvent" "eventDigest sampleLib sampleUsageEvent = keyHash ''k''" "requestOf sampleLib sampleUsageEvent = ''r''"
  "prepareEvents sampleLib [sampleUsageEvent] = (noCounters\<lparr>ic_Received := 1\<rparr>, [\<lparr>pr_payload = sampleUsageEvent, pr_keyDigest = keyHash ''k''\<rparr>])"
proof -
  show b: "businessEvent sampleLib sampleUsageEvent" by code_simp
  have "trim_space (stringValue sampleLib (obj_get (Some sampleUsageEvent) ''api_key'')) = ''k''" by code_simp
  then show d: "eventDigest sampleLib sampleUsageEvent = keyHash ''k''" "prepareEvents sampleLib [sampleUsageEvent] =
     (noCounters\<lparr>ic_Received := 1\<rparr>, [\<lparr>pr_payload = sampleUsageEvent, pr_keyDigest = keyHash ''k''\<rparr>])"
    using b sample_digest by (simp_all add: eventDigest_def prepareEvents_def prepareEvent_def noCounters_def Let_def)
  show "requestOf sampleLib sampleUsageEvent = ''r''" by code_simp
qed

definition sampleNormal :: normalizedEvent where
  "sampleNormal = normalizeEvent sampleLib ''c1'' \<lparr>pr_payload = sampleUsageEvent, pr_keyDigest = keyHash ''k''\<rparr>
     sampleIdentity (normalizedModelMultipliers []) (normalizedReasoningMultipliers [])
     (weightPolicyVersion sampleLib (normalizedModelMultipliers []) (normalizedReasoningMultipliers [])) 1760000100"

lemma sampleNormal_fields:
  "ne_UserEmail sampleNormal = ''ann''" "ne_OccurredAt sampleNormal = 1760000000" "ne_TotalTokens sampleNormal = 10" "rebuildWeight sampleNormal = 10"
  "ne_WeightedTokens sampleNormal = 10" "bucket (fixedZone n 28800) sampleNormal = (''ann'', 1759680000)"
proof -
  have f1: "normalizeReasoningEffort sampleLib ANil = ''unknown''" by code_simp
  have f2: "trim_space (stringValue sampleLib ANil) = []" by code_simp
  have f3: "normalizeModelMultiplier [] [] = ''unknown''" by code_simp
  have f4: "gfloat (normalizedModelMultipliers []) ''unknown'' = Finite 1" by code_simp
  have f5: "gfloat (normalizedReasoningMultipliers []) ''unknown'' = Finite 1" by code_simp
  have f6: "f64_mul (Finite 1) (Finite 1) = Finite 1" "weightedTokens 10 (Finite 1) = 10"
    using f64_round_of_int [of 1] weightedTokens_exact [of 10 1] by simp_all
  have f7: "naturalWeekBounds 1760000000 (Some (fixedZone n 28800)) = (1759680000, 1760284800)" by code_simp
  have t: "map_of sampleUsageEvent ''timestamp'' = Some (AInt 1760000000)" "map_of sampleUsageEvent ''tokens'' = Some (AObject [(''total_tokens'', AInt 10)])"
    "map_of sampleUsageEvent ''reasoning_effort'' = None" "map_of sampleUsageEvent ''model'' = None" "map_of sampleUsageEvent ''alias'' = None"
    by (simp_all add: sampleUsageEvent_def)
  show u: "ne_UserEmail sampleNormal = ''ann''" "ne_OccurredAt sampleNormal = 1760000000"
    by (simp_all add: sampleNormal_def normalizeEvent_def Let_def sampleIdentity_def t)
  show "ne_TotalTokens sampleNormal = 10" by (simp add: sampleNormal_def normalizeEvent_def Let_def t)
  show w: "ne_WeightedTokens sampleNormal = 10"
    by (simp add: sampleNormal_def normalizeEvent_def Let_def t f1 f2 f3 f4 f5 f6 del: f64_mul.simps)
  have "ne_WeightPolicyVersion sampleNormal \<noteq> ''legacy-v1''" by (simp add: sampleNormal_def normalizeEvent_def Let_def version_not_legacy)
  then show "rebuildWeight sampleNormal = 10" using w by (simp add: rebuildWeight_def)
  show "bucket (fixedZone n 28800) sampleNormal = (''ann'', 1759680000)" using f7 u by (simp add: bucket_def)
qed

lemma sampleIngest:
  "IngestEvents sampleLib TxOK 1760000100 ''c1'' [sampleUsageEvent] samplePolicy sampleIdentified =
     (Inr (noCounters\<lparr>ic_Received := 1, ic_Inserted := 1\<rparr>), sampleUsed)"
  "ud_events sampleUsed = [(1, sampleNormal)]" "ud_adjustments sampleUsed = []" "ud_policies sampleUsed = []"
  "loadWeekTimezone sampleLib sampleUsed = Inr (fixedZone defaultWeekTimezone 28800)"
  "map_of (ud_meta sampleUsed) weeklyUsageTimezoneKey = Some defaultWeekTimezone"
proof -
  have t: "trim_space ''c1'' = ''c1''" "trim_space defaultWeekTimezone = defaultWeekTimezone" by code_simp+
  have z: "loadWeekTimezone sampleLib sampleIdentified = Inr (fixedZone defaultWeekTimezone 28800)"
    using t(2) by (simp add: loadWeekTimezone_def sampleIdentified_eq initialUsage_def sampleLib_def defaultWeekTimezone_def)
  have m: "map_of (ud_identities sampleIdentified) (keyHash ''k'') = Some sampleIdentity" and i: "ud_events sampleIdentified = []"
    by (simp_all add: sampleIdentified_eq initialUsage_def)
  let ?items = "[\<lparr>pr_payload = sampleUsageEvent, pr_keyDigest = keyHash ''k''\<rparr>]"
  have l: "loadIdentities ?items sampleIdentified = ud_identities sampleIdentified"
    by (simp add: loadIdentities_def sampleIdentified_eq)
  let ?db = "insertEvent (fixedZone defaultWeekTimezone 28800) 1760000100 sampleNormal sampleIdentified"
  have r: "IngestEvents sampleLib TxOK 1760000100 ''c1'' [sampleUsageEvent] samplePolicy sampleIdentified =
     (Inr (noCounters\<lparr>ic_Received := 1, ic_Inserted := 1\<rparr>), markWeekly (lastEventID ?db) ?db)"
    unfolding IngestEvents_def Let_def t sample_event(4) prod.case usageTx_def z l
    by (simp add: ingestEvent_def m hasEvent_def i sampleNormal_def [symmetric] samplePolicy_def noCounters_def Let_def)
  then have u: "sampleUsed = markWeekly (lastEventID ?db) ?db" by (simp add: sampleUsed_def)
  show "IngestEvents sampleLib TxOK 1760000100 ''c1'' [sampleUsageEvent] samplePolicy sampleIdentified =
     (Inr (noCounters\<lparr>ic_Received := 1, ic_Inserted := 1\<rparr>), sampleUsed)" using r u by simp
  show "ud_events sampleUsed = [(1, sampleNormal)]" by (simp add: u markWeekly_def insertEvent_def i lastEventID_def)
  show "ud_adjustments sampleUsed = []" "ud_policies sampleUsed = []" by (simp_all add: u markWeekly_def insertEvent_def sampleIdentified_eq initialUsage_def)
  show "map_of (ud_meta sampleUsed) weeklyUsageTimezoneKey = Some defaultWeekTimezone"
    by (simp add: u markWeekly_meta insertEvent_def sampleIdentified_eq initialUsage_def)
  show "loadWeekTimezone sampleLib sampleUsed = Inr (fixedZone defaultWeekTimezone 28800)"
    using z loadWeekTimezone_cong [of sampleUsed sampleIdentified sampleLib] markWeekly_meta [of "lastEventID ?db" ?db] by (simp add: u insertEvent_def)
qed

lemma sample_fits: "fits (fixedZone n 28800) [sampleNormal]"
  by (auto simp: fits_def bucketEvents_def sampleNormal_fields)

theorem weekly_usage_equals_rebuild_witness:
  "\<exists>r. map_of (ud_weekly sampleUsed) (''ann'', 1759680000) = Some r \<and> rowUsage r = (SqlInt 10, SqlInt 10, 1)"
proof -
  have f: "fits (fixedZone defaultWeekTimezone 28800) (map snd (ud_events sampleUsed))" by (simp add: sampleIngest sample_fits)
  have "bucketUsage (fixedZone defaultWeekTimezone 28800) (map snd (ud_events sampleUsed)) (''ann'', 1759680000) = Some (10, 10, 1)"
    by (simp add: bucketUsage_def bucketEvents_def sampleIngest sampleNormal_fields)
  then show ?thesis
    using weekly_usage_equals_rebuild [OF sampleUsed_reachable(2) sampleIngest(5) f, THEN conjunct1, rule_format, of "(''ann'', 1759680000)"] by auto
qed

text \<open>
  C10: An event is charged once. A batch that was ingested and is delivered again, with any weight policy
  and at any later time, inserts nothing and changes nothing in the database: neither the events nor the
  weekly usage nor the markers. And the counters account for every event of a batch: each is inserted, a
  duplicate, unmapped (without a key, or with an unknown one) or ignored, and the table of events grows by
  the inserted ones.
\<close>

theorem IngestEvents_once:
  assumes run: "IngestEvents lib tx now account events policy db = (Inr c, db')"
    and again: "IngestEvents lib tx' now' account events policy' db' = (Inr c', db'')"
  shows "db'' = db' \<and> ic_Inserted c' = 0 \<and>
    ic_Received c = int (length events) \<and> ic_Received c = ic_Inserted c + ic_Duplicate c + ic_Unmapped c + ic_Ignored c \<and>
    ic_Unmapped c = ic_MissingAPIKey c + ic_UnknownAPIKey c \<and> int (length (ud_events db')) = int (length (ud_events db)) + ic_Inserted c"
proof -
  obtain c0 items where p: "prepareEvents lib events = (c0, items)" by fastforce
  note P = prepare_events [of lib events noCounters "[]" c0 items, unfolded prepareEvents_def [symmetric], OF p]
  have n: "ic_Received noCounters = 0" "ic_Ignored noCounters = 0" "ic_Unmapped noCounters = 0" "ic_MissingAPIKey noCounters = 0"
    "ic_Inserted noCounters = 0" "ic_Duplicate noCounters = 0" "ic_UnknownAPIKey noCounters = 0" by (simp_all add: noCounters_def)
  have acc: "trim_space account \<noteq> []" using run by (auto simp: IngestEvents_def)
  show ?thesis
  proof (cases "items = []")
    case True
    then have "c = c0" "db' = db" "c' = c0" "db'' = db'" using run again p acc by (simp_all add: IngestEvents_def)
    then show ?thesis using P n True by simp
  next
    case False
    let ?key = "\<lambda>item. usageEventKey lib (trim_space account) (requestOf lib (pr_payload item)) (pr_keyDigest item) (pr_payload item)"
    let ?norm = "\<lambda>policy now item i. normalizeEvent lib (trim_space account) item i (normalizedModelMultipliers (wp_ModelMultipliers policy))
        (normalizedReasoningMultipliers (wp_ReasoningMultipliers policy))
        (weightPolicyVersion lib (normalizedModelMultipliers (wp_ModelMultipliers policy)) (normalizedReasoningMultipliers (wp_ReasoningMultipliers policy))) now"
    have ran: "\<exists>z d2. fold (ingestEvent z now (?norm policy now) (loadIdentities items d)) items (c0, d) = (c, d2) \<and>
         d1 = (if ic_Inserted c > 0 then markWeekly (lastEventID d2) d2 else d2)"
      if "IngestEvents lib tx now account events policy d = (Inr c, d1)" for tx now policy d c d1
    proof -
      note t = usageTx_Inr [OF that [unfolded IngestEvents_def Let_def p prod.case if_not_P [OF acc] if_not_P [OF False]]]
      obtain z where z: "loadWeekTimezone lib d = Inr z" using t by (cases "loadWeekTimezone lib d") auto
      obtain c2 d2 where f: "fold (ingestEvent z now (?norm policy now) (loadIdentities items d)) items (c0, d) = (c2, d2)" by fastforce
      have "c2 = c" "d1 = (if ic_Inserted c2 > 0 then markWeekly (lastEventID d2) d2 else d2)" using t unfolding z sum.case f prod.case by auto
      then show ?thesis using f by blast
    qed
    obtain z d2 where f: "fold (ingestEvent z now (?norm policy now) (loadIdentities items db)) items (c0, db) = (c, d2)"
      and d: "db' = (if ic_Inserted c > 0 then markWeekly (lastEventID d2) d2 else d2)" using ran [OF run] by blast
    obtain z' d3 where f': "fold (ingestEvent z' now' (?norm policy' now') (loadIdentities items db')) items (c0, db') = (c', d3)"
      and d': "db'' = (if ic_Inserted c' > 0 then markWeekly (lastEventID d3) d3 else d3)" using ran [OF again] by blast
    have e: "ud_events db' = ud_events d2" "ud_identities db' = ud_identities d2" using d by (simp_all add: markWeekly_def)
    have "ud_identities d2 = ud_identities db" using fold_identities [OF f] .
    then have l: "loadIdentities items db' = loadIdentities items db" using e(2) by (simp add: loadIdentities_def)
    have h: "\<forall>item \<in> set items. has_key (loadIdentities items db') (pr_keyDigest item) \<longrightarrow> hasEvent db' (?key item)"
      using ingest_present [OF f normalizeEvent_key, THEN conjunct2] e(1) unfolding l hasEvent_def by simp
    obtain c2 where "fold (ingestEvent z' now' (?norm policy' now') (loadIdentities items db')) items (c0, db') = (c2, db')" "ic_Inserted c2 = ic_Inserted c0"
      using ingest_again [where normal = "?norm policy' now'" and key = ?key, OF normalizeEvent_key h] by blast
    then have "d3 = db'" "ic_Inserted c' = 0" using f' P n by simp_all
    then have same: "db'' = db'" "ic_Inserted c' = 0" using d' by simp_all
    note K = ingest_counts [OF f] P [THEN conjunct2, unfolded list.size of_nat_0] n e(1)
    have "ic_Received c = int (length events)" using K by linarith
    moreover have "ic_Received c = ic_Inserted c + ic_Duplicate c + ic_Unmapped c + ic_Ignored c" using K by linarith
    moreover have "ic_Unmapped c = ic_MissingAPIKey c + ic_UnknownAPIKey c" using K by linarith
    moreover have "int (length (ud_events db')) = int (length (ud_events db)) + ic_Inserted c" using K by simp
    ultimately show ?thesis using same by simp
  qed
qed

theorem IngestEvents_once_witness:
  "\<exists>c. IngestEvents sampleLib TxOK 1760000200 ''c1'' [sampleUsageEvent] samplePolicy sampleUsed = (Inr c, sampleUsed) \<and> ic_Inserted c = 0"
proof -
  have z: "loadWeekTimezone sampleLib sampleUsed = Inr (fixedZone defaultWeekTimezone 28800)" by (rule sampleIngest(5))
  have t: "trim_space ''c1'' = ''c1''" by code_simp
  have "\<exists>c d. IngestEvents sampleLib TxOK 1760000200 ''c1'' [sampleUsageEvent] samplePolicy sampleUsed = (Inr c, d)"
    unfolding IngestEvents_def Let_def t sample_event(4) prod.case usageTx_def z by (simp split: prod.splits)
  then obtain c d where r: "IngestEvents sampleLib TxOK 1760000200 ''c1'' [sampleUsageEvent] samplePolicy sampleUsed = (Inr c, d)" by blast
  then show ?thesis using IngestEvents_once [OF sampleIngest(1) r] by blast
qed

lemma sampleUsed_bucket:
  "fits (fixedZone defaultWeekTimezone 28800) (map snd (ud_events sampleUsed))"
  "bucketEvents (fixedZone defaultWeekTimezone 28800) (''ann'', 1759680000) (map snd (ud_events sampleUsed)) = [sampleNormal]"
  "\<exists>r. map_of (ud_weekly sampleUsed) (''ann'', 1759680000) = Some r \<and> wr_TotalTokens r = SqlInt 10 \<and> wr_WeightedTokens r = SqlInt 10"
proof -
  show f: "fits (fixedZone defaultWeekTimezone 28800) (map snd (ud_events sampleUsed))" by (simp add: sampleIngest sample_fits)
  show b: "bucketEvents (fixedZone defaultWeekTimezone 28800) (''ann'', 1759680000) (map snd (ud_events sampleUsed)) = [sampleNormal]"
    by (simp add: bucketEvents_def sampleIngest sampleNormal_fields)
  have s: "weekly_sums (fixedZone defaultWeekTimezone 28800) (map snd (ud_events sampleUsed)) (ud_weekly sampleUsed)"
    using usage_reachable_ok [OF sampleUsed_reachable(2)] sampleIngest(5) f by (simp add: usage_ok_def)
  have "map_option rowUsage (map_of (ud_weekly sampleUsed) (''ann'', 1759680000)) = Some (SqlInt 10, SqlInt 10, 1)"
    using s [unfolded weekly_sums_def, rule_format, of "(''ann'', 1759680000)"] by (simp add: bucketUsage_def b sampleNormal_fields)
  then show "\<exists>r. map_of (ud_weekly sampleUsed) (''ann'', 1759680000) = Some r \<and> wr_TotalTokens r = SqlInt 10 \<and> wr_WeightedTokens r = SqlInt 10"
    by (auto simp: rowUsage_def)
qed

text \<open>
  C11: The quota of a user is the user's usage against the user's limit. For every user that was asked
  for and for no other there is a quota; in a reachable state its raw and weighted usage are the sums over
  the user's events of the current week; the used tokens are the weighted usage less the tokens that were
  reset, and not negative; the limit is that of the user's policy, unless it has expired, or the default,
  with the bonus added; and the limit is reported as reached exactly when there is one and the used tokens
  have come up to it. Expired policies have no effect even before they are deleted.
\<close>

theorem WeeklyQuotas_charge:
  assumes "usage_reachable lib db" "loadWeekTimezone lib db = Inr z" "fits z (map snd (ud_events db))"
    and run: "WeeklyQuotas lib tx now users defaultLimit db = Inr quotas"
  shows "set (keys quotas) = set (normalizedEmailSet users) \<and>
    (\<forall>(u, q) \<in> set quotas.
       let week = weekStart z now; b = bucketEvents z (u, week) (map snd (ud_events db)); adjustments = userAdjustments week u db;
           bonus = \<Sum>a\<leftarrow>filter (\<lambda>a. ad_Action a = ''bonus'') adjustments. ad_TokenAmount a;
           resets = \<Sum>a\<leftarrow>filter (\<lambda>a. ad_Action a = ''usage_reset'') adjustments. ad_TokenAmount a
       in uq_RawUsedTokens q = (\<Sum>e\<leftarrow>b. ne_TotalTokens e) \<and> uq_WeightedRawUsedTokens q = (\<Sum>e\<leftarrow>b. rebuildWeight e) \<and>
          uq_UsedTokens q = max (i64 (uq_WeightedRawUsedTokens q - resets)) 0 \<and> 0 \<le> uq_UsedTokens q \<and>
          uq_LimitTokens q = map_option (\<lambda>n. i64 (n + bonus))
            (case map_of (ud_policies db) u of None \<Rightarrow> defaultLimit | Some p \<Rightarrow> if expired now p then defaultLimit else pw_WeeklyTokens p) \<and>
          (uq_LimitReached q \<longleftrightarrow> (\<exists>n. uq_LimitTokens q = Some n \<and> n \<le> uq_UsedTokens q)))"
proof (cases "normalizedEmailSet users = []")
  case True
  then show ?thesis using run by (simp add: WeeklyQuotas_def)
next
  case False
  have s: "weekly_sums z (map snd (ud_events db)) (ud_weekly db)"
    using usage_reachable_ok [OF assms(1)] assms(2,3) by (simp add: usage_ok_def)
  let ?bounds = "naturalWeekBounds now (Some z)"
  let ?quota = "\<lambda>u. quotaOf (zn_Name z) ?bounds defaultLimit (livePolicy now u db)"
  have q: "quotasOf (\<lambda>u. quotaReads (fst ?bounds) u db) ?quota (normalizedEmailSet users) = Inr quotas"
    using run False assms(2) by (auto simp: WeeklyQuotas_def Let_def split: if_splits)
  have all: "map fst m = us \<and> (\<forall>(u, x) \<in> set m. \<exists>r. reads u = Inr r \<and> x = quota u r)"
    if "quotasOf reads quota us = Inr m" for reads quota us m
    using that by (induction us arbitrary: m) (auto split: sum.splits)
  note A = all [OF q]
  have one: "quotaReads (fst ?bounds) u db = Inr r \<Longrightarrow>
      fst (fst r) = (\<Sum>e\<leftarrow>bucketEvents z (u, fst ?bounds) (map snd (ud_events db)). ne_TotalTokens e) \<and>
      snd (fst r) = (\<Sum>e\<leftarrow>bucketEvents z (u, fst ?bounds) (map snd (ud_events db)). rebuildWeight e) \<and>
      fst (snd r) = (\<Sum>a\<leftarrow>filter (\<lambda>a. ad_Action a = ''bonus'') (userAdjustments (fst ?bounds) u db). ad_TokenAmount a) \<and>
      fst (snd (snd r)) = (\<Sum>a\<leftarrow>filter (\<lambda>a. ad_Action a = ''usage_reset'') (userAdjustments (fst ?bounds) u db). ad_TokenAmount a)" for u r
    by (rule quotaReads_sums [OF s])
  have "case x of (u, q) \<Rightarrow> let week = fst ?bounds; b = bucketEvents z (u, week) (map snd (ud_events db)); adjustments = userAdjustments week u db;
           bonus = \<Sum>a\<leftarrow>filter (\<lambda>a. ad_Action a = ''bonus'') adjustments. ad_TokenAmount a;
           resets = \<Sum>a\<leftarrow>filter (\<lambda>a. ad_Action a = ''usage_reset'') adjustments. ad_TokenAmount a
       in uq_RawUsedTokens q = (\<Sum>e\<leftarrow>b. ne_TotalTokens e) \<and> uq_WeightedRawUsedTokens q = (\<Sum>e\<leftarrow>b. rebuildWeight e) \<and>
          uq_UsedTokens q = max (i64 (uq_WeightedRawUsedTokens q - resets)) 0 \<and> 0 \<le> uq_UsedTokens q \<and>
          uq_LimitTokens q = map_option (\<lambda>n. i64 (n + bonus))
            (case map_of (ud_policies db) u of None \<Rightarrow> defaultLimit | Some p \<Rightarrow> if expired now p then defaultLimit else pw_WeeklyTokens p) \<and>
          (uq_LimitReached q \<longleftrightarrow> (\<exists>n. uq_LimitTokens q = Some n \<and> n \<le> uq_UsedTokens q))" if x: "x \<in> set quotas" for x
  proof -
    obtain u q where u: "x = (u, q)" by fastforce
    obtain r where r: "quotaReads (fst ?bounds) u db = Inr r" "q = ?quota u r" using A x u by blast
    show ?thesis using one [OF r(1)] quotaOf_fields [of "zn_Name z" ?bounds defaultLimit "livePolicy now u db" r]
      unfolding u r(2) prod.case Let_def by (simp add: livePolicy_def split: option.splits)
  qed
  note quota = this
  have "set (keys quotas) = set (normalizedEmailSet users)" using A by simp
  then show ?thesis by (intro conjI ballI) (assumption, rule quota)
qed

theorem WeeklyQuotas_charge_witness:
  "\<exists>q. WeeklyQuotas sampleLib TxOK 1760000200 [''ANN ''] (Some 8) sampleUsed = Inr [(''ann'', q)] \<and> uq_UsedTokens q = 10 \<and> uq_LimitReached q"
proof -
  have n: "normalizedEmailSet [''ANN ''] = [''ann'']" by code_simp
  have w: "naturalWeekBounds 1760000200 (Some (fixedZone defaultWeekTimezone 28800)) = (1759680000, 1760284800)" by code_simp
  note f = sampleUsed_bucket(1) and b = sampleUsed_bucket(2)
  obtain r where r: "map_of (ud_weekly sampleUsed) (''ann'', 1759680000) = Some r" "wr_TotalTokens r = SqlInt 10" "wr_WeightedTokens r = SqlInt 10"
    using sampleUsed_bucket(3) by blast
  have "\<exists>x. quotaReads 1759680000 ''ann'' sampleUsed = Inr x"
    by (simp add: quotaReads_def Let_def r userAdjustments_def sampleIngest sumTokens_def in_i64_def)
  then obtain x where x: "quotaReads 1759680000 ''ann'' sampleUsed = Inr x" by blast
  let ?q = "quotaOf (zn_Name (fixedZone defaultWeekTimezone 28800)) (1759680000, 1760284800) (Some 8) (livePolicy 1760000200 ''ann'' sampleUsed) x"
  have run: "WeeklyQuotas sampleLib TxOK 1760000200 [''ANN ''] (Some 8) sampleUsed = Inr [(''ann'', ?q)]"
    by (simp add: WeeklyQuotas_def n sampleIngest(5) w x Let_def)
  have i: "i64 10 = 10" "i64 8 = 8" by (simp_all add: i64_def)
  show ?thesis
    using WeeklyQuotas_charge [OF sampleUsed_reachable(2) sampleIngest(5) f run] run
    by (simp add: w b Let_def userAdjustments_def sampleIngest(3,4) sampleNormal_fields i)
qed

text \<open>
  Personal quotas end with the week. After a successful run no policy that has expired is left; with
  the reset enabled every policy has an end, and after a change of zone it is the end of the current week;
  with the reset disabled none has. The limit a user has now is not changed by any of this.
\<close>

theorem ConfigurePersonalQuotaReset_schedules:
  assumes run: "ConfigurePersonalQuotaReset lib tx now enabled reschedule db = (Inr result, db')" and wf: "wf_map (ud_policies db)"
    and z: "loadWeekTimezone lib db = Inr z" "now < snd (naturalWeekBounds now (Some z))"
  shows "(\<forall>(u, p) \<in> set (ud_policies db'). \<not> expired now p \<and> (enabled \<longleftrightarrow> pw_ResetAt p \<noteq> None) \<and>
            (enabled \<and> reschedule \<longrightarrow> pw_ResetAt p = Some (snd (naturalWeekBounds now (Some z))))) \<and>
         (\<forall>u. map_option pw_WeeklyTokens (livePolicy now u db') = map_option pw_WeeklyTokens (livePolicy now u db)) \<and>
         db' = db\<lparr>ud_policies := ud_policies db'\<rparr>"
proof -
  obtain startAt endAt where w: "naturalWeekBounds now (Some z) = (startAt, endAt)" by fastforce
  let ?f = "\<lambda>p. if enabled then if reschedule \<or> pw_ResetAt p = None then p\<lparr>pw_ResetAt := Some endAt\<rparr> else p
         else if pw_ResetAt p \<noteq> None then p\<lparr>pw_ResetAt := None\<rparr> else p"
  let ?live = "filter (\<lambda>(u, p). \<not> expired now p) (ud_policies db)"
  have d: "db' = db\<lparr>ud_policies := map (\<lambda>(u, p). (u, ?f p)) ?live\<rparr>"
    using usageTx_Inr [OF run [unfolded ConfigurePersonalQuotaReset_def]] unfolding z(1) sum.case w prod.case Let_def updatePolicies_def by (cases enabled) auto
  have e: "\<not> expired now (?f p)" if "\<not> expired now p" for p using that z(2) w by (simp add: expired_def)
  have m: "map_of ?live u = (case map_of (ud_policies db) u of None \<Rightarrow> None | Some p \<Rightarrow> if expired now p then None else Some p)" for u
    using map_of_filter_wf [OF wf, of "\<lambda>p. \<not> expired now p" u] by (simp split: option.splits)
  have l: "livePolicy now u db' = map_option ?f (livePolicy now u db)" for u
  proof -
    have n: "map_of (ud_policies db') u = map_option ?f (map_of ?live u)" unfolding d by (simp add: map_of_map)
    show ?thesis
    proof (cases "livePolicy now u db")
      case None
      then have "map_of ?live u = None" using m [of u] by (simp add: livePolicy_def split: option.splits)
      then show ?thesis using None n by (simp add: livePolicy_def)
    next
      case (Some p)
      then have p: "map_of ?live u = Some p" "\<not> expired now p" using m [of u] by (auto simp: livePolicy_def split: option.splits if_splits)
      then have "map_of (ud_policies db') u = Some (?f p)" using n by simp
      then have "livePolicy now u db' = Some (?f p)" using e [OF p(2)] by (simp only: livePolicy_def option.case if_False)
      then show ?thesis using Some by simp
    qed
  qed
  have "map_option pw_WeeklyTokens (livePolicy now u db') = map_option pw_WeeklyTokens (livePolicy now u db)" for u
    unfolding l by (cases "livePolicy now u db") auto
  moreover have "\<forall>(u, p) \<in> set (ud_policies db'). \<not> expired now p \<and> (enabled \<longleftrightarrow> pw_ResetAt p \<noteq> None) \<and>
            (enabled \<and> reschedule \<longrightarrow> pw_ResetAt p = Some endAt)"
    using e unfolding d by auto
  ultimately show ?thesis unfolding w snd_conv using d by simp
qed

definition scheduledDb :: usagedb where
  "scheduledDb = initialUsage\<lparr>ud_policies :=
     [(''ann'', \<lparr>pw_WeeklyTokens = Some 5, pw_CreatedAt = 1, pw_UpdatedAt = 1, pw_CreatedBy = ''x'', pw_ResetAt = None\<rparr>),
      (''bob'', \<lparr>pw_WeeklyTokens = None, pw_CreatedAt = 1, pw_UpdatedAt = 1, pw_CreatedBy = ''x'', pw_ResetAt = Some 7\<rparr>)]\<rparr>"

theorem ConfigurePersonalQuotaReset_schedules_witness:
  "\<exists>result db'. ConfigurePersonalQuotaReset sampleLib TxOK 1760000000 True False scheduledDb = (Inr result, db') \<and>
     qc_ExpiredPolicies result = 1 \<and> (\<forall>(u, p) \<in> set (ud_policies db'). pw_ResetAt p \<noteq> None)"
proof -
  have t: "trim_space defaultWeekTimezone = defaultWeekTimezone" by code_simp
  have z: "loadWeekTimezone sampleLib scheduledDb = Inr (fixedZone defaultWeekTimezone 28800)"
    using t by (simp add: loadWeekTimezone_def scheduledDb_def initialUsage_def sampleLib_def defaultWeekTimezone_def)
  have w: "naturalWeekBounds 1760000000 (Some (fixedZone defaultWeekTimezone 28800)) = (1759680000, 1760284800)" by code_simp
  have "\<exists>result db'. ConfigurePersonalQuotaReset sampleLib TxOK 1760000000 True False scheduledDb = (Inr result, db') \<and> qc_ExpiredPolicies result = 1"
    unfolding ConfigurePersonalQuotaReset_def usageTx_def z sum.case w prod.case by (simp add: scheduledDb_def expired_def updatePolicies_def Let_def)
  then obtain result db' where r: "ConfigurePersonalQuotaReset sampleLib TxOK 1760000000 True False scheduledDb = (Inr result, db')" "qc_ExpiredPolicies result = 1" by blast
  have wf: "wf_map (ud_policies scheduledDb)" by (simp add: scheduledDb_def wf_map_def)
  have "1760000000 < snd (naturalWeekBounds 1760000000 (Some (fixedZone defaultWeekTimezone 28800)))" by (simp add: w)
  from ConfigurePersonalQuotaReset_schedules [OF r(1) wf z this] r show ?thesis by auto
qed

text \<open>
  C35: On the schema the repository deploys, no quota adjustment can be recorded. \<open>addQuotaBonus\<close> and
  \<open>resetQuotaUsage\<close> give each new row the text of a UUID as its id, and the id column of \<open>schema.go\<close> is
  an integer primary key, which SQLite refuses to fill with a text that is not an integer. So a quota
  action never changes the adjustments; a bonus fails for every valid request; and resetting the usage
  succeeds only for users who have nothing to reset. (Only \<open>restore_default\<close> does what it says.)
\<close>

theorem ApplyQuotaAction_never_adjusts:
  assumes uuids: "\<forall>n. uuid_format (uuids n)" and run: "ApplyQuotaAction lib tx uuids now request db = (r, db')"
  shows "ud_adjustments db' = ud_adjustments db \<and> (norm_user (qr_Action request) = ''add_bonus'' \<longrightarrow> (\<exists>e. r = Inl e) \<and> db' = db) \<and>
    (norm_user (qr_Action request) = ''reset_usage'' \<longrightarrow> db' = db \<and> (case r of Inl e \<Rightarrow> True | Inr x \<Rightarrow> qs_AppliedUsers x = []))"
proof -
  have no: "insertAdjustment (uuids n) row d = Inl UsageMismatch" for n row d
    using uuid_not_integer [OF uuids [rule_format, of n]] by (simp add: insertAdjustment_def)
  have kept: "db'' = d \<and> qs_AppliedUsers x = qs_AppliedUsers result"
    if "resetUsers uuids n row effective us result d = Inr (x, db'')" for n row effective us result d x db''
    using that by (induction us arbitrary: n result d) (auto simp: no split: if_splits)
  from run show ?thesis
  proof (cases rule: ApplyQuotaAction_cases)
    case (refused e)
    then show ?thesis by simp
  next
    case (restored x)
    then show ?thesis by (simp add: clearQuotaPolicies_def)
  next
    case (bonus x)
    obtain row where "insertBonuses uuids 0 row (normalizedEmailSet (qr_Users request)) db = Inr db'"
      using addQuotaBonus_rows [OF bonus(3)] by (auto simp: normalizedRequest_def)
    then show ?thesis using bonus(2) by (cases "normalizedEmailSet (qr_Users request)") (simp_all add: no)
  next
    case (resets x)
    obtain row effective result where "resetUsers uuids 0 row effective (qr_Users (normalizedRequest request)) result db = Inr (x, db')" "qs_AppliedUsers result = []"
      using resetQuotaUsage_rows [OF resets(3)] by blast
    then have "db' = db" "qs_AppliedUsers x = []" using kept by fastforce+
    then show ?thesis using resets(1,2) by simp
  qed
qed

theorem ApplyQuotaAction_never_adjusts_witness:
  "\<exists>r db'. ApplyQuotaAction sampleLib TxOK (\<lambda>_. ''01234567-89ab-4cde-8f01-23456789abcd'') 1760000000
       \<lparr>qr_Action = ''add_bonus'', qr_Users = [''Ann''], qr_TokenAmount = 200, qr_Reason = ''thanks'', qr_CreatedBy = ''admin'', qr_DefaultLimit = Some 100\<rparr>
       scheduledDb = (r, db') \<and> (\<exists>e. r = Inl e) \<and> ud_adjustments db' = []"
proof -
  let ?uuids = "\<lambda>_. ''01234567-89ab-4cde-8f01-23456789abcd''"
  let ?req = "\<lparr>qr_Action = ''add_bonus'', qr_Users = [''Ann''], qr_TokenAmount = 200, qr_Reason = ''thanks'', qr_CreatedBy = ''admin'', qr_DefaultLimit = Some 100\<rparr>"
  obtain r db' where run: "ApplyQuotaAction sampleLib TxOK ?uuids 1760000000 ?req scheduledDb = (r, db')" by fastforce
  have "\<forall>n. uuid_format (?uuids n)" by (simp add: uuid_format_def is_lower_hex_def is_digit_def byte_def)
  note A = ApplyQuotaAction_never_adjusts [OF this run]
  have "norm_user ''add_bonus'' = ''add_bonus''" by code_simp
  then show ?thesis using A run by (auto simp: scheduledDb_def initialUsage_def)
qed

end
