(* ===== verification/Collector.thy ===== *)
theory Collector
  imports Usage_Quota Auth_Snapshot
begin

text \<open>
  The usage collector (\<open>internal/collector\<close>): reading the configuration (\<open>runtime.go\<close>), draining the
  queue of an account (\<open>queue.go\<close>, \<open>service.go\<close>), one run of the collector with every write of the usage
  database and of the two quota files under the ownership fence (\<open>runtime.go\<close>, \<open>fenced_writer.go\<close>,
  \<open>fenced_publisher.go\<close>), and the publication of the quota snapshot and of the heartbeat the gateways
  read (\<open>snapshot.go\<close>).

  The queue is the list of replies the server gives to the \<open>LPOP\<close>s of one drain, in their order; JSON,
  file permissions and the texts of errors are arguments. The fence of each write is proved against the
  lease rows of the control plane at the time of that write (\<open>cv_io\<close>, by the number of the write).
\<close>

section \<open>Definitions\<close>

subsection \<open>Configuration\<close>

record RuntimeConfig =
  rc_ManagementKey :: string
  rc_BatchSize :: int64
  rc_WeekTimezone :: string
  rc_ResetPersonalWeeklyOnNewWeek :: bool
  rc_DefaultWeeklyTokens :: "int64 option"
  rc_ModelMultipliers :: "(string, float64) gomap"
  rc_ReasoningMultipliers :: "(string, float64) gomap"
  rc_HeartbeatStaleAfterSeconds :: int64
  rc_QuotaFailOpenAfterSeconds :: int64

definition maxBatchSize :: int where "maxBatchSize = 500"

definition DefaultRuntimeConfig :: RuntimeConfig where
  "DefaultRuntimeConfig =
     \<lparr>rc_ManagementKey = [], rc_BatchSize = 100, rc_WeekTimezone = defaultWeekTimezone, rc_ResetPersonalWeeklyOnNewWeek = True,
      rc_DefaultWeeklyTokens = None, rc_ModelMultipliers = [], rc_ReasoningMultipliers = [],
      rc_HeartbeatStaleAfterSeconds = 15, rc_QuotaFailOpenAfterSeconds = 300\<rparr>"

text \<open>The settings: an error, absent, or a value.\<close>

datatype 'a setting = SettingError | SettingAbsent | Setting 'a

definition finiteSetting :: "float64 option \<Rightarrow> float64 setting" where
  "finiteSetting x = (case x of None \<Rightarrow> SettingError | Some v \<Rightarrow> if is_nan v \<or> is_inf v then SettingError else Setting v)"

definition numberSetting :: "usage_lib \<Rightarrow> (string \<times> goany) list \<Rightarrow> string \<Rightarrow> float64 setting" where
  "numberSetting lib settings key =
     (case map_of settings key of
        None \<Rightarrow> SettingAbsent
      | Some (AFloat x) \<Rightarrow> finiteSetting (Some x)
      | Some (AInt n) \<Rightarrow> finiteSetting (Some (f64_of_int n))
      | Some (AInt64 n) \<Rightarrow> finiteSetting (Some (f64_of_int n))
      | Some (ANumber s) \<Rightarrow> finiteSetting (ul_parseFloat lib s)
      | Some (AString s) \<Rightarrow> finiteSetting (ul_parseFloat lib (trim_space s))
      | Some _ \<Rightarrow> SettingError)"

fun integerValue :: "goany \<Rightarrow> int64 option" where
  "integerValue (AInt n) = Some n"
| "integerValue (AInt64 n) = Some n"
| "integerValue (AFloat x) =
     (if is_nan x \<or> is_inf x \<or> f64_lt (Finite (2 ^ 63)) x \<or> f64_lt x (Finite (- (2 ^ 63))) \<or> \<not> f64_eq x (f64_of_int (f64_to_int64 x))
      then None else Some (f64_to_int64 x))"
| "integerValue (ANumber s) = parseInt64 s"
| "integerValue (AString s) = parseInt64 (trim_space s)"
| "integerValue _ = None"

definition integerSetting :: "(string \<times> goany) list \<Rightarrow> string \<Rightarrow> int64 setting" where
  "integerSetting settings key =
     (case map_of settings key of
        None \<Rightarrow> SettingAbsent
      | Some raw \<Rightarrow> (case integerValue raw of None \<Rightarrow> SettingError | Some n \<Rightarrow> Setting n))"

definition booleanSetting :: "(string \<times> goany) list \<Rightarrow> string \<Rightarrow> bool setting" where
  "booleanSetting settings key =
     (case map_of settings key of None \<Rightarrow> SettingAbsent | Some (ABool b) \<Rightarrow> Setting b | Some _ \<Rightarrow> SettingError)"

text \<open>\<open>sitetime.Name\<close>: the first of the three keys that is set decides.\<close>

fun siteName :: "usage_lib \<Rightarrow> (string \<times> goany) list \<Rightarrow> string list \<Rightarrow> string option" where
  "siteName lib settings [] = Some defaultWeekTimezone"
| "siteName lib settings (key # ks) =
     (case map_of settings key of
        None \<Rightarrow> siteName lib settings ks
      | Some (AString raw) \<Rightarrow>
          (let name = trim_space raw in if name = [] \<or> name = ''Local'' \<or> ul_zone lib name = None then None else Some name)
      | Some _ \<Rightarrow> None)"

definition timezoneKeys :: "string list" where
  "timezoneKeys = [''system.timezone'', ''user_quota.timezone'', ''notification.timezone'']"

text \<open>A group of multipliers; each that is set has to be between 0.1 and 10.\<close>

fun multiplierSettings :: "usage_lib \<Rightarrow> (string \<times> goany) list \<Rightarrow> string list \<Rightarrow> (string, float64) gomap \<Rightarrow> (string, float64) gomap option" where
  "multiplierSettings lib settings [] m = Some m"
| "multiplierSettings lib settings (key # ks) m =
     (case numberSetting lib settings key of
        SettingError \<Rightarrow> None
      | SettingAbsent \<Rightarrow> multiplierSettings lib settings ks m
      | Setting v \<Rightarrow> if f64_lt v (f64_round (1 / 10)) \<or> f64_lt (Finite 10) v then None
                     else multiplierSettings lib settings ks (AList.update key v m))"

definition runtimeInterval :: "usage_lib \<Rightarrow> (string \<times> goany) list \<Rightarrow> int option" where
  "runtimeInterval lib settings =
     (case numberSetting lib settings ''collector.interval_seconds'' of
        SettingError \<Rightarrow> None
      | SettingAbsent \<Rightarrow> Some (2 * second)
      | Setting v \<Rightarrow> Some (f64_to_int64 (f64_mul v (Finite 1000000000))))"

definition RuntimeConfigFromSettings :: "usage_lib \<Rightarrow> (string \<times> goany) list \<Rightarrow> (RuntimeConfig \<times> int) option" where
  "RuntimeConfigFromSettings lib settings =
     (let c0 = DefaultRuntimeConfig
      in case runtimeInterval lib settings of None \<Rightarrow> None | Some interval \<Rightarrow>
         case integerSetting settings ''collector.batch_size'' of SettingError \<Rightarrow> None | batch \<Rightarrow>
         case siteName lib settings timezoneKeys of None \<Rightarrow> None | Some zoneName \<Rightarrow>
         case booleanSetting settings ''user_quota.reset_personal_weekly_on_new_week'' of SettingError \<Rightarrow> None | resets \<Rightarrow>
         case (case map_of settings ''user_quota.default_weekly_tokens'' of
                 None \<Rightarrow> Some None
               | Some ANil \<Rightarrow> Some None
               | Some raw \<Rightarrow> (case integerValue raw of None \<Rightarrow> None | Some n \<Rightarrow> if n \<le> 0 then None else Some (Some n))) of
           None \<Rightarrow> None | Some weekly \<Rightarrow>
         case integerSetting settings ''user_quota.fail_open_after_seconds'' of SettingError \<Rightarrow> None | failOpen \<Rightarrow>
         case multiplierSettings lib settings (map (ModelMultiplierSettingKey \<circ> fst) modelMultiplierDefinitions) [] of None \<Rightarrow> None | Some models \<Rightarrow>
         case multiplierSettings lib settings (map ReasoningMultiplierSettingKey reasoningEfforts) [] of None \<Rightarrow> None | Some reasoning \<Rightarrow>
         let c = c0\<lparr>rc_BatchSize := (case batch of Setting n \<Rightarrow> n | _ \<Rightarrow> rc_BatchSize c0), rc_WeekTimezone := zoneName,
                    rc_ResetPersonalWeeklyOnNewWeek := (case resets of Setting b \<Rightarrow> b | _ \<Rightarrow> rc_ResetPersonalWeeklyOnNewWeek c0),
                    rc_DefaultWeeklyTokens := weekly,
                    rc_QuotaFailOpenAfterSeconds := (case failOpen of Setting n \<Rightarrow> n | _ \<Rightarrow> rc_QuotaFailOpenAfterSeconds c0),
                    rc_ModelMultipliers := models, rc_ReasoningMultipliers := reasoning\<rparr>
         in if interval < second div 2 \<or> interval > 60 * second \<or> rc_BatchSize c < 1 \<or> rc_BatchSize c > maxBatchSize \<or> ul_zone lib zoneName = None
            then None else Some (c, interval))"

subsection \<open>Errors\<close>

datatype collect_error =
    CollectDependencies | CollectKeyRequired | CollectBatchSize | CollectTimezoneRequired
  | CollectRead string | CollectInternalKeys control_error | CollectUsage usage_error | CollectFence lease_error
  | QueueInvalid | QueueConnect | QueueAuth | QueueRead | QueueReply | ConsumeFailed collect_error
  | QuotaRootRequired | QuotaEncode | QuotaInvalid snapshot_error | QuotaWrite

text \<open>\<open>strings.ReplaceAll\<close> of a text that is not empty.\<close>

fun replaceAll :: "nat \<Rightarrow> string \<Rightarrow> string \<Rightarrow> string \<Rightarrow> string" where
  "replaceAll 0 old new s = s"
| "replaceAll (Suc n) old new [] = []"
| "replaceAll (Suc n) old new (c # s) =
     (if has_prefix old (c # s) then new @ replaceAll n old new (drop (length old) (c # s)) else c # replaceAll n old new s)"

definition safeRuntimeError :: "(collect_error \<Rightarrow> string) \<Rightarrow> string \<Rightarrow> collect_error \<Rightarrow> string \<Rightarrow> string" where
  "safeRuntimeError texts scope e secret =
     (let message = texts e
      in scope @ '': '' @ (if secret = [] then message else replaceAll (length message) secret ''[REDACTED]'' message))"

subsection \<open>The queue\<close>

datatype queue_item = ItemBytes string | ItemString string | ItemNil | ItemOther

datatype queue_reply = ReplyNil | ReplyBytes string | ReplyString string | ReplyList "queue_item list" | ReplyOther

fun queueItem :: "queue_item \<Rightarrow> string list option" where
  "queueItem (ItemBytes b) = Some [b]"
| "queueItem (ItemString s) = Some [s]"
| "queueItem ItemNil = Some []"
| "queueItem ItemOther = None"

fun usageQueueItems :: "queue_reply \<Rightarrow> string list option" where
  "usageQueueItems ReplyNil = Some []"
| "usageQueueItems (ReplyBytes b) = Some [b]"
| "usageQueueItems (ReplyString s) = Some [s]"
| "usageQueueItems (ReplyList items) =
     (if list_all (\<lambda>i. queueItem i \<noteq> None) items then Some (concat (map (the \<circ> queueItem) items)) else None)"
| "usageQueueItems ReplyOther = None"

text \<open>
  One drain of the queue: whether the connection is made, the answer to \<open>AUTH\<close>, and the replies to the
  \<open>LPOP\<close>s; a reply that does not come is an error.
\<close>

record queue_io =
  qi_dial :: bool
  qi_auth :: "string option"
  qi_replies :: "queue_reply option list"

definition NewQueue :: "string \<Rightarrow> string \<Rightarrow> int \<Rightarrow> collect_error option" where
  "NewQueue address password batchSize =
     (if trim_space address = [] \<or> trim_space password = [] \<or> batchSize < 1 \<or> batchSize > maxBatchSize then Some QueueInvalid else None)"

fun drainReplies :: "int \<Rightarrow> (string list \<Rightarrow> 's \<Rightarrow> collect_error option \<times> 's) \<Rightarrow> queue_reply option list \<Rightarrow> 's \<Rightarrow> collect_error option \<times> 's" where
  "drainReplies batchSize consume [] s = (Some QueueRead, s)"
| "drainReplies batchSize consume (None # replies) s = (Some QueueRead, s)"
| "drainReplies batchSize consume (Some reply # replies) s =
     (case usageQueueItems reply of
        None \<Rightarrow> (Some QueueReply, s)
      | Some items \<Rightarrow>
          if items = [] then (None, s)
          else (case consume items s of
                  (Some e, s') \<Rightarrow> (Some (ConsumeFailed e), s')
                | (None, s') \<Rightarrow> if int (length items) < batchSize then (None, s') else drainReplies batchSize consume replies s'))"

definition queueDrain :: "int \<Rightarrow> queue_io \<Rightarrow> (string list \<Rightarrow> 's \<Rightarrow> collect_error option \<times> 's) \<Rightarrow> 's \<Rightarrow> collect_error option \<times> 's" where
  "queueDrain batchSize q consume s =
     (if \<not> qi_dial q then (Some QueueConnect, s)
      else if qi_auth q \<noteq> Some ''OK'' then (Some QueueAuth, s)
      else drainReplies batchSize consume (qi_replies q) s)"

subsection \<open>The quota files\<close>

record HeartbeatPayload =
  hp_Version :: int
  hp_UpdatedAt :: int64
  hp_OK :: bool
  hp_Error :: string
  hp_StaleAfterSeconds :: int64
  hp_LastSuccessAt :: int64
  hp_FailOpenAfterSeconds :: int64

text \<open>
  JSON of the collector: the input of the digest, the two files as they are written, what is read of the
  previous ones, and the gateway's decoders. An item of the queue decodes to its first value (\<open>None\<close> for
  null) and whether nothing follows it.
\<close>

record collect_codec =
  cc_float :: parse_float
  cc_digest :: "QuotaRecord list \<Rightarrow> string option"
  cc_encQuota :: "string \<Rightarrow> int64 \<Rightarrow> string \<Rightarrow> QuotaRecord list \<Rightarrow> string option"
  cc_peekQuota :: "string \<Rightarrow> string \<times> string"
  cc_decQuota :: "string \<Rightarrow> rawQuotaSnapshot option"
  cc_encBeat :: "HeartbeatPayload \<Rightarrow> string option"
  cc_peekBeat :: "string \<Rightarrow> int64 option"
  cc_decBeat :: "string \<Rightarrow> rawQuotaHeartbeat option"
  cc_event :: "string \<Rightarrow> (event option \<times> bool) option"

definition quotaRecordOf :: "string \<Rightarrow> UserQuota \<Rightarrow> QuotaRecord" where
  "quotaRecordOf user quota =
     \<lparr>qr_UserEmail = user, qr_WeekStartAt = uq_WeekStartAt quota, qr_WeekEndAt = uq_WeekEndAt quota,
      qr_LimitTokens = (case uq_LimitTokens quota of None \<Rightarrow> - 1 | Some n \<Rightarrow> n), qr_UsedTokens = uq_UsedTokens quota,
      qr_RawUsedTokens = uq_RawUsedTokens quota, qr_WeightedRawUsedTokens = uq_WeightedRawUsedTokens quota,
      qr_QuotaUnit = ''weighted_tokens''\<rparr>"

definition quotaRecords :: "(string, UserQuota) gomap \<Rightarrow> QuotaRecord list" where
  "quotaRecords quotas = map (\<lambda>(user, quota). quotaRecordOf user quota) (sort_key fst quotas)"

record SnapshotResult =
  sr_Generation :: string
  sr_Records :: nat
  sr_Changed :: bool

record quota_io =
  qo_root :: string
  qo_secured :: bool
  qo_now :: int64
  qo_uuid :: string
  qo_write :: file_write

definition PublishQuotaSnapshot ::
  "collect_codec \<Rightarrow> quota_io \<Rightarrow> (string, UserQuota) gomap \<Rightarrow> string option \<Rightarrow> (collect_error + SnapshotResult) \<times> string option" where
  "PublishQuotaSnapshot codec io quotas file =
     (if trim_space (qo_root io) = [] then (Inl QuotaRootRequired, file)
      else (let records = quotaRecords quotas
            in case cc_digest codec records of
                 None \<Rightarrow> (Inl QuotaEncode, file)
               | Some semantic \<Rightarrow>
                   (let digest = sha256_hex semantic;
                        (previousGeneration, previousDigest) = (case file of None \<Rightarrow> ([], []) | Some raw \<Rightarrow> cc_peekQuota codec raw)
                    in if previousDigest = digest \<and> previousGeneration \<noteq> []
                       then (if qo_secured io then (Inr \<lparr>sr_Generation = previousGeneration, sr_Records = length records, sr_Changed = False\<rparr>, file)
                             else (Inl QuotaWrite, file))
                       else (let generation = newGeneration (qo_uuid io)
                             in case cc_encQuota codec generation (qo_now io) digest records of
                                  None \<Rightarrow> (Inl QuotaEncode, file)
                                | Some text0 \<Rightarrow>
                                    (let raw = text0 @ [CHR 0x0A]
                                     in case ParseQuotaSnapshot (cc_float codec) (cc_decQuota codec) (RBytes raw) of
                                          Inl e \<Rightarrow> (Inl (QuotaInvalid e), file)
                                        | Inr snapshot \<Rightarrow>
                                            (case qo_write io of
                                               Written \<Rightarrow> (Inr \<lparr>sr_Generation = generation, sr_Records = length records, sr_Changed = True\<rparr>, Some raw)
                                             | NotReplaced \<Rightarrow> (Inl QuotaWrite, file)
                                             | ReplacedThenFailed \<Rightarrow> (Inl QuotaWrite, Some raw)))))))"

definition PublishQuotaHeartbeat ::
  "collect_codec \<Rightarrow> quota_io \<Rightarrow> bool \<Rightarrow> string \<Rightarrow> int64 \<Rightarrow> int64 \<Rightarrow> string option \<Rightarrow> (collect_error + HeartbeatPayload) \<times> string option" where
  "PublishQuotaHeartbeat codec io ok errorText staleAfterSeconds failOpenAfterSeconds file =
     (if trim_space (qo_root io) = [] then (Inl QuotaRootRequired, file)
      else (let previous = (case Option.bind file (cc_peekBeat codec) of None \<Rightarrow> 0 | Some t \<Rightarrow> max t 0);
                payload = \<lparr>hp_Version = 1, hp_UpdatedAt = qo_now io, hp_OK = ok, hp_Error = truncateRunes errorText 500,
                           hp_StaleAfterSeconds = max staleAfterSeconds 5, hp_LastSuccessAt = (if ok then qo_now io else previous),
                           hp_FailOpenAfterSeconds = max failOpenAfterSeconds 30\<rparr>
            in case cc_encBeat codec payload of
                 None \<Rightarrow> (Inl QuotaEncode, file)
               | Some text0 \<Rightarrow>
                   (let raw = text0 @ [CHR 0x0A]
                    in case ParseQuotaHeartbeat (cc_float codec) (cc_decBeat codec) (RBytes raw) of
                         Inl e \<Rightarrow> (Inl (QuotaInvalid e), file)
                       | Inr heartbeat \<Rightarrow>
                           (case qo_write io of
                              Written \<Rightarrow> (Inr payload, Some raw)
                            | NotReplaced \<Rightarrow> (Inl QuotaWrite, file)
                            | ReplacedThenFailed \<Rightarrow> (Inl QuotaWrite, Some raw)))))"

subsection \<open>Fenced writes\<close>

record collected =
  cl_control :: controldb
  cl_usage :: usagedb
  cl_quota :: "string option"
  cl_beat :: "string option"
  cl_writes :: nat

text \<open>The circumstances of the write of a number: of its fence and of itself.\<close>

record write_io =
  wi_fence :: tx
  wi_fenceAt :: int64
  wi_tx :: tx
  wi_now :: int64
  wi_files :: quota_io

record collector_env =
  cv_wired :: bool
  cv_config :: RuntimeConfig
  cv_fence :: "Lease list"
  cv_keysRead :: bool
  cv_teamsRead :: bool
  cv_accountsRead :: bool
  cv_quotaRead :: tx
  cv_quotaNow :: int64
  cv_ensure :: tx
  cv_ensureAt :: int64
  cv_random :: "string option list"
  cv_io :: "nat \<Rightarrow> write_io"
  cv_queue :: "string \<Rightarrow> queue_io"
  cv_text :: "collect_error \<Rightarrow> string"

definition fencedWrite :: "collector_env \<Rightarrow> (write_io \<Rightarrow> collected \<Rightarrow> (collect_error + 'a) \<times> collected) \<Rightarrow> collected \<Rightarrow> (collect_error + 'a) \<times> collected" where
  "fencedWrite env operation w =
     (let io = cv_io env (cl_writes w); w1 = w\<lparr>cl_writes := Suc (cl_writes w)\<rparr>
      in case WithWriteFence (wi_fence io) (wi_fenceAt io) (cv_fence env) (cb_leases (cl_control w)) (\<lambda>_. Inr (operation io w1)) of
           Inl e \<Rightarrow> (Inl (CollectFence e), w1)
         | Inr result \<Rightarrow> result)"

definition usageWrite :: "collector_env \<Rightarrow> (tx \<Rightarrow> int64 \<Rightarrow> usagedb \<Rightarrow> (usage_error + 'a) \<times> usagedb) \<Rightarrow> collected \<Rightarrow> (collect_error + 'a) \<times> collected" where
  "usageWrite env operation w =
     fencedWrite env (\<lambda>io w. case operation (wi_tx io) (wi_now io) (cl_usage w) of
       (r, db) \<Rightarrow> (map_sum CollectUsage id r, w\<lparr>cl_usage := db\<rparr>)) w"

definition snapshotWrite :: "collector_env \<Rightarrow> collect_codec \<Rightarrow> (string, UserQuota) gomap \<Rightarrow> collected \<Rightarrow> (collect_error + SnapshotResult) \<times> collected" where
  "snapshotWrite env codec quotas w =
     fencedWrite env (\<lambda>io w. case PublishQuotaSnapshot codec (wi_files io) quotas (cl_quota w) of (r, f) \<Rightarrow> (r, w\<lparr>cl_quota := f\<rparr>)) w"

definition heartbeatWrite :: "collector_env \<Rightarrow> collect_codec \<Rightarrow> bool \<Rightarrow> string \<Rightarrow> collected \<Rightarrow> (collect_error + HeartbeatPayload) \<times> collected" where
  "heartbeatWrite env codec ok errorText w =
     fencedWrite env (\<lambda>io w.
       case PublishQuotaHeartbeat codec (wi_files io) ok errorText (rc_HeartbeatStaleAfterSeconds (cv_config env))
              (rc_QuotaFailOpenAfterSeconds (cv_config env)) (cl_beat w) of
         (r, f) \<Rightarrow> (r, w\<lparr>cl_beat := f\<rparr>)) w"

subsection \<open>Draining an account\<close>

definition addCounters :: "IngestCounters \<Rightarrow> IngestCounters \<Rightarrow> IngestCounters" where
  "addCounters a b =
     \<lparr>ic_Received = ic_Received a + ic_Received b, ic_Inserted = ic_Inserted a + ic_Inserted b, ic_Duplicate = ic_Duplicate a + ic_Duplicate b,
      ic_Unmapped = ic_Unmapped a + ic_Unmapped b, ic_MissingAPIKey = ic_MissingAPIKey a + ic_MissingAPIKey b,
      ic_UnknownAPIKey = ic_UnknownAPIKey a + ic_UnknownAPIKey b, ic_Ignored = ic_Ignored a + ic_Ignored b\<rparr>"

definition decodeItems :: "collect_codec \<Rightarrow> string list \<Rightarrow> event list" where
  "decodeItems codec items =
     concat (map (\<lambda>item. case cc_event codec item of Some (Some e, True) \<Rightarrow> [e] | _ \<Rightarrow> []) items)"

definition consumeBatch ::
  "usage_lib \<Rightarrow> collect_codec \<Rightarrow> collector_env \<Rightarrow> string \<Rightarrow> string list \<Rightarrow> IngestCounters \<times> collected \<Rightarrow> collect_error option \<times> IngestCounters \<times> collected" where
  "consumeBatch lib codec env account items st =
     (case st of (totals, w) \<Rightarrow>
        let events = decodeItems codec items;
            policy = \<lparr>wp_ModelMultipliers = rc_ModelMultipliers (cv_config env), wp_ReasoningMultipliers = rc_ReasoningMultipliers (cv_config env)\<rparr>
        in if events = [] then (None, totals, w)
           else (case usageWrite env (\<lambda>tx now. IngestEvents lib tx now account events policy) w of
                   (Inl e, w') \<Rightarrow> (Some e, totals, w')
                 | (Inr counters, w') \<Rightarrow> (None, addCounters totals counters, w')))"

definition DrainAccount ::
  "usage_lib \<Rightarrow> collect_codec \<Rightarrow> collector_env \<Rightarrow> string \<Rightarrow> collected \<Rightarrow> collect_error option \<times> IngestCounters \<times> collected" where
  "DrainAccount lib codec env account w =
     queueDrain (rc_BatchSize (cv_config env)) (cv_queue env account) (consumeBatch lib codec env account) (noCounters, w)"

record RunResult =
  rr_Counters :: IngestCounters
  rr_Errors :: "string list"
  rr_Snapshot :: SnapshotResult

definition noResult :: RunResult where
  "noResult = \<lparr>rr_Counters = noCounters, rr_Errors = [], rr_Snapshot = \<lparr>sr_Generation = [], sr_Records = 0, sr_Changed = False\<rparr>\<rparr>"

definition addError :: "collector_env \<Rightarrow> string \<Rightarrow> collect_error \<Rightarrow> RunResult \<Rightarrow> RunResult" where
  "addError env scope e result =
     result\<lparr>rr_Errors := rr_Errors result @ [safeRuntimeError (cv_text env) scope e (rc_ManagementKey (cv_config env))]\<rparr>"

fun drainAccounts :: "usage_lib \<Rightarrow> collect_codec \<Rightarrow> collector_env \<Rightarrow> Account list \<Rightarrow> RunResult \<Rightarrow> collected \<Rightarrow> RunResult \<times> collected" where
  "drainAccounts lib codec env [] result w = (result, w)"
| "drainAccounts lib codec env (a # as) result w =
     (if \<not> an_GroupEnabled a then drainAccounts lib codec env as result w
      else (case NewQueue (''cliproxy-'' @ an_ID a @ '':8317'') (rc_ManagementKey (cv_config env)) (rc_BatchSize (cv_config env)) of
              Some e \<Rightarrow> drainAccounts lib codec env as (addError env (an_ID a) e result) w
            | None \<Rightarrow>
                (case DrainAccount lib codec env (an_ID a) w of
                   (err, counters, w') \<Rightarrow>
                     (let result' = result\<lparr>rr_Counters := addCounters (rr_Counters result) counters\<rparr>
                      in drainAccounts lib codec env as (case err of None \<Rightarrow> result' | Some e \<Rightarrow> addError env (an_ID a) e result') w'))))"

subsection \<open>A run\<close>

definition collectorInvalid :: "collector_env \<Rightarrow> collect_error option" where
  "collectorInvalid env =
     (let c = cv_config env
      in if \<not> cv_wired env then Some CollectDependencies
         else if trim_space (rc_ManagementKey c) = [] then Some CollectKeyRequired
         else if rc_BatchSize c < 1 \<or> rc_BatchSize c > maxBatchSize then Some CollectBatchSize
         else if trim_space (rc_WeekTimezone c) = [] then Some CollectTimezoneRequired else None)"

definition collectorIdentities :: "KeyRecord list \<Rightarrow> (string, InternalKey) gomap \<Rightarrow> UsageIdentity list \<times> string list" where
  "collectorIdentities records internal =
     (let active = map (\<lambda>(user, k). (norm_user user, k)) (filter (\<lambda>(user, k). ik_Status k = ''active'') (sort_key fst internal));
          identities = map (\<lambda>r. \<lparr>ui_Key = kr_Key r, ui_Label = kr_Label r, ui_UserEmail = norm_user (kr_User r), ui_Account = kr_Account r\<rparr>) records @
            map (\<lambda>(user, k). \<lparr>ui_Key = ik_Key k, ui_Label = user, ui_UserEmail = user, ui_Account = []\<rparr>) active
      in (identities, sort (remdups (filter (\<lambda>u. u \<noteq> []) (map (norm_user \<circ> kr_User) records @ map fst active)))))"

text \<open>The teams of some users; the name and style of a team, which the collector does not use, are left out.\<close>

definition ReadUserTeams :: "string list \<Rightarrow> controldb \<Rightarrow> (string, TeamIdentity) gomap" where
  "ReadUserTeams users db =
     map (\<lambda>user. (user, case map_of (cb_memberships db) user of
                         None \<Rightarrow> \<lparr>ti_TeamID = [], ti_MembershipVersion = 0\<rparr>
                       | Some m \<Rightarrow> \<lparr>ti_TeamID = (case um_TeamID m of None \<Rightarrow> [] | Some t \<Rightarrow> t), ti_MembershipVersion = um_MembershipVersion m\<rparr>))
       (normalizedUsers users)"

text \<open>The end of a run: status, heartbeat, and the status once more if the heartbeat failed.\<close>

definition finishRun :: "collect_codec \<Rightarrow> collector_env \<Rightarrow> RunResult \<Rightarrow> collected \<Rightarrow> (RunResult \<times> collect_error option) \<times> collected" where
  "finishRun codec env result w =
     (let status = (\<lambda>result w. usageWrite env (\<lambda>tx now. UpdateCollectorStatus tx now (join_strings ''; '' (rr_Errors result))) w)
      in case status result w of
           (Inl e, w1) \<Rightarrow> ((result, Some e), w1)
         | (Inr _, w1) \<Rightarrow>
             (case heartbeatWrite env codec (rr_Errors result = []) (join_strings ''; '' (rr_Errors result)) w1 of
                (Inr _, w2) \<Rightarrow> ((result, None), w2)
              | (Inl e, w2) \<Rightarrow>
                  (let result' = addError env ''quota heartbeat'' e result
                   in case status result' w2 of
                        (Inl e', w3) \<Rightarrow> ((result', Some e'), w3)
                      | (Inr _, w3) \<Rightarrow> ((result', None), w3))))"

definition publishRun :: "usage_lib \<Rightarrow> collect_codec \<Rightarrow> collector_env \<Rightarrow> string list \<Rightarrow> RunResult \<Rightarrow> collected \<Rightarrow> (RunResult \<times> collect_error option) \<times> collected" where
  "publishRun lib codec env users result w =
     (case WeeklyQuotas lib (cv_quotaRead env) (cv_quotaNow env) users (rc_DefaultWeeklyTokens (cv_config env)) (cl_usage w) of
        Inl e \<Rightarrow> finishRun codec env (addError env ''quota snapshot'' (CollectUsage e) result) w
      | Inr quotas \<Rightarrow>
          (case snapshotWrite env codec quotas w of
             (Inr s, w1) \<Rightarrow> finishRun codec env (result\<lparr>rr_Snapshot := s\<rparr>) w1
           | (Inl e, w1) \<Rightarrow> finishRun codec env (addError env ''quota snapshot'' e result) w1))"

definition collectOnce :: "usage_lib \<Rightarrow> collect_codec \<Rightarrow> collector_env \<Rightarrow> collected \<Rightarrow> (RunResult \<times> collect_error option) \<times> collected" where
  "collectOnce lib codec env w =
     (case collectorInvalid env of Some e \<Rightarrow> ((noResult, Some e), w) | None \<Rightarrow>
      if \<not> cv_keysRead env then ((noResult, Some (CollectRead ''keys'')), w)
      else (let records = ReadKeyRecords (cl_control w); users = activeRecordUsers records
            in case EnsureInternalKeys (cv_ensure env) (cv_ensureAt env) (cv_fence env) (cv_random env) users (cl_control w) of
                 (Inl e, db) \<Rightarrow> ((noResult, Some (CollectInternalKeys e)), w\<lparr>cl_control := db\<rparr>)
               | (Inr internal, db) \<Rightarrow>
                   (case collectorIdentities records internal of (identities, identityUsers) \<Rightarrow>
                      case usageWrite env (\<lambda>tx now. SyncIdentities tx now identities) (w\<lparr>cl_control := db\<rparr>) of
                        (Inl e, w1) \<Rightarrow> ((noResult, Some e), w1)
                      | (Inr _, w1) \<Rightarrow>
                          if \<not> cv_teamsRead env then ((noResult, Some (CollectRead ''teams'')), w1)
                          else (case usageWrite env (\<lambda>tx now. SyncUserTeams tx (ReadUserTeams identityUsers (cl_control w1))) w1 of
                                  (Inl e, w2) \<Rightarrow> ((noResult, Some e), w2)
                                | (Inr _, w2) \<Rightarrow>
                                    (case usageWrite env EnsureUsageBreakdownStarted w2 of
                                       (Inl e, w3) \<Rightarrow> ((noResult, Some e), w3)
                                     | (Inr _, w3) \<Rightarrow>
                                         (case usageWrite env (\<lambda>tx now. EnsureWeekTimezone lib tx now (rc_WeekTimezone (cv_config env))) w3 of
                                            (Inl e, w4) \<Rightarrow> ((noResult, Some e), w4)
                                          | (Inr timezoneChanged, w4) \<Rightarrow>
                                              (case usageWrite env (\<lambda>tx now. ConfigurePersonalQuotaReset lib tx now
                                                      (rc_ResetPersonalWeeklyOnNewWeek (cv_config env)) timezoneChanged) w4 of
                                                 (Inl e, w5) \<Rightarrow> ((noResult, Some e), w5)
                                               | (Inr _, w5) \<Rightarrow>
                                                   if \<not> cv_accountsRead env then ((noResult, Some (CollectRead ''accounts'')), w5)
                                                   else (case drainAccounts lib codec env (ReadAccounts (cl_control w5)) noResult w5 of
                                                           (result, w6) \<Rightarrow> publishRun lib codec env users result w6))))))))"

text \<open>The command that rebuilds the weekly usage.\<close>

definition collectorRebuild ::
  "usage_lib \<Rightarrow> collect_codec \<Rightarrow> collector_env \<Rightarrow> collected \<Rightarrow> (collect_error + RebuildResult \<times> SnapshotResult) \<times> collected" where
  "collectorRebuild lib codec env w =
     (case collectorInvalid env of Some e \<Rightarrow> (Inl e, w) | None \<Rightarrow>
      if \<not> cv_keysRead env then (Inl (CollectRead ''keys''), w)
      else (let users = activeRecordUsers (ReadKeyRecords (cl_control w))
            in case usageWrite env (\<lambda>tx now. EnsureWeekTimezone lib tx now (rc_WeekTimezone (cv_config env))) w of
                 (Inl e, w1) \<Rightarrow> (Inl e, w1)
               | (Inr changed, w1) \<Rightarrow>
                   (case usageWrite env (\<lambda>tx now. RebuildWeeklyUsage lib tx now) w1 of
                      (Inl e, w2) \<Rightarrow> (Inl e, w2)
                    | (Inr rebuilt, w2) \<Rightarrow>
                        (case usageWrite env (\<lambda>tx now. ConfigurePersonalQuotaReset lib tx now
                                (rc_ResetPersonalWeeklyOnNewWeek (cv_config env)) changed) w2 of
                           (Inl e, w3) \<Rightarrow> (Inl e, w3)
                         | (Inr _, w3) \<Rightarrow>
                             (case WeeklyQuotas lib (cv_quotaRead env) (cv_quotaNow env) users (rc_DefaultWeeklyTokens (cv_config env)) (cl_usage w3) of
                                Inl e \<Rightarrow> (Inl (CollectUsage e), w3)
                              | Inr quotas \<Rightarrow>
                                  (case snapshotWrite env codec quotas w3 of
                                     (Inl e, w4) \<Rightarrow> (Inl e, w4)
                                   | (Inr s, w4) \<Rightarrow>
                                       (case heartbeatWrite env codec True [] w4 of
                                          (Inl e, w5) \<Rightarrow> (Inl e, w5)
                                        | (Inr _, w5) \<Rightarrow>
                                            (case usageWrite env (\<lambda>tx now. UpdateCollectorStatus tx now []) w5 of
                                               (Inl e, w6) \<Rightarrow> (Inl e, w6)
                                             | (Inr _, w6) \<Rightarrow> (Inr (rebuilt, s), w6)))))))))"

end
