(* ===== verification/Collector_Run.thy ===== *)
theory Collector_Run
  imports Collector Publish
begin

text \<open>
  What a run of the usage collector does: its steps as a relation (\<open>collector_step\<close>), that every run is a
  sequence of such steps, each write under a fence that held when it was made, and that a run without
  errors makes the gateways enforce the quotas it computed.
\<close>

section \<open>Specification\<close>

definition fenceHolds :: "collector_env \<Rightarrow> collected \<Rightarrow> bool" where
  "fenceHolds env w \<longleftrightarrow> cv_fence env \<noteq> [] \<and>
     validateWriteFence (wi_fenceAt (cv_io env (cl_writes w))) (cv_fence env) (cb_leases (cl_control w)) = None"

inductive collector_step :: "usage_lib \<Rightarrow> collect_codec \<Rightarrow> collector_env \<Rightarrow> collected \<Rightarrow> collected \<Rightarrow> bool" for lib codec env where
  refused: "collector_step lib codec env w (w\<lparr>cl_writes := Suc (cl_writes w)\<rparr>)"
| recorded: "fenceHolds env w \<Longrightarrow> usage_step lib (cl_usage w) db \<Longrightarrow>
     collector_step lib codec env w (w\<lparr>cl_writes := Suc (cl_writes w), cl_usage := db\<rparr>)"
| snapshot: "fenceHolds env w \<Longrightarrow> PublishQuotaSnapshot codec io quotas (cl_quota w) = (r, f) \<Longrightarrow>
     collector_step lib codec env w (w\<lparr>cl_writes := Suc (cl_writes w), cl_quota := f\<rparr>)"
| beat: "fenceHolds env w \<Longrightarrow> PublishQuotaHeartbeat codec io ok errorText stale failOpen (cl_beat w) = (r', f) \<Longrightarrow>
     collector_step lib codec env w (w\<lparr>cl_writes := Suc (cl_writes w), cl_beat := f\<rparr>)"
| internal: "EnsureInternalKeys tx now (cv_fence env) random users (cl_control w) = (r'', db') \<Longrightarrow>
     collector_step lib codec env w (w\<lparr>cl_control := db'\<rparr>)"

abbreviation collector_steps :: "usage_lib \<Rightarrow> collect_codec \<Rightarrow> collector_env \<Rightarrow> collected \<Rightarrow> collected \<Rightarrow> bool" where
  "collector_steps lib codec env \<equiv> (collector_step lib codec env)\<^sup>*\<^sup>*"

text \<open>The steps that leave the quota snapshot alone: all of a run up to its publication.\<close>

abbreviation quiet_steps :: "usage_lib \<Rightarrow> collect_codec \<Rightarrow> collector_env \<Rightarrow> collected \<Rightarrow> collected \<Rightarrow> bool" where
  "quiet_steps lib codec env \<equiv> (\<lambda>w w'. collector_step lib codec env w w' \<and> cl_quota w' = cl_quota w)\<^sup>*\<^sup>*"

text \<open>Both quota files are missing or such that the gateway's own parser accepts them.\<close>

definition quotaFilesValid :: "collect_codec \<Rightarrow> collected \<Rightarrow> bool" where
  "quotaFilesValid codec w \<longleftrightarrow>
     (case cl_quota w of None \<Rightarrow> True | Some raw \<Rightarrow> \<not> isl (ParseQuotaSnapshot (cc_float codec) (cc_decQuota codec) (RBytes raw))) \<and>
     (case cl_beat w of None \<Rightarrow> True | Some raw \<Rightarrow> \<not> isl (ParseQuotaHeartbeat (cc_float codec) (cc_decBeat codec) (RBytes raw)))"

section \<open>Lemmas\<close>

subsection \<open>A run is a sequence of steps\<close>

lemma fencedWrite_cases:
  assumes "fencedWrite env operation w = (r, w')"
  obtains (refused) e where "r = Inl (CollectFence e)" "w' = w\<lparr>cl_writes := Suc (cl_writes w)\<rparr>"
  | (ran) "fenceHolds env w" "operation (cv_io env (cl_writes w)) (w\<lparr>cl_writes := Suc (cl_writes w)\<rparr>) = (r, w')"
  using assms unfolding fencedWrite_def WithWriteFence_def Let_def fenceHolds_def
  by (auto split: if_splits option.splits sum.splits)

lemma quiet_steps_collector: "quiet_steps lib codec env w w' \<Longrightarrow> collector_steps lib codec env w w'"
  by (induction rule: rtranclp_induct) (auto intro: rtranclp.rtrancl_into_rtrancl)


lemma usageWrite_quiet:
  assumes "usageWrite env operation w = (r, w')"
    and "\<And>tx now q db. operation tx now (cl_usage w) = (q, db) \<Longrightarrow> usage_step lib (cl_usage w) db"
  shows "quiet_steps lib codec env w w'"
  using assms(1) unfolding usageWrite_def
proof (cases rule: fencedWrite_cases)
  case ran
  obtain q db where q: "operation (wi_tx (cv_io env (cl_writes w))) (wi_now (cv_io env (cl_writes w))) (cl_usage w) = (q, db)" by fastforce
  then have "w' = w\<lparr>cl_writes := Suc (cl_writes w), cl_usage := db\<rparr>" using ran(2) by simp
  then show ?thesis using recorded [OF ran(1) assms(2) [OF q], where codec = codec] by (intro r_into_rtranclp) simp
qed (auto intro: refused)

lemmas usageWrite_step = usageWrite_quiet [THEN quiet_steps_collector]

lemma snapshotWrite_step:
  assumes "snapshotWrite env codec quotas w = (r, w')" shows "collector_steps lib codec env w w'"
  using assms unfolding snapshotWrite_def
proof (cases rule: fencedWrite_cases)
  case ran
  obtain q f where q: "PublishQuotaSnapshot codec (wi_files (cv_io env (cl_writes w))) quotas (cl_quota w) = (q, f)" by fastforce
  then have "w' = w\<lparr>cl_writes := Suc (cl_writes w), cl_quota := f\<rparr>" using ran(2) by simp
  then show ?thesis using snapshot [OF ran(1) q, where lib = lib] by blast
qed (auto intro: refused)

lemma heartbeatWrite_step:
  assumes "heartbeatWrite env codec ok errorText w = (r, w')" shows "collector_steps lib codec env w w'"
  using assms unfolding heartbeatWrite_def
proof (cases rule: fencedWrite_cases)
  case ran
  obtain q f where q: "PublishQuotaHeartbeat codec (wi_files (cv_io env (cl_writes w))) ok errorText (rc_HeartbeatStaleAfterSeconds (cv_config env))
              (rc_QuotaFailOpenAfterSeconds (cv_config env)) (cl_beat w) = (q, f)" by fastforce
  then have "w' = w\<lparr>cl_writes := Suc (cl_writes w), cl_beat := f\<rparr>" using ran(2) by simp
  then show ?thesis using beat [OF ran(1) q, where lib = lib] by blast
qed (auto intro: refused)

text \<open>One write and what follows it if it succeeds, as seen by a property of the result.\<close>

lemma run_bind:
  assumes "R\<^sup>*\<^sup>* w w0" and "\<And>r w1. m = (r, w1) \<Longrightarrow> R\<^sup>*\<^sup>* w0 w1"
    and "\<And>e w1. R\<^sup>*\<^sup>* w w1 \<Longrightarrow> P (g e w1)" and "\<And>a w1. m = (Inr a, w1) \<Longrightarrow> R\<^sup>*\<^sup>* w w1 \<Longrightarrow> P (f a w1)"
  shows "P (case m of (Inl e, w1) \<Rightarrow> g e w1 | (Inr a, w1) \<Rightarrow> f a w1)"
proof (cases m)
  case (Pair r w1)
  then show ?thesis using assms(3,4) rtranclp_trans [OF assms(1) assms(2) [OF Pair]] by (cases r) auto
qed

lemma drainReplies_quiet:
  assumes "\<And>items st err st'. consume items st = (err, st') \<Longrightarrow> quiet_steps lib codec env (snd st) (snd st')"
  shows "drainReplies batchSize consume replies st = (err, st') \<Longrightarrow> quiet_steps lib codec env (snd st) (snd st')"
proof (induction replies arbitrary: st)
  case (Cons reply replies)
  show ?case
  proof (cases "Option.bind reply usageQueueItems")
    case None
    then show ?thesis using Cons.prems by (cases reply) auto
  next
    case (Some items)
    then obtain x where x: "reply = Some x" "usageQueueItems x = Some items" by (auto simp: bind_eq_Some_conv)
    obtain e s1 where c: "consume items st = (e, s1)" by (cases "consume items st")
    have s1: "quiet_steps lib codec env (snd st) (snd s1)" by (rule assms [OF c])
    show ?thesis
    proof (cases "items = [] \<or> e \<noteq> None \<or> int (length items) < batchSize")
      case True
      then have "st' = st \<or> st' = s1" using Cons.prems x c by (auto split: if_splits option.splits)
      then show ?thesis using s1 by auto
    next
      case False
      then have "drainReplies batchSize consume replies s1 = (err, st')" using Cons.prems x c by auto
      from rtranclp_trans [OF s1 Cons.IH [OF this]] show ?thesis .
    qed
  qed
qed simp

lemma consumeBatch_quiet:
  assumes "consumeBatch lib codec env account items st = (err, st')"
  shows "quiet_steps lib codec env (snd st) (snd st')"
proof -
  obtain totals w where st: "st = (totals, w)" by fastforce
  have "quiet_steps lib codec env w (snd (snd (consumeBatch lib codec env account items st)))"
    unfolding consumeBatch_def st prod.case Let_def
    by (auto intro: run_bind [where w = w and P = "\<lambda>x. quiet_steps lib codec env w (snd (snd x))", OF rtranclp.rtrancl_refl usageWrite_quiet] intro: ingest)
  then show ?thesis using assms st by simp
qed

lemma DrainAccount_quiet:
  assumes "DrainAccount lib codec env account w = (err, counters, w')" shows "quiet_steps lib codec env w w'"
  using assms drainReplies_quiet [OF consumeBatch_quiet, where st = "(noCounters, w)"] unfolding DrainAccount_def queueDrain_def
  by (auto split: if_splits)

lemma drainAccounts_quiet: "quiet_steps lib codec env w (snd (drainAccounts lib codec env accounts result w))"
proof (induction accounts arbitrary: result w)
  case (Cons a accounts)
  obtain err counters w1 where d: "DrainAccount lib codec env (an_ID a) w = (err, counters, w1)" by (cases "DrainAccount lib codec env (an_ID a) w") auto
  from Cons.IH [of w] rtranclp_trans [OF DrainAccount_quiet [OF d] Cons.IH [of w1]] show ?case
    by (simp add: d Let_def split: option.split)
qed simp

lemma run_steps:
  assumes "collector_steps lib codec env w w0" and "\<And>r w1. m = (r, w1) \<Longrightarrow> collector_steps lib codec env w0 w1"
    and "\<And>e w1. collector_steps lib codec env w w1 \<Longrightarrow> collector_steps lib codec env w (snd (g e w1))"
    and "\<And>a w1. m = (Inr a, w1) \<Longrightarrow> collector_steps lib codec env w w1 \<Longrightarrow> collector_steps lib codec env w (snd (f a w1))"
  shows "collector_steps lib codec env w (snd (case m of (Inl e, w1) \<Rightarrow> g e w1 | (Inr a, w1) \<Rightarrow> f a w1))"
  using assms by (rule run_bind [where P = "\<lambda>x. collector_steps lib codec env w (snd x)"])

lemma finishRun_steps: "collector_steps lib codec env w w0 \<Longrightarrow> collector_steps lib codec env w (snd (finishRun codec env result w0))"
  unfolding finishRun_def Let_def
  by (rule run_steps, assumption, erule usageWrite_step, erule status, simp, rule run_steps, assumption, erule heartbeatWrite_step,
      rule run_steps, assumption, erule usageWrite_step, erule status, simp_all)

lemma publishRun_steps: "collector_steps lib codec env w w0 \<Longrightarrow> collector_steps lib codec env w (snd (publishRun lib codec env users result w0))"
  unfolding publishRun_def
  by (cases "WeeklyQuotas lib (cv_quotaRead env) (cv_quotaNow env) users (rc_DefaultWeeklyTokens (cv_config env)) (cl_usage w0)")
    (simp_all add: finishRun_steps, rule run_steps, assumption, erule snapshotWrite_step, simp_all add: finishRun_steps)

lemma if_cases: "(c \<Longrightarrow> P a) \<Longrightarrow> (\<not> c \<Longrightarrow> P b) \<Longrightarrow> P (if c then a else b)" by simp

lemma sum_cases: "(\<And>e. P (f e)) \<Longrightarrow> (\<And>a. x = Inr a \<Longrightarrow> P (g a)) \<Longrightarrow> P (case x of Inl e \<Rightarrow> f e | Inr a \<Rightarrow> g a)" by (cases x) auto

text \<open>A run of the collector ends early with an error, or in \<open>publishRun\<close>; either way it got there by steps that leave the quota snapshot alone.\<close>

definition run_ends :: "usage_lib \<Rightarrow> collect_codec \<Rightarrow> collector_env \<Rightarrow> string list \<Rightarrow> collected \<Rightarrow> (RunResult \<times> collect_error option) \<times> collected \<Rightarrow> bool" where
  "run_ends lib codec env users w x \<longleftrightarrow>
     (\<exists>w1. quiet_steps lib codec env w w1 \<and> ((\<exists>e. x = ((noResult, Some e), w1)) \<or> (\<exists>result. x = publishRun lib codec env users result w1)))"

lemma run_ends_bind:
  assumes "quiet_steps lib codec env w w0" and "\<And>r w1. m = (r, w1) \<Longrightarrow> quiet_steps lib codec env w0 w1"
    and "\<And>a w1. m = (Inr a, w1) \<Longrightarrow> quiet_steps lib codec env w w1 \<Longrightarrow> run_ends lib codec env users w (f a w1)"
  shows "run_ends lib codec env users w (case m of (Inl e, w1) \<Rightarrow> ((noResult, Some e), w1) | (Inr a, w1) \<Rightarrow> f a w1)"
  using assms by (intro run_bind [where P = "run_ends lib codec env users w"]) (auto simp: run_ends_def)

lemma run_ends_failed: "quiet_steps lib codec env w w1 \<Longrightarrow> run_ends lib codec env users w ((noResult, Some e), w1)"
  by (auto simp: run_ends_def)

lemma run_ends_published: "quiet_steps lib codec env w w1 \<Longrightarrow> run_ends lib codec env users w (publishRun lib codec env users result w1)"
  by (auto simp: run_ends_def)

lemma drained_ends:
  assumes "quiet_steps lib codec env w w1"
  shows "run_ends lib codec env users w (case drainAccounts lib codec env accounts result w1 of (result', w2) \<Rightarrow> publishRun lib codec env users result' w2)"
proof -
  obtain result' w2 where d: "drainAccounts lib codec env accounts result w1 = (result', w2)" by fastforce
  show ?thesis using run_ends_published [OF rtranclp_trans [OF assms drainAccounts_quiet [of lib codec env w1 accounts result]]] by (simp add: d)
qed

lemma collectOnce_ends: "run_ends lib codec env (activeRecordUsers (ReadKeyRecords (cl_control w))) w (collectOnce lib codec env w)"
proof -
  let ?users = "activeRecordUsers (ReadKeyRecords (cl_control w))"
  obtain r db where e: "EnsureInternalKeys (cv_ensure env) (cv_ensureAt env) (cv_fence env) (cv_random env) ?users (cl_control w) = (r, db)" by fastforce
  then have w: "quiet_steps lib codec env w (w\<lparr>cl_control := db\<rparr>)" using internal [OF e] by (intro r_into_rtranclp) simp
  show ?thesis
  proof (cases "collectorInvalid env \<noteq> None \<or> \<not> cv_keysRead env \<or> isl r")
    case True
    then show ?thesis using e run_ends_failed [OF w] by (cases r) (auto simp: collectOnce_def intro: run_ends_failed split: option.split)
  next
    case False
    then obtain internal where r: "r = Inr internal" by (cases r) auto
    obtain identities identityUsers where i: "collectorIdentities (ReadKeyRecords (cl_control w)) internal = (identities, identityUsers)" by fastforce
    have ok: "collectorInvalid env = None" "cv_keysRead env = True" using False by auto
    show ?thesis
      unfolding collectOnce_def Let_def e ok r i option.case if_False not_True_eq_False prod.case sum.case
      by (rule run_ends_bind [OF w], erule usageWrite_quiet, erule identities, rule if_cases, erule run_ends_failed)
        (rule run_ends_bind, assumption, erule usageWrite_quiet, erule teams,
         rule run_ends_bind, assumption, erule usageWrite_quiet, erule breakdown,
         rule run_ends_bind, assumption, erule usageWrite_quiet, erule timezone,
         rule run_ends_bind, assumption, erule usageWrite_quiet, erule reset,
         rule if_cases, erule run_ends_failed, erule drained_ends)
  qed
qed

lemma collectOnce_steps: "collector_steps lib codec env w (snd (collectOnce lib codec env w))"
  using collectOnce_ends [of lib codec env w] publishRun_steps [OF quiet_steps_collector]
  by (auto simp: run_ends_def dest: quiet_steps_collector)

lemma collectorRebuild_steps: "collector_steps lib codec env w (snd (collectorRebuild lib codec env w))"
proof (cases "collectorInvalid env \<noteq> None \<or> \<not> cv_keysRead env")
  case True
  then show ?thesis by (auto simp: collectorRebuild_def split: option.split)
next
  case False
  then have ok: "collectorInvalid env = None" "cv_keysRead env = True" by auto
  show ?thesis
    unfolding collectorRebuild_def Let_def ok option.case if_False not_True_eq_False
    apply (rule run_steps, rule rtranclp.rtrancl_refl, erule usageWrite_step, erule timezone, simp)
    apply (rule run_steps, assumption, erule usageWrite_step, erule rebuild, simp)
    apply (rule run_steps, assumption, erule usageWrite_step, erule reset, simp)
    apply (rule sum_cases, simp)
    apply (rule run_steps, assumption, erule snapshotWrite_step, simp)
    apply (rule run_steps, assumption, erule heartbeatWrite_step, simp)
    apply (rule run_steps, assumption, erule usageWrite_step, erule status, simp_all)
    done
qed

subsection \<open>What every step keeps\<close>

lemma PublishQuotaSnapshot_file:
  assumes "PublishQuotaSnapshot codec io quotas file = (r, file')"
  shows "file' = file \<or> (\<exists>raw s. file' = Some raw \<and> ParseQuotaSnapshot (cc_float codec) (cc_decQuota codec) (RBytes raw) = Inr s)"
  using assms unfolding PublishQuotaSnapshot_def Let_def
  by (auto split: if_splits option.splits sum.splits prod.splits file_write.splits)

lemma PublishQuotaHeartbeat_file:
  assumes "PublishQuotaHeartbeat codec io ok errorText stale failOpen file = (r, file')"
  shows "file' = file \<or> (\<exists>raw s. file' = Some raw \<and> ParseQuotaHeartbeat (cc_float codec) (cc_decBeat codec) (RBytes raw) = Inr s)"
  using assms unfolding PublishQuotaHeartbeat_def Let_def
  by (auto split: if_splits option.splits sum.splits file_write.splits)

lemma EnsureInternalKeys_leases: "EnsureInternalKeys tx now fence random users db = (r, db') \<Longrightarrow> cb_leases db' = cb_leases db"
  unfolding EnsureInternalKeys_def Let_def by (erule controlTx_cases) (auto split: sum.splits prod.splits)

lemma collector_step_kept:
  assumes "collector_step lib codec env w w'" "usage_reachable lib (cl_usage w)" "quotaFilesValid codec w"
  shows "usage_reachable lib (cl_usage w') \<and> quotaFilesValid codec w' \<and> cb_leases (cl_control w') = cb_leases (cl_control w)"
  using assms
proof (cases rule: collector_step.cases)
  case (recorded db)
  then show ?thesis using next_step [OF assms(2)] assms(3) by (simp add: quotaFilesValid_def)
next
  case (snapshot io quotas r f)
  then show ?thesis using PublishQuotaSnapshot_file [OF snapshot(3)] assms(2,3) by (auto simp: quotaFilesValid_def)
next
  case (beat io ok errorText stale failOpen r' f)
  then show ?thesis using PublishQuotaHeartbeat_file [OF beat(3)] assms(2,3) by (auto simp: quotaFilesValid_def)
qed (auto simp: quotaFilesValid_def dest: EnsureInternalKeys_leases)

lemma collector_steps_kept:
  assumes "collector_steps lib codec env w w'" "usage_reachable lib (cl_usage w)" "quotaFilesValid codec w"
  shows "usage_reachable lib (cl_usage w') \<and> quotaFilesValid codec w' \<and> cb_leases (cl_control w') = cb_leases (cl_control w)"
  using assms(1)
proof (induction rule: rtranclp_induct)
  case (step w1 w2)
  then show ?case using collector_step_kept [OF step.hyps(2)] by simp
qed (use assms in simp)

text \<open>Once the fence is refused it is refused for good, and nothing is written any more.\<close>

lemma collector_steps_frozen:
  assumes "collector_steps lib codec env w w'"
    and "\<And>n. cl_writes w \<le> n \<Longrightarrow> validateWriteFence (wi_fenceAt (cv_io env n)) (cv_fence env) (cb_leases (cl_control w)) \<noteq> None"
  shows "cl_usage w' = cl_usage w \<and> cl_quota w' = cl_quota w \<and> cl_beat w' = cl_beat w \<and>
     cb_leases (cl_control w') = cb_leases (cl_control w) \<and> cl_writes w \<le> cl_writes w'"
  using assms(1)
proof (induction rule: rtranclp_induct)
  case (step w1 w2)
  then have "\<not> fenceHolds env w1" using assms(2) by (auto simp: fenceHolds_def)
  with step.hyps(2) step.IH show ?case by (cases rule: collector_step.cases) (auto dest: EnsureInternalKeys_leases)
qed simp

subsection \<open>From the quotas to the decision of a gateway\<close>

text \<open>The quota snapshot as \<open>encoding/json\<close> reads it back into the gateway's types: numbers are 64-bit floats.\<close>

definition rawRecord :: "QuotaRecord \<Rightarrow> rawQuotaRecord" where
  "rawRecord q =
     \<lparr>rq_UserEmail = qr_UserEmail q, rq_WeekStartAt = Some (f64_of_int (qr_WeekStartAt q)), rq_WeekEndAt = Some (f64_of_int (qr_WeekEndAt q)),
      rq_LimitTokens = Some (f64_of_int (qr_LimitTokens q)), rq_UsedTokens = Some (f64_of_int (qr_UsedTokens q)),
      rq_RawUsedTokens = AFloat (f64_of_int (qr_RawUsedTokens q)), rq_WeightedRawUsedTokens = AFloat (f64_of_int (qr_WeightedRawUsedTokens q))\<rparr>"

definition rawQuota :: "string \<Rightarrow> int64 \<Rightarrow> string \<Rightarrow> QuotaRecord list \<Rightarrow> rawQuotaSnapshot" where
  "rawQuota generation generatedAt digest records =
     \<lparr>rs_Version = 1, rs_Generation = generation, rs_GeneratedAt = AFloat (f64_of_int generatedAt), rs_ContentSHA256 = digest,
      rs_Records = Some (map rawRecord records)\<rparr>"

























section \<open>Properties\<close>

text \<open>
  C13: Everything the collector writes, it writes under its leases. A run and a rebuild are sequences of
  steps, each of which changes one table or file at most, and only while the fence holds at that moment
  (\<open>collector_step\<close>); in between, the usage database is one that its own operations can reach, the quota files
  are ones the gateways accept, and the leases are untouched. From the write on at which the fence is refused,
  neither the usage database nor the two files change any more, whatever the rest of the run does.
\<close>

theorem collector_writes_fenced:
  assumes "usage_reachable lib (cl_usage w)" "quotaFilesValid codec w"
    and "w' = snd (collectOnce lib codec env w) \<or> w' = snd (collectorRebuild lib codec env w)"
  shows "collector_steps lib codec env w w' \<and> usage_reachable lib (cl_usage w') \<and> quotaFilesValid codec w' \<and>
    cb_leases (cl_control w') = cb_leases (cl_control w) \<and>
    ((\<forall>n \<ge> cl_writes w. validateWriteFence (wi_fenceAt (cv_io env n)) (cv_fence env) (cb_leases (cl_control w)) \<noteq> None) \<longrightarrow>
       cl_usage w' = cl_usage w \<and> cl_quota w' = cl_quota w \<and> cl_beat w' = cl_beat w)"
proof -
  have s: "collector_steps lib codec env w w'" using assms(3) collectOnce_steps collectorRebuild_steps by blast
  show ?thesis using s collector_steps_kept [OF s assms(1,2)] collector_steps_frozen [OF s] by blast
qed

text \<open>A collector for the catalogue and the usage of the other examples; the time of its fence is an argument.\<close>

definition sampleRecord :: QuotaRecord where
  "sampleRecord =
     \<lparr>qr_UserEmail = ''ann'', qr_WeekStartAt = 1759680000, qr_WeekEndAt = 1760284800, qr_LimitTokens = 8, qr_UsedTokens = 10,
      qr_RawUsedTokens = 10, qr_WeightedRawUsedTokens = 10, qr_QuotaUnit = ''weighted_tokens''\<rparr>"

definition sampleQuotaCodec :: collect_codec where
  "sampleQuotaCodec =
     (let g = newGeneration (pe_uuid sampleEnv); d = sha256_hex ''s''
      in \<lparr>cc_float = \<lambda>_. None, cc_digest = \<lambda>records. if records = [sampleRecord] then Some ''s'' else None,
          cc_encQuota = \<lambda>generation at0 digest records.
            if generation = g \<and> at0 = 1760000300 \<and> digest = d \<and> records = [sampleRecord] then Some ''x'' else None,
          cc_peekQuota = \<lambda>_. (g, d), cc_decQuota = \<lambda>_. Some (rawQuota g 1760000300 d [sampleRecord]),
          cc_encBeat = \<lambda>_. Some ''y'', cc_peekBeat = \<lambda>_. None,
          cc_decBeat = \<lambda>_. Some \<lparr>rh_Version = 1, rh_UpdatedAt = Some (Finite 1760000300), rh_OK = Some True, rh_Error = [],
             rh_StaleAfterSeconds = AFloat (Finite 15), rh_LastSuccessAt = Some (Finite 1760000300), rh_FailOpenAfterSeconds = Some (Finite 300)\<rparr>,
          cc_event = \<lambda>_. None\<rparr>)"

definition sampleCollector :: "int64 \<Rightarrow> collector_env" where
  "sampleCollector fenceAt =
     \<lparr>cv_wired = True, cv_config = DefaultRuntimeConfig\<lparr>rc_ManagementKey := ''m'', rc_DefaultWeeklyTokens := Some 8\<rparr>, cv_fence = sampleFence,
      cv_keysRead = True, cv_teamsRead = True, cv_accountsRead = True, cv_quotaRead = TxOK, cv_quotaNow = 1760000200,
      cv_ensure = TxOK, cv_ensureAt = 12, cv_random = sampleRandom,
      cv_io = \<lambda>_. \<lparr>wi_fence = TxOK, wi_fenceAt = fenceAt, wi_tx = TxOK, wi_now = 1760000200,
        wi_files = \<lparr>qo_root = ''/r'', qo_secured = True, qo_now = 1760000300, qo_uuid = pe_uuid sampleEnv, qo_write = Written\<rparr>\<rparr>,
      cv_queue = \<lambda>_. \<lparr>qi_dial = True, qi_auth = Some ''OK'', qi_replies = [Some ReplyNil]\<rparr>, cv_text = \<lambda>_. []\<rparr>"

definition sampleCollected :: collected where
  "sampleCollected = \<lparr>cl_control = sampleRouted, cl_usage = sampleUsed, cl_quota = None, cl_beat = None, cl_writes = 0\<rparr>"

lemma sampleCollector_parts:
  "cl_control sampleCollected = sampleRouted" "cl_usage sampleCollected = sampleUsed" "cl_quota sampleCollected = None" "cl_beat sampleCollected = None"
  "cv_fence (sampleCollector t) = sampleFence" "wi_fenceAt (cv_io (sampleCollector t) n) = t" "wi_fence (cv_io (sampleCollector t) n) = TxOK"
  "wi_tx (cv_io (sampleCollector t) n) = TxOK" "wi_now (cv_io (sampleCollector t) n) = 1760000200"
  "cv_keysRead (sampleCollector t)" "cv_teamsRead (sampleCollector t)" "cv_accountsRead (sampleCollector t)"
  "cv_quotaRead (sampleCollector t) = TxOK" "cv_quotaNow (sampleCollector t) = 1760000200" "cv_random (sampleCollector t) = sampleRandom"
  "cv_ensure (sampleCollector t) = TxOK" "cv_ensureAt (sampleCollector t) = 12"
  "cv_queue (sampleCollector t) account = \<lparr>qi_dial = True, qi_auth = Some ''OK'', qi_replies = [Some ReplyNil]\<rparr>"
  "wi_files (cv_io (sampleCollector t) n) =
     \<lparr>qo_root = ''/r'', qo_secured = True, qo_now = 1760000300, qo_uuid = pe_uuid sampleEnv, qo_write = Written\<rparr>"
  "cv_config (sampleCollector t) = DefaultRuntimeConfig\<lparr>rc_ManagementKey := ''m'', rc_DefaultWeeklyTokens := Some 8\<rparr>"
  by (simp_all add: sampleCollected_def sampleCollector_def)

theorem collector_writes_fenced_witness:
  "cl_usage (snd (collectOnce sampleLib sampleQuotaCodec (sampleCollector 17) sampleCollected)) = sampleUsed \<and>
   cl_quota (snd (collectOnce sampleLib sampleQuotaCodec (sampleCollector 17) sampleCollected)) = None"
proof -
  have "validateWriteFence 17 sampleFence (cb_leases sampleRouted) \<noteq> None" by code_simp
  then have f: "\<forall>n \<ge> cl_writes sampleCollected. validateWriteFence (wi_fenceAt (cv_io (sampleCollector 17) n)) (cv_fence (sampleCollector 17))
      (cb_leases (cl_control sampleCollected)) \<noteq> None"
    unfolding sampleCollector_parts by blast
  have u: "usage_reachable sampleLib (cl_usage sampleCollected)" unfolding sampleCollector_parts by (rule sampleUsed_reachable)
  have "quotaFilesValid sampleQuotaCodec sampleCollected" by (simp add: quotaFilesValid_def sampleCollector_parts)
  from collector_writes_fenced [OF u this disjI1 [OF refl], of "sampleCollector 17"] f show ?thesis
    unfolding sampleCollector_parts by blast
qed


















end
