(* ===== verification/Spec2Isabelle.thy ===== *)
theory Spec2Isabelle
  imports Drain Float64 Ownership Edge Identity Controller Collector_Run
begin

text \<open>
  A verification development for the Codex account pool (\<open>codex-cpa-pool\<close>): a gateway that lets many users
  share a pool of upstream accounts, each account in its own \<open>cliproxy\<close> container.

  \<^bold>\<open>The program.\<close> Users call the public edge (\<open>internal/edge\<close>) with a bearer key. The edge sends the request to the
  selected one of two gateway slots. The gateway (\<open>internal/gateway\<close>) knows keys, accounts and quotas
  only from three files it watches; it authorises the request, replaces the key by the user's internal key
  and forwards it to the container of the account the user is routed to. The control plane
  (\<open>internal/controlplane\<close>, SQLite) holds accounts, keys, routes, internal keys, teams and leases. Every process
  that writes holds two leases (\<open>internal/ownership\<close>) and proves them with each write, the write fence.
  Services change the catalogue, publish the authentication snapshot and wait until all gateways have
  it; if that fails they undo the change (\<open>internal/identity\<close>, \<open>internal/failover/service.go\<close>). The quota process
  (\<open>internal/quota\<close>) reads the official quotas of the accounts; the failover controller (\<open>internal/failover\<close>)
  moves users away from exhausted accounts. The collector (\<open>internal/collector\<close>) drains the usage queues of the
  accounts into the usage database (\<open>internal/usage\<close>), computes each user's quota of the week and publishes the
  quota snapshot and the heartbeat the gateways enforce.

  \<^bold>\<open>Conventions.\<close> Go's \<open>int64\<close> is \<open>int\<close> with \<open>i64\<close> written at operations that can overflow, \<open>float64\<close> is
  an exact model of binary64 with its rounding (\<open>Float64\<close>), a string is its list of bytes, a map an association list,
  a table the list of its rows in key order. Errors are values. State is passed explicitly; a transaction that
  fails leaves the database as it was. Code outside the repository (\<open>encoding/json\<close>, \<open>strconv.ParseFloat\<close>,
  \<open>url.Parse\<close>, \<open>net/mail\<close>, the time zone database, SQLite's commits, the file system, HTTP, Redis, Docker) is an argument:
  the answers it gives are in the environment records, and what a theorem needs of it is a named hypothesis,
  such as that a snapshot or state is read back as it was written (\<open>encodes\<close>, \<open>reads_back\<close>, \<open>row_reads_back\<close>; for
  \<open>encoding/json\<close> that needs texts in valid UTF-8). Clocks are read from the environment at
  each call, so that they may differ between processes and go back.

  \<^bold>\<open>Theories.\<close>
  \<^item> \<open>Prelude\<close>, \<open>Go_Any\<close>, \<open>Float64\<close>, \<open>Sha256\<close>: integers, maps, strings, \<open>any\<close>, floats, and the hash the keys are
    stored under.
  \<^item> \<open>Gateway_Path\<close> (\<open>gateway/path.go\<close>), \<open>Gateway_Snapshot\<close> (\<open>snapshot.go\<close>), \<open>Gateway_Engine\<close> (\<open>authorize.go\<close>, \<open>status.go\<close>),
    \<open>Gateway_Loader\<close> (\<open>loader.go\<close>), \<open>Gateway_Server\<close> (\<open>server.go\<close>): the gateway. Parsers accept exactly the well-formed
    files; a request is allowed exactly under the stated conditions and with the stated status; the loader
    keeps its last good state and fails closed once it is too old; the server forwards only authorised requests,
    with the internal key, and counts requests in flight correctly over all interleavings (\<open>gw_step\<close>). The locale
    \<open>generation_cell\<close> is the interface of the two snapshot cells.
  \<^item> \<open>Drain\<close> (\<open>runtimeops/account_drain.go\<close>): an account is taken for drained only if every gateway answered and none
    had a request in flight.
  \<^item> \<open>Lease\<close> (\<open>controlplane/lease.go\<close>) and \<open>Ownership\<close> (\<open>ownership/guard.go\<close>): leases over all interleavings of processes
    (\<open>lease_step\<close>): leases exclude each other, fenced writes are ordered by generation, a punctual heartbeat does
    not lose its leases. Locales \<open>row_operation\<close>, \<open>renewing_store\<close>.
  \<^item> \<open>Control_Db\<close>, \<open>Key_Records\<close>, \<open>Routes\<close>, \<open>Account_Names\<close>, \<open>Account_Lifecycle\<close>, \<open>User_Lifecycle\<close>, \<open>Catalog\<close>
    (\<open>controlplane/models.go\<close>, \<open>records.go\<close>, \<open>routes.go\<close>, \<open>account_lifecycle.go\<close>, \<open>user_lifecycle.go\<close>): the catalogue. Its
    invariant \<open>catalog_ok\<close> holds in every state its operations reach (\<open>catalog_step\<close>), each possibly rolled back before the
    next change of anything but the internal keys; every change fails with no change or can be undone exactly, also after
    the internal keys followed it (\<open>reversible_change\<close>, \<open>synced_change\<close>, interpreted on each lifecycle operation); routes change by compare and swap (\<open>route_store\<close>).
  \<^item> \<open>Auth_Snapshot\<close>, \<open>Publish\<close>, \<open>Published_Change\<close> (\<open>failover/auth_snapshot.go\<close>): the publisher. What the gateways accept after a
    publication is what the catalogue says; no reachable catalogue is refused; a change that cannot be
    published is undone.
  \<^item> \<open>Identity\<close> (\<open>identity/service.go\<close>), \<open>Failover_Planner\<close> (\<open>planner.go\<close>), \<open>Failover_States\<close> (\<open>quota_states.go\<close>, \<open>providers.go\<close>),
    \<open>Failover_Service\<close> (\<open>service.go\<close>), \<open>Controller\<close> (\<open>controller.go\<close>): rotation of keys and moves of users are atomic; plans
    are balanced and move only who has to move; users are moved only on fresh evidence; missing evidence never counts
    as capacity; the persisted state and the audit say what was done, with the errors that leave the old state listed. Locale \<open>selector_fn\<close>.
  \<^item> \<open>Quota_Normalize\<close> (\<open>quota/types.go\<close>, \<open>normalize.go\<close>), \<open>Quota_Refresh\<close> (\<open>refresh.go\<close>): the official quotas within
    their bounds, and the round that persists them.
  \<^item> \<open>Week\<close> (\<open>usage/writer.go\<close>, the natural week with zones), \<open>Usage_Events\<close> (event keys, weights; \<open>multiplier_policy.go\<close>),
    \<open>Usage_Writer\<close> (\<open>writer.go\<close>: identities, ingest, rebuild), \<open>Usage_Quota\<close> (quotas, policies, \<open>quota_actions.go\<close>): the usage
    database. In every reachable state (\<open>usage_step\<close>) the weekly sums are those a rebuild computes; an event
    counts once; a quota is the usage against the limit in force.
  \<^item> \<open>Collector\<close>, \<open>Collector_Run\<close> (\<open>collector/*.go\<close>, \<open>sitetime.Name\<close>): a run is a sequence of fenced writes
    (\<open>collector_step\<close>), and the gateways enforce the quotas a run without errors computed, also when it found the snapshot
    on disk unchanged (up to a collision of SHA-256).
  \<^item> \<open>Edge\<close> (\<open>edge/selection.go\<close>, \<open>server.go\<close>): following the selected slot, where exactly each request goes, and that
    internal endpoints are not reachable from outside.

  \<^bold>\<open>Composition.\<close> The chain from a key to a decision is proved across components: catalogue operations keep
  \<open>catalog_ok\<close> (\<open>Catalog\<close>), a publication from such a catalogue is accepted by the gateway's parser and gives the
  decisions the catalogue prescribes (\<open>Publish\<close>), the services are atomic over it, run without other writers in between (\<open>Failover_Service\<close>,
  \<open>Identity\<close>), and the controller acts through the services (\<open>Controller\<close>). The chain from an event to a refusal is: ingest
  keeps the weekly sums (\<open>Usage_Writer\<close>), quotas are computed from them (\<open>Usage_Quota\<close>), published and loaded
  (\<open>Collector_Run\<close>), and enforced by \<open>Authorize\<close>.

  \<^bold>\<open>Bounds and fuel.\<close> Loops over data are structural. \<open>replaceAll\<close>, \<open>runesOf\<close> and \<open>fieldsFrom\<close> take the length of their
  text as fuel, and each round consumes a byte. Waiting loops (drain, publication, heartbeat) run over the list of answers
  their environment gives; that waiting for a publication ends is a theorem of its own
  (\<open>waitForGeneration_ends\<close>). Sums in the usage database are proved under \<open>fits\<close>, since SQLite turns a sum that leaves
  the 64-bit range into a float. Quotas above \<open>2 ^ 53\<close> tokens are not read back exactly by the gateway (\<open>exactQuota\<close>).

  \<^bold>\<open>What the model showed.\<close> A clock that goes back before the acquisition of a lease makes its renewal store a row that
  every later operation on the scope rejects (\<open>RenewLease_clock_back_wedges\<close>). Quota actions store a UUID as an integer primary key, so that no bonus
  or reset is ever recorded (\<open>ApplyQuotaAction_never_adjusts\<close>). The rollback of a move by the failover worker, which does not
  share the lock of the admin process, can route a user to an account deleted meanwhile (\<open>late_route_rollback\<close>).
  The multiplier shown as the default of effort \<open>ultra\<close> is not the one that is applied (\<open>reasoning_defaults_differ\<close>).

  \<^bold>\<open>Not modelled.\<close> The reports and trends of \<open>internal/usage\<close> (read-only SQL), settings, plans and the overview of
  \<open>internal/controlplane\<close>, the account lifecycle manager and the runtime operations (files and containers), the admin and portal
  servers with their sessions and passwords, notifications, the web server, spreadsheets, log maintenance,
  and the commands: they call Docker, the network or the file system, render pages, or pass arguments to the
  components above. Generated types (\<open>contract/models.gen.go\<close>) have no behaviour. Of the modelled components, cancellation by
  context, mutexes that serialise calls, the reverse proxy's transport (hop-by-hop headers, \<open>X-Forwarded-For\<close>), gin's routing, the moment between a request's
  authorisation and its being counted, and the deletion of a user's portal state are left out.
\<close>

end
